(* ===== verification/Prelude.thy ===== *)
theory Prelude
  imports Main "HOL-Library.Code_Target_Numeral"
begin

text \<open>
  Shared vocabulary of the development: a thrown error as the left side of a sum, the
  JavaScript string and number operations the program uses, and the list lemmas the
  component theories share.

  A JavaScript string is modelled as \<^typ>\<open>string\<close>, one \<^typ>\<open>char\<close> per code unit.
  Code units above 255 are outside the model; every validator of the program that is
  modelled here rejects them or treats them like any other non-ASCII code unit.
  A JavaScript number that the code uses as an integer is an \<^typ>\<open>int\<close>, a length or
  an index a \<^typ>\<open>nat\<close>.
\<close>

named_theorems res_simps \<open>results: when a computation that may throw returns a value\<close>
named_theorems str_simps \<open>strings: characterisations of the JavaScript string operations\<close>


section \<open>Computations that may throw\<close>

type_synonym ('e, 'a) res = "'e + 'a"

text \<open>\<open>rbind\<close> sequences two computations: a thrown error skips the rest.\<close>

definition rbind :: "('e, 'a) res \<Rightarrow> ('a \<Rightarrow> ('e, 'b) res) \<Rightarrow> ('e, 'b) res" where
  "rbind m f = (case m of Inl e \<Rightarrow> Inl e | Inr x \<Rightarrow> f x)"

lemma rbind_simps [simp]:
  "rbind (Inl e) f = Inl e"
  "rbind (Inr x) f = f x"
  by (simp_all add: rbind_def)

lemma rbind_Inr_iff [res_simps]: "rbind m f = Inr y \<longleftrightarrow> (\<exists>x. m = Inr x \<and> f x = Inr y)"
  by (cases m) auto

lemma rbind_Inl_iff [res_simps]:
  "rbind m f = Inl e \<longleftrightarrow> m = Inl e \<or> (\<exists>x. m = Inr x \<and> f x = Inl e)"
  by (cases m) auto

lemma if_Inr_iff [res_simps]:
  "(if b then Inl e else m) = Inr y \<longleftrightarrow> \<not> b \<and> m = Inr y"
  by simp

lemma case_option_Inr_iff [res_simps]:
  "(case x of None \<Rightarrow> Inl e | Some v \<Rightarrow> f v) = Inr y \<longleftrightarrow> (\<exists>v. x = Some v \<and> f v = Inr y)"
  by (cases x) auto

text \<open>Apply a computation that may throw to each element in order, stopping at the first error.\<close>

fun rmap :: "('a \<Rightarrow> ('e, 'b) res) \<Rightarrow> 'a list \<Rightarrow> ('e, 'b list) res" where
  "rmap f [] = Inr []"
| "rmap f (x # xs) = rbind (f x) (\<lambda>y. rbind (rmap f xs) (\<lambda>ys. Inr (y # ys)))"

lemma rmap_Inr_set: "rmap f xs = Inr ys \<Longrightarrow> y \<in> set ys \<Longrightarrow> \<exists>x \<in> set xs. f x = Inr y"
  by (induction xs arbitrary: ys) (auto simp: res_simps)

lemma rmap_Inr_length: "rmap f xs = Inr ys \<Longrightarrow> length ys = length xs"
  by (induction xs arbitrary: ys) (auto simp: res_simps)


section \<open>Numbers\<close>

text \<open>\<open>Number.isSafeInteger\<close> on a number that is an integer.\<close>

definition max_safe_integer :: int where
  "max_safe_integer = 9007199254740991"

definition is_safe_integer :: "int \<Rightarrow> bool" where
  "is_safe_integer n \<longleftrightarrow> - max_safe_integer \<le> n \<and> n \<le> max_safe_integer"


section \<open>Characters\<close>

definition code :: "char \<Rightarrow> nat" where
  "code c = of_char c"

definition is_digit :: "char \<Rightarrow> bool" where
  "is_digit c \<longleftrightarrow> 48 \<le> code c \<and> code c \<le> 57"

definition is_lower :: "char \<Rightarrow> bool" where
  "is_lower c \<longleftrightarrow> 97 \<le> code c \<and> code c \<le> 122"

definition is_upper :: "char \<Rightarrow> bool" where
  "is_upper c \<longleftrightarrow> 65 \<le> code c \<and> code c \<le> 90"

definition is_alpha :: "char \<Rightarrow> bool" where
  "is_alpha c \<longleftrightarrow> is_lower c \<or> is_upper c"

text \<open>The class \<open>[0-9a-f]\<close> and its case-insensitive form.\<close>

definition is_lhex :: "char \<Rightarrow> bool" where
  "is_lhex c \<longleftrightarrow> is_digit c \<or> (97 \<le> code c \<and> code c \<le> 102)"

definition is_hex :: "char \<Rightarrow> bool" where
  "is_hex c \<longleftrightarrow> is_lhex c \<or> (65 \<le> code c \<and> code c \<le> 70)"

lemmas char_class_defs =
  is_digit_def is_lower_def is_upper_def is_alpha_def is_lhex_def is_hex_def code_def

lemma code_inject [simp]: "code a = code b \<longleftrightarrow> a = b"
  by (simp add: code_def)

lemma code_less_256 [simp]: "code c < 256"
  by (simp add: code_def)

lemma char_of_code [simp]: "char_of (code c) = c"
  by (simp add: code_def)

lemma code_char_of [simp]: "n < 256 \<Longrightarrow> code (char_of n) = n"
  by (simp add: code_def)

text \<open>
  \<open>toLowerCase\<close>: ASCII capitals and the Latin-1 capitals (the multiplication sign, 215,
  is not a letter) move up by 32.
\<close>

definition char_lower :: "char \<Rightarrow> char" where
  "char_lower c =
     (if is_upper c \<or> (192 \<le> code c \<and> code c \<le> 222 \<and> code c \<noteq> 215)
      then char_of (code c + 32) else c)"

definition to_lower :: "string \<Rightarrow> string" where
  "to_lower s = map char_lower s"

lemma char_lower_not_upper [simp]: "\<not> is_upper (char_lower c)"
  by (auto simp: char_lower_def is_upper_def)

lemma char_lower_id: "\<not> is_upper c \<Longrightarrow> code c < 192 \<Longrightarrow> char_lower c = c"
  by (simp add: char_lower_def)

lemma char_lower_idem [simp]: "char_lower (char_lower c) = char_lower c"
  by (auto simp: char_lower_def is_upper_def)

lemma to_lower_idem [simp]: "to_lower (to_lower s) = to_lower s"
  by (simp add: to_lower_def)

lemma length_to_lower [simp]: "length (to_lower s) = length s"
  by (simp add: to_lower_def)

lemma to_lower_id: "(\<And>c. c \<in> set s \<Longrightarrow> \<not> is_upper c \<and> code c < 192) \<Longrightarrow> to_lower s = s"
  unfolding to_lower_def by (rule map_idI) (simp add: char_lower_id)


section \<open>Prefixes, suffixes and substrings\<close>

definition starts_with :: "'a list \<Rightarrow> 'a list \<Rightarrow> bool" where
  "starts_with s p \<longleftrightarrow> take (length p) s = p"

definition ends_with :: "'a list \<Rightarrow> 'a list \<Rightarrow> bool" where
  "ends_with s p \<longleftrightarrow> length p \<le> length s \<and> drop (length s - length p) s = p"

fun includes_sub :: "'a list \<Rightarrow> 'a list \<Rightarrow> bool" where
  "includes_sub [] p = (p = [])"
| "includes_sub (x # xs) p = (starts_with (x # xs) p \<or> includes_sub xs p)"

lemma starts_with_iff [str_simps]: "starts_with s p \<longleftrightarrow> (\<exists>r. s = p @ r)"
  unfolding starts_with_def by (metis append_eq_conv_conj append_take_drop_id)

lemma ends_with_iff [str_simps]: "ends_with s p \<longleftrightarrow> (\<exists>r. s = r @ p)"
proof
  assume "ends_with s p"
  then have "s = take (length s - length p) s @ p"
    unfolding ends_with_def by (metis append_take_drop_id)
  then show "\<exists>r. s = r @ p" ..
qed (auto simp: ends_with_def)

lemma includes_sub_iff [str_simps]: "includes_sub s p \<longleftrightarrow> (\<exists>l r. s = l @ p @ r)"
proof (induction s)
  case (Cons x xs)
  show ?case
  proof
    assume "includes_sub (x # xs) p"
    then show "\<exists>l r. x # xs = l @ p @ r"
    proof (cases "starts_with (x # xs) p")
      case True
      then obtain r where "x # xs = [] @ p @ r" by (auto simp: starts_with_iff)
      then show ?thesis by blast
    next
      case False
      with \<open>includes_sub (x # xs) p\<close> obtain l r where "xs = l @ p @ r"
        using Cons.IH by auto
      then have "x # xs = (x # l) @ p @ r" by simp
      then show ?thesis by blast
    qed
  next
    assume "\<exists>l r. x # xs = l @ p @ r"
    then obtain l r where eq: "x # xs = l @ p @ r" by blast
    show "includes_sub (x # xs) p"
    proof (cases l)
      case Nil
      with eq have "starts_with (x # xs) p" by (auto simp: starts_with_iff)
      then show ?thesis by simp
    next
      case (Cons y l')
      with eq have "xs = l' @ p @ r" by simp
      then show ?thesis using Cons.IH by auto
    qed
  qed
qed auto

lemma includes_sub_single [str_simps]: "includes_sub s [c] \<longleftrightarrow> c \<in> set s"
  by (auto simp: includes_sub_iff dest: split_list)


section \<open>White space\<close>

text \<open>\<open>s.trim()\<close> on the characters modelled.\<close>

definition js_space :: "char \<Rightarrow> bool" where
  "js_space c \<longleftrightarrow> (9 \<le> code c \<and> code c \<le> 13) \<or> code c = 32 \<or> code c = 160"

definition trim :: "string \<Rightarrow> string" where
  "trim s = rev (dropWhile js_space (rev (dropWhile js_space s)))"

lemma trim_id: "s \<noteq> [] \<Longrightarrow> \<not> js_space (hd s) \<Longrightarrow> \<not> js_space (last s) \<Longrightarrow> trim s = s"
  by (metis dropWhile_eq_self_iff hd_rev rev_rev_ident trim_def rev_is_Nil_conv)

section \<open>Splitting and joining\<close>

text \<open>\<open>s.split(c)\<close> for a one-character separator, and \<open>ps.join(c)\<close>.\<close>

fun split_on :: "'a \<Rightarrow> 'a list \<Rightarrow> 'a list list" where
  "split_on c [] = [[]]"
| "split_on c (x # xs) =
     (if x = c then [] # split_on c xs
      else (case split_on c xs of [] \<Rightarrow> [[x]] | p # ps \<Rightarrow> (x # p) # ps))"

fun join_with :: "'a \<Rightarrow> 'a list list \<Rightarrow> 'a list" where
  "join_with c [] = []"
| "join_with c [p] = p"
| "join_with c (p # q # ps) = p @ c # join_with c (q # ps)"

lemma split_on_not_Nil [simp]: "split_on c s \<noteq> []"
  by (induction s) (auto split: list.splits)

lemma join_split_on [simp]: "join_with c (split_on c s) = s"
proof (induction s)
  case (Cons x xs)
  obtain p ps where ps: "split_on c xs = p # ps" by (cases "split_on c xs") auto
  with Cons show ?case by (cases ps) auto
qed simp

lemma split_on_absent [simp]: "c \<notin> set s \<Longrightarrow> split_on c s = [s]"
  by (induction s) auto

lemma split_on_append: "c \<notin> set p \<Longrightarrow> split_on c (p @ c # s) = p # split_on c s"
  by (induction p) auto

lemma split_on_join:
  assumes "ps \<noteq> []" and "\<And>p. p \<in> set ps \<Longrightarrow> c \<notin> set p"
  shows "split_on c (join_with c ps) = ps"
  using assms by (induction c ps rule: join_with.induct) (auto simp: split_on_append)

lemma split_on_pieces: "p \<in> set (split_on c s) \<Longrightarrow> c \<notin> set p \<and> set p \<subseteq> set s"
proof (induction s arbitrary: p)
  case (Cons x xs)
  obtain q qs where qs: "split_on c xs = q # qs" by (cases "split_on c xs") auto
  have "p = x # q \<and> x \<noteq> c \<or> p = [] \<or> p \<in> set (split_on c xs)"
    using Cons.prems qs by (auto split: if_splits)
  then show ?case using Cons.IH[of p] Cons.IH[of q] qs by auto
qed simp

lemma length_split_on: "length (split_on c s) = Suc (count_list s c)"
  by (induction s) (auto split: list.splits)

text \<open>\<open>s.lastIndexOf(c)\<close>, \<^const>\<open>None\<close> for the code's \<open>-1\<close>.\<close>

fun last_index_of :: "'a \<Rightarrow> 'a list \<Rightarrow> nat option" where
  "last_index_of c [] = None"
| "last_index_of c (x # xs) =
     (case last_index_of c xs of
        Some i \<Rightarrow> Some (Suc i)
      | None \<Rightarrow> if x = c then Some 0 else None)"

lemma last_index_of_None_iff [simp]: "last_index_of c s = None \<longleftrightarrow> c \<notin> set s"
  by (induction s) (auto split: option.splits)

lemma last_index_of_Some_iff:
  "last_index_of c s = Some i \<longleftrightarrow> i < length s \<and> s ! i = c \<and> c \<notin> set (drop (Suc i) s)"
proof (induction s arbitrary: i)
  case (Cons x xs)
  show ?case
  proof (cases "last_index_of c xs")
    case None
    then have "c \<notin> set xs" by simp
    with None show ?thesis
      by (cases i) (auto simp del: last_index_of_None_iff dest: in_set_dropD)
  next
    case (Some j)
    then have "c \<in> set xs" by (metis last_index_of_None_iff option.distinct(1))
    show ?thesis
    proof (cases i)
      case 0
      with Some \<open>c \<in> set xs\<close> show ?thesis by simp
    next
      case (Suc k)
      with Some have "last_index_of c (x # xs) = Some i \<longleftrightarrow> last_index_of c xs = Some k" by simp
      also have "\<dots> \<longleftrightarrow> k < length xs \<and> xs ! k = c \<and> c \<notin> set (drop (Suc k) xs)" by (rule Cons.IH)
      finally show ?thesis using Suc by simp
    qed
  qed
qed simp

lemma last_index_of_append [simp]:
  "c \<notin> set r \<Longrightarrow> last_index_of c (p @ c # r) = Some (length p)"
  by (simp add: last_index_of_Some_iff nth_append)


section \<open>Numerals\<close>

text \<open>
  \<open>n.toString(b)\<close> and the reading of a string of digits in base \<open>b\<close> (\<open>Number(s)\<close> on
  decimal digits, \<open>BigInt("0x...")\<close> on hexadecimal ones), for bases up to 16.
\<close>

definition digit_char :: "nat \<Rightarrow> char" where
  "digit_char n = char_of (if n < 10 then 48 + n else 87 + n)"

definition digit_val :: "char \<Rightarrow> nat" where
  "digit_val c =
     (if is_digit c then code c - 48 else if 97 \<le> code c then code c - 87 else code c - 55)"

fun nat_to_base :: "nat \<Rightarrow> nat \<Rightarrow> string" where
  "nat_to_base b n =
     (if b < 2 then [] else if n < b then [digit_char n]
      else nat_to_base b (n div b) @ [digit_char (n mod b)])"

declare nat_to_base.simps [simp del]

definition base_to_nat :: "nat \<Rightarrow> string \<Rightarrow> nat" where
  "base_to_nat b s = foldl (\<lambda>v c. b * v + digit_val c) 0 s"

abbreviation "nat_to_dec \<equiv> nat_to_base 10"
abbreviation "nat_to_hex \<equiv> nat_to_base 16"
abbreviation "dec_to_nat \<equiv> base_to_nat 10"
abbreviation "hex_to_nat \<equiv> base_to_nat 16"

lemma digit_val_char [simp]: "n < 16 \<Longrightarrow> digit_val (digit_char n) = n"
  by (auto simp: digit_val_def digit_char_def is_digit_def)

lemma is_digit_char [simp]: "n < 10 \<Longrightarrow> is_digit (digit_char n)"
  by (simp add: digit_char_def is_digit_def)

lemma is_lhex_char [simp]: "n < 16 \<Longrightarrow> is_lhex (digit_char n)"
  by (auto simp: digit_char_def is_lhex_def is_digit_def)

lemma is_digit_is_lhex: "is_digit c \<Longrightarrow> is_lhex c"
  by (simp add: is_lhex_def)

lemma is_lhex_is_hex: "is_lhex c \<Longrightarrow> is_hex c"
  by (simp add: is_hex_def)

lemma is_lhex_not_upper: "is_lhex c \<Longrightarrow> \<not> is_upper c \<and> code c < 192"
  by (auto simp: is_lhex_def is_digit_def is_upper_def)

lemma code_digit_char [simp]: "n < 10 \<Longrightarrow> code (digit_char n) = 48 + n"
  by (simp add: digit_char_def)

lemma is_digit_iff: "is_digit c \<longleftrightarrow> (\<exists>n < 10. c = digit_char n)"
proof
  assume "is_digit c"
  then have "c = digit_char (code c - 48)" "code c - 48 < 10"
    by (auto simp: is_digit_def digit_char_def)
  then show "\<exists>n < 10. c = digit_char n" by blast
qed auto

lemma digit_char_val [simp]: "is_digit c \<Longrightarrow> digit_char (digit_val c) = c"
  by (auto simp: digit_char_def digit_val_def is_digit_def)

lemma digit_val_less_10 [simp]: "is_digit c \<Longrightarrow> digit_val c < 10"
  by (auto simp: digit_val_def is_digit_def)

lemma digit_val_less_16 [simp]: "is_lhex c \<Longrightarrow> digit_val c < 16"
  by (auto simp: digit_val_def is_lhex_def is_digit_def)

lemma base_to_nat_snoc [simp]: "base_to_nat b (s @ [c]) = b * base_to_nat b s + digit_val c"
  by (simp add: base_to_nat_def)

lemma base_to_nat_Nil [simp]: "base_to_nat b [] = 0"
  by (simp add: base_to_nat_def)

lemma base_to_nat_small [simp]: "base_to_nat b [c] = digit_val c"
  by (simp add: base_to_nat_def)

lemma base_to_nat_nat_to_base [simp]: "2 \<le> b \<Longrightarrow> b \<le> 16 \<Longrightarrow> base_to_nat b (nat_to_base b n) = n"
proof (induction b n rule: nat_to_base.induct)
  case (1 b n)
  show ?case
  proof (cases "n < b")
    case True
    with 1 show ?thesis by (simp add: nat_to_base.simps[of b n])
  next
    case False
    from 1 have "n mod b < b" by simp
    with 1 have "n mod b < 16" by linarith
    with False 1 show ?thesis by (simp add: nat_to_base.simps[of b n])
  qed
qed

lemma nat_to_base_digits:
  "c \<in> set (nat_to_base b n) \<Longrightarrow> \<exists>d < b. c = digit_char d"
proof (induction b n rule: nat_to_base.induct)
  case (1 b n)
  consider "b < 2" | "2 \<le> b" "n < b" | "2 \<le> b" "\<not> n < b" by linarith
  then show ?case
  proof cases
    case 3
    then have "n mod b < b" and "c \<in> set (nat_to_base b (n div b)) \<or> c = digit_char (n mod b)"
      using "1.prems" by (auto simp: nat_to_base.simps[of b n])
    with 3 "1.IH" show ?thesis by fastforce
  qed (use 1 in \<open>auto simp: nat_to_base.simps[of b n]\<close>)
qed

lemma nat_to_dec_digits: "c \<in> set (nat_to_dec n) \<Longrightarrow> is_digit c"
  by (auto dest!: nat_to_base_digits)

lemma nat_to_hex_digits: "c \<in> set (nat_to_hex n) \<Longrightarrow> is_lhex c"
  by (auto dest!: nat_to_base_digits)

lemma nat_to_base_not_Nil [simp]: "2 \<le> b \<Longrightarrow> nat_to_base b n \<noteq> []"
  by (simp add: nat_to_base.simps[of b n])

lemma nat_to_dec_1: "x < 10 \<Longrightarrow> nat_to_dec x = [digit_char x]"
  by (simp add: nat_to_base.simps)

lemma nat_to_dec_2: "0 < x \<Longrightarrow> x < 10 \<Longrightarrow> y < 10 \<Longrightarrow> nat_to_dec (10 * x + y) = [digit_char x, digit_char y]"
  by (simp add: nat_to_base.simps[of 10 "10 * x + y"] nat_to_dec_1)

lemma nat_to_dec_3:
  "0 < x \<Longrightarrow> x < 10 \<Longrightarrow> y < 10 \<Longrightarrow> z < 10 \<Longrightarrow>
   nat_to_dec (100 * x + 10 * y + z) = [digit_char x, digit_char y, digit_char z]"
proof -
  assume a: "0 < x" "x < 10" "y < 10" "z < 10"
  define m where "m = 10 * x + y"
  have m: "nat_to_dec m = [digit_char x, digit_char y]" "0 < m"
    using a unfolding m_def by (simp_all only: nat_to_dec_2)
  have "nat_to_dec (10 * m + z) = nat_to_dec m @ [digit_char z]"
    using a m(2) by (subst nat_to_base.simps) simp
  moreover have "100 * x + 10 * y + z = 10 * m + z" by (simp add: m_def)
  ultimately show ?thesis using m(1) by simp
qed

lemma length_nat_to_base_le:
  "2 \<le> b \<Longrightarrow> n < b ^ k \<Longrightarrow> 0 < k \<Longrightarrow> length (nat_to_base b n) \<le> k"
proof (induction b n arbitrary: k rule: nat_to_base.induct)
  case (1 b n)
  show ?case
  proof (cases "n < b")
    case True
    with 1 show ?thesis by (simp add: nat_to_base.simps[of b n])
  next
    case False
    with 1 obtain j where k: "k = Suc j" "0 < j" by (cases k) (auto, cases "k - 1", auto)
    with 1 False have "length (nat_to_base b (n div b)) \<le> j"
      by (simp add: less_mult_imp_div_less mult.commute)
    with False k 1 show ?thesis by (simp add: nat_to_base.simps[of b n])
  qed
qed

lemma base_to_nat_less:
  "(\<And>c. c \<in> set s \<Longrightarrow> digit_val c < b) \<Longrightarrow> base_to_nat b s < b ^ length s"
proof (induction s rule: rev_induct)
  case (snoc c s)
  then have "Suc (base_to_nat b s) \<le> b ^ length s" and d: "digit_val c < b"
    by (simp_all add: Suc_leI)
  then have "b * Suc (base_to_nat b s) \<le> b * b ^ length s" by (intro mult_le_mono) simp_all
  with d show ?case by simp
qed simp

lemma dec_to_nat_less: "\<forall>c \<in> set s. is_digit c \<Longrightarrow> dec_to_nat s < 10 ^ length s"
  by (rule base_to_nat_less) simp

lemma hex_to_nat_less: "\<forall>c \<in> set s. is_lhex c \<Longrightarrow> hex_to_nat s < 16 ^ length s"
  by (rule base_to_nat_less) simp

end
