(* ===== verification/RegExps.thy ===== *)
theory RegExps
  imports Prelude
begin

text \<open>
  The regular expressions of the program, as data. Every pattern the modelled code uses is
  anchored (\<open>/^...$/\<close> without the \<open>m\<close> flag) and has no captures that matter, so
  \<open>RegExp.test\<close> is membership of the whole string in a regular language.
  \<open>full r s\<close> decides it by derivatives; \<open>full_iff\<close> relates the decision to the language,
  and the characterisations below turn the patterns of the code into plain facts about lists.
\<close>

named_theorems rx_simps \<open>membership in the language of a pattern\<close>

datatype rx =
    RZero
  | REps
  | RCls "char \<Rightarrow> bool"
  | RSeq rx rx
  | RAlt rx rx
  | RStar rx
  | RRep rx nat nat  \<comment> \<open>\<open>r{m,n}\<close>\<close>


section \<open>Languages\<close>

definition conc :: "string set \<Rightarrow> string set \<Rightarrow> string set" where
  "conc A B = {u @ v | u v. u \<in> A \<and> v \<in> B}"

primrec pw :: "string set \<Rightarrow> nat \<Rightarrow> string set" where
  "pw A 0 = {[]}"
| "pw A (Suc k) = conc A (pw A k)"

primrec lang :: "rx \<Rightarrow> string set" where
  "lang RZero = {}"
| "lang REps = {[]}"
| "lang (RCls P) = {s. \<exists>c. s = [c] \<and> P c}"
| "lang (RSeq a b) = conc (lang a) (lang b)"
| "lang (RAlt a b) = lang a \<union> lang b"
| "lang (RStar a) = (\<Union>k. pw (lang a) k)"
| "lang (RRep a m n) = (\<Union>k \<in> {m..n}. pw (lang a) k)"

lemma in_conc: "s \<in> conc A B \<longleftrightarrow> (\<exists>u v. s = u @ v \<and> u \<in> A \<and> v \<in> B)"
  by (auto simp: conc_def)

lemma Nil_in_conc [simp]: "[] \<in> conc A B \<longleftrightarrow> [] \<in> A \<and> [] \<in> B"
  by (auto simp: in_conc)

lemma Nil_in_pw [simp]: "[] \<in> pw A k \<longleftrightarrow> k = 0 \<or> [] \<in> A"
  by (induction k) auto


section \<open>The matcher\<close>

fun nullable :: "rx \<Rightarrow> bool" where
  "nullable RZero = False"
| "nullable REps = True"
| "nullable (RCls P) = False"
| "nullable (RSeq a b) = (nullable a \<and> nullable b)"
| "nullable (RAlt a b) = (nullable a \<or> nullable b)"
| "nullable (RStar a) = True"
| "nullable (RRep a m n) = (m \<le> n \<and> (m = 0 \<or> nullable a))"

text \<open>Constructors that drop dead branches, so that the derivatives stay small.\<close>

fun mk_seq :: "rx \<Rightarrow> rx \<Rightarrow> rx" where
  "mk_seq RZero b = RZero"
| "mk_seq REps b = b"
| "mk_seq a b = RSeq a b"

fun mk_alt :: "rx \<Rightarrow> rx \<Rightarrow> rx" where
  "mk_alt RZero b = b"
| "mk_alt a RZero = a"
| "mk_alt a b = RAlt a b"

fun deriv :: "char \<Rightarrow> rx \<Rightarrow> rx" where
  "deriv c RZero = RZero"
| "deriv c REps = RZero"
| "deriv c (RCls P) = (if P c then REps else RZero)"
| "deriv c (RSeq a b) =
     (if nullable a then mk_alt (mk_seq (deriv c a) b) (deriv c b)
      else mk_seq (deriv c a) b)"
| "deriv c (RAlt a b) = mk_alt (deriv c a) (deriv c b)"
| "deriv c (RStar a) = mk_seq (deriv c a) (RStar a)"
| "deriv c (RRep a m n) =
     (if n = 0 then RZero else mk_seq (deriv c a) (RRep a (m - 1) (n - 1)))"

fun derivs :: "string \<Rightarrow> rx \<Rightarrow> rx" where
  "derivs [] r = r"
| "derivs (c # cs) r = derivs cs (deriv c r)"

definition full :: "rx \<Rightarrow> string \<Rightarrow> bool" where
  "full r s = nullable (derivs s r)"

lemma lang_mk_seq [simp]: "lang (mk_seq a b) = conc (lang a) (lang b)"
  by (cases a) (auto simp: conc_def)

lemma lang_mk_alt [simp]: "lang (mk_alt a b) = lang a \<union> lang b"
  by (cases a; cases b) auto

lemma nullable_iff: "nullable r \<longleftrightarrow> [] \<in> lang r"
  by (induction r) auto

text \<open>Left quotients of concatenations and powers.\<close>

lemma Cons_in_conc:
  "c # w \<in> conc A B \<longleftrightarrow> (\<exists>u v. w = u @ v \<and> c # u \<in> A \<and> v \<in> B) \<or> ([] \<in> A \<and> c # w \<in> B)"
proof
  assume "c # w \<in> conc A B"
  then obtain u v where uv: "c # w = u @ v" "u \<in> A" "v \<in> B" by (auto simp: in_conc)
  then show "(\<exists>u v. w = u @ v \<and> c # u \<in> A \<and> v \<in> B) \<or> ([] \<in> A \<and> c # w \<in> B)"
    by (cases u) auto
next
  assume "(\<exists>u v. w = u @ v \<and> c # u \<in> A \<and> v \<in> B) \<or> ([] \<in> A \<and> c # w \<in> B)"
  then show "c # w \<in> conc A B"
    unfolding in_conc by (metis append_Cons append_Nil)
qed

lemma Cons_in_pw:
  "c # w \<in> pw A k \<longleftrightarrow> (\<exists>j u v. k = Suc j \<and> w = u @ v \<and> c # u \<in> A \<and> v \<in> pw A j)"
proof (induction k)
  case (Suc k)
  show ?case
  proof
    assume "c # w \<in> pw A (Suc k)"
    then consider (head) "\<exists>u v. w = u @ v \<and> c # u \<in> A \<and> v \<in> pw A k"
      | (later) "[] \<in> A" "c # w \<in> pw A k"
      by (auto simp: Cons_in_conc)
    then show "\<exists>j u v. Suc k = Suc j \<and> w = u @ v \<and> c # u \<in> A \<and> v \<in> pw A j"
    proof cases
      case head
      then show ?thesis by blast
    next
      case later
      then obtain j u v where "k = Suc j" "w = u @ v" "c # u \<in> A" "v \<in> pw A j"
        using Suc.IH by blast
      moreover from this later have "v \<in> pw A k" by (fastforce simp: in_conc)
      ultimately show ?thesis by blast
    qed
  next
    assume "\<exists>j u v. Suc k = Suc j \<and> w = u @ v \<and> c # u \<in> A \<and> v \<in> pw A j"
    then show "c # w \<in> pw A (Suc k)" by (auto simp: Cons_in_conc)
  qed
qed simp

lemma lang_deriv: "w \<in> lang (deriv c r) \<longleftrightarrow> c # w \<in> lang r"
proof (induction r arbitrary: w)
  case (RSeq a b)
  have "w \<in> conc (lang (deriv c a)) (lang b) \<longleftrightarrow> (\<exists>u v. w = u @ v \<and> c # u \<in> lang a \<and> v \<in> lang b)"
    using RSeq.IH(1) by (auto simp: in_conc)
  then show ?case using RSeq.IH(2) by (auto simp: Cons_in_conc nullable_iff)
next
  case (RStar a)
  then show ?case by (simp add: Cons_in_pw in_conc) blast
next
  case (RRep a m n)
  have eq: "w \<in> lang (deriv c (RRep a m n)) \<longleftrightarrow>
      0 < n \<and> (\<exists>u v j. w = u @ v \<and> c # u \<in> lang a \<and> m - 1 \<le> j \<and> j \<le> n - 1 \<and> v \<in> pw (lang a) j)"
    using RRep.IH by (simp add: in_conc Bex_def)
  have "c # w \<in> lang (RRep a m n) \<longleftrightarrow>
      (\<exists>u v j. m \<le> Suc j \<and> Suc j \<le> n \<and> w = u @ v \<and> c # u \<in> lang a \<and> v \<in> pw (lang a) j)"
    by (simp add: Cons_in_pw Bex_def) blast
  also have "\<dots> \<longleftrightarrow>
      0 < n \<and> (\<exists>u v j. w = u @ v \<and> c # u \<in> lang a \<and> m - 1 \<le> j \<and> j \<le> n - 1 \<and> v \<in> pw (lang a) j)"
  proof -
    have "m \<le> Suc j \<and> Suc j \<le> n \<longleftrightarrow> 0 < n \<and> m - 1 \<le> j \<and> j \<le> n - 1" for j by auto
    then show ?thesis by blast
  qed
  finally show ?case using eq by blast
qed auto

lemma lang_derivs: "w \<in> lang (derivs s r) \<longleftrightarrow> s @ w \<in> lang r"
  by (induction s arbitrary: r) (auto simp: lang_deriv)

lemma full_iff: "full r s \<longleftrightarrow> s \<in> lang r"
  by (simp add: full_def nullable_iff lang_derivs)


section \<open>Derived patterns\<close>

definition chr :: "char \<Rightarrow> rx" where "chr c = RCls (\<lambda>x. x = c)"
definition opt :: "rx \<Rightarrow> rx" where "opt r = RAlt r REps"
definition plus :: "rx \<Rightarrow> rx" where "plus r = RSeq r (RStar r)"

fun lit :: "string \<Rightarrow> rx" where
  "lit [] = REps"
| "lit [c] = chr c"
| "lit (c # cs) = RSeq (chr c) (lit cs)"

fun alts :: "rx list \<Rightarrow> rx" where
  "alts [] = RZero"
| "alts [r] = r"
| "alts (r # rs) = RAlt r (alts rs)"

fun seqs :: "rx list \<Rightarrow> rx" where
  "seqs [] = REps"
| "seqs [r] = r"
| "seqs (r # rs) = RSeq r (seqs rs)"

lemma in_lang_Cls [rx_simps]: "s \<in> lang (RCls P) \<longleftrightarrow> (\<exists>c. s = [c] \<and> P c)"
  by simp

lemma in_lang_chr [rx_simps]: "s \<in> lang (chr c) \<longleftrightarrow> s = [c]"
  by (auto simp: chr_def)

lemma in_lang_opt [rx_simps]: "s \<in> lang (opt r) \<longleftrightarrow> s \<in> lang r \<or> s = []"
  by (auto simp: opt_def)

lemma in_lang_lit [rx_simps]: "s \<in> lang (lit t) \<longleftrightarrow> s = t"
  by (induction t arbitrary: s rule: lit.induct) (auto simp: in_lang_chr in_conc)

lemma in_lang_alts [rx_simps]: "s \<in> lang (alts rs) \<longleftrightarrow> (\<exists>r \<in> set rs. s \<in> lang r)"
  by (induction rs rule: alts.induct) auto

lemma in_lang_Seq [rx_simps]: "s \<in> lang (RSeq a b) \<longleftrightarrow> (\<exists>u v. s = u @ v \<and> u \<in> lang a \<and> v \<in> lang b)"
  by (simp add: in_conc)

lemma in_lang_Alt [rx_simps]: "s \<in> lang (RAlt a b) \<longleftrightarrow> s \<in> lang a \<or> s \<in> lang b"
  by simp

lemma in_lang_seqs_Cons [rx_simps]:
  "s \<in> lang (seqs (r # rs)) \<longleftrightarrow> (\<exists>u v. s = u @ v \<and> u \<in> lang r \<and> v \<in> lang (seqs rs))"
  by (cases rs) (auto simp: in_conc)

lemma in_lang_seqs_Nil [rx_simps]: "s \<in> lang (seqs []) \<longleftrightarrow> s = []"
  by simp

lemma ex_singleton_append:
  "(\<exists>u v. s = u @ v \<and> (\<exists>c. u = [c] \<and> P c) \<and> Q v) \<longleftrightarrow> (\<exists>c v. s = c # v \<and> P c \<and> Q v)"
proof
  assume "\<exists>c v. s = c # v \<and> P c \<and> Q v"
  then obtain c v where "s = [c] @ v" "P c" "Q v" by auto
  then show "\<exists>u v. s = u @ v \<and> (\<exists>c. u = [c] \<and> P c) \<and> Q v" by blast
qed auto

lemma in_lang_seqs_Cls [rx_simps]:
  "s \<in> lang (seqs (RCls P # rs)) \<longleftrightarrow> (\<exists>c v. s = c # v \<and> P c \<and> v \<in> lang (seqs rs))"
  unfolding in_lang_seqs_Cons in_lang_Cls by (rule ex_singleton_append)

lemma in_lang_seqs_chr [rx_simps]:
  "s \<in> lang (seqs (chr c # rs)) \<longleftrightarrow> (\<exists>v. s = c # v \<and> v \<in> lang (seqs rs))"
  by (simp only: chr_def in_lang_seqs_Cls) blast

text \<open>Repetitions: as a list of matched pieces, and of a character class.\<close>

lemma in_pw: "s \<in> pw A k \<longleftrightarrow> (\<exists>ps. s = concat ps \<and> length ps = k \<and> set ps \<subseteq> A)"
proof (induction k arbitrary: s)
  case (Suc k)
  show ?case
  proof
    assume "s \<in> pw A (Suc k)"
    then obtain u v where "s = u @ v" "u \<in> A" "v \<in> pw A k" by (auto simp: in_conc)
    moreover from this Suc.IH obtain ps where "v = concat ps" "length ps = k" "set ps \<subseteq> A" by blast
    ultimately have "s = concat (u # ps) \<and> length (u # ps) = Suc k \<and> set (u # ps) \<subseteq> A" by simp
    then show "\<exists>ps. s = concat ps \<and> length ps = Suc k \<and> set ps \<subseteq> A" by blast
  next
    assume "\<exists>ps. s = concat ps \<and> length ps = Suc k \<and> set ps \<subseteq> A"
    then obtain u ps where "s = u @ concat ps" "length ps = k" "u \<in> A" "set ps \<subseteq> A"
      by (auto simp: length_Suc_conv)
    then show "s \<in> pw A (Suc k)" using Suc.IH by (auto simp: in_conc)
  qed
qed auto

lemma in_pw_Cls: "s \<in> pw (lang (RCls P)) k \<longleftrightarrow> length s = k \<and> (\<forall>c \<in> set s. P c)"
proof (induction k arbitrary: s)
  case (Suc k)
  have "s \<in> pw (lang (RCls P)) (Suc k) \<longleftrightarrow> (\<exists>c v. s = c # v \<and> P c \<and> v \<in> pw (lang (RCls P)) k)"
    unfolding pw.simps in_conc in_lang_Cls by (rule ex_singleton_append)
  then show ?case using Suc.IH by (cases s) auto
qed auto

lemma in_lang_Rep_Cls [rx_simps]:
  "s \<in> lang (RRep (RCls P) m n) \<longleftrightarrow> m \<le> length s \<and> length s \<le> n \<and> (\<forall>c \<in> set s. P c)"
  by (simp add: in_pw_Cls del: lang.simps(3))

lemma in_lang_Star_Cls [rx_simps]: "s \<in> lang (RStar (RCls P)) \<longleftrightarrow> (\<forall>c \<in> set s. P c)"
  by (simp add: in_pw_Cls del: lang.simps(3))

lemma in_lang_plus_Cls [rx_simps]:
  "s \<in> lang (plus (RCls P)) \<longleftrightarrow> s \<noteq> [] \<and> (\<forall>c \<in> set s. P c)"
proof -
  have "s \<in> lang (plus (RCls P)) \<longleftrightarrow> (\<exists>c v. s = c # v \<and> P c \<and> (\<forall>c \<in> set v. P c))"
    unfolding plus_def in_lang_Seq in_lang_Star_Cls in_lang_Cls by (rule ex_singleton_append)
  then show ?thesis by (cases s) auto
qed

lemma in_lang_Rep [rx_simps]:
  "s \<in> lang (RRep r m n) \<longleftrightarrow>
     (\<exists>ps. s = concat ps \<and> m \<le> length ps \<and> length ps \<le> n \<and> set ps \<subseteq> lang r)"
  by (auto simp: in_pw)


declare lang.simps [simp del]


section \<open>Patterns that several components share\<close>

text \<open>
  \<open>/^[0-9a-f]{8}-[0-9a-f]{4}-4[0-9a-f]{3}-[89ab][0-9a-f]{3}-[0-9a-f]{12}$/i\<close>: a version 4
  UUID, the shape of every workspace, volume and lease id.
\<close>

definition is_variant_char :: "char \<Rightarrow> bool" where
  "is_variant_char c \<longleftrightarrow> c \<in> set ''89abAB''"

definition uuid4_rx :: rx where
  "uuid4_rx = seqs
     [RRep (RCls is_hex) 8 8, chr CHR ''-'', RRep (RCls is_hex) 4 4, chr CHR ''-'',
      chr CHR ''4'', RRep (RCls is_hex) 3 3, chr CHR ''-'',
      RCls is_variant_char, RRep (RCls is_hex) 3 3, chr CHR ''-'', RRep (RCls is_hex) 12 12]"

definition is_uuid4 :: "string \<Rightarrow> bool" where
  "is_uuid4 s = full uuid4_rx s"

lemma is_variant_char_hex: "is_variant_char c \<Longrightarrow> is_hex c"
  by (auto simp: is_variant_char_def char_class_defs)

lemma is_hex_4 [simp]: "is_hex CHR ''4''"
  by (simp add: char_class_defs)

lemma is_uuid4_chars:
  assumes "is_uuid4 s"
  shows "length s = 36 \<and> (\<forall>c \<in> set s. is_hex c \<or> c = CHR ''-'')"
proof -
  obtain a b c d e f where
    "s = a @ ''-'' @ b @ ''-'' @ ''4'' @ c @ ''-'' @ [d] @ e @ ''-'' @ f"
    and "length a = 8" "length b = 4" "length c = 3" "length e = 3" "length f = 12"
    and "\<forall>x \<in> set a. is_hex x" "\<forall>x \<in> set b. is_hex x" "\<forall>x \<in> set c. is_hex x"
      "is_variant_char d" "\<forall>x \<in> set e. is_hex x" "\<forall>x \<in> set f. is_hex x"
    using assms unfolding is_uuid4_def full_iff uuid4_rx_def in_lang_seqs_Cons in_lang_seqs_Nil
      in_lang_chr in_lang_Rep_Cls in_lang_Cls by auto
  then show ?thesis by (auto dest: is_variant_char_hex)
qed

lemma is_hex_lower: "is_hex c \<Longrightarrow> is_hex (char_lower c)"
  by (auto simp: char_class_defs char_lower_def)

lemma is_uuid4_no_slash: "is_uuid4 s \<Longrightarrow> CHR ''/'' \<notin> set s \<and> CHR ''.'' \<notin> set s \<and> s \<noteq> []"
  using is_uuid4_chars by (fastforce simp: char_class_defs)

end
