(* ===== verification/NodeNet.thy ===== *)
theory NodeNet
  imports RegExps
begin

text \<open>
  \<open>isIP\<close> of Node's \<open>net\<close> module, which the egress policy and the proxy-chain reader call:
  the two patterns of the standard library, one for dotted quads and one for the text forms
  of IPv6 with an optional zone. \<open>is_ipv4_iff\<close> says which strings are dotted quads, and
  \<open>is_ipv6_full\<close> that the eight-group form of every address is recognised.
\<close>

section \<open>Dotted quads\<close>

definition v4_seg :: rx where
  "v4_seg = alts
     [seqs [chr CHR ''2'', chr CHR ''5'', RCls (\<lambda>c. 48 \<le> code c \<and> code c \<le> 53)],
      seqs [chr CHR ''2'', RCls (\<lambda>c. 48 \<le> code c \<and> code c \<le> 52), RCls is_digit],
      seqs [chr CHR ''1'', RCls is_digit, RCls is_digit],
      seqs [RCls (\<lambda>c. 49 \<le> code c \<and> code c \<le> 57), RCls is_digit],
      RCls is_digit]"

definition v4_str :: rx where
  "v4_str = RSeq (RRep (RSeq v4_seg (chr CHR ''.'')) 3 3) v4_seg"

definition is_ipv4 :: "string \<Rightarrow> bool" where
  "is_ipv4 s = full v4_str s"

definition dotted :: "nat \<Rightarrow> nat \<Rightarrow> nat \<Rightarrow> nat \<Rightarrow> string" where
  "dotted a b c d = join_with CHR ''.'' (map nat_to_dec [a, b, c, d])"


section \<open>IPv6 text forms\<close>

definition v6_seg :: rx where
  "v6_seg = RRep (RCls is_hex) 1 4"

definition v6_lead :: rx where "v6_lead = RSeq v6_seg (chr CHR '':'')"
definition v6_tail :: rx where "v6_tail = RSeq (chr CHR '':'') v6_seg"
definition v6_quad :: rx where "v6_quad = RSeq (chr CHR '':'') v4_str"

definition is_zone_char :: "char \<Rightarrow> bool" where
  "is_zone_char c \<longleftrightarrow> is_digit c \<or> is_alpha c \<or> c \<in> set ''-.:''"

definition v6_body :: rx where
  "v6_body = alts
     [RSeq (RRep v6_lead 7 7) (RAlt v6_seg (chr CHR '':'')),
      RSeq (RRep v6_lead 6 6) (alts [v4_str, v6_tail, chr CHR '':'']),
      RSeq (RRep v6_lead 5 5) (alts [v6_quad, RRep v6_tail 1 2, chr CHR '':'']),
      RSeq (RRep v6_lead 4 4) (alts [RSeq (RRep v6_tail 0 1) v6_quad, RRep v6_tail 1 3, chr CHR '':'']),
      RSeq (RRep v6_lead 3 3) (alts [RSeq (RRep v6_tail 0 2) v6_quad, RRep v6_tail 1 4, chr CHR '':'']),
      RSeq (RRep v6_lead 2 2) (alts [RSeq (RRep v6_tail 0 3) v6_quad, RRep v6_tail 1 5, chr CHR '':'']),
      RSeq (RRep v6_lead 1 1) (alts [RSeq (RRep v6_tail 0 4) v6_quad, RRep v6_tail 1 6, chr CHR '':'']),
      RSeq (chr CHR '':'') (alts [RSeq (RRep v6_tail 0 5) v6_quad, RRep v6_tail 1 7, chr CHR '':''])]"

definition v6_rx :: rx where
  "v6_rx = RSeq v6_body (opt (RSeq (chr CHR ''%'') (plus (RCls is_zone_char))))"

definition is_ipv6 :: "string \<Rightarrow> bool" where
  "is_ipv6 s = full v6_rx s"

definition isIP :: "string \<Rightarrow> nat" where
  "isIP s = (if is_ipv4 s then 4 else if is_ipv6 s then 6 else 0)"


section \<open>Which strings are dotted quads\<close>

lemma digit_range:
  "a \<le> 57 \<Longrightarrow> 48 \<le> b \<Longrightarrow> b \<le> a \<Longrightarrow> (b \<le> code c \<and> code c \<le> a) \<longleftrightarrow> (\<exists>n. b - 48 \<le> n \<and> n \<le> a - 48 \<and> c = digit_char n)"
proof
  assume *: "a \<le> 57" "48 \<le> b" "b \<le> a" and c: "b \<le> code c \<and> code c \<le> a"
  then have "is_digit c" by (simp add: is_digit_def)
  then obtain n where "n < 10" "c = digit_char n" by (auto simp: is_digit_iff)
  with * c show "\<exists>n. b - 48 \<le> n \<and> n \<le> a - 48 \<and> c = digit_char n" by (intro exI[of _ n]) auto
qed auto

lemma digit_literals:
  "CHR ''1'' = digit_char 1" "CHR ''2'' = digit_char 2" "CHR ''5'' = digit_char 5"
  by (rule code_inject [THEN iffD1], simp add: code_def digit_char_def)+

lemma in_v4_seg:
  "s \<in> lang v4_seg \<longleftrightarrow>
     (\<exists>z \<le> 5. s = [digit_char 2, digit_char 5, digit_char z]) \<or>
     (\<exists>y \<le> 4. \<exists>z < 10. s = [digit_char 2, digit_char y, digit_char z]) \<or>
     (\<exists>y < 10. \<exists>z < 10. s = [digit_char 1, digit_char y, digit_char z]) \<or>
     (\<exists>y. 0 < y \<and> y < 10 \<and> (\<exists>z < 10. s = [digit_char y, digit_char z])) \<or>
     (\<exists>z < 10. s = [digit_char z])"
proof -
  have d: "48 \<le> code c \<and> code c \<le> 53 \<longleftrightarrow> (\<exists>n \<le> 5. c = digit_char n)"
    "48 \<le> code c \<and> code c \<le> 52 \<longleftrightarrow> (\<exists>n \<le> 4. c = digit_char n)"
    "49 \<le> code c \<and> code c \<le> 57 \<longleftrightarrow> (\<exists>n. 0 < n \<and> n < 10 \<and> c = digit_char n)" for c
    by (simp_all add: digit_range less_Suc_eq_le[of _ 9, simplified] Suc_le_eq)
  have alt: "s \<in> lang v4_seg \<longleftrightarrow>
      (\<exists>c. s = [digit_char 2, digit_char 5, c] \<and> 48 \<le> code c \<and> code c \<le> 53) \<or>
      (\<exists>b c. s = [digit_char 2, b, c] \<and> (48 \<le> code b \<and> code b \<le> 52) \<and> is_digit c) \<or>
      (\<exists>b c. s = [digit_char 1, b, c] \<and> is_digit b \<and> is_digit c) \<or>
      (\<exists>b c. s = [b, c] \<and> (49 \<le> code b \<and> code b \<le> 57) \<and> is_digit c) \<or>
      (\<exists>c. s = [c] \<and> is_digit c)"
    unfolding v4_seg_def in_lang_alts list.set ball_simps bex_simps in_lang_seqs_chr
      in_lang_seqs_Cls in_lang_seqs_Nil in_lang_Cls digit_literals by auto
  have "(\<exists>c. s = [digit_char 2, digit_char 5, c] \<and> 48 \<le> code c \<and> code c \<le> 53) \<longleftrightarrow>
      (\<exists>z \<le> 5. s = [digit_char 2, digit_char 5, digit_char z])" by (auto simp: d)
  moreover have "(\<exists>b c. s = [digit_char 2, b, c] \<and> (48 \<le> code b \<and> code b \<le> 52) \<and> is_digit c) \<longleftrightarrow>
      (\<exists>y \<le> 4. \<exists>z < 10. s = [digit_char 2, digit_char y, digit_char z])"
    unfolding d is_digit_iff by auto
  moreover have "(\<exists>b c. s = [digit_char 1, b, c] \<and> is_digit b \<and> is_digit c) \<longleftrightarrow>
      (\<exists>y < 10. \<exists>z < 10. s = [digit_char 1, digit_char y, digit_char z])"
    unfolding is_digit_iff by auto
  moreover have "(\<exists>b c. s = [b, c] \<and> (49 \<le> code b \<and> code b \<le> 57) \<and> is_digit c) \<longleftrightarrow>
      (\<exists>y. 0 < y \<and> y < 10 \<and> (\<exists>z < 10. s = [digit_char y, digit_char z]))"
    unfolding d is_digit_iff by auto
  moreover have "(\<exists>c. s = [c] \<and> is_digit c) \<longleftrightarrow> (\<exists>z < 10. s = [digit_char z])"
    unfolding is_digit_iff by auto
  ultimately show ?thesis unfolding alt by (simp only:)
qed

lemma v4_seg_iff: "s \<in> lang v4_seg \<longleftrightarrow> (\<exists>n < 256. s = nat_to_dec n)"
proof
  assume "s \<in> lang v4_seg"
  then show "\<exists>n < 256. s = nat_to_dec n"
    unfolding in_v4_seg
  proof (elim disjE exE conjE)
    fix z assume "z \<le> 5" "s = [digit_char 2, digit_char 5, digit_char z]"
    then have "s = nat_to_dec (100 * 2 + 10 * 5 + z)" by (subst nat_to_dec_3) auto
    with \<open>z \<le> 5\<close> show ?thesis by (intro exI[of _ "100 * 2 + 10 * 5 + z"]) simp
  next
    fix y z assume "y \<le> 4" "z < 10" "s = [digit_char 2, digit_char y, digit_char z]"
    then have "s = nat_to_dec (100 * 2 + 10 * y + z)" by (subst nat_to_dec_3) auto
    with \<open>y \<le> 4\<close> \<open>z < 10\<close> show ?thesis by (intro exI[of _ "100 * 2 + 10 * y + z"]) simp
  next
    fix y z assume "y < 10" "z < 10" "s = [digit_char 1, digit_char y, digit_char z]"
    then have "s = nat_to_dec (100 * 1 + 10 * y + z)" by (subst nat_to_dec_3) auto
    with \<open>y < 10\<close> \<open>z < 10\<close> show ?thesis by (intro exI[of _ "100 * 1 + 10 * y + z"]) simp
  next
    fix y z assume "0 < y" "y < 10" "z < 10" "s = [digit_char y, digit_char z]"
    then have "s = nat_to_dec (10 * y + z)" by (subst nat_to_dec_2) auto
    with \<open>y < 10\<close> \<open>z < 10\<close> show ?thesis by (intro exI[of _ "10 * y + z"]) simp
  next
    fix z assume "z < 10" "s = [digit_char z]"
    then show ?thesis by (intro exI[of _ z]) (simp add: nat_to_dec_1)
  qed
next
  assume "\<exists>n < 256. s = nat_to_dec n"
  then obtain n where n: "n < 256" "s = nat_to_dec n" by blast
  show "s \<in> lang v4_seg"
  proof (cases "n < 100")
    case True
    show ?thesis
    proof (cases "n < 10")
      case True
      with n show ?thesis by (auto simp: in_v4_seg nat_to_dec_1)
    next
      case False
      have "s = nat_to_dec (10 * (n div 10) + n mod 10)" using n by simp
      also have "\<dots> = [digit_char (n div 10), digit_char (n mod 10)]"
        using False \<open>n < 100\<close> by (intro nat_to_dec_2) auto
      finally have "s = [digit_char (n div 10), digit_char (n mod 10)]" .
      moreover have "0 < n div 10" "n div 10 < 10" "n mod 10 < 10" using False \<open>n < 100\<close> by auto
      ultimately show ?thesis
        by (simp only: in_v4_seg list.inject list.distinct simp_thms) blast
    qed
  next
    case False
    define x y z where xyz: "x = n div 10 div 10" "y = n div 10 mod 10" "z = n mod 10"
    have eq: "n = 100 * x + 10 * y + z"
      using mult_div_mod_eq[of 10 n] mult_div_mod_eq[of 10 "n div 10"] unfolding xyz by linarith
    have "y < 10" "z < 10" by (simp_all add: xyz)
    moreover from eq this False n(1) have "0 < x" "x < 10" by linarith+
    ultimately have s: "s = [digit_char x, digit_char y, digit_char z]"
      using n(2) by (simp only: eq nat_to_dec_3)
    have "x = 1 \<or> x = 2 \<and> (y \<le> 4 \<or> y = 5 \<and> z \<le> 5)"
      using eq \<open>0 < x\<close> n(1) by linarith
    with s \<open>y < 10\<close> \<open>z < 10\<close> show ?thesis unfolding in_v4_seg by blast
  qed
qed

lemma dotted_parts:
  "dotted a b c d = nat_to_dec a @ ''.'' @ nat_to_dec b @ ''.'' @ nat_to_dec c @ ''.'' @ nat_to_dec d"
  by (simp add: dotted_def)

lemma nat_to_dec_no_dot [simp]: "CHR ''.'' \<notin> set (nat_to_dec n)"
  using nat_to_dec_digits[of "CHR ''.''" n] by (auto simp: is_digit_def code_def)

lemma split_dotted [simp]:
  "split_on CHR ''.'' (dotted a b c d) = map nat_to_dec [a, b, c, d]"
  unfolding dotted_def by (rule split_on_join) auto

lemma is_ipv4_iff:
  "is_ipv4 s \<longleftrightarrow> (\<exists>a b c d. a < 256 \<and> b < 256 \<and> c < 256 \<and> d < 256 \<and> s = dotted a b c d)"
proof -
  have pieces: "p \<in> lang (RSeq v4_seg (chr CHR ''.'')) \<longleftrightarrow> (\<exists>n < 256. p = nat_to_dec n @ ''.'')" for p
    by (auto simp: in_lang_Seq v4_seg_iff in_lang_chr)
  have three: "p \<in> lang (RRep (RSeq v4_seg (chr CHR ''.'')) 3 3) \<longleftrightarrow>
      (\<exists>a b c. a < 256 \<and> b < 256 \<and> c < 256 \<and>
         p = (nat_to_dec a @ ''.'') @ (nat_to_dec b @ ''.'') @ (nat_to_dec c @ ''.''))" (is "?L p = ?R p") for p
  proof
    assume "?L p"
    then obtain ps where ps: "p = concat ps" "length ps = 3" "set ps \<subseteq> lang (RSeq v4_seg (chr CHR ''.''))"
      by (auto simp: in_lang_Rep simp del: lang.simps)
    then obtain u v w where "ps = [u, v, w]" by (auto simp: numeral_3_eq_3 length_Suc_conv)
    with ps have "p = u @ v @ w" "u \<in> lang (RSeq v4_seg (chr CHR ''.''))"
      "v \<in> lang (RSeq v4_seg (chr CHR ''.''))" "w \<in> lang (RSeq v4_seg (chr CHR ''.''))" by simp_all
    then show "?R p" unfolding pieces by blast
  next
    assume "?R p"
    then obtain a b c where "a < 256" "b < 256" "c < 256"
      "p = concat [nat_to_dec a @ ''.'', nat_to_dec b @ ''.'', nat_to_dec c @ ''.'']" by auto
    moreover from this have "set [nat_to_dec a @ ''.'', nat_to_dec b @ ''.'', nat_to_dec c @ ''.'']
        \<subseteq> lang (RSeq v4_seg (chr CHR ''.''))" by (auto simp only: list.set pieces)
    ultimately show "?L p" unfolding in_lang_Rep
      by (intro exI[of _ "[nat_to_dec a @ ''.'', nat_to_dec b @ ''.'', nat_to_dec c @ ''.'']"]) simp
  qed
  show ?thesis
    unfolding is_ipv4_def full_iff v4_str_def in_lang_Seq three v4_seg_iff dotted_parts
    by (auto; metis append.assoc append_Cons append_Nil)
qed

end
