(* ===== verification/EgressAddress.thy ===== *)
theory EgressAddress
  imports NodeNet
begin

unbundle bit_operations_syntax

text \<open>
  The address classifiers of \<open>src/agent/egress-policy.ts\<close>: which answers of a DNS lookup the
  proxy may connect to. The IPv4 side reads a dotted quad as a number and tests it against a
  list of denied networks; the IPv6 side parses the text forms into a 128-bit number, keeps
  the global unicast range \<open>2000::/3\<close> and tests a second list.
\<close>

section \<open>Addresses\<close>

text \<open>\<open>/^(?:0|[1-9][0-9]{0,2})$/u\<close>\<close>

definition octet_rx :: rx where
  "octet_rx = RAlt (chr CHR ''0'')
     (RSeq (RCls (\<lambda>c. 49 \<le> code c \<and> code c \<le> 57)) (RRep (RCls is_digit) 0 2))"

fun ipv4_octets :: "nat \<Rightarrow> string list \<Rightarrow> nat option" where
  "ipv4_octets val [] = Some val"
| "ipv4_octets val (oct # octs) =
     (if \<not> full octet_rx oct then None
      else let parsed = dec_to_nat oct
           in if 255 < parsed then None else ipv4_octets (val * 256 + parsed) octs)"

text \<open>\<open>value >>> 0\<close> reads the number as an unsigned 32-bit integer.\<close>

definition ipv4ToNumber :: "string \<Rightarrow> nat option" where
  "ipv4ToNumber address =
     (let octets = split_on CHR ''.'' address
      in if length octets \<noteq> 4 then None
         else map_option (\<lambda>val. val mod 2 ^ 32) (ipv4_octets 0 octets))"

definition ipv4CidrContains :: "nat \<Rightarrow> string \<Rightarrow> nat \<Rightarrow> bool" where
  "ipv4CidrContains val base bits =
     (case ipv4ToNumber base of
        None \<Rightarrow> False
      | Some baseValue \<Rightarrow> (let divisor = 2 ^ (32 - bits) in val div divisor = baseValue div divisor))"

definition ipv4_denied :: "(string \<times> nat) list" where
  "ipv4_denied =
     [(''0.0.0.0'', 8), (''10.0.0.0'', 8), (''100.64.0.0'', 10), (''127.0.0.0'', 8),
      (''168.63.129.16'', 32), (''169.254.0.0'', 16), (''172.16.0.0'', 12), (''192.0.0.0'', 24),
      (''192.0.2.0'', 24), (''192.88.99.0'', 24), (''192.168.0.0'', 16), (''198.18.0.0'', 15),
      (''198.51.100.0'', 24), (''203.0.113.0'', 24), (''224.0.0.0'', 4), (''240.0.0.0'', 4)]"

definition isPublicIpv4 :: "string \<Rightarrow> bool" where
  "isPublicIpv4 address =
     (case ipv4ToNumber address of
        None \<Rightarrow> False
      | Some val \<Rightarrow> \<not> list_ex (\<lambda>(base, bits). ipv4CidrContains val base bits) ipv4_denied)"

text \<open>\<open>working.split("::")\<close>\<close>

fun split_dcolon :: "string \<Rightarrow> string list" where
  "split_dcolon [] = [[]]"
| "split_dcolon [x] = [[x]]"
| "split_dcolon (x # y # r) =
     (if x = CHR '':'' \<and> y = CHR '':'' then [] # split_dcolon r
      else (case split_dcolon (y # r) of [] \<Rightarrow> [[x]] | p # ps \<Rightarrow> (x # p) # ps))"

text \<open>\<open>/^[0-9a-f]{1,4}$/u\<close>\<close>

definition hextet_rx :: rx where
  "hextet_rx = RRep (RCls is_lhex) 1 4"

definition colon_parts :: "string \<Rightarrow> string list" where
  "colon_parts half = (if half = [] then [] else split_on CHR '':'' half)"

definition ipv6_words :: "string \<Rightarrow> nat option" where
  "ipv6_words working =
     (let halves = split_dcolon working
      in if 2 < length halves then None
         else let left = colon_parts (halves ! 0);
                  right = (if length halves = 1 then [] else colon_parts (halves ! 1));
                  omitted = 8 - int (length left) - int (length right)
              in if (length halves = 1 \<and> omitted \<noteq> 0) \<or> (length halves = 2 \<and> omitted < 1) then None
                 else let ws = left @ replicate (nat omitted) ''0'' @ right
                      in if length ws \<noteq> 8 \<or> list_ex (\<lambda>w. \<not> full hextet_rx w) ws then None
                         else Some (foldl (\<lambda>val w. push_bit 16 val OR hex_to_nat w) 0 ws))"

definition ipv6ToBigInt :: "string \<Rightarrow> nat option" where
  "ipv6ToBigInt address =
     (if includes_sub address ''%'' then None
      else let working = to_lower address
           in if includes_sub working ''.''
              then (case last_index_of CHR '':'' working of
                      None \<Rightarrow> None
                    | Some separator \<Rightarrow>
                        (case ipv4ToNumber (drop (separator + 1) working) of
                           None \<Rightarrow> None
                         | Some ipv4 \<Rightarrow>
                             ipv6_words (take separator working @ '':'' @ nat_to_hex (drop_bit 16 ipv4)
                               @ '':'' @ nat_to_hex (ipv4 AND 65535))))
              else ipv6_words working)"

definition ipv6CidrContains :: "nat \<Rightarrow> string \<Rightarrow> nat \<Rightarrow> bool" where
  "ipv6CidrContains val base bits =
     (case ipv6ToBigInt base of
        None \<Rightarrow> False
      | Some baseValue \<Rightarrow> drop_bit (128 - bits) val = drop_bit (128 - bits) baseValue)"

definition ipv6_denied :: "(string \<times> nat) list" where
  "ipv6_denied =
     [(''2001::'', 32), (''2001:2::'', 48), (''2001:10::'', 28), (''2001:20::'', 28),
      (''2001:db8::'', 32), (''2002::'', 16), (''3ffe::'', 16)]"

definition isPublicIpv6 :: "string \<Rightarrow> bool" where
  "isPublicIpv6 address =
     (case ipv6ToBigInt address of
        None \<Rightarrow> False
      | Some val \<Rightarrow>
          if drop_bit 125 val \<noteq> 1 then False
          else \<not> list_ex (\<lambda>(base, bits). ipv6CidrContains val base bits) ipv6_denied)"

definition isPublicAddress :: "string \<Rightarrow> bool" where
  "isPublicAddress address =
     (let family = isIP address
      in if family = 4 then isPublicIpv4 address
         else if family = 6 then isPublicIpv6 address
         else False)"

section \<open>IPv4: the denied networks in octets\<close>

text \<open>The networks of the table, read off the four octets.\<close>

definition denied_octets :: "nat \<Rightarrow> nat \<Rightarrow> nat \<Rightarrow> nat \<Rightarrow> bool" where
  "denied_octets a b c d \<longleftrightarrow>
     a = 0 \<or> a = 10 \<or> (a = 100 \<and> 64 \<le> b \<and> b \<le> 127) \<or> a = 127
     \<or> (a = 168 \<and> b = 63 \<and> c = 129 \<and> d = 16) \<or> (a = 169 \<and> b = 254) \<or> (a = 172 \<and> 16 \<le> b \<and> b \<le> 31)
     \<or> (a = 192 \<and> b = 0 \<and> c = 0) \<or> (a = 192 \<and> b = 0 \<and> c = 2) \<or> (a = 192 \<and> b = 88 \<and> c = 99)
     \<or> (a = 192 \<and> b = 168) \<or> (a = 198 \<and> (b = 18 \<or> b = 19)) \<or> (a = 198 \<and> b = 51 \<and> c = 100)
     \<or> (a = 203 \<and> b = 0 \<and> c = 113) \<or> 224 \<le> a"

lemma octet_rx_iff:
  "full octet_rx s \<longleftrightarrow> s = ''0'' \<or>
     (\<exists>c r. s = c # r \<and> 49 \<le> code c \<and> code c \<le> 57 \<and> length r \<le> 2 \<and> (\<forall>x \<in> set r. is_digit x))"
  unfolding full_iff octet_rx_def in_lang_Alt in_lang_Seq in_lang_Cls ex_singleton_append
    in_lang_chr in_lang_Rep_Cls by simp

lemma digit_char_0: "digit_char 0 = CHR ''0''"
  by code_simp

lemma octet_rx_nat_to_dec: "n < 256 \<Longrightarrow> full octet_rx (nat_to_dec n)"
proof -
  assume "n < 256"
  then have "nat_to_dec n \<in> lang v4_seg" by (auto simp: v4_seg_iff)
  then show ?thesis
    unfolding in_v4_seg octet_rx_iff
  proof (elim disjE exE conjE)
    fix z assume "z < 10" "nat_to_dec n = [digit_char z]"
    then show "nat_to_dec n = ''0'' \<or> (\<exists>c r. nat_to_dec n = c # r \<and> 49 \<le> code c \<and> code c \<le> 57
        \<and> length r \<le> 2 \<and> (\<forall>x \<in> set r. is_digit x))"
      by (cases "z = 0") (auto simp: digit_char_0)
  qed auto
qed

lemma ipv4_octets_dec:
  "\<forall>n \<in> set ns. n < 256 \<Longrightarrow> ipv4_octets v (map nat_to_dec ns) = Some (foldl (\<lambda>v n. v * 256 + n) v ns)"
  by (induction ns arbitrary: v) (auto simp: octet_rx_nat_to_dec)

definition quad :: "nat \<Rightarrow> nat \<Rightarrow> nat \<Rightarrow> nat \<Rightarrow> nat" where
  "quad a b c d = ((a * 256 + b) * 256 + c) * 256 + d"

lemma quad_bound: "a < 256 \<Longrightarrow> b < 256 \<Longrightarrow> c < 256 \<Longrightarrow> d < 256 \<Longrightarrow> quad a b c d < 2 ^ 32"
  by (simp add: quad_def)

lemma ipv4ToNumber_dotted:
  assumes "a < 256" "b < 256" "c < 256" "d < 256"
  shows "ipv4ToNumber (dotted a b c d) = Some (quad a b c d)"
proof -
  have "ipv4_octets 0 (map nat_to_dec [a, b, c, d]) = Some (quad a b c d)"
    using assms by (subst ipv4_octets_dec) (auto simp: quad_def)
  then show ?thesis
    using quad_bound[OF assms] by (simp add: ipv4ToNumber_def Let_def)
qed

text \<open>A network of the table contains the addresses between its first and its last one.\<close>

lemma ipv4_denied_ranges:
  "list_ex (\<lambda>(base, bits). ipv4CidrContains v base bits) ipv4_denied \<longleftrightarrow>
     list_ex (\<lambda>(base, size). v div size = base div size)
       [(0, 2^24), (167772160, 2^24), (1681915904, 2^22), (2130706432, 2^24), (2822734096, 1),
        (2851995648, 2^16), (2886729728, 2^20), (3221225472, 2^8), (3221225984, 2^8),
        (3227017984, 2^8), (3232235520, 2^16), (3323068416, 2^17), (3325256704, 2^8),
        (3405803776, 2^8), (3758096384, 2^28), (4026531840, 2^28)]"
proof -
  have "map (\<lambda>(base, bits). (ipv4ToNumber base, 2 ^ (32 - bits))) ipv4_denied =
      map (\<lambda>(base, size). (Some base, size :: nat))
       [(0, 2^24), (167772160, 2^24), (1681915904, 2^22), (2130706432, 2^24), (2822734096, 1),
        (2851995648, 2^16), (2886729728, 2^20), (3221225472, 2^8), (3221225984, 2^8),
        (3227017984, 2^8), (3232235520, 2^16), (3323068416, 2^17), (3325256704, 2^8),
        (3405803776, 2^8), (3758096384, 2^28), (4026531840, 2^28)]" (is "map ?f _ = map ?g ?rs")
    by code_simp
  then have "list_ex (\<lambda>(b, s). case b of None \<Rightarrow> False | Some b \<Rightarrow> v div s = b div s) (map ?f ipv4_denied)
      = list_ex (\<lambda>(b, s). case b of None \<Rightarrow> False | Some b \<Rightarrow> v div s = b div s) (map ?g ?rs)"
    by (rule arg_cong)
  moreover have "(case ?f x of (b, s) \<Rightarrow> (case b of None \<Rightarrow> False | Some b \<Rightarrow> v div s = b div s)) =
      (case x of (base, bits) \<Rightarrow> ipv4CidrContains v base bits)" for x
    by (auto simp: ipv4CidrContains_def Let_def split_beta split: option.splits)
  ultimately show ?thesis by (simp add: list.pred_map list_ex_iff)
qed

lemma quad_div:
  assumes "b < 256" "c < 256" "d < 256"
  shows "quad a b c d div 2 ^ 28 = a div 16" "quad a b c d div 2 ^ 24 = a"
    "quad a b c d div 2 ^ 22 = a * 4 + b div 64" "quad a b c d div 2 ^ 20 = a * 16 + b div 16"
    "quad a b c d div 2 ^ 17 = a * 128 + b div 2" "quad a b c d div 2 ^ 16 = a * 256 + b"
    "quad a b c d div 2 ^ 8 = (a * 256 + b) * 256 + c"
  using assms unfolding quad_def by simp_all

lemma base_inject:
  "d < k \<Longrightarrow> d' < k \<Longrightarrow> x * k + d = y * k + d' \<longleftrightarrow> x = y \<and> d = (d' :: nat)"
proof
  assume "d < k" "d' < k" "x * k + d = y * k + d'"
  then have "(x * k + d) div k = (y * k + d') div k" "(x * k + d) mod k = (y * k + d') mod k" by simp_all
  with \<open>d < k\<close> \<open>d' < k\<close> show "x = y \<and> d = d'" by simp
qed simp

lemma quad_inject:
  assumes "b < 256" "c < 256" "d < 256" "b' < 256" "c' < 256" "d' < 256"
  shows "quad a b c d = quad a' b' c' d' \<longleftrightarrow> a = a' \<and> b = b' \<and> c = c' \<and> d = d'"
  unfolding quad_def base_inject[OF assms(3,6)] base_inject[OF assms(2,5)] base_inject[OF assms(1,4)] by simp

lemma base_eq: "d < k \<Longrightarrow> x * k + d = n \<longleftrightarrow> x = n div k \<and> d = (n mod k :: nat)"
  using base_inject[of d k "n mod k" x "n div k"] by simp

lemma list_ex_Cons_Nil: "list_ex P [] \<longleftrightarrow> False" "list_ex P (x # xs) \<longleftrightarrow> P x \<or> list_ex P xs"
  by simp_all

lemma denied_octets_ranges:
  assumes "a < 256" "b < 256" "c < 256" "d < 256"
  shows "list_ex (\<lambda>(base, bits). ipv4CidrContains (quad a b c d) base bits) ipv4_denied \<longleftrightarrow> denied_octets a b c d"
proof -
  have 1: "quad a b c d = 2822734096 \<longleftrightarrow> a = 168 \<and> b = 63 \<and> c = 129 \<and> d = 16"
    using quad_inject[of b c d 63 129 16 a 168] assms by (simp add: quad_def)
  have lt: "b div 64 < 4" "b div 16 < 16" "b div 2 < 128" using assms by auto
  have 2: "a * 4 + b div 64 = n \<longleftrightarrow> a = n div 4 \<and> b div 64 = n mod 4"
    "a * 16 + b div 16 = n \<longleftrightarrow> a = n div 16 \<and> b div 16 = n mod 16"
    "a * 128 + b div 2 = n \<longleftrightarrow> a = n div 128 \<and> b div 2 = n mod 128"
    "a * 256 + b = n \<longleftrightarrow> a = n div 256 \<and> b = n mod 256"
    "(a * 256 + b) * 256 + c = n \<longleftrightarrow> (a = n div 256 div 256 \<and> b = n div 256 mod 256) \<and> c = n mod 256" for n
    using base_eq[OF lt(1)] base_eq[OF lt(2)] base_eq[OF lt(3)] base_eq[OF assms(2)] base_eq[OF assms(3)]
    by metis+
  have range: "x div k = q \<longleftrightarrow> q * k \<le> x \<and> x < Suc q * k" if "0 < k" for x k q :: nat
    using that by (metis div_nat_eqI div_times_less_eq_dividend dividend_less_div_times mult.commute mult_Suc add.commute)
  have 3: "b div 64 = 1 \<longleftrightarrow> 64 \<le> b \<and> b \<le> 127" "b div 16 = 1 \<longleftrightarrow> 16 \<le> b \<and> b \<le> 31"
    "b div 2 = 9 \<longleftrightarrow> b = 18 \<or> b = 19" by (auto simp: range)
  have 4: "a div 16 = 14 \<or> a div 16 = 15 \<longleftrightarrow> 224 \<le> a" using assms(1) by (auto simp: range)
  have nets:
    "quad a b c d div 2 ^ 24 = 0 div 2 ^ 24 \<longleftrightarrow> a = 0"
    "quad a b c d div 2 ^ 24 = 167772160 div 2 ^ 24 \<longleftrightarrow> a = 10"
    "quad a b c d div 2 ^ 22 = 1681915904 div 2 ^ 22 \<longleftrightarrow> a = 100 \<and> 64 \<le> b \<and> b \<le> 127"
    "quad a b c d div 2 ^ 24 = 2130706432 div 2 ^ 24 \<longleftrightarrow> a = 127"
    "quad a b c d div 2 ^ 16 = 2851995648 div 2 ^ 16 \<longleftrightarrow> a = 169 \<and> b = 254"
    "quad a b c d div 2 ^ 20 = 2886729728 div 2 ^ 20 \<longleftrightarrow> a = 172 \<and> 16 \<le> b \<and> b \<le> 31"
    "quad a b c d div 2 ^ 8 = 3221225472 div 2 ^ 8 \<longleftrightarrow> a = 192 \<and> b = 0 \<and> c = 0"
    "quad a b c d div 2 ^ 8 = 3221225984 div 2 ^ 8 \<longleftrightarrow> a = 192 \<and> b = 0 \<and> c = 2"
    "quad a b c d div 2 ^ 8 = 3227017984 div 2 ^ 8 \<longleftrightarrow> a = 192 \<and> b = 88 \<and> c = 99"
    "quad a b c d div 2 ^ 16 = 3232235520 div 2 ^ 16 \<longleftrightarrow> a = 192 \<and> b = 168"
    "quad a b c d div 2 ^ 17 = 3323068416 div 2 ^ 17 \<longleftrightarrow> a = 198 \<and> (b = 18 \<or> b = 19)"
    "quad a b c d div 2 ^ 8 = 3325256704 div 2 ^ 8 \<longleftrightarrow> a = 198 \<and> b = 51 \<and> c = 100"
    "quad a b c d div 2 ^ 8 = 3405803776 div 2 ^ 8 \<longleftrightarrow> a = 203 \<and> b = 0 \<and> c = 113"
    "quad a b c d div 2 ^ 28 = 3758096384 div 2 ^ 28 \<longleftrightarrow> a div 16 = 14"
    "quad a b c d div 2 ^ 28 = 4026531840 div 2 ^ 28 \<longleftrightarrow> a div 16 = 15"
    unfolding quad_div[OF assms(2,3,4)] 2 3[symmetric] by simp_all
  have "list_ex (\<lambda>(base, bits). ipv4CidrContains (quad a b c d) base bits) ipv4_denied \<longleftrightarrow>
      (a = 0) \<or> (a = 10) \<or> (a = 100 \<and> 64 \<le> b \<and> b \<le> 127) \<or> (a = 127) \<or> (a = 168 \<and> b = 63 \<and> c = 129 \<and> d = 16) \<or>
      (a = 169 \<and> b = 254) \<or> (a = 172 \<and> 16 \<le> b \<and> b \<le> 31) \<or> (a = 192 \<and> b = 0 \<and> c = 0) \<or> (a = 192 \<and> b = 0 \<and> c = 2) \<or> (a = 192 \<and> b = 88 \<and> c = 99) \<or>
      (a = 192 \<and> b = 168) \<or> (a = 198 \<and> (b = 18 \<or> b = 19)) \<or> (a = 198 \<and> b = 51 \<and> c = 100) \<or> (a = 203 \<and> b = 0 \<and> c = 113) \<or>
      (a div 16 = 14 \<or> a div 16 = 15)"
    unfolding ipv4_denied_ranges list_ex_Cons_Nil prod.case nets div_by_1 1
    by (simp only: disj_assoc simp_thms)
  then show ?thesis unfolding 4 denied_octets_def .
qed

lemma isPublicIpv4_dotted:
  assumes "a < 256" "b < 256" "c < 256" "d < 256"
  shows "isPublicIpv4 (dotted a b c d) \<longleftrightarrow> \<not> denied_octets a b c d"
  by (simp add: isPublicIpv4_def ipv4ToNumber_dotted[OF assms] denied_octets_ranges[OF assms])

section \<open>IPv6: the text forms and the denied networks in hextets\<close>

definition hextets :: "nat list \<Rightarrow> string" where
  "hextets ws = join_with CHR '':'' (map nat_to_hex ws)"

definition words_val :: "nat list \<Rightarrow> nat" where
  "words_val ws = foldl (\<lambda>v w. v * 65536 + w) 0 ws"

lemma hextet_rx_hex: "n < 65536 \<Longrightarrow> full hextet_rx (nat_to_hex n)"
  using length_nat_to_base_le[of 16 n 4]
  by (auto simp: full_iff hextet_rx_def in_lang_Rep_Cls nat_to_hex_digits Suc_le_eq)

lemma push_bit_or: "w < 2 ^ n \<Longrightarrow> push_bit n v OR w = v * 2 ^ n + (w :: nat)"
proof -
  assume "w < 2 ^ n"
  then have "int (push_bit n v OR w) = concat_bit n (int w) (int v)"
    by (simp add: concat_bit_def of_nat_or_eq push_bit_of_nat take_bit_of_nat take_bit_nat_eq_self or.commute)
  also have "\<dots> = int (v * 2 ^ n + w)"
    using \<open>w < 2 ^ n\<close> by (simp add: concat_bit_eq push_bit_eq_mult take_bit_of_nat take_bit_nat_eq_self)
  finally show ?thesis by (simp only: of_nat_eq_iff)
qed

lemma fold_words:
  "\<forall>w \<in> set ws. w < 65536 \<Longrightarrow>
     foldl (\<lambda>val w. push_bit 16 val OR hex_to_nat w) v (map nat_to_hex ws) = foldl (\<lambda>v w. v * 65536 + w) v ws"
  by (induction ws arbitrary: v) (simp_all add: push_bit_or)

lemma hex_no_colon [simp]: "CHR '':'' \<notin> set (nat_to_hex n)"
  using nat_to_hex_digits[of "CHR '':''" n] by (auto simp: char_class_defs)

lemma hextets_Cons: "hextets (w # v # ws) = nat_to_hex w @ CHR '':'' # hextets (v # ws)"
  by (simp add: hextets_def)

lemma hextets_Nil [simp]: "hextets [] = []"
  by (simp add: hextets_def)

lemma hextets_not_Nil [simp]: "hextets ws = [] \<longleftrightarrow> ws = []"
  by (cases ws rule: list.exhaust; cases "tl ws") (auto simp: hextets_def)

lemma colon_parts_hextets [simp]: "colon_parts (hextets ws) = map nat_to_hex ws"
proof (cases "ws = []")
  case False
  then show ?thesis unfolding colon_parts_def hextets_not_Nil
    unfolding hextets_def by (simp, intro split_on_join) auto
qed (simp add: colon_parts_def)

text \<open>No two colons in a row.\<close>

fun no_dcolon :: "string \<Rightarrow> bool" where
  "no_dcolon (x # y # r) = (\<not> (x = CHR '':'' \<and> y = CHR '':'') \<and> no_dcolon (y # r))"
| "no_dcolon _ = True"

lemma split_dcolon_id: "no_dcolon s \<Longrightarrow> split_dcolon s = [s]"
  by (induction s rule: no_dcolon.induct) auto

lemma split_dcolon_at: "no_dcolon (s @ '':'') \<Longrightarrow> split_dcolon (s @ ''::'' @ t) = s # split_dcolon t"
  by (induction s rule: no_dcolon.induct) auto

lemma no_dcolon_absent: "CHR '':'' \<notin> set s \<Longrightarrow> no_dcolon s"
  by (induction s rule: no_dcolon.induct) auto

lemma no_dcolon_append:
  "CHR '':'' \<notin> set p \<Longrightarrow> p \<noteq> [] \<Longrightarrow> no_dcolon (p @ s) \<longleftrightarrow> no_dcolon s"
  by (induction p rule: no_dcolon.induct) (auto, (cases s; simp)+)

lemma no_dcolon_colon: "no_dcolon (CHR '':'' # s) \<longleftrightarrow> (s = [] \<or> hd s \<noteq> CHR '':'') \<and> no_dcolon s"
  by (cases s) auto

lemma hd_hextets: "ws \<noteq> [] \<Longrightarrow> hd (hextets ws @ t) \<noteq> CHR '':''"
proof -
  assume "ws \<noteq> []"
  then obtain w v where "ws = w # v" by (cases ws) auto
  moreover have "nat_to_hex w \<noteq> []" by simp
  ultimately have "hd (hextets ws @ t) \<in> set (nat_to_hex w)"
    by (cases v) (simp_all add: hextets_def)
  then show ?thesis using hex_no_colon[of w] by metis
qed

lemma no_dcolon_hextets: "no_dcolon (hextets ws @ '':'') \<and> no_dcolon (hextets ws)"
proof (induction ws rule: induct_list012)
  case (2 x)
  then show ?case by (simp add: hextets_def no_dcolon_append no_dcolon_absent)
next
  case (3 x y zs)
  have "no_dcolon (CHR '':'' # hextets (y # zs) @ t) \<longleftrightarrow> no_dcolon (hextets (y # zs) @ t)" for t
    unfolding no_dcolon_colon using hd_hextets[of "y # zs" t] by auto
  from this[of "'':''"] this[of "[]"] 3 show ?case
    by (simp add: hextets_Cons no_dcolon_append)
qed simp

lemma expand_words:
  "\<forall>w \<in> set ws. w < 65536 \<Longrightarrow>
     \<not> list_ex (\<lambda>w. \<not> full hextet_rx w) (map nat_to_hex ws) \<and>
     foldl (\<lambda>val w. push_bit 16 val OR hex_to_nat w) 0 (map nat_to_hex ws) = words_val ws"
  by (simp add: fold_words words_val_def list_ex_iff hextet_rx_hex)

lemma ipv6_words_full:
  assumes "length ws = 8" "\<forall>w \<in> set ws. w < 65536"
  shows "ipv6_words (hextets ws) = Some (words_val ws)"
proof -
  have "split_dcolon (hextets ws) = [hextets ws]" by (simp add: split_dcolon_id no_dcolon_hextets)
  then show ?thesis
    unfolding ipv6_words_def Let_def using expand_words[OF assms(2)] assms(1) by simp
qed

lemma ipv6_words_compressed:
  assumes "length ls + length rs < 8" "\<forall>w \<in> set ls \<union> set rs. w < 65536"
  shows "ipv6_words (hextets ls @ ''::'' @ hextets rs) =
     Some (words_val (ls @ replicate (8 - length ls - length rs) 0 @ rs))"
proof -
  define s where "s = hextets ls @ ''::'' @ hextets rs"
  define k where "k = 8 - length ls - length rs"
  define ws where "ws = ls @ replicate k 0 @ rs"
  have ws8: "length ws = 8" "\<forall>w \<in> set ws. w < 65536" using assms by (auto simp: ws_def k_def)
  have "nat_to_hex 0 = ''0''" by code_simp
  then have ws: "map nat_to_hex ls @ replicate k ''0'' @ map nat_to_hex rs = map nat_to_hex ws"
    by (simp add: ws_def)
  have split: "split_dcolon s = [hextets ls, hextets rs]"
    using split_dcolon_at[of "hextets ls" "hextets rs"] by (simp add: s_def no_dcolon_hextets split_dcolon_id)
  have k: "nat (8 - int (length ls) - int (length rs)) = k" "\<not> 8 - int (length ls) - int (length rs) < 1"
    using assms(1) by (simp_all add: k_def)
  have two: "length [hextets ls, hextets rs] = 2" by simp
  show ?thesis
    unfolding ipv6_words_def Let_def s_def[symmetric] k_def[symmetric] ws_def[symmetric] split two
      nth_Cons_0 nth_Cons_Suc One_nat_def colon_parts_hextets length_map
    using k expand_words[OF ws8(2)] ws8(1) ws by simp
qed

lemma hextets_chars: "c \<in> set (hextets ws) \<Longrightarrow> is_lhex c \<or> c = CHR '':''"
proof (induction ws rule: induct_list012)
  case (2 x)
  then show ?case by (auto simp: hextets_def dest: nat_to_hex_digits)
next
  case (3 x y zs)
  then show ?case by (auto simp: hextets_Cons dest: nat_to_hex_digits)
qed simp

lemma ipv6ToBigInt_plain:
  assumes "\<And>c. c \<in> set s \<Longrightarrow> is_lhex c \<or> c = CHR '':''"
  shows "ipv6ToBigInt s = ipv6_words s"
proof -
  have "\<not> is_upper c \<and> code c < 192" if "c \<in> set s" for c
    using assms[OF that] by (auto simp: char_class_defs)
  then have "to_lower s = s" by (rule to_lower_id)
  moreover have "CHR ''%'' \<notin> set s" "CHR ''.'' \<notin> set s"
    using assms by (fastforce simp: char_class_defs)+
  ultimately show ?thesis by (simp add: ipv6ToBigInt_def includes_sub_single)
qed

lemma ipv6ToBigInt_full:
  "length ws = 8 \<Longrightarrow> \<forall>w \<in> set ws. w < 65536 \<Longrightarrow> ipv6ToBigInt (hextets ws) = Some (words_val ws)"
  by (subst ipv6ToBigInt_plain) (auto simp: ipv6_words_full dest: hextets_chars)

lemma ipv6ToBigInt_compressed:
  "length ls + length rs < 8 \<Longrightarrow> \<forall>w \<in> set ls \<union> set rs. w < 65536 \<Longrightarrow>
     ipv6ToBigInt (hextets ls @ ''::'' @ hextets rs) =
       Some (words_val (ls @ replicate (8 - length ls - length rs) 0 @ rs))"
  by (subst ipv6ToBigInt_plain) (auto simp: ipv6_words_compressed[simplified] dest: hextets_chars)

lemma words_val_append: "words_val (us @ vs) = words_val us * 65536 ^ length vs + words_val vs"
proof -
  have "foldl (\<lambda>v w. v * 65536 + w) a vs = a * 65536 ^ length vs + foldl (\<lambda>v w. v * 65536 + w) 0 vs" for a
  proof (induction vs rule: rev_induct)
    case (snoc w ws)
    then show ?case by (simp add: add_mult_distrib mult.assoc)
  qed simp
  then show ?thesis unfolding words_val_def foldl_append .
qed

lemma words_val_bound: "\<forall>w \<in> set ws. w < 65536 \<Longrightarrow> words_val ws < 65536 ^ length ws"
proof (induction ws rule: rev_induct)
  case (snoc w ws)
  then have "words_val ws + 1 \<le> 65536 ^ length ws" "w < 65536" by simp_all
  then have "(words_val ws + 1) * 65536 \<le> 65536 ^ length ws * 65536" by (intro mult_right_mono) simp_all
  with \<open>w < 65536\<close> show ?case by (simp add: words_val_append[of ws "[w]"] words_val_def[of "[w]"])
qed (simp add: words_val_def)

lemma words_val_div:
  "\<forall>w \<in> set vs. w < 65536 \<Longrightarrow> words_val (us @ vs) div 65536 ^ length vs = words_val us"
  using words_val_bound[of vs] by (simp add: words_val_append)

text \<open>The networks of the IPv6 table, and \<open>2000::/3\<close>, read off the first three groups.\<close>

definition public_hextets :: "nat \<Rightarrow> nat \<Rightarrow> nat \<Rightarrow> bool" where
  "public_hextets g0 g1 g2 \<longleftrightarrow> 8192 \<le> g0 \<and> g0 < 16384 \<and>
     \<not> ((g0 = 8193 \<and> g1 = 0) \<or> (g0 = 8193 \<and> g1 = 2 \<and> g2 = 0) \<or> (g0 = 8193 \<and> 16 \<le> g1 \<and> g1 \<le> 31)
        \<or> (g0 = 8193 \<and> 32 \<le> g1 \<and> g1 \<le> 47) \<or> (g0 = 8193 \<and> g1 = 3512) \<or> g0 = 8194 \<or> g0 = 16382)"

lemma public_words:
  assumes "length ws = 8" "\<forall>w \<in> set ws. w < 65536"
  shows "drop_bit 125 (words_val ws) = 1 \<and>
      \<not> list_ex (\<lambda>(base, bits). ipv6CidrContains (words_val ws) base bits) ipv6_denied
    \<longleftrightarrow> public_hextets (ws ! 0) (ws ! 1) (ws ! 2)"
proof -
  define a b c where abc: "a = ws ! 0" "b = ws ! 1" "c = ws ! 2"
  have bound: "a < 65536" "b < 65536" "c < 65536" using assms by (simp_all add: abc)
  have *: "words_val ws div 65536 ^ (8 - k) = words_val (take k ws)" for k
    using words_val_div[of "drop k ws" "take k ws"] assms by (auto dest: in_set_dropD)
  have "take 1 ws = [a]" "take 2 ws = [a, b]" "take 3 ws = [a, b, c]"
    using assms(1) by (simp_all add: abc take_Suc_conv_app_nth numeral_2_eq_2 numeral_3_eq_3)
  then have divs: "words_val ws div 2 ^ 112 = a" "words_val ws div 2 ^ 96 = a * 65536 + b"
      "words_val ws div 2 ^ 80 = (a * 65536 + b) * 65536 + c"
    using *[of 1] *[of 2] *[of 3] by (simp_all add: words_val_def)
  have "words_val ws div 2 ^ 125 = words_val ws div 2 ^ 112 div 2 ^ 13"
    by (subst div_mult2_eq[symmetric], subst power_add[symmetric]) simp
  moreover have "words_val ws div 2 ^ 100 = words_val ws div 2 ^ 96 div 2 ^ 4"
    by (subst div_mult2_eq[symmetric], subst power_add[symmetric]) simp
  moreover have "(a * 65536 + b) div 2 ^ 4 = a * 4096 + b div 16" by simp
  ultimately have divs': "words_val ws div 2 ^ 125 = a div 8192" "words_val ws div 2 ^ 100 = a * 4096 + b div 16"
    by (simp_all only: divs) simp
  have b16: "b div 16 < 4096" using bound by auto
  have nets: "words_val ws div 2 ^ 96 = 8193 * 2 ^ 112 div 2 ^ 96 \<longleftrightarrow> a = 8193 \<and> b = 0"
    "words_val ws div 2 ^ 80 = (8193 * 65536 + 2) * 2 ^ 96 div 2 ^ 80 \<longleftrightarrow> (a = 8193 \<and> b = 2) \<and> c = 0"
    "words_val ws div 2 ^ 100 = (8193 * 65536 + 16) * 2 ^ 96 div 2 ^ 100 \<longleftrightarrow> a = 8193 \<and> b div 16 = 1"
    "words_val ws div 2 ^ 100 = (8193 * 65536 + 32) * 2 ^ 96 div 2 ^ 100 \<longleftrightarrow> a = 8193 \<and> b div 16 = 2"
    "words_val ws div 2 ^ 96 = (8193 * 65536 + 3512) * 2 ^ 96 div 2 ^ 96 \<longleftrightarrow> a = 8193 \<and> b = 3512"
    "words_val ws div 2 ^ 112 = 8194 * 2 ^ 112 div 2 ^ 112 \<longleftrightarrow> a = 8194"
    "words_val ws div 2 ^ 112 = 16382 * 2 ^ 112 div 2 ^ 112 \<longleftrightarrow> a = 16382"
    unfolding divs divs' base_eq[OF bound(2)] base_eq[OF bound(3)] base_eq[OF b16] by simp_all
  have range: "b div 16 = 1 \<longleftrightarrow> 16 \<le> b \<and> b \<le> 31" "b div 16 = 2 \<longleftrightarrow> 32 \<le> b \<and> b \<le> 47"
    "a div 8192 = 1 \<longleftrightarrow> 8192 \<le> a \<and> a < 16384" by auto
  have table: "map (\<lambda>(base, bits). (ipv6ToBigInt base, 128 - bits)) ipv6_denied =
      [(Some (8193 * 2 ^ 112), 96), (Some ((8193 * 65536 + 2) * 2 ^ 96), 80),
       (Some ((8193 * 65536 + 16) * 2 ^ 96), 100), (Some ((8193 * 65536 + 32) * 2 ^ 96), 100),
       (Some ((8193 * 65536 + 3512) * 2 ^ 96), 96), (Some (8194 * 2 ^ 112), 112), (Some (16382 * 2 ^ 112), 112)]"
    by code_simp
  have "list_ex (\<lambda>(base, bits). ipv6CidrContains v base bits) t \<longleftrightarrow>
      list_ex (\<lambda>(b, k). \<exists>x. b = Some x \<and> v div 2 ^ k = x div 2 ^ k) (map (\<lambda>(base, bits). (ipv6ToBigInt base, 128 - bits)) t)" for v t
    by (induction t) (auto simp: ipv6CidrContains_def drop_bit_eq_div split: option.splits)
  note this[of "words_val ws" ipv6_denied, unfolded table list_ex_Cons_Nil prod.case option.inject ex_simps simp_thms nets range]
  then show ?thesis
    unfolding drop_bit_eq_div divs' range public_hextets_def abc[symmetric] by simp
qed

section \<open>Node recognises the text forms\<close>

lemma v6_seg_hex: "w < 65536 \<Longrightarrow> nat_to_hex w \<in> lang v6_seg"
  using length_nat_to_base_le[of 16 w 4]
  by (auto simp: v6_seg_def in_lang_Rep_Cls Suc_le_eq dest: nat_to_hex_digits is_lhex_is_hex)

lemma SeqI: "u \<in> lang a \<Longrightarrow> v \<in> lang b \<Longrightarrow> u @ v \<in> lang (RSeq a b)"
  unfolding in_lang_Seq by blast

abbreviation leads :: "nat list \<Rightarrow> string" where
  "leads ws \<equiv> concat (map (\<lambda>w. nat_to_hex w @ '':'') ws)"

abbreviation tails :: "nat list \<Rightarrow> string" where
  "tails ws \<equiv> concat (map (\<lambda>w. CHR '':'' # nat_to_hex w) ws)"

lemma in_lang_leads:
  "\<forall>w \<in> set ws. w < 65536 \<Longrightarrow> leads ws \<in> lang (RRep v6_lead (length ws) (length ws))"
  unfolding in_lang_Rep
  by (intro exI[of _ "map (\<lambda>w. nat_to_hex w @ '':'') ws"]) (auto simp: v6_lead_def in_lang_Seq in_lang_chr v6_seg_hex)

lemma in_lang_tails:
  "\<forall>w \<in> set ws. w < 65536 \<Longrightarrow> m \<le> length ws \<Longrightarrow> length ws \<le> n \<Longrightarrow> tails ws \<in> lang (RRep v6_tail m n)"
proof -
  have "CHR '':'' # nat_to_hex w \<in> lang v6_tail" if "w < 65536" for w
  proof -
    have "CHR '':'' # nat_to_hex w = '':'' @ nat_to_hex w" by simp
    then show ?thesis unfolding v6_tail_def in_lang_Seq in_lang_chr using v6_seg_hex[OF that] by blast
  qed
  then show "\<forall>w \<in> set ws. w < 65536 \<Longrightarrow> m \<le> length ws \<Longrightarrow> length ws \<le> n \<Longrightarrow> ?thesis"
    unfolding in_lang_Rep by (intro exI[of _ "map (\<lambda>w. CHR '':'' # nat_to_hex w) ws"]) auto
qed

lemma hextets_snoc: "hextets (ws @ [w]) = leads ws @ nat_to_hex w"
proof (induction ws rule: induct_list012)
  case (3 x y zs)
  then show ?case by (simp add: hextets_Cons)
qed (simp_all add: hextets_def)

lemma hextets_colon: "ws \<noteq> [] \<Longrightarrow> hextets ws @ CHR '':'' # t = leads ws @ t"
  by (induction ws rule: rev_induct) (simp_all add: hextets_snoc)

lemma colon_hextets: "ws \<noteq> [] \<Longrightarrow> CHR '':'' # hextets ws = tails ws"
proof (induction ws rule: induct_list012)
  case (3 x y zs)
  then show ?case by (simp add: hextets_Cons)
qed (simp_all add: hextets_def)

lemma is_ipv6_body: "s \<in> lang v6_body \<Longrightarrow> is_ipv6 s"
  unfolding is_ipv6_def full_iff v6_rx_def in_lang_Seq in_lang_opt
  by (intro exI[of _ s] exI[of _ "[]"]) simp

lemma v6_bodyI:
  assumes "s \<in> lang r"
  shows "r \<in> set [RSeq (RRep v6_lead 7 7) (RAlt v6_seg (chr CHR '':'')),
      RSeq (RRep v6_lead 6 6) (alts [v4_str, v6_tail, chr CHR '':'']),
      RSeq (RRep v6_lead 5 5) (alts [v6_quad, RRep v6_tail 1 2, chr CHR '':'']),
      RSeq (RRep v6_lead 4 4) (alts [RSeq (RRep v6_tail 0 1) v6_quad, RRep v6_tail 1 3, chr CHR '':'']),
      RSeq (RRep v6_lead 3 3) (alts [RSeq (RRep v6_tail 0 2) v6_quad, RRep v6_tail 1 4, chr CHR '':'']),
      RSeq (RRep v6_lead 2 2) (alts [RSeq (RRep v6_tail 0 3) v6_quad, RRep v6_tail 1 5, chr CHR '':'']),
      RSeq (RRep v6_lead 1 1) (alts [RSeq (RRep v6_tail 0 4) v6_quad, RRep v6_tail 1 6, chr CHR '':'']),
      RSeq (chr CHR '':'') (alts [RSeq (RRep v6_tail 0 5) v6_quad, RRep v6_tail 1 7, chr CHR '':''])]
    \<Longrightarrow> s \<in> lang v6_body"
  unfolding v6_body_def in_lang_alts using assms by blast

lemma is_ipv6_full:
  assumes "length ws = 8" "\<forall>w \<in> set ws. w < 65536"
  shows "is_ipv6 (hextets ws)"
proof -
  obtain us w where ws: "ws = us @ [w]" "length us = 7" using assms(1)
    by (cases ws rule: rev_cases) auto
  then have "hextets ws \<in> lang (RSeq (RRep v6_lead 7 7) (RAlt v6_seg (chr CHR '':'')))"
    unfolding hextets_snoc ws(1)
    using in_lang_leads[of us] v6_seg_hex[of w] assms(2)[unfolded ws(1)] by (intro SeqI) (auto simp: in_lang_Alt)
  then show ?thesis
    by (intro is_ipv6_body v6_bodyI) (assumption, unfold list.set, (rule insertI1 | rule insertI2)+)
qed

lemma ipv6_compressed_shape:
  assumes "ls \<noteq> [] \<or> rs \<noteq> []"
  shows "hextets ls @ ''::'' @ hextets rs =
     (if ls = [] then '':'' @ tails rs else if rs = [] then leads ls @ '':'' else leads ls @ tails rs)"
  using assms by (auto simp: hextets_colon colon_hextets[symmetric])

lemma Seq_alts3:
  "s \<in> lang (RSeq l (RAlt b c)) \<Longrightarrow> s \<in> lang (RSeq l (alts [a, b, c]))"
  unfolding in_lang_Seq in_lang_Alt in_lang_alts by auto

lemma in_lang_Rep_1: "s \<in> lang (RRep r 1 1) \<longleftrightarrow> s \<in> lang r"
proof
  assume "s \<in> lang (RRep r 1 1)"
  then obtain ps where "s = concat ps" "length ps = 1" "set ps \<subseteq> lang r" by (auto simp: in_lang_Rep)
  then show "s \<in> lang r" by (auto simp: length_Suc_conv)
next
  assume "s \<in> lang r"
  then show "s \<in> lang (RRep r 1 1)" unfolding in_lang_Rep by (intro exI[of _ "[s]"]) simp
qed

lemma is_ipv6_compressed:
  assumes "length ls + length rs < 8" "\<forall>w \<in> set ls \<union> set rs. w < 65536"
  shows "is_ipv6 (hextets ls @ ''::'' @ hextets rs)" (is "is_ipv6 ?s")
proof (rule is_ipv6_body, cases "ls = []")
  case True
  have tail: "rs \<noteq> [] \<Longrightarrow> tails rs \<in> lang (RRep v6_tail 1 7)"
    using in_lang_tails[of rs 1 7] assms True by (cases rs) auto
  have "?s = '':'' @ (if rs = [] then '':'' else tails rs)"
    using ipv6_compressed_shape[of ls rs] True by auto
  then have "?s \<in> lang (RSeq (chr CHR '':'') (RAlt (RRep v6_tail 1 7) (chr CHR '':'')))"
    using tail by (simp only:) (intro SeqI, auto simp: in_lang_chr in_lang_Alt)
  then show "?s \<in> lang v6_body"
    by (rule v6_bodyI[OF Seq_alts3]) (unfold list.set, (rule insertI1 | rule insertI2)+)
next
  case False
  define k m where "k = length ls" and "m = 7 - k"
  have k: "0 < k" "length rs < 8 - k" using assms(1) False by (simp_all add: k_def)
  have lead: "leads ls \<in> lang (RRep v6_lead k k)" using in_lang_leads[of ls] assms by (auto simp: k_def)
  have tail: "rs \<noteq> [] \<Longrightarrow> tails rs \<in> lang (RRep v6_tail 1 m)"
    using in_lang_tails[of rs 1 m] assms k by (cases rs) (auto simp: m_def)
  have eq: "?s = leads ls @ (if rs = [] then '':'' else tails rs)"
    using ipv6_compressed_shape[of ls rs] False by auto
  have mem: "?s \<in> lang (RSeq (RRep v6_lead k k) (RAlt (RRep v6_tail 1 m) (chr CHR '':'')))"
    unfolding eq using lead tail by (intro SeqI) (auto simp: in_lang_Alt in_lang_chr)
  have "n = 1 \<or> n = 2 \<or> n = 3 \<or> n = 4 \<or> n = 5 \<or> n = 6 \<or> n = 7" if "0 < n" "n < 8" for n :: nat
    using that by presburger
  moreover have "k < 8" using k by simp
  ultimately have "k = 1 \<and> m = 6 \<or> k = 2 \<and> m = 5 \<or> k = 3 \<and> m = 4 \<or> k = 4 \<and> m = 3 \<or> k = 5 \<and> m = 2
      \<or> k = 6 \<and> m = 1 \<or> k = 7" using k(1) unfolding m_def by force
  then show "?s \<in> lang v6_body"
  proof (elim disjE conjE)
    assume "k = 7"
    then have "rs = []" using k by simp
    with eq lead \<open>k = 7\<close> have "?s \<in> lang (RSeq (RRep v6_lead 7 7) (RAlt v6_seg (chr CHR '':'')))"
      by (simp only:) (intro SeqI, auto simp: in_lang_Alt in_lang_chr)
    then show ?thesis by (rule v6_bodyI) (unfold list.set, (rule insertI1 | rule insertI2)+)
  next
    assume "k = 6" "m = 1"
    with mem have "?s \<in> lang (RSeq (RRep v6_lead 6 6) (RAlt v6_tail (chr CHR '':'')))"
      unfolding in_lang_Seq in_lang_Alt by (simp add: in_lang_Rep_1[unfolded One_nat_def])
    then show ?thesis by (rule v6_bodyI[OF Seq_alts3]) (unfold list.set, (rule insertI1 | rule insertI2)+)
  qed (rule v6_bodyI[OF Seq_alts3[OF mem]], simp only: list.set, (rule insertI1 | rule insertI2)+)+
qed

lemma hextets_not_ipv4: "CHR '':'' \<in> set s \<Longrightarrow> \<not> is_ipv4 s"
proof -
  have "CHR '':'' \<notin> set (nat_to_dec n)" for n
    using nat_to_dec_digits[of "CHR '':''" n] by (auto simp: char_class_defs)
  then show "CHR '':'' \<in> set s \<Longrightarrow> \<not> is_ipv4 s" by (auto simp: is_ipv4_iff dotted_parts)
qed

lemma isIP_dotted: "a < 256 \<Longrightarrow> b < 256 \<Longrightarrow> c < 256 \<Longrightarrow> d < 256 \<Longrightarrow> isIP (dotted a b c d) = 4"
  by (auto simp: isIP_def is_ipv4_iff)

lemma isIP_full: "length ws = 8 \<Longrightarrow> \<forall>w \<in> set ws. w < 65536 \<Longrightarrow> isIP (hextets ws) = 6"
proof -
  assume ws: "length ws = 8" "\<forall>w \<in> set ws. w < 65536"
  then obtain a b us where "ws = a # b # us" by (cases ws; cases "tl ws") auto
  then have "CHR '':'' \<in> set (hextets ws)" by (simp add: hextets_Cons)
  then show ?thesis using is_ipv6_full[OF ws] by (simp add: isIP_def hextets_not_ipv4)
qed

lemma isIP_compressed:
  "length ls + length rs < 8 \<Longrightarrow> \<forall>w \<in> set ls \<union> set rs. w < 65536 \<Longrightarrow> isIP (hextets ls @ ''::'' @ hextets rs) = 6"
  using is_ipv6_compressed[of ls rs] by (simp add: isIP_def hextets_not_ipv4)

lemma isPublicIpv6_value:
  "ipv6ToBigInt s = Some (words_val ws) \<Longrightarrow> length ws = 8 \<Longrightarrow> \<forall>w \<in> set ws. w < 65536 \<Longrightarrow>
     isPublicIpv6 s \<longleftrightarrow> public_hextets (ws ! 0) (ws ! 1) (ws ! 2)"
  using public_words[of ws] by (auto simp: isPublicIpv6_def)


section \<open>What the classifiers decide\<close>

text \<open>C34. For every dotted quad, \<open>isPublicAddress\<close> accepts exactly the addresses outside the sixteen
  denied IPv4 networks, stated octet by octet instead of by base address and prefix length.\<close>

theorem isPublicAddress_ipv4:
  assumes "a < 256" "b < 256" "c < 256" "d < 256"
  shows "isPublicAddress (dotted a b c d) \<longleftrightarrow> \<not> denied_octets a b c d"
  using assms by (simp add: isPublicAddress_def isIP_dotted isPublicIpv4_dotted)

theorem isPublicAddress_ipv4_witness:
  "isPublicAddress (dotted 169 254 169 254) \<longleftrightarrow> \<not> denied_octets 169 254 169 254"
  by (rule isPublicAddress_ipv4) simp_all

text \<open>C35. An IPv6 address gets one verdict whichever way it is written, with all eight groups or with
  a run of zero groups compressed to a double colon: it is public exactly when it lies in
  \<open>2000::/3\<close> and outside the seven denied networks, read off its first three groups.\<close>

theorem isPublicAddress_ipv6:
  assumes "ws = ls @ replicate n 0 @ rs" "0 < n" "length ws = 8" "\<forall>w \<in> set ws. w < 65536"
  shows "(isPublicAddress (hextets ws) \<longleftrightarrow> public_hextets (ws ! 0) (ws ! 1) (ws ! 2)) \<and>
    (isPublicAddress (hextets ls @ ''::'' @ hextets rs) \<longleftrightarrow> public_hextets (ws ! 0) (ws ! 1) (ws ! 2))"
proof -
  have len: "length ls + length rs < 8" and n: "n = 8 - length ls - length rs" using assms(1-3) by auto
  have lt: "\<forall>w \<in> set ls \<union> set rs. w < 65536" using assms(1,4) by auto
  have "ipv6ToBigInt (hextets ls @ ''::'' @ hextets rs) = Some (words_val ws)"
    using ipv6ToBigInt_compressed[OF len lt] by (simp only: assms(1) n)
  then show ?thesis
    using isPublicIpv6_value[OF _ assms(3,4)] ipv6ToBigInt_full[OF assms(3,4)]
      isIP_full[OF assms(3,4)] isIP_compressed[OF len lt]
    by (simp add: isPublicAddress_def)
qed

theorem isPublicAddress_ipv6_witness:
  "(isPublicAddress (hextets [9734, 10258, 0, 0, 0, 0, 0, 1]) \<longleftrightarrow> public_hextets 9734 10258 0) \<and>
   (isPublicAddress (hextets [9734, 10258] @ ''::'' @ hextets [1]) \<longleftrightarrow> public_hextets 9734 10258 0)"
proof -
  have "[9734, 10258, 0, 0, 0, 0, 0, 1] = [9734, 10258] @ replicate 5 0 @ [1 :: nat]"
    by (simp add: eval_nat_numeral(2,3))
  from isPublicAddress_ipv6[OF this] show ?thesis by simp
qed

end
