(* ===== verification/EgressPolicy.thy ===== *)
theory EgressPolicy
  imports EgressAddress
begin

text \<open>
  \<open>src/agent/egress-policy.ts\<close>: which destinations a workspace may reach through the proxy.
  Hostname normalisation and the allowlist patterns, the port sets, \<open>EgressPolicy.approve\<close>
  and the parser of proxy authorities. The address classifiers are in \<open>EgressAddress\<close>.

  Parameters: \<open>ta\<close> is Node's \<open>domainToASCII\<close> (IDNA), and a DNS lookup is the reply it
  eventually gives, if it gives one. An \<open>EgressPolicyError\<close> is its \<open>code\<close>; the messages
  are constants and are left out. Port numbers are integers here (every caller passes the
  value of a digit string or an integer literal), so \<open>Number.isInteger\<close> always holds.
\<close>

section \<open>Types\<close>

datatype egress_protocol = HTTP | CONNECT

record resolved_address =
  ra_address :: string
  ra_family :: nat

record approved_destination = resolved_address +
  ad_hostname :: string
  ad_port :: int
  ad_protocol :: egress_protocol

datatype egress_code =
    InvalidAuthority | CredentialsForbidden | IpLiteralForbidden | HostnameForbidden
  | PortForbidden | DnsFailed | DnsEmpty | AddressForbidden

record host_pattern =
  hp_hostname :: string
  hp_includeSubdomains :: bool


section \<open>Hostnames\<close>

definition is_ldigit :: "char \<Rightarrow> bool" where
  "is_ldigit c \<longleftrightarrow> is_lower c \<or> is_digit c"

definition is_label_char :: "char \<Rightarrow> bool" where
  "is_label_char c \<longleftrightarrow> is_ldigit c \<or> c = CHR ''-''"

text \<open>\<open>/^[a-z0-9](?:[a-z0-9-]{0,61}[a-z0-9])?$/u\<close>\<close>

definition label_rx :: rx where
  "label_rx = RSeq (RCls is_ldigit) (opt (RSeq (RRep (RCls is_label_char) 0 61) (RCls is_ldigit)))"

definition normalizeHostname :: "(string \<Rightarrow> string) \<Rightarrow> string \<Rightarrow> (egress_code, string) res" where
  "normalizeHostname ta input =
     (let withoutFinalDot = (if ends_with input ''.'' then butlast input else input);
          hostname = to_lower (ta withoutFinalDot)
      in if length hostname = 0 \<or> 253 < length hostname \<or> includes_sub hostname ''..''
            \<or> \<not> list_all (full label_rx) (split_on CHR ''.'' hostname)
         then Inl InvalidAuthority
         else if hostname = ''localhost'' \<or> ends_with hostname ''.localhost''
            \<or> ends_with hostname ''.local'' \<or> ends_with hostname ''.internal''
            \<or> hostname = ''home.arpa'' \<or> ends_with hostname ''.home.arpa''
         then Inl HostnameForbidden
         else Inr hostname)"

definition parseHostPattern :: "(string \<Rightarrow> string) \<Rightarrow> string \<Rightarrow> (egress_code, host_pattern) res" where
  "parseHostPattern ta input =
     (let includeSubdomains = starts_with input ''*.''
      in rbind (normalizeHostname ta (if includeSubdomains then drop 2 input else input))
           (\<lambda>hostname. Inr \<lparr>hp_hostname = hostname, hp_includeSubdomains = includeSubdomains\<rparr>))"

definition hostMatches :: "string \<Rightarrow> host_pattern \<Rightarrow> bool" where
  "hostMatches hostname pat =
     (if hp_includeSubdomains pat
      then length (hp_hostname pat) < length hostname \<and> ends_with hostname (CHR ''.'' # hp_hostname pat)
      else hostname = hp_hostname pat)"

definition validatePort :: "int \<Rightarrow> (egress_code, unit) res" where
  "validatePort port = (if port < 1 \<or> 65535 < port then Inl InvalidAuthority else Inr ())"


section \<open>The policy\<close>

record egress_policy =
  ep_hostPatterns :: "host_pattern list"
  ep_httpPorts :: "int set"
  ep_connectPorts :: "int set"
  ep_dnsTimeoutMs :: int

record egress_options =
  eo_allowedHosts :: "string list option"
  eo_allowedHttpPorts :: "int list option"
  eo_allowedConnectPorts :: "int list option"
  eo_dnsTimeoutMs :: "int option"

text \<open>What the constructor may throw: a policy error, or the plain error of \<open>validatePositiveInteger\<close>.\<close>

datatype policy_failure = PolicyError egress_code | NotPositiveInteger

definition lift_code :: "(egress_code, 'a) res \<Rightarrow> (policy_failure, 'a) res" where
  "lift_code = map_sum PolicyError id"

definition validatePositiveInteger :: "int \<Rightarrow> (policy_failure, int) res" where
  "validatePositiveInteger v = (if \<not> is_safe_integer v \<or> v < 1 then Inl NotPositiveInteger else Inr v)"

definition option_or :: "'a option \<Rightarrow> 'a \<Rightarrow> 'a" where
  "option_or x d = (case x of None \<Rightarrow> d | Some v \<Rightarrow> v)"

definition new_EgressPolicy :: "(string \<Rightarrow> string) \<Rightarrow> egress_options \<Rightarrow> (policy_failure, egress_policy) res" where
  "new_EgressPolicy ta opts =
     rbind (lift_code (rmap (parseHostPattern ta) (option_or (eo_allowedHosts opts) []))) (\<lambda>hostPatterns.
     let httpPorts = option_or (eo_allowedHttpPorts opts) [80];
         connectPorts = option_or (eo_allowedConnectPorts opts) [443]
     in rbind (lift_code (rmap validatePort (httpPorts @ connectPorts))) (\<lambda>_.
        rbind (validatePositiveInteger (option_or (eo_dnsTimeoutMs opts) 5000)) (\<lambda>dnsTimeoutMs.
        Inr \<lparr>ep_hostPatterns = hostPatterns, ep_httpPorts = set httpPorts,
             ep_connectPorts = set connectPorts, ep_dnsTimeoutMs = dnsTimeoutMs\<rparr>)))"

text \<open>
  A pending lookup: it never settles, rejects after some milliseconds, or resolves after
  some milliseconds. \<open>withTimeout\<close> races it against the timer. \<open>setTimeout\<close> of Node takes a
  delay above \<open>2 ^ 31 - 1\<close> (or below 1) as one millisecond.
\<close>

datatype dns_reply = Never | Rejects int | Resolves int "resolved_address list"

definition timer_delay :: "int \<Rightarrow> int" where
  "timer_delay ms = (if ms < 1 \<or> 2147483647 < ms then 1 else ms)"

definition withTimeout :: "dns_reply \<Rightarrow> int \<Rightarrow> (unit, resolved_address list) res" where
  "withTimeout reply timeoutMs =
     (case reply of
        Never \<Rightarrow> Inl ()
      | Rejects t \<Rightarrow> Inl ()
      | Resolves t answers \<Rightarrow> if t < timer_delay timeoutMs then Inr answers else Inl ())"

definition answer_ok :: "resolved_address \<Rightarrow> bool" where
  "answer_ok answer \<longleftrightarrow>
     \<not> (isIP (ra_address answer) \<noteq> ra_family answer \<or> \<not> isPublicAddress (ra_address answer))"

definition approve ::
  "(string \<Rightarrow> string) \<Rightarrow> (string \<Rightarrow> dns_reply) \<Rightarrow> egress_policy \<Rightarrow> string \<Rightarrow> int \<Rightarrow> egress_protocol
    \<Rightarrow> (egress_code, approved_destination) res" where
  "approve ta dns pol host port protocol =
     rbind (normalizeHostname ta host) (\<lambda>hostname.
     if isIP hostname \<noteq> 0 then Inl IpLiteralForbidden
     else if \<not> list_ex (\<lambda>pat. hostMatches hostname pat) (ep_hostPatterns pol) then Inl HostnameForbidden
     else rbind (validatePort port) (\<lambda>_.
       let ports = (if protocol = CONNECT then ep_connectPorts pol else ep_httpPorts pol)
       in if port \<notin> ports then Inl PortForbidden
          else (case withTimeout (dns hostname) (ep_dnsTimeoutMs pol) of
                  Inl _ \<Rightarrow> Inl DnsFailed
                | Inr answers \<Rightarrow>
                    if length answers = 0 then Inl DnsEmpty
                    else if \<not> list_all answer_ok answers then Inl AddressForbidden
                    else (case answers of
                            [] \<Rightarrow> Inl DnsEmpty
                          | approved # _ \<Rightarrow>
                              Inr \<lparr>ra_address = ra_address approved, ra_family = ra_family approved,
                                   ad_hostname = hostname, ad_port = port, ad_protocol = protocol\<rparr>))))"


section \<open>Proxy authorities\<close>

text \<open>\<open>/[\u0000-\u0020\u007f/\\?#]/u\<close>\<close>

definition is_authority_junk :: "char \<Rightarrow> bool" where
  "is_authority_junk c \<longleftrightarrow> code c \<le> 32 \<or> code c = 127 \<or> c \<in> {CHR ''/'', CHR 0x5C, CHR ''?'', CHR ''#''}"

text \<open>\<open>/^[0-9]{1,5}$/u\<close>\<close>

definition port_rx :: rx where
  "port_rx = RRep (RCls is_digit) 1 5"

definition parseProxyAuthority ::
  "(string \<Rightarrow> string) \<Rightarrow> string \<Rightarrow> int option \<Rightarrow> (egress_code, string \<times> int) res" where
  "parseProxyAuthority ta authority defaultPort =
     (if length authority = 0 \<or> 512 < length authority \<or> list_ex is_authority_junk authority
      then Inl InvalidAuthority
      else if includes_sub authority ''@'' then Inl CredentialsForbidden
      else if starts_with authority ''['' then Inl IpLiteralForbidden
      else if 1 < count_list authority CHR '':'' then Inl InvalidAuthority
      else
        let separator = last_index_of CHR '':'' authority;
            rawHostname = (case separator of Some i \<Rightarrow> take i authority | None \<Rightarrow> authority);
            rawPort = map_option (\<lambda>i. drop (i + 1) authority) separator
        in if rawPort = Some [] \<or> (\<exists>p \<in> set_option rawPort. \<not> full port_rx p) then Inl InvalidAuthority
           else if rawPort = None \<and> defaultPort = None then Inl InvalidAuthority
           else rbind (normalizeHostname ta rawHostname) (\<lambda>hostname.
             if isIP hostname \<noteq> 0 then Inl IpLiteralForbidden
             else case (case rawPort of None \<Rightarrow> defaultPort | Some p \<Rightarrow> Some (int (dec_to_nat p))) of
                 None \<Rightarrow> Inl InvalidAuthority
               | Some port \<Rightarrow> rbind (validatePort port) (\<lambda>_. Inr (hostname, port))))"


section \<open>Hostnames, as lists of labels\<close>

definition valid_label :: "string \<Rightarrow> bool" where
  "valid_label l \<longleftrightarrow> l \<noteq> [] \<and> length l \<le> 63 \<and> list_all is_label_char l
     \<and> is_ldigit (hd l) \<and> is_ldigit (last l)"

lemma is_ldigit_label: "is_ldigit c \<Longrightarrow> is_label_char c"
  by (simp add: is_label_char_def)

lemma label_rx_iff: "full label_rx l \<longleftrightarrow> valid_label l"
proof -
  have "l \<in> lang label_rx \<longleftrightarrow>
      (\<exists>c. l = [c] \<and> is_ldigit c) \<or>
      (\<exists>c m d. l = c # m @ [d] \<and> is_ldigit c \<and> length m \<le> 61 \<and> (\<forall>x \<in> set m. is_label_char x) \<and> is_ldigit d)"
  proof -
    have tail: "v \<in> lang (opt (RSeq (RRep (RCls is_label_char) 0 61) (RCls is_ldigit))) \<longleftrightarrow>
        v = [] \<or> (\<exists>m d. v = m @ [d] \<and> length m \<le> 61 \<and> (\<forall>x \<in> set m. is_label_char x) \<and> is_ldigit d)" for v
      unfolding in_lang_opt in_lang_Seq in_lang_Rep_Cls in_lang_Cls by auto
    show ?thesis
      unfolding label_rx_def in_lang_Seq in_lang_Cls ex_singleton_append tail by auto
  qed
  also have "\<dots> \<longleftrightarrow> valid_label l"
  proof
    assume "valid_label l"
    show "(\<exists>c. l = [c] \<and> is_ldigit c) \<or>
      (\<exists>c m d. l = c # m @ [d] \<and> is_ldigit c \<and> length m \<le> 61 \<and> (\<forall>x \<in> set m. is_label_char x) \<and> is_ldigit d)"
    proof (cases l)
      case (Cons c r)
      show ?thesis
      proof (cases r rule: rev_cases)
        case (snoc m d)
        with Cons \<open>valid_label l\<close> show ?thesis by (auto simp: valid_label_def list_all_iff)
      qed (use Cons \<open>valid_label l\<close> in \<open>auto simp: valid_label_def\<close>)
    qed (use \<open>valid_label l\<close> in \<open>simp add: valid_label_def\<close>)
  qed (auto simp: valid_label_def list_all_iff is_ldigit_label)
  finally show ?thesis by (simp add: full_iff)
qed

definition labels :: "string \<Rightarrow> string list" where
  "labels h = split_on CHR ''.'' h"

definition valid_hostname :: "string \<Rightarrow> bool" where
  "valid_hostname h \<longleftrightarrow> length h \<le> 253 \<and> list_all valid_label (labels h)"

definition local_name :: "string list \<Rightarrow> bool" where
  "local_name ls \<longleftrightarrow> last ls = ''localhost''
     \<or> (2 \<le> length ls \<and> last ls \<in> {''local'', ''internal''})
     \<or> (2 \<le> length ls \<and> last (butlast ls) = ''home'' \<and> last ls = ''arpa'')"

lemma join_labels: "join_with CHR ''.'' (labels h) = h"
  by (simp add: labels_def)

lemma join_with_snoc: "ps \<noteq> [] \<Longrightarrow> join_with c (ps @ [q]) = join_with c ps @ c # q"
  by (induction c ps rule: join_with.induct) auto

lemma split_on_snoc_piece:
  "c \<notin> set q \<Longrightarrow> split_on c (p @ c # q) = split_on c p @ [q]"
proof (induction p)
  case (Cons x p)
  obtain r rs where "split_on c p = r # rs" by (cases "split_on c p") auto
  with Cons show ?case by auto
qed simp

text \<open>A dot-prefixed suffix of the name is a run of its last labels.\<close>

lemma ends_with_label:
  assumes "CHR ''.'' \<notin> set q"
  shows "ends_with h (CHR ''.'' # q) \<longleftrightarrow> 2 \<le> length (labels h) \<and> last (labels h) = q"
proof
  assume "ends_with h (CHR ''.'' # q)"
  then obtain p where h: "h = p @ CHR ''.'' # q" by (auto simp: ends_with_iff)
  have "1 \<le> length (split_on CHR ''.'' p)" by (simp add: Suc_leI)
  then show "2 \<le> length (labels h) \<and> last (labels h) = q"
    using assms by (simp add: labels_def h split_on_snoc_piece)
next
  assume *: "2 \<le> length (labels h) \<and> last (labels h) = q"
  then obtain ps where ps: "labels h = ps @ [q]"
    by (metis append_butlast_last_id list.size(3) not_numeral_le_zero)
  with * have "ps \<noteq> []" by auto
  then have "h = join_with CHR ''.'' ps @ CHR ''.'' # q"
    using join_labels[of h] ps by (simp add: join_with_snoc)
  then show "ends_with h (CHR ''.'' # q)" by (auto simp: ends_with_iff)
qed

lemma labels_single: "CHR ''.'' \<notin> set q \<Longrightarrow> h = q \<longleftrightarrow> labels h = [q]"
proof
  assume "labels h = [q]"
  then have "join_with CHR ''.'' (labels h) = q" by simp
  then show "h = q" by (simp only: join_labels)
qed (simp add: labels_def)

lemma no_empty_label: "includes_sub h ''..'' \<Longrightarrow> \<not> list_all valid_label (labels h)"
proof -
  assume "includes_sub h ''..''"
  then obtain l r where "h = l @ ''..'' @ r" by (auto simp: includes_sub_iff)
  moreover have "[] \<in> set (tl (split_on c (l @ c # c # r)))" for c :: char
    by (induction l) (auto split: list.splits dest: list.set_sel(2)[rotated])
  ultimately have "[] \<in> set (labels h)" by (simp add: labels_def list.set_sel(2))
  moreover have "\<not> valid_label []" by (simp add: valid_label_def)
  ultimately show ?thesis by (auto simp: list_all_iff)
qed

lemma local_hostname:
  "h = ''localhost'' \<or> ends_with h ''.localhost'' \<or> ends_with h ''.local'' \<or> ends_with h ''.internal''
     \<or> h = ''home.arpa'' \<or> ends_with h ''.home.arpa'' \<longleftrightarrow> local_name (labels h)"
proof -
  have ne: "labels h \<noteq> []" by (simp add: labels_def)
  have 1: "h = ''localhost'' \<or> ends_with h ''.localhost'' \<longleftrightarrow> last (labels h) = ''localhost''"
  proof -
    have "h = ''localhost'' \<longleftrightarrow> labels h = [''localhost'']" by (rule labels_single) simp
    moreover have "ends_with h ''.localhost'' \<longleftrightarrow> 2 \<le> length (labels h) \<and> last (labels h) = ''localhost''"
      by (rule ends_with_label) simp
    moreover have "length (labels h) < 2 \<Longrightarrow> last (labels h) = ''localhost'' \<Longrightarrow> labels h = [''localhost'']"
      using ne by (cases "labels h") auto
    ultimately show ?thesis by (metis last.simps not_less)
  qed
  have 2: "ends_with h ''.local'' \<longleftrightarrow> 2 \<le> length (labels h) \<and> last (labels h) = ''local''"
    by (rule ends_with_label) simp
  have 3: "ends_with h ''.internal'' \<longleftrightarrow> 2 \<le> length (labels h) \<and> last (labels h) = ''internal''"
    by (rule ends_with_label) simp
  have 4: "h = ''home.arpa'' \<or> ends_with h ''.home.arpa'' \<longleftrightarrow>
      2 \<le> length (labels h) \<and> last (butlast (labels h)) = ''home'' \<and> last (labels h) = ''arpa''"
  proof
    assume "h = ''home.arpa'' \<or> ends_with h ''.home.arpa''"
    then show "2 \<le> length (labels h) \<and> last (butlast (labels h)) = ''home'' \<and> last (labels h) = ''arpa''"
    proof
      assume "ends_with h ''.home.arpa''"
      then obtain p where h: "h = (p @ CHR ''.'' # ''home'') @ CHR ''.'' # ''arpa''" by (auto simp: ends_with_iff)
      have "labels h = (split_on CHR ''.'' p @ [''home'']) @ [''arpa'']"
        unfolding labels_def h by (subst split_on_snoc_piece, simp, subst split_on_snoc_piece) simp_all
      then show ?thesis by (simp add: butlast_append)
    qed (simp add: labels_def)
  next
    assume *: "2 \<le> length (labels h) \<and> last (butlast (labels h)) = ''home'' \<and> last (labels h) = ''arpa''"
    then have "butlast (labels h) \<noteq> []" by (cases "labels h") (auto split: if_splits)
    with * ne have eq: "labels h = butlast (butlast (labels h)) @ [''home'', ''arpa'']"
      by (metis append_Cons append_Nil append_assoc append_butlast_last_id)
    show "h = ''home.arpa'' \<or> ends_with h ''.home.arpa''"
    proof (cases "butlast (butlast (labels h)) = []")
      case True
      with eq have "join_with CHR ''.'' (labels h) = ''home.arpa''" by simp
      then show ?thesis by (simp only: join_labels) simp
    next
      case False
      then have "join_with CHR ''.'' (labels h) = join_with CHR ''.'' (butlast (butlast (labels h))) @ ''.home.arpa''"
        using join_with_snoc[of "butlast (butlast (labels h)) @ [''home'']" "CHR ''.''" "''arpa''"]
          join_with_snoc[of "butlast (butlast (labels h))" "CHR ''.''" "''home''"] eq by simp
      then show ?thesis by (metis join_labels ends_with_iff)
    qed
  qed
  show ?thesis unfolding local_name_def using 1 2 3 4 by auto
qed

lemma normalizeHostname_Inr:
  "normalizeHostname ta s = Inr h \<longleftrightarrow>
     h = to_lower (ta (if ends_with s ''.'' then butlast s else s)) \<and> valid_hostname h \<and> \<not> local_name (labels h)"
proof -
  define g where "g = to_lower (ta (if ends_with s ''.'' then butlast s else s))"
  have full: "full label_rx = valid_label" by (rule ext) (rule label_rx_iff)
  have "length g = 0 \<or> 253 < length g \<or> includes_sub g ''..'' \<or> \<not> list_all valid_label (labels g)
      \<longleftrightarrow> \<not> valid_hostname g"
    using no_empty_label[of g] by (auto simp: valid_hostname_def labels_def valid_label_def)
  then show ?thesis
    unfolding normalizeHostname_def Let_def local_hostname full labels_def[symmetric] g_def[symmetric]
    by auto
qed

lemma split_on_at: "split_on c (p @ c # q) = split_on c p @ split_on c q"
proof (induction p)
  case (Cons x p)
  obtain r rs where "split_on c p = r # rs" by (cases "split_on c p") auto
  with Cons show ?case by auto
qed simp

lemma join_with_append:
  "ps \<noteq> [] \<Longrightarrow> qs \<noteq> [] \<Longrightarrow> join_with c (ps @ qs) = join_with c ps @ c # join_with c qs"
proof (induction c ps rule: join_with.induct)
  case (2 c p)
  then show ?case by (cases qs) auto
qed auto

lemma hostMatches_subdomain:
  "hp_includeSubdomains pat \<Longrightarrow>
     hostMatches h pat \<longleftrightarrow> (\<exists>ls. ls \<noteq> [] \<and> labels h = ls @ labels (hp_hostname pat))"
proof -
  assume sub: "hp_includeSubdomains pat"
  have "hostMatches h pat \<longleftrightarrow> ends_with h (CHR ''.'' # hp_hostname pat)"
    using sub by (auto simp: hostMatches_def ends_with_iff)
  also have "\<dots> \<longleftrightarrow> (\<exists>ls. ls \<noteq> [] \<and> labels h = ls @ labels (hp_hostname pat))"
  proof
    assume "ends_with h (CHR ''.'' # hp_hostname pat)"
    then obtain p where "h = p @ CHR ''.'' # hp_hostname pat" by (auto simp: ends_with_iff)
    then have "labels h = split_on CHR ''.'' p @ labels (hp_hostname pat)"
      by (simp add: labels_def split_on_at)
    then show "\<exists>ls. ls \<noteq> [] \<and> labels h = ls @ labels (hp_hostname pat)"
      by (intro exI[of _ "split_on CHR ''.'' p"]) simp
  next
    assume "\<exists>ls. ls \<noteq> [] \<and> labels h = ls @ labels (hp_hostname pat)"
    then obtain ls where ls: "ls \<noteq> []" "labels h = ls @ labels (hp_hostname pat)" by blast
    have "labels (hp_hostname pat) \<noteq> []" by (simp add: labels_def)
    with ls have "join_with CHR ''.'' (labels h) = join_with CHR ''.'' ls @ CHR ''.'' # hp_hostname pat"
      by (simp add: join_with_append join_labels)
    then show "ends_with h (CHR ''.'' # hp_hostname pat)"
      unfolding join_labels by (auto simp: ends_with_iff)
  qed
  finally show ?thesis .
qed

lemma validatePort_Inr [res_simps]: "validatePort p = Inr u \<longleftrightarrow> 1 \<le> p \<and> p \<le> 65535"
  by (simp add: validatePort_def)

lemma withTimeout_Inr [res_simps]:
  "withTimeout r ms = Inr as \<longleftrightarrow> (\<exists>t. r = Resolves t as \<and> t < timer_delay ms)"
  by (cases r) (simp_all add: withTimeout_def)

definition allowed_ports :: "egress_policy \<Rightarrow> egress_protocol \<Rightarrow> int set" where
  "allowed_ports pol protocol = (case protocol of CONNECT \<Rightarrow> ep_connectPorts pol | HTTP \<Rightarrow> ep_httpPorts pol)"

definition public_answer :: "resolved_address \<Rightarrow> bool" where
  "public_answer x \<longleftrightarrow> ra_family x = isIP (ra_address x) \<and> isPublicAddress (ra_address x)"

lemma answer_ok_public: "answer_ok = public_answer"
  by (rule ext) (auto simp: answer_ok_def public_answer_def)

definition permits :: "egress_policy \<Rightarrow> string \<Rightarrow> int \<Rightarrow> egress_protocol \<Rightarrow> bool" where
  "permits pol h port protocol \<longleftrightarrow>
     isIP h = 0 \<and> (\<exists>pat \<in> set (ep_hostPatterns pol). hostMatches h pat)
     \<and> 1 \<le> port \<and> port \<le> 65535 \<and> port \<in> allowed_ports pol protocol"

lemma approve_Inr:
  "approve ta dns pol host port protocol = Inr d \<longleftrightarrow>
     (\<exists>h t a as. normalizeHostname ta host = Inr h \<and> permits pol h port protocol
        \<and> dns h = Resolves t (a # as) \<and> t < timer_delay (ep_dnsTimeoutMs pol)
        \<and> (\<forall>x \<in> set (a # as). public_answer x)
        \<and> d = \<lparr>ra_address = ra_address a, ra_family = ra_family a,
               ad_hostname = h, ad_port = port, ad_protocol = protocol\<rparr>)"
proof (cases "normalizeHostname ta host")
  case (Inr h)
  define reply where "reply = withTimeout (dns h) (ep_dnsTimeoutMs pol)"
  have ports: "(if protocol = CONNECT then ep_connectPorts pol else ep_httpPorts pol) = allowed_ports pol protocol"
    by (cases protocol) (simp_all add: allowed_ports_def)
  have "approve ta dns pol host port protocol = Inr d \<longleftrightarrow> permits pol h port protocol \<and>
     (\<exists>a as. reply = Inr (a # as) \<and> list_all public_answer (a # as)
        \<and> d = \<lparr>ra_address = ra_address a, ra_family = ra_family a,
               ad_hostname = h, ad_port = port, ad_protocol = protocol\<rparr>)"
    unfolding approve_def Inr rbind_simps Let_def ports reply_def[symmetric] answer_ok_public
    by (auto simp: permits_def list_ex_iff validatePort_def split: sum.splits list.splits if_splits)
  then show ?thesis
    unfolding reply_def withTimeout_Inr Inr by (auto simp: list_all_iff)
qed (simp add: approve_def)

lemma approve_permitted:
  "normalizeHostname ta host = Inr h \<Longrightarrow> permits pol h port protocol \<Longrightarrow>
     approve ta dns pol host port protocol =
       (case withTimeout (dns h) (ep_dnsTimeoutMs pol) of
          Inl _ \<Rightarrow> Inl DnsFailed
        | Inr [] \<Rightarrow> Inl DnsEmpty
        | Inr (a # as) \<Rightarrow>
            if list_all public_answer (a # as)
            then Inr \<lparr>ra_address = ra_address a, ra_family = ra_family a,
                      ad_hostname = h, ad_port = port, ad_protocol = protocol\<rparr>
            else Inl AddressForbidden)"
  by (cases protocol)
    (auto simp: approve_def answer_ok_public permits_def allowed_ports_def list_ex_iff validatePort_def
      split: sum.split list.split)

text \<open>Every refusal that does not depend on the answers, in the order the code makes it.\<close>

lemma approve_refused:
  "normalizeHostname ta host = Inr h \<Longrightarrow> \<not> permits pol h port protocol \<Longrightarrow>
     approve ta dns pol host port protocol =
       Inl (if isIP h \<noteq> 0 then IpLiteralForbidden
            else if \<not> (\<exists>pat \<in> set (ep_hostPatterns pol). hostMatches h pat) then HostnameForbidden
            else if port < 1 \<or> 65535 < port then InvalidAuthority else PortForbidden)"
  by (cases protocol) (auto simp: approve_def permits_def allowed_ports_def list_ex_iff validatePort_def)

lemma approve_malformed:
  "normalizeHostname ta host = Inl e \<Longrightarrow> approve ta dns pol host port protocol = Inl e"
  by (simp add: approve_def)

lemma normalizeHostname_Inl: "normalizeHostname ta s = Inl e \<Longrightarrow> e = InvalidAuthority \<or> e = HostnameForbidden"
  by (auto simp: normalizeHostname_def Let_def split: if_splits)

text \<open>A policy built by the constructor matches only what its options list.\<close>

definition listed_host :: "(string \<Rightarrow> string) \<Rightarrow> string list \<Rightarrow> string \<Rightarrow> bool" where
  "listed_host ta hosts h \<longleftrightarrow>
     (\<exists>s \<in> set hosts. if starts_with s ''*.''
        then \<exists>p ls. normalizeHostname ta (drop 2 s) = Inr p \<and> ls \<noteq> [] \<and> labels h = ls @ labels p
        else normalizeHostname ta s = Inr h)"

lemma parseHostPattern_Inr:
  "parseHostPattern ta s = Inr pat \<longleftrightarrow>
     hp_includeSubdomains pat = starts_with s ''*.'' \<and>
     normalizeHostname ta (if starts_with s ''*.'' then drop 2 s else s) = Inr (hp_hostname pat)"
  unfolding parseHostPattern_def Let_def rbind_Inr_iff
  by (cases pat) auto

lemma listed_host_if_match:
  "parseHostPattern ta s = Inr pat \<Longrightarrow> s \<in> set hosts \<Longrightarrow> hostMatches h pat \<Longrightarrow> listed_host ta hosts h"
  unfolding listed_host_def parseHostPattern_Inr
  by (intro bexI[of _ s], cases "starts_with s ''*.''")
    (auto simp: hostMatches_subdomain, auto simp: hostMatches_def)

lemma lift_code_Inr [res_simps]: "lift_code m = Inr x \<longleftrightarrow> m = Inr x"
  by (cases m) (simp_all add: lift_code_def)

lemma new_EgressPolicy_Inr:
  assumes "new_EgressPolicy ta opts = Inr pol"
  shows "rmap (parseHostPattern ta) (option_or (eo_allowedHosts opts) []) = Inr (ep_hostPatterns pol)"
    and "ep_httpPorts pol = set (option_or (eo_allowedHttpPorts opts) [80])"
    and "ep_connectPorts pol = set (option_or (eo_allowedConnectPorts opts) [443])"
    and "ep_dnsTimeoutMs pol = option_or (eo_dnsTimeoutMs opts) 5000"
    and "\<forall>p \<in> ep_httpPorts pol \<union> ep_connectPorts pol. 1 \<le> p \<and> p \<le> 65535"
    and "1 \<le> ep_dnsTimeoutMs pol"
proof -
  obtain pats us where *: "rmap (parseHostPattern ta) (option_or (eo_allowedHosts opts) []) = Inr pats"
      "rmap validatePort (option_or (eo_allowedHttpPorts opts) [80] @ option_or (eo_allowedConnectPorts opts) [443]) = Inr us"
      "\<not> (\<not> is_safe_integer (option_or (eo_dnsTimeoutMs opts) 5000) \<or> option_or (eo_dnsTimeoutMs opts) 5000 < 1)"
    and pol: "pol = \<lparr>ep_hostPatterns = pats, ep_httpPorts = set (option_or (eo_allowedHttpPorts opts) [80]),
      ep_connectPorts = set (option_or (eo_allowedConnectPorts opts) [443]),
      ep_dnsTimeoutMs = option_or (eo_dnsTimeoutMs opts) 5000\<rparr>"
    using assms unfolding new_EgressPolicy_def Let_def validatePositiveInteger_def
    by (auto simp: res_simps split: if_splits)
  from *(1) pol show "rmap (parseHostPattern ta) (option_or (eo_allowedHosts opts) []) = Inr (ep_hostPatterns pol)" by simp
  from pol show "ep_httpPorts pol = set (option_or (eo_allowedHttpPorts opts) [80])"
    "ep_connectPorts pol = set (option_or (eo_allowedConnectPorts opts) [443])"
    "ep_dnsTimeoutMs pol = option_or (eo_dnsTimeoutMs opts) 5000" by simp_all
  from *(3) pol show "1 \<le> ep_dnsTimeoutMs pol" by simp
  have "rmap f xs = Inr ys \<Longrightarrow> x \<in> set xs \<Longrightarrow> \<exists>y. f x = Inr y" for f :: "int \<Rightarrow> (egress_code, unit) res" and xs ys x
    by (induction xs arbitrary: ys) (auto simp: res_simps)
  from this[OF *(2)] show "\<forall>p \<in> ep_httpPorts pol \<union> ep_connectPorts pol. 1 \<le> p \<and> p \<le> 65535"
    unfolding pol by (simp add: validatePort_Inr ball_Un)
qed

lemma port_rx_iff: "full port_rx p \<longleftrightarrow> p \<noteq> [] \<and> length p \<le> 5 \<and> (\<forall>c \<in> set p. is_digit c)"
  unfolding full_iff port_rx_def in_lang_Rep_Cls by (auto simp: Suc_le_eq)

lemma parseProxyAuthority_Inr:
  assumes "parseProxyAuthority ta authority dflt = Inr (h, port)"
  shows "\<exists>raw. normalizeHostname ta raw = Inr h \<and> isIP h = 0 \<and> 1 \<le> port \<and> port \<le> 65535 \<and> CHR ''@'' \<notin> set authority
    \<and> ((authority = raw \<and> CHR '':'' \<notin> set authority \<and> dflt = Some port)
     \<or> (\<exists>p. authority = raw @ CHR '':'' # p \<and> full port_rx p \<and> port = int (dec_to_nat p)))"
proof (cases "last_index_of CHR '':'' authority")
  case None
  then have no: "CHR '':'' \<notin> set authority" by simp
  show ?thesis
    using assms unfolding parseProxyAuthority_def Let_def None
    by (intro exI[of _ authority])
      (auto simp: no includes_sub_single rbind_Inr_iff validatePort_Inr split: if_splits option.splits)
next
  case (Some i)
  then have i: "i < length authority" "authority ! i = CHR '':''" by (simp_all add: last_index_of_Some_iff)
  then have eq: "authority = take i authority @ CHR '':'' # drop (i + 1) authority"
    by (metis Suc_eq_plus1 id_take_nth_drop)
  show ?thesis
    using assms unfolding parseProxyAuthority_def Let_def Some option.case option.map
    by (intro exI[of _ "take i authority"])
      (use eq in \<open>auto simp: includes_sub_single rbind_Inr_iff validatePort_Inr split: if_splits\<close>)
qed

lemma valid_hostname_chars:
  assumes "valid_hostname h" "c \<in> set h"
  shows "is_label_char c \<or> c = CHR ''.''"
proof -
  have "c \<in> set (join_with CHR ''.'' ps) \<Longrightarrow> c = CHR ''.'' \<or> (\<exists>p \<in> set ps. c \<in> set p)" for ps
    by (induction "CHR ''.''" ps rule: join_with.induct) auto
  from this[of "labels h"] assms show ?thesis
    by (auto simp: join_labels valid_hostname_def list_all_iff valid_label_def)
qed

lemma label_char_plain:
  "is_label_char c \<or> c = CHR ''.'' \<Longrightarrow> \<not> is_authority_junk c \<and> c \<noteq> CHR ''@'' \<and> c \<noteq> CHR ''['' \<and> c \<noteq> CHR '':''
     \<and> \<not> is_upper c \<and> code c < 192"
  by (auto simp: is_label_char_def is_ldigit_def char_class_defs is_authority_junk_def)

lemma dec_digit_plain: "c \<in> set (nat_to_dec n) \<Longrightarrow> \<not> is_authority_junk c \<and> c \<noteq> CHR ''@'' \<and> c \<noteq> CHR '':''"
  by (drule nat_to_dec_digits) (auto simp: char_class_defs is_authority_junk_def)

lemma valid_hostname_fixed:
  assumes "valid_hostname h" "\<not> local_name (labels h)" "ta h = h"
  shows "normalizeHostname ta h = Inr h"
proof -
  have "to_lower h = h"
    by (rule to_lower_id) (use valid_hostname_chars[OF assms(1)] label_char_plain in blast)
  moreover have "\<not> ends_with h ''.''"
  proof
    assume "ends_with h ''.''"
    then have "ends_with h (CHR ''.'' # [])" by simp
    then have "last (labels h) = []" by (subst (asm) ends_with_label) simp_all
    moreover have "last (labels h) \<in> set (labels h)" by (simp add: labels_def)
    ultimately have "[] \<in> set (labels h)" by simp
    with assms(1) show False by (auto simp: valid_hostname_def list_all_iff valid_label_def)
  qed
  ultimately show ?thesis using assms by (simp add: normalizeHostname_Inr)
qed

lemma parse_authority_print:
  assumes "valid_hostname h" "\<not> local_name (labels h)" "ta h = h" "isIP h = 0" "1 \<le> port" "port \<le> 65535"
  shows "parseProxyAuthority ta (h @ '':'' @ nat_to_dec port) dflt = Inr (h, int port)"
proof -
  have ne: "h \<noteq> []" using assms(1) by (auto simp: valid_hostname_def labels_def valid_label_def)
  have plain: "\<not> is_authority_junk c \<and> c \<noteq> CHR ''@'' \<and> c \<noteq> CHR ''[''  \<and> c \<noteq> CHR '':''" if "c \<in> set h" for c
    using label_char_plain valid_hostname_chars[OF assms(1) that] by blast
  have len: "length (nat_to_dec port) \<le> 5" by (rule length_nat_to_base_le) (use assms(6) in simp_all)
  have port: "full port_rx (nat_to_dec port)"
    using len by (auto simp: port_rx_iff dest: nat_to_dec_digits)
  have colon: "CHR '':'' \<notin> set (nat_to_dec port)" "CHR '':'' \<notin> set h"
    using plain dec_digit_plain by blast+
  have last: "last_index_of CHR '':'' (h @ '':'' @ nat_to_dec port) = Some (length h)"
    using colon by simp
  have count: "count_list (h @ '':'' @ nat_to_dec port) CHR '':'' = 1"
    using colon by (simp add: count_list_append count_notin)
  have nojunk: "\<not> list_ex is_authority_junk (h @ '':'' @ nat_to_dec port)"
  proof -
    have "\<not> is_authority_junk CHR '':''" by (simp add: is_authority_junk_def code_def)
    then show ?thesis using plain dec_digit_plain by (auto simp: list_ex_iff)
  qed
  have noat: "\<not> includes_sub (h @ '':'' @ nat_to_dec port) ''@''"
    unfolding includes_sub_single using plain dec_digit_plain by auto
  have nobr: "\<not> starts_with (h @ '':'' @ nat_to_dec port) ''[''"
    using ne plain by (cases h) (auto simp: starts_with_iff)
  have size: "length (h @ '':'' @ nat_to_dec port) \<le> 512"
    using len assms(1) by (simp add: valid_hostname_def)
  show ?thesis
    unfolding parseProxyAuthority_def Let_def last count
    using size nojunk noat nobr port assms(4-6) valid_hostname_fixed[of h ta] assms(1-3)
    by (simp add: validatePort_def)
qed

section \<open>Properties of the policy\<close>

text \<open>\<open>normalizeHostname\<close> returns exactly the lower-case ASCII form of its input without one
  final dot, when that form has at most 253 characters, every label is a valid DNS label
  and its last labels do not name a local zone; it refuses everything else.\<close>

theorem normalizeHostname_exact:
  "normalizeHostname ta s = Inr h \<longleftrightarrow>
     h = to_lower (ta (if ends_with s ''.'' then butlast s else s)) \<and> valid_hostname h \<and> \<not> local_name (labels h)"
  by (rule normalizeHostname_Inr)

text \<open>\<open>approve\<close> returns a destination exactly when the normalised name is not an IP literal and
  matches a pattern, the port is a TCP port in the set of the protocol, the lookup resolved
  before the timer with a non-empty list all of whose addresses are public and of the stated
  family; the destination carries the first address, the normalised name, the port and the protocol.\<close>

theorem approve_exact:
  "approve ta dns pol host port protocol = Inr d \<longleftrightarrow>
     (\<exists>h t a as. normalizeHostname ta host = Inr h \<and> permits pol h port protocol
        \<and> dns h = Resolves t (a # as) \<and> t < timer_delay (ep_dnsTimeoutMs pol)
        \<and> (\<forall>x \<in> set (a # as). public_answer x)
        \<and> d = \<lparr>ra_address = ra_address a, ra_family = ra_family a,
               ad_hostname = h, ad_port = port, ad_protocol = protocol\<rparr>)"
  by (rule approve_Inr)

text \<open>A destination to try the properties on: one allowed package host and one public answer.\<close>

definition sample_options :: egress_options where
  "sample_options = \<lparr>eo_allowedHosts = Some [''nodejs.org'', ''*.npmjs.org''], eo_allowedHttpPorts = None,
     eo_allowedConnectPorts = None, eo_dnsTimeoutMs = None\<rparr>"

definition sample_policy :: egress_policy where
  "sample_policy = \<lparr>ep_hostPatterns = [\<lparr>hp_hostname = ''nodejs.org'', hp_includeSubdomains = False\<rparr>,
       \<lparr>hp_hostname = ''npmjs.org'', hp_includeSubdomains = True\<rparr>],
     ep_httpPorts = {80}, ep_connectPorts = {443}, ep_dnsTimeoutMs = 5000\<rparr>"

definition sample_dns :: "string \<Rightarrow> dns_reply" where
  "sample_dns h = Resolves 20 [\<lparr>ra_address = ''104.16.1.34'', ra_family = 4\<rparr>]"

definition sample_destination :: approved_destination where
  "sample_destination = \<lparr>ra_address = ''104.16.1.34'', ra_family = 4,
     ad_hostname = ''registry.npmjs.org'', ad_port = 443, ad_protocol = CONNECT\<rparr>"

lemma sample_policy_new: "new_EgressPolicy id sample_options = Inr sample_policy"
  by code_simp

lemma sample_approved: "approve id sample_dns sample_policy ''Registry.npmjs.org.'' 443 CONNECT = Inr sample_destination"
  by code_simp

theorem approve_exact_witness: "\<exists>h. normalizeHostname id ''Registry.npmjs.org.'' = Inr h \<and> permits sample_policy h 443 CONNECT"
  using approve_exact[THEN iffD1, OF sample_approved] by blast

text \<open>C7. A policy built by the constructor is fail-closed: whatever it approves is a host its
  options list literally or a proper subdomain of a listed wildcard, on a configured port
  (80 or 443 when the options name none), at an address that the classifiers call public.\<close>

theorem configured_policy_sound:
  assumes "new_EgressPolicy ta opts = Inr pol"
    and "approve ta dns pol host port protocol = Inr d"
  shows "listed_host ta (option_or (eo_allowedHosts opts) []) (ad_hostname d)
    \<and> ad_port d \<in> set (case protocol of CONNECT \<Rightarrow> option_or (eo_allowedConnectPorts opts) [443]
        | HTTP \<Rightarrow> option_or (eo_allowedHttpPorts opts) [80])
    \<and> 1 \<le> ad_port d \<and> ad_port d \<le> 65535
    \<and> isPublicAddress (ra_address d) \<and> ra_family d = isIP (ra_address d)"
proof -
  from assms(2) obtain h a as t where h: "permits pol h port protocol" "\<forall>x \<in> set (a # as). public_answer x"
    and d: "d = \<lparr>ra_address = ra_address a, ra_family = ra_family a, ad_hostname = h, ad_port = port, ad_protocol = protocol\<rparr>"
    unfolding approve_Inr by blast
  note pol = new_EgressPolicy_Inr[OF assms(1)]
  from h(1) obtain pat where pat: "pat \<in> set (ep_hostPatterns pol)" "hostMatches h pat"
    by (auto simp: permits_def)
  from rmap_Inr_set[OF pol(1) pat(1)] obtain s
    where "s \<in> set (option_or (eo_allowedHosts opts) [])" "parseHostPattern ta s = Inr pat" by blast
  from listed_host_if_match[OF this(2,1) pat(2)] show ?thesis
    using h pol(2,3) by (auto simp: d permits_def allowed_ports_def public_answer_def split: egress_protocol.splits)
qed

theorem configured_policy_sound_witness:
  "listed_host id [''nodejs.org'', ''*.npmjs.org''] ''registry.npmjs.org'' \<and> isPublicAddress ''104.16.1.34''"
  using configured_policy_sound[OF sample_policy_new sample_approved]
  by (simp add: sample_options_def sample_destination_def option_or_def)

text \<open>A refusal for any reason other than the answers of the lookup is made before the lookup:
  it is the same whatever the resolver would have replied.\<close>

theorem approve_refuses_before_lookup:
  assumes "approve ta dns pol host port protocol = Inl e" "e \<notin> {DnsFailed, DnsEmpty, AddressForbidden}"
  shows "approve ta dns' pol host port protocol = Inl e"
proof (cases "normalizeHostname ta host")
  case (Inl e')
  then show ?thesis using assms by (simp add: approve_malformed)
next
  case (Inr h)
  have "\<not> permits pol h port protocol"
  proof
    assume "permits pol h port protocol"
    from assms(1) show False
      unfolding approve_permitted[OF Inr \<open>permits pol h port protocol\<close>]
      using assms(2) by (auto split: sum.splits list.splits if_splits)
  qed
  from approve_refused[OF Inr this, of dns] approve_refused[OF Inr this, of dns'] assms(1)
  show ?thesis by metis
qed

theorem approve_refuses_before_lookup_witness:
  "approve id (\<lambda>h. Never) sample_policy ''npmjs.org'' 443 CONNECT = Inl HostnameForbidden"
proof (rule approve_refuses_before_lookup)
  show "approve id sample_dns sample_policy ''npmjs.org'' 443 CONNECT = Inl HostnameForbidden" by code_simp
qed simp

text \<open>Whatever \<open>parseProxyAuthority\<close> accepts is a normalised name that is not an IP literal, with
  a TCP port and without credentials; the text is that name before normalisation, alone when
  the caller gave the default port, or followed by a colon and one to five digits that read as the port.\<close>

theorem parseProxyAuthority_sound:
  assumes "parseProxyAuthority ta authority dflt = Inr (h, port)"
  shows "\<exists>raw. normalizeHostname ta raw = Inr h \<and> isIP h = 0 \<and> 1 \<le> port \<and> port \<le> 65535 \<and> CHR ''@'' \<notin> set authority
    \<and> ((authority = raw \<and> CHR '':'' \<notin> set authority \<and> dflt = Some port)
     \<or> (\<exists>p. authority = raw @ CHR '':'' # p \<and> full port_rx p \<and> port = int (dec_to_nat p)))"
  using assms by (rule parseProxyAuthority_Inr)

lemma sample_authority: "parseProxyAuthority id ''Nodejs.org:443'' None = Inr (''nodejs.org'', 443)"
  by code_simp

theorem parseProxyAuthority_sound_witness:
  "\<exists>raw. normalizeHostname id raw = Inr ''nodejs.org'' \<and> isIP ''nodejs.org'' = 0"
  using parseProxyAuthority_sound[OF sample_authority] by blast

text \<open>Every normalised destination that \<open>domainToASCII\<close> leaves alone survives a round trip through its
  \<open>host:port\<close> text, for every TCP port and whatever the default port.\<close>

theorem parseProxyAuthority_roundtrip:
  assumes "valid_hostname h" "\<not> local_name (labels h)" "ta h = h" "isIP h = 0" "1 \<le> port" "port \<le> 65535"
  shows "parseProxyAuthority ta (h @ '':'' @ nat_to_dec port) dflt = Inr (h, int port)"
  using assms by (rule parse_authority_print)

theorem parseProxyAuthority_roundtrip_witness:
  "parseProxyAuthority id (''pypi.org'' @ '':'' @ nat_to_dec 8443) (Some 80) = Inr (''pypi.org'', int 8443)"
proof (rule parseProxyAuthority_roundtrip)
  show "valid_hostname ''pypi.org''" "\<not> local_name (labels ''pypi.org'')" "isIP ''pypi.org'' = 0"
    by code_simp+
qed simp_all

end
