(* ===== verification/EgressTls.thy ===== *)
theory EgressTls
  imports EgressPolicy "HOL-Library.Word"
begin

text \<open>
  \<open>src/agent/egress-tls.ts\<close>: the inspection of the first bytes of a CONNECT tunnel. A tunnel is
  opened only for a TLS ClientHello that names the approved host in clear text.

  A \<open>Buffer\<close> is a list of bytes; \<open>subarray\<close> is \<^const>\<open>take\<close> and \<^const>\<open>drop\<close>. The reads of
  \<open>readUInt16BE\<close> and \<open>readUIntBE\<close> outside the buffer raise a \<open>RangeError\<close>, which is the error
  \<open>OutOfRange\<close> here; \<open>inspectTlsClientHello_no_range_error\<close> shows that it never happens. The loop
  over records and the loop over extensions are recursive functions; every turn moves the
  offset forward, and no fuel is needed.
\<close>

type_synonym byte = "8 word"

section \<open>Types and constants\<close>

datatype tls_code =
    NotTls | MalformedClientHello | ClientHelloTooLarge | MissingSni | SniMismatch
  | EncryptedClientHelloForbidden

datatype tls_failure =
    TlsError tls_code
  | HostnameError egress_code
  | BadMaxBytes
  | OutOfRange

datatype inspection = Incomplete | Complete nat

definition TLS_HANDSHAKE_RECORD :: byte where "TLS_HANDSHAKE_RECORD = 22"
definition CLIENT_HELLO :: byte where "CLIENT_HELLO = 1"
definition SERVER_NAME_EXTENSION :: nat where "SERVER_NAME_EXTENSION = 0"
definition ENCRYPTED_CLIENT_HELLO_EXTENSION :: nat where "ENCRYPTED_CLIENT_HELLO_EXTENSION = 65037"
definition MAX_TLS_RECORD_PAYLOAD :: nat where "MAX_TLS_RECORD_PAYLOAD = 16 * 1024 + 256"


section \<open>Reading buffers\<close>

definition be_val :: "byte list \<Rightarrow> nat" where
  "be_val bs = foldl (\<lambda>v b. 256 * v + unat b) 0 bs"

definition readUIntBE :: "byte list \<Rightarrow> nat \<Rightarrow> nat \<Rightarrow> (tls_failure, nat) res" where
  "readUIntBE buf offset n =
     (if length buf < offset + n then Inl OutOfRange else Inr (be_val (take n (drop offset buf))))"

definition readUInt16BE :: "byte list \<Rightarrow> nat \<Rightarrow> (tls_failure, nat) res" where
  "readUInt16BE buf offset = readUIntBE buf offset 2"

definition subarray :: "byte list \<Rightarrow> nat \<Rightarrow> nat \<Rightarrow> byte list" where
  "subarray buf a b = take (b - a) (drop a buf)"

definition requireBytes :: "byte list \<Rightarrow> nat \<Rightarrow> nat \<Rightarrow> (tls_failure, unit) res" where
  "requireBytes buf offset len =
     (if length buf < offset + len then Inl (TlsError MalformedClientHello) else Inr ())"

definition tls_require :: "bool \<Rightarrow> tls_code \<Rightarrow> (tls_failure, unit) res" where
  "tls_require b c = (if b then Inr () else Inl (TlsError c))"

definition ascii :: "byte list \<Rightarrow> string" where
  "ascii bs = map (\<lambda>b. char_of (unat b)) bs"


section \<open>The ClientHello\<close>

definition parseSingleServerName :: "(string \<Rightarrow> string) \<Rightarrow> byte list \<Rightarrow> (tls_failure, string) res" where
  "parseSingleServerName ta ext =
     rbind (tls_require (5 \<le> length ext) MalformedClientHello) (\<lambda>_.
     rbind (readUInt16BE ext 0) (\<lambda>listLength.
     rbind (tls_require (int listLength = int (length ext) - 2) MalformedClientHello) (\<lambda>_.
     rbind (tls_require (ext ! 2 = 0) MalformedClientHello) (\<lambda>_.
     rbind (readUInt16BE ext 3) (\<lambda>nameLength.
     rbind (tls_require (\<not> (nameLength < 1 \<or> int nameLength \<noteq> int (length ext) - 5 \<or> 253 < nameLength)) MalformedClientHello) (\<lambda>_.
     let nameBytes = drop 5 ext in
     rbind (tls_require (\<not> list_ex (\<lambda>b. b < 33 \<or> 126 < b) nameBytes) MalformedClientHello) (\<lambda>_.
     let name = ascii nameBytes in
     rbind (tls_require (\<not> ends_with name ''.'') MalformedClientHello) (\<lambda>_.
     (case normalizeHostname ta name of Inl _ \<Rightarrow> Inl (TlsError MalformedClientHello) | Inr h \<Rightarrow> Inr h)))))))))"

text \<open>The extension loop: \<open>offset\<close> and the name seen so far.\<close>

function extensions_loop ::
  "(string \<Rightarrow> string) \<Rightarrow> byte list \<Rightarrow> nat \<Rightarrow> nat \<Rightarrow> string option \<Rightarrow> (tls_failure, string option) res" where
  "extensions_loop ta hello extensionsEnd offset sni =
     (if \<not> offset < extensionsEnd then Inr sni
      else
        rbind (requireBytes hello offset 4) (\<lambda>_.
        rbind (readUInt16BE hello offset) (\<lambda>extensionType.
        rbind (readUInt16BE hello (offset + 2)) (\<lambda>extensionLength.
        rbind (requireBytes hello (offset + 4) extensionLength) (\<lambda>_.
        let extension = subarray hello (offset + 4) (offset + 4 + extensionLength);
            next_offset = offset + 4 + extensionLength
        in if extensionType = ENCRYPTED_CLIENT_HELLO_EXTENSION then Inl (TlsError EncryptedClientHelloForbidden)
           else if extensionType = SERVER_NAME_EXTENSION
             then (if sni \<noteq> None then Inl (TlsError MalformedClientHello)
                   else rbind (parseSingleServerName ta extension)
                          (\<lambda>name. extensions_loop ta hello extensionsEnd next_offset (Some name)))
             else extensions_loop ta hello extensionsEnd next_offset sni)))))"
  by pat_completeness auto

termination
  by (relation "measure (\<lambda>(ta, hello, extensionsEnd, offset, sni). extensionsEnd - offset)") auto

declare extensions_loop.simps [simp del]

definition validateClientHello :: "(string \<Rightarrow> string) \<Rightarrow> byte list \<Rightarrow> string \<Rightarrow> (tls_failure, unit) res" where
  "validateClientHello ta hello expectedHostname =
     rbind (requireBytes hello 0 34) (\<lambda>_.
     rbind (readUInt16BE hello 0) (\<lambda>legacyVersion.
     rbind (tls_require (\<not> (legacyVersion < 769 \<or> 771 < legacyVersion)) MalformedClientHello) (\<lambda>_.
     rbind (requireBytes hello 34 1) (\<lambda>_.
     let sessionIdLength = unat (hello ! 34) in
     rbind (tls_require (\<not> 32 < sessionIdLength) MalformedClientHello) (\<lambda>_.
     rbind (requireBytes hello 35 sessionIdLength) (\<lambda>_.
     let offset = 35 + sessionIdLength in
     rbind (requireBytes hello offset 2) (\<lambda>_.
     rbind (readUInt16BE hello offset) (\<lambda>cipherSuitesLength.
     let offset = offset + 2 in
     rbind (tls_require (\<not> (cipherSuitesLength < 2 \<or> cipherSuitesLength mod 2 \<noteq> 0)) MalformedClientHello) (\<lambda>_.
     rbind (requireBytes hello offset cipherSuitesLength) (\<lambda>_.
     let offset = offset + cipherSuitesLength in
     rbind (requireBytes hello offset 1) (\<lambda>_.
     let compressionLength = unat (hello ! offset);
         offset = offset + 1 in
     rbind (tls_require (\<not> compressionLength < 1) MalformedClientHello) (\<lambda>_.
     rbind (requireBytes hello offset compressionLength) (\<lambda>_.
     let offset = offset + compressionLength in
     rbind (requireBytes hello offset 2) (\<lambda>_.
     rbind (readUInt16BE hello offset) (\<lambda>extensionsLength.
     let offset = offset + 2 in
     rbind (tls_require (int extensionsLength = int (length hello) - int offset) MalformedClientHello) (\<lambda>_.
     rbind (extensions_loop ta hello (offset + extensionsLength) offset None) (\<lambda>sni.
     case sni of
       None \<Rightarrow> Inl (TlsError MissingSni)
     | Some name \<Rightarrow> tls_require (name = expectedHostname) SniMismatch)))))))))))))))))"


section \<open>The record loop\<close>

text \<open>\<open>handshake\<close> is the concatenation of \<open>handshakeParts\<close>.\<close>

function inspect_loop ::
  "(string \<Rightarrow> string) \<Rightarrow> byte list \<Rightarrow> string \<Rightarrow> nat \<Rightarrow> nat \<Rightarrow> byte list \<Rightarrow> (tls_failure, inspection) res" where
  "inspect_loop ta input expected maxBytes recordOffset handshake =
     (if int (length input) - int recordOffset < 5 then Inr Incomplete
      else if input ! recordOffset \<noteq> TLS_HANDSHAKE_RECORD then Inl (TlsError NotTls)
      else
        rbind (readUInt16BE input (recordOffset + 1)) (\<lambda>recordVersion.
        if recordVersion < 769 \<or> 772 < recordVersion then Inl (TlsError NotTls)
        else
        rbind (readUInt16BE input (recordOffset + 3)) (\<lambda>recordLength.
        if recordLength = 0 \<or> MAX_TLS_RECORD_PAYLOAD < recordLength then Inl (TlsError MalformedClientHello)
        else let recordEnd = recordOffset + 5 + recordLength
        in if maxBytes < recordEnd then Inl (TlsError ClientHelloTooLarge)
        else if length input < recordEnd then Inr Incomplete
        else let handshake' = handshake @ subarray input (recordOffset + 5) recordEnd
        in if length handshake' < 4 then inspect_loop ta input expected maxBytes recordEnd handshake'
        else if handshake' ! 0 \<noteq> CLIENT_HELLO then Inl (TlsError NotTls)
        else
        rbind (readUIntBE handshake' 1 3) (\<lambda>helloLength.
        let framedLength = helloLength + 4
        in if maxBytes < framedLength then Inl (TlsError ClientHelloTooLarge)
        else if length handshake' < framedLength then inspect_loop ta input expected maxBytes recordEnd handshake'
        else if length handshake' \<noteq> framedLength then Inl (TlsError MalformedClientHello)
        else rbind (validateClientHello ta (drop 4 handshake') expected) (\<lambda>_. Inr (Complete recordEnd))))))"
  by pat_completeness auto

termination
  by (relation "measure (\<lambda>(ta, input, expected, maxBytes, recordOffset, handshake). length input - recordOffset)") auto

declare inspect_loop.simps [simp del]

definition inspectTlsClientHello ::
  "(string \<Rightarrow> string) \<Rightarrow> byte list \<Rightarrow> string \<Rightarrow> int \<Rightarrow> (tls_failure, inspection) res" where
  "inspectTlsClientHello ta input expectedHostname maxBytes =
     (if \<not> is_safe_integer maxBytes \<or> maxBytes < 256 then Inl BadMaxBytes
      else if maxBytes < int (length input) then Inl (TlsError ClientHelloTooLarge)
      else (case normalizeHostname ta expectedHostname of
              Inl e \<Rightarrow> Inl (HostnameError e)
            | Inr expected \<Rightarrow> inspect_loop ta input expected (nat maxBytes) 0 []))"

section \<open>Encodings\<close>

definition be16 :: "nat \<Rightarrow> byte list" where
  "be16 n = [of_nat (n div 256), of_nat (n mod 256)]"

definition be24 :: "nat \<Rightarrow> byte list" where
  "be24 n = [of_nat (n div 65536), of_nat (n div 256 mod 256), of_nat (n mod 256)]"

lemma length_be [simp]: "length (be16 n) = 2" "length (be24 n) = 3"
  by (simp_all add: be16_def be24_def)

lemma unat_byte: "n < 256 \<Longrightarrow> unat (of_nat n :: byte) = n"
  by (simp add: unsigned_of_nat take_bit_nat_eq_self)

lemma byte_less: "unat (b :: byte) < 256"
  using unsigned_less[of b, where ?'a = nat] by simp

lemma be_val_be16: "n < 65536 \<Longrightarrow> be_val (be16 n) = n"
  by (simp add: be_val_def be16_def unat_byte)

lemma be_val_be24: "n < 16777216 \<Longrightarrow> be_val (be24 n) = n"
proof -
  assume "n < 16777216"
  then have "n div 65536 < 256" by simp
  moreover have "n div 65536 = n div 256 div 256" by (simp add: div_mult2_eq[symmetric])
  ultimately show ?thesis by (simp add: be_val_def be24_def unat_byte)
qed

lemma be16_be_val: "length bs = 2 \<Longrightarrow> be16 (be_val bs) = bs \<and> be_val bs < 65536"
proof -
  assume "length bs = 2"
  then obtain a b where bs: "bs = [a, b]" by (auto simp: numeral_2_eq_2 length_Suc_conv)
  show ?thesis using byte_less[of a] byte_less[of b] by (simp add: bs be_val_def be16_def)
qed

lemma be24_be_val: "length bs = 3 \<Longrightarrow> be24 (be_val bs) = bs \<and> be_val bs < 16777216"
proof -
  assume "length bs = 3"
  then obtain a b c where bs: "bs = [a, b, c]" by (auto simp: numeral_3_eq_3 length_Suc_conv)
  define u v where "u = 256 * unat a + unat b" and "v = 256 * u + unat c"
  have v: "v div 256 = u" "v mod 256 = unat c"
    using byte_less[of c] by (simp_all add: v_def)
  have "v div 65536 = v div 256 div 256" by (simp add: div_mult2_eq[symmetric])
  then have "v div 65536 = unat a" "v div 256 mod 256 = unat b" using byte_less[of b] by (simp_all add: v u_def)
  moreover have "v < 16777216" using byte_less[of a] byte_less[of b] byte_less[of c] by (simp add: v_def u_def)
  moreover have "be_val bs = v" by (simp add: bs be_val_def v_def u_def)
  ultimately show ?thesis by (simp add: be24_def v(2) bs)
qed

lemma drop_after: "drop a xs = ys @ zs \<Longrightarrow> b = a + length ys \<Longrightarrow> drop b xs = zs"
  by (metis add.commute append_eq_conv_conj drop_drop)

text \<open>A read succeeds exactly when the buffer continues with the encoding of the number.\<close>

lemma readUIntBE_16: "readUInt16BE buf off = Inr n \<longleftrightarrow> n < 65536 \<and> (\<exists>post. drop off buf = be16 n @ post)"
proof
  assume "readUInt16BE buf off = Inr n"
  then have len: "off + 2 \<le> length buf" and n: "n = be_val (take 2 (drop off buf))"
    by (auto simp: readUInt16BE_def readUIntBE_def split: if_splits)
  then have "be16 n = take 2 (drop off buf)" "n < 65536" using be16_be_val[of "take 2 (drop off buf)"] by simp_all
  then have "drop off buf = be16 n @ drop 2 (drop off buf)" by (metis append_take_drop_id)
  with \<open>n < 65536\<close> show "n < 65536 \<and> (\<exists>post. drop off buf = be16 n @ post)" by blast
next
  assume "n < 65536 \<and> (\<exists>post. drop off buf = be16 n @ post)"
  then obtain post where post: "n < 65536" "drop off buf = be16 n @ post" by blast
  then have "length (drop off buf) = 2 + length post" by simp
  then have "off + 2 \<le> length buf" by simp
  with post show "readUInt16BE buf off = Inr n"
    by (simp add: readUInt16BE_def readUIntBE_def be_val_be16)
qed

lemma readUIntBE_24: "readUIntBE buf off 3 = Inr n \<longleftrightarrow> n < 16777216 \<and> (\<exists>post. drop off buf = be24 n @ post)"
proof
  assume "readUIntBE buf off 3 = Inr n"
  then have len: "off + 3 \<le> length buf" and n: "n = be_val (take 3 (drop off buf))"
    by (auto simp: readUIntBE_def split: if_splits)
  then have "be24 n = take 3 (drop off buf)" "n < 16777216" using be24_be_val[of "take 3 (drop off buf)"] by simp_all
  then have "drop off buf = be24 n @ drop 3 (drop off buf)" by (metis append_take_drop_id)
  with \<open>n < 16777216\<close> show "n < 16777216 \<and> (\<exists>post. drop off buf = be24 n @ post)" by blast
next
  assume "n < 16777216 \<and> (\<exists>post. drop off buf = be24 n @ post)"
  then obtain post where post: "n < 16777216" "drop off buf = be24 n @ post" by blast
  then have "length (drop off buf) = 3 + length post" by simp
  then have "off + 3 \<le> length buf" by simp
  with post show "readUIntBE buf off 3 = Inr n"
    by (simp add: readUIntBE_def be_val_be24)
qed

lemma tls_require_Inr [res_simps]: "tls_require b c = Inr u \<longleftrightarrow> b"
  by (simp add: tls_require_def)

lemma requireBytes_Inr [res_simps]: "requireBytes buf off n = Inr u \<longleftrightarrow> off + n \<le> length buf"
  by (auto simp: requireBytes_def)

lemma tls_require_bind [res_simps]: "rbind (tls_require b c) f = Inr y \<longleftrightarrow> b \<and> f () = Inr y"
  by (simp add: tls_require_def)

lemma requireBytes_bind [res_simps]: "rbind (requireBytes buf off n) f = Inr y \<longleftrightarrow> off + n \<le> length buf \<and> f () = Inr y"
  by (auto simp: requireBytes_def)

lemma case_sum_Inr [res_simps]: "(case m of Inl _ \<Rightarrow> Inl e | Inr x \<Rightarrow> Inr x) = Inr y \<longleftrightarrow> m = Inr y"
  by (cases m) auto

subsection \<open>The server name\<close>

definition server_name_ext :: "byte list \<Rightarrow> byte list" where
  "server_name_ext nm = be16 (length nm + 3) @ 0 # be16 (length nm) @ nm"

definition names_host :: "(string \<Rightarrow> string) \<Rightarrow> byte list \<Rightarrow> string \<Rightarrow> bool" where
  "names_host ta d h \<longleftrightarrow>
     (\<exists>nm. d = server_name_ext nm \<and> 1 \<le> length nm \<and> length nm \<le> 253 \<and> (\<forall>b \<in> set nm. 33 \<le> b \<and> b \<le> 126)
        \<and> \<not> ends_with (ascii nm) ''.'' \<and> normalizeHostname ta (ascii nm) = Inr h)"

lemma parseSingleServerName_Inr: "parseSingleServerName ta d = Inr h \<longleftrightarrow> names_host ta d h"
proof
  assume "parseSingleServerName ta d = Inr h"
  then obtain l n where len: "5 \<le> length d" and l: "readUInt16BE d 0 = Inr l" "int l = int (length d) - 2"
    and z: "d ! 2 = 0" and n: "readUInt16BE d 3 = Inr n" "1 \<le> n" "int n = int (length d) - 5" "n \<le> 253"
    and plain: "\<forall>b \<in> set (drop 5 d). 33 \<le> b \<and> b \<le> 126" "\<not> ends_with (ascii (drop 5 d)) ''.''"
    and norm: "normalizeHostname ta (ascii (drop 5 d)) = Inr h"
    unfolding parseSingleServerName_def Let_def tls_require_bind case_sum_Inr
    unfolding rbind_Inr_iff tls_require_Inr case_sum_Inr simp_thms list_ex_iff not_less de_Morgan_disj not_not bex_simps by blast
  from l obtain p where p: "d = be16 l @ p" by (auto simp: readUIntBE_16)
  from n(1) obtain q where q: "drop 3 d = be16 n @ q" by (auto simp: readUIntBE_16)
  have "d = be16 l @ d ! 2 # drop 3 d"
    using p len by (cases p) (simp_all add: nth_append)
  then have d: "d = be16 l @ 0 # be16 n @ q" using z q by simp
  then have q': "q = drop 5 d" by (simp add: drop_Cons')
  have "length q = n" using n(3) len by (simp add: q')
  moreover from this have "l = length q + 3" using l(2) n(3) by linarith
  ultimately have "d = server_name_ext q" using d unfolding server_name_ext_def by metis
  then show "names_host ta d h"
    unfolding names_host_def
    using n(2,4) plain[folded q'] norm[folded q'] \<open>length q = n\<close> by blast
next
  assume "names_host ta d h"
  then obtain nm where d: "d = server_name_ext nm" and len: "1 \<le> length nm" "length nm \<le> 253"
    and plain: "\<forall>b \<in> set nm. 33 \<le> b \<and> b \<le> 126" "\<not> ends_with (ascii nm) ''.''"
    and norm: "normalizeHostname ta (ascii nm) = Inr h"
    unfolding names_host_def by blast
  have "readUInt16BE d 0 = Inr (length nm + 3)" "readUInt16BE d 3 = Inr (length nm)"
    using len by (auto simp: readUIntBE_16 d server_name_ext_def drop_Cons')
  moreover have "drop 5 d = nm" "d ! 2 = 0" "length d = length nm + 5"
    by (simp_all add: d server_name_ext_def drop_Cons' nth_append)
  moreover have "\<not> list_ex (\<lambda>b. b < 33 \<or> 126 < b) nm"
    using plain(1) by (auto simp: list_ex_iff not_less)
  moreover have "nm \<noteq> []" using len by auto
  ultimately show "parseSingleServerName ta d = Inr h"
    unfolding parseSingleServerName_def Let_def using len plain norm by (simp add: tls_require_def)
qed


section \<open>The extensions\<close>

type_synonym tls_extension = "nat \<times> byte list"

definition encode_ext :: "tls_extension \<Rightarrow> byte list" where
  "encode_ext x = be16 (fst x) @ be16 (length (snd x)) @ snd x"

definition wf_ext :: "tls_extension \<Rightarrow> bool" where
  "wf_ext x \<longleftrightarrow> fst x < 65536 \<and> length (snd x) < 65536 \<and> fst x \<noteq> ENCRYPTED_CLIENT_HELLO_EXTENSION"

definition server_names :: "tls_extension list \<Rightarrow> byte list list" where
  "server_names es = map snd (filter (\<lambda>x. fst x = SERVER_NAME_EXTENSION) es)"

lemma server_names_simps [simp]:
  "server_names [] = []"
  "server_names (x # es) = (if fst x = SERVER_NAME_EXTENSION then snd x # server_names es else server_names es)"
  by (simp_all add: server_names_def)

text \<open>The name the loop ends with, from the one it started with and the server_name extensions it met.\<close>

definition sni_after :: "(string \<Rightarrow> string) \<Rightarrow> string option \<Rightarrow> byte list list \<Rightarrow> string option \<Rightarrow> bool" where
  "sni_after ta sni ds r \<longleftrightarrow>
     (ds = [] \<and> r = sni) \<or> (sni = None \<and> (\<exists>d h. ds = [d] \<and> names_host ta d h \<and> r = Some h))"

definition parses_exts ::
  "(string \<Rightarrow> string) \<Rightarrow> byte list \<Rightarrow> nat \<Rightarrow> string option \<Rightarrow> string option \<Rightarrow> bool" where
  "parses_exts ta hello offset sni r \<longleftrightarrow>
     (\<exists>es. drop offset hello = concat (map encode_ext es) \<and> (\<forall>x \<in> set es. wf_ext x) \<and> sni_after ta sni (server_names es) r)"

lemma ext_not_ech: "SERVER_NAME_EXTENSION \<noteq> ENCRYPTED_CLIENT_HELLO_EXTENSION"
  by (simp add: SERVER_NAME_EXTENSION_def ENCRYPTED_CLIENT_HELLO_EXTENSION_def)

text \<open>One turn of the loop reads one extension.\<close>

lemma parses_exts_step:
  assumes "offset < length hello"
  shows "parses_exts ta hello offset sni r \<longleftrightarrow>
     (\<exists>t n. offset + 4 + n \<le> length hello \<and> readUInt16BE hello offset = Inr t \<and> readUInt16BE hello (offset + 2) = Inr n
        \<and> t \<noteq> ENCRYPTED_CLIENT_HELLO_EXTENSION
        \<and> (if t = SERVER_NAME_EXTENSION
            then sni = None \<and> (\<exists>h. names_host ta (subarray hello (offset + 4) (offset + 4 + n)) h
                                \<and> parses_exts ta hello (offset + 4 + n) (Some h) r)
            else parses_exts ta hello (offset + 4 + n) sni r))"
proof
  assume "parses_exts ta hello offset sni r"
  then obtain es where es: "drop offset hello = concat (map encode_ext es)" "\<forall>x \<in> set es. wf_ext x"
    and r: "sni_after ta sni (server_names es) r" unfolding parses_exts_def by blast
  with assms obtain t d fs where fs: "es = (t, d) # fs" by (cases es) auto
  have t: "t < 65536" "length d < 65536" "t \<noteq> ENCRYPTED_CLIENT_HELLO_EXTENSION" "\<forall>x \<in> set fs. wf_ext x"
    using es(2) by (simp_all add: fs wf_ext_def)
  have eq: "drop offset hello = be16 t @ be16 (length d) @ d @ concat (map encode_ext fs)"
    using es(1) by (simp add: fs encode_ext_def)
  have two: "drop (offset + 2) hello = be16 (length d) @ d @ concat (map encode_ext fs)"
    by (rule drop_after[OF eq]) simp
  have four: "drop (offset + 4) hello = d @ concat (map encode_ext fs)"
    by (rule drop_after[OF two]) simp
  have rest: "drop (offset + 4 + length d) hello = concat (map encode_ext fs)"
    by (rule drop_after[OF four]) simp
  have "length (drop (offset + 4) hello) = length d + length (concat (map encode_ext fs))" unfolding four by simp
  moreover have "length (drop offset hello) = 4 + length d + length (concat (map encode_ext fs))" unfolding eq by simp
  ultimately have len: "offset + 4 + length d \<le> length hello" by simp
  have sub: "subarray hello (offset + 4) (offset + 4 + length d) = d" by (simp add: subarray_def four)
  show "\<exists>t n. offset + 4 + n \<le> length hello \<and> readUInt16BE hello offset = Inr t \<and> readUInt16BE hello (offset + 2) = Inr n
        \<and> t \<noteq> ENCRYPTED_CLIENT_HELLO_EXTENSION
        \<and> (if t = SERVER_NAME_EXTENSION
            then sni = None \<and> (\<exists>h. names_host ta (subarray hello (offset + 4) (offset + 4 + n)) h
                                \<and> parses_exts ta hello (offset + 4 + n) (Some h) r)
            else parses_exts ta hello (offset + 4 + n) sni r)"
  proof (rule exI[of _ t], rule exI[of _ "length d"], intro conjI)
    show "readUInt16BE hello offset = Inr t" "readUInt16BE hello (offset + 2) = Inr (length d)"
      unfolding readUIntBE_16 eq two using t by auto
    show "if t = SERVER_NAME_EXTENSION
            then sni = None \<and> (\<exists>h. names_host ta (subarray hello (offset + 4) (offset + 4 + length d)) h
                                \<and> parses_exts ta hello (offset + 4 + length d) (Some h) r)
            else parses_exts ta hello (offset + 4 + length d) sni r"
    proof (cases "t = SERVER_NAME_EXTENSION")
      case True
      with r obtain h where h: "sni = None" "names_host ta d h" "server_names fs = []" "r = Some h"
        by (auto simp: fs sni_after_def)
      then have "parses_exts ta hello (offset + 4 + length d) (Some h) r"
        unfolding parses_exts_def rest using t(4) by (intro exI[of _ fs]) (simp add: sni_after_def)
      with True h show ?thesis unfolding sub by auto
    next
      case False
      with r t(4) show ?thesis unfolding parses_exts_def rest by (auto simp: fs)
    qed
  qed (use len t in auto)
next
  assume "\<exists>t n. offset + 4 + n \<le> length hello \<and> readUInt16BE hello offset = Inr t \<and> readUInt16BE hello (offset + 2) = Inr n
        \<and> t \<noteq> ENCRYPTED_CLIENT_HELLO_EXTENSION
        \<and> (if t = SERVER_NAME_EXTENSION
            then sni = None \<and> (\<exists>h. names_host ta (subarray hello (offset + 4) (offset + 4 + n)) h
                                \<and> parses_exts ta hello (offset + 4 + n) (Some h) r)
            else parses_exts ta hello (offset + 4 + n) sni r)"
  then obtain t n where len: "offset + 4 + n \<le> length hello"
    and t: "readUInt16BE hello offset = Inr t" and n: "readUInt16BE hello (offset + 2) = Inr n"
    and ech: "t \<noteq> ENCRYPTED_CLIENT_HELLO_EXTENSION"
    and rest: "if t = SERVER_NAME_EXTENSION
            then sni = None \<and> (\<exists>h. names_host ta (subarray hello (offset + 4) (offset + 4 + n)) h
                                \<and> parses_exts ta hello (offset + 4 + n) (Some h) r)
            else parses_exts ta hello (offset + 4 + n) sni r" by blast
  define d where "d = subarray hello (offset + 4) (offset + 4 + n)"
  from t obtain p where p: "t < 65536" "drop offset hello = be16 t @ p" by (auto simp: readUIntBE_16)
  from n obtain q where q: "n < 65536" "drop (offset + 2) hello = be16 n @ q" by (auto simp: readUIntBE_16)
  have "drop (offset + 2) hello = p" by (rule drop_after[OF p(2)]) simp
  then have p': "p = be16 n @ q" using q(2) by metis
  have "q = drop (offset + 4) hello" by (rule drop_after[OF q(2), symmetric]) simp
  also have "\<dots> = d @ drop (offset + 4 + n) hello"
    unfolding d_def subarray_def by (metis add_diff_cancel_left' append_take_drop_id drop_drop add.commute)
  finally have eq: "drop offset hello = be16 t @ be16 n @ d @ drop (offset + 4 + n) hello"
    using p(2) p' by simp
  have "length d = n" using len by (simp add: d_def subarray_def)
  then have enc: "drop offset hello = encode_ext (t, d) @ drop (offset + 4 + n) hello" "wf_ext (t, d)"
    using eq p(1) q(1) ech by (simp_all add: encode_ext_def wf_ext_def)
  have extend: "parses_exts ta hello offset sni r"
    if "\<And>fs. \<forall>x \<in> set fs. wf_ext x \<Longrightarrow> sni_after ta s (server_names fs) r \<Longrightarrow> sni_after ta sni (server_names ((t, d) # fs)) r"
      "parses_exts ta hello (offset + 4 + n) s r" for s
  proof -
    from that(2) obtain fs where fs: "drop (offset + 4 + n) hello = concat (map encode_ext fs)"
      "\<forall>x \<in> set fs. wf_ext x" "sni_after ta s (server_names fs) r" unfolding parses_exts_def by blast
    then show ?thesis unfolding parses_exts_def
      using enc that(1)[OF fs(2,3)] by (intro exI[of _ "(t, d) # fs"]) simp
  qed
  show "parses_exts ta hello offset sni r"
  proof (cases "t = SERVER_NAME_EXTENSION")
    case True
    with rest obtain h where h: "sni = None" "names_host ta d h" "parses_exts ta hello (offset + 4 + n) (Some h) r"
      by (auto simp: d_def)
    show ?thesis by (rule extend[OF _ h(3)]) (use True h in \<open>auto simp: sni_after_def\<close>)
  next
    case False
    with rest show ?thesis by (intro extend[of sni]) auto
  qed
qed

lemma extensions_loop_Inr:
  "offset \<le> length hello \<Longrightarrow> extensions_loop ta hello (length hello) offset sni = Inr r \<longleftrightarrow> parses_exts ta hello offset sni r"
proof (induction ta hello "length hello" offset sni arbitrary: r rule: extensions_loop.induct)
  case (1 ta hello offset sni)
  show ?case
  proof (cases "offset < length hello")
    case False
    with "1.prems" have "offset = length hello" by simp
    moreover have "concat (map encode_ext es) = [] \<longleftrightarrow> es = []" for es
      by (cases es) (simp_all add: encode_ext_def be16_def)
    ultimately show ?thesis
      by (subst extensions_loop.simps) (auto simp: parses_exts_def sni_after_def)
  next
    case True
    have nm: "rbind (parseSingleServerName ta d) f = Inr r \<longleftrightarrow> (\<exists>h. names_host ta d h \<and> f h = Inr r)"
      for d and f :: "string \<Rightarrow> (tls_failure, string option) res"
      by (simp add: rbind_Inr_iff parseSingleServerName_Inr)
    have "extensions_loop ta hello (length hello) offset sni = Inr r \<longleftrightarrow>
      (\<exists>t n. offset + 4 + n \<le> length hello \<and> readUInt16BE hello offset = Inr t \<and> readUInt16BE hello (offset + 2) = Inr n
        \<and> t \<noteq> ENCRYPTED_CLIENT_HELLO_EXTENSION
        \<and> (if t = SERVER_NAME_EXTENSION
            then sni = None \<and> (\<exists>h. names_host ta (subarray hello (offset + 4) (offset + 4 + n)) h
                                \<and> extensions_loop ta hello (length hello) (offset + 4 + n) (Some h) = Inr r)
            else extensions_loop ta hello (length hello) (offset + 4 + n) sni = Inr r))"
      using True by (subst extensions_loop.simps)
        (simp add: requireBytes_bind rbind_Inr_iff[of "readUInt16BE _ _"] Let_def if_Inr_iff nm ext_not_ech cong: conj_cong if_cong, force)
    also have "\<dots> \<longleftrightarrow> parses_exts ta hello offset sni r"
      unfolding parses_exts_step[OF True]
      using "1.hyps" True by (intro ex_cong1 conj_cong refl) auto
    finally show ?thesis .
  qed
qed

section \<open>The ClientHello as a structure\<close>

record client_hello =
  ch_version :: nat
  ch_random :: "byte list"
  ch_session_id :: "byte list"
  ch_cipher_suites :: "byte list"
  ch_compression :: "byte list"
  ch_extensions :: "tls_extension list"

definition encode_exts :: "tls_extension list \<Rightarrow> byte list" where
  "encode_exts es = concat (map encode_ext es)"

definition encode_hello :: "client_hello \<Rightarrow> byte list" where
  "encode_hello ch =
     be16 (ch_version ch) @ ch_random ch
     @ of_nat (length (ch_session_id ch)) # ch_session_id ch
     @ be16 (length (ch_cipher_suites ch)) @ ch_cipher_suites ch
     @ of_nat (length (ch_compression ch)) # ch_compression ch
     @ be16 (length (encode_exts (ch_extensions ch))) @ encode_exts (ch_extensions ch)"

definition acceptable_hello :: "(string \<Rightarrow> string) \<Rightarrow> client_hello \<Rightarrow> string \<Rightarrow> bool" where
  "acceptable_hello ta ch h \<longleftrightarrow>
     769 \<le> ch_version ch \<and> ch_version ch \<le> 771 \<and> length (ch_random ch) = 32 \<and> length (ch_session_id ch) \<le> 32
     \<and> 2 \<le> length (ch_cipher_suites ch) \<and> even (length (ch_cipher_suites ch)) \<and> length (ch_cipher_suites ch) < 65536
     \<and> 1 \<le> length (ch_compression ch) \<and> length (ch_compression ch) < 256
     \<and> length (encode_exts (ch_extensions ch)) < 65536 \<and> (\<forall>x \<in> set (ch_extensions ch). wf_ext x)
     \<and> (\<exists>d. server_names (ch_extensions ch) = [d] \<and> names_host ta d h)"

lemma drop_cut: "off + n \<le> length buf \<Longrightarrow> drop off buf = take n (drop off buf) @ drop (off + n) buf"
  by (metis add.commute append_take_drop_id drop_drop)

lemma drop_read: "readUInt16BE buf off = Inr n \<Longrightarrow> n < 65536 \<and> drop off buf = be16 n @ drop (off + 2) buf"
  unfolding readUIntBE_16 using drop_after by fastforce

lemma read_at: "drop off buf = be16 n @ ys \<Longrightarrow> n < 65536 \<Longrightarrow> readUInt16BE buf off = Inr n"
  by (auto simp: readUIntBE_16)

lemma fits_at: "drop off buf = xs @ ys \<Longrightarrow> off \<le> length buf \<Longrightarrow> off + length xs \<le> length buf"
  by (metis add_le_cancel_left append_take_drop_id length_append le_add1 length_take min.absorb2)

lemma nth_at: "drop off buf = x # ys \<Longrightarrow> buf ! off = x"
  by (metis hd_drop_conv_nth linorder_not_le drop_all list.distinct(1) list.sel(1))

lemmas bind_simps = requireBytes_bind tls_require_bind tls_require_Inr rbind_Inr_iff[of "readUInt16BE _ _"]

lemma validateClientHello_Inr:
  "validateClientHello ta hello expected = Inr u \<longleftrightarrow> (\<exists>ch. hello = encode_hello ch \<and> acceptable_hello ta ch expected)"
proof
  assume "validateClientHello ta hello expected = Inr u"
  then obtain ver cs xl sni where
      len: "34 \<le> length hello" and ver: "readUInt16BE hello 0 = Inr ver" "769 \<le> ver" "ver \<le> 771"
    and sid: "34 + 1 \<le> length hello" "unat (hello ! 34) \<le> 32" "35 + unat (hello ! 34) \<le> length hello"
    and cs: "readUInt16BE hello (35 + unat (hello ! 34)) = Inr cs" "2 \<le> cs" "even cs"
      "35 + unat (hello ! 34) + 2 + cs \<le> length hello"
    and cm: "35 + unat (hello ! 34) + 2 + cs + 1 \<le> length hello"
      "1 \<le> unat (hello ! (35 + unat (hello ! 34) + 2 + cs))"
      "35 + unat (hello ! 34) + 2 + cs + 1 + unat (hello ! (35 + unat (hello ! 34) + 2 + cs)) \<le> length hello"
    and xl: "readUInt16BE hello (35 + unat (hello ! 34) + 2 + cs + 1 + unat (hello ! (35 + unat (hello ! 34) + 2 + cs))) = Inr xl"
      "int xl = int (length hello) - int (35 + unat (hello ! 34) + 2 + cs + 1 + unat (hello ! (35 + unat (hello ! 34) + 2 + cs)) + 2)"
    and sni: "extensions_loop ta hello
        (35 + unat (hello ! 34) + 2 + cs + 1 + unat (hello ! (35 + unat (hello ! 34) + 2 + cs)) + 2 + xl)
        (35 + unat (hello ! 34) + 2 + cs + 1 + unat (hello ! (35 + unat (hello ! 34) + 2 + cs)) + 2) None = Inr (Some sni)"
      "sni = expected"
    unfolding validateClientHello_def Let_def
    unfolding bind_simps rbind_Inr_iff[of "extensions_loop _ _ _ _ _"] case_option_Inr_iff tls_require_Inr
      not_less de_Morgan_disj not_not even_iff_mod_2_eq_zero[symmetric]
    by (elim exE conjE) (rule that; simp)
  define s c where "s = 35 + unat (hello ! 34)" and "c = unat (hello ! (s + 2 + cs))"
  note defs = s_def[symmetric] c_def[symmetric]
  define ex where "ex = s + 2 + cs + 1 + c"
  note sid = sid[unfolded defs] and cs = cs[unfolded defs] and cm = cm[unfolded defs, folded ex_def]
    and xl = xl[unfolded defs, folded ex_def] and sni = sni[unfolded defs, folded ex_def]
  have fin: "ex + 2 + xl = length hello" "ex + 2 \<le> length hello" using xl(2) by linarith+
  obtain es where es: "drop (ex + 2) hello = encode_exts es" "\<forall>x \<in> set es. wf_ext x"
      "sni_after ta None (server_names es) (Some expected)"
    using sni extensions_loop_Inr[OF fin(2)] unfolding fin(1) parses_exts_def encode_exts_def by blast
  define ch where "ch = \<lparr>ch_version = ver, ch_random = take 32 (drop 2 hello),
    ch_session_id = take (unat (hello ! 34)) (drop 35 hello), ch_cipher_suites = take cs (drop (s + 2) hello),
    ch_compression = take c (drop (s + 2 + cs + 1) hello), ch_extensions = es\<rparr>"
  have lens: "length (ch_random ch) = 32" "length (ch_session_id ch) = unat (hello ! 34)"
    "length (ch_cipher_suites ch) = cs" "length (ch_compression ch) = c" "length (encode_exts es) = xl"
    using len sid cs cm fin es(1)[symmetric] by (simp_all add: ch_def s_def ex_def)
  have "hello = be16 ver @ drop 2 hello" using drop_read[OF ver(1)] by (metis add_0 drop0)
  also have "drop 2 hello = ch_random ch @ drop 34 hello"
    using drop_cut[of 2 32 hello] len by (simp add: ch_def)
  also have "drop 34 hello = hello ! 34 # drop 35 hello"
    using Cons_nth_drop_Suc[of 34 hello] sid(1) by simp
  also have "drop 35 hello = ch_session_id ch @ drop s hello"
    using drop_cut[of 35 "unat (hello ! 34)" hello] sid(3) by (simp add: ch_def s_def)
  also have "drop s hello = be16 cs @ drop (s + 2) hello" using drop_read[OF cs(1)] by blast
  also have "drop (s + 2) hello = ch_cipher_suites ch @ drop (s + 2 + cs) hello"
    using drop_cut[of "s + 2" cs hello] cs(4) by (simp add: ch_def)
  also have "drop (s + 2 + cs) hello = hello ! (s + 2 + cs) # drop (s + 2 + cs + 1) hello"
    using Cons_nth_drop_Suc[of "s + 2 + cs" hello] cm(1) by simp
  also have "drop (s + 2 + cs + 1) hello = ch_compression ch @ drop ex hello"
    using drop_cut[of "s + 2 + cs + 1" c hello] cm(3) by (simp add: ch_def ex_def)
  also have "drop ex hello = be16 xl @ drop (ex + 2) hello" using drop_read[OF xl(1)] by blast
  also note es(1)
  finally have "hello = be16 ver @ ch_random ch @ hello ! 34 # ch_session_id ch @ be16 cs @ ch_cipher_suites ch
      @ hello ! (s + 2 + cs) # ch_compression ch @ be16 xl @ encode_exts es" .
  also have "\<dots> = encode_hello ch"
  proof -
    have "ch_version ch = ver" "ch_extensions ch = es" by (simp_all add: ch_def)
    then show ?thesis unfolding encode_hello_def lens by (simp add: lens c_def)
  qed
  finally have enc: "hello = encode_hello ch" .
  have "c < 256" unfolding c_def by (rule byte_less)
  moreover have "ch_version ch = ver" "ch_extensions ch = es" by (simp_all add: ch_def)
  moreover have "\<exists>d. server_names es = [d] \<and> names_host ta d expected" using es(3) by (auto simp: sni_after_def)
  ultimately have "acceptable_hello ta ch expected"
    unfolding acceptable_hello_def lens
    using ver sid(2) cs cm(2) drop_read[OF cs(1)] drop_read[OF xl(1)] es(2) lens(5) by (simp add: c_def)
  with enc show "\<exists>ch. hello = encode_hello ch \<and> acceptable_hello ta ch expected" by blast
next
  assume "\<exists>ch. hello = encode_hello ch \<and> acceptable_hello ta ch expected"
  then obtain ch where enc: "hello = encode_hello ch" and ok: "acceptable_hello ta ch expected" by blast
  define s where "s = 35 + length (ch_session_id ch)"
  define k where "k = s + 2 + length (ch_cipher_suites ch)"
  define ex where "ex = k + 1 + length (ch_compression ch)"
  define es where "es = ch_extensions ch"
  note ok' = ok[unfolded acceptable_hello_def, folded es_def]
  have d0: "drop 0 hello = be16 (ch_version ch) @ ch_random ch
     @ of_nat (length (ch_session_id ch)) # ch_session_id ch
     @ be16 (length (ch_cipher_suites ch)) @ ch_cipher_suites ch
     @ of_nat (length (ch_compression ch)) # ch_compression ch
     @ be16 (length (encode_exts es)) @ encode_exts es"
    unfolding enc encode_hello_def es_def by simp
  have d2: "drop 2 hello = ch_random ch
     @ of_nat (length (ch_session_id ch)) # ch_session_id ch
     @ be16 (length (ch_cipher_suites ch)) @ ch_cipher_suites ch
     @ of_nat (length (ch_compression ch)) # ch_compression ch
     @ be16 (length (encode_exts es)) @ encode_exts es" by (rule drop_after[OF d0]) simp
  have d34: "drop 34 hello = [of_nat (length (ch_session_id ch))] @ ch_session_id ch
     @ be16 (length (ch_cipher_suites ch)) @ ch_cipher_suites ch
     @ of_nat (length (ch_compression ch)) # ch_compression ch
     @ be16 (length (encode_exts es)) @ encode_exts es"
    using drop_after[OF d2, of 34] ok' by simp
  have d35: "drop 35 hello = ch_session_id ch
     @ be16 (length (ch_cipher_suites ch)) @ ch_cipher_suites ch
     @ of_nat (length (ch_compression ch)) # ch_compression ch
     @ be16 (length (encode_exts es)) @ encode_exts es" by (rule drop_after[OF d34]) simp
  have ds: "drop s hello = be16 (length (ch_cipher_suites ch)) @ ch_cipher_suites ch
     @ of_nat (length (ch_compression ch)) # ch_compression ch
     @ be16 (length (encode_exts es)) @ encode_exts es" by (rule drop_after[OF d35]) (simp add: s_def)
  have ds2: "drop (s + 2) hello = ch_cipher_suites ch
     @ of_nat (length (ch_compression ch)) # ch_compression ch
     @ be16 (length (encode_exts es)) @ encode_exts es" by (rule drop_after[OF ds]) simp
  have dk: "drop k hello = [of_nat (length (ch_compression ch))] @ ch_compression ch
     @ be16 (length (encode_exts es)) @ encode_exts es" using drop_after[OF ds2, of k] by (simp add: k_def)
  have dk1: "drop (k + 1) hello = ch_compression ch @ be16 (length (encode_exts es)) @ encode_exts es"
    by (rule drop_after[OF dk]) simp
  have dex: "drop ex hello = be16 (length (encode_exts es)) @ encode_exts es"
    by (rule drop_after[OF dk1]) (simp add: ex_def)
  have dex2: "drop (ex + 2) hello = encode_exts es" by (rule drop_after[OF dex]) simp
  have total: "length hello = ex + 2 + length (encode_exts es)"
    using ok' unfolding enc encode_hello_def es_def by (simp add: ex_def k_def s_def)
  have sid: "unat (hello ! 34) = length (ch_session_id ch)"
    using nth_at[of 34 hello] d34 ok' by (simp add: unat_byte)
  have cm: "unat (hello ! k) = length (ch_compression ch)"
    using nth_at[of k hello] dk ok' by (simp add: unat_byte)
  have loop: "extensions_loop ta hello (length hello) (ex + 2) None = Inr (Some expected)"
    by (subst extensions_loop_Inr) (use total dex2 ok' in \<open>auto simp: parses_exts_def encode_exts_def sni_after_def\<close>)
  have reads: "readUInt16BE hello 0 = Inr (ch_version ch)" "readUInt16BE hello s = Inr (length (ch_cipher_suites ch))"
    "readUInt16BE hello ex = Inr (length (encode_exts es))"
    using ok' by (auto intro!: read_at[OF d0] read_at[OF ds] read_at[OF dex])
  have bounds: "s = 35 + length (ch_session_id ch)" "k = s + 2 + length (ch_cipher_suites ch)"
    "ex = k + 1 + length (ch_compression ch)" by (simp_all only: s_def k_def ex_def)
  have req: "requireBytes hello 0 34 = Inr ()" "requireBytes hello 34 1 = Inr ()"
    "requireBytes hello 35 (length (ch_session_id ch)) = Inr ()" "requireBytes hello s 2 = Inr ()"
    "requireBytes hello (s + 2) (length (ch_cipher_suites ch)) = Inr ()" "requireBytes hello k 1 = Inr ()"
    "requireBytes hello (k + 1) (length (ch_compression ch)) = Inr ()" "requireBytes hello ex 2 = Inr ()"
    unfolding requireBytes_Inr total bounds by linarith+
  have conds: "tls_require (\<not> (ch_version ch < 769 \<or> 771 < ch_version ch)) MalformedClientHello = Inr ()"
    "tls_require (\<not> 32 < length (ch_session_id ch)) MalformedClientHello = Inr ()"
    "tls_require (\<not> (length (ch_cipher_suites ch) < 2 \<or> length (ch_cipher_suites ch) mod 2 \<noteq> 0)) MalformedClientHello = Inr ()"
    "tls_require (\<not> length (ch_compression ch) < 1) MalformedClientHello = Inr ()"
    "tls_require (int (length (encode_exts es)) = int (length hello) - int (ex + 2)) MalformedClientHello = Inr ()"
    "tls_require (expected = expected) SniMismatch = Inr u"
    using ok' total by (auto simp: tls_require_Inr even_iff_mod_2_eq_zero)
  show "validateClientHello ta hello expected = Inr u"
    unfolding validateClientHello_def Let_def
    by (simp only: req reads rbind_simps sid bounds(1)[symmetric] bounds(2)[symmetric] bounds(3)[symmetric] cm conds
      total[symmetric] loop option.case)
qed

section \<open>Records\<close>

type_synonym tls_record = "nat \<times> byte list"

definition encode_record :: "tls_record \<Rightarrow> byte list" where
  "encode_record r = [TLS_HANDSHAKE_RECORD] @ be16 (fst r) @ be16 (length (snd r)) @ snd r"

definition wf_record :: "tls_record \<Rightarrow> bool" where
  "wf_record r \<longleftrightarrow> 769 \<le> fst r \<and> fst r \<le> 772 \<and> 0 < length (snd r) \<and> length (snd r) \<le> MAX_TLS_RECORD_PAYLOAD"

definition encode_records :: "tls_record list \<Rightarrow> byte list" where
  "encode_records rs = concat (map encode_record rs)"

lemma encode_records_simps [simp]:
  "encode_records [] = []" "encode_records (r # rs) = encode_record r @ encode_records rs"
  by (simp_all add: encode_records_def)

lemma length_encode_record: "length (encode_record r) = 5 + length (snd r)"
  by (simp add: encode_record_def)

definition hello_message :: "(string \<Rightarrow> string) \<Rightarrow> string \<Rightarrow> byte list \<Rightarrow> bool" where
  "hello_message ta expected m \<longleftrightarrow>
     (\<exists>ch. length (encode_hello ch) < 16777216 \<and> acceptable_hello ta ch expected
        \<and> m = CLIENT_HELLO # be24 (length (encode_hello ch)) @ encode_hello ch)"

text \<open>What the loop does once a record is complete.\<close>

definition after_record ::
  "(string \<Rightarrow> string) \<Rightarrow> byte list \<Rightarrow> string \<Rightarrow> nat \<Rightarrow> nat \<Rightarrow> byte list \<Rightarrow> (tls_failure, inspection) res" where
  "after_record ta input expected maxBytes recordEnd hs =
     (if length hs < 4 then inspect_loop ta input expected maxBytes recordEnd hs
      else if hs ! 0 \<noteq> CLIENT_HELLO then Inl (TlsError NotTls)
      else rbind (readUIntBE hs 1 3) (\<lambda>helloLength.
        if maxBytes < helloLength + 4 then Inl (TlsError ClientHelloTooLarge)
        else if length hs < helloLength + 4 then inspect_loop ta input expected maxBytes recordEnd hs
        else if length hs \<noteq> helloLength + 4 then Inl (TlsError MalformedClientHello)
        else rbind (validateClientHello ta (drop 4 hs) expected) (\<lambda>_. Inr (Complete recordEnd))))"

lemma MAX_less: "MAX_TLS_RECORD_PAYLOAD < 65536"
  by (simp add: MAX_TLS_RECORD_PAYLOAD_def)

lemma inspect_record:
  assumes "drop off input = encode_record r @ rest" "wf_record r" "off + 5 + length (snd r) \<le> maxBytes" "off \<le> length input"
  shows "inspect_loop ta input expected maxBytes off hs =
    after_record ta input expected maxBytes (off + 5 + length (snd r)) (hs @ snd r)"
proof -
  have eq: "drop off input = [TLS_HANDSHAKE_RECORD] @ be16 (fst r) @ be16 (length (snd r)) @ snd r @ rest"
    using assms(1) by (simp add: encode_record_def)
  have d1: "drop (off + 1) input = be16 (fst r) @ be16 (length (snd r)) @ snd r @ rest"
    by (rule drop_after[OF eq]) simp
  have d3: "drop (off + 3) input = be16 (length (snd r)) @ snd r @ rest" by (rule drop_after[OF d1]) simp
  have d5: "drop (off + 5) input = snd r @ rest" by (rule drop_after[OF d3]) simp
  have len: "length input = off + 5 + length (snd r) + length rest"
    using arg_cong[OF eq, of length] assms(4) by simp
  have "length (snd r) < 65536" "fst r < 65536" using assms(2) MAX_less by (auto simp: wf_record_def)
  note reads = read_at[OF d1 this(2)] read_at[OF d3 this(1)]
  have sub: "subarray input (off + 5) (off + 5 + length (snd r)) = snd r"
    unfolding subarray_def d5 by simp
  have first: "input ! off = TLS_HANDSHAKE_RECORD" using eq by (auto intro: nth_at)
  show ?thesis
    unfolding inspect_loop.simps[of ta input expected maxBytes off hs] Let_def reads rbind_simps sub first after_record_def
    using assms(2,3) len by (simp add: wf_record_def)
qed

text \<open>A proper prefix of the next record leaves the inspection incomplete.\<close>

lemma inspect_partial_record:
  assumes "drop off input = take j (encode_record r)" "j < length (encode_record r)" "wf_record r"
    "off + 5 + length (snd r) \<le> maxBytes" "off \<le> length input"
  shows "inspect_loop ta input expected maxBytes off hs = Inr Incomplete"
proof (cases "j < 5")
  case True
  then have "int (length input) - int off < 5" using arg_cong[OF assms(1), of length] assms(2,5) by simp
  then show ?thesis by (subst inspect_loop.simps) simp
next
  case False
  have "take j ((x # ys) @ zs) = (x # ys) @ take (j - 5) zs" if "length ys = 4" for x :: byte and ys zs
    using that False by (subst take_append) simp
  from this[of "be16 (fst r) @ be16 (length (snd r))" TLS_HANDSHAKE_RECORD "snd r"]
  have eq: "drop off input = [TLS_HANDSHAKE_RECORD] @ be16 (fst r) @ be16 (length (snd r)) @ take (j - 5) (snd r)"
    using assms(1) by (simp add: encode_record_def)
  have d1: "drop (off + 1) input = be16 (fst r) @ be16 (length (snd r)) @ take (j - 5) (snd r)"
    by (rule drop_after[OF eq]) simp
  have d3: "drop (off + 3) input = be16 (length (snd r)) @ take (j - 5) (snd r)" by (rule drop_after[OF d1]) simp
  have len: "length input = off + j" using arg_cong[OF assms(1), of length] assms(2,5) by simp
  have "length (snd r) < 65536" "fst r < 65536" using assms(3) MAX_less by (auto simp: wf_record_def)
  note reads = read_at[OF d1 this(2)] read_at[OF d3 this(1)]
  have first: "input ! off = TLS_HANDSHAKE_RECORD" using eq by (auto intro: nth_at)
  show ?thesis
    unfolding inspect_loop.simps[of ta input expected maxBytes off hs] Let_def reads rbind_simps first
    using assms(2,3,4) len by (simp add: wf_record_def length_encode_record)
qed

text \<open>The message is recognised only when all of it is there.\<close>

lemma hello_message_length: "hello_message ta e m \<Longrightarrow> 4 \<le> length m"
  by (auto simp: hello_message_def)

lemma hello_message_drop: "hello_message ta e m \<Longrightarrow> validateClientHello ta (drop 4 m) e = Inr ()"
  by (auto simp: hello_message_def validateClientHello_Inr drop_Cons')

lemma hello_message_prefix:
  assumes "hello_message ta e (p @ q)" "4 \<le> length p"
  shows "p ! 0 = CLIENT_HELLO" "readUIntBE p 1 3 = Inr (length (p @ q) - 4)"
proof -
  from assms(1) obtain ch where m: "length (encode_hello ch) < 16777216"
    "p @ q = CLIENT_HELLO # be24 (length (encode_hello ch)) @ encode_hello ch" unfolding hello_message_def by blast
  have "(p @ q) ! 0 = CLIENT_HELLO" unfolding m(2) by simp
  then show "p ! 0 = CLIENT_HELLO" using assms(2) by (simp add: nth_append split: if_splits)
  have "take 3 (drop 1 (p @ q)) = be24 (length (encode_hello ch))" unfolding m(2) by simp
  moreover have "take 3 (drop 1 (p @ q)) = take 3 (drop 1 p)" using assms(2) by simp
  moreover have "length (p @ q) - 4 = length (encode_hello ch)" unfolding m(2) by simp
  ultimately show "readUIntBE p 1 3 = Inr (length (p @ q) - 4)"
    using assms(2) m(1) by (simp add: readUIntBE_def be_val_be24)
qed

lemma after_record_prefix:
  assumes "hello_message ta e (hs @ q)" "length (hs @ q) \<le> maxBytes" "q \<noteq> []"
  shows "after_record ta input e maxBytes recordEnd hs = inspect_loop ta input e maxBytes recordEnd hs"
proof (cases "length hs < 4")
  case False
  then show ?thesis
    using hello_message_prefix[OF assms(1)] assms(2,3) by (simp add: after_record_def)
qed (simp add: after_record_def)

lemma after_record_complete:
  assumes "hello_message ta e hs" "length hs \<le> maxBytes"
  shows "after_record ta input e maxBytes recordEnd hs = Inr (Complete recordEnd)"
  using hello_message_prefix[of ta e hs "[]"] hello_message_drop[OF assms(1)] hello_message_length[OF assms(1)] assms
  by (simp add: after_record_def)

lemma after_record_Complete:
  assumes "after_record ta input e maxBytes recordEnd hs = Inr (Complete n)"
  shows "(inspect_loop ta input e maxBytes recordEnd hs = Inr (Complete n)) \<or> (n = recordEnd \<and> hello_message ta e hs)"
proof (cases "inspect_loop ta input e maxBytes recordEnd hs = Inr (Complete n)")
  case False
  then have *: "\<not> length hs < 4" "hs ! 0 = CLIENT_HELLO" "n = recordEnd"
    and "\<exists>l. readUIntBE hs 1 3 = Inr l \<and> length hs = l + 4 \<and> validateClientHello ta (drop 4 hs) e = Inr ()"
    using assms by (auto simp: after_record_def rbind_Inr_iff split: if_splits)
  then obtain l where l: "readUIntBE hs 1 3 = Inr l" "length hs = l + 4" "validateClientHello ta (drop 4 hs) e = Inr ()"
    by blast
  from l(3) obtain ch where ch: "drop 4 hs = encode_hello ch" "acceptable_hello ta ch e"
    unfolding validateClientHello_Inr by blast
  from l(1) obtain p where p: "l < 16777216" "drop 1 hs = be24 l @ p" unfolding readUIntBE_24 by blast
  have "drop 4 hs = p" by (rule drop_after[OF p(2)]) simp
  moreover have "hs = hs ! 0 # drop 1 hs" using *(1) by (cases hs) simp_all
  ultimately have "hs = CLIENT_HELLO # be24 l @ encode_hello ch" using *(2) p(2) ch(1) by simp
  moreover have "length (encode_hello ch) = l" using l(2) ch(1)[symmetric] by simp
  ultimately have "hello_message ta e hs"
    using ch(2) p(1) unfolding hello_message_def by blast
  with *(3) show ?thesis by blast
qed simp


text \<open>The records that carry the ClientHello, read from an offset on.\<close>

definition hello_records ::
  "(string \<Rightarrow> string) \<Rightarrow> byte list \<Rightarrow> string \<Rightarrow> nat \<Rightarrow> nat \<Rightarrow> byte list \<Rightarrow> nat \<Rightarrow> tls_record list \<Rightarrow> bool" where
  "hello_records ta input e maxBytes off hs n rs \<longleftrightarrow>
     rs \<noteq> [] \<and> (\<forall>r \<in> set rs. wf_record r) \<and> n = off + length (encode_records rs) \<and> n \<le> maxBytes
     \<and> (\<exists>post. drop off input = encode_records rs @ post) \<and> hello_message ta e (hs @ concat (map snd rs))"

lemma inspect_loop_record:
  assumes "inspect_loop ta input e maxBytes off hs = Inr (Complete n)"
  shows "\<exists>r post. drop off input = encode_record r @ post \<and> wf_record r \<and> off + 5 + length (snd r) \<le> maxBytes \<and>
    off + 5 + length (snd r) \<le> length input \<and>
    after_record ta input e maxBytes (off + 5 + length (snd r)) (hs @ snd r) = Inr (Complete n)"
proof -
  have ge: "\<not> int (length input) - int off < 5" and first: "input ! off = TLS_HANDSHAKE_RECORD"
    using assms by (auto simp: inspect_loop.simps[of ta input e maxBytes off hs] split: if_splits)
  from assms ge first obtain v l where v: "readUInt16BE input (off + 1) = Inr v" "769 \<le> v" "v \<le> 772"
    and l: "readUInt16BE input (off + 3) = Inr l" "0 < l" "l \<le> MAX_TLS_RECORD_PAYLOAD"
    and fit: "off + 5 + l \<le> maxBytes" "off + 5 + l \<le> length input"
    unfolding inspect_loop.simps[of ta input e maxBytes off hs] Let_def
    by (auto simp: rbind_Inr_iff not_less simp del: One_nat_def add_Suc_right split: if_splits)
  define r where "r = (v, subarray input (off + 5) (off + 5 + l))"
  have r: "length (snd r) = l" "fst r = v" using fit by (simp_all add: r_def subarray_def)
  have "drop off input = input ! off # drop (off + 1) input"
    using ge Cons_nth_drop_Suc[of off input] by simp
  also have "drop (off + 1) input = be16 v @ drop (off + 1 + 2) input" using drop_read[OF v(1)] by blast
  also have "off + 1 + 2 = off + 3" by simp
  also have "drop (off + 3) input = be16 l @ drop (off + 3 + 2) input" using drop_read[OF l(1)] by blast
  also have "off + 3 + 2 = off + 5" by simp
  also have "drop (off + 5) input = snd r @ drop (off + 5 + l) input"
    using drop_cut[OF fit(2)] by (simp add: r_def subarray_def)
  finally have eq: "drop off input = encode_record r @ drop (off + 5 + l) input"
    using first by (simp add: encode_record_def r)
  have wf: "wf_record r" using v l by (simp add: wf_record_def r)
  have "after_record ta input e maxBytes (off + 5 + length (snd r)) (hs @ snd r) = Inr (Complete n)"
    using inspect_record[OF eq wf, of maxBytes ta e hs] fit assms by (simp add: r)
  then show ?thesis using eq wf fit r by blast
qed

lemma inspect_loop_sound:
  "inspect_loop ta input e maxBytes off hs = Inr (Complete n) \<Longrightarrow> \<exists>rs. hello_records ta input e maxBytes off hs n rs"
proof (induction "length input - off" arbitrary: off hs rule: less_induct)
  case less
  from inspect_loop_record[OF less.prems] obtain r post
    where r: "drop off input = encode_record r @ post" "wf_record r" "off + 5 + length (snd r) \<le> maxBytes"
      "off + 5 + length (snd r) \<le> length input"
      "after_record ta input e maxBytes (off + 5 + length (snd r)) (hs @ snd r) = Inr (Complete n)" by blast
  have nxt: "drop (off + 5 + length (snd r)) input = post"
    by (rule drop_after[OF r(1)]) (simp add: length_encode_record)
  from after_record_Complete[OF r(5)] show ?case
  proof
    assume "inspect_loop ta input e maxBytes (off + 5 + length (snd r)) (hs @ snd r) = Inr (Complete n)"
    moreover have "length input - (off + 5 + length (snd r)) < length input - off" using r(4) by linarith
    ultimately obtain rs
      where rs: "hello_records ta input e maxBytes (off + 5 + length (snd r)) (hs @ snd r) n rs"
      using less.hyps by blast
    then have "hello_records ta input e maxBytes off hs n (r # rs)"
      using r(1,2) nxt by (auto simp: hello_records_def length_encode_record)
    then show ?thesis by blast
  next
    assume *: "n = off + 5 + length (snd r) \<and> hello_message ta e (hs @ snd r)"
    then have "hello_records ta input e maxBytes off hs n [r]"
      using r by (auto simp: hello_records_def length_encode_record)
    then show ?thesis by blast
  qed
qed

lemma hello_records_offset: "hello_records ta input e maxBytes off hs n rs \<Longrightarrow> off \<le> length input"
proof -
  assume a: "hello_records ta input e maxBytes off hs n rs"
  then have "drop off input \<noteq> []"
    by (cases rs) (auto simp: hello_records_def encode_record_def)
  then show ?thesis by simp
qed

text \<open>The buffer cut to its first \<open>k\<close> bytes: complete from \<open>n\<close> on, incomplete before.\<close>

lemma inspect_loop_cut:
  assumes "hello_records ta input e maxBytes off hs n rs" "off \<le> k" "length hs \<le> off"
  shows "inspect_loop ta (take k input) e maxBytes off hs = Inr (if n \<le> k then Complete n else Incomplete)"
  using assms
proof (induction rs arbitrary: off hs)
  case (Cons r rs)
  from Cons.prems(1) obtain post where post: "drop off input = encode_record r @ encode_records rs @ post"
    and wf: "wf_record r" and n: "n = off + (5 + length (snd r)) + length (encode_records rs)" "n \<le> maxBytes"
    and msg: "hello_message ta e ((hs @ snd r) @ concat (map snd rs))"
    by (auto simp: hello_records_def length_encode_record)
  have off: "off \<le> length input" by (rule hello_records_offset[OF Cons.prems(1)])
  have cut: "drop off (take k input) = take (k - off) (encode_record r @ encode_records rs @ post)"
    using post by (simp add: drop_take)
  show ?case
  proof (cases "k - off < length (encode_record r)")
    case True
    then have "drop off (take k input) = take (k - off) (encode_record r)" using cut by simp
    from inspect_partial_record[OF this True wf] n Cons.prems(2) off True show ?thesis
      by (simp add: length_encode_record)
  next
    case False
    then have eq: "drop off (take k input) = encode_record r @ take (k - off - length (encode_record r)) (encode_records rs @ post)"
      using cut by simp
    define off' where "off' = off + 5 + length (snd r)"
    have k: "off' \<le> k" using False Cons.prems(2) by (simp add: off'_def length_encode_record)
    have step: "inspect_loop ta (take k input) e maxBytes off hs = after_record ta (take k input) e maxBytes off' (hs @ snd r)"
      unfolding off'_def using Cons.prems(2) off n by (intro inspect_record[OF eq wf]) simp_all
    have hs: "length (hs @ snd r) \<le> off'" using Cons.prems(3) by (simp add: off'_def)
    show ?thesis
    proof (cases "rs = []")
      case True
      have "after_record ta (take k input) e maxBytes off' (hs @ snd r) = Inr (Complete off')"
        using msg True hs n by (intro after_record_complete) (simp_all add: off'_def)
      then show ?thesis using step k n True by (simp add: off'_def)
    next
      case False
      then obtain r' rs' where rs: "rs = r' # rs'" by (cases rs) auto
      have "0 < length (snd r')" using Cons.prems(1) by (auto simp: rs hello_records_def wf_record_def)
      moreover have "length (concat (map snd rs)) \<le> length (encode_records rs)"
        by (induction rs) (simp_all add: length_encode_record)
      ultimately have "after_record ta (take k input) e maxBytes off' (hs @ snd r) =
          inspect_loop ta (take k input) e maxBytes off' (hs @ snd r)"
        using hs n by (intro after_record_prefix[OF msg]) (auto simp: rs off'_def)
      moreover have "hello_records ta input e maxBytes off' (hs @ snd r) n rs"
        using Cons.prems(1) False drop_after[OF post, of off'] msg n
        by (auto simp: hello_records_def length_encode_record off'_def)
      ultimately show ?thesis using step Cons.IH[OF _ k hs] by simp
    qed
  qed
qed (simp add: hello_records_def)

lemma inspect_loop_Complete:
  "length hs \<le> off \<Longrightarrow> inspect_loop ta input e maxBytes off hs = Inr (Complete n) \<longleftrightarrow>
     (\<exists>rs. hello_records ta input e maxBytes off hs n rs)"
proof
  assume *: "length hs \<le> off" "\<exists>rs. hello_records ta input e maxBytes off hs n rs"
  then obtain rs where rs: "hello_records ta input e maxBytes off hs n rs" by blast
  then obtain post where post: "drop off input = encode_records rs @ post" "n = off + length (encode_records rs)"
    by (auto simp: hello_records_def)
  have "length (drop off input) = length (encode_records rs) + length post" unfolding post by simp
  then have "n \<le> length input" using post(2) hello_records_offset[OF rs] by simp
  with inspect_loop_cut[OF rs, of "length input"] *(1) hello_records_offset[OF rs]
  show "inspect_loop ta input e maxBytes off hs = Inr (Complete n)" by simp
qed (rule inspect_loop_sound)

lemma inspectTls_Complete:
  "inspectTlsClientHello ta input host maxBytes = Inr (Complete n) \<longleftrightarrow>
     is_safe_integer maxBytes \<and> 256 \<le> maxBytes \<and> int (length input) \<le> maxBytes \<and>
     (\<exists>h rs. normalizeHostname ta host = Inr h \<and> hello_records ta input h (nat maxBytes) 0 [] n rs)"
  by (auto simp: inspectTlsClientHello_def inspect_loop_Complete split: sum.splits)

text \<open>No computation of the inspection reads outside its buffer.\<close>

definition no_range_error :: "(tls_failure, 'a) res \<Rightarrow> bool" where
  "no_range_error m \<longleftrightarrow> m \<noteq> Inl OutOfRange"

lemma no_range_simps [simp]:
  "no_range_error (Inr x)" "no_range_error (Inl (TlsError c))" "no_range_error (tls_require b c)"
  "no_range_error (requireBytes buf off n)"
  by (simp_all add: no_range_error_def tls_require_def requireBytes_def)

lemma no_range_bind: "no_range_error m \<Longrightarrow> (\<And>x. m = Inr x \<Longrightarrow> no_range_error (f x)) \<Longrightarrow> no_range_error (rbind m f)"
  by (cases m) (auto simp: no_range_error_def)

lemma no_range_read: "off + 2 \<le> length buf \<Longrightarrow> no_range_error (readUInt16BE buf off)"
  by (simp add: readUInt16BE_def readUIntBE_def no_range_error_def)

lemma no_range_name: "no_range_error (parseSingleServerName ta ext)"
  unfolding parseSingleServerName_def Let_def
  by (intro no_range_bind no_range_read) (auto simp: tls_require_Inr split: sum.split)

lemma no_range_extensions: "no_range_error (extensions_loop ta hello fin off sni)"
proof (induction "fin - off" arbitrary: off sni rule: less_induct)
  case less
  show ?case
  proof (cases "off < fin")
    case True
    have IH: "no_range_error (extensions_loop ta hello fin (off + 4 + n) sni')" for n sni'
      using True by (intro less.hyps) simp
    show ?thesis
      unfolding extensions_loop.simps[of ta hello fin off sni] Let_def
      by (auto simp: requireBytes_Inr IH intro!: no_range_bind no_range_read no_range_name)
  qed (simp add: extensions_loop.simps)
qed

lemma no_range_hello: "no_range_error (validateClientHello ta hello e)"
  unfolding validateClientHello_def Let_def
  by (intro no_range_bind no_range_read) (auto simp: requireBytes_Inr no_range_extensions split: option.split)

lemma no_range_loop: "no_range_error (inspect_loop ta input e maxBytes off hs)"
proof (induction "length input - off" arbitrary: off hs rule: less_induct)
  case less
  have read3: "no_range_error (readUIntBE m 1 3)" if "\<not> length m < 4" for m
    using that by (simp add: readUIntBE_def no_range_error_def)
  have IH: "no_range_error (inspect_loop ta input e maxBytes (off + 5 + n) hs')"
    if "\<not> int (length input) - int off < 5" for n hs'
    using that by (intro less.hyps) simp
  show ?case
    unfolding inspect_loop.simps[of ta input e maxBytes off hs] Let_def
    by (auto intro!: no_range_bind no_range_read no_range_hello read3 IH
      simp del: length_append One_nat_def)
qed

definition sample_hello :: client_hello where
  "sample_hello = \<lparr>ch_version = 771, ch_random = replicate 32 7, ch_session_id = [], ch_cipher_suites = [19, 1],
     ch_compression = [0], ch_extensions = [(43, [2, 3, 4]), (0, server_name_ext (map (of_nat \<circ> code) ''nodejs.org''))]\<rparr>"

definition sample_stream :: "byte list" where
  "sample_stream = (let h = encode_hello sample_hello; m = CLIENT_HELLO # be24 (length h) @ h
     in encode_record (769, take 20 m) @ encode_record (769, drop 20 m))"

lemma sample_complete: "inspectTlsClientHello id sample_stream ''nodejs.org'' 65536 = Inr (Complete 83)"
  by code_simp

section \<open>Properties of the inspection\<close>

text \<open>C32. The inspection reports a complete ClientHello of \<open>n\<close> bytes exactly when the limit is an
  integer of at least 256 that the buffer respects, the expected host normalises to some \<open>h\<close>, and
  the first \<open>n\<close> bytes are handshake records of the allowed versions and sizes whose payloads
  together are one ClientHello message, no more and no less, that encodes a well-formed hello
  without an encrypted_client_hello extension and with exactly one server_name extension, whose
  single DNS name normalises to \<open>h\<close>.\<close>

theorem inspectTlsClientHello_exact:
  "inspectTlsClientHello ta input host maxBytes = Inr (Complete n) \<longleftrightarrow>
     is_safe_integer maxBytes \<and> 256 \<le> maxBytes \<and> int (length input) \<le> maxBytes \<and>
     (\<exists>h rs. normalizeHostname ta host = Inr h \<and> hello_records ta input h (nat maxBytes) 0 [] n rs)"
  by (rule inspectTls_Complete)

text \<open>The verdict does not depend on how TCP cuts the stream: when a buffer holds a complete
  ClientHello of \<open>n\<close> bytes, every shorter beginning of it is reported incomplete, never an error, and
  every beginning of at least \<open>n\<close> bytes is reported complete at \<open>n\<close>.\<close>

theorem inspectTlsClientHello_fragmentation:
  assumes "inspectTlsClientHello ta input host maxBytes = Inr (Complete n)"
  shows "inspectTlsClientHello ta (take k input) host maxBytes = Inr (if n \<le> k then Complete n else Incomplete)"
proof -
  from assms obtain h rs where *: "is_safe_integer maxBytes" "256 \<le> maxBytes" "int (length input) \<le> maxBytes"
    "normalizeHostname ta host = Inr h" "hello_records ta input h (nat maxBytes) 0 [] n rs"
    unfolding inspectTls_Complete by blast
  from inspect_loop_cut[OF *(5)] *(1-4) show ?thesis
    by (simp add: inspectTlsClientHello_def)
qed

theorem inspectTlsClientHello_fragmentation_witness:
  "inspectTlsClientHello id (take 40 sample_stream) ''nodejs.org'' 65536 = Inr Incomplete"
  using inspectTlsClientHello_fragmentation[OF sample_complete, of 40] by simp

text \<open>Every index and length the inspection reads with is checked first: whatever bytes the client
  sends, no read leaves the buffer, so the only failures are the ones the code names.\<close>

theorem inspectTlsClientHello_no_range_error:
  "inspectTlsClientHello ta input host maxBytes \<noteq> Inl OutOfRange"
  using no_range_loop by (auto simp: inspectTlsClientHello_def no_range_error_def split: sum.split)

end
