(* ===== verification/Admission.thy ===== *)
theory Admission
  imports Prelude
begin

text \<open>
  Bounded admission: \<open>src/control/terminal-admission.ts\<close>, which bounds the open terminals per
  workspace and in all, and the interface it shares with the connection slots of the egress
  proxy (\<open>EgressProxy\<close>). The release callback that \<open>acquire\<close> returns is a closure over its own
  \<open>released\<close> flag; here it is a ticket, a number under which the state keeps that flag.
\<close>

section \<open>The interface\<close>

text \<open>
  A client acquires a ticket for a key and may release it any number of times. \<open>held\<close> is the set of
  tickets that count against the limit, \<open>open_for\<close> the capacity test of the code.
\<close>

locale bounded_admission =
  fixes initial :: 's
    and acquire :: "'k \<Rightarrow> 's \<Rightarrow> (nat \<times> 's) option"
    and release :: "nat \<Rightarrow> 's \<Rightarrow> 's"
    and held :: "'s \<Rightarrow> nat set"
    and ok :: "'s \<Rightarrow> bool"
    and limit :: nat
  assumes ok_initial: "ok initial"
    and held_initial: "held initial = {}"
    and ok_held: "ok s \<Longrightarrow> finite (held s) \<and> card (held s) \<le> limit"
    and acquire_ok: "ok s \<Longrightarrow> acquire k s = Some (t, s') \<Longrightarrow> ok s' \<and> t \<notin> held s \<and> held s' = insert t (held s)"
    and release_ok: "ok s \<Longrightarrow> ok (release t s) \<and> held (release t s) = held s - {t}"
begin

text \<open>A client: a list of operations; a refused acquisition changes nothing.\<close>

fun run :: "('k + nat) list \<Rightarrow> 's \<Rightarrow> 's" where
  "run [] s = s"
| "run (Inl k # ops) s = (case acquire k s of None \<Rightarrow> run ops s | Some (t, s') \<Rightarrow> run ops s')"
| "run (Inr t # ops) s = run ops (release t s)"

lemma run_ok: "ok s \<Longrightarrow> ok (run ops s)"
  by (induction ops s rule: run.induct) (auto simp: acquire_ok release_ok split: option.splits)

lemma run_bounded: "card (held (run ops initial)) \<le> limit"
  using ok_held run_ok[OF ok_initial] by blast

lemma release_twice: "ok s \<Longrightarrow> held (release t (release t s)) = held (release t s)"
  using release_ok[of s t] release_ok[of "release t s" t] by simp

text \<open>Releasing every ticket that is held, in any order and with repetitions, empties the state.\<close>

lemma release_all: "ok s \<Longrightarrow> held s \<subseteq> set ts \<Longrightarrow> held (run (map Inr ts) s) = {}"
proof (induction ts arbitrary: s)
  case (Cons t ts)
  have "held (release t s) \<subseteq> set ts" using release_ok[OF Cons.prems(1), of t] Cons.prems(2) by auto
  then show ?case using Cons.IH[of "release t s"] release_ok[OF Cons.prems(1), of t] by simp
qed simp

end


section \<open>Open terminals\<close>

record terminal_admission =
  tm_active :: int
  tm_byWorkspace :: "string \<rightharpoonup> int"
  tm_tickets :: "(string \<times> bool) list"

definition new_TerminalAdmission :: terminal_admission where
  "new_TerminalAdmission = \<lparr>tm_active = 0, tm_byWorkspace = Map.empty, tm_tickets = []\<rparr>"

definition tm_acquire ::
  "int \<Rightarrow> int \<Rightarrow> string \<Rightarrow> terminal_admission \<Rightarrow> (nat \<times> terminal_admission) option" where
  "tm_acquire perWorkspaceLimit globalLimit workspaceId s =
     (let workspaceCount = (case tm_byWorkspace s workspaceId of None \<Rightarrow> 0 | Some n \<Rightarrow> n)
      in if perWorkspaceLimit \<le> workspaceCount \<or> globalLimit \<le> tm_active s then None
         else Some (length (tm_tickets s),
           \<lparr>tm_active = tm_active s + 1,
            tm_byWorkspace = (tm_byWorkspace s)(workspaceId \<mapsto> workspaceCount + 1),
            tm_tickets = tm_tickets s @ [(workspaceId, False)]\<rparr>))"

definition tm_release :: "nat \<Rightarrow> terminal_admission \<Rightarrow> terminal_admission" where
  "tm_release t s =
     (if length (tm_tickets s) \<le> t then s
      else let (workspaceId, released) = tm_tickets s ! t
      in if released then s
         else let remaining = (case tm_byWorkspace s workspaceId of None \<Rightarrow> 1 | Some n \<Rightarrow> n) - 1
         in \<lparr>tm_active = tm_active s - 1,
             tm_byWorkspace = (if remaining = 0 then (tm_byWorkspace s)(workspaceId := None)
                               else (tm_byWorkspace s)(workspaceId \<mapsto> remaining)),
             tm_tickets = (tm_tickets s)[t := (workspaceId, True)]\<rparr>)"

text \<open>Tickets that have not been released, all of them and those of one workspace.\<close>

definition tm_held :: "terminal_admission \<Rightarrow> nat set" where
  "tm_held s = {t. t < length (tm_tickets s) \<and> \<not> snd (tm_tickets s ! t)}"

definition tm_held_by :: "string \<Rightarrow> terminal_admission \<Rightarrow> nat set" where
  "tm_held_by w s = {t. t < length (tm_tickets s) \<and> tm_tickets s ! t = (w, False)}"

text \<open>The counters count the tickets, and no count passes its limit.\<close>

definition tm_ok :: "int \<Rightarrow> int \<Rightarrow> terminal_admission \<Rightarrow> bool" where
  "tm_ok per glob s \<longleftrightarrow>
     tm_active s = int (card (tm_held s)) \<and> tm_active s \<le> max 0 glob
     \<and> (\<forall>w. tm_byWorkspace s w = (if tm_held_by w s = {} then None else Some (int (card (tm_held_by w s))))
           \<and> int (card (tm_held_by w s)) \<le> max 0 per)"

lemma tm_finite [simp]: "finite (tm_held s)" "finite (tm_held_by w s)"
  by (simp_all add: tm_held_def tm_held_by_def)

lemma tm_count: "tm_ok per glob s \<Longrightarrow>
    (case tm_byWorkspace s w of None \<Rightarrow> d | Some n \<Rightarrow> n) = (if tm_held_by w s = {} then d else int (card (tm_held_by w s)))"
  by (simp add: tm_ok_def)

lemma tm_acquire_ok:
  assumes "tm_ok per glob s" "tm_acquire per glob w s = Some (t, s')"
  shows "tm_ok per glob s' \<and> t \<notin> tm_held s \<and> tm_held s' = insert t (tm_held s)
    \<and> tm_held_by w s' = insert t (tm_held_by w s) \<and> t \<notin> tm_held_by w s"
proof -
  have count: "(case tm_byWorkspace s w of None \<Rightarrow> 0 | Some n \<Rightarrow> n) = int (card (tm_held_by w s))"
    using tm_count[OF assms(1), where w = w and d = 0] by simp
  have t: "t = length (tm_tickets s)" "int (card (tm_held_by w s)) < per" "tm_active s < glob"
    and s': "s' = \<lparr>tm_active = tm_active s + 1, tm_byWorkspace = (tm_byWorkspace s)(w \<mapsto> int (card (tm_held_by w s)) + 1),
            tm_tickets = tm_tickets s @ [(w, False)]\<rparr>"
    using assms(2) unfolding tm_acquire_def Let_def count by (auto split: if_splits)
  have fresh: "t \<notin> tm_held s" "t \<notin> tm_held_by v s" for v by (auto simp: t tm_held_def tm_held_by_def)
  have held: "tm_held s' = insert t (tm_held s)"
    by (auto simp: s' t tm_held_def nth_append less_Suc_eq)
  have each: "tm_held_by v s' = (if v = w then insert t (tm_held_by v s) else tm_held_by v s)" for v
    by (auto simp: s' t tm_held_by_def nth_append less_Suc_eq)
  have "tm_ok per glob s'"
  proof -
    have sel: "tm_active s' = tm_active s + 1"
      "tm_byWorkspace s' = (tm_byWorkspace s)(w \<mapsto> int (card (tm_held_by w s)) + 1)" by (simp_all add: s')
    have "card (insert t (tm_held s)) = Suc (card (tm_held s))" "card (insert t (tm_held_by w s)) = Suc (card (tm_held_by w s))"
      using fresh by simp_all
    then show ?thesis
      unfolding tm_ok_def held each sel using t assms(1) by (auto simp: tm_ok_def)
  qed
  then show ?thesis using fresh held each by simp
qed

lemma tm_release_ok:
  assumes "tm_ok per glob s"
  shows "tm_ok per glob (tm_release t s) \<and> tm_held (tm_release t s) = tm_held s - {t}
    \<and> tm_held_by w (tm_release t s) = tm_held_by w s - {t}"
proof (cases "t \<in> tm_held s")
  case False
  then have "tm_release t s = s" by (auto simp: tm_release_def tm_held_def split: prod.split)
  moreover have "t \<notin> tm_held_by w s" using False by (auto simp: tm_held_def tm_held_by_def)
  ultimately show ?thesis using assms False by simp
next
  case True
  then obtain v where v: "t < length (tm_tickets s)" "tm_tickets s ! t = (v, False)"
    by (cases "tm_tickets s ! t") (auto simp: tm_held_def)
  then have mem: "t \<in> tm_held_by v s" by (simp add: tm_held_by_def)
  then have count: "(case tm_byWorkspace s v of None \<Rightarrow> 1 | Some n \<Rightarrow> n) = int (card (tm_held_by v s))"
    using tm_count[OF assms, where w = v and d = 1] by auto
  have s': "tm_release t s = \<lparr>tm_active = tm_active s - 1,
      tm_byWorkspace = (if int (card (tm_held_by v s)) - 1 = 0 then (tm_byWorkspace s)(v := None)
                        else (tm_byWorkspace s)(v \<mapsto> int (card (tm_held_by v s)) - 1)),
      tm_tickets = (tm_tickets s)[t := (v, True)]\<rparr>"
    unfolding tm_release_def Let_def using v count by simp
  have held: "tm_held (tm_release t s) = tm_held s - {t}"
    using v by (auto simp: s' tm_held_def nth_list_update)
  have each: "tm_held_by u (tm_release t s) = tm_held_by u s - {t}" for u
    using v by (auto simp: s' tm_held_by_def nth_list_update split: if_splits)
  have card: "card (tm_held s - {t}) = card (tm_held s) - 1" "0 < card (tm_held s)"
    "card (tm_held_by v s - {t}) = card (tm_held_by v s) - 1" "0 < card (tm_held_by v s)"
    using True mem by (auto simp: card_gt_0_iff)
  have other: "u \<noteq> v \<Longrightarrow> tm_held_by u s - {t} = tm_held_by u s" for u
    using v by (auto simp: tm_held_by_def)
  have "tm_ok per glob (tm_release t s)"
    unfolding tm_ok_def held each
  proof (intro conjI allI)
    show "tm_active (tm_release t s) = int (card (tm_held s - {t}))"
      using assms card by (simp add: s' tm_ok_def of_nat_diff)
    show "tm_active (tm_release t s) \<le> max 0 glob" using assms by (simp add: s' tm_ok_def)
    fix u
    show "int (card (tm_held_by u s - {t})) \<le> max 0 per"
    proof -
      have "card (tm_held_by u s - {t}) \<le> card (tm_held_by u s)" by (rule card_mono) auto
      moreover have "int (card (tm_held_by u s)) \<le> max 0 per" using assms by (simp add: tm_ok_def)
      ultimately show ?thesis by linarith
    qed
    show "tm_byWorkspace (tm_release t s) u =
        (if tm_held_by u s - {t} = {} then None else Some (int (card (tm_held_by u s - {t}))))"
    proof (cases "u = v")
      case True
      have "tm_held_by v s - {t} = {} \<longleftrightarrow> card (tm_held_by v s) = 1"
        using card(3,4) by (metis card_0_eq finite_Diff tm_finite(2) One_nat_def Suc_pred diff_Suc_1)
      then show ?thesis using True card(3,4) by (auto simp: s' of_nat_diff)
    next
      case False
      then show ?thesis using assms other[OF False] by (simp add: s' tm_ok_def)
    qed
  qed
  with held each show ?thesis by blast
qed

lemma tm_ok_initial: "tm_ok per glob new_TerminalAdmission"
  by (simp add: tm_ok_def new_TerminalAdmission_def tm_held_def tm_held_by_def)

interpretation terminals: bounded_admission new_TerminalAdmission "tm_acquire per glob" tm_release tm_held
    "tm_ok per glob" "nat (max 0 glob)" for per glob
proof unfold_locales
  show "tm_ok per glob new_TerminalAdmission" by (rule tm_ok_initial)
  show "tm_held new_TerminalAdmission = {}" by (simp add: tm_held_def new_TerminalAdmission_def)
  show "tm_ok per glob s \<Longrightarrow> finite (tm_held s) \<and> card (tm_held s) \<le> nat (max 0 glob)" for s
    by (simp add: tm_ok_def le_nat_iff)
qed (simp_all add: tm_acquire_ok tm_release_ok)


text \<open>A run of the terminal endpoint: sockets that open (\<open>Inl\<close> the workspace) and close (\<open>Inr\<close> the ticket).\<close>

fun tm_run :: "int \<Rightarrow> int \<Rightarrow> (string + nat) list \<Rightarrow> terminal_admission \<Rightarrow> terminal_admission" where
  "tm_run per glob [] s = s"
| "tm_run per glob (Inl w # ops) s =
     (case tm_acquire per glob w s of None \<Rightarrow> tm_run per glob ops s | Some (t, s') \<Rightarrow> tm_run per glob ops s')"
| "tm_run per glob (Inr t # ops) s = tm_run per glob ops (tm_release t s)"

lemma tm_run_locale: "tm_run per glob ops s = terminals.run per glob ops s"
  by (induction per glob ops s rule: tm_run.induct) (auto split: option.split)

lemma tm_acquire_None:
  "tm_ok per glob s \<Longrightarrow> tm_acquire per glob w s = None \<longleftrightarrow>
     per \<le> int (card (tm_held_by w s)) \<or> glob \<le> int (card (tm_held s))"
  using tm_count[where per = per and glob = glob and s = s and w = w and d = 0] by (simp add: tm_acquire_def Let_def tm_ok_def)


section \<open>Properties\<close>

text \<open>Whatever terminals open and close, in any order, with refusals and repeated closes: at no
  time are more terminals open than the global limit, nor more on one workspace than its limit,
  and a further one is refused exactly when one of the two limits is reached.\<close>

theorem terminal_admission_exact:
  "let s = tm_run per glob ops new_TerminalAdmission
   in card (tm_held s) \<le> nat (max 0 glob) \<and> card (tm_held_by w s) \<le> nat (max 0 per)
      \<and> (tm_acquire per glob w s = None \<longleftrightarrow>
           per \<le> int (card (tm_held_by w s)) \<or> glob \<le> int (card (tm_held s)))"
proof -
  have ok: "tm_ok per glob (tm_run per glob ops new_TerminalAdmission)"
    unfolding tm_run_locale by (rule terminals.run_ok[OF tm_ok_initial])
  have "card (tm_held (tm_run per glob ops new_TerminalAdmission)) \<le> nat (max 0 glob)"
    unfolding tm_run_locale by (rule terminals.run_bounded)
  moreover have "int (card (tm_held_by w (tm_run per glob ops new_TerminalAdmission))) \<le> max 0 per"
    using ok by (simp add: tm_ok_def)
  ultimately show ?thesis
    using tm_acquire_None[OF ok, of w] by (simp add: Let_def le_nat_iff)
qed

text \<open>C36. No capacity leaks: once every open terminal has been closed, at least once each and in any
  order, nothing is counted any more and a new terminal is admitted on every workspace.\<close>

theorem terminal_admission_drains:
  assumes "tm_held (tm_run per glob ops new_TerminalAdmission) \<subseteq> set ts" "0 < per" "0 < glob"
  shows "let s = tm_run per glob (map Inr ts) (tm_run per glob ops new_TerminalAdmission)
    in tm_held s = {} \<and> tm_active s = 0 \<and> tm_acquire per glob w s \<noteq> None"
proof -
  define s0 where "s0 = tm_run per glob ops new_TerminalAdmission"
  define s where "s = tm_run per glob (map Inr ts) s0"
  have ok0: "tm_ok per glob s0"
    unfolding s0_def tm_run_locale by (rule terminals.run_ok[OF tm_ok_initial])
  have ok: "tm_ok per glob s" unfolding s_def tm_run_locale by (rule terminals.run_ok[OF ok0])
  have empty: "tm_held s = {}"
    unfolding s_def tm_run_locale by (rule terminals.release_all[OF ok0]) (use assms(1) in \<open>simp add: s0_def\<close>)
  then have "tm_held_by w s = {}" by (auto simp: tm_held_def tm_held_by_def)
  with empty ok assms(2,3) tm_acquire_None[OF ok, of w] show ?thesis
    by (simp add: Let_def s_def[symmetric] s0_def[symmetric] tm_ok_def del: not_None_eq)
qed

theorem terminal_admission_drains_witness:
  "let s = tm_run 4 8 (map Inr [0, 1, 1]) (tm_run 4 8 [Inl ''a'', Inl ''b''] new_TerminalAdmission)
   in tm_held s = {} \<and> tm_active s = 0 \<and> tm_acquire 4 8 ''a'' s \<noteq> None"
proof (rule terminal_admission_drains)
  show "tm_held (tm_run 4 8 [Inl ''a'', Inl ''b''] new_TerminalAdmission) \<subseteq> set [0, 1, 1]"
    by (auto simp: new_TerminalAdmission_def tm_acquire_def tm_held_def)
qed simp_all

end
