(* ===== verification/EgressProxy.thy ===== *)
theory EgressProxy
  imports EgressTls Admission
begin

text \<open>
  \<open>src/agent/egress-proxy.ts\<close>: the forward proxy of a workspace. The limits and the connection
  slots of \<open>createEgressProxy\<close>, the header filters, and the two handlers, \<open>handleHttp\<close> for
  absolute-URL requests and \<open>handleConnect\<close> for tunnels.

  A handler is asynchronous; it is modelled as a function of everything it awaits: the reply of
  the resolver, the events of its sockets in the order they arrive, whether the deadline fired
  while it waited. Its result is the list of its outward actions in order, what it writes to the
  two sides and to the audit log. A handler whose events run out before it settles has not
  returned yet; its list is then the actions so far.

  Parameters: \<open>ta\<close> and the resolver as in \<open>EgressPolicy\<close>, and \<open>parse_url\<close>, the WHATWG \<open>URL\<close>
  parser of Node. Message texts and time stamps are left out; the reasons of audit events are kept.
\<close>

section \<open>Options, limits and errors\<close>

record proxy_options =
  po_allowedMethods :: "string list option"
  po_maxConcurrentConnections :: "int option"
  po_maxBytesPerConnection :: "int option"
  po_connectTimeoutMs :: "int option"
  po_idleTimeoutMs :: "int option"
  po_maxConnectionMs :: "int option"
  po_maxClientHelloBytes :: "int option"
  po_clientHelloTimeoutMs :: "int option"

record proxy_limits =
  pl_maxConcurrent :: int
  pl_maxBytes :: int
  pl_connectTimeoutMs :: int
  pl_idleTimeoutMs :: int
  pl_maxConnectionMs :: int
  pl_maxClientHelloBytes :: int
  pl_clientHelloTimeoutMs :: int
  pl_allowedMethods :: "string set"
  pl_requestTimeout :: int
  pl_headersTimeout :: int
  pl_keepAliveTimeout :: int

datatype proxy_config_failure = NotPositive string | HelloLimitTooSmall | InvalidMethod

definition positiveInteger :: "int \<Rightarrow> string \<Rightarrow> (proxy_config_failure, int) res" where
  "positiveInteger v name = (if \<not> is_safe_integer v \<or> v < 1 then Inl (NotPositive name) else Inr v)"

text \<open>\<open>toUpperCase\<close>; the two Latin-1 letters whose capital is not Latin-1 stay as they are.\<close>

definition char_upper :: "char \<Rightarrow> string" where
  "char_upper c =
     (if is_lower c \<or> (224 \<le> code c \<and> code c \<le> 254 \<and> code c \<noteq> 247) then [char_of (code c - 32)]
      else if code c = 223 then ''SS'' else [c])"

definition to_upper :: "string \<Rightarrow> string" where
  "to_upper s = concat (map char_upper s)"

definition normalizeMethod :: "string \<Rightarrow> (proxy_config_failure, string) res" where
  "normalizeMethod method =
     (let normalized = to_upper method
      in if \<not> full (plus (RCls is_upper)) normalized then Inl InvalidMethod else Inr normalized)"

definition createEgressProxy :: "proxy_options \<Rightarrow> (proxy_config_failure, proxy_limits) res" where
  "createEgressProxy opts =
     rbind (positiveInteger (option_or (po_maxConcurrentConnections opts) 32) ''maxConcurrentConnections'') (\<lambda>maxConcurrent.
     rbind (positiveInteger (option_or (po_maxBytesPerConnection opts) (128 * 1024 * 1024)) ''maxBytesPerConnection'') (\<lambda>maxBytes.
     rbind (positiveInteger (option_or (po_connectTimeoutMs opts) 10000) ''connectTimeoutMs'') (\<lambda>connectTimeoutMs.
     rbind (positiveInteger (option_or (po_idleTimeoutMs opts) 30000) ''idleTimeoutMs'') (\<lambda>idleTimeoutMs.
     rbind (positiveInteger (option_or (po_maxConnectionMs opts) (5 * 60000)) ''maxConnectionMs'') (\<lambda>maxConnectionMs.
     rbind (positiveInteger (option_or (po_maxClientHelloBytes opts) (64 * 1024)) ''maxClientHelloBytes'') (\<lambda>maxClientHelloBytes.
     if maxClientHelloBytes < 256 then Inl HelloLimitTooSmall
     else
     rbind (positiveInteger (option_or (po_clientHelloTimeoutMs opts) 5000) ''clientHelloTimeoutMs'') (\<lambda>clientHelloTimeoutMs.
     rbind (rmap normalizeMethod (option_or (po_allowedMethods opts) [''GET'', ''HEAD'', ''POST''])) (\<lambda>allowedMethods.
     Inr \<lparr>pl_maxConcurrent = maxConcurrent, pl_maxBytes = maxBytes, pl_connectTimeoutMs = connectTimeoutMs,
          pl_idleTimeoutMs = idleTimeoutMs, pl_maxConnectionMs = maxConnectionMs,
          pl_maxClientHelloBytes = maxClientHelloBytes, pl_clientHelloTimeoutMs = clientHelloTimeoutMs,
          pl_allowedMethods = set allowedMethods, pl_requestTimeout = idleTimeoutMs,
          pl_headersTimeout = min idleTimeoutMs 30000, pl_keepAliveTimeout = min idleTimeoutMs 5000\<rparr>))))))))"

datatype proxy_error = PolicyE egress_code | TlsE tls_code | PlainE string

definition tls_to_proxy_error :: "tls_failure \<Rightarrow> proxy_error" where
  "tls_to_proxy_error f =
     (case f of
        TlsError c \<Rightarrow> TlsE c
      | HostnameError c \<Rightarrow> PolicyE c
      | BadMaxBytes \<Rightarrow> PlainE ''maxBytes must be an integer of at least 256''
      | OutOfRange \<Rightarrow> PlainE ''The value of offset is out of range'')"

fun egress_code_text :: "egress_code \<Rightarrow> string" where
  "egress_code_text InvalidAuthority = ''invalid-authority''"
| "egress_code_text CredentialsForbidden = ''credentials-forbidden''"
| "egress_code_text IpLiteralForbidden = ''ip-literal-forbidden''"
| "egress_code_text HostnameForbidden = ''hostname-forbidden''"
| "egress_code_text PortForbidden = ''port-forbidden''"
| "egress_code_text DnsFailed = ''dns-failed''"
| "egress_code_text DnsEmpty = ''dns-empty''"
| "egress_code_text AddressForbidden = ''address-forbidden''"

fun tls_code_text :: "tls_code \<Rightarrow> string" where
  "tls_code_text NotTls = ''not-tls''"
| "tls_code_text MalformedClientHello = ''malformed-client-hello''"
| "tls_code_text ClientHelloTooLarge = ''client-hello-too-large''"
| "tls_code_text MissingSni = ''missing-sni''"
| "tls_code_text SniMismatch = ''sni-mismatch''"
| "tls_code_text EncryptedClientHelloForbidden = ''encrypted-client-hello-forbidden''"

definition statusFor :: "proxy_error \<Rightarrow> nat" where
  "statusFor error =
     (case error of
        PolicyE c \<Rightarrow> if c = DnsFailed then 502 else 403
      | TlsE c \<Rightarrow> 403
      | PlainE message \<Rightarrow> if includes_sub message ''byte-limit'' then 413 else 502)"

definition audit_reason :: "proxy_error \<Rightarrow> string" where
  "audit_reason error =
     (case error of PolicyE c \<Rightarrow> egress_code_text c | TlsE c \<Rightarrow> tls_code_text c | PlainE message \<Rightarrow> message)"


section \<open>Connection slots\<close>

text \<open>\<open>active\<close>, and the \<open>released\<close> flag of every callback handed out.\<close>

record proxy_slots =
  sl_active :: int
  sl_released :: "bool list"

definition no_slots :: proxy_slots where
  "no_slots = \<lparr>sl_active = 0, sl_released = []\<rparr>"

definition acquire_slot :: "int \<Rightarrow> proxy_slots \<Rightarrow> (nat \<times> proxy_slots) option" where
  "acquire_slot maxConcurrent s =
     (if maxConcurrent \<le> sl_active s then None
      else Some (length (sl_released s), \<lparr>sl_active = sl_active s + 1, sl_released = sl_released s @ [False]\<rparr>))"

definition release_slot :: "nat \<Rightarrow> proxy_slots \<Rightarrow> proxy_slots" where
  "release_slot t s =
     (if t < length (sl_released s) \<and> \<not> sl_released s ! t
      then \<lparr>sl_active = sl_active s - 1, sl_released = (sl_released s)[t := True]\<rparr> else s)"


section \<open>Headers\<close>

text \<open>
  Node gives header names in lower case and joins repeated values; the object is the list of
  its entries in order. Assigning to a property replaces its value in place or appends it.
\<close>

type_synonym headers = "(string \<times> string) list"

definition HOP_BY_HOP :: "string list" where
  "HOP_BY_HOP =
     [''connection'', ''keep-alive'', ''proxy-authenticate'', ''proxy-authorization'', ''proxy-connection'',
      ''te'', ''trailer'', ''transfer-encoding'', ''upgrade'']"

fun set_header :: "headers \<Rightarrow> string \<Rightarrow> string \<Rightarrow> headers" where
  "set_header [] k v = [(k, v)]"
| "set_header ((k', v') # hs) k v = (if k' = k then (k, v) # hs else (k', v') # set_header hs k v)"

definition connectionTokens :: "headers \<Rightarrow> string list" where
  "connectionTokens hs =
     map (\<lambda>v. to_lower (trim v)) (split_on CHR '','' (option_or (map_of hs ''connection'') ''''))"

definition createHost :: "approved_destination \<Rightarrow> string" where
  "createHost destination =
     (if ad_port destination = 80 then ad_hostname destination
      else ad_hostname destination @ '':'' @ nat_to_dec (nat (ad_port destination)))"

definition sanitizeHeaders :: "headers \<Rightarrow> approved_destination \<Rightarrow> headers" where
  "sanitizeHeaders hs destination =
     (let tokens = connectionTokens hs;
          sanitized = filter (\<lambda>(name, v). to_lower name \<notin> set HOP_BY_HOP \<and> to_lower name \<notin> set tokens
             \<and> to_lower name \<noteq> ''host'') hs
      in set_header (set_header sanitized ''host'' (createHost destination)) ''via'' ''1.1 bloom-egress'')"

definition sanitizeResponseHeaders :: "headers \<Rightarrow> headers" where
  "sanitizeResponseHeaders hs =
     (let tokens = connectionTokens hs;
          sanitized = filter (\<lambda>(name, v). to_lower name \<notin> set HOP_BY_HOP \<and> to_lower name \<notin> set tokens) hs
      in set_header sanitized ''via'' ''1.1 bloom-egress'')"

definition rejectProxyCredentials :: "headers \<Rightarrow> (proxy_error, unit) res" where
  "rejectProxyCredentials hs =
     (if map_of hs ''proxy-authorization'' \<noteq> None \<or> map_of hs ''authorization'' \<noteq> None \<or> map_of hs ''cookie'' \<noteq> None
      then Inl (PolicyE CredentialsForbidden) else Inr ())"

text \<open>\<open>/^(?:0|[1-9][0-9]*)$/u\<close>; \<open>Number\<close> rounds a value above \<open>2 ^ 53\<close>, but never to a safe integer.\<close>

definition content_length_rx :: rx where
  "content_length_rx = RAlt (chr CHR ''0'')
     (RSeq (RCls (\<lambda>c. 49 \<le> code c \<and> code c \<le> 57)) (RStar (RCls is_digit)))"

definition parseContentLength :: "string option \<Rightarrow> (proxy_error, int option) res" where
  "parseContentLength v =
     (case v of
        None \<Rightarrow> Inr None
      | Some s \<Rightarrow>
          if \<not> full content_length_rx s then Inl (PlainE ''invalid-content-length'')
          else let parsed = int (dec_to_nat s)
               in if \<not> is_safe_integer parsed then Inl (PlainE ''invalid-content-length'') else Inr (Some parsed))"


section \<open>Actions\<close>

record upstream_request =
  ur_host :: string
  ur_family :: nat
  ur_port :: int
  ur_method :: "string option"
  ur_path :: string
  ur_headers :: headers

datatype proxy_action =
    ReplyStatus nat
  | ReplyEstablished
  | ReplyHead nat headers
  | ToClient "byte list"
  | ToUpstream "byte list"
  | HttpUpstream upstream_request
  | ConnectUpstream string int nat
  | AuditAllow egress_protocol string int string string
  | AuditClose egress_protocol string int int
  | AuditDeny egress_protocol string "string option" "int option"

text \<open>The bytes a run has passed on, in both directions.\<close>

fun delivered :: "proxy_action list \<Rightarrow> nat" where
  "delivered [] = 0"
| "delivered (ToClient bs # as) = length bs + delivered as"
| "delivered (ToUpstream bs # as) = length bs + delivered as"
| "delivered (_ # as) = delivered as"

text \<open>A new connection: a slot, or a refusal with its audit event.\<close>

definition admit :: "egress_protocol \<Rightarrow> int \<Rightarrow> proxy_slots \<Rightarrow> (nat option \<times> proxy_slots) \<times> proxy_action list" where
  "admit protocol maxConcurrent s =
     (case acquire_slot maxConcurrent s of
        None \<Rightarrow> ((None, s), [ReplyStatus 503, AuditDeny protocol ''concurrency-limit'' None None])
      | Some (t, s') \<Rightarrow> ((Some t, s'), []))"


section \<open>Receiving the ClientHello\<close>

datatype client_event = Data "byte list" | EndEv | CloseEv | ErrorEv string | TimerEv

record hello_receiver =
  hr_buffered :: "byte list"
  hr_settled :: "(proxy_error, byte list) res option"

definition hello_event ::
  "(string \<Rightarrow> string) \<Rightarrow> string \<Rightarrow> int \<Rightarrow> client_event \<Rightarrow> hello_receiver \<Rightarrow> hello_receiver" where
  "hello_event ta host maxBytes ev r =
     (if hr_settled r \<noteq> None then r
      else case ev of
        Data chunk \<Rightarrow>
          (if maxBytes - int (length (hr_buffered r)) < int (length chunk)
           then r\<lparr>hr_settled := Some (Inl (TlsE ClientHelloTooLarge))\<rparr>
           else let buffered = hr_buffered r @ chunk
                in case inspectTlsClientHello ta buffered host maxBytes of
                     Inl e \<Rightarrow> \<lparr>hr_buffered = buffered, hr_settled = Some (Inl (tls_to_proxy_error e))\<rparr>
                   | Inr (Complete n) \<Rightarrow> \<lparr>hr_buffered = buffered, hr_settled = Some (Inr buffered)\<rparr>
                   | Inr Incomplete \<Rightarrow> \<lparr>hr_buffered = buffered, hr_settled = None\<rparr>)
      | EndEv \<Rightarrow> r\<lparr>hr_settled := Some (Inl (PlainE ''client-closed-before-client-hello''))\<rparr>
      | CloseEv \<Rightarrow> r\<lparr>hr_settled := Some (Inl (PlainE ''client-closed-before-client-hello''))\<rparr>
      | ErrorEv message \<Rightarrow> r\<lparr>hr_settled := Some (Inl (PlainE message))\<rparr>
      | TimerEv \<Rightarrow> r\<lparr>hr_settled := Some (Inl (PlainE ''client-hello-timeout''))\<rparr>)"

definition receiveTlsClientHello ::
  "(string \<Rightarrow> string) \<Rightarrow> byte list \<Rightarrow> string \<Rightarrow> int \<Rightarrow> client_event list \<Rightarrow> (proxy_error, byte list) res option" where
  "receiveTlsClientHello ta initial host maxBytes events =
     (if maxBytes < 256 \<or> maxBytes < int (length initial) then Some (Inl (TlsE ClientHelloTooLarge))
      else case inspectTlsClientHello ta initial host maxBytes of
        Inl e \<Rightarrow> Some (Inl (tls_to_proxy_error e))
      | Inr (Complete n) \<Rightarrow> Some (Inr initial)
      | Inr Incomplete \<Rightarrow>
          hr_settled (fold (hello_event ta host maxBytes) events \<lparr>hr_buffered = initial, hr_settled = None\<rparr>))"


section \<open>Tunnels\<close>

datatype connect_outcome = ConnectPending | ConnectFailed string | Connected

datatype tunnel_event = FromClient "byte list" | FromUpstream "byte list" | TunnelClosed | TunnelFailed string | TunnelDeadline

text \<open>
  The meter runs before the pipe on every chunk; when the count passes the limit both sockets
  are destroyed, so the chunk is not passed on and the wait ends with their error.
\<close>

fun tunnel_loop :: "int \<Rightarrow> int \<Rightarrow> tunnel_event list \<Rightarrow> proxy_action list \<times> (proxy_error, int) res option" where
  "tunnel_loop maxBytes bytes [] = ([], None)"
| "tunnel_loop maxBytes bytes (FromClient chunk # evs) =
     (let bytes' = bytes + int (length chunk)
      in if maxBytes < bytes' then ([], Some (Inl (PlainE ''tunnel-byte-limit'')))
         else apfst ((#) (ToUpstream chunk)) (tunnel_loop maxBytes bytes' evs))"
| "tunnel_loop maxBytes bytes (FromUpstream chunk # evs) =
     (let bytes' = bytes + int (length chunk)
      in if maxBytes < bytes' then ([], Some (Inl (PlainE ''tunnel-byte-limit'')))
         else apfst ((#) (ToClient chunk)) (tunnel_loop maxBytes bytes' evs))"
| "tunnel_loop maxBytes bytes (TunnelClosed # evs) = ([], Some (Inr bytes))"
| "tunnel_loop maxBytes bytes (TunnelFailed message # evs) = ([], Some (Inl (PlainE message)))"
| "tunnel_loop maxBytes bytes (TunnelDeadline # evs) = ([], Some (Inl (PlainE ''connection-deadline'')))"

record connect_env =
  ce_headers :: headers
  ce_url :: "string option"
  ce_head :: "byte list"
  ce_deadline_in_approve :: bool
  ce_client_destroyed :: bool
  ce_client_events :: "client_event list"
  ce_connect :: connect_outcome
  ce_tunnel :: "tunnel_event list"

definition connect_failed ::
  "bool \<Rightarrow> bool \<Rightarrow> proxy_error \<Rightarrow> string option \<Rightarrow> int option \<Rightarrow> proxy_action list" where
  "connect_failed destroyed tunnelAccepted error hostname port =
     (if destroyed \<or> tunnelAccepted then [] else [ReplyStatus (statusFor error)])
     @ [AuditDeny CONNECT (audit_reason error) hostname port]"

definition run_tunnel :: "int \<Rightarrow> byte list \<Rightarrow> tunnel_event list \<Rightarrow> string \<Rightarrow> int \<Rightarrow> proxy_action list" where
  "run_tunnel maxBytes clientHello evs hostname port =
     (case tunnel_loop maxBytes (int (length clientHello)) evs of
        (acts, None) \<Rightarrow> ToUpstream clientHello # acts
      | (acts, Some (Inr bytes)) \<Rightarrow> ToUpstream clientHello # acts @ [AuditClose CONNECT hostname port bytes]
      | (acts, Some (Inl e)) \<Rightarrow> ToUpstream clientHello # acts @ connect_failed True True e (Some hostname) (Some port))"

definition handleConnect ::
  "(string \<Rightarrow> string) \<Rightarrow> (string \<Rightarrow> dns_reply) \<Rightarrow> egress_policy \<Rightarrow> proxy_limits \<Rightarrow> connect_env \<Rightarrow> proxy_action list" where
  "handleConnect ta dns pol limits env =
     (case rejectProxyCredentials (ce_headers env) of
        Inl e \<Rightarrow> connect_failed (ce_client_destroyed env) False e None None
      | Inr _ \<Rightarrow>
     (case parseProxyAuthority ta (option_or (ce_url env) '''') None of
        Inl c \<Rightarrow> connect_failed (ce_client_destroyed env) False (PolicyE c) None None
      | Inr (hostname, port) \<Rightarrow>
     (case approve ta dns pol hostname port CONNECT of
        Inl c \<Rightarrow> connect_failed (ce_client_destroyed env) False (PolicyE c) (Some hostname) (Some port)
      | Inr destination \<Rightarrow>
          if ce_deadline_in_approve env
          then connect_failed True False (PlainE ''connection-deadline'') (Some hostname) (Some port)
          else ReplyEstablished #
     (case receiveTlsClientHello ta (ce_head env) hostname
             (min (pl_maxClientHelloBytes limits) (pl_maxBytes limits)) (ce_client_events env) of
        None \<Rightarrow> []
      | Some (Inl e) \<Rightarrow> connect_failed (ce_client_destroyed env) True e (Some hostname) (Some port)
      | Some (Inr clientHello) \<Rightarrow>
          AuditAllow CONNECT hostname port (ra_address destination) ''policy-and-sni-approved'' #
          ConnectUpstream (ra_address destination) (ad_port destination) (ra_family destination) #
     (case ce_connect env of
        ConnectPending \<Rightarrow> []
      | ConnectFailed message \<Rightarrow> connect_failed (ce_client_destroyed env) True (PlainE message) (Some hostname) (Some port)
      | Connected \<Rightarrow> run_tunnel (pl_maxBytes limits) clientHello (ce_tunnel env) hostname port)))))"


section \<open>Plain HTTP\<close>

record url =
  url_protocol :: string
  url_username :: string
  url_password :: string
  url_hash :: string
  url_host :: string
  url_pathname :: string
  url_search :: string

definition createHttpUpstreamOptions ::
  "approved_destination \<Rightarrow> string option \<Rightarrow> headers \<Rightarrow> url \<Rightarrow> upstream_request" where
  "createHttpUpstreamOptions destination method hs u =
     \<lparr>ur_host = ra_address destination, ur_family = ra_family destination, ur_port = ad_port destination,
      ur_method = method, ur_path = url_pathname u @ url_search u, ur_headers = sanitizeHeaders hs destination\<rparr>"

datatype http_event =
    UpstreamHead nat headers | UpstreamData "byte list" | RequestData "byte list" | UpstreamError string
  | ResponseDone | HttpDeadline

text \<open>
  \<open>ht_piping\<close> holds while the upstream response is piped to the client. A destroyed stream emits no
  more data; \<open>ResponseDone\<close> is the \<open>finish\<close> or \<open>close\<close> event of the response.
\<close>

record http_transfer =
  ht_bytes :: int
  ht_transferError :: "proxy_error option"
  ht_headersSent :: bool
  ht_piping :: bool
  ht_settled :: "(proxy_error, unit) res option"
  ht_log :: "proxy_action list"

definition http_event_step :: "int \<Rightarrow> http_event \<Rightarrow> http_transfer \<Rightarrow> http_transfer" where
  "http_event_step maxBytes ev s =
     (if ht_settled s \<noteq> None then s
      else case ev of
        UpstreamHead status hs \<Rightarrow>
          (if ht_headersSent s then s
           else case parseContentLength (map_of hs ''content-length'') of
             Inl e \<Rightarrow> s\<lparr>ht_transferError := Some e, ht_headersSent := True, ht_log := ht_log s @ [ReplyStatus 502]\<rparr>
           | Inr responseLength \<Rightarrow>
               if (case responseLength of None \<Rightarrow> False | Some n \<Rightarrow> maxBytes < n + ht_bytes s)
               then s\<lparr>ht_transferError := Some (PlainE ''response-byte-limit''), ht_headersSent := True,
                       ht_log := ht_log s @ [ReplyStatus 413]\<rparr>
               else s\<lparr>ht_headersSent := True, ht_piping := True,
                       ht_log := ht_log s @ [ReplyHead status (sanitizeResponseHeaders hs)]\<rparr>)
      | UpstreamData chunk \<Rightarrow>
          (if \<not> ht_piping s then s
           else let bytes = ht_bytes s + int (length chunk)
           in if maxBytes < bytes
              then s\<lparr>ht_bytes := bytes, ht_transferError := Some (PlainE ''response-byte-limit''), ht_piping := False\<rparr>
              else s\<lparr>ht_bytes := bytes, ht_log := ht_log s @ [ToClient chunk]\<rparr>)
      | RequestData chunk \<Rightarrow>
          (let bytes = ht_bytes s + int (length chunk)
           in if maxBytes < bytes
              then s\<lparr>ht_bytes := bytes, ht_settled := Some (Inl (PlainE ''request-byte-limit''))\<rparr>
              else if ht_transferError s \<noteq> None then s\<lparr>ht_bytes := bytes\<rparr>
              else s\<lparr>ht_bytes := bytes, ht_log := ht_log s @ [ToUpstream chunk]\<rparr>)
      | UpstreamError message \<Rightarrow> s\<lparr>ht_settled := Some (Inl (PlainE message))\<rparr>
      | ResponseDone \<Rightarrow> s\<lparr>ht_settled := Some (Inr ())\<rparr>
      | HttpDeadline \<Rightarrow> s\<lparr>ht_settled := Some (Inl (PlainE ''connection-deadline''))\<rparr>)"

definition new_transfer :: http_transfer where
  "new_transfer = \<lparr>ht_bytes = 0, ht_transferError = None, ht_headersSent = False, ht_piping = False,
     ht_settled = None, ht_log = []\<rparr>"

record http_env =
  he_headers :: headers
  he_method :: "string option"
  he_url :: "string option"
  he_deadline_in_approve :: bool
  he_events :: "http_event list"

definition http_failed :: "bool \<Rightarrow> proxy_error \<Rightarrow> string option \<Rightarrow> int option \<Rightarrow> proxy_action list" where
  "http_failed headersSent error hostname port =
     (if headersSent then [] else [ReplyStatus (statusFor error)]) @ [AuditDeny HTTP (audit_reason error) hostname port]"

definition run_transfer :: "int \<Rightarrow> http_event list \<Rightarrow> string \<Rightarrow> int \<Rightarrow> proxy_action list" where
  "run_transfer maxBytes evs hostname port =
     (let s = fold (http_event_step maxBytes) evs new_transfer
      in ht_log s @
         (case ht_settled s of
            None \<Rightarrow> []
          | Some (Inl e) \<Rightarrow> http_failed (ht_headersSent s) e (Some hostname) (Some port)
          | Some (Inr _) \<Rightarrow>
              (case ht_transferError s of
                 Some e \<Rightarrow> http_failed (ht_headersSent s) e (Some hostname) (Some port)
               | None \<Rightarrow> [AuditClose HTTP hostname port (ht_bytes s)])))"

text \<open>The checks before the first await: the URL and its authority, or the error they throw.\<close>

definition http_target ::
  "(string \<Rightarrow> string) \<Rightarrow> (string \<Rightarrow> url option) \<Rightarrow> proxy_limits \<Rightarrow> http_env \<Rightarrow> (proxy_error, url \<times> string \<times> int) res" where
  "http_target ta parse_url limits env =
     rbind (rejectProxyCredentials (he_headers env)) (\<lambda>_.
     let method = to_upper (option_or (he_method env) '''')
     in if method \<notin> pl_allowedMethods limits then Inl (PolicyE InvalidAuthority)
     else case he_url env of
       None \<Rightarrow> Inl (PolicyE InvalidAuthority)
     | Some text \<Rightarrow>
         if \<not> starts_with (to_lower text) ''http://'' then Inl (PolicyE InvalidAuthority)
         else case parse_url text of
           None \<Rightarrow> Inl (PlainE ''Invalid URL'')
         | Some u \<Rightarrow>
             if url_protocol u \<noteq> ''http:'' \<or> url_username u \<noteq> '''' \<or> url_password u \<noteq> '''' \<or> url_hash u \<noteq> ''''
             then Inl (PolicyE CredentialsForbidden)
             else case parseProxyAuthority ta (url_host u) (Some 80) of
               Inl c \<Rightarrow> Inl (PolicyE c)
             | Inr (hostname, port) \<Rightarrow> Inr (u, hostname, port))"

definition handleHttp ::
  "(string \<Rightarrow> string) \<Rightarrow> (string \<Rightarrow> url option) \<Rightarrow> (string \<Rightarrow> dns_reply) \<Rightarrow> egress_policy \<Rightarrow> proxy_limits \<Rightarrow> http_env
    \<Rightarrow> proxy_action list" where
  "handleHttp ta parse_url dns pol limits env =
     (case http_target ta parse_url limits env of
        Inl e \<Rightarrow> http_failed False e None None
      | Inr (u, hostname, port) \<Rightarrow>
     (case approve ta dns pol hostname port HTTP of
        Inl c \<Rightarrow> http_failed False (PolicyE c) (Some hostname) (Some port)
      | Inr destination \<Rightarrow>
          AuditAllow HTTP hostname port (ra_address destination) ''policy-approved'' #
     (case parseContentLength (map_of (he_headers env) ''content-length'') of
        Inl e \<Rightarrow> http_failed False e (Some hostname) (Some port)
      | Inr contentLength \<Rightarrow>
          if (case contentLength of None \<Rightarrow> False | Some n \<Rightarrow> pl_maxBytes limits < n)
          then http_failed False (PlainE ''request-byte-limit'') (Some hostname) (Some port)
          else if he_deadline_in_approve env
          then http_failed False (PlainE ''connection-deadline'') (Some hostname) (Some port)
          else HttpUpstream (createHttpUpstreamOptions destination (he_method env) (he_headers env) u) #
            run_transfer (pl_maxBytes limits) (he_events env) hostname port)))"

section \<open>The slots are a bounded admission\<close>

definition slots_held :: "proxy_slots \<Rightarrow> nat set" where
  "slots_held s = {t. t < length (sl_released s) \<and> \<not> sl_released s ! t}"

definition slots_ok :: "int \<Rightarrow> proxy_slots \<Rightarrow> bool" where
  "slots_ok maxConcurrent s \<longleftrightarrow> sl_active s = int (card (slots_held s)) \<and> sl_active s \<le> max 0 maxConcurrent"

lemma slots_finite [simp]: "finite (slots_held s)"
  by (simp add: slots_held_def)

lemma acquire_slot_ok:
  assumes "slots_ok m s" "acquire_slot m s = Some (t, s')"
  shows "slots_ok m s' \<and> t \<notin> slots_held s \<and> slots_held s' = insert t (slots_held s)"
proof -
  have s': "t = length (sl_released s)" "s' = \<lparr>sl_active = sl_active s + 1, sl_released = sl_released s @ [False]\<rparr>"
    "sl_active s < m" using assms(2) by (auto simp: acquire_slot_def split: if_splits)
  have fresh: "t \<notin> slots_held s" by (simp add: slots_held_def s'(1))
  have held: "slots_held s' = insert t (slots_held s)"
    by (auto simp: slots_held_def s' nth_append less_Suc_eq)
  have "sl_active s' = sl_active s + 1" by (simp add: s')
  then show ?thesis using fresh held assms(1) s'(3) by (simp add: slots_ok_def)
qed

lemma release_slot_ok: "slots_ok m s \<Longrightarrow> slots_ok m (release_slot t s) \<and> slots_held (release_slot t s) = slots_held s - {t}"
proof (cases "t \<in> slots_held s")
  case True
  assume ok: "slots_ok m s"
  have t: "t < length (sl_released s)" "\<not> sl_released s ! t" using True by (simp_all add: slots_held_def)
  then have held: "slots_held (release_slot t s) = slots_held s - {t}"
    by (auto simp: slots_held_def release_slot_def nth_list_update)
  have "0 < card (slots_held s)" using True by (auto simp: card_gt_0_iff)
  moreover have "sl_active (release_slot t s) = sl_active s - 1" using t by (simp add: release_slot_def)
  ultimately show ?thesis using ok True unfolding slots_ok_def held by (simp add: of_nat_diff)
next
  case False
  moreover assume "slots_ok m s"
  moreover have "release_slot t s = s" using False by (auto simp: release_slot_def slots_held_def)
  ultimately show ?thesis by simp
qed

interpretation slots: bounded_admission no_slots "\<lambda>_ :: unit. acquire_slot m" release_slot slots_held "slots_ok m" "nat (max 0 m)" for m
proof unfold_locales
  show "slots_ok m no_slots" "slots_held no_slots = {}" by (simp_all add: slots_ok_def no_slots_def slots_held_def)
  show "slots_ok m s \<Longrightarrow> finite (slots_held s) \<and> card (slots_held s) \<le> nat (max 0 m)" for s
    by (simp add: slots_ok_def le_nat_iff)
qed (simp_all add: acquire_slot_ok release_slot_ok)

section \<open>Receiving\<close>

lemma inspect_take:
  "inspectTlsClientHello ta input host m = Inr (Complete n) \<Longrightarrow>
     inspectTlsClientHello ta (take k input) host m = Inr (if n \<le> k then Complete n else Incomplete)"
  unfolding inspectTls_Complete by (auto simp: inspectTlsClientHello_def inspect_loop_cut)

lemma inspect_prefix:
  "inspectTlsClientHello ta (p @ q) host m = Inr (Complete n) \<Longrightarrow>
     inspectTlsClientHello ta p host m = Inr (if n \<le> length p then Complete n else Incomplete)"
  using inspect_take[of ta "p @ q" host m n "length p"] by simp

lemma hello_event_settled [simp]: "hr_settled r \<noteq> None \<Longrightarrow> fold (hello_event ta host m) evs r = r"
  by (induction evs arbitrary: r) (auto simp: hello_event_def)

lemma receive_chunks:
  assumes "inspectTlsClientHello ta (b @ concat cs) host m = Inr (Complete n)" "length b < n"
  shows "\<exists>j. hr_settled (fold (hello_event ta host m) (map Data cs) \<lparr>hr_buffered = b, hr_settled = None\<rparr>)
      = Some (Inr (b @ concat (take j cs)))
    \<and> n \<le> length (b @ concat (take j cs)) \<and> (\<forall>i < j. length (b @ concat (take i cs)) < n)"
  using assms
proof (induction cs arbitrary: b)
  case Nil
  then have "n \<le> length b" using inspect_prefix[of ta b "[]" host m n] by (auto split: if_splits)
  with Nil show ?case by simp
next
  case (Cons c cs)
  have total: "int (length (b @ c)) \<le> m"
    using Cons.prems(1) by (auto simp: inspectTls_Complete)
  have insp: "inspectTlsClientHello ta (b @ c) host m = Inr (if n \<le> length (b @ c) then Complete n else Incomplete)"
    using inspect_prefix[of ta "b @ c" "concat cs" host m n] Cons.prems(1) by simp
  show ?case
  proof (cases "n \<le> length (b @ c)")
    case True
    then have "hello_event ta host m (Data c) \<lparr>hr_buffered = b, hr_settled = None\<rparr> =
        \<lparr>hr_buffered = b @ c, hr_settled = Some (Inr (b @ c))\<rparr>"
      using insp total by (simp add: hello_event_def Let_def)
    then show ?thesis using True Cons.prems(2) by (intro exI[of _ 1]) simp
  next
    case False
    then have "hello_event ta host m (Data c) \<lparr>hr_buffered = b, hr_settled = None\<rparr> = \<lparr>hr_buffered = b @ c, hr_settled = None\<rparr>"
      using insp total by (simp add: hello_event_def Let_def)
    moreover obtain j where "hr_settled (fold (hello_event ta host m) (map Data cs) \<lparr>hr_buffered = b @ c, hr_settled = None\<rparr>)
        = Some (Inr ((b @ c) @ concat (take j cs)))" "n \<le> length ((b @ c) @ concat (take j cs))"
      "\<forall>i < j. length ((b @ c) @ concat (take i cs)) < n"
      using Cons.IH[of "b @ c"] Cons.prems(1) False by auto
    moreover from this have "\<forall>i < Suc j. length (b @ concat (take i (c # cs))) < n"
      using Cons.prems(2) by (auto simp: take_Cons split: nat.split)
    ultimately show ?thesis by (intro exI[of _ "Suc j"]) auto
  qed
qed

definition chunks :: "client_event list \<Rightarrow> byte list" where
  "chunks evs = concat (map (\<lambda>ev. case ev of Data c \<Rightarrow> c | _ \<Rightarrow> []) evs)"

lemma receive_sound:
  assumes "hr_settled (fold (hello_event ta host m) evs \<lparr>hr_buffered = b, hr_settled = None\<rparr>) = Some (Inr buf)"
  shows "(\<exists>n. inspectTlsClientHello ta buf host m = Inr (Complete n)) \<and> (\<exists>rest. b @ chunks evs = buf @ rest)"
  using assms
proof (induction evs arbitrary: b)
  case (Cons ev evs)
  define r where "r = hello_event ta host m ev \<lparr>hr_buffered = b, hr_settled = None\<rparr>"
  have ev: "hr_settled (fold (hello_event ta host m) evs r) = Some (Inr buf)" using Cons.prems by (simp add: r_def)
  show ?case
  proof (cases "hr_settled r")
    case (Some x)
    then have r: "hr_settled r = Some (Inr buf)" using ev by simp
    then obtain c n where "ev = Data c" "buf = b @ c" "inspectTlsClientHello ta (b @ c) host m = Inr (Complete n)"
      unfolding r_def hello_event_def
      by (auto simp: Let_def split: client_event.splits if_splits sum.splits inspection.splits)
    then show ?thesis by (auto simp: chunks_def)
  next
    case None
    then obtain c where c: "ev = Data c" "r = \<lparr>hr_buffered = b @ c, hr_settled = None\<rparr>"
      unfolding r_def hello_event_def
      by (auto simp: Let_def split: client_event.splits if_splits sum.splits inspection.splits)
    have "(\<exists>n. inspectTlsClientHello ta buf host m = Inr (Complete n)) \<and> (\<exists>rest. (b @ c) @ chunks evs = buf @ rest)"
      using Cons.IH[of "b @ c"] ev c(2) by simp
    then show ?thesis by (simp add: chunks_def c(1))
  qed
qed simp

lemma receiveTlsClientHello_sound:
  assumes "receiveTlsClientHello ta b host m evs = Some (Inr buf)"
  shows "(\<exists>n. inspectTlsClientHello ta buf host m = Inr (Complete n)) \<and> (\<exists>rest. b @ chunks evs = buf @ rest)"
  using assms receive_sound unfolding receiveTlsClientHello_def
  by (auto split: if_splits sum.splits inspection.splits)

section \<open>Metering\<close>

lemma delivered_append [simp]: "delivered (as @ bs) = delivered as + delivered bs"
  by (induction as rule: delivered.induct) auto

lemma tunnel_loop_delivered:
  "tunnel_loop m b evs = (acts, r) \<Longrightarrow> b \<le> m \<Longrightarrow>
     b + int (delivered acts) \<le> m \<and> (\<forall>n. r = Some (Inr n) \<longrightarrow> n = b + int (delivered acts))"
proof (induction m b evs arbitrary: acts r rule: tunnel_loop.induct)
  case (2 m b chunk evs)
  show ?case
  proof (cases "m < b + int (length chunk)")
    case False
    obtain acts' r' where "tunnel_loop m (b + int (length chunk)) evs = (acts', r')" by fastforce
    with 2 False show ?thesis by (fastforce simp: Let_def)
  qed (use 2 in auto)
next
  case (3 m b chunk evs)
  show ?case
  proof (cases "m < b + int (length chunk)")
    case False
    obtain acts' r' where "tunnel_loop m (b + int (length chunk)) evs = (acts', r')" by fastforce
    with 3 False show ?thesis by (fastforce simp: Let_def)
  qed (use 3 in auto)
qed auto

definition transfer_ok :: "int \<Rightarrow> http_transfer \<Rightarrow> bool" where
  "transfer_ok m s \<longleftrightarrow> int (delivered (ht_log s)) \<le> ht_bytes s \<and> int (delivered (ht_log s)) \<le> m"

lemma transfer_step_ok: "transfer_ok m s \<Longrightarrow> transfer_ok m (http_event_step m ev s)"
  by (auto simp: transfer_ok_def http_event_step_def Let_def split: http_event.splits sum.splits if_splits)

lemma transfer_run_ok: "transfer_ok m s \<Longrightarrow> transfer_ok m (fold (http_event_step m) evs s)"
  by (induction evs arbitrary: s) (auto simp: transfer_step_ok)

lemma map_of_set_header [simp]: "map_of (set_header hs k v) = (map_of hs)(k \<mapsto> v)"
  by (induction hs k v rule: set_header.induct) auto

lemma map_of_filter_key: "map_of (filter (\<lambda>(k, v). P k) hs) n = (if P n then map_of hs n else None)"
  by (induction hs) auto

lemma failed_no_delivery [simp]:
  "delivered (connect_failed x y e h p) = 0" "delivered (http_failed x e h p) = 0"
  by (simp_all add: connect_failed_def http_failed_def)

lemma failed_actions:
  "a \<in> set (connect_failed x y e h p) \<Longrightarrow> (\<exists>n. a = ReplyStatus n) \<or> (\<exists>r. a = AuditDeny CONNECT r h p)"
  "a \<in> set (http_failed x e h p) \<Longrightarrow> (\<exists>n. a = ReplyStatus n) \<or> (\<exists>r. a = AuditDeny HTTP r h p)"
  by (auto simp: connect_failed_def http_failed_def split: if_splits)

text \<open>An action that reaches the network beyond the proxy, or passes bytes on.\<close>

fun forwards :: "proxy_action \<Rightarrow> bool" where
  "forwards (ConnectUpstream _ _ _) = True"
| "forwards (HttpUpstream _) = True"
| "forwards (ToClient _) = True"
| "forwards (ToUpstream _) = True"
| "forwards (ReplyHead _ _) = True"
| "forwards _ = False"

lemma failed_not_forwards [simp]:
  "list_ex forwards (connect_failed x y e h p) = False" "list_ex forwards (http_failed x e h p) = False"
  by (auto simp: connect_failed_def http_failed_def)

text \<open>The approved tunnel: what was checked before anything is forwarded.\<close>

definition connect_approved ::
  "(string \<Rightarrow> string) \<Rightarrow> (string \<Rightarrow> dns_reply) \<Rightarrow> egress_policy \<Rightarrow> connect_env \<Rightarrow> string \<Rightarrow> int \<Rightarrow> approved_destination \<Rightarrow> byte list \<Rightarrow> bool" where
  "connect_approved ta dns pol env hostname port d hello \<longleftrightarrow>
     rejectProxyCredentials (ce_headers env) = Inr ()
     \<and> parseProxyAuthority ta (option_or (ce_url env) '''') None = Inr (hostname, port)
     \<and> approve ta dns pol hostname port CONNECT = Inr d
     \<and> (\<exists>m n. inspectTlsClientHello ta hello hostname m = Inr (Complete n))
     \<and> (\<exists>rest. ce_head env @ chunks (ce_client_events env) = hello @ rest)"

lemma handleConnect_forwards:
  assumes "list_ex forwards (handleConnect ta dns pol limits env)"
  shows "\<exists>hostname port d hello rest. connect_approved ta dns pol env hostname port d hello
    \<and> handleConnect ta dns pol limits env =
        [ReplyEstablished, AuditAllow CONNECT hostname port (ra_address d) ''policy-and-sni-approved'',
         ConnectUpstream (ra_address d) (ad_port d) (ra_family d)] @ rest
    \<and> (\<forall>a \<in> set rest. \<not> (\<exists>h p f. a = ConnectUpstream h p f))
    \<and> (list_ex forwards rest \<longrightarrow> (\<exists>rest'. rest = ToUpstream hello # rest'))"
proof -
  obtain u hostname port where 1: "rejectProxyCredentials (ce_headers env) = Inr u"
    "parseProxyAuthority ta (option_or (ce_url env) '''') None = Inr (hostname, port)"
    using assms by (auto simp: handleConnect_def split: sum.splits)
  with assms obtain d where 2: "approve ta dns pol hostname port CONNECT = Inr d"
    by (auto simp: handleConnect_def split: sum.splits)
  from assms have 3: "\<not> ce_deadline_in_approve env" by (auto simp: handleConnect_def 1 2)
  define m where "m = min (pl_maxClientHelloBytes limits) (pl_maxBytes limits)"
  from assms obtain hello where 4: "receiveTlsClientHello ta (ce_head env) hostname m (ce_client_events env) = Some (Inr hello)"
    by (auto simp: handleConnect_def 1 2 3 m_def split: option.splits sum.splits)
  define rest where "rest = (case ce_connect env of
        ConnectPending \<Rightarrow> []
      | ConnectFailed message \<Rightarrow> connect_failed (ce_client_destroyed env) True (PlainE message) (Some hostname) (Some port)
      | Connected \<Rightarrow> run_tunnel (pl_maxBytes limits) hello (ce_tunnel env) hostname port)"
  have eq: "handleConnect ta dns pol limits env =
        [ReplyEstablished, AuditAllow CONNECT hostname port (ra_address d) ''policy-and-sni-approved'',
         ConnectUpstream (ra_address d) (ad_port d) (ra_family d)] @ rest"
    by (simp add: handleConnect_def 1 2 3 4 m_def[symmetric] rest_def)
  have tunnel: "a \<in> set (fst (tunnel_loop m b evs)) \<Longrightarrow> (\<exists>bs. a = ToClient bs \<or> a = ToUpstream bs)" for a m b evs
    by (induction m b evs rule: tunnel_loop.induct) (auto simp: Let_def split: if_splits)
  have run: "\<not> (\<exists>h p f. a = ConnectUpstream h p f)" if a: "a \<in> set (run_tunnel m hello evs hostname port)" for a m evs
  proof -
    obtain acts r where loop: "tunnel_loop m (int (length hello)) evs = (acts, r)" by fastforce
    have "a = ToUpstream hello \<or> a \<in> set acts \<or> (\<exists>n. a = AuditClose CONNECT hostname port n)
      \<or> (\<exists>e. a \<in> set (connect_failed True True e (Some hostname) (Some port)))"
      using a unfolding run_tunnel_def loop by (auto split: option.splits sum.splits)
    then show ?thesis using tunnel[of a m "int (length hello)" evs] failed_actions(1) loop by fastforce
  qed
  have "\<forall>a \<in> set rest. \<not> (\<exists>h p f. a = ConnectUpstream h p f)"
    unfolding rest_def by (cases "ce_connect env") (auto dest: run failed_actions(1))
  moreover have "list_ex forwards rest \<longrightarrow> (\<exists>rest'. rest = ToUpstream hello # rest')"
    unfolding rest_def
    by (cases "ce_connect env") (auto simp: run_tunnel_def split: prod.splits option.splits sum.splits)
  moreover have "connect_approved ta dns pol env hostname port d hello"
    using 1 2 receiveTlsClientHello_sound[OF 4] unfolding connect_approved_def by auto
  ultimately show ?thesis using eq by blast
qed

lemma receive_length: "receiveTlsClientHello ta b host m evs = Some (Inr buf) \<Longrightarrow> int (length buf) \<le> m"
proof -
  assume r: "receiveTlsClientHello ta b host m evs = Some (Inr buf)"
  from receiveTlsClientHello_sound[OF r] show ?thesis
    by (auto simp: inspectTls_Complete)
qed

lemma run_tunnel_delivered: "int (length hello) \<le> m \<Longrightarrow> int (delivered (run_tunnel m hello evs h p)) \<le> m"
  using tunnel_loop_delivered[of m "int (length hello)" evs]
  by (cases "tunnel_loop m (int (length hello)) evs")
    (auto simp: run_tunnel_def split: option.splits sum.splits)

lemma handleConnect_delivered: "0 \<le> pl_maxBytes limits \<Longrightarrow> int (delivered (handleConnect ta dns pol limits env)) \<le> pl_maxBytes limits"
  unfolding handleConnect_def
  by (auto split: sum.split option.split connect_outcome.split dest!: receive_length intro!: run_tunnel_delivered)

lemma run_transfer_delivered: "0 \<le> m \<Longrightarrow> int (delivered (run_transfer m evs h p)) \<le> m"
proof -
  assume "0 \<le> m"
  then have "transfer_ok m new_transfer" by (simp add: transfer_ok_def new_transfer_def)
  from transfer_run_ok[OF this, of evs] show ?thesis
    by (auto simp: run_transfer_def Let_def transfer_ok_def split: option.splits sum.splits)
qed

lemma handleHttp_delivered: "0 \<le> pl_maxBytes limits \<Longrightarrow> int (delivered (handleHttp ta pu dns pol limits env)) \<le> pl_maxBytes limits"
  unfolding handleHttp_def
  by (auto split: sum.split option.split intro!: run_transfer_delivered)

lemma createEgressProxy_limits:
  "createEgressProxy opts = Inr limits \<Longrightarrow>
     1 \<le> pl_maxConcurrent limits \<and> 1 \<le> pl_maxBytes limits \<and> 256 \<le> pl_maxClientHelloBytes limits
     \<and> pl_maxConcurrent limits = option_or (po_maxConcurrentConnections opts) 32
     \<and> pl_maxBytes limits = option_or (po_maxBytesPerConnection opts) (128 * 1024 * 1024)"
  unfolding createEgressProxy_def
  by (auto simp: rbind_Inr_iff positiveInteger_def split: if_splits)

lemma handleHttp_forwards:
  assumes "list_ex forwards (handleHttp ta pu dns pol limits env)"
  shows "\<exists>u hostname port d rest. http_target ta pu limits env = Inr (u, hostname, port)
    \<and> approve ta dns pol hostname port HTTP = Inr d
    \<and> handleHttp ta pu dns pol limits env =
        [AuditAllow HTTP hostname port (ra_address d) ''policy-approved'',
         HttpUpstream (createHttpUpstreamOptions d (he_method env) (he_headers env) u)] @ rest
    \<and> (\<forall>a \<in> set rest. \<not> (\<exists>r. a = HttpUpstream r))"
proof -
  obtain u hostname port where 1: "http_target ta pu limits env = Inr (u, hostname, port)"
    using assms by (auto simp: handleHttp_def split: sum.splits)
  with assms obtain d where 2: "approve ta dns pol hostname port HTTP = Inr d"
    by (auto simp: handleHttp_def split: sum.splits)
  from assms 1 2 have eq: "handleHttp ta pu dns pol limits env =
      [AuditAllow HTTP hostname port (ra_address d) ''policy-approved'',
       HttpUpstream (createHttpUpstreamOptions d (he_method env) (he_headers env) u)]
      @ run_transfer (pl_maxBytes limits) (he_events env) hostname port"
    by (auto simp: handleHttp_def split: sum.splits option.splits if_splits)
  have log: "a \<in> set (ht_log (fold (http_event_step m) evs s)) \<Longrightarrow> a \<in> set (ht_log s) \<or> \<not> (\<exists>r. a = HttpUpstream r)" for a m evs s
  proof (induction evs arbitrary: s)
    case (Cons ev evs)
    have "a \<in> set (ht_log (http_event_step m ev s)) \<Longrightarrow> a \<in> set (ht_log s) \<or> \<not> (\<exists>r. a = HttpUpstream r)"
      by (auto simp: http_event_step_def Let_def split: http_event.splits sum.splits if_splits)
    then show ?case using Cons.IH[of "http_event_step m ev s"] Cons.prems by auto
  qed simp
  have run: "\<not> (\<exists>r. a = HttpUpstream r)" if a: "a \<in> set (run_transfer m evs hostname port)" for a m evs
  proof -
    have "a \<in> set (ht_log (fold (http_event_step m) evs new_transfer)) \<or> (\<exists>n. a = AuditClose HTTP hostname port n)
      \<or> (\<exists>b e. a \<in> set (http_failed b e (Some hostname) (Some port)))"
      using a unfolding run_transfer_def Let_def
      by (cases "ht_settled (fold (http_event_step m) evs new_transfer)" rule: option.exhaust;
          cases "the (ht_settled (fold (http_event_step m) evs new_transfer))" rule: sum.exhaust;
          cases "ht_transferError (fold (http_event_step m) evs new_transfer)") auto
    then show ?thesis
      using log[of a m evs new_transfer] failed_actions(2) by (fastforce simp: new_transfer_def)
  qed
  with 1 2 eq show ?thesis by (intro exI conjI) (assumption | blast)+
qed

section \<open>Properties of the proxy\<close>

text \<open>C5. Nothing leaves a tunnel before it is approved. When the handler of a CONNECT request forwards
  anything at all, the request carried no credentials, its authority parsed, the policy
  approved that host and port, and the client had sent a complete ClientHello whose server name
  is that host. The handler then answers, records the approval, opens exactly one connection, to
  the approved address and port, and the first bytes it sends there are the inspected ones.\<close>

theorem handleConnect_safe:
  assumes "list_ex forwards (handleConnect ta dns pol limits env)"
  shows "\<exists>hostname port d hello rest. connect_approved ta dns pol env hostname port d hello
    \<and> handleConnect ta dns pol limits env =
        [ReplyEstablished, AuditAllow CONNECT hostname port (ra_address d) ''policy-and-sni-approved'',
         ConnectUpstream (ra_address d) (ad_port d) (ra_family d)] @ rest
    \<and> (\<forall>a \<in> set rest. \<not> (\<exists>h p f. a = ConnectUpstream h p f))
    \<and> (list_ex forwards rest \<longrightarrow> (\<exists>rest'. rest = ToUpstream hello # rest'))"
  using assms by (rule handleConnect_forwards)

text \<open>A tunnel to try the handlers on: the ClientHello arrives in two pieces.\<close>

definition sample_limits :: proxy_limits where
  "sample_limits = \<lparr>pl_maxConcurrent = 2, pl_maxBytes = 1000, pl_connectTimeoutMs = 10000, pl_idleTimeoutMs = 30000,
     pl_maxConnectionMs = 300000, pl_maxClientHelloBytes = 65536, pl_clientHelloTimeoutMs = 5000,
     pl_allowedMethods = {''GET''}, pl_requestTimeout = 30000, pl_headersTimeout = 30000, pl_keepAliveTimeout = 5000\<rparr>"

definition sample_connect :: connect_env where
  "sample_connect = \<lparr>ce_headers = [(''host'', ''nodejs.org:443'')], ce_url = Some ''nodejs.org:443'',
     ce_head = take 30 sample_stream, ce_deadline_in_approve = False, ce_client_destroyed = False,
     ce_client_events = [Data (drop 30 sample_stream)], ce_connect = Connected,
     ce_tunnel = [FromUpstream [1, 2, 3], TunnelClosed]\<rparr>"

lemma sample_connect_run:
  "handleConnect id sample_dns sample_policy sample_limits sample_connect =
     [ReplyEstablished, AuditAllow CONNECT ''nodejs.org'' 443 ''104.16.1.34'' ''policy-and-sni-approved'',
      ConnectUpstream ''104.16.1.34'' 443 4, ToUpstream sample_stream, ToClient [1, 2, 3],
      AuditClose CONNECT ''nodejs.org'' 443 86]"
  by code_simp

theorem handleConnect_safe_witness:
  "\<exists>d hello. connect_approved id sample_dns sample_policy sample_connect ''nodejs.org'' 443 d hello"
proof -
  have "list_ex forwards (handleConnect id sample_dns sample_policy sample_limits sample_connect)"
    by (simp add: sample_connect_run)
  from handleConnect_safe[OF this] show ?thesis unfolding sample_connect_run by auto
qed

text \<open>C33. The byte budget of a connection holds for everything the proxy passes on, in both directions
  together and including the ClientHello, for tunnels and for plain requests, whatever the
  peers send: a chunk that would pass the limit is not delivered.\<close>

theorem proxy_byte_budget:
  assumes "createEgressProxy opts = Inr limits"
  shows "int (delivered (handleConnect ta dns pol limits cenv)) \<le> option_or (po_maxBytesPerConnection opts) (128 * 1024 * 1024)
    \<and> int (delivered (handleHttp ta pu dns pol limits henv)) \<le> option_or (po_maxBytesPerConnection opts) (128 * 1024 * 1024)"
  using handleConnect_delivered[of limits ta dns pol cenv] handleHttp_delivered[of limits ta pu dns pol henv]
    createEgressProxy_limits[OF assms] by simp

definition no_options :: proxy_options where
  "no_options = \<lparr>po_allowedMethods = None, po_maxConcurrentConnections = None, po_maxBytesPerConnection = None,
     po_connectTimeoutMs = None, po_idleTimeoutMs = None, po_maxConnectionMs = None,
     po_maxClientHelloBytes = None, po_clientHelloTimeoutMs = None\<rparr>"

definition default_limits :: proxy_limits where
  "default_limits = \<lparr>pl_maxConcurrent = 32, pl_maxBytes = 134217728, pl_connectTimeoutMs = 10000, pl_idleTimeoutMs = 30000,
     pl_maxConnectionMs = 300000, pl_maxClientHelloBytes = 65536, pl_clientHelloTimeoutMs = 5000,
     pl_allowedMethods = {''GET'', ''HEAD'', ''POST''}, pl_requestTimeout = 30000, pl_headersTimeout = 30000,
     pl_keepAliveTimeout = 5000\<rparr>"

lemma default_limits_new: "createEgressProxy no_options = Inr default_limits"
  by code_simp

theorem proxy_byte_budget_witness:
  "int (delivered (handleConnect id sample_dns sample_policy default_limits sample_connect)) \<le> 134217728"
  using proxy_byte_budget[OF default_limits_new, of id sample_dns sample_policy sample_connect]
  by (simp add: no_options_def option_or_def)


definition sample_http :: http_env where
  "sample_http = \<lparr>he_headers = [(''host'', ''nodejs.org''), (''te'', ''trailers'')], he_method = Some ''GET'',
     he_url = Some ''http://nodejs.org/dist'', he_deadline_in_approve = False, he_events = []\<rparr>"

definition sample_parse_url :: "string \<Rightarrow> url option" where
  "sample_parse_url t = (if t = ''http://nodejs.org/dist'' then Some \<lparr>url_protocol = ''http:'', url_username = '''',
     url_password = '''', url_hash = '''', url_host = ''nodejs.org'', url_pathname = ''/dist'', url_search = ''''\<rparr> else None)"

lemma sample_http_run:
  "list_ex forwards (handleHttp id sample_parse_url sample_dns sample_policy default_limits sample_http)"
  by code_simp


text \<open>The headers that reach the origin, one by one: the proxy's own \<open>via\<close>, the \<open>host\<close> of the approved
  destination whatever the client wrote, nothing that is hop-by-hop or that the Connection header
  names, and every other header unchanged.\<close>

theorem sanitizeHeaders_exact:
  "map_of (sanitizeHeaders hs d) n =
     (if n = ''via'' then Some ''1.1 bloom-egress''
      else if n = ''host'' then Some (createHost d)
      else if to_lower n \<in> set HOP_BY_HOP \<or> to_lower n \<in> set (connectionTokens hs) \<or> to_lower n = ''host'' then None
      else map_of hs n)"
proof -
  show ?thesis
    unfolding sanitizeHeaders_def Let_def map_of_set_header
    using map_of_filter_key[of "\<lambda>k. to_lower k \<notin> set HOP_BY_HOP \<and> to_lower k \<notin> set (connectionTokens hs)
      \<and> to_lower k \<noteq> ''host''" hs n] by simp
qed

text \<open>A ClientHello is received whatever the pieces it arrives in: when the bytes before the event loop
  and the chunks that follow contain a complete hello of \<open>n\<close> bytes, the receiver resolves with what
  it had after the first chunk that reached \<open>n\<close>, for every way of cutting the stream.\<close>

theorem receiveTlsClientHello_chunking:
  assumes "inspectTlsClientHello ta (initial @ concat cs) host m = Inr (Complete n)"
  shows "\<exists>j. receiveTlsClientHello ta initial host m (map Data cs) = Some (Inr (initial @ concat (take j cs)))
    \<and> n \<le> length (initial @ concat (take j cs)) \<and> (\<forall>i < j. length (initial @ concat (take i cs)) < n)"
proof -
  have m: "\<not> (m < 256 \<or> m < int (length initial))" using assms by (auto simp: inspectTls_Complete)
  have init: "inspectTlsClientHello ta initial host m = Inr (if n \<le> length initial then Complete n else Incomplete)"
    by (rule inspect_prefix[OF assms])
  show ?thesis
  proof (cases "n \<le> length initial")
    case True
    then show ?thesis using init m by (intro exI[of _ 0]) (simp add: receiveTlsClientHello_def)
  next
    case False
    then show ?thesis using receive_chunks[OF assms] init m by (simp add: receiveTlsClientHello_def)
  qed
qed

theorem receiveTlsClientHello_chunking_witness:
  "\<exists>j. receiveTlsClientHello id [] ''nodejs.org'' 65536 (map Data [take 7 sample_stream, drop 7 sample_stream])
     = Some (Inr ([] @ concat (take j [take 7 sample_stream, drop 7 sample_stream])))"
proof -
  have "inspectTlsClientHello id ([] @ concat [take 7 sample_stream, drop 7 sample_stream]) ''nodejs.org'' 65536 = Inr (Complete 83)"
    using sample_complete by simp
  from receiveTlsClientHello_chunking[OF this] show ?thesis by blast
qed

text \<open>However connections come and go, no more handlers run at once than the configured number, a
  refused connection takes no slot, and a slot given back twice is given back once.\<close>

theorem proxy_slots_bounded:
  "card (slots_held (slots.run m ops no_slots)) \<le> nat (max 0 m)
   \<and> slots_held (release_slot t (release_slot t (slots.run m ops no_slots))) = slots_held (release_slot t (slots.run m ops no_slots))
   \<and> (acquire_slot m (slots.run m ops no_slots) = None \<longleftrightarrow> m \<le> int (card (slots_held (slots.run m ops no_slots))))"
proof -
  have ok: "slots_ok m (slots.run m ops no_slots)"
    by (rule slots.run_ok) (simp add: slots_ok_def no_slots_def slots_held_def)
  from slots.run_bounded[of m ops] slots.release_twice[OF ok, of t] ok show ?thesis
    by (simp add: acquire_slot_def slots_ok_def)
qed

end
