(* ===== verification/Workspaces.thy ===== *)
theory Workspaces
  imports Prelude
begin

text \<open>
  \<open>src/control/workspaces.ts\<close> over the tables of \<open>src/db.ts\<close>: the life of a workspace from the
  queue to its end, the admission limits, the persistent volumes, the reconciliation loop that
  claims queued workspaces for the node agent, and the calls a wallet may make on its workspace.

  A table is the list of its rows in insertion order. A query is \<^const>\<open>filter\<close>, an update
  \<^const>\<open>map\<close>; \<open>ORDER BY created_at LIMIT 1\<close> takes the first extremal row. SQLite runs each
  statement, and \<open>create\<close> its transaction, without another one in between, so an operation is cut
  at its awaits and nowhere else: every segment is a function on the state, and \<open>svc_step\<close> lets
  the segments of concurrent operations interleave. Time is an argument of each segment, and
  \<open>randomUUID\<close> and the replies of the agent are arguments too.
\<close>

section \<open>Tables\<close>

datatype ws_state = Queued | Provisioning | Running | Stopping | Stopped | Failed

datatype storage_mode = Disposable | Persistent

record workspace_row =
  ws_id :: string
  ws_wallet :: string
  ws_ip_hash :: string
  ws_state :: ws_state
  ws_runtime :: string
  ws_created_at :: int
  ws_lease_expires_at :: int
  ws_stopped_at :: "int option"
  ws_failure :: "string option"
  ws_storage_mode :: storage_mode
  ws_volume_id :: "string option"
  ws_quota :: int

record volume_row =
  vol_id :: string
  vol_wallet :: string
  vol_quota :: int
  vol_created_at :: int
  vol_last_attached_at :: int
  vol_destroyed_at :: "int option"

text \<open>The kind, actor and workspace of an audit event.\<close>

type_synonym audit_event = "string \<times> string option \<times> string option"

record ws_config =
  cf_maxActivePerWallet :: int
  cf_maxActivePerIp :: int
  cf_dailyPerWallet :: int
  cf_dailyPerIp :: int
  cf_maxQueue :: int
  cf_maxRunning :: int
  cf_leaseMs :: int
  cf_runtime :: string
  cf_storageQuotaBytes :: int

record data_capabilities =
  dc_persistence :: "bool option"
  dc_persistenceReason :: "string option"

text \<open>
  The progress of the one reconciliation that runs: the rows still to stop, a stop it waits for,
  the rows whose status it still asks, the claims it may still make, an agent call in flight.
\<close>

datatype recon =
    Idle
  | StopRows "workspace_row list"
  | WaitStop string "workspace_row list"
  | CheckRows "workspace_row list"
  | Claiming int
  | Creating workspace_row int

text \<open>
  The service and its database. \<open>sv_asked\<close> is the agent's side: the workspaces it was asked to
  create and has not since reported stopped or gone. \<open>sv_stopOperations\<close> and \<open>sv_destroying\<close> are
  the maps of operations in flight.
\<close>

record svc =
  sv_rows :: "workspace_row list"
  sv_volumes :: "volume_row list"
  sv_audit :: "audit_event list"
  sv_destroying :: "string set"
  sv_stopOperations :: "string set"
  sv_recon :: recon
  sv_asked :: "string set"

datatype ws_error = WorkspaceError nat

definition active_state :: "ws_state \<Rightarrow> bool" where
  "active_state st \<longleftrightarrow> st \<in> {Queued, Provisioning, Running, Stopping}"

definition active :: "workspace_row \<Rightarrow> bool" where
  "active r \<longleftrightarrow> active_state (ws_state r)"

definition count_rows :: "(workspace_row \<Rightarrow> bool) \<Rightarrow> svc \<Rightarrow> int" where
  "count_rows P s = int (length (filter P (sv_rows s)))"

definition audit :: "string \<Rightarrow> string option \<Rightarrow> string option \<Rightarrow> svc \<Rightarrow> svc" where
  "audit kind actor wid s = s\<lparr>sv_audit := sv_audit s @ [(kind, actor, wid)]\<rparr>"

text \<open>\<open>UPDATE workspaces SET ... WHERE ...\<close>\<close>

definition update_rows :: "(workspace_row \<Rightarrow> bool) \<Rightarrow> (workspace_row \<Rightarrow> workspace_row) \<Rightarrow> svc \<Rightarrow> svc" where
  "update_rows P f s = s\<lparr>sv_rows := map (\<lambda>r. if P r then f r else r) (sv_rows s)\<rparr>"

text \<open>The first row with the least key, and the first with the greatest.\<close>

fun first_min :: "('a \<Rightarrow> int) \<Rightarrow> 'a list \<Rightarrow> 'a option" where
  "first_min f [] = None"
| "first_min f (x # xs) =
     (case first_min f xs of None \<Rightarrow> Some x | Some y \<Rightarrow> if f y < f x then Some y else Some x)"


section \<open>Creating a workspace\<close>

record public_workspace =
  pw_id :: string
  pw_state :: ws_state
  pw_createdAt :: int
  pw_leaseExpiresAt :: int
  pw_mode :: storage_mode
  pw_quotaBytes :: int
  pw_retainedAfterStop :: bool
  pw_queuePosition :: "int option"
  pw_failure :: "string option"

definition publicWorkspace :: "workspace_row \<Rightarrow> svc \<Rightarrow> public_workspace" where
  "publicWorkspace row s =
     \<lparr>pw_id = ws_id row, pw_state = ws_state row, pw_createdAt = ws_created_at row,
      pw_leaseExpiresAt = ws_lease_expires_at row, pw_mode = ws_storage_mode row, pw_quotaBytes = ws_quota row,
      pw_retainedAfterStop = (ws_storage_mode row = Persistent),
      pw_queuePosition =
        (if ws_state row = Queued
         then Some (1 + count_rows (\<lambda>r. ws_state r = Queued \<and> ws_created_at r < ws_created_at row) s) else None),
      pw_failure = (case ws_failure row of Some (c # cs) \<Rightarrow> Some (c # cs) | _ \<Rightarrow> None)\<rparr>"

definition active_volume :: "string \<Rightarrow> svc \<Rightarrow> volume_row option" where
  "active_volume wallet s = find (\<lambda>v. vol_wallet v = wallet \<and> vol_destroyed_at v = None) (sv_volumes s)"

definition getOrCreatePersistentVolume ::
  "ws_config \<Rightarrow> string \<Rightarrow> string \<Rightarrow> int \<Rightarrow> svc \<Rightarrow> volume_row \<times> svc" where
  "getOrCreatePersistentVolume cfg newVolume wallet now s =
     (case active_volume wallet s of
        Some existing \<Rightarrow>
          (existing\<lparr>vol_last_attached_at := now\<rparr>,
           s\<lparr>sv_volumes := map (\<lambda>v. if vol_id v = vol_id existing then v\<lparr>vol_last_attached_at := now\<rparr> else v) (sv_volumes s)\<rparr>)
      | None \<Rightarrow>
          let volume = \<lparr>vol_id = newVolume, vol_wallet = wallet, vol_quota = cf_storageQuotaBytes cfg,
                        vol_created_at = now, vol_last_attached_at = now, vol_destroyed_at = None\<rparr>
          in (volume, audit ''workspace.volume_created'' (Some wallet) None (s\<lparr>sv_volumes := sv_volumes s @ [volume]\<rparr>)))"

text \<open>The admission checks of the transaction, in order.\<close>

definition admission :: "ws_config \<Rightarrow> string \<Rightarrow> string \<Rightarrow> int \<Rightarrow> svc \<Rightarrow> (ws_error, unit) res" where
  "admission cfg wallet ipHash since s =
     (if cf_maxActivePerWallet cfg \<le> count_rows (\<lambda>r. ws_wallet r = wallet \<and> active r) s then Inl (WorkspaceError 409)
      else if cf_maxActivePerIp cfg \<le> count_rows (\<lambda>r. ws_ip_hash r = ipHash \<and> active r) s then Inl (WorkspaceError 429)
      else if cf_dailyPerWallet cfg \<le> count_rows (\<lambda>r. ws_wallet r = wallet \<and> since \<le> ws_created_at r) s then Inl (WorkspaceError 429)
      else if cf_dailyPerIp cfg \<le> count_rows (\<lambda>r. ws_ip_hash r = ipHash \<and> since \<le> ws_created_at r) s then Inl (WorkspaceError 429)
      else if cf_maxQueue cfg \<le> count_rows (\<lambda>r. ws_state r = Queued) s then Inl (WorkspaceError 503)
      else Inr ())"

text \<open>\<open>create\<close>: a failed check rolls back, and the state is the old one.\<close>

definition create_workspace ::
  "ws_config \<Rightarrow> data_capabilities option \<Rightarrow> string \<Rightarrow> string \<Rightarrow> int \<Rightarrow> string \<Rightarrow> string \<Rightarrow> storage_mode option \<Rightarrow> svc
    \<Rightarrow> (ws_error, public_workspace \<times> svc) res" where
  "create_workspace cfg caps newId newVolume now wallet ipHash storage s =
     (let since = now - 24 * 60 * 60000;
          normalizedWallet = to_lower wallet;
          storageMode = (case storage of None \<Rightarrow> Disposable | Some m \<Rightarrow> m)
      in if storageMode = Persistent \<and> (case caps of None \<Rightarrow> False | Some c \<Rightarrow> dc_persistence c = Some False)
         then Inl (WorkspaceError 501)
         else if storageMode = Persistent \<and> normalizedWallet \<in> sv_destroying s then Inl (WorkspaceError 409)
         else rbind (admission cfg normalizedWallet ipHash since s) (\<lambda>_.
           let (volume, s1) = (if storageMode = Persistent
                 then apfst Some (getOrCreatePersistentVolume cfg newVolume normalizedWallet now s) else (None, s));
               row = \<lparr>ws_id = newId, ws_wallet = normalizedWallet, ws_ip_hash = ipHash, ws_state = Queued,
                      ws_runtime = cf_runtime cfg, ws_created_at = now, ws_lease_expires_at = now + cf_leaseMs cfg,
                      ws_stopped_at = None, ws_failure = None, ws_storage_mode = storageMode,
                      ws_volume_id = map_option vol_id volume,
                      ws_quota = (case volume of None \<Rightarrow> cf_storageQuotaBytes cfg | Some v \<Rightarrow> vol_quota v)\<rparr>;
               s2 = audit ''workspace.requested'' (Some normalizedWallet) (Some newId)
                      (s1\<lparr>sv_rows := sv_rows s1 @ [row]\<rparr>)
           in Inr (publicWorkspace row s2, s2)))"

definition current_workspace :: "int \<Rightarrow> string \<Rightarrow> svc \<Rightarrow> public_workspace option" where
  "current_workspace now wallet s =
     (let mine = filter (\<lambda>r. ws_wallet r = to_lower wallet) (sv_rows s);
          best = (case first_min (\<lambda>r. - ws_created_at r) (filter active mine) of
                    Some r \<Rightarrow> Some r
                  | None \<Rightarrow> first_min (\<lambda>r. - ws_created_at r) mine)
      in case best of
           None \<Rightarrow> None
         | Some row \<Rightarrow>
             if ws_state row \<in> {Stopped, Failed} \<and> ws_created_at row < now - 5 * 60000 then None
             else Some (publicWorkspace row s))"


section \<open>Stopping\<close>

text \<open>\<open>stopWorkspace\<close>: join the operation in flight for the row, or start one.\<close>

definition begin_stop :: "string \<Rightarrow> svc \<Rightarrow> svc" where
  "begin_stop wid s = s\<lparr>sv_stopOperations := insert wid (sv_stopOperations s)\<rparr>"

definition stopCurrent_begin :: "string \<Rightarrow> svc \<Rightarrow> svc" where
  "stopCurrent_begin wallet s =
     (case first_min (\<lambda>r. - ws_created_at r) (filter (\<lambda>r. ws_wallet r = to_lower wallet \<and> active r) (sv_rows s)) of
        None \<Rightarrow> s
      | Some row \<Rightarrow>
          begin_stop (ws_id row)
            (update_rows (\<lambda>r. ws_id r = ws_id row \<and> ws_state r \<in> {Queued, Provisioning, Running})
               (\<lambda>r. r\<lparr>ws_state := Stopping\<rparr>) s))"

text \<open>The reply of \<open>agent.stop\<close>: an error is audited, a success closes the row if it is still stopping.\<close>

definition stop_failed :: "string \<Rightarrow> string \<Rightarrow> svc \<Rightarrow> svc" where
  "stop_failed wallet wid s =
     audit ''workspace.agent_stop_failed'' (Some wallet) (Some wid)
       (s\<lparr>sv_stopOperations := sv_stopOperations s - {wid}\<rparr>)"

definition stop_succeeded :: "int \<Rightarrow> string \<Rightarrow> string \<Rightarrow> svc \<Rightarrow> svc" where
  "stop_succeeded now wallet wid s =
     (let stopping = (\<lambda>r. ws_id r = wid \<and> ws_state r = Stopping);
          changes = length (filter stopping (sv_rows s));
          s1 = update_rows stopping (\<lambda>r. r\<lparr>ws_state := Stopped, ws_stopped_at := Some now\<rparr>) s;
          s2 = (if changes = 1 then audit ''workspace.stopped'' (Some wallet) (Some wid) s1 else s1)
      in s2\<lparr>sv_stopOperations := sv_stopOperations s2 - {wid}, sv_asked := sv_asked s2 - {wid}\<rparr>)"


section \<open>Reconciliation\<close>

text \<open>\<open>reconcile\<close> starts a run unless one is in progress; a run first expires leases.\<close>

definition recon_start :: "int \<Rightarrow> svc \<Rightarrow> svc" where
  "recon_start now s =
     (if sv_recon s \<noteq> Idle then s
      else let s1 = update_rows (\<lambda>r. ws_state r \<in> {Queued, Provisioning, Running} \<and> ws_lease_expires_at r \<le> now)
                      (\<lambda>r. r\<lparr>ws_state := Stopping\<rparr>) s
           in s1\<lparr>sv_recon := StopRows (filter (\<lambda>r. ws_state r = Stopping) (sv_rows s1))\<rparr>)"

text \<open>The loop over the stopping rows; it waits for each operation and ignores its error.\<close>

definition recon_stop :: "svc \<Rightarrow> svc" where
  "recon_stop s =
     (case sv_recon s of
        StopRows (row # rows) \<Rightarrow> (begin_stop (ws_id row) s)\<lparr>sv_recon := WaitStop (ws_id row) rows\<rparr>
      | StopRows [] \<Rightarrow> s\<lparr>sv_recon := CheckRows (filter (\<lambda>r. ws_state r \<in> {Running, Provisioning}) (sv_rows s))\<rparr>
      | WaitStop wid rows \<Rightarrow> (if wid \<in> sv_stopOperations s then s else s\<lparr>sv_recon := StopRows rows\<rparr>)
      | _ \<Rightarrow> s)"

datatype agent_status = StatusFailed | AgentRunning | AgentGone

text \<open>One reply of \<open>agent.status\<close>; after the last row the capacity is counted once.\<close>

definition recon_check :: "ws_config \<Rightarrow> int \<Rightarrow> agent_status \<Rightarrow> svc \<Rightarrow> svc" where
  "recon_check cfg now status s =
     (case sv_recon s of
        CheckRows (row # rows) \<Rightarrow>
          (let s1 = s\<lparr>sv_recon := CheckRows rows\<rparr>
           in case status of
                StatusFailed \<Rightarrow> audit ''workspace.agent_status_failed'' (Some (ws_wallet row)) (Some (ws_id row)) s1
              | AgentRunning \<Rightarrow>
                  if ws_state row = Provisioning
                  then audit ''workspace.running'' (Some (ws_wallet row)) (Some (ws_id row))
                         (update_rows (\<lambda>r. ws_id r = ws_id row \<and> ws_state r = Provisioning) (\<lambda>r. r\<lparr>ws_state := Running\<rparr>) s1)
                  else s1
              | AgentGone \<Rightarrow>
                  (let gone = (\<lambda>r. ws_id r = ws_id row \<and> ws_state r \<in> {Running, Provisioning});
                       s2 = update_rows gone (\<lambda>r. r\<lparr>ws_state := Failed, ws_stopped_at := Some now,
                              ws_failure := Some ''The workspace process ended unexpectedly; please retry''\<rparr>) s1;
                       s3 = (if list_ex gone (sv_rows s1) then s2\<lparr>sv_asked := sv_asked s2 - {ws_id row}\<rparr> else s2)
                   in audit ''workspace.lost'' (Some (ws_wallet row)) (Some (ws_id row)) s3))
      | CheckRows [] \<Rightarrow>
          s\<lparr>sv_recon := Claiming (cf_maxRunning cfg - count_rows (\<lambda>r. ws_state r \<in> {Running, Provisioning, Stopping}) s)\<rparr>
      | _ \<Rightarrow> s)"

text \<open>The claim loop: the oldest queued workspace whose lease has not ended goes to the agent.\<close>

definition next_queued :: "int \<Rightarrow> svc \<Rightarrow> workspace_row option" where
  "next_queued now s =
     first_min ws_created_at (filter (\<lambda>r. ws_state r = Queued \<and> now < ws_lease_expires_at r) (sv_rows s))"

definition recon_claim :: "int \<Rightarrow> svc \<Rightarrow> svc" where
  "recon_claim now s =
     (case sv_recon s of
        Claiming capacity \<Rightarrow>
          (if \<not> 0 < capacity then s\<lparr>sv_recon := Idle\<rparr>
           else case next_queued now s of
             None \<Rightarrow> s\<lparr>sv_recon := Idle\<rparr>
           | Some row \<Rightarrow>
               (let claim = (\<lambda>r. ws_id r = ws_id row \<and> ws_state r = Queued);
                    s1 = update_rows claim (\<lambda>r. r\<lparr>ws_state := Provisioning\<rparr>) s
                in if length (filter claim (sv_rows s)) \<noteq> 1 then s1\<lparr>sv_recon := Claiming (capacity - 1)\<rparr>
                   else s1\<lparr>sv_recon := Creating row (capacity - 1), sv_asked := insert (ws_id row) (sv_asked s1)\<rparr>))
      | _ \<Rightarrow> s)"

text \<open>The reply of \<open>agent.create\<close>.\<close>

definition recon_created :: "bool \<Rightarrow> svc \<Rightarrow> svc" where
  "recon_created success s =
     (case sv_recon s of
        Creating row capacity \<Rightarrow>
          (if success
           then audit ''workspace.running'' (Some (ws_wallet row)) (Some (ws_id row))
             (update_rows (\<lambda>r. ws_id r = ws_id row \<and> ws_state r = Provisioning) (\<lambda>r. r\<lparr>ws_state := Running\<rparr>)
               (s\<lparr>sv_recon := Claiming capacity\<rparr>))
           else audit ''workspace.start_uncertain'' (Some (ws_wallet row)) (Some (ws_id row)) (s\<lparr>sv_recon := Claiming capacity\<rparr>))
      | _ \<Rightarrow> s)"

text \<open>What \<open>agent.create\<close> is asked for.\<close>

record agent_create =
  ac_id :: string
  ac_leaseExpiresAt :: int
  ac_walletAddress :: string
  ac_mode :: storage_mode
  ac_volumeId :: "string option"
  ac_quotaBytes :: int

definition create_request :: "workspace_row \<Rightarrow> agent_create" where
  "create_request row =
     \<lparr>ac_id = ws_id row, ac_leaseExpiresAt = ws_lease_expires_at row, ac_walletAddress = ws_wallet row,
      ac_mode = ws_storage_mode row,
      ac_volumeId = (if ws_storage_mode row = Persistent then ws_volume_id row else None),
      ac_quotaBytes = ws_quota row\<rparr>"


section \<open>Destroying a volume\<close>

definition destroy_begin :: "string \<Rightarrow> svc \<Rightarrow> (ws_error, volume_row \<times> svc) res" where
  "destroy_begin wallet s =
     (let normalizedWallet = to_lower wallet
      in case active_volume normalizedWallet s of
           None \<Rightarrow> Inl (WorkspaceError 404)
         | Some volume \<Rightarrow>
             if list_ex (\<lambda>r. ws_volume_id r = Some (vol_id volume) \<and> active r) (sv_rows s) then Inl (WorkspaceError 409)
             else if normalizedWallet \<in> sv_destroying s then Inl (WorkspaceError 409)
             else Inr (volume, s\<lparr>sv_destroying := insert normalizedWallet (sv_destroying s)\<rparr>))"

definition destroy_end :: "int \<Rightarrow> string \<Rightarrow> string \<Rightarrow> bool \<Rightarrow> svc \<Rightarrow> svc" where
  "destroy_end now wallet vid success s =
     (let s1 = (if success
                then audit ''workspace.volume_destroyed'' (Some wallet) None
                  (s\<lparr>sv_volumes := map (\<lambda>v. if vol_id v = vid \<and> vol_destroyed_at v = None
                                         then v\<lparr>vol_destroyed_at := Some now\<rparr> else v) (sv_volumes s)\<rparr>)
                else s)
      in s1\<lparr>sv_destroying := sv_destroying s1 - {wallet}\<rparr>)"


section \<open>Calls on a running workspace\<close>

definition ownsRunning :: "int \<Rightarrow> string \<Rightarrow> string \<Rightarrow> svc \<Rightarrow> bool" where
  "ownsRunning now wallet wid s =
     list_ex (\<lambda>r. ws_id r = wid \<and> ws_wallet r = to_lower wallet \<and> ws_state r = Running \<and> now < ws_lease_expires_at r) (sv_rows s)"

definition ownedRunning :: "int \<Rightarrow> string \<Rightarrow> string \<Rightarrow> svc \<Rightarrow> (ws_error, workspace_row) res \<times> svc" where
  "ownedRunning now wallet wid s =
     (let normalizedWallet = to_lower wallet
      in case find (\<lambda>r. ws_id r = wid \<and> ws_wallet r = normalizedWallet) (sv_rows s) of
           None \<Rightarrow> (Inl (WorkspaceError 404), audit ''workspace.file_denied'' (Some normalizedWallet) (Some wid) s)
         | Some row \<Rightarrow>
             if ws_state row \<noteq> Running \<or> ws_lease_expires_at row \<le> now
             then (Inl (WorkspaceError 409), audit ''workspace.file_denied'' (Some normalizedWallet) (Some wid) s)
             else (Inr row, s))"

datatype agent_failure = AgentClientError nat | OtherFailure

definition agentWorkspaceError :: "agent_failure \<Rightarrow> ws_error" where
  "agentWorkspaceError e =
     (case e of
        AgentClientError status \<Rightarrow> WorkspaceError (if status \<in> {400, 403, 404, 409, 413, 501} then status else 503)
      | OtherFailure \<Rightarrow> WorkspaceError 503)"

datatype service_op =
    ListFiles | ReadFile | WriteFile | DeleteFile | StartJob | JobStatus | CancelJob | BloomStatus
  | CeremonyPending | CeremonyApprove | Connections | IssueSsh | RevokeSsh

fun op_audit :: "service_op \<Rightarrow> string option" where
  "op_audit ListFiles = Some ''workspace.file_listed''"
| "op_audit ReadFile = Some ''workspace.file_downloaded''"
| "op_audit WriteFile = Some ''workspace.file_uploaded''"
| "op_audit DeleteFile = Some ''workspace.file_deleted''"
| "op_audit StartJob = Some ''workspace.job_started''"
| "op_audit CancelJob = Some ''workspace.job_cancelled''"
| "op_audit CeremonyPending = Some ''workspace.ceremony_polled''"
| "op_audit CeremonyApprove = Some ''workspace.ceremony_approved''"
| "op_audit IssueSsh = Some ''workspace.ssh_issued''"
| "op_audit RevokeSsh = Some ''workspace.ssh_revoked''"
| "op_audit JobStatus = None"
| "op_audit BloomStatus = None"
| "op_audit Connections = None"

definition is_data_operation :: "service_op \<Rightarrow> bool" where
  "is_data_operation op \<longleftrightarrow> op \<in> {ListFiles, ReadFile, WriteFile, DeleteFile}"

text \<open>
  Every call has one shape: \<open>ownedRunning\<close>, then the agent method on the id of the row, then the
  audit event of the call; \<open>dataOperation\<close> also audits a failure.
\<close>

definition service_call ::
  "int \<Rightarrow> service_op \<Rightarrow> (string \<Rightarrow> (agent_failure, 'a) res) \<Rightarrow> string \<Rightarrow> string \<Rightarrow> svc \<Rightarrow> (ws_error, 'a) res \<times> svc" where
  "service_call now op agent wallet wid s =
     (case ownedRunning now wallet wid s of
        (Inl e, s1) \<Rightarrow> (Inl e, s1)
      | (Inr row, s1) \<Rightarrow>
          (case agent (ws_id row) of
             Inl e \<Rightarrow>
               (Inl (agentWorkspaceError e),
                if is_data_operation op then audit ''workspace.file_failed'' (Some (ws_wallet row)) (Some (ws_id row)) s1 else s1)
           | Inr v \<Rightarrow>
               (Inr v, case op_audit op of None \<Rightarrow> s1 | Some kind \<Rightarrow> audit kind (Some (ws_wallet row)) (Some (ws_id row)) s1)))"

text \<open>The retention job of the control plane deletes rows that ended long ago.\<close>

definition maintenance :: "int \<Rightarrow> svc \<Rightarrow> svc" where
  "maintenance now s =
     s\<lparr>sv_rows := filter (\<lambda>r. \<not> (ws_state r \<in> {Stopped, Failed} \<and>
        (case ws_stopped_at r of None \<Rightarrow> False | Some t \<Rightarrow> t < now - 30 * 24 * 60 * 60000))) (sv_rows s)\<rparr>"


section \<open>The service as a transition system\<close>

definition new_service :: svc where
  "new_service = \<lparr>sv_rows = [], sv_volumes = [], sv_audit = [], sv_destroying = {}, sv_stopOperations = {},
     sv_recon = Idle, sv_asked = {}\<rparr>"

text \<open>Ids are never reused: a new one is none of those the service still knows.\<close>

fun recon_ids :: "recon \<Rightarrow> string set" where
  "recon_ids (StopRows rows) = ws_id ` set rows"
| "recon_ids (WaitStop wid rows) = insert wid (ws_id ` set rows)"
| "recon_ids (CheckRows rows) = ws_id ` set rows"
| "recon_ids (Creating row c) = {ws_id row}"
| "recon_ids _ = {}"

inductive svc_step :: "ws_config \<Rightarrow> svc \<Rightarrow> svc \<Rightarrow> bool" for cfg where
  create: "create_workspace cfg caps newId newVolume now wallet ip storage s = Inr (pub, s')
    \<Longrightarrow> newId \<notin> ws_id ` set (sv_rows s) \<Longrightarrow> newId \<notin> sv_stopOperations s \<Longrightarrow> newId \<notin> sv_asked s
    \<Longrightarrow> newId \<notin> recon_ids (sv_recon s) \<Longrightarrow> newVolume \<notin> vol_id ` set (sv_volumes s) \<Longrightarrow> svc_step cfg s s'"
| stop: "svc_step cfg s (stopCurrent_begin wallet s)"
| stop_ok: "wid \<in> sv_stopOperations s \<Longrightarrow> svc_step cfg s (stop_succeeded now wallet wid s)"
| stop_error: "wid \<in> sv_stopOperations s \<Longrightarrow> svc_step cfg s (stop_failed wallet wid s)"
| reconcile: "svc_step cfg s (recon_start now s)"
| recon_stop: "svc_step cfg s (recon_stop s)"
| recon_check: "svc_step cfg s (recon_check cfg now status s)"
| recon_claim: "svc_step cfg s (recon_claim now s)"
| recon_created: "svc_step cfg s (recon_created success s)"
| destroy_begin: "destroy_begin wallet s = Inr (v, s') \<Longrightarrow> svc_step cfg s s'"
| destroy_end: "wallet \<in> sv_destroying s \<Longrightarrow> v \<in> set (sv_volumes s) \<Longrightarrow> vol_wallet v = wallet
    \<Longrightarrow> svc_step cfg s (destroy_end now wallet (vol_id v) success s)"
| call: "service_call now op (agent :: string \<Rightarrow> (agent_failure, unit) res) wallet wid s = (r, s') \<Longrightarrow> svc_step cfg s s'"
| retention: "svc_step cfg s (maintenance now s)"

definition svc_reachable :: "ws_config \<Rightarrow> svc \<Rightarrow> bool" where
  "svc_reachable cfg s \<longleftrightarrow> (svc_step cfg)\<^sup>*\<^sup>* new_service s"

section \<open>How rows change\<close>

definition terminal :: "workspace_row \<Rightarrow> bool" where
  "terminal r \<longleftrightarrow> ws_state r \<in> {Stopped, Failed}"

definition next_state :: "ws_state \<Rightarrow> ws_state \<Rightarrow> bool" where
  "next_state a b \<longleftrightarrow> a = b \<or> (a, b) \<in>
     {(Queued, Provisioning), (Queued, Stopping), (Provisioning, Running), (Provisioning, Stopping),
      (Provisioning, Failed), (Running, Stopping), (Running, Failed), (Stopping, Stopped)}"

definition evolves :: "workspace_row \<Rightarrow> workspace_row \<Rightarrow> bool" where
  "evolves r r' \<longleftrightarrow>
     ws_id r' = ws_id r \<and> ws_wallet r' = ws_wallet r \<and> ws_ip_hash r' = ws_ip_hash r \<and> ws_runtime r' = ws_runtime r
     \<and> ws_created_at r' = ws_created_at r \<and> ws_lease_expires_at r' = ws_lease_expires_at r
     \<and> ws_storage_mode r' = ws_storage_mode r \<and> ws_volume_id r' = ws_volume_id r \<and> ws_quota r' = ws_quota r
     \<and> next_state (ws_state r) (ws_state r') \<and> (terminal r \<longrightarrow> r' = r)"

lemma evolves_refl [simp]: "evolves r r"
  by (simp add: evolves_def next_state_def)

text \<open>The rows after a step: each kept row evolved, and what is gone had ended.\<close>

definition rows_evolve :: "workspace_row list \<Rightarrow> workspace_row list \<Rightarrow> bool" where
  "rows_evolve rs rs' \<longleftrightarrow>
     (\<exists>g keep. rs' = map g (filter keep rs) \<and> (\<forall>r \<in> set rs. evolves r (g r) \<and> (keep r \<or> terminal r)))"

lemma rows_evolve_refl [simp]: "rows_evolve rs rs"
  unfolding rows_evolve_def by (intro exI[of _ id] exI[of _ "\<lambda>_. True"]) simp

lemma rows_evolve_map:
  "(\<And>r. r \<in> set rs \<Longrightarrow> P r \<Longrightarrow> evolves r (f r)) \<Longrightarrow> rows_evolve rs (map (\<lambda>r. if P r then f r else r) rs)"
  unfolding rows_evolve_def
  by (intro exI[of _ "\<lambda>r. if P r then f r else r"] exI[of _ "\<lambda>_. True"]) simp

lemma audit_sel [simp]:
  "sv_rows (audit k a w s) = sv_rows s" "sv_volumes (audit k a w s) = sv_volumes s"
  "sv_destroying (audit k a w s) = sv_destroying s" "sv_stopOperations (audit k a w s) = sv_stopOperations s"
  "sv_recon (audit k a w s) = sv_recon s" "sv_asked (audit k a w s) = sv_asked s"
  by (simp_all add: audit_def)

lemma update_sel [simp]:
  "sv_rows (update_rows P f s) = map (\<lambda>r. if P r then f r else r) (sv_rows s)"
  "sv_volumes (update_rows P f s) = sv_volumes s" "sv_destroying (update_rows P f s) = sv_destroying s"
  "sv_stopOperations (update_rows P f s) = sv_stopOperations s"
  "sv_recon (update_rows P f s) = sv_recon s" "sv_asked (update_rows P f s) = sv_asked s"
  by (simp_all add: update_rows_def)

lemma begin_stop_sel [simp]:
  "sv_rows (begin_stop w s) = sv_rows s" "sv_volumes (begin_stop w s) = sv_volumes s"
  "sv_destroying (begin_stop w s) = sv_destroying s" "sv_stopOperations (begin_stop w s) = insert w (sv_stopOperations s)"
  "sv_recon (begin_stop w s) = sv_recon s" "sv_asked (begin_stop w s) = sv_asked s"
  by (simp_all add: begin_stop_def)

lemma volume_sel [simp]:
  "getOrCreatePersistentVolume cfg nv w now s = (v, s') \<Longrightarrow>
     sv_rows s' = sv_rows s \<and> sv_destroying s' = sv_destroying s \<and> sv_stopOperations s' = sv_stopOperations s
     \<and> sv_recon s' = sv_recon s \<and> sv_asked s' = sv_asked s"
  by (auto simp: getOrCreatePersistentVolume_def Let_def split: option.splits)

lemma call_sel:
  "service_call now op agent w wid s = (r, s') \<Longrightarrow>
     sv_rows s' = sv_rows s \<and> sv_volumes s' = sv_volumes s \<and> sv_destroying s' = sv_destroying s
     \<and> sv_stopOperations s' = sv_stopOperations s \<and> sv_recon s' = sv_recon s \<and> sv_asked s' = sv_asked s"
  by (auto simp: service_call_def ownedRunning_def Let_def split: option.splits if_splits sum.splits)

lemma create_Inr:
  assumes "create_workspace cfg caps newId nv now wallet ip storage s = Inr (pub, s')"
  shows "\<exists>row. sv_rows s' = sv_rows s @ [row] \<and> ws_id row = newId \<and> ws_wallet row = to_lower wallet \<and> ws_ip_hash row = ip
      \<and> ws_state row = Queued \<and> ws_created_at row = now \<and> ws_lease_expires_at row = now + cf_leaseMs cfg
      \<and> sv_destroying s' = sv_destroying s \<and> sv_stopOperations s' = sv_stopOperations s
      \<and> sv_recon s' = sv_recon s \<and> sv_asked s' = sv_asked s
      \<and> admission cfg (to_lower wallet) ip (now - 24 * 60 * 60000) s = Inr ()
      \<and> (if storage = Some Persistent
         then to_lower wallet \<notin> sv_destroying s \<and> (\<exists>v s1. getOrCreatePersistentVolume cfg nv (to_lower wallet) now s = (v, s1)
            \<and> sv_volumes s' = sv_volumes s1 \<and> ws_volume_id row = Some (vol_id v) \<and> ws_quota row = vol_quota v)
         else sv_volumes s' = sv_volumes s \<and> ws_volume_id row = None \<and> ws_quota row = cf_storageQuotaBytes cfg)"
proof -
  define m where "m = (case storage of None \<Rightarrow> Disposable | Some m \<Rightarrow> m)"
  obtain vo s1 where v: "(if m = Persistent then apfst Some (getOrCreatePersistentVolume cfg nv (to_lower wallet) now s)
      else (None, s)) = (vo, s1)" by fastforce
  have sel: "sv_rows s1 = sv_rows s \<and> sv_destroying s1 = sv_destroying s \<and> sv_stopOperations s1 = sv_stopOperations s
     \<and> sv_recon s1 = sv_recon s \<and> sv_asked s1 = sv_asked s"
    using v by (cases "getOrCreatePersistentVolume cfg nv (to_lower wallet) now s")
      (auto split: if_splits dest: volume_sel)
  define row where "row = \<lparr>ws_id = newId, ws_wallet = to_lower wallet, ws_ip_hash = ip, ws_state = Queued,
                      ws_runtime = cf_runtime cfg, ws_created_at = now, ws_lease_expires_at = now + cf_leaseMs cfg,
                      ws_stopped_at = None, ws_failure = None, ws_storage_mode = m,
                      ws_volume_id = map_option vol_id vo,
                      ws_quota = (case vo of None \<Rightarrow> cf_storageQuotaBytes cfg | Some v \<Rightarrow> vol_quota v)\<rparr>"
  have s': "s' = audit ''workspace.requested'' (Some (to_lower wallet)) (Some newId) (s1\<lparr>sv_rows := sv_rows s1 @ [row]\<rparr>)"
    and adm: "admission cfg (to_lower wallet) ip (now - 24 * 60 * 60000) s = Inr ()"
    and destr: "m = Persistent \<Longrightarrow> to_lower wallet \<notin> sv_destroying s"
    using assms unfolding create_workspace_def Let_def m_def[symmetric] v prod.case row_def
    by (auto simp: rbind_Inr_iff split: if_splits)
  have m: "m = Persistent \<longleftrightarrow> storage = Some Persistent"
    unfolding m_def by (cases storage) (auto split: option.splits)
  show ?thesis
  proof (rule exI[of _ row], intro conjI)
    show "if storage = Some Persistent
         then to_lower wallet \<notin> sv_destroying s \<and> (\<exists>v s1. getOrCreatePersistentVolume cfg nv (to_lower wallet) now s = (v, s1)
            \<and> sv_volumes s' = sv_volumes s1 \<and> ws_volume_id row = Some (vol_id v) \<and> ws_quota row = vol_quota v)
         else sv_volumes s' = sv_volumes s \<and> ws_volume_id row = None \<and> ws_quota row = cf_storageQuotaBytes cfg"
      using v destr unfolding m
      by (cases "getOrCreatePersistentVolume cfg nv (to_lower wallet) now s") (auto simp: s' row_def)
  qed (use sel adm in \<open>simp_all add: s' row_def\<close>)
qed

definition frame_volumes :: "svc \<Rightarrow> svc \<Rightarrow> bool" where
  "frame_volumes s s' \<longleftrightarrow>
     rows_evolve (sv_rows s) (sv_rows s') \<and> sv_volumes s' = sv_volumes s \<and> sv_destroying s' = sv_destroying s"

lemmas evolve_simps = evolves_def next_state_def terminal_def

lemma frame_stop: "frame_volumes s (stopCurrent_begin wallet s)"
  unfolding frame_volumes_def stopCurrent_begin_def
  by (auto split: option.split intro!: rows_evolve_map simp: evolve_simps)

lemma frame_stop_ok: "frame_volumes s (stop_succeeded now wallet wid s)"
  unfolding frame_volumes_def stop_succeeded_def Let_def
  by (auto intro!: rows_evolve_map simp: evolve_simps)

lemma frame_start: "frame_volumes s (recon_start now s)"
  unfolding frame_volumes_def recon_start_def Let_def
  by (auto intro!: rows_evolve_map simp: evolve_simps)

lemma frame_check: "frame_volumes s (recon_check cfg now status s)"
  unfolding frame_volumes_def recon_check_def Let_def
  by (auto intro!: rows_evolve_map simp: evolve_simps split: recon.split list.split agent_status.split)

lemma frame_claim: "frame_volumes s (recon_claim now s)"
  unfolding frame_volumes_def recon_claim_def Let_def
  by (auto intro!: rows_evolve_map simp: evolve_simps split: recon.split option.split)

lemma frame_created: "frame_volumes s (recon_created success s)"
  unfolding frame_volumes_def recon_created_def Let_def
  by (auto intro!: rows_evolve_map simp: evolve_simps split: recon.split)

lemma frame_maintenance: "frame_volumes s (maintenance now s)"
proof -
  have "rows_evolve (sv_rows s) (sv_rows (maintenance now s))"
    unfolding maintenance_def rows_evolve_def
    by (rule exI[of _ id], rule exI) (auto simp: terminal_def)
  then show ?thesis by (simp add: frame_volumes_def maintenance_def)
qed

lemma frame_others: "frame_volumes s (stop_failed wallet wid s)" "frame_volumes s (recon_stop s)"
  by (auto simp: frame_volumes_def stop_failed_def recon_stop_def split: recon.split list.split)

text \<open>Every step evolves the rows and keeps the volumes, or it creates a workspace or destroys a volume.\<close>

lemma step_kinds:
  assumes "svc_step cfg s s'"
  obtains (frame) "frame_volumes s s'"
  | (create) caps newId nv now wallet ip storage pub
    where "create_workspace cfg caps newId nv now wallet ip storage s = Inr (pub, s')"
      "newId \<notin> ws_id ` set (sv_rows s)" "nv \<notin> vol_id ` set (sv_volumes s)"
  | (destroy_begin) wallet v where "destroy_begin wallet s = Inr (v, s')" "sv_rows s' = sv_rows s"
  | (destroy_end) wallet v now success
    where "s' = destroy_end now wallet (vol_id v) success s" "wallet \<in> sv_destroying s" "v \<in> set (sv_volumes s)"
      "vol_wallet v = wallet" "sv_rows s' = sv_rows s"
  using assms
proof cases
  case create
  then show ?thesis using that(2) by blast
next
  case (destroy_begin wallet v)
  moreover from this have "sv_rows s' = sv_rows s" by (auto simp: destroy_begin_def Let_def split: option.splits if_splits)
  ultimately show ?thesis using that(3) by blast
next
  case (destroy_end wallet v now success)
  moreover have "sv_rows s' = sv_rows s" unfolding destroy_end by (simp add: destroy_end_def Let_def)
  ultimately show ?thesis using that(4) by blast
next
  case call
  from call_sel[OF call] show ?thesis using that(1) by (simp add: frame_volumes_def)
next
  case (stop wallet)
  show ?thesis by (rule that(1)) (simp only: stop frame_stop)
next
  case (stop_ok wid now wallet)
  show ?thesis by (rule that(1)) (simp only: stop_ok(1) frame_stop_ok)
next
  case (stop_error wid wallet)
  show ?thesis by (rule that(1)) (simp only: stop_error(1) frame_others(1))
next
  case (reconcile now)
  show ?thesis by (rule that(1)) (simp only: reconcile frame_start)
next
  case recon_stop
  show ?thesis by (rule that(1)) (simp only: recon_stop frame_others(2))
next
  case (recon_check now status)
  show ?thesis by (rule that(1)) (simp only: recon_check frame_check)
next
  case (recon_claim now)
  show ?thesis by (rule that(1)) (simp only: recon_claim frame_claim)
next
  case (recon_created success)
  show ?thesis by (rule that(1)) (simp only: recon_created frame_created)
next
  case (retention now)
  show ?thesis by (rule that(1)) (simp only: retention frame_maintenance)
qed

lemma step_rows:
  assumes "svc_step cfg s s'"
  shows "rows_evolve (sv_rows s) (sv_rows s')
    \<or> (\<exists>caps newId nv now wallet ip storage pub.
         create_workspace cfg caps newId nv now wallet ip storage s = Inr (pub, s') \<and> newId \<notin> ws_id ` set (sv_rows s))"
  using assms
proof (cases rule: step_kinds)
  case frame
  then show ?thesis by (simp add: frame_volumes_def)
next
  case create
  then show ?thesis by blast
next
  case destroy_begin
  then show ?thesis by (simp add: rows_evolve_refl)
next
  case destroy_end
  then show ?thesis by (simp add: rows_evolve_refl)
qed

section \<open>Counting\<close>

text \<open>A property of rows that no evolution can make true is counted less and less.\<close>

definition only_lost :: "(workspace_row \<Rightarrow> bool) \<Rightarrow> bool" where
  "only_lost P \<longleftrightarrow> (\<forall>r r'. evolves r r' \<longrightarrow> P r' \<longrightarrow> P r)"

lemma count_evolve:
  assumes "rows_evolve rs rs'" "only_lost P"
  shows "length (filter P rs') \<le> length (filter P rs)"
proof -
  obtain g keep where g: "rs' = map g (filter keep rs)" "\<forall>r \<in> set rs. evolves r (g r) \<and> (keep r \<or> terminal r)"
    using assms(1) unfolding rows_evolve_def by blast
  have "length (filter P (map g (filter keep xs))) \<le> length (filter P xs)" if "set xs \<subseteq> set rs" for xs
    using that
  proof (induction xs)
    case (Cons x xs)
    moreover have "P (g x) \<Longrightarrow> P x" using Cons.prems g(2) assms(2) unfolding only_lost_def by auto
    ultimately show ?case by auto
  qed simp
  then show ?thesis using g(1) by simp
qed

lemma only_lost_wallet: "only_lost (\<lambda>r. ws_wallet r = w \<and> active r)"
  by (auto simp: only_lost_def evolves_def next_state_def active_def active_state_def)

lemma only_lost_ip: "only_lost (\<lambda>r. ws_ip_hash r = ip \<and> active r)"
  by (auto simp: only_lost_def evolves_def next_state_def active_def active_state_def)

lemma only_lost_queued: "only_lost (\<lambda>r. ws_state r = Queued)"
  by (auto simp: only_lost_def evolves_def next_state_def)

definition limits_ok :: "ws_config \<Rightarrow> svc \<Rightarrow> bool" where
  "limits_ok cfg s \<longleftrightarrow>
     (\<forall>w. count_rows (\<lambda>r. ws_wallet r = w \<and> active r) s \<le> max 0 (cf_maxActivePerWallet cfg))
     \<and> (\<forall>ip. count_rows (\<lambda>r. ws_ip_hash r = ip \<and> active r) s \<le> max 0 (cf_maxActivePerIp cfg))
     \<and> count_rows (\<lambda>r. ws_state r = Queued) s \<le> max 0 (cf_maxQueue cfg)"

lemma admission_Inr:
  "admission cfg w ip since s = Inr u \<longleftrightarrow>
     count_rows (\<lambda>r. ws_wallet r = w \<and> active r) s < cf_maxActivePerWallet cfg
     \<and> count_rows (\<lambda>r. ws_ip_hash r = ip \<and> active r) s < cf_maxActivePerIp cfg
     \<and> count_rows (\<lambda>r. ws_wallet r = w \<and> since \<le> ws_created_at r) s < cf_dailyPerWallet cfg
     \<and> count_rows (\<lambda>r. ws_ip_hash r = ip \<and> since \<le> ws_created_at r) s < cf_dailyPerIp cfg
     \<and> count_rows (\<lambda>r. ws_state r = Queued) s < cf_maxQueue cfg"
  by (auto simp: admission_def)

lemma count_append: "sv_rows s' = sv_rows s @ [row] \<Longrightarrow> count_rows P s' = count_rows P s + (if P row then 1 else 0)"
  by (simp add: count_rows_def)

lemma limits_step:
  assumes "limits_ok cfg s" "svc_step cfg s s'"
  shows "limits_ok cfg s'"
proof (cases "rows_evolve (sv_rows s) (sv_rows s')")
  case True
  have "count_rows P s' \<le> count_rows P s" if "only_lost P" for P
    using count_evolve[OF True that] by (simp add: count_rows_def)
  then show ?thesis
    using assms(1) only_lost_wallet only_lost_ip only_lost_queued unfolding limits_ok_def by (meson order_trans)
next
  case False
  with step_rows[OF assms(2)] obtain caps newId nv now wallet ip storage pub
    where create: "create_workspace cfg caps newId nv now wallet ip storage s = Inr (pub, s')" by blast
  from create_Inr[OF create] obtain row where row: "sv_rows s' = sv_rows s @ [row]" "ws_wallet row = to_lower wallet"
    "ws_ip_hash row = ip" "admission cfg (to_lower wallet) ip (now - 24 * 60 * 60000) s = Inr ()" by blast
  then show ?thesis using assms(1) unfolding limits_ok_def admission_Inr count_append[OF row(1)] by auto
qed

section \<open>The agent's side\<close>

fun stopping_ids :: "recon \<Rightarrow> string set" where
  "stopping_ids (StopRows rows) = ws_id ` set rows"
| "stopping_ids (WaitStop wid rows) = insert wid (ws_id ` set rows)"
| "stopping_ids _ = {}"

fun claims_left :: "recon \<Rightarrow> int" where
  "claims_left (Claiming c) = max 0 c"
| "claims_left (Creating row c) = max 0 c"
| "claims_left _ = 0"

definition row_inv :: "string set \<Rightarrow> string set \<Rightarrow> workspace_row \<Rightarrow> bool" where
  "row_inv ending asked r \<longleftrightarrow>
     (ws_id r \<in> ending \<longrightarrow> ws_state r \<in> {Stopping, Stopped, Failed})
     \<and> (ws_id r \<in> asked \<longrightarrow> ws_state r \<in> {Provisioning, Running, Stopping})
     \<and> (ws_state r \<in> {Provisioning, Running} \<longrightarrow> ws_id r \<in> asked)"

definition agent_inv :: "ws_config \<Rightarrow> svc \<Rightarrow> bool" where
  "agent_inv cfg s \<longleftrightarrow>
     distinct (map ws_id (sv_rows s))
     \<and> (\<forall>r \<in> set (sv_rows s). row_inv (sv_stopOperations s \<union> stopping_ids (sv_recon s)) (sv_asked s) r)
     \<and> sv_asked s \<subseteq> ws_id ` set (sv_rows s)
     \<and> int (card (sv_asked s)) + claims_left (sv_recon s) \<le> max 0 (cf_maxRunning cfg)"

lemma agent_inv_initial: "agent_inv cfg new_service"
  by (simp add: agent_inv_def new_service_def)

lemma same_id: "distinct (map ws_id rs) \<Longrightarrow> r \<in> set rs \<Longrightarrow> q \<in> set rs \<Longrightarrow> ws_id r = ws_id q \<Longrightarrow> r = q"
  by (auto simp: distinct_map inj_on_def)

text \<open>An update that keeps the ids is checked row by row.\<close>

lemma agent_inv_update:
  assumes "agent_inv cfg s"
    and "sv_rows s' = map (\<lambda>r. if P r then f r else r) (sv_rows s)" "\<And>r. ws_id (f r) = ws_id r"
    and "\<And>r. r \<in> set (sv_rows s) \<Longrightarrow> row_inv (sv_stopOperations s \<union> stopping_ids (sv_recon s)) (sv_asked s) r \<Longrightarrow>
       row_inv (sv_stopOperations s' \<union> stopping_ids (sv_recon s')) (sv_asked s') (if P r then f r else r)"
    and "sv_asked s' \<subseteq> ws_id ` set (sv_rows s)"
    and "int (card (sv_asked s')) + claims_left (sv_recon s') \<le> max 0 (cf_maxRunning cfg)"
  shows "agent_inv cfg s'"
proof -
  have id: "ws_id \<circ> (\<lambda>r. if P r then f r else r) = ws_id" by (rule ext) (simp add: assms(3))
  have "map ws_id (sv_rows s') = map ws_id (sv_rows s)" unfolding assms(2) map_map id ..
  then have "distinct (map ws_id (sv_rows s'))" "ws_id ` set (sv_rows s') = ws_id ` set (sv_rows s)"
    using assms(1) by (auto simp: agent_inv_def simp flip: set_map)
  moreover have "\<forall>r \<in> set (sv_rows s'). row_inv (sv_stopOperations s' \<union> stopping_ids (sv_recon s')) (sv_asked s') r"
  proof
    fix q assume "q \<in> set (sv_rows s')"
    then obtain r where r: "r \<in> set (sv_rows s)" "q = (if P r then f r else r)" unfolding assms(2) by auto
    then show "row_inv (sv_stopOperations s' \<union> stopping_ids (sv_recon s')) (sv_asked s') q"
      using assms(1) assms(4)[OF r(1)] unfolding agent_inv_def by blast
  qed
  ultimately show ?thesis using assms(5,6) by (simp add: agent_inv_def)
qed

lemma agent_inv_same:
  assumes "agent_inv cfg s" "sv_rows s' = sv_rows s"
    and "\<And>r. r \<in> set (sv_rows s) \<Longrightarrow> row_inv (sv_stopOperations s \<union> stopping_ids (sv_recon s)) (sv_asked s) r \<Longrightarrow>
       row_inv (sv_stopOperations s' \<union> stopping_ids (sv_recon s')) (sv_asked s') r"
    and "sv_asked s' \<subseteq> ws_id ` set (sv_rows s)"
    and "int (card (sv_asked s')) + claims_left (sv_recon s') \<le> max 0 (cf_maxRunning cfg)"
  shows "agent_inv cfg s'"
  using agent_inv_update[of cfg s s' "\<lambda>_. False" id] assms by simp

lemma asked_finite: "agent_inv cfg s \<Longrightarrow> finite (sv_asked s)"
proof -
  assume "agent_inv cfg s"
  then have "sv_asked s \<subseteq> ws_id ` set (sv_rows s)" unfolding agent_inv_def by blast
  then show ?thesis by (rule finite_subset) simp
qed

text \<open>The capacity that is counted leaves room for every workspace the agent was asked for.\<close>

lemma asked_le_count:
  assumes "agent_inv cfg s"
  shows "int (card (sv_asked s)) \<le> count_rows (\<lambda>r. ws_state r \<in> {Running, Provisioning, Stopping}) s"
proof -
  define fs where "fs = filter (\<lambda>r. ws_state r \<in> {Running, Provisioning, Stopping}) (sv_rows s)"
  have "sv_asked s \<subseteq> ws_id ` set fs"
    using assms unfolding agent_inv_def row_inv_def fs_def by fastforce
  then have "card (sv_asked s) \<le> card (ws_id ` set fs)" by (intro card_mono) auto
  also have "\<dots> \<le> card (set fs)" by (rule card_image_le) simp
  also have "\<dots> \<le> length fs" by (rule card_length)
  finally show ?thesis by (simp add: count_rows_def fs_def)
qed

lemma first_min_in: "first_min f xs = Some x \<Longrightarrow> x \<in> set xs \<and> (\<forall>y \<in> set xs. f x \<le> f y)"
proof (induction xs arbitrary: x)
  case (Cons a xs)
  show ?case
  proof (cases "first_min f xs")
    case None
    then have "xs = []" by (cases xs) (auto split: option.splits if_splits)
    with Cons.prems show ?thesis by simp
  next
    case (Some y)
    with Cons.IH[of y] Cons.prems show ?thesis by (auto split: if_splits)
  qed
qed simp

lemma first_min_None [simp]: "first_min f xs = None \<longleftrightarrow> xs = []"
  by (cases xs) (auto split: option.splits if_splits)

lemma agent_inv_sub:
  "agent_inv cfg s \<Longrightarrow> sv_asked s \<subseteq> ws_id ` set (sv_rows s) \<and> distinct (map ws_id (sv_rows s))
    \<and> int (card (sv_asked s)) + claims_left (sv_recon s) \<le> max 0 (cf_maxRunning cfg)"
  by (simp add: agent_inv_def)

lemma claims_left_nonneg [simp]: "0 \<le> claims_left r"
  by (cases r) simp_all

lemma agent_inv_stop: "agent_inv cfg s \<Longrightarrow> agent_inv cfg (stopCurrent_begin wallet s)"
proof (cases "first_min (\<lambda>r. - ws_created_at r) (filter (\<lambda>r. ws_wallet r = to_lower wallet \<and> active r) (sv_rows s))")
  case (Some row)
  assume inv: "agent_inv cfg s"
  note sub = agent_inv_sub[OF inv]
  have row: "row \<in> set (sv_rows s)" "active row" using first_min_in[OF Some] by auto
  define P where "P = (\<lambda>r :: workspace_row. ws_id r = ws_id row \<and> ws_state r \<in> {Queued, Provisioning, Running})"
  define s' where "s' = begin_stop (ws_id row) (update_rows P (\<lambda>r. r\<lparr>ws_state := Stopping\<rparr>) s)"
  have "agent_inv cfg s'"
  proof (rule agent_inv_update[OF inv, where P = P and f = "\<lambda>r. r\<lparr>ws_state := Stopping\<rparr>"])
    fix r assume "r \<in> set (sv_rows s)"
    then have "ws_id r = ws_id row \<Longrightarrow> r = row" using same_id[of "sv_rows s" r row] sub row by simp
    moreover assume "row_inv (sv_stopOperations s \<union> stopping_ids (sv_recon s)) (sv_asked s) r"
    ultimately show "row_inv (sv_stopOperations s' \<union> stopping_ids (sv_recon s')) (sv_asked s')
        (if P r then r\<lparr>ws_state := Stopping\<rparr> else r)"
      using row(2) by (cases "ws_id r = ws_id row"; cases "ws_state r")
        (simp_all add: row_inv_def active_def active_state_def P_def s'_def)
  qed (use sub in \<open>simp_all add: s'_def\<close>)
  then show ?thesis by (simp add: stopCurrent_begin_def Some s'_def P_def)
qed (simp add: stopCurrent_begin_def)

lemma agent_inv_stop_ok:
  assumes inv: "agent_inv cfg s" and op: "wid \<in> sv_stopOperations s"
  shows "agent_inv cfg (stop_succeeded now wallet wid s)"
proof -
  note sub = agent_inv_sub[OF inv]
  have "card (sv_asked s - {wid}) \<le> card (sv_asked s)" by (intro card_mono asked_finite[OF inv]) auto
  then show ?thesis
    unfolding stop_succeeded_def Let_def
    by (intro agent_inv_update[OF inv, where P = "\<lambda>r. ws_id r = wid \<and> ws_state r = Stopping"
          and f = "\<lambda>r. r\<lparr>ws_state := Stopped, ws_stopped_at := Some now\<rparr>"])
      (use sub op in \<open>auto simp: row_inv_def\<close>)
qed

lemma agent_inv_stop_error: "agent_inv cfg s \<Longrightarrow> agent_inv cfg (stop_failed wallet wid s)"
  by (rule agent_inv_same, assumption) (auto simp: stop_failed_def row_inv_def dest: agent_inv_sub)

lemma agent_inv_start: "agent_inv cfg s \<Longrightarrow> agent_inv cfg (recon_start now s)"
proof (cases "sv_recon s = Idle")
  case True
  assume inv: "agent_inv cfg s"
  note sub = agent_inv_sub[OF inv]
  define exp where "exp = (\<lambda>r :: workspace_row. ws_state r \<in> {Queued, Provisioning, Running} \<and> ws_lease_expires_at r \<le> now)"
  define rows where "rows = map (\<lambda>r. if exp r then r\<lparr>ws_state := Stopping\<rparr> else r) (sv_rows s)"
  have eq: "recon_start now s = s\<lparr>sv_rows := rows, sv_recon := StopRows (filter (\<lambda>r. ws_state r = Stopping) rows)\<rparr>"
    using True by (simp add: recon_start_def update_rows_def exp_def rows_def Let_def)
  have mem: "exp r \<or> ws_state r = Stopping"
    if "ws_id r \<in> ws_id ` set (filter (\<lambda>r. ws_state r = Stopping) rows)" "r \<in> set (sv_rows s)" for r
  proof -
    from that(1) obtain q where "q \<in> set (sv_rows s)" "ws_id r = ws_id q"
      "ws_state (if exp q then q\<lparr>ws_state := Stopping\<rparr> else q) = Stopping"
      by (auto simp: rows_def split: if_splits)
    moreover from this have "q = r" using same_id[of "sv_rows s" q r] sub that(2) by simp
    ultimately show ?thesis by (auto split: if_splits)
  qed
  show ?thesis
    unfolding eq
    by (rule agent_inv_update[OF inv, where P = exp and f = "\<lambda>r. r\<lparr>ws_state := Stopping\<rparr>"])
      (use sub True mem in \<open>auto simp: rows_def row_inv_def exp_def\<close>)
qed (simp add: recon_start_def)

lemma agent_inv_recon_stop: "agent_inv cfg s \<Longrightarrow> agent_inv cfg (recon_stop s)"
proof -
  assume inv: "agent_inv cfg s"
  note sub = agent_inv_sub[OF inv]
  show ?thesis
  proof (cases "sv_recon s")
    case (StopRows rows)
    show ?thesis
    proof (cases rows)
      case Nil
      then show ?thesis
        by (intro agent_inv_same[OF inv]) (use sub StopRows in \<open>auto simp: recon_stop_def row_inv_def\<close>)
    next
      case (Cons row rest)
      then show ?thesis
        by (intro agent_inv_same[OF inv]) (use sub StopRows in \<open>auto simp: recon_stop_def row_inv_def\<close>)
    qed
  next
    case (WaitStop wid rows)
    then show ?thesis
      by (intro agent_inv_same[OF inv]) (use sub in \<open>auto simp: recon_stop_def row_inv_def\<close>)
  qed (use inv in \<open>simp_all add: recon_stop_def\<close>)
qed

lemma agent_inv_recon_check: "agent_inv cfg s \<Longrightarrow> agent_inv cfg (recon_check cfg now status s)"
proof -
  assume inv: "agent_inv cfg s"
  note sub = agent_inv_sub[OF inv]
  show ?thesis
  proof (cases "sv_recon s")
    case (CheckRows rows)
    show ?thesis
    proof (cases rows)
      case Nil
      have "int (card (sv_asked s)) + max 0 (cf_maxRunning cfg - count_rows (\<lambda>r. ws_state r \<in> {Running, Provisioning, Stopping}) s)
          \<le> max 0 (cf_maxRunning cfg)"
        using asked_le_count[OF inv] sub CheckRows by auto
      then show ?thesis
        by (intro agent_inv_same[OF inv]) (use sub CheckRows Nil in \<open>auto simp: recon_check_def row_inv_def\<close>)
    next
      case (Cons row rest)
      note c = CheckRows Cons
      show ?thesis
      proof (cases status)
        case StatusFailed
        then show ?thesis
          by (intro agent_inv_same[OF inv]) (use sub c in \<open>auto simp: recon_check_def row_inv_def\<close>)
      next
        case AgentRunning
        show ?thesis
        proof (cases "ws_state row = Provisioning")
          case True
          then show ?thesis
            by (intro agent_inv_update[OF inv, where P = "\<lambda>r. ws_id r = ws_id row \<and> ws_state r = Provisioning"
                  and f = "\<lambda>r. r\<lparr>ws_state := Running\<rparr>"])
              (use sub c AgentRunning in \<open>auto simp: recon_check_def row_inv_def\<close>)
        next
          case False
          then show ?thesis
            by (intro agent_inv_same[OF inv]) (use sub c AgentRunning in \<open>auto simp: recon_check_def row_inv_def\<close>)
        qed
      next
        case AgentGone
        define gone where "gone = (\<lambda>r :: workspace_row. ws_id r = ws_id row \<and> ws_state r \<in> {Running, Provisioning})"
        define f where "f = (\<lambda>r :: workspace_row. r\<lparr>ws_state := Failed, ws_stopped_at := Some now,
                              ws_failure := Some ''The workspace process ended unexpectedly; please retry''\<rparr>)"
        define s' where "s' = recon_check cfg now status s"
        have s': "sv_rows s' = map (\<lambda>r. if gone r then f r else r) (sv_rows s)" "sv_recon s' = CheckRows rest"
          "sv_stopOperations s' = sv_stopOperations s"
          "sv_asked s' = (if list_ex gone (sv_rows s) then sv_asked s - {ws_id row} else sv_asked s)"
          unfolding s'_def recon_check_def c AgentGone Let_def gone_def f_def by simp_all
        have "card (sv_asked s - {ws_id row}) \<le> card (sv_asked s)" by (intro card_mono asked_finite[OF inv]) auto
        then have card: "card (sv_asked s') \<le> card (sv_asked s)" unfolding s'(4) by simp
        have "agent_inv cfg s'"
        proof (rule agent_inv_update[OF inv s'(1)])
          fix r assume r: "r \<in> set (sv_rows s)" "row_inv (sv_stopOperations s \<union> stopping_ids (sv_recon s)) (sv_asked s) r"
          have "ws_id r = ws_id row \<Longrightarrow> list_ex gone (sv_rows s) \<Longrightarrow> gone r"
          proof -
            assume "ws_id r = ws_id row" "list_ex gone (sv_rows s)"
            then obtain q where "q \<in> set (sv_rows s)" "gone q" by (auto simp: list_ex_iff)
            moreover from this have "q = r"
              using same_id[of "sv_rows s" q r] sub r(1) \<open>ws_id r = ws_id row\<close> by (simp add: gone_def)
            ultimately show "gone r" by simp
          qed
          moreover have "gone r \<Longrightarrow> list_ex gone (sv_rows s)" using r(1) by (auto simp: list_ex_iff)
          ultimately show "row_inv (sv_stopOperations s' \<union> stopping_ids (sv_recon s')) (sv_asked s') (if gone r then f r else r)"
            using r(2) unfolding s'(2-4) row_inv_def by (auto simp: gone_def f_def)
        next
          show "int (card (sv_asked s')) + claims_left (sv_recon s') \<le> max 0 (cf_maxRunning cfg)"
            using sub card claims_left_nonneg[of "sv_recon s"] unfolding s'(2) claims_left.simps by linarith
        qed (use sub in \<open>auto simp: s'(4) f_def\<close>)
        then show ?thesis by (simp add: s'_def)
      qed
    qed
  qed (use inv in \<open>simp_all add: recon_check_def\<close>)
qed

lemma agent_inv_recon_claim: "agent_inv cfg s \<Longrightarrow> agent_inv cfg (recon_claim now s)"
proof (cases "sv_recon s")
  case (Claiming c)
  assume inv: "agent_inv cfg s"
  note sub = agent_inv_sub[OF inv]
  show ?thesis
  proof (cases "0 < c \<and> next_queued now s \<noteq> None")
    case False
    then have "recon_claim now s = s\<lparr>sv_recon := Idle\<rparr>" using Claiming by (auto simp: recon_claim_def split: option.split)
    then show ?thesis
      by (intro agent_inv_same[OF inv]) (use sub Claiming in \<open>auto simp: row_inv_def\<close>)
  next
    case True
    then obtain row where row: "next_queued now s = Some row" "0 < c" by blast
    then have mem: "row \<in> set (sv_rows s)" "ws_state row = Queued"
      unfolding next_queued_def using first_min_in by fastforce+
    define P where "P = (\<lambda>r :: workspace_row. ws_id r = ws_id row \<and> ws_state r = Queued)"
    have only: "r \<in> set (sv_rows s) \<Longrightarrow> ws_id r = ws_id row \<Longrightarrow> r = row" for r
      using same_id[of "sv_rows s" r row] sub mem(1) by simp
    have claimed: "length (filter P (sv_rows s)) = 1"
    proof -
      have "set (filter P (sv_rows s)) = {row}" using only mem by (auto simp: P_def)
      moreover have "distinct (filter P (sv_rows s))" using sub by (simp add: distinct_map)
      ultimately show ?thesis by (metis card.empty card_insert_disjoint distinct_card empty_iff finite.emptyI One_nat_def)
    qed
    define s' where "s' = recon_claim now s"
    have s': "sv_rows s' = map (\<lambda>r. if P r then r\<lparr>ws_state := Provisioning\<rparr> else r) (sv_rows s)"
      "sv_recon s' = Creating row (c - 1)" "sv_stopOperations s' = sv_stopOperations s" "sv_asked s' = insert (ws_id row) (sv_asked s)"
      using claimed row unfolding s'_def recon_claim_def Claiming P_def by (simp_all add: Let_def)
    have "card (insert (ws_id row) (sv_asked s)) \<le> Suc (card (sv_asked s))" by (rule card_insert_le_m1) (auto simp: asked_finite[OF inv])
    then have card: "int (card (sv_asked s')) + claims_left (sv_recon s') \<le> max 0 (cf_maxRunning cfg)"
      using sub row(2) Claiming unfolding s'(2,4) by simp
    have "agent_inv cfg s'"
    proof (rule agent_inv_update[OF inv s'(1)])
      fix r assume r: "r \<in> set (sv_rows s)" "row_inv (sv_stopOperations s \<union> stopping_ids (sv_recon s)) (sv_asked s) r"
      show "row_inv (sv_stopOperations s' \<union> stopping_ids (sv_recon s')) (sv_asked s') (if P r then r\<lparr>ws_state := Provisioning\<rparr> else r)"
        using r(2) only[OF r(1)] mem(2) unfolding s'(2-4) by (cases "ws_id r = ws_id row") (auto simp: row_inv_def P_def)
    qed (use sub mem card in \<open>auto simp: s'(4)\<close>)
    then show ?thesis by (simp add: s'_def)
  qed
qed (simp_all add: recon_claim_def)

lemma agent_inv_recon_created: "agent_inv cfg s \<Longrightarrow> agent_inv cfg (recon_created success s)"
proof (cases "sv_recon s")
  case (Creating row c)
  assume inv: "agent_inv cfg s"
  note sub = agent_inv_sub[OF inv]
  show ?thesis
  proof (cases success)
    case True
    then show ?thesis
      by (intro agent_inv_update[OF inv, where P = "\<lambda>r. ws_id r = ws_id row \<and> ws_state r = Provisioning"
            and f = "\<lambda>r. r\<lparr>ws_state := Running\<rparr>"])
        (use sub Creating in \<open>auto simp: recon_created_def row_inv_def\<close>)
  next
    case False
    then show ?thesis
      by (intro agent_inv_same[OF inv]) (use sub Creating in \<open>auto simp: recon_created_def row_inv_def\<close>)
  qed
qed (simp_all add: recon_created_def)

lemma agent_inv_maintenance: "agent_inv cfg s \<Longrightarrow> agent_inv cfg (maintenance now s)"
proof -
  assume inv: "agent_inv cfg s"
  have "sv_asked s \<subseteq> ws_id ` set (sv_rows (maintenance now s))"
  proof
    fix i assume i: "i \<in> sv_asked s"
    then obtain r where r: "r \<in> set (sv_rows s)" "i = ws_id r" using agent_inv_sub[OF inv] by auto
    then have "ws_state r \<in> {Provisioning, Running, Stopping}" using inv i by (auto simp: agent_inv_def row_inv_def)
    then show "i \<in> ws_id ` set (sv_rows (maintenance now s))" using r by (auto simp: maintenance_def)
  qed
  then show ?thesis using inv by (auto simp: agent_inv_def maintenance_def distinct_map inj_on_def)
qed

lemma agent_inv_create:
  assumes inv: "agent_inv cfg s" and create: "create_workspace cfg caps newId nv now wallet ip storage s = Inr (pub, s')"
    and fresh: "newId \<notin> ws_id ` set (sv_rows s)" "newId \<notin> sv_stopOperations s" "newId \<notin> sv_asked s" "newId \<notin> recon_ids (sv_recon s)"
  shows "agent_inv cfg s'"
proof -
  from create_Inr[OF create] obtain row where row: "sv_rows s' = sv_rows s @ [row]" "ws_id row = newId" "ws_state row = Queued"
    "sv_stopOperations s' = sv_stopOperations s" "sv_recon s' = sv_recon s" "sv_asked s' = sv_asked s" by blast
  have "stopping_ids r \<subseteq> recon_ids r" for r by (cases r) auto
  then have "newId \<notin> stopping_ids (sv_recon s)" using fresh(4) by blast
  then have "row_inv (sv_stopOperations s \<union> stopping_ids (sv_recon s)) (sv_asked s) row"
    using fresh by (simp add: row_inv_def row)
  moreover have "distinct (map ws_id (sv_rows s'))" using agent_inv_sub[OF inv] fresh(1) by (simp add: row)
  ultimately show ?thesis using inv unfolding agent_inv_def row(1,4,5,6) by auto
qed

lemma agent_inv_frame:
  "agent_inv cfg s \<Longrightarrow> sv_rows s' = sv_rows s \<Longrightarrow> sv_stopOperations s' = sv_stopOperations s \<Longrightarrow> sv_recon s' = sv_recon s
    \<Longrightarrow> sv_asked s' = sv_asked s \<Longrightarrow> agent_inv cfg s'"
  by (simp add: agent_inv_def)

lemma agent_inv_step: "svc_step cfg s s' \<Longrightarrow> agent_inv cfg s \<Longrightarrow> agent_inv cfg s'"
proof (induction rule: svc_step.induct)
  case (create caps newId nv now wallet ip storage s pub s')
  show ?case by (rule agent_inv_create[OF create.prems create.hyps(1-5)])
next
  case (destroy_begin wallet s v s')
  then show ?case by (auto simp: destroy_begin_def Let_def intro: agent_inv_frame split: option.splits if_splits)
next
  case (destroy_end wallet s v now success)
  then show ?case by (auto simp: destroy_end_def Let_def intro: agent_inv_frame)
next
  case (call now op agent wallet wid s r s')
  then show ?case using call_sel[OF call(1)] by (auto intro: agent_inv_frame)
qed (simp_all add: agent_inv_stop agent_inv_stop_ok agent_inv_stop_error agent_inv_start agent_inv_recon_stop
    agent_inv_recon_check agent_inv_recon_claim agent_inv_recon_created agent_inv_maintenance)


section \<open>Volumes\<close>

text \<open>
  One active volume per wallet; the volume of an active workspace is the active one of its wallet;
  a wallet whose volume is being destroyed has no active workspace on it.
\<close>

definition volumes_ok :: "svc \<Rightarrow> bool" where
  "volumes_ok s \<longleftrightarrow>
     distinct (map vol_id (sv_volumes s))
     \<and> (\<forall>v \<in> set (sv_volumes s). \<forall>u \<in> set (sv_volumes s).
          vol_wallet v = vol_wallet u \<and> vol_destroyed_at v = None \<and> vol_destroyed_at u = None \<longrightarrow> v = u)
     \<and> (\<forall>r \<in> set (sv_rows s). \<forall>i. active r \<and> ws_volume_id r = Some i \<longrightarrow>
          ws_wallet r \<notin> sv_destroying s
          \<and> (\<exists>v \<in> set (sv_volumes s). vol_id v = i \<and> vol_wallet v = ws_wallet r \<and> vol_destroyed_at v = None))"

lemma volumes_okI:
  assumes "distinct (map vol_id (sv_volumes s))"
    and "\<And>v u. v \<in> set (sv_volumes s) \<Longrightarrow> u \<in> set (sv_volumes s) \<Longrightarrow> vol_wallet v = vol_wallet u
      \<Longrightarrow> vol_destroyed_at v = None \<Longrightarrow> vol_destroyed_at u = None \<Longrightarrow> v = u"
    and "\<And>r i. r \<in> set (sv_rows s) \<Longrightarrow> active r \<Longrightarrow> ws_volume_id r = Some i \<Longrightarrow> ws_wallet r \<notin> sv_destroying s
      \<and> (\<exists>v \<in> set (sv_volumes s). vol_id v = i \<and> vol_wallet v = ws_wallet r \<and> vol_destroyed_at v = None)"
  shows "volumes_ok s"
  using assms unfolding volumes_ok_def by blast

lemma volumes_okD:
  assumes "volumes_ok s"
  shows "distinct (map vol_id (sv_volumes s))"
    and "v \<in> set (sv_volumes s) \<Longrightarrow> u \<in> set (sv_volumes s) \<Longrightarrow> vol_wallet v = vol_wallet u
      \<Longrightarrow> vol_destroyed_at v = None \<Longrightarrow> vol_destroyed_at u = None \<Longrightarrow> v = u"
    and "r \<in> set (sv_rows s) \<Longrightarrow> active r \<Longrightarrow> ws_volume_id r = Some i \<Longrightarrow> ws_wallet r \<notin> sv_destroying s
      \<and> (\<exists>v \<in> set (sv_volumes s). vol_id v = i \<and> vol_wallet v = ws_wallet r \<and> vol_destroyed_at v = None)"
  using assms unfolding volumes_ok_def by blast+

lemma volumes_ok_initial: "volumes_ok new_service"
  by (simp add: volumes_ok_def new_service_def)

lemma volumes_ok_evolve:
  assumes "volumes_ok s" "rows_evolve (sv_rows s) (sv_rows s')" "sv_volumes s' = sv_volumes s" "sv_destroying s' \<subseteq> sv_destroying s"
  shows "volumes_ok s'"
proof -
  obtain g keep where g: "sv_rows s' = map g (filter keep (sv_rows s))" "\<forall>r \<in> set (sv_rows s). evolves r (g r) \<and> (keep r \<or> terminal r)"
    using assms(2) unfolding rows_evolve_def by blast
  have "\<exists>r \<in> set (sv_rows s). ws_wallet r = ws_wallet r' \<and> ws_volume_id r = ws_volume_id r' \<and> (active r' \<longrightarrow> active r)"
    if "r' \<in> set (sv_rows s')" for r'
  proof -
    from that g(1) obtain r where r: "r \<in> set (sv_rows s)" "r' = g r" by auto
    then have "evolves r r'" using g(2) by blast
    then show ?thesis using r(1)
      by (intro bexI[of _ r]) (auto simp: evolves_def next_state_def active_def active_state_def)
  qed
  note earlier = this
  show ?thesis
  proof (rule volumes_okI)
    fix r' i assume r': "r' \<in> set (sv_rows s')" "active r'" "ws_volume_id r' = Some i"
    from earlier[OF r'(1)] obtain r where r: "r \<in> set (sv_rows s)" "ws_wallet r = ws_wallet r'" "ws_volume_id r = ws_volume_id r'"
      "active r" using r'(2) by blast
    from volumes_okD(3)[OF assms(1) r(1,4), of i] r r'(3) assms(3,4)
    show "ws_wallet r' \<notin> sv_destroying s'
      \<and> (\<exists>v \<in> set (sv_volumes s'). vol_id v = i \<and> vol_wallet v = ws_wallet r' \<and> vol_destroyed_at v = None)" by auto
  qed (use volumes_okD[OF assms(1)] assms(3) in auto)
qed

lemma active_volume_Some: "active_volume w s = Some v \<Longrightarrow> v \<in> set (sv_volumes s) \<and> vol_wallet v = w \<and> vol_destroyed_at v = None"
  unfolding active_volume_def by (auto simp: find_Some_iff)

lemma active_volume_None: "active_volume w s = None \<Longrightarrow> v \<in> set (sv_volumes s) \<Longrightarrow> vol_wallet v = w \<Longrightarrow> vol_destroyed_at v \<noteq> None"
  unfolding active_volume_def by (auto simp: find_None_iff)

lemma volumes_ok_create:
  assumes ok: "volumes_ok s" and create: "create_workspace cfg caps newId nv now wallet ip storage s = Inr (pub, s')"
    and fresh: "nv \<notin> vol_id ` set (sv_volumes s)"
  shows "volumes_ok s'"
proof -
  from create_Inr[OF create] obtain row where row: "sv_rows s' = sv_rows s @ [row]" "ws_wallet row = to_lower wallet"
    "sv_destroying s' = sv_destroying s"
    and storage: "if storage = Some Persistent
         then to_lower wallet \<notin> sv_destroying s \<and> (\<exists>v s1. getOrCreatePersistentVolume cfg nv (to_lower wallet) now s = (v, s1)
            \<and> sv_volumes s' = sv_volumes s1 \<and> ws_volume_id row = Some (vol_id v) \<and> ws_quota row = vol_quota v)
         else sv_volumes s' = sv_volumes s \<and> ws_volume_id row = None \<and> ws_quota row = cf_storageQuotaBytes cfg" by blast
  show ?thesis
  proof (cases "storage = Some Persistent")
    case False
    with storage ok show ?thesis unfolding volumes_ok_def row(1,3) by auto
  next
    case True
    then obtain v s1 where v: "getOrCreatePersistentVolume cfg nv (to_lower wallet) now s = (v, s1)"
      "sv_volumes s' = sv_volumes s1" "ws_volume_id row = Some (vol_id v)" "to_lower wallet \<notin> sv_destroying s"
      using storage by auto
    show ?thesis
    proof (cases "active_volume (to_lower wallet) s")
      case (Some old)
      define f where "f = (\<lambda>u :: volume_row. if vol_id u = vol_id old then u\<lparr>vol_last_attached_at := now\<rparr> else u)"
      have vols: "sv_volumes s' = map f (sv_volumes s)" and id: "vol_id v = vol_id old"
        using v by (auto simp: getOrCreatePersistentVolume_def Some f_def)
      have sel: "vol_id (f u) = vol_id u" "vol_wallet (f u) = vol_wallet u" "vol_destroyed_at (f u) = vol_destroyed_at u" for u
        by (simp_all add: f_def)
      have ids: "map vol_id (map f (sv_volumes s)) = map vol_id (sv_volumes s)" by (simp add: sel)
      show ?thesis
      proof (rule volumes_okI)
        show "distinct (map vol_id (sv_volumes s'))" unfolding vols ids by (rule volumes_okD(1)[OF ok])
        fix x y assume "x \<in> set (sv_volumes s')" "y \<in> set (sv_volumes s')" "vol_wallet x = vol_wallet y"
          "vol_destroyed_at x = None" "vol_destroyed_at y = None"
        then obtain x' y' where "x' \<in> set (sv_volumes s)" "y' \<in> set (sv_volumes s)" "x = f x'" "y = f y'"
          "vol_wallet x' = vol_wallet y'" "vol_destroyed_at x' = None" "vol_destroyed_at y' = None"
          unfolding vols by (auto simp: sel)
        then show "x = y" using volumes_okD(2)[OF ok] by blast
      next
        fix r i assume r: "r \<in> set (sv_rows s')" "active r" "ws_volume_id r = Some i"
        have "ws_wallet r \<notin> sv_destroying s \<and>
            (\<exists>u \<in> set (sv_volumes s). vol_id u = i \<and> vol_wallet u = ws_wallet r \<and> vol_destroyed_at u = None)"
          using r volumes_okD(3)[OF ok] active_volume_Some[OF Some] v(3,4) unfolding row(1) by (auto simp: row(2) id)
        then show "ws_wallet r \<notin> sv_destroying s'
            \<and> (\<exists>v \<in> set (sv_volumes s'). vol_id v = i \<and> vol_wallet v = ws_wallet r \<and> vol_destroyed_at v = None)"
          unfolding vols row(3) by (auto simp: sel)
      qed
    next
      case None
      define new where "new = \<lparr>vol_id = nv, vol_wallet = to_lower wallet, vol_quota = cf_storageQuotaBytes cfg,
                        vol_created_at = now, vol_last_attached_at = now, vol_destroyed_at = None\<rparr>"
      have vols: "sv_volumes s' = sv_volumes s @ [new]" and id: "v = new"
        using v by (auto simp: getOrCreatePersistentVolume_def None new_def Let_def)
      have "vol_wallet u \<noteq> to_lower wallet \<or> vol_destroyed_at u \<noteq> None" if "u \<in> set (sv_volumes s)" for u
        using active_volume_None[OF None that] by blast
      note none = this
      have new: "vol_id new = nv" "vol_wallet new = to_lower wallet" "vol_destroyed_at new = None" by (simp_all add: new_def)
      show ?thesis
      proof (rule volumes_okI)
        show "distinct (map vol_id (sv_volumes s'))" using fresh volumes_okD(1)[OF ok] by (simp add: vols new)
        fix x y assume xy: "x \<in> set (sv_volumes s')" "y \<in> set (sv_volumes s')" "vol_wallet x = vol_wallet y"
          "vol_destroyed_at x = None" "vol_destroyed_at y = None"
        have "x = new \<or> x \<in> set (sv_volumes s)" "y = new \<or> y \<in> set (sv_volumes s)" using xy(1,2) by (auto simp: vols)
        then show "x = y"
        proof (elim disjE)
          assume "x \<in> set (sv_volumes s)" "y \<in> set (sv_volumes s)"
          from volumes_okD(2)[OF ok this xy(3-5)] show ?thesis .
        qed (use none[of x] none[of y] new(2) xy(3-5) in metis)+
      next
        fix r i assume r: "r \<in> set (sv_rows s')" "active r" "ws_volume_id r = Some i"
        show "ws_wallet r \<notin> sv_destroying s'
            \<and> (\<exists>v \<in> set (sv_volumes s'). vol_id v = i \<and> vol_wallet v = ws_wallet r \<and> vol_destroyed_at v = None)"
        proof (cases "r = row")
          case True
          then show ?thesis using r(3) v(3,4) new by (auto simp: vols row(2,3) id)
        next
          case False
          then have "r \<in> set (sv_rows s)" using r(1) by (simp add: row(1))
          from volumes_okD(3)[OF ok this r(2,3)] show ?thesis by (auto simp: vols row(3))
        qed
      qed
    qed
  qed
qed

lemma volumes_ok_destroy_begin:
  assumes "volumes_ok s" "destroy_begin wallet s = Inr (v, s')"
  shows "volumes_ok s'"
proof -
  from assms(2) have v: "active_volume (to_lower wallet) s = Some v"
    "\<forall>r \<in> set (sv_rows s). \<not> (ws_volume_id r = Some (vol_id v) \<and> active r)"
    "s' = s\<lparr>sv_destroying := insert (to_lower wallet) (sv_destroying s)\<rparr>"
    by (auto simp: destroy_begin_def Let_def list_ex_iff split: option.splits if_splits)
  show ?thesis
  proof (rule volumes_okI)
    fix r i assume r: "r \<in> set (sv_rows s')" "active r" "ws_volume_id r = Some i"
    then have old: "ws_wallet r \<notin> sv_destroying s" "\<exists>u \<in> set (sv_volumes s). vol_id u = i \<and> vol_wallet u = ws_wallet r \<and> vol_destroyed_at u = None"
      using volumes_okD(3)[OF assms(1)] v(3) by auto
    then obtain u where u: "u \<in> set (sv_volumes s)" "vol_id u = i" "vol_wallet u = ws_wallet r" "vol_destroyed_at u = None" by blast
    have "ws_wallet r \<noteq> to_lower wallet"
    proof
      assume "ws_wallet r = to_lower wallet"
      then have "u = v" using volumes_okD(2)[OF assms(1) u(1), of v] u active_volume_Some[OF v(1)] by simp
      then show False using v(2,3) r u(2) by auto
    qed
    then show "ws_wallet r \<notin> sv_destroying s'
      \<and> (\<exists>v \<in> set (sv_volumes s'). vol_id v = i \<and> vol_wallet v = ws_wallet r \<and> vol_destroyed_at v = None)"
      using old v(3) by auto
  qed (use volumes_okD[OF assms(1)] v(3) in auto)
qed

lemma volumes_ok_destroy_end:
  assumes ok: "volumes_ok s" and w: "wallet \<in> sv_destroying s" and v: "v \<in> set (sv_volumes s)" "vol_wallet v = wallet"
  shows "volumes_ok (destroy_end now wallet (vol_id v) success s)"
proof (cases success)
  case False
  then show ?thesis using ok by (auto simp: volumes_ok_def destroy_end_def)
next
  case True
  define f where "f = (\<lambda>u :: volume_row. if vol_id u = vol_id v \<and> vol_destroyed_at u = None then u\<lparr>vol_destroyed_at := Some now\<rparr> else u)"
  have s': "sv_rows (destroy_end now wallet (vol_id v) success s) = sv_rows s"
    "sv_volumes (destroy_end now wallet (vol_id v) success s) = map f (sv_volumes s)"
    "sv_destroying (destroy_end now wallet (vol_id v) success s) = sv_destroying s - {wallet}"
    using True by (simp_all add: destroy_end_def f_def)
  have sel: "vol_id (f u) = vol_id u" "vol_wallet (f u) = vol_wallet u"
    "f u = u \<or> vol_destroyed_at (f u) = Some now" for u
    by (simp_all add: f_def)
  have ids: "map vol_id (map f (sv_volumes s)) = map vol_id (sv_volumes s)" by (simp add: sel)
  have other: "f u = u" if "u \<in> set (sv_volumes s)" "vol_wallet u \<noteq> wallet" for u
  proof -
    have "vol_id u \<noteq> vol_id v"
    proof
      assume "vol_id u = vol_id v"
      then have "u = v" using ok that(1) v(1) by (auto simp: volumes_ok_def distinct_map inj_on_def)
      with that(2) v(2) show False by simp
    qed
    then show ?thesis by (simp add: f_def)
  qed
  have rows: "ws_wallet r \<notin> sv_destroying s - {wallet} \<and>
      (\<exists>u \<in> set (map f (sv_volumes s)). vol_id u = i \<and> vol_wallet u = ws_wallet r \<and> vol_destroyed_at u = None)"
    if "r \<in> set (sv_rows s)" "active r" "ws_volume_id r = Some i" for r i
  proof -
    from ok that obtain u where u: "ws_wallet r \<notin> sv_destroying s" "u \<in> set (sv_volumes s)" "vol_id u = i"
      "vol_wallet u = ws_wallet r" "vol_destroyed_at u = None" unfolding volumes_ok_def by blast
    then have "f u = u" using w by (intro other) auto
    then show ?thesis using u by force
  qed
  show ?thesis
    unfolding volumes_ok_def s' ids
  proof (intro conjI ballI impI allI)
    show "distinct (map vol_id (sv_volumes s))" using ok by (simp add: volumes_ok_def)
    fix x y assume "x \<in> set (map f (sv_volumes s))" "y \<in> set (map f (sv_volumes s))"
      "vol_wallet x = vol_wallet y \<and> vol_destroyed_at x = None \<and> vol_destroyed_at y = None"
    then have "x \<in> set (sv_volumes s)" "y \<in> set (sv_volumes s)" "vol_wallet x = vol_wallet y"
      "vol_destroyed_at x = None" "vol_destroyed_at y = None" using sel(3) by (auto, (metis option.distinct(1))+)
    then show "x = y" using ok unfolding volumes_ok_def by blast
  qed (use rows in \<open>auto simp del: set_map\<close>)
qed

lemma volumes_ok_step:
  assumes "svc_step cfg s s'" "volumes_ok s"
  shows "volumes_ok s'"
  using assms(1)
proof (cases rule: step_kinds)
  case frame
  then show ?thesis using volumes_ok_evolve[OF assms(2)] by (simp add: frame_volumes_def)
next
  case create
  then show ?thesis using volumes_ok_create[OF assms(2)] by blast
next
  case destroy_begin
  then show ?thesis using volumes_ok_destroy_begin[OF assms(2)] by blast
next
  case destroy_end
  then show ?thesis using volumes_ok_destroy_end[OF assms(2)] by blast
qed

lemma limits_ok_initial: "limits_ok cfg new_service"
  by (simp add: limits_ok_def count_rows_def new_service_def)

lemma reachable_inv:
  assumes "svc_reachable cfg s"
  shows "agent_inv cfg s \<and> limits_ok cfg s \<and> volumes_ok s"
  using assms[unfolded svc_reachable_def]
proof (induction rule: rtranclp_induct)
  case base
  then show ?case by (simp add: agent_inv_initial limits_ok_initial volumes_ok_initial)
next
  case (step s s')
  then show ?case using agent_inv_step limits_step volumes_ok_step by blast
qed

section \<open>Properties of the workspace service\<close>

text \<open>A run to try the properties on: a persistent workspace is requested, claimed and started.\<close>

definition sample_config :: ws_config where
  "sample_config = \<lparr>cf_maxActivePerWallet = 1, cf_maxActivePerIp = 2, cf_dailyPerWallet = 6, cf_dailyPerIp = 12,
     cf_maxQueue = 20, cf_maxRunning = 2, cf_leaseMs = 3600000, cf_runtime = ''pty'', cf_storageQuotaBytes = 536870912\<rparr>"

definition sample_created :: svc where
  "sample_created = (case create_workspace sample_config None ''w1'' ''v1'' 1000 ''0xAB'' ''ip'' (Some Persistent) new_service of
     Inr (pub, s) \<Rightarrow> s | Inl e \<Rightarrow> new_service)"

definition sample_claimed :: svc where
  "sample_claimed =
     recon_claim 1001 (recon_check sample_config 1001 AgentRunning (recon_stop (recon_start 1001 sample_created)))"

definition sample_running :: svc where
  "sample_running = recon_created True sample_claimed"

lemma sample_row:
  "sv_rows sample_running = [\<lparr>ws_id = ''w1'', ws_wallet = ''0xab'', ws_ip_hash = ''ip'', ws_state = Running, ws_runtime = ''pty'',
     ws_created_at = 1000, ws_lease_expires_at = 3601000, ws_stopped_at = None, ws_failure = None,
     ws_storage_mode = Persistent, ws_volume_id = Some ''v1'', ws_quota = 536870912\<rparr>]"
  by code_simp

lemma sample_asked: "sv_asked sample_running = {''w1''}"
  by code_simp

lemma reachable_step: "svc_reachable cfg s \<Longrightarrow> svc_step cfg s s' \<Longrightarrow> svc_reachable cfg s'"
  unfolding svc_reachable_def by (rule rtranclp.rtrancl_into_rtrancl)

lemma reachable_new: "svc_reachable cfg new_service"
  by (simp add: svc_reachable_def)

lemma sample_create_step: "svc_step sample_config new_service sample_created"
proof -
  have "isl (create_workspace sample_config None ''w1'' ''v1'' 1000 ''0xAB'' ''ip'' (Some Persistent) new_service) = False" by code_simp
  then obtain pub s where "create_workspace sample_config None ''w1'' ''v1'' 1000 ''0xAB'' ''ip'' (Some Persistent) new_service = Inr (pub, s)"
    by (metis isl_def old.sum.exhaust surj_pair)
  moreover from this have "s = sample_created" by (simp add: sample_created_def)
  ultimately show ?thesis by (intro svc_step.create) (auto simp: new_service_def)
qed

lemma sample_reachable: "svc_reachable sample_config sample_running"
  unfolding sample_running_def sample_claimed_def
  by (rule reachable_step[OF _ svc_step.recon_created]
      reachable_step[OF _ svc_step.recon_claim] reachable_step[OF _ svc_step.recon_check]
      reachable_step[OF _ svc_step.recon_stop] reachable_step[OF _ svc_step.reconcile]
      reachable_step[OF reachable_new sample_create_step])+

text \<open>C1. The node agent is never asked for more than it can run. However creations, stops, reconciliation,
  agent replies and volume operations interleave, the workspaces the agent was asked to create and has not
  since reported stopped or gone are at most \<open>maxRunning\<close>, and every workspace that is provisioning
  or running is one of them.\<close>

theorem workspace_capacity:
  assumes "svc_reachable cfg s"
  shows "int (card (sv_asked s)) \<le> max 0 (cf_maxRunning cfg)
    \<and> count_rows (\<lambda>r. ws_state r \<in> {Provisioning, Running}) s \<le> max 0 (cf_maxRunning cfg)
    \<and> (\<forall>r \<in> set (sv_rows s). ws_state r \<in> {Provisioning, Running} \<longrightarrow> ws_id r \<in> sv_asked s)"
proof -
  have inv: "agent_inv cfg s" using reachable_inv[OF assms] by blast
  note sub = agent_inv_sub[OF inv]
  have bound: "int (card (sv_asked s)) \<le> max 0 (cf_maxRunning cfg)"
    using sub claims_left_nonneg[of "sv_recon s"] by linarith
  have rows: "\<forall>r \<in> set (sv_rows s). ws_state r \<in> {Provisioning, Running} \<longrightarrow> ws_id r \<in> sv_asked s"
    using inv by (auto simp: agent_inv_def row_inv_def)
  define fs where "fs = filter (\<lambda>r. ws_state r \<in> {Provisioning, Running}) (sv_rows s)"
  have "distinct (map ws_id fs)" using sub by (auto simp: fs_def distinct_map inj_on_def)
  then have "length fs = card (ws_id ` set fs)" by (metis distinct_card length_map set_map)
  also have "\<dots> \<le> card (sv_asked s)"
    by (rule card_mono[OF asked_finite[OF inv]]) (use rows in \<open>auto simp: fs_def\<close>)
  finally show ?thesis using bound rows by (auto simp: count_rows_def fs_def)
qed

theorem workspace_capacity_witness: "int (card (sv_asked sample_running)) \<le> 2 \<and> ''w1'' \<in> sv_asked sample_running"
  using workspace_capacity[OF sample_reachable] by (simp add: sample_row sample_config_def)

text \<open>C3. In every reachable state each wallet has at most \<open>maxActivePerWallet\<close> active workspaces, each network
  at most \<open>maxActivePerIp\<close>, and at most \<open>maxQueue\<close> wait in the queue.\<close>

theorem workspace_limits:
  assumes "svc_reachable cfg s"
  shows "count_rows (\<lambda>r. ws_wallet r = w \<and> active r) s \<le> max 0 (cf_maxActivePerWallet cfg)
    \<and> count_rows (\<lambda>r. ws_ip_hash r = ip \<and> active r) s \<le> max 0 (cf_maxActivePerIp cfg)
    \<and> count_rows (\<lambda>r. ws_state r = Queued) s \<le> max 0 (cf_maxQueue cfg)"
  using reachable_inv[OF assms] by (simp add: limits_ok_def)

theorem workspace_limits_witness: "count_rows (\<lambda>r. ws_wallet r = ''0xab'' \<and> active r) sample_running \<le> 1"
  using workspace_limits[OF sample_reachable, of "''0xab''" "''ip''"] by (simp add: sample_config_def)

text \<open>C2. A persistent volume is never lost under a workspace and never shared: in every reachable state a
  wallet has at most one volume that is not destroyed, and the volume of every active persistent
  workspace exists, belongs to the wallet of the workspace, is not destroyed and is not being destroyed.\<close>

theorem workspace_volumes:
  assumes "svc_reachable cfg s"
  shows "(\<forall>v \<in> set (sv_volumes s). \<forall>u \<in> set (sv_volumes s).
      vol_wallet v = vol_wallet u \<and> vol_destroyed_at v = None \<and> vol_destroyed_at u = None \<longrightarrow> v = u)
    \<and> (\<forall>r \<in> set (sv_rows s). \<forall>i. active r \<and> ws_volume_id r = Some i \<longrightarrow>
        ws_wallet r \<notin> sv_destroying s
        \<and> (\<exists>v \<in> set (sv_volumes s). vol_id v = i \<and> vol_wallet v = ws_wallet r \<and> vol_destroyed_at v = None))"
  using reachable_inv[OF assms] by (simp add: volumes_ok_def)

theorem workspace_volumes_witness: "\<exists>v \<in> set (sv_volumes sample_running). vol_id v = ''v1'' \<and> vol_destroyed_at v = None"
  using workspace_volumes[OF sample_reachable] by (auto simp: sample_row active_def active_state_def)



text \<open>The queue is first come, first served: a claim takes a workspace that was created no later than any
  other queued one whose lease has not ended, marks exactly that one as provisioning and asks the
  agent for it with its own wallet, lease, quota and volume.\<close>

theorem workspace_claim_fifo:
  assumes "svc_reachable cfg s" "sv_recon s = Claiming c" "sv_recon (recon_claim now s) = Creating row k"
  shows "row \<in> set (sv_rows s) \<and> ws_state row = Queued \<and> now < ws_lease_expires_at row
    \<and> (\<forall>r \<in> set (sv_rows s). ws_state r = Queued \<and> now < ws_lease_expires_at r \<longrightarrow> ws_created_at row \<le> ws_created_at r)
    \<and> sv_rows (recon_claim now s) = map (\<lambda>r. if r = row then r\<lparr>ws_state := Provisioning\<rparr> else r) (sv_rows s)
    \<and> sv_asked (recon_claim now s) = insert (ws_id row) (sv_asked s) \<and> 0 < c \<and> k = c - 1"
proof -
  have next_row: "next_queued now s = Some row" and c: "0 < c" "k = c - 1"
    and s': "sv_rows (recon_claim now s) = map (\<lambda>r. if ws_id r = ws_id row \<and> ws_state r = Queued
        then r\<lparr>ws_state := Provisioning\<rparr> else r) (sv_rows s)"
      "sv_asked (recon_claim now s) = insert (ws_id row) (sv_asked s)"
    using assms(2,3) unfolding recon_claim_def
    by (auto simp: Let_def split: option.splits if_splits)
  from first_min_in[OF next_row[unfolded next_queued_def]] have row: "row \<in> set (sv_rows s)" "ws_state row = Queued"
    "now < ws_lease_expires_at row"
    "\<forall>r \<in> set (sv_rows s). ws_state r = Queued \<and> now < ws_lease_expires_at r \<longrightarrow> ws_created_at row \<le> ws_created_at r" by auto
  have "distinct (map ws_id (sv_rows s))" using reachable_inv[OF assms(1)] by (simp add: agent_inv_def)
  then have "\<forall>r \<in> set (sv_rows s). (ws_id r = ws_id row \<and> ws_state r = Queued) = (r = row)"
    using same_id[of "sv_rows s" _ row] row by auto
  then have "sv_rows (recon_claim now s) = map (\<lambda>r. if r = row then r\<lparr>ws_state := Provisioning\<rparr> else r) (sv_rows s)"
    unfolding s'(1) by simp
  with row c s'(2) show ?thesis by blast
qed

definition sample_claiming :: svc where
  "sample_claiming = recon_check sample_config 1001 AgentRunning (recon_stop (recon_start 1001 sample_created))"

lemma sample_claiming_reachable: "svc_reachable sample_config sample_claiming"
  unfolding sample_claiming_def
  by (rule reachable_step[OF _ svc_step.recon_check] reachable_step[OF _ svc_step.recon_stop]
      reachable_step[OF _ svc_step.reconcile] reachable_step[OF reachable_new sample_create_step])+

theorem workspace_claim_fifo_witness:
  "\<exists>row. ws_id row = ''w1'' \<and> ws_state row = Queued \<and> row \<in> set (sv_rows sample_claiming)"
proof -
  have 1: "sv_recon sample_claiming = Claiming 2" by code_simp
  have "(case sv_recon (recon_claim 1001 sample_claiming) of Creating row k \<Rightarrow> ws_id row = ''w1'' | _ \<Rightarrow> False)" by code_simp
  then obtain row k where 2: "sv_recon (recon_claim 1001 sample_claiming) = Creating row k" "ws_id row = ''w1''"
    by (auto split: recon.splits)
  from workspace_claim_fifo[OF sample_claiming_reachable 1 2(1)] 2(2) show ?thesis by blast
qed

text \<open>\<open>create\<close> admits a request exactly when the storage it asks for is available and all five limits leave
  room, counted over the rows of the wallet and of the network, active now and in the last 24 hours.\<close>

theorem create_workspace_admits:
  "(\<exists>pub s'. create_workspace cfg caps newId nv now wallet ip storage s = Inr (pub, s')) \<longleftrightarrow>
     (storage = Some Persistent \<longrightarrow>
        \<not> (\<exists>c. caps = Some c \<and> dc_persistence c = Some False) \<and> to_lower wallet \<notin> sv_destroying s)
     \<and> count_rows (\<lambda>r. ws_wallet r = to_lower wallet \<and> active r) s < cf_maxActivePerWallet cfg
     \<and> count_rows (\<lambda>r. ws_ip_hash r = ip \<and> active r) s < cf_maxActivePerIp cfg
     \<and> count_rows (\<lambda>r. ws_wallet r = to_lower wallet \<and> now - 86400000 \<le> ws_created_at r) s < cf_dailyPerWallet cfg
     \<and> count_rows (\<lambda>r. ws_ip_hash r = ip \<and> now - 86400000 \<le> ws_created_at r) s < cf_dailyPerIp cfg
     \<and> count_rows (\<lambda>r. ws_state r = Queued) s < cf_maxQueue cfg"
proof -
  have m: "(case storage of None \<Rightarrow> Disposable | Some m \<Rightarrow> m) = Persistent \<longleftrightarrow> storage = Some Persistent"
    by (cases storage) auto
  have c: "(case caps of None \<Rightarrow> False | Some c \<Rightarrow> dc_persistence c = Some False) \<longleftrightarrow> (\<exists>c. caps = Some c \<and> dc_persistence c = Some False)"
    by (cases caps) auto
  have bind: "(\<exists>pub s'. rbind a (\<lambda>_. Inr (f, g)) = Inr (pub, s')) \<longleftrightarrow> a = Inr ()" for a :: "(ws_error, unit) res"
    and f :: public_workspace and g :: svc by (cases a) auto
  have adm: "admission cfg (to_lower wallet) ip (now - 24 * 60 * 60000) s = Inr () \<longleftrightarrow>
     count_rows (\<lambda>r. ws_wallet r = to_lower wallet \<and> active r) s < cf_maxActivePerWallet cfg
     \<and> count_rows (\<lambda>r. ws_ip_hash r = ip \<and> active r) s < cf_maxActivePerIp cfg
     \<and> count_rows (\<lambda>r. ws_wallet r = to_lower wallet \<and> now - 86400000 \<le> ws_created_at r) s < cf_dailyPerWallet cfg
     \<and> count_rows (\<lambda>r. ws_ip_hash r = ip \<and> now - 86400000 \<le> ws_created_at r) s < cf_dailyPerIp cfg
     \<and> count_rows (\<lambda>r. ws_state r = Queued) s < cf_maxQueue cfg"
    unfolding admission_Inr by simp
  show ?thesis
    unfolding create_workspace_def Let_def m c adm[symmetric]
    by (cases "admission cfg (to_lower wallet) ip (now - 24 * 60 * 60000) s"; cases "storage = Some Persistent";
        cases "getOrCreatePersistentVolume cfg nv (to_lower wallet) now s") (auto simp: apfst_def)
qed

theorem create_workspace_admits_witness:
  "\<exists>pub s'. create_workspace sample_config None ''w1'' ''v1'' 0 ''0xAB'' ''ip'' (Some Persistent) new_service = Inr (pub, s')"
  unfolding create_workspace_admits by (simp add: sample_config_def new_service_def count_rows_def)



end
