(* ===== verification/Encoding.thy ===== *)
theory Encoding
  imports Prelude RegExps "HOL-Library.Word"
begin

text \<open>
  What Node does to bytes and strings at the borders of the program: \<open>Buffer.toString("base64")\<close>
  and \<open>Buffer.from(s, "base64")\<close>, the \<open>ascii\<close> decoding, big-endian 32-bit reads and writes,
  \<open>Buffer.byteLength\<close>, \<open>trim\<close> and \<open>split(/[ \t]+/)\<close>. Node's base64 decoder also accepts
  strings that are not an encoding; \<open>base64_decode\<close> agrees with it on the strings that match
  the pattern \<open>base64_rx\<close>, and everywhere the program decodes it first matches that pattern or
  compares the re-encoding with the input, which \<open>base64_canonical\<close> shows to be the same for
  every decoder that inverts the encoder.
\<close>

type_synonym octets = "8 word list"

section \<open>Base64\<close>

definition is_b64 :: "char \<Rightarrow> bool" where
  "is_b64 c \<longleftrightarrow> is_alpha c \<or> is_digit c \<or> c = CHR ''+'' \<or> c = CHR ''/''"

definition b64_char :: "nat \<Rightarrow> char" where
  "b64_char n =
     (if n < 26 then char_of (65 + n) else if n < 52 then char_of (71 + n)
      else if n < 62 then char_of (n - 4) else if n = 62 then CHR ''+'' else CHR ''/'')"

definition b64_val :: "char \<Rightarrow> nat" where
  "b64_val c =
     (if is_upper c then code c - 65 else if is_lower c then code c - 71
      else if is_digit c then code c + 4 else if c = CHR ''+'' then 62 else 63)"

fun base64_encode :: "octets \<Rightarrow> string" where
  "base64_encode [] = []"
| "base64_encode [a] = [b64_char (unat a div 4), b64_char (unat a mod 4 * 16), CHR ''='', CHR ''='']"
| "base64_encode [a, b] =
     [b64_char (unat a div 4), b64_char (unat a mod 4 * 16 + unat b div 16), b64_char (unat b mod 16 * 4), CHR ''='']"
| "base64_encode (a # b # c # bs) =
     [b64_char (unat a div 4), b64_char (unat a mod 4 * 16 + unat b div 16),
      b64_char (unat b mod 16 * 4 + unat c div 64), b64_char (unat c mod 64)] @ base64_encode bs"

fun base64_decode :: "string \<Rightarrow> octets" where
  "base64_decode (p # q # r # s # cs) =
     (let a = b64_val p; b = b64_val q; c = b64_val r; d = b64_val s
      in if r = CHR ''='' then [of_nat (a * 4 + b div 16)]
         else if s = CHR ''='' then [of_nat (a * 4 + b div 16), of_nat (b mod 16 * 16 + c div 4)]
         else [of_nat (a * 4 + b div 16), of_nat (b mod 16 * 16 + c div 4), of_nat (c mod 4 * 64 + d)] @ base64_decode cs)"
| "base64_decode _ = []"

lemma b64_val_char [simp]: "n < 64 \<Longrightarrow> b64_val (b64_char n) = n"
  by (auto simp: b64_char_def b64_val_def is_upper_def is_lower_def is_digit_def code_def)

lemma is_b64_char [simp]: "is_b64 (b64_char n)"
  by (auto simp: b64_char_def is_b64_def is_alpha_def is_upper_def is_lower_def is_digit_def code_def)

lemma is_b64_not_pad: "is_b64 c \<Longrightarrow> c \<noteq> CHR ''=''"
  by (auto simp: is_b64_def char_class_defs)

lemma b64_char_not_pad [simp]: "b64_char n \<noteq> CHR ''=''" "CHR ''='' \<noteq> b64_char n"
  using is_b64_not_pad[OF is_b64_char] by metis+

lemma octet_less [simp]: "unat (b :: 8 word) < 256"
  using unsigned_less[of b] by simp

lemma octet_div [simp]:
  "unat (b :: 8 word) div 4 < 64" "unat b div 16 < 16" "unat b div 64 < 4"
  using octet_less[of b] by linarith+

text \<open>The 6-bit groups of three octets, put together again.\<close>

lemma sextets:
  fixes a b c :: nat
  assumes "b < 256" "c < 256"
  shows "a div 4 * 4 + (a mod 4 * 16 + b div 16) div 16 = a"
    "(a mod 4 * 16 + b div 16) mod 16 * 16 + (b mod 16 * 4 + c div 64) div 4 = b"
    "(b mod 16 * 4 + c div 64) mod 4 * 64 + c mod 64 = c"
proof -
  have "b div 16 < 16" "c div 64 < 4" using assms by linarith+
  then show "a div 4 * 4 + (a mod 4 * 16 + b div 16) div 16 = a"
    "(a mod 4 * 16 + b div 16) mod 16 * 16 + (b mod 16 * 4 + c div 64) div 4 = b"
    "(b mod 16 * 4 + c div 64) mod 4 * 64 + c mod 64 = c" by simp_all
qed

lemma sextet_less:
  fixes a b :: nat
  shows "b < 256 \<Longrightarrow> a mod 4 * 16 + b div 16 < 64" "b < 256 \<Longrightarrow> a mod 16 * 4 + b div 64 < 64"
  by linarith+

lemma base64_decode_encode [simp]: "base64_decode (base64_encode bs) = bs"
proof (induction bs rule: base64_encode.induct)
  case (2 a)
  show ?case using sextets(1)[of 0 0 "unat a"] sextet_less(1)[of 0 "unat a"]
    by (simp add: Let_def del: of_nat_add of_nat_mult)
next
  case (3 a b)
  show ?case using sextets(1,2)[of "unat b" 0 "unat a"] sextet_less(1)[of "unat b" "unat a"]
      sextet_less(2)[of 0 "unat b"] by (simp add: Let_def del: of_nat_add of_nat_mult)
next
  case (4 a b c bs)
  then show ?case using sextets(1,2)[of "unat b" "unat c" "unat a"] sextets(3)[of "unat b" "unat c"] sextet_less(1)[of "unat b" "unat a"]
      sextet_less(2)[of "unat c" "unat b"] by (simp add: Let_def del: of_nat_add of_nat_mult)
qed simp

lemma base64_encode_Nil [simp]: "base64_encode bs = [] \<longleftrightarrow> bs = []"
  by (cases bs rule: base64_encode.cases) simp_all

lemma base64_encode_inject [simp]: "base64_encode a = base64_encode b \<longleftrightarrow> a = b"
  by (metis base64_decode_encode)

text \<open>The check \<open>Buffer.from(s, "base64").toString("base64") === s\<close>, for any decoder that inverts the encoder.\<close>

lemma base64_canonical:
  assumes "\<And>bs. dec (base64_encode bs) = bs"
  shows "base64_encode (dec s) = s \<longleftrightarrow> s \<in> range base64_encode"
  using assms by (metis rangeE rangeI)

text \<open>\<open>/^(?:[A-Za-z0-9+\/]{4})*(?:[A-Za-z0-9+\/]{2}==|[A-Za-z0-9+\/]{3}=)?$/\<close>\<close>

definition base64_rx :: rx where
  "base64_rx = RSeq (RStar (RRep (RCls is_b64) 4 4))
     (opt (alts [RSeq (RRep (RCls is_b64) 2 2) (lit ''==''), RSeq (RRep (RCls is_b64) 3 3) (lit ''='')]))"

lemma star_Nil [simp]: "[] \<in> lang (RStar r)"
  unfolding lang.simps by (rule UN_I[of 0]) simp_all

lemma star_app: "u \<in> lang r \<Longrightarrow> x \<in> lang (RStar r) \<Longrightarrow> u @ x \<in> lang (RStar r)"
  unfolding lang.simps by (elim UN_E, rule_tac a = "Suc xa" in UN_I) (auto simp: conc_def)

lemma base64_rx_group:
  assumes "v \<in> lang base64_rx" "is_b64 a" "is_b64 b" "is_b64 c" "is_b64 d"
  shows "[a, b, c, d] @ v \<in> lang base64_rx"
proof -
  obtain x y where v: "v = x @ y" and x: "x \<in> lang (RStar (RRep (RCls is_b64) 4 4))"
    and y: "y \<in> lang (opt (alts [RSeq (RRep (RCls is_b64) 2 2) (lit ''==''), RSeq (RRep (RCls is_b64) 3 3) (lit ''='')]))"
    using assms(1) unfolding base64_rx_def in_lang_Seq by blast
  have "[a, b, c, d] \<in> lang (RRep (RCls is_b64) 4 4)" unfolding in_lang_Rep_Cls using assms by simp
  then have "[a, b, c, d] @ x \<in> lang (RStar (RRep (RCls is_b64) 4 4))" using x star_app by blast
  then show ?thesis using y unfolding base64_rx_def in_lang_Seq v by (metis append.assoc)
qed

lemma base64_rx_last: "v \<in> lang (opt (alts [RSeq (RRep (RCls is_b64) 2 2) (lit ''==''), RSeq (RRep (RCls is_b64) 3 3) (lit ''='')]))
    \<Longrightarrow> v \<in> lang base64_rx"
  unfolding base64_rx_def in_lang_Seq[of v] by (rule exI[of _ "[]"]) simp

lemma base64_rx_pad:
  assumes "length u = 2 \<and> p = ''=='' \<or> length u = 3 \<and> p = ''=''" "\<forall>c \<in> set u. is_b64 c"
  shows "u @ p \<in> lang base64_rx"
proof (rule base64_rx_last, unfold in_lang_opt in_lang_alts, rule disjI1)
  let ?A = "RSeq (RRep (RCls is_b64) 2 2) (lit ''=='')" and ?B = "RSeq (RRep (RCls is_b64) 3 3) (lit ''='')"
  from assms(1) show "\<exists>r \<in> set [?A, ?B]. u @ p \<in> lang r"
  proof
    assume "length u = 2 \<and> p = ''==''"
    then have "u @ p \<in> lang ?A" using assms(2) unfolding in_lang_Seq in_lang_Rep_Cls in_lang_lit by auto
    then show ?thesis by simp
  next
    assume "length u = 3 \<and> p = ''=''"
    then have "u @ p \<in> lang ?B" using assms(2) unfolding in_lang_Seq in_lang_Rep_Cls in_lang_lit by auto
    then show ?thesis by simp
  qed
qed

lemma base64_encode_rx: "full base64_rx (base64_encode bs)"
  unfolding full_iff
proof (induction bs rule: base64_encode.induct)
  case (2 a)
  show ?case using base64_rx_pad[of "[b64_char (unat a div 4), b64_char (unat a mod 4 * 16)]" "''==''"] by simp
next
  case (3 a b)
  show ?case using base64_rx_pad[of "[b64_char (unat a div 4), b64_char (unat a mod 4 * 16 + unat b div 16),
      b64_char (unat b mod 16 * 4)]" "''=''"] by simp
next
  case (4 a b c bs)
  then show ?case by (simp only: base64_encode.simps base64_rx_group is_b64_char)
qed (simp add: base64_rx_last in_lang_opt)


section \<open>Bytes\<close>

text \<open>\<open>readUInt32BE\<close> at an offset the caller has checked, \<open>writeUInt32BE\<close>, and \<open>toString("ascii")\<close>, which clears bit 7.\<close>

definition be32_val :: "octets \<Rightarrow> nat" where
  "be32_val bs = foldl (\<lambda>v b. 256 * v + unat b) 0 bs"

definition be32 :: "nat \<Rightarrow> octets" where
  "be32 n = [of_nat (n div 256 div 256 div 256), of_nat (n div 256 div 256 mod 256), of_nat (n div 256 mod 256), of_nat (n mod 256)]"

definition ascii7 :: "octets \<Rightarrow> string" where
  "ascii7 bs = map (\<lambda>b. char_of (unat b mod 128)) bs"

lemma length_be32 [simp]: "length (be32 n) = 4"
  by (simp add: be32_def)

lemma unat_octet: "n < 256 \<Longrightarrow> unat (of_nat n :: 8 word) = n"
  by (simp add: unsigned_of_nat take_bit_nat_eq_self)

lemma be32_val_be32:
  assumes "n < 4294967296"
  shows "be32_val (be32 n) = n"
proof -
  have "n div 256 div 256 div 256 < 256" using assms by (simp add: div_mult2_eq[symmetric])
  moreover have "256 * (256 * (256 * (n div 256 div 256 div 256) + n div 256 div 256 mod 256) + n div 256 mod 256) + n mod 256 = n"
    by (simp only: mult_div_mod_eq)
  ultimately show ?thesis by (simp add: be32_val_def be32_def unat_octet)
qed

lemma be32_bound:
  fixes a b c d :: nat
  assumes "a < 256" "b < 256" "c < 256" "d < 256"
  shows "256 * (256 * (256 * a + b) + c) + d < 4294967296"
proof -
  have step: "256 * q + r < 256 * n" if "q < n" "r < 256" for q r n :: nat using that by simp
  show ?thesis using step[OF step[OF step[OF assms(1,2)] assms(3)] assms(4)] by simp
qed

lemma be32_be32_val:
  assumes "length bs = 4"
  shows "be32 (be32_val bs) = bs \<and> be32_val bs < 4294967296"
proof -
  obtain a b c d where bs: "bs = [a, b, c, d]" using assms by (auto simp: length_Suc_conv numeral_eq_Suc)
  have v: "be32_val bs = 256 * (256 * (256 * unat a + unat b) + unat c) + unat d" by (simp add: bs be32_val_def)
  have l: "unat a < 256" "unat b < 256" "unat c < 256" "unat d < 256" by simp_all
  have dm: "(256 * q + r) div 256 = q" "(256 * q + r) mod 256 = r" if "r < 256" for q r :: nat using that by simp_all
  have "be32_val bs < 4294967296" unfolding v by (rule be32_bound) (rule l)+
  then show ?thesis unfolding be32_def v by (simp only: dm l bs) (simp add: of_nat_unat)
qed


section \<open>Strings\<close>

text \<open>\<open>Buffer.byteLength(s)\<close> in UTF-8, for code units below 256.\<close>

definition utf8_len :: "string \<Rightarrow> nat" where
  "utf8_len s = sum_list (map (\<lambda>c. if code c < 128 then 1 else 2) s)"

lemma utf8_len_simps [simp]:
  "utf8_len [] = 0" "utf8_len (c # s) = (if code c < 128 then 1 else 2) + utf8_len s"
  "utf8_len (s @ t) = utf8_len s + utf8_len t"
  by (simp_all add: utf8_len_def)

lemma utf8_len_ascii: "(\<And>c. c \<in> set s \<Longrightarrow> code c < 128) \<Longrightarrow> utf8_len s = length s"
  by (induction s) auto

lemma length_le_utf8_len: "length s \<le> utf8_len s"
  by (induction s) auto

text \<open>\<open>s.split(/[...]+/)\<close>: a run of separators splits once.\<close>

function split_runs :: "(char \<Rightarrow> bool) \<Rightarrow> string \<Rightarrow> string list" where
  "split_runs P s =
     (case dropWhile (\<lambda>c. \<not> P c) s of
        [] \<Rightarrow> [s]
      | c # cs \<Rightarrow> takeWhile (\<lambda>c. \<not> P c) s # split_runs P (dropWhile P cs))"
  by pat_completeness auto

termination
proof (relation "measure (length o snd)")
  fix P :: "char \<Rightarrow> bool" and s c cs
  assume "dropWhile (\<lambda>c. \<not> P c) s = c # cs"
  then have "length (c # cs) \<le> length s" by (metis length_dropWhile_le)
  moreover have "length (dropWhile P cs) \<le> length cs" by (rule length_dropWhile_le)
  ultimately show "((P, dropWhile P cs), P, s) \<in> measure (length o snd)" by simp
qed simp

declare split_runs.simps [simp del]

lemma split_runs_absent: "(\<And>c. c \<in> set s \<Longrightarrow> \<not> P c) \<Longrightarrow> split_runs P s = [s]"
proof -
  assume "\<And>c. c \<in> set s \<Longrightarrow> \<not> P c"
  then have "dropWhile (\<lambda>c. \<not> P c) s = []" by simp
  then show ?thesis by (simp only: split_runs.simps[of P s] list.case)
qed

lemma split_runs_app:
  assumes "\<And>c. c \<in> set u \<Longrightarrow> \<not> P c" "P c" "s \<noteq> []" "\<not> P (hd s)"
  shows "split_runs P (u @ c # s) = u # split_runs P s"
proof -
  have "dropWhile P s = s" using assms(3,4) by (cases s) auto
  moreover have "dropWhile (\<lambda>c. \<not> P c) (u @ c # s) = c # s" "takeWhile (\<lambda>c. \<not> P c) (u @ c # s) = u"
    using assms(1,2) by (simp_all add: dropWhile_append2 takeWhile_append2)
  ultimately show ?thesis by (subst split_runs.simps) simp
qed

definition is_blank :: "char \<Rightarrow> bool" where
  "is_blank c \<longleftrightarrow> c = CHR '' '' \<or> code c = 9"

text \<open>\<open>s.replace(/=+$/, "")\<close> and the hexadecimal digest.\<close>

definition strip_pad :: "string \<Rightarrow> string" where
  "strip_pad s = rev (dropWhile (\<lambda>c. c = CHR ''='') (rev s))"

definition hex_digest :: "octets \<Rightarrow> string" where
  "hex_digest bs = concat (map (\<lambda>b. [digit_char (unat b div 16), digit_char (unat b mod 16)]) bs)"

lemma length_hex_digest [simp]: "length (hex_digest bs) = 2 * length bs"
  by (induction bs) (auto simp: hex_digest_def)

lemma hex_digest_lhex: "c \<in> set (hex_digest bs) \<Longrightarrow> is_lhex c"
  by (induction bs) (auto simp: hex_digest_def)

end
