(* ===== verification/SshKeys.thy ===== *)
theory SshKeys
  imports Encoding
begin

text \<open>
  \<open>src/ssh-public-key.ts\<close>: the parser of OpenSSH Ed25519 public keys that every key of the
  program goes through. SHA-256 is a parameter. A key is accepted exactly when its second field
  encodes the two length-prefixed strings of an Ed25519 key, and the normalised form of an
  accepted key is accepted again with the same result.
\<close>

datatype key_error = InvalidKey | UnsupportedKey | InvalidEncoding | NonCanonical | InvalidBlob | NotEd25519

record ssh_key =
  sk_encoded :: string
  sk_normalized :: string
  sk_fingerprint :: string

definition ssh_ed25519 :: string where
  "ssh_ed25519 = ''ssh-ed25519''"

text \<open>\<open>readString\<close>: the value and the offset behind it.\<close>

definition readString :: "octets \<Rightarrow> nat \<Rightarrow> (key_error, octets \<times> nat) res" where
  "readString blob off =
     (if length blob < off + 4 then Inl InvalidBlob
      else let len = be32_val (take 4 (drop off blob)); off = off + 4
           in if length blob - off < len then Inl InvalidBlob
              else Inr (take len (drop off blob), off + len))"

definition decodeEd25519Blob :: "octets \<Rightarrow> (key_error, string \<times> octets \<times> nat) res" where
  "decodeEd25519Blob blob =
     rbind (readString blob 0) (\<lambda>(algorithm, off).
       rbind (readString blob off) (\<lambda>(key, off).
         Inr (ascii7 algorithm, key, off)))"

definition parseSshPublicKey :: "(octets \<Rightarrow> octets) \<Rightarrow> string \<Rightarrow> (key_error, ssh_key) res" where
  "parseSshPublicKey sha256 value =
     (let input = trim value
      in if 1024 < utf8_len value \<or> CHR 0x00 \<in> set input \<or> CHR 0x0A \<in> set input \<or> CHR 0x0D \<in> set input
         then Inl InvalidKey
         else case split_runs is_blank input of
           algorithm # encoded # rest \<Rightarrow>
             (if algorithm \<noteq> ssh_ed25519 \<or> encoded = [] then Inl UnsupportedKey
              else if \<not> full base64_rx encoded then Inl InvalidEncoding
              else let blob = base64_decode encoded
                   in if base64_encode blob \<noteq> encoded then Inl NonCanonical
                      else rbind (decodeEd25519Blob blob) (\<lambda>(algorithm, key, consumed).
                        if algorithm \<noteq> ssh_ed25519 \<or> length key \<noteq> 32 \<or> consumed \<noteq> length blob then Inl NotEd25519
                        else Inr \<lparr>sk_encoded = encoded, sk_normalized = ssh_ed25519 @ '' '' @ encoded,
                                  sk_fingerprint = ''SHA256:'' @ strip_pad (base64_encode (sha256 blob))\<rparr>))
         | _ \<Rightarrow> Inl UnsupportedKey)"


section \<open>The blobs that are accepted\<close>

text \<open>
  A length-prefixed string. The algorithm bytes are compared after \<open>toString("ascii")\<close>, so
  their top bits do not matter.
\<close>

definition ssh_string :: "octets \<Rightarrow> octets" where
  "ssh_string bs = be32 (length bs) @ bs"

definition ed25519_blob :: "octets \<Rightarrow> bool" where
  "ed25519_blob blob \<longleftrightarrow>
     (\<exists>alg key. blob = ssh_string alg @ ssh_string key \<and> ascii7 alg = ssh_ed25519 \<and> length key = 32)"

lemma readString_Inr:
  "readString blob off = Inr (v, off') \<longleftrightarrow>
     length v < 4294967296 \<and> off' = off + 4 + length v \<and> (\<exists>post. drop off blob = ssh_string v @ post)"
proof
  assume r: "readString blob off = Inr (v, off')"
  define len where "len = be32_val (take 4 (drop off blob))"
  from r have l: "off + 4 \<le> length blob" "len \<le> length blob - (off + 4)"
    and v: "v = take len (drop (off + 4) blob)" "off' = off + 4 + len"
    by (auto simp: readString_def Let_def len_def split: if_splits)
  have b: "be32 len = take 4 (drop off blob)" "len < 4294967296"
    using be32_be32_val[of "take 4 (drop off blob)"] l by (simp_all add: len_def)
  have lv: "length v = len" using l v by simp
  have "drop off blob = take 4 (drop off blob) @ drop (off + 4) blob"
    by (metis append_take_drop_id drop_drop add.commute)
  also have "\<dots> = (be32 (length v) @ v) @ drop len (drop (off + 4) blob)"
    by (simp only: lv b(1) append_assoc) (simp only: v(1) append_take_drop_id)
  finally show "length v < 4294967296 \<and> off' = off + 4 + length v \<and> (\<exists>post. drop off blob = ssh_string v @ post)"
    using b lv v unfolding ssh_string_def by blast
next
  assume "length v < 4294967296 \<and> off' = off + 4 + length v \<and> (\<exists>post. drop off blob = ssh_string v @ post)"
  then obtain post where p: "drop off blob = be32 (length v) @ v @ post" and o: "off' = off + 4 + length v"
    and lv: "length v < 4294967296" by (auto simp: ssh_string_def)
  have l: "length blob - off = 4 + length v + length post" using p by (metis length_append length_be32 length_drop add.assoc)
  have t: "take 4 (drop off blob) = be32 (length v)" unfolding p by simp
  have d: "drop (off + 4) blob = v @ post" using p by (metis add.commute append_eq_conv_conj drop_drop length_be32)
  show "readString blob off = Inr (v, off')"
    unfolding readString_def Let_def t be32_val_be32[OF lv] d using l o by auto
qed

lemma ascii7_length: "ascii7 alg = ssh_ed25519 \<Longrightarrow> length alg = 11"
  by (drule arg_cong[where f = length]) (simp add: ascii7_def ssh_ed25519_def)

lemma drop_pieces: "drop (length a) (a @ b) = b" by simp

lemma blob_accepted:
  "(case decodeEd25519Blob blob of Inl _ \<Rightarrow> False
     | Inr (alg, key, consumed) \<Rightarrow> alg = ssh_ed25519 \<and> length key = 32 \<and> consumed = length blob)
   \<longleftrightarrow> ed25519_blob blob"
proof
  assume a: "case decodeEd25519Blob blob of Inl _ \<Rightarrow> False
     | Inr (alg, key, consumed) \<Rightarrow> alg = ssh_ed25519 \<and> length key = 32 \<and> consumed = length blob"
  then obtain alg off key where d: "readString blob 0 = Inr (alg, off)" "readString blob off = Inr (key, length blob)"
    and k: "ascii7 alg = ssh_ed25519" "length key = 32"
    by (auto simp: decodeEd25519Blob_def res_simps split: sum.splits prod.splits)
  from d(1) obtain post where p: "blob = ssh_string alg @ post" "off = 4 + length alg"
    unfolding readString_Inr by auto
  from d(2) obtain post' where "drop off blob = ssh_string key @ post'" "length blob = off + 4 + length key"
    unfolding readString_Inr by blast
  then have "blob = ssh_string alg @ ssh_string key" using p by (auto simp: ssh_string_def)
  then show "ed25519_blob blob" using k by (auto simp: ed25519_blob_def)
next
  assume "ed25519_blob blob"
  then obtain alg key where b: "blob = ssh_string alg @ ssh_string key" and k: "ascii7 alg = ssh_ed25519" "length key = 32"
    by (auto simp: ed25519_blob_def)
  have l: "length alg = 11" using k(1) by (rule ascii7_length)
  have "readString blob 0 = Inr (alg, 15)" unfolding readString_Inr using l b by simp
  moreover have "drop 15 blob = ssh_string key @ []" unfolding b by (simp add: ssh_string_def l)
  then have "readString blob 15 = Inr (key, 51)" unfolding readString_Inr using k(2) by auto
  moreover have "length blob = 51" unfolding b using l k(2) by (simp add: ssh_string_def)
  ultimately show "case decodeEd25519Blob blob of Inl _ \<Rightarrow> False
     | Inr (alg, key, consumed) \<Rightarrow> alg = ssh_ed25519 \<and> length key = 32 \<and> consumed = length blob"
    using k by (simp add: decodeEd25519Blob_def)
qed

text \<open>The key that a blob stands for.\<close>

definition key_of :: "(octets \<Rightarrow> octets) \<Rightarrow> octets \<Rightarrow> ssh_key" where
  "key_of sha256 blob =
     \<lparr>sk_encoded = base64_encode blob, sk_normalized = ssh_ed25519 @ '' '' @ base64_encode blob,
      sk_fingerprint = ''SHA256:'' @ strip_pad (base64_encode (sha256 blob))\<rparr>"

lemma blob_step:
  "rbind (decodeEd25519Blob blob) (\<lambda>(algorithm, key, consumed).
      if algorithm \<noteq> ssh_ed25519 \<or> length key \<noteq> 32 \<or> consumed \<noteq> length blob then Inl NotEd25519 else Inr x) = Inr k
   \<longleftrightarrow> ed25519_blob blob \<and> k = x"
  unfolding blob_accepted[symmetric] by (auto simp: rbind_def split: sum.splits)

lemma parseSshPublicKey_Inr:
  "parseSshPublicKey sha256 value = Inr k \<longleftrightarrow>
     utf8_len value \<le> 1024 \<and> CHR 0x00 \<notin> set (trim value) \<and> CHR 0x0A \<notin> set (trim value) \<and> CHR 0x0D \<notin> set (trim value)
     \<and> (\<exists>blob comments. split_runs is_blank (trim value) = ssh_ed25519 # base64_encode blob # comments
          \<and> ed25519_blob blob \<and> k = key_of sha256 blob)"
  (is "_ = Inr k \<longleftrightarrow> ?len \<and> ?nul \<and> ?lf \<and> ?cr \<and> ?fields")
proof (cases "?len \<and> ?nul \<and> ?lf \<and> ?cr")
  case False
  then show ?thesis by (auto simp: parseSshPublicKey_def Let_def)
next
  case True
  have nonempty: "ed25519_blob blob \<Longrightarrow> base64_encode blob \<noteq> []" for blob
    by (auto simp: ed25519_blob_def ssh_string_def ssh_ed25519_def)
  show ?thesis
  proof (cases "\<exists>alg enc rest. split_runs is_blank (trim value) = alg # enc # rest")
    case False
    then show ?thesis using True by (auto simp: parseSshPublicKey_def Let_def split: list.splits)
  next
    case fields: True
    have c: "(1024 < utf8_len value \<or> CHR 0x00 \<in> set (trim value) \<or> CHR 0x0A \<in> set (trim value) \<or> CHR 0x0D \<in> set (trim value)) = False"
      using True by auto
    from fields obtain alg enc rest where f: "split_runs is_blank (trim value) = alg # enc # rest" by blast
    have "parseSshPublicKey sha256 value = Inr k \<longleftrightarrow> alg = ssh_ed25519 \<and> enc \<noteq> [] \<and> full base64_rx enc
        \<and> base64_encode (base64_decode enc) = enc \<and> ed25519_blob (base64_decode enc) \<and> k = key_of sha256 (base64_decode enc)"
    proof (cases "base64_encode (base64_decode enc) = enc")
      case e: True
      show ?thesis
        unfolding parseSshPublicKey_def Let_def f list.case key_of_def e
        by (simp only: c if_False if_Inr_iff blob_step de_Morgan_disj not_not e) simp
    next
      case False
      then show ?thesis unfolding parseSshPublicKey_def Let_def f list.case by (simp only: if_Inr_iff simp_thms)
    qed
    also have "\<dots> \<longleftrightarrow> (\<exists>blob. alg = ssh_ed25519 \<and> enc = base64_encode blob \<and> ed25519_blob blob \<and> k = key_of sha256 blob)"
      using nonempty base64_encode_rx by (metis base64_decode_encode)
    finally show ?thesis using True f by auto
  qed
qed


text \<open>The normal form of an accepted key.\<close>

lemma parse_normalized:
  assumes "ed25519_blob blob"
  shows "parseSshPublicKey sha256 (sk_normalized (key_of sha256 blob)) = Inr (key_of sha256 blob)"
proof -
  let ?v = "ssh_ed25519 @ '' '' @ base64_encode blob"
  have enc: "full base64_rx (base64_encode blob)" by (rule base64_encode_rx)
  have b64: "c \<in> set (base64_encode bs) \<Longrightarrow> is_b64 c \<or> c = CHR ''=''" for c bs
    by (induction bs rule: base64_encode.induct) auto
  have printable: "32 < code c \<and> code c < 127" if "c \<in> set (base64_encode blob)" for c
    using b64[OF that] by (auto simp: is_b64_def char_class_defs)
  obtain alg key where blob: "blob = ssh_string alg @ ssh_string key" "length alg = 11" "length key = 32"
    using assms ascii7_length by (auto simp: ed25519_blob_def)
  have len: "length (base64_encode bs) \<le> 2 * length bs + 4" for bs
    by (induction bs rule: base64_encode.induct) auto
  have nonempty: "base64_encode blob \<noteq> []"
    using blob by (auto simp: ssh_string_def)
  have tr: "trim ?v = ?v"
  proof (rule trim_id)
    have "last ?v \<in> set (base64_encode blob)" using nonempty by simp
    then show "\<not> js_space (last ?v)" using printable by (fastforce simp: js_space_def)
  qed (simp_all add: ssh_ed25519_def js_space_def code_def)
  have u: "utf8_len ?v \<le> 1024"
  proof -
    have "utf8_len (base64_encode blob) = length (base64_encode blob)" by (rule utf8_len_ascii) (use printable in fastforce)
    then show ?thesis using len[of blob] blob by (simp add: ssh_ed25519_def ssh_string_def code_def)
  qed
  have sp: "split_runs is_blank ?v = ssh_ed25519 # base64_encode blob # []"
  proof -
    have nb: "\<not> is_blank c" if "c \<in> set (base64_encode blob)" for c
      using printable[OF that] by (auto simp: is_blank_def code_def)
    have "split_runs is_blank (ssh_ed25519 @ CHR '' '' # base64_encode blob) = ssh_ed25519 # split_runs is_blank (base64_encode blob)"
      by (rule split_runs_app) (use nonempty nb in \<open>auto simp: ssh_ed25519_def is_blank_def code_def\<close>)
    then show ?thesis using split_runs_absent[of "base64_encode blob" is_blank] nb by simp
  qed
  have ctl: "CHR 0x00 \<notin> set ?v \<and> CHR 0x0A \<notin> set ?v \<and> CHR 0x0D \<notin> set ?v"
    using printable by (fastforce simp: ssh_ed25519_def code_def)
  show ?thesis unfolding parseSshPublicKey_Inr using tr u sp ctl assms by (auto simp: key_of_def)
qed

text \<open>A public key is accepted exactly when it is short, has no NUL or line break, and its second field
  is the base64 form of an Ed25519 blob: the algorithm name and 32 key bytes, each with its 32-bit length,
  and nothing more. (The name is compared after an ASCII decoding that drops the top bits.) The key
  that comes back carries exactly that blob, with comments and spacing gone.\<close>

theorem parseSshPublicKey_exact:
  "parseSshPublicKey sha256 value = Inr k \<longleftrightarrow>
     utf8_len value \<le> 1024 \<and> CHR 0x00 \<notin> set (trim value) \<and> CHR 0x0A \<notin> set (trim value) \<and> CHR 0x0D \<notin> set (trim value)
     \<and> (\<exists>blob comments. split_runs is_blank (trim value) = ssh_ed25519 # base64_encode blob # comments
          \<and> ed25519_blob blob \<and> k = key_of sha256 blob)"
  by (rule parseSshPublicKey_Inr)

text \<open>The normalised form of an accepted key is a fixed point: parsing it again gives the same key, so a key
  that is stored, compared (\<open>validateSshCaPair\<close>) or written for \<open>ssh-keygen\<close> in that form is the key that was sent.\<close>

theorem parseSshPublicKey_normalized:
  assumes "parseSshPublicKey sha256 value = Inr k"
  shows "parseSshPublicKey sha256 (sk_normalized k) = Inr k"
  using assms parse_normalized unfolding parseSshPublicKey_Inr by blast

definition sample_key_blob :: octets where
  "sample_key_blob = ssh_string (map (of_nat o of_char) ssh_ed25519) @ ssh_string (replicate 32 7)"

definition sample_key :: string where
  "sample_key = ssh_ed25519 @ '' '' @ base64_encode sample_key_blob"

lemma sample_key_parses:
  "parseSshPublicKey id (sample_key @ '' me@host'' @ [CHR 0x0A]) = Inr (key_of id sample_key_blob)"
  by code_simp

theorem parseSshPublicKey_normalized_witness: "parseSshPublicKey id sample_key = Inr (key_of id sample_key_blob)"
  using parseSshPublicKey_normalized[OF sample_key_parses] by (simp add: key_of_def sample_key_def)

end
