(* ===== verification/PosixPath.thy ===== *)
theory PosixPath
  imports Prelude
begin

text \<open>
  The operations of Node's \<open>path.posix\<close> that the program uses to keep paths below a directory:
  \<open>normalize\<close>, \<open>resolve\<close> and \<open>join\<close>. A path is cut at its slashes; empty and \<open>.\<close> segments go, \<open>..\<close>
  takes the segment before it, and at the root of an absolute path it is dropped.
\<close>

abbreviation slash :: char where "slash \<equiv> CHR ''/''"

definition isAbsolute :: "string \<Rightarrow> bool" where
  "isAbsolute p \<longleftrightarrow> starts_with p ''/''"

fun norm_step :: "bool \<Rightarrow> string list \<Rightarrow> string \<Rightarrow> string list" where
  "norm_step up stack seg =
     (if seg = [] \<or> seg = ''.'' then stack
      else if seg = ''..'' then
        (case stack of
           [] \<Rightarrow> if up then [''..''] else []
         | prev # rest \<Rightarrow> if prev = ''..'' then (if up then ''..'' # stack else stack) else rest)
      else seg # stack)"

definition norm_segments :: "bool \<Rightarrow> string list \<Rightarrow> string list" where
  "norm_segments up segs = rev (foldl (norm_step up) [] segs)"

definition normalize :: "string \<Rightarrow> string" where
  "normalize p =
     (if p = [] then ''.''
      else let body = join_with slash (norm_segments (\<not> isAbsolute p) (split_on slash p));
               trailing = ends_with p ''/''
           in if body = [] then (if isAbsolute p then ''/'' else if trailing then ''./'' else ''.'')
              else (if isAbsolute p then ''/'' else []) @ body @ (if trailing then ''/'' else []))"

text \<open>\<open>resolve\<close> of an absolute path; a relative one is taken from the working directory.\<close>

definition resolve_abs :: "string \<Rightarrow> string" where
  "resolve_abs p = slash # join_with slash (norm_segments False (split_on slash p))"

definition resolve :: "string \<Rightarrow> string \<Rightarrow> string" where
  "resolve cwd p = (if isAbsolute p then resolve_abs p else resolve_abs (cwd @ ''/'' @ p))"

definition join :: "string list \<Rightarrow> string" where
  "join ps = (case filter (\<lambda>p. p \<noteq> []) ps of [] \<Rightarrow> ''.'' | qs \<Rightarrow> normalize (join_with slash qs))"


section \<open>Plain segments\<close>

definition plain :: "string \<Rightarrow> bool" where
  "plain s \<longleftrightarrow> s \<noteq> [] \<and> s \<noteq> ''.'' \<and> s \<noteq> ''..'' \<and> slash \<notin> set s"

declare norm_step.simps [simp del]

lemma norm_step_in:
  assumes "t \<in> set (norm_step False stack s)"
  shows "t \<in> set stack \<or> (t = s \<and> s \<noteq> [] \<and> s \<noteq> ''.'' \<and> s \<noteq> ''..'')"
proof (cases "s = [] \<or> s = ''.'' \<or> s = ''..''")
  case True
  then show ?thesis using assms by (cases stack) (auto simp only: norm_step.simps if_True if_False list.case set_simps split: if_splits)
next
  case False
  then show ?thesis using assms by (simp only: norm_step.simps if_False) auto
qed

lemma norm_step_skip [simp]: "norm_step up stack [] = stack" "norm_step up stack ''.'' = stack"
  by (simp_all only: norm_step.simps if_True simp_thms)

lemma norm_step_plain: "plain s \<Longrightarrow> norm_step up stack s = s # stack"
  by (simp only: norm_step.simps plain_def if_False simp_thms)

lemma foldl_plain:
  assumes "\<forall>s \<in> set segs. slash \<notin> set s" "\<forall>s \<in> set acc. plain s"
  shows "\<forall>s \<in> set (foldl (norm_step False) acc segs). plain s"
  using assms
proof (induction segs arbitrary: acc)
  case (Cons s segs)
  have "\<forall>t \<in> set (norm_step False acc s). plain t"
  proof
    fix t assume "t \<in> set (norm_step False acc s)"
    from norm_step_in[OF this] show "plain t" using Cons.prems unfolding plain_def by (metis list.set_intros(1))
  qed
  then show ?case using Cons.IH[of "norm_step False acc s"] Cons.prems by simp
qed simp

lemma norm_segments_plain: "s \<in> set (norm_segments False (split_on slash p)) \<Longrightarrow> plain s"
proof -
  have "\<forall>s \<in> set (split_on slash p). slash \<notin> set s" by (rule ballI) (rule split_on_pieces[THEN conjunct1])
  from foldl_plain[OF this, of "[]"] show "s \<in> set (norm_segments False (split_on slash p)) \<Longrightarrow> plain s"
    unfolding norm_segments_def set_rev by simp
qed

lemma foldl_norm_plain: "\<forall>s \<in> set segs. plain s \<Longrightarrow> foldl (norm_step b) acc segs = rev segs @ acc"
  by (induction segs arbitrary: acc) (simp_all add: norm_step_plain)

lemma norm_segments_id [simp]: "\<forall>s \<in> set segs. plain s \<Longrightarrow> norm_segments b segs = segs"
  by (simp add: norm_segments_def foldl_norm_plain)

lemma join_with_inject:
  assumes "xs \<noteq> []" "ys \<noteq> []" "\<forall>s \<in> set xs. c \<notin> set s" "\<forall>s \<in> set ys. c \<notin> set s"
    and "join_with c xs = join_with c ys"
  shows "xs = ys"
proof -
  have "xs = split_on c (join_with c xs)" using split_on_join[of xs c] assms(1,3) by simp
  also have "\<dots> = split_on c (join_with c ys)" by (simp add: assms(5))
  also have "\<dots> = ys" using split_on_join[of ys c] assms(2,4) by simp
  finally show ?thesis .
qed

text \<open>A resolved path is the slash-joined list of plain segments, so what lies textually below it lies below it.\<close>

definition below :: "string \<Rightarrow> string \<Rightarrow> bool" where
  "below root p \<longleftrightarrow> (\<exists>segs. segs \<noteq> [] \<and> p = root @ ''/'' @ join_with slash segs \<and> (\<forall>s \<in> set segs. plain s))"

lemma resolve_abs_segments:
  "\<exists>segs. resolve_abs p = slash # join_with slash segs \<and> (\<forall>s \<in> set segs. plain s)"
  using norm_segments_plain by (auto simp: resolve_abs_def)

lemma resolve_abs_id:
  assumes "\<forall>s \<in> set segs. plain s"
  shows "resolve_abs (slash # join_with slash segs) = slash # join_with slash segs"
proof (cases "segs = []")
  case True
  then show ?thesis by (simp add: resolve_abs_def norm_segments_def)
next
  case False
  have "split_on slash (slash # join_with slash segs) = [] # segs"
    using split_on_join[OF False, of slash] assms by (auto simp: plain_def)
  then have "norm_segments False (split_on slash (slash # join_with slash segs)) = segs"
    using assms by (simp add: norm_segments_def foldl_norm_plain)
  then show ?thesis by (simp add: resolve_abs_def)
qed

lemma split_on_append_sep: "split_on c (a @ c # b) = split_on c a @ split_on c b"
proof (induction a)
  case (Cons x a)
  show ?case
  proof (cases "x = c")
    case False
    obtain p ps where "split_on c a = p # ps" by (cases "split_on c a") simp_all
    then show ?thesis using Cons False by simp
  qed (use Cons in simp)
qed simp

lemma resolve_below:
  assumes r: "resolve_abs p = root @ ''/'' @ rest" and root: "root = resolve_abs root'" "root \<noteq> ''/''"
  shows "below root (resolve_abs p)"
proof -
  obtain segs where segs: "resolve_abs p = slash # join_with slash segs" "\<forall>s \<in> set segs. plain s"
    using resolve_abs_segments by blast
  obtain rs where rs: "root = slash # join_with slash rs" "\<forall>s \<in> set rs. plain s"
    using resolve_abs_segments root(1) by blast
  have "rs \<noteq> []" using rs(1) root(2) by auto
  have eq: "join_with slash segs = join_with slash rs @ slash # rest" using r segs(1) rs(1) by simp
  then have "segs \<noteq> []" by auto
  have np: "\<forall>s \<in> set segs. slash \<notin> set s" "\<forall>s \<in> set rs. slash \<notin> set s" using segs rs by (auto simp: plain_def)
  have "segs = split_on slash (join_with slash rs @ slash # rest)"
    using split_on_join[OF \<open>segs \<noteq> []\<close>, of slash] np(1) eq by simp
  also have "\<dots> = rs @ split_on slash rest"
    using split_on_join[OF \<open>rs \<noteq> []\<close>, of slash] np(2) by (simp add: split_on_append_sep)
  finally have "\<forall>s \<in> set (split_on slash rest). plain s" using segs(2) by simp
  then show ?thesis
    unfolding below_def r by (intro exI[of _ "split_on slash rest"]) simp
qed

end
