(* ===== verification/SshContracts.thy ===== *)
theory SshContracts
  imports SshKeys PosixPath
begin

text \<open>
  \<open>src/ssh/contracts.ts\<close>, \<open>src/ssh/certificate.ts\<close> and \<open>src/agent/ssh-certificate.ts\<close>: the
  normal forms of ids, wallets and modes, the principal a certificate names, and the signing of a
  user certificate with \<open>ssh-keygen\<close>. SHA-256, \<open>lstat\<close>, the uid of the process and the outcome of
  running \<open>ssh-keygen\<close> are parameters.
\<close>

datatype ssh_error =
    InvalidWorkspaceId | InvalidWallet | InvalidMode | InvalidPort
  | NotHostPrivate | InvalidSocketPath | SocketEscapes
  | WorkspaceLeaseExpired | InvalidTtl | TooCloseToExpiry | WrongScope
  | ConnectionLimit | LeaseExpired | LeaseNotFound | ScopeMismatch | InvalidToken | ConnectFailed
  | InvalidValidity | ValidityTooLong | CaPath | CaNotRegular | CaAccessible | CaOwner | CaMissing
  | BadPublicKey key_error | KeygenFailed | UnexpectedCertificate | CaMismatch
  | InvalidModes | InvalidLeaseId | InvalidOrigin | UnsafeProxyPath | InvalidLocalPath
  | InvalidLocalPort

definition MAX_SSH_LEASE_MS :: int where "MAX_SSH_LEASE_MS = 2 * 60 * 60000"
definition DEFAULT_SSH_LEASE_MS :: int where "DEFAULT_SSH_LEASE_MS = 15 * 60000"

text \<open>\<open>/^0x[0-9a-f]{40}$/i\<close>\<close>

definition wallet_rx :: rx where
  "wallet_rx = seqs [chr CHR ''0'', RCls (\<lambda>c. c = CHR ''x'' \<or> c = CHR ''X''), RRep (RCls is_hex) 40 40]"

definition normalizeWorkspaceId :: "string \<Rightarrow> (ssh_error, string) res" where
  "normalizeWorkspaceId v = (if is_uuid4 v then Inr (to_lower v) else Inl InvalidWorkspaceId)"

definition normalizeWallet :: "string \<Rightarrow> (ssh_error, string) res" where
  "normalizeWallet v = (if full wallet_rx v then Inr (to_lower v) else Inl InvalidWallet)"

definition normalizeAccessMode :: "string \<Rightarrow> (ssh_error, string) res" where
  "normalizeAccessMode v = (if v \<noteq> ''shell'' \<and> v \<noteq> ''nfs'' then Inl InvalidMode else Inr v)"

text \<open>The wallet is ASCII here, so its UTF-8 bytes are its character codes.\<close>

definition bytes_of :: "string \<Rightarrow> octets" where
  "bytes_of s = map (of_nat o code) s"

definition workspacePrincipal :: "(octets \<Rightarrow> octets) \<Rightarrow> string \<Rightarrow> string \<Rightarrow> string \<Rightarrow> (ssh_error, string) res" where
  "workspacePrincipal sha256 workspaceId wallet mode =
     rbind (normalizeWorkspaceId workspaceId) (\<lambda>wid.
       rbind (normalizeWallet wallet) (\<lambda>owner.
         rbind (normalizeAccessMode mode) (\<lambda>accessMode.
           Inr (''bloom-'' @ accessMode @ ''-'' @ wid @ ''-w-'' @ take 32 (hex_digest (sha256 (bytes_of owner)))))))"

definition assertPort :: "int \<Rightarrow> (ssh_error, int) res" where
  "assertPort v = (if \<not> is_safe_integer v \<or> v < 1 \<or> 65535 < v then Inl InvalidPort else Inr v)"


section \<open>Certificates\<close>

record certificate_spec =
  cs_caKeyPath :: string
  cs_publicKey :: string
  cs_workspaceId :: string
  cs_wallet :: string
  cs_mode :: string
  cs_validAfter :: int
  cs_validBefore :: int

record signed_certificate =
  sc_certificate :: string
  sc_fingerprint :: string
  sc_principal :: string
  sc_serial :: string
  sc_validAfter :: int
  sc_validBefore :: int
  sc_mode :: string

definition assertValidity :: "int \<Rightarrow> int \<Rightarrow> (ssh_error, unit) res" where
  "assertValidity validAfter validBefore =
     (if \<not> is_safe_integer validAfter \<or> \<not> is_safe_integer validBefore \<or> validBefore \<le> validAfter then Inl InvalidValidity
      else if MAX_SSH_LEASE_MS + 5000 < validBefore - validAfter then Inl ValidityTooLong
      else Inr ())"

text \<open>What \<open>lstat\<close> reports; the mode's permission bits as a number.\<close>

record file_stat =
  fs_isFile :: bool
  fs_isSymbolicLink :: bool
  fs_mode :: nat
  fs_uid :: nat

text \<open>\<open>(mode & 0o077) !== 0\<close> tests the low six bits.\<close>

definition validateSshCaKey :: "(string \<Rightarrow> file_stat option) \<Rightarrow> nat option \<Rightarrow> string \<Rightarrow> (ssh_error, unit) res" where
  "validateSshCaKey lstat getuid path =
     (if \<not> isAbsolute path \<or> CHR 0x00 \<in> set path \<or> CHR 0x0A \<in> set path \<or> CHR 0x0D \<in> set path then Inl CaPath
      else case lstat path of
        None \<Rightarrow> Inl CaMissing
      | Some stat \<Rightarrow>
          if \<not> fs_isFile stat \<or> fs_isSymbolicLink stat then Inl CaNotRegular
          else if fs_mode stat mod 64 \<noteq> 0 then Inl CaAccessible
          else if (case getuid of None \<Rightarrow> False | Some u \<Rightarrow> fs_uid stat \<noteq> u) then Inl CaOwner
          else Inr ())"

definition parse_key :: "(octets \<Rightarrow> octets) \<Rightarrow> string \<Rightarrow> (ssh_error, ssh_key) res" where
  "parse_key sha256 s = (case parseSshPublicKey sha256 s of Inl e \<Rightarrow> Inl (BadPublicKey e) | Inr k \<Rightarrow> Inr k)"

definition validateSshCaPair ::
  "(octets \<Rightarrow> octets) \<Rightarrow> (string \<Rightarrow> file_stat option) \<Rightarrow> nat option \<Rightarrow> (string list \<Rightarrow> string option) \<Rightarrow> string \<Rightarrow> string
    \<Rightarrow> (ssh_error, string) res" where
  "validateSshCaPair sha256 lstat getuid keygen path publicKey =
     rbind (validateSshCaKey lstat getuid path) (\<lambda>_.
       rbind (parse_key sha256 publicKey) (\<lambda>expected.
         case keygen [''-y'', ''-f'', path] of
           None \<Rightarrow> Inl KeygenFailed
         | Some out \<Rightarrow>
             rbind (parse_key sha256 out) (\<lambda>derived.
               if sk_normalized derived \<noteq> sk_normalized expected then Inl CaMismatch
               else Inr (sk_normalized expected))))"

text \<open>\<open>0x${Math.floor(ms / 1000).toString(16)}\<close>\<close>

definition epoch :: "int \<Rightarrow> string" where
  "epoch milliseconds =
     (let s = milliseconds div 1000
      in ''0x'' @ (if s < 0 then ''-'' @ nat_to_hex (nat (- s)) else nat_to_hex (nat s)))"

text \<open>\<open>randomBytes(8)\<close> as a number with the top bit cleared, in decimal.\<close>

definition randomCertificateSerial :: "64 word \<Rightarrow> string" where
  "randomCertificateSerial r = nat_to_dec (unat (and r 0x7FFFFFFFFFFFFFFF))"

definition keygen_argv ::
  "string \<Rightarrow> string \<Rightarrow> string \<Rightarrow> string \<Rightarrow> string \<Rightarrow> string \<Rightarrow> int \<Rightarrow> int \<Rightarrow> string \<Rightarrow> string list" where
  "keygen_argv caKeyPath mode workspaceId wallet serial prin validAfter validBefore publicKeyPath =
     [''-q'', ''-s'', caKeyPath, ''-I'', ''bloom:'' @ mode @ '':'' @ workspaceId @ '':'' @ wallet, ''-z'', serial,
      ''-n'', prin, ''-V'', epoch validAfter @ '':'' @ epoch validBefore, ''-O'', ''clear'']
     @ (if mode = ''shell'' then [''-O'', ''force-command=/usr/local/libexec/bloom-workspace-shell'', ''-O'', ''permit-pty'']
        else [''-O'', ''force-command=/bin/false'', ''-O'', ''permit-port-forwarding''])
     @ [publicKeyPath]"

text \<open>
  \<open>keygen\<close> runs \<open>ssh-keygen\<close> on an argv and returns the certificate file it wrote, \<open>None\<close> when it fails;
  \<open>directory\<close> is the fresh temporary directory.
\<close>

definition signWorkspaceCertificate ::
  "(octets \<Rightarrow> octets) \<Rightarrow> (string \<Rightarrow> file_stat option) \<Rightarrow> nat option \<Rightarrow> (string list \<Rightarrow> string option) \<Rightarrow> 64 word \<Rightarrow> string
    \<Rightarrow> certificate_spec \<Rightarrow> (ssh_error, signed_certificate) res" where
  "signWorkspaceCertificate sha256 lstat getuid keygen random directory spec =
     rbind (normalizeWorkspaceId (cs_workspaceId spec)) (\<lambda>workspaceId.
     rbind (normalizeWallet (cs_wallet spec)) (\<lambda>wallet.
     rbind (normalizeAccessMode (cs_mode spec)) (\<lambda>mode.
     rbind (assertValidity (cs_validAfter spec) (cs_validBefore spec)) (\<lambda>_.
     rbind (validateSshCaKey lstat getuid (cs_caKeyPath spec)) (\<lambda>_.
     rbind (parse_key sha256 (cs_publicKey spec)) (\<lambda>key.
     rbind (workspacePrincipal sha256 workspaceId wallet mode) (\<lambda>prin.
       let serial = randomCertificateSerial random
       in case keygen (keygen_argv (cs_caKeyPath spec) mode workspaceId wallet serial prin
                        (cs_validAfter spec) (cs_validBefore spec) (join [directory, ''user.pub''])) of
            None \<Rightarrow> Inl KeygenFailed
          | Some file \<Rightarrow>
              (let certificate = trim file
               in if \<not> starts_with certificate ''ssh-ed25519-cert-v01@openssh.com '' \<or> CHR 0x0A \<in> set certificate
                  then Inl UnexpectedCertificate
                  else Inr \<lparr>sc_certificate = certificate, sc_fingerprint = sk_fingerprint key, sc_principal = prin,
                            sc_serial = serial, sc_validAfter = cs_validAfter spec, sc_validBefore = cs_validBefore spec,
                            sc_mode = mode\<rparr>))))))))"

text \<open>\<open>src/agent/ssh-certificate.ts\<close>, the older signer whose principal is the workspace id itself.\<close>

record legacy_spec =
  lc_caKeyPath :: string
  lc_publicKey :: string
  lc_workspaceId :: string
  lc_validAfter :: int
  lc_validBefore :: int
  lc_permitPortForwarding :: bool

definition signWorkspaceSshCertificate ::
  "(octets \<Rightarrow> octets) \<Rightarrow> (string list \<Rightarrow> string option) \<Rightarrow> string \<Rightarrow> legacy_spec
    \<Rightarrow> (ssh_error, string \<times> string \<times> string \<times> int \<times> int) res" where
  "signWorkspaceSshCertificate sha256 keygen directory spec =
     (if \<not> is_uuid4 (lc_workspaceId spec) then Inl InvalidWorkspaceId
      else if \<not> is_safe_integer (lc_validAfter spec) \<or> \<not> is_safe_integer (lc_validBefore spec)
          \<or> lc_validBefore spec \<le> lc_validAfter spec then Inl InvalidValidity
      else if 2 * 60 * 60000 < lc_validBefore spec - lc_validAfter spec then Inl ValidityTooLong
      else rbind (parse_key sha256 (lc_publicKey spec)) (\<lambda>key.
        case keygen ([''-q'', ''-s'', lc_caKeyPath spec, ''-I'', ''bloom-workspace:'' @ lc_workspaceId spec,
                      ''-n'', lc_workspaceId spec, ''-V'', epoch (lc_validAfter spec) @ '':'' @ epoch (lc_validBefore spec),
                      ''-O'', ''clear'', ''-O'', ''permit-pty'']
                     @ (if lc_permitPortForwarding spec then [''-O'', ''permit-port-forwarding''] else [])
                     @ [join [directory, ''workspace.pub'']]) of
          None \<Rightarrow> Inl KeygenFailed
        | Some file \<Rightarrow>
            (let certificate = trim file
             in if \<not> starts_with certificate ''ssh-ed25519-cert-v01@openssh.com '' then Inl UnexpectedCertificate
                else Inr (certificate, sk_fingerprint key, lc_workspaceId spec, lc_validAfter spec, lc_validBefore spec))))"


section \<open>Normal forms\<close>


text \<open>A pattern whose classes are closed under a character function is closed under it.\<close>

primrec rx_closed :: "(char \<Rightarrow> char) \<Rightarrow> rx \<Rightarrow> bool" where
  "rx_closed f RZero = True"
| "rx_closed f REps = True"
| "rx_closed f (RCls P) = (\<forall>c. P c \<longrightarrow> P (f c))"
| "rx_closed f (RSeq a b) = (rx_closed f a \<and> rx_closed f b)"
| "rx_closed f (RAlt a b) = (rx_closed f a \<and> rx_closed f b)"
| "rx_closed f (RStar a) = rx_closed f a"
| "rx_closed f (RRep a m n) = rx_closed f a"

lemma conc_map: "(\<And>s. s \<in> A \<Longrightarrow> map f s \<in> A) \<Longrightarrow> (\<And>s. s \<in> B \<Longrightarrow> map f s \<in> B) \<Longrightarrow> s \<in> conc A B \<Longrightarrow> map f s \<in> conc A B"
  by (auto simp: conc_def) blast

lemma pw_map: "(\<And>s. s \<in> A \<Longrightarrow> map f s \<in> A) \<Longrightarrow> s \<in> pw A k \<Longrightarrow> map f s \<in> pw A k"
proof (induction k arbitrary: s)
  case (Suc k)
  then show ?case using conc_map[of A f "pw A k" s] by simp
qed simp

lemma lang_map: "rx_closed f r \<Longrightarrow> s \<in> lang r \<Longrightarrow> map f s \<in> lang r"
proof (induction r arbitrary: s)
  case (RSeq a b)
  then show ?case using conc_map[of "lang a" f "lang b" s] by (simp add: lang.simps)
next
  case (RStar r)
  then obtain k where "s \<in> pw (lang r) k" by (auto simp: lang.simps)
  then show ?case using pw_map[of "lang r" f s k] RStar by (auto simp: lang.simps)
next
  case (RRep r m n)
  then obtain k where "k \<in> {m..n}" "s \<in> pw (lang r) k" by (auto simp: lang.simps)
  then show ?case using pw_map[of "lang r" f s k] RRep by (auto simp: lang.simps)
qed (auto simp: lang.simps)

lemma rx_closed_chr [simp]: "rx_closed char_lower (chr c) \<longleftrightarrow> char_lower c = c"
  by (auto simp: chr_def)

lemma char_lower_small: "\<not> is_upper c \<Longrightarrow> code c < 128 \<Longrightarrow> char_lower c = c"
  by (simp add: char_lower_id)

lemma lower_constants: "char_lower CHR ''-'' = CHR ''-''" "char_lower CHR ''4'' = CHR ''4''" "char_lower CHR ''0'' = CHR ''0''"
    "char_lower CHR ''x'' = CHR ''x''" "char_lower CHR ''X'' = CHR ''x''"
  by code_simp+

lemma variant_lower: "is_variant_char c \<Longrightarrow> is_variant_char (char_lower c)"
proof -
  have "\<forall>c \<in> set ''89abAB''. char_lower c \<in> set ''89abAB''" by code_simp
  then show "is_variant_char c \<Longrightarrow> is_variant_char (char_lower c)" unfolding is_variant_char_def by blast
qed

lemma rx_closed_uuid4: "rx_closed char_lower uuid4_rx"
  by (simp add: uuid4_rx_def is_hex_lower variant_lower lower_constants)

lemma rx_closed_wallet: "rx_closed char_lower wallet_rx"
  by (auto simp add: wallet_rx_def is_hex_lower lower_constants)

lemma is_uuid4_lower: "is_uuid4 v \<Longrightarrow> is_uuid4 (to_lower v)"
  unfolding is_uuid4_def full_iff to_lower_def by (rule lang_map[OF rx_closed_uuid4])

lemma wallet_lower: "full wallet_rx v \<Longrightarrow> full wallet_rx (to_lower v)"
  unfolding full_iff to_lower_def by (rule lang_map[OF rx_closed_wallet])

lemma normalizeWorkspaceId_Inr: "normalizeWorkspaceId v = Inr w \<longleftrightarrow> is_uuid4 v \<and> w = to_lower v"
  by (auto simp: normalizeWorkspaceId_def)

lemma normalizeWallet_Inr: "normalizeWallet v = Inr w \<longleftrightarrow> full wallet_rx v \<and> w = to_lower v"
  by (auto simp: normalizeWallet_def)

lemma normalizeAccessMode_Inr: "normalizeAccessMode v = Inr m \<longleftrightarrow> m = v \<and> (v = ''shell'' \<or> v = ''nfs'')"
  by (auto simp: normalizeAccessMode_def)

lemmas norm_Inr = normalizeWorkspaceId_Inr normalizeWallet_Inr normalizeAccessMode_Inr

lemma normal_again:
  "normalizeWorkspaceId v = Inr w \<Longrightarrow> normalizeWorkspaceId w = Inr w"
  "normalizeWallet v = Inr w \<Longrightarrow> normalizeWallet w = Inr w"
  "normalizeAccessMode v = Inr w \<Longrightarrow> normalizeAccessMode w = Inr w"
  by (auto simp: norm_Inr is_uuid4_lower wallet_lower)

text \<open>A principal names one workspace and one mode, and one digest of a wallet.\<close>

lemma workspacePrincipal_Inr:
  "workspacePrincipal sha256 i w m = Inr p \<longleftrightarrow>
     is_uuid4 i \<and> full wallet_rx w \<and> (m = ''shell'' \<or> m = ''nfs'')
     \<and> p = ''bloom-'' @ m @ ''-'' @ to_lower i @ ''-w-'' @ take 32 (hex_digest (sha256 (bytes_of (to_lower w))))"
  unfolding workspacePrincipal_def rbind_Inr_iff norm_Inr by auto

lemma principal_scope:
  assumes "workspacePrincipal sha256 i w m = Inr p" "workspacePrincipal sha256 i' w' m' = Inr p"
  shows "to_lower i = to_lower i' \<and> m = m'
    \<and> take 32 (hex_digest (sha256 (bytes_of (to_lower w)))) = take 32 (hex_digest (sha256 (bytes_of (to_lower w'))))"
proof -
  have "length (to_lower i) = 36" "length (to_lower i') = 36"
    using assms is_uuid4_chars unfolding workspacePrincipal_Inr by auto
  then show ?thesis using assms unfolding workspacePrincipal_Inr by auto
qed

end
