(* ===== verification/SshLeases.thy ===== *)
theory SshLeases
  imports SshContracts
begin

text \<open>
  \<open>src/ssh/lease-manager.ts\<close>: the gateway that hands out short-lived SSH leases and opens
  tunnels to the private endpoint of a workspace.

  A lease record is an object that the map of leases and every tunnel being opened share, so the
  model keeps a store of lease objects (\<open>gw_objs\<close>, by address) beside the map from lease ids to
  addresses; \<open>this.leases.get(id) !== lease\<close> compares addresses. \<open>issue\<close> and \<open>openTunnel\<close> are cut
  at their await: \<open>issue_begin\<close> and \<open>issue_finish\<close> around the signer, \<open>openTunnel_begin\<close> and
  \<open>tunnel_connected\<close> or \<open>tunnel_failed\<close> around the connector. A stream is a number; the new lease id
  and token are arguments.
\<close>

datatype endpoint = UnixEndpoint string | TcpEndpoint string int

record lease_options =
  lo_caKeyPath :: string
  lo_socketRoot :: string
  lo_maxLeaseMs :: int
  lo_maxConnections :: int

record lease_request =
  lr_workspaceId :: string
  lr_wallet :: string
  lr_publicKey :: string
  lr_mode :: string
  lr_workspaceLeaseExpiresAt :: int
  lr_requestedTtlMs :: "int option"
  lr_endpoint :: endpoint

record tunnel_request =
  tr_leaseId :: string
  tr_workspaceId :: string
  tr_wallet :: string
  tr_mode :: string
  tr_accessToken :: string

record lease =
  ls_signed :: signed_certificate
  ls_leaseId :: string
  ls_workspaceId :: string
  ls_wallet :: string
  ls_endpoint :: endpoint
  ls_tokenHash :: octets
  ls_active :: "nat set"
  ls_pending :: int

abbreviation "ls_mode l \<equiv> sc_mode (ls_signed l)"
abbreviation "ls_validBefore l \<equiv> sc_validBefore (ls_signed l)"

text \<open>\<open>gw_connecting\<close> lists the addresses whose connector has not answered; \<open>gw_destroyed\<close> the destroyed streams.\<close>

record gateway =
  gw_objs :: "nat \<Rightarrow> lease"
  gw_next :: nat
  gw_leases :: "(string \<times> nat) list"
  gw_connecting :: "nat list"
  gw_destroyed :: "nat set"

section \<open>Construction\<close>

definition new_SshLeaseManager ::
  "string \<Rightarrow> string \<Rightarrow> string \<Rightarrow> int option \<Rightarrow> int option \<Rightarrow> lease_options option" where
  "new_SshLeaseManager cwd caKeyPath privateSocketRoot maxLeaseMs maxConnectionsPerLease =
     (let maxLease = (case maxLeaseMs of None \<Rightarrow> DEFAULT_SSH_LEASE_MS | Some n \<Rightarrow> n);
          maxConnections = (case maxConnectionsPerLease of None \<Rightarrow> 2 | Some n \<Rightarrow> n)
      in if \<not> isAbsolute privateSocketRoot then None
         else if \<not> is_safe_integer maxLease \<or> maxLease < 5000 \<or> MAX_SSH_LEASE_MS < maxLease then None
         else if \<not> is_safe_integer maxConnections \<or> maxConnections < 1 \<or> 8 < maxConnections then None
         else Some \<lparr>lo_caKeyPath = caKeyPath, lo_socketRoot = resolve cwd privateSocketRoot,
                    lo_maxLeaseMs = maxLease, lo_maxConnections = maxConnections\<rparr>)"

definition validateEndpoint :: "lease_options \<Rightarrow> endpoint \<Rightarrow> (ssh_error, endpoint) res" where
  "validateEndpoint opts e =
     (case e of
        TcpEndpoint host port \<Rightarrow>
          rbind (assertPort port) (\<lambda>_.
            if host \<noteq> ''127.0.0.1'' \<and> host \<noteq> ''::1'' then Inl NotHostPrivate else Inr (TcpEndpoint host port))
      | UnixEndpoint p \<Rightarrow>
          if \<not> isAbsolute p \<or> CHR 0x00 \<in> set p \<or> CHR 0x0A \<in> set p \<or> CHR 0x0D \<in> set p then Inl InvalidSocketPath
          else let path = resolve_abs p
               in if \<not> starts_with path (lo_socketRoot opts @ ''/'') then Inl SocketEscapes
                  else Inr (UnixEndpoint path))"

text \<open>\<open>/^[A-Za-z0-9_-]+$/\<close>; a token of another shape hashes to 32 zero bytes.\<close>

definition token_rx :: rx where
  "token_rx = plus (RCls (\<lambda>c. is_alpha c \<or> is_digit c \<or> c = CHR ''_'' \<or> c = CHR ''-''))"

definition digestToken :: "(octets \<Rightarrow> octets) \<Rightarrow> string \<Rightarrow> octets" where
  "digestToken sha256 token =
     (if length token < 32 \<or> 256 < length token \<or> \<not> full token_rx token then replicate 32 0
      else sha256 (bytes_of token))"


section \<open>Issuing\<close>

definition issue_begin :: "lease_options \<Rightarrow> int \<Rightarrow> lease_request \<Rightarrow> (ssh_error, certificate_spec \<times> endpoint) res" where
  "issue_begin opts now request =
     rbind (normalizeWorkspaceId (lr_workspaceId request)) (\<lambda>workspaceId.
     rbind (normalizeWallet (lr_wallet request)) (\<lambda>wallet.
     rbind (normalizeAccessMode (lr_mode request)) (\<lambda>mode.
     rbind (validateEndpoint opts (lr_endpoint request)) (\<lambda>endpoint.
       let wsExpires = lr_workspaceLeaseExpiresAt request
       in if \<not> is_safe_integer wsExpires \<or> wsExpires \<le> now + 1000 then Inl WorkspaceLeaseExpired
          else let requested = (case lr_requestedTtlMs request of None \<Rightarrow> lo_maxLeaseMs opts | Some n \<Rightarrow> n)
          in if \<not> is_safe_integer requested \<or> requested < 5000 \<or> lo_maxLeaseMs opts < requested then Inl InvalidTtl
             else let validBefore = min wsExpires (now + requested)
             in if validBefore \<le> now + 1000 then Inl TooCloseToExpiry
                else Inr (\<lparr>cs_caKeyPath = lo_caKeyPath opts, cs_publicKey = lr_publicKey request,
                           cs_workspaceId = workspaceId, cs_wallet = wallet, cs_mode = mode,
                           cs_validAfter = now - 5000, cs_validBefore = validBefore\<rparr>, endpoint)))))"

definition revokeTrusted :: "string \<Rightarrow> gateway \<Rightarrow> gateway" where
  "revokeTrusted leaseId s =
     (case map_of (gw_leases s) leaseId of
        None \<Rightarrow> s
      | Some a \<Rightarrow>
          s\<lparr>gw_leases := filter (\<lambda>(i, _). i \<noteq> leaseId) (gw_leases s),
            gw_destroyed := gw_destroyed s \<union> ls_active (gw_objs s a),
            gw_objs := (gw_objs s)(a := (gw_objs s a)\<lparr>ls_active := {}\<rparr>)\<rparr>)"

definition revoke_where :: "(lease \<Rightarrow> bool) \<Rightarrow> gateway \<Rightarrow> gateway" where
  "revoke_where P s =
     foldl (\<lambda>s (i, a). if P (gw_objs s a) then revokeTrusted (ls_leaseId (gw_objs s a)) s else s) s (gw_leases s)"

text \<open>\<open>Map.set\<close>: an existing key keeps its place.\<close>

fun map_set :: "'k \<Rightarrow> 'v \<Rightarrow> ('k \<times> 'v) list \<Rightarrow> ('k \<times> 'v) list" where
  "map_set k v [] = [(k, v)]"
| "map_set k v ((k', v') # xs) = (if k' = k then (k, v) # xs else (k', v') # map_set k v xs)"

definition issue_finish ::
  "(octets \<Rightarrow> octets) \<Rightarrow> certificate_spec \<Rightarrow> endpoint \<Rightarrow> signed_certificate \<Rightarrow> string \<Rightarrow> string \<Rightarrow> gateway
    \<Rightarrow> (ssh_error, gateway) res" where
  "issue_finish sha256 spec endpoint cert leaseId accessToken s =
     rbind (workspacePrincipal sha256 (cs_workspaceId spec) (cs_wallet spec) (cs_mode spec)) (\<lambda>expected.
       if sc_principal cert \<noteq> expected \<or> sc_mode cert \<noteq> cs_mode spec
          \<or> sc_validAfter cert \<noteq> cs_validAfter spec \<or> sc_validBefore cert \<noteq> cs_validBefore spec
       then Inl WrongScope
       else let lease = \<lparr>ls_signed = cert, ls_leaseId = leaseId, ls_workspaceId = cs_workspaceId spec,
                         ls_wallet = cs_wallet spec, ls_endpoint = endpoint,
                         ls_tokenHash = digestToken sha256 accessToken, ls_active = {}, ls_pending = 0\<rparr>;
                s1 = s\<lparr>gw_objs := (gw_objs s)(gw_next s := lease), gw_next := Suc (gw_next s)\<rparr>;
                s2 = revoke_where (\<lambda>l. ls_workspaceId l = cs_workspaceId spec \<and> ls_mode l = cs_mode spec) s1
            in Inr (s2\<lparr>gw_leases := map_set leaseId (gw_next s) (gw_leases s2)\<rparr>))"


section \<open>Tunnels and revocation\<close>

definition authorize :: "(octets \<Rightarrow> octets) \<Rightarrow> int \<Rightarrow> tunnel_request \<Rightarrow> gateway \<Rightarrow> (ssh_error, nat) res \<times> gateway" where
  "authorize sha256 now request s =
     (case map_of (gw_leases s) (tr_leaseId request) of
        None \<Rightarrow> (Inl LeaseExpired, s)
      | Some a \<Rightarrow>
          let lease = gw_objs s a
          in if ls_validBefore lease \<le> now then (Inl LeaseExpired, revokeTrusted (tr_leaseId request) s)
             else (rbind (normalizeWorkspaceId (tr_workspaceId request)) (\<lambda>wid.
                     if ls_workspaceId lease \<noteq> wid then Inl ScopeMismatch
                     else rbind (normalizeWallet (tr_wallet request)) (\<lambda>wallet.
                       if ls_wallet lease \<noteq> wallet \<or> ls_mode lease \<noteq> tr_mode request then Inl ScopeMismatch
                       else let supplied = digestToken sha256 (tr_accessToken request)
                            in if length supplied \<noteq> length (ls_tokenHash lease) \<or> supplied \<noteq> ls_tokenHash lease
                               then Inl InvalidToken else Inr a)), s))"

definition openTunnel_begin ::
  "(octets \<Rightarrow> octets) \<Rightarrow> lease_options \<Rightarrow> int \<Rightarrow> tunnel_request \<Rightarrow> gateway \<Rightarrow> (ssh_error, nat) res \<times> gateway" where
  "openTunnel_begin sha256 opts now request s =
     (case authorize sha256 now request s of
        (Inl e, s1) \<Rightarrow> (Inl e, s1)
      | (Inr a, s1) \<Rightarrow>
          let lease = gw_objs s1 a
          in if lo_maxConnections opts \<le> int (card (ls_active lease)) + ls_pending lease then (Inl ConnectionLimit, s1)
             else (Inr a, s1\<lparr>gw_objs := (gw_objs s1)(a := lease\<lparr>ls_pending := ls_pending lease + 1\<rparr>),
                             gw_connecting := a # gw_connecting s1\<rparr>))"

text \<open>The \<open>finally\<close> of the connector call.\<close>

definition connector_done :: "nat \<Rightarrow> gateway \<Rightarrow> gateway" where
  "connector_done a s =
     s\<lparr>gw_objs := (gw_objs s)(a := (gw_objs s a)\<lparr>ls_pending := ls_pending (gw_objs s a) - 1\<rparr>),
       gw_connecting := remove1 a (gw_connecting s)\<rparr>"

definition tunnel_failed :: "nat \<Rightarrow> gateway \<Rightarrow> (ssh_error, nat) res \<times> gateway" where
  "tunnel_failed a s = (Inl ConnectFailed, connector_done a s)"

definition tunnel_connected :: "int \<Rightarrow> nat \<Rightarrow> nat \<Rightarrow> gateway \<Rightarrow> (ssh_error, nat) res \<times> gateway" where
  "tunnel_connected now a stream s =
     (let s1 = connector_done a s; lease = gw_objs s1 a
      in if ls_validBefore lease \<le> now \<or> map_of (gw_leases s1) (ls_leaseId lease) \<noteq> Some a
         then (Inl LeaseExpired, s1\<lparr>gw_destroyed := insert stream (gw_destroyed s1)\<rparr>)
         else (Inr stream, s1\<lparr>gw_objs := (gw_objs s1)(a := lease\<lparr>ls_active := insert stream (ls_active lease)\<rparr>)\<rparr>))"

text \<open>The listener on close, end and error of a stream.\<close>

definition release_stream :: "nat \<Rightarrow> nat \<Rightarrow> gateway \<Rightarrow> gateway" where
  "release_stream a stream s =
     s\<lparr>gw_objs := (gw_objs s)(a := (gw_objs s a)\<lparr>ls_active := ls_active (gw_objs s a) - {stream}\<rparr>)\<rparr>"

definition revoke :: "string \<Rightarrow> string \<Rightarrow> string \<Rightarrow> gateway \<Rightarrow> (ssh_error, unit) res \<times> gateway" where
  "revoke leaseId workspaceId wallet s =
     (case map_of (gw_leases s) leaseId of
        None \<Rightarrow> (Inl LeaseNotFound, s)
      | Some a \<Rightarrow>
          (case rbind (normalizeWorkspaceId workspaceId) (\<lambda>wid.
                  if ls_workspaceId (gw_objs s a) \<noteq> wid then Inl LeaseNotFound
                  else rbind (normalizeWallet wallet) (\<lambda>w.
                    if ls_wallet (gw_objs s a) \<noteq> w then Inl LeaseNotFound else Inr ())) of
             Inl e \<Rightarrow> (Inl e, s)
           | Inr _ \<Rightarrow> (Inr (), revokeTrusted (ls_leaseId (gw_objs s a)) s)))"

definition revokeWorkspace :: "string \<Rightarrow> gateway \<Rightarrow> (ssh_error, gateway) res" where
  "revokeWorkspace workspaceId s =
     rbind (normalizeWorkspaceId workspaceId) (\<lambda>wid. Inr (revoke_where (\<lambda>l. ls_workspaceId l = wid) s))"

definition sweepExpired :: "int \<Rightarrow> gateway \<Rightarrow> gateway" where
  "sweepExpired now s = revoke_where (\<lambda>l. ls_validBefore l \<le> now) s"

definition stop :: "gateway \<Rightarrow> gateway" where
  "stop s = revoke_where (\<lambda>_. True) s"


section \<open>The gateway as a transition system\<close>

definition new_gateway :: gateway where
  "new_gateway = \<lparr>gw_objs = (\<lambda>_. \<lparr>ls_signed = \<lparr>sc_certificate = [], sc_fingerprint = [], sc_principal = [], sc_serial = [],
       sc_validAfter = 0, sc_validBefore = 0, sc_mode = []\<rparr>, ls_leaseId = [], ls_workspaceId = [], ls_wallet = [],
       ls_endpoint = UnixEndpoint [], ls_tokenHash = [], ls_active = {}, ls_pending = 0\<rparr>),
     gw_next = 0, gw_leases = [], gw_connecting = [], gw_destroyed = {}\<rparr>"

text \<open>A new lease id is a fresh UUID. The expiry timer of a lease revokes it by id; no step asks that its time has come.\<close>

inductive gw_step :: "(octets \<Rightarrow> octets) \<Rightarrow> lease_options \<Rightarrow> gateway \<Rightarrow> gateway \<Rightarrow> bool" for sha256 opts where
  issue: "issue_begin opts now request = Inr (spec, endpoint) \<Longrightarrow> leaseId \<notin> fst ` set (gw_leases s)
    \<Longrightarrow> issue_finish sha256 spec endpoint cert leaseId accessToken s = Inr s' \<Longrightarrow> gw_step sha256 opts s s'"
| openTunnel: "openTunnel_begin sha256 opts now request s = (r, s') \<Longrightarrow> gw_step sha256 opts s s'"
| connected: "a \<in> set (gw_connecting s) \<Longrightarrow> tunnel_connected now a stream s = (r, s') \<Longrightarrow> gw_step sha256 opts s s'"
| failed: "a \<in> set (gw_connecting s) \<Longrightarrow> tunnel_failed a s = (r, s') \<Longrightarrow> gw_step sha256 opts s s'"
| closed: "gw_step sha256 opts s (release_stream a stream s)"
| revoke: "revoke leaseId workspaceId wallet s = (r, s') \<Longrightarrow> gw_step sha256 opts s s'"
| revokeWorkspace: "revokeWorkspace workspaceId s = Inr s' \<Longrightarrow> gw_step sha256 opts s s'"
| expired: "gw_step sha256 opts s (revokeTrusted leaseId s)"
| sweep: "gw_step sha256 opts s (sweepExpired now s)"
| stop: "gw_step sha256 opts s (stop s)"

definition gw_reachable :: "(octets \<Rightarrow> octets) \<Rightarrow> lease_options \<Rightarrow> gateway \<Rightarrow> bool" where
  "gw_reachable sha256 opts s \<longleftrightarrow> (gw_step sha256 opts)\<^sup>*\<^sup>* new_gateway s"

section \<open>Revocation\<close>

definition keys_ok :: "gateway \<Rightarrow> bool" where
  "keys_ok s \<longleftrightarrow> distinct (map fst (gw_leases s))
     \<and> (\<forall>p \<in> set (gw_leases s). snd p < gw_next s \<and> ls_leaseId (gw_objs s (snd p)) = fst p)"

text \<open>What a revocation may do: drop leases, and close every stream of each lease it drops.\<close>

definition shrinks :: "gateway \<Rightarrow> gateway \<Rightarrow> bool" where
  "shrinks s s' \<longleftrightarrow>
     (\<exists>keep. gw_leases s' = filter keep (gw_leases s))
     \<and> (\<forall>a. gw_objs s' a = gw_objs s a \<or> gw_objs s' a = (gw_objs s a)\<lparr>ls_active := {}\<rparr>)
     \<and> (\<forall>p \<in> set (gw_leases s). p \<in> set (gw_leases s') \<or> ls_active (gw_objs s' (snd p)) = {})
     \<and> (\<forall>p \<in> set (gw_leases s'). gw_objs s' (snd p) = gw_objs s (snd p))
     \<and> (\<forall>a. ls_active (gw_objs s a) \<subseteq> ls_active (gw_objs s' a) \<union> gw_destroyed s')
     \<and> gw_destroyed s \<subseteq> gw_destroyed s'
     \<and> gw_next s' = gw_next s \<and> gw_connecting s' = gw_connecting s"

lemma shrinks_refl [simp]: "shrinks s s"
  unfolding shrinks_def by (auto intro: exI[of _ "\<lambda>_. True"])

lemma shrinks_keys: "shrinks s s' \<Longrightarrow> keys_ok s \<Longrightarrow> keys_ok s'"
proof -
  assume sh: "shrinks s s'" and k: "keys_ok s"
  then obtain keep where f: "gw_leases s' = filter keep (gw_leases s)" by (auto simp: shrinks_def)
  have id: "ls_leaseId (gw_objs s' a) = ls_leaseId (gw_objs s a)" for a
  proof -
    have "gw_objs s' a = gw_objs s a \<or> gw_objs s' a = (gw_objs s a)\<lparr>ls_active := {}\<rparr>" using sh by (simp add: shrinks_def)
    then show ?thesis by auto
  qed
  show "keys_ok s'" unfolding keys_ok_def f id using k sh
    by (auto simp: keys_ok_def shrinks_def distinct_map inj_on_def)
qed

lemma shrinks_trans: "shrinks s t \<Longrightarrow> shrinks t u \<Longrightarrow> shrinks s u"
proof -
  assume st: "shrinks s t" and tu: "shrinks t u"
  obtain k1 where k1: "gw_leases t = filter k1 (gw_leases s)" using st by (auto simp: shrinks_def)
  obtain k2 where k2: "gw_leases u = filter k2 (gw_leases t)" using tu by (auto simp: shrinks_def)
  have o1: "gw_objs t a = gw_objs s a \<or> gw_objs t a = (gw_objs s a)\<lparr>ls_active := {}\<rparr>" for a using st by (simp add: shrinks_def)
  have o2: "gw_objs u a = gw_objs t a \<or> gw_objs u a = (gw_objs t a)\<lparr>ls_active := {}\<rparr>" for a using tu by (simp add: shrinks_def)
  have objs: "gw_objs u a = gw_objs s a \<or> gw_objs u a = (gw_objs s a)\<lparr>ls_active := {}\<rparr>" for a using o1[of a] o2[of a] by auto
  have gone: "p \<in> set (gw_leases u) \<or> ls_active (gw_objs u (snd p)) = {}" if p: "p \<in> set (gw_leases s)" for p
  proof (cases "p \<in> set (gw_leases t)")
    case True
    then show ?thesis using tu by (auto simp: shrinks_def)
  next
    case False
    then have "ls_active (gw_objs t (snd p)) = {}" using st p by (auto simp: shrinks_def)
    then show ?thesis using o2[of "snd p"] by auto
  qed
  have act: "ls_active (gw_objs s a) \<subseteq> ls_active (gw_objs u a) \<union> gw_destroyed u" for a
  proof -
    have "ls_active (gw_objs s a) \<subseteq> ls_active (gw_objs t a) \<union> gw_destroyed t" using st by (simp add: shrinks_def)
    moreover have "ls_active (gw_objs t a) \<subseteq> ls_active (gw_objs u a) \<union> gw_destroyed u" "gw_destroyed t \<subseteq> gw_destroyed u"
      using tu by (simp_all add: shrinks_def)
    ultimately show ?thesis by blast
  qed
  have kept: "gw_objs u (snd p) = gw_objs s (snd p)" if p: "p \<in> set (gw_leases u)" for p
  proof -
    have "p \<in> set (gw_leases t)" using p k2 by simp
    then have "gw_objs t (snd p) = gw_objs s (snd p)" using st by (simp add: shrinks_def)
    moreover have "gw_objs u (snd p) = gw_objs t (snd p)" using tu p by (simp add: shrinks_def)
    ultimately show ?thesis by simp
  qed
  have rest: "gw_destroyed s \<subseteq> gw_destroyed u \<and> gw_next u = gw_next s \<and> gw_connecting u = gw_connecting s"
    using st tu by (auto simp: shrinks_def)
  have "gw_leases u = filter (\<lambda>p. k1 p \<and> k2 p) (gw_leases s)" by (simp add: k1 k2 conj_commute)
  then show "shrinks s u" unfolding shrinks_def using objs gone kept act rest by blast
qed

lemma map_of_key: "keys_ok s \<Longrightarrow> p \<in> set (gw_leases s) \<Longrightarrow> map_of (gw_leases s) (fst p) = Some (snd p)"
  by (auto simp: keys_ok_def)

lemma revokeTrusted_leases: "gw_leases (revokeTrusted i s) = filter (\<lambda>p. fst p \<noteq> i) (gw_leases s)"
proof (cases "map_of (gw_leases s) i")
  case None
  then have "\<forall>p \<in> set (gw_leases s). fst p \<noteq> i" by (auto simp: map_of_eq_None_iff)
  then show ?thesis using None by (simp add: revokeTrusted_def)
qed (simp add: revokeTrusted_def case_prod_unfold)

lemma revokeTrusted_shrinks:
  assumes k: "keys_ok s"
  shows "shrinks s (revokeTrusted i s)"
proof (cases "map_of (gw_leases s) i")
  case None
  then show ?thesis by (simp add: revokeTrusted_def)
next
  case (Some a)
  have only: "snd p = a" if "p \<in> set (gw_leases s)" "fst p = i" for p
    using map_of_key[OF k that(1)] that(2) Some by simp
  show ?thesis unfolding shrinks_def
  proof (intro conjI allI ballI)
    show "\<exists>keep. gw_leases (revokeTrusted i s) = filter keep (gw_leases s)" using revokeTrusted_leases by blast
    fix p assume "p \<in> set (gw_leases s)"
    then show "p \<in> set (gw_leases (revokeTrusted i s)) \<or> ls_active (gw_objs (revokeTrusted i s) (snd p)) = {}"
      using only[of p] Some by (auto simp: revokeTrusted_leases) (auto simp: revokeTrusted_def)
  next
    fix p assume p: "p \<in> set (gw_leases (revokeTrusted i s))"
    have "(i, a) \<in> set (gw_leases s)" by (rule map_of_SomeD[OF Some])
    then have "ls_leaseId (gw_objs s a) = i" using k by (auto simp: keys_ok_def)
    moreover have "ls_leaseId (gw_objs s (snd p)) = fst p" "fst p \<noteq> i" using p k by (auto simp: revokeTrusted_leases keys_ok_def)
    ultimately have "snd p \<noteq> a" by auto
    then show "gw_objs (revokeTrusted i s) (snd p) = gw_objs s (snd p)" using Some by (simp add: revokeTrusted_def)
  qed (use Some in \<open>auto simp: revokeTrusted_def\<close>)
qed

text \<open>A revocation by predicate drops exactly the leases it holds for.\<close>

definition revoke_step :: "(lease \<Rightarrow> bool) \<Rightarrow> gateway \<Rightarrow> string \<times> nat \<Rightarrow> gateway" where
  "revoke_step P s p = (if P (gw_objs s (snd p)) then revokeTrusted (ls_leaseId (gw_objs s (snd p))) s else s)"

lemma revoke_where_fold: "revoke_where P s = foldl (revoke_step P) s (gw_leases s)"
  unfolding revoke_where_def revoke_step_def by (rule foldl_cong) auto

lemma revoke_fold:
  assumes "keys_ok s" and P: "\<And>l. P (l\<lparr>ls_active := {}\<rparr>) = P l"
    and "\<forall>p \<in> set ps. snd p < gw_next s \<and> ls_leaseId (gw_objs s (snd p)) = fst p"
  shows "shrinks s (foldl (revoke_step P) s ps)
    \<and> gw_leases (foldl (revoke_step P) s ps) =
        filter (\<lambda>p. \<not> (\<exists>q \<in> set ps. fst q = fst p \<and> P (gw_objs s (snd q)))) (gw_leases s)"
  using assms(1,3)
proof (induction ps arbitrary: s)
  case (Cons p ps)
  define t where "t = revoke_step P s p"
  have sh: "shrinks s t" using revokeTrusted_shrinks[OF Cons.prems(1)] by (simp add: t_def revoke_step_def)
  have core: "gw_objs t a = gw_objs s a \<or> gw_objs t a = (gw_objs s a)\<lparr>ls_active := {}\<rparr>" for a
    using sh by (simp add: shrinks_def)
  have id: "ls_leaseId (gw_objs t a) = ls_leaseId (gw_objs s a)" "P (gw_objs t a) = P (gw_objs s a)" for a
    using core[of a] P[of "gw_objs s a"] by auto
  have nx: "gw_next t = gw_next s" using sh by (simp add: shrinks_def)
  have IH: "shrinks t (foldl (revoke_step P) t ps)
      \<and> gw_leases (foldl (revoke_step P) t ps) =
          filter (\<lambda>p. \<not> (\<exists>q \<in> set ps. fst q = fst p \<and> P (gw_objs t (snd q)))) (gw_leases t)"
    by (rule Cons.IH[OF shrinks_keys[OF sh Cons.prems(1)]]) (use Cons.prems(2) in \<open>simp add: id nx\<close>)
  have "gw_leases t = filter (\<lambda>q. \<not> (fst p = fst q \<and> P (gw_objs s (snd p)))) (gw_leases s)"
    using Cons.prems(2) by (auto simp: t_def revoke_step_def revokeTrusted_leases intro: filter_cong)
  then have "gw_leases (foldl (revoke_step P) t ps) =
      filter (\<lambda>r. \<not> (\<exists>q \<in> set (p # ps). fst q = fst r \<and> P (gw_objs s (snd q)))) (gw_leases s)"
    using IH by (simp add: id conj_commute)
  then show ?case using IH shrinks_trans[OF sh] by (simp add: t_def)
qed simp

lemma revoke_where_spec:
  assumes "keys_ok s" "\<And>l. P (l\<lparr>ls_active := {}\<rparr>) = P l"
  shows "shrinks s (revoke_where P s)
    \<and> gw_leases (revoke_where P s) = filter (\<lambda>p. \<not> P (gw_objs s (snd p))) (gw_leases s)"
proof -
  have k: "\<forall>p \<in> set (gw_leases s). snd p < gw_next s \<and> ls_leaseId (gw_objs s (snd p)) = fst p"
    using assms(1) by (simp add: keys_ok_def)
  have same: "q = p" if "p \<in> set (gw_leases s)" "q \<in> set (gw_leases s)" "fst q = fst p" for p q
    using map_of_key[OF assms(1) that(1)] map_of_key[OF assms(1) that(2)] that(3) by (simp add: prod_eq_iff)
  have "filter (\<lambda>p. \<not> (\<exists>q \<in> set (gw_leases s). fst q = fst p \<and> P (gw_objs s (snd q)))) (gw_leases s)
      = filter (\<lambda>p. \<not> P (gw_objs s (snd p))) (gw_leases s)"
    by (rule filter_cong[OF refl]) (use same in blast)
  then show ?thesis using revoke_fold[OF assms(1), of P, OF assms(2) k] by (simp add: revoke_where_fold)
qed

section \<open>The invariant\<close>

text \<open>What \<open>issue\<close> checked when it made the lease.\<close>

definition issued :: "(octets \<Rightarrow> octets) \<Rightarrow> lease_options \<Rightarrow> lease \<Rightarrow> bool" where
  "issued sha256 opts l \<longleftrightarrow>
     workspacePrincipal sha256 (ls_workspaceId l) (ls_wallet l) (ls_mode l) = Inr (sc_principal (ls_signed l))
     \<and> ls_validBefore l - sc_validAfter (ls_signed l) \<le> lo_maxLeaseMs opts + 5000
     \<and> (\<exists>e. validateEndpoint opts e = Inr (ls_endpoint l))"

definition same_scope :: "lease \<Rightarrow> lease \<Rightarrow> bool" where
  "same_scope l l' \<longleftrightarrow> ls_workspaceId l = ls_workspaceId l' \<and> ls_mode l = ls_mode l'"

definition gw_inv :: "(octets \<Rightarrow> octets) \<Rightarrow> lease_options \<Rightarrow> gateway \<Rightarrow> bool" where
  "gw_inv sha256 opts s \<longleftrightarrow> keys_ok s
     \<and> (\<forall>p \<in> set (gw_leases s). \<forall>q \<in> set (gw_leases s). same_scope (gw_objs s (snd p)) (gw_objs s (snd q)) \<longrightarrow> p = q)
     \<and> (\<forall>a. finite (ls_active (gw_objs s a)) \<and> ls_pending (gw_objs s a) = int (count_list (gw_connecting s) a)
          \<and> int (card (ls_active (gw_objs s a))) + ls_pending (gw_objs s a) \<le> lo_maxConnections opts)
     \<and> (\<forall>a. ls_active (gw_objs s a) \<noteq> {} \<longrightarrow> a \<in> snd ` set (gw_leases s))
     \<and> (\<forall>p \<in> set (gw_leases s). issued sha256 opts (gw_objs s (snd p)))
     \<and> (\<forall>a \<in> set (gw_connecting s). a < gw_next s)"

lemma gw_invD:
  assumes "gw_inv sha256 opts s"
  shows "keys_ok s" "finite (ls_active (gw_objs s a))" "ls_pending (gw_objs s a) = int (count_list (gw_connecting s) a)"
    "int (card (ls_active (gw_objs s a))) + ls_pending (gw_objs s a) \<le> lo_maxConnections opts"
    "ls_active (gw_objs s a) \<noteq> {} \<longrightarrow> a \<in> snd ` set (gw_leases s)"
    "\<forall>b \<in> set (gw_connecting s). b < gw_next s"
  using assms unfolding gw_inv_def by blast+

lemma gw_invI:
  assumes "keys_ok s"
    and "\<And>p q. p \<in> set (gw_leases s) \<Longrightarrow> q \<in> set (gw_leases s) \<Longrightarrow> same_scope (gw_objs s (snd p)) (gw_objs s (snd q)) \<Longrightarrow> p = q"
    and "\<And>a. finite (ls_active (gw_objs s a)) \<and> ls_pending (gw_objs s a) = int (count_list (gw_connecting s) a)
          \<and> int (card (ls_active (gw_objs s a))) + ls_pending (gw_objs s a) \<le> lo_maxConnections opts"
    and "\<And>a. ls_active (gw_objs s a) \<noteq> {} \<Longrightarrow> a \<in> snd ` set (gw_leases s)"
    and "\<And>p. p \<in> set (gw_leases s) \<Longrightarrow> issued sha256 opts (gw_objs s (snd p))"
    and "\<And>b. b \<in> set (gw_connecting s) \<Longrightarrow> b < gw_next s"
  shows "gw_inv sha256 opts s"
  unfolding gw_inv_def using assms by blast

lemma gw_inv_leases:
  assumes "gw_inv sha256 opts s" "p \<in> set (gw_leases s)"
  shows "issued sha256 opts (gw_objs s (snd p))"
    "q \<in> set (gw_leases s) \<Longrightarrow> same_scope (gw_objs s (snd p)) (gw_objs s (snd q)) \<Longrightarrow> p = q"
  using assms unfolding gw_inv_def by blast+

lemma issued_core [simp]: "issued sha256 opts (l\<lparr>ls_active := A\<rparr>) = issued sha256 opts l"
    "issued sha256 opts (l\<lparr>ls_pending := n\<rparr>) = issued sha256 opts l"
  by (simp_all add: issued_def)

lemma same_scope_core [simp]:
  "same_scope (l\<lparr>ls_active := A\<rparr>) l' = same_scope l l'" "same_scope l (l'\<lparr>ls_active := A\<rparr>) = same_scope l l'"
  "same_scope (l\<lparr>ls_pending := n\<rparr>) l' = same_scope l l'" "same_scope l (l'\<lparr>ls_pending := n\<rparr>) = same_scope l l'"
  by (simp_all add: same_scope_def)

lemma gw_inv_new: "0 \<le> lo_maxConnections opts \<Longrightarrow> gw_inv sha256 opts new_gateway"
  by (simp add: gw_inv_def keys_ok_def new_gateway_def)

lemma gw_inv_shrinks:
  assumes inv: "gw_inv sha256 opts s" and sh: "shrinks s s'"
  shows "gw_inv sha256 opts s'"
proof -
  obtain keep where f: "gw_leases s' = filter keep (gw_leases s)" using sh by (auto simp: shrinks_def)
  have core: "gw_objs s' a = gw_objs s a \<or> gw_objs s' a = (gw_objs s a)\<lparr>ls_active := {}\<rparr>" for a using sh by (simp add: shrinks_def)
  have eq: "issued sha256 opts (gw_objs s' a) = issued sha256 opts (gw_objs s a)"
    "same_scope (gw_objs s' a) (gw_objs s' b) = same_scope (gw_objs s a) (gw_objs s b)"
    "ls_pending (gw_objs s' a) = ls_pending (gw_objs s a)"
    "ls_active (gw_objs s' a) \<subseteq> ls_active (gw_objs s a)" for a b
    using core[of a] core[of b] by auto
  have nc: "gw_next s' = gw_next s" "gw_connecting s' = gw_connecting s" using sh by (simp_all add: shrinks_def)
  have fin: "finite (ls_active (gw_objs s' a)) \<and> ls_pending (gw_objs s' a) = int (count_list (gw_connecting s') a)
      \<and> int (card (ls_active (gw_objs s' a))) + ls_pending (gw_objs s' a) \<le> lo_maxConnections opts" for a
  proof -
    have i: "finite (ls_active (gw_objs s a)) \<and> ls_pending (gw_objs s a) = int (count_list (gw_connecting s) a)
      \<and> int (card (ls_active (gw_objs s a))) + ls_pending (gw_objs s a) \<le> lo_maxConnections opts"
      using gw_invD[OF inv] by blast
    have "card (ls_active (gw_objs s' a)) \<le> card (ls_active (gw_objs s a))" using eq(4) i by (simp add: card_mono)
    then show ?thesis using i eq(3)[of a] finite_subset[OF eq(4)[of a]] by (simp add: nc)
  qed
  have act: "a \<in> snd ` set (gw_leases s')" if n: "ls_active (gw_objs s' a) \<noteq> {}" for a
  proof -
    have "ls_active (gw_objs s a) \<noteq> {}" using n eq(4)[of a] by auto
    then obtain p where p: "p \<in> set (gw_leases s)" "a = snd p" using gw_invD(5)[OF inv, of a] by blast
    then have "p \<in> set (gw_leases s')" using sh n by (auto simp: shrinks_def)
    then show ?thesis using p by blast
  qed
  show ?thesis
    unfolding gw_inv_def using shrinks_keys[OF sh] inv fin act by (auto simp: gw_inv_def eq nc f)
qed

lemma count_remove1: "count_list (remove1 a xs) b = count_list xs b - (if a = b then 1 else 0)"
  by (induction xs) auto

text \<open>Changes to the counters of one object.\<close>

lemma gw_inv_object:
  assumes inv: "gw_inv sha256 opts s"
    and obj: "l = (gw_objs s a)\<lparr>ls_active := A, ls_pending := n\<rparr>"
    and cnt: "finite A" "n = int (count_list c a)" "int (card A) + n \<le> lo_maxConnections opts"
    and oth: "\<And>b. b \<noteq> a \<Longrightarrow> count_list c b = count_list (gw_connecting s) b"
    and nx: "\<forall>b \<in> set c. b < gw_next s"
    and live: "A \<noteq> {} \<Longrightarrow> a \<in> snd ` set (gw_leases s)"
  shows "gw_inv sha256 opts (s\<lparr>gw_objs := (gw_objs s)(a := l), gw_connecting := c\<rparr>)"
proof -
  have iss: "issued sha256 opts (((gw_objs s)(a := l)) b) = issued sha256 opts (gw_objs s b)"
    and sc: "same_scope (((gw_objs s)(a := l)) b) (((gw_objs s)(a := l)) d) = same_scope (gw_objs s b) (gw_objs s d)"
    and id: "ls_leaseId (((gw_objs s)(a := l)) b) = ls_leaseId (gw_objs s b)" for b d
    using obj by simp_all
  show ?thesis
  proof (rule gw_invI)
    show "keys_ok (s\<lparr>gw_objs := (gw_objs s)(a := l), gw_connecting := c\<rparr>)"
      using gw_invD(1)[OF inv] by (simp add: keys_ok_def id del: fun_upd_apply)
  next
    fix b
    show "finite (ls_active (gw_objs (s\<lparr>gw_objs := (gw_objs s)(a := l), gw_connecting := c\<rparr>) b))
      \<and> ls_pending (gw_objs (s\<lparr>gw_objs := (gw_objs s)(a := l), gw_connecting := c\<rparr>) b)
          = int (count_list (gw_connecting (s\<lparr>gw_objs := (gw_objs s)(a := l), gw_connecting := c\<rparr>)) b)
      \<and> int (card (ls_active (gw_objs (s\<lparr>gw_objs := (gw_objs s)(a := l), gw_connecting := c\<rparr>) b)))
          + ls_pending (gw_objs (s\<lparr>gw_objs := (gw_objs s)(a := l), gw_connecting := c\<rparr>) b) \<le> lo_maxConnections opts"
      using gw_invD(2,3,4)[OF inv, of b] cnt oth[of b] by (cases "b = a") (simp_all add: obj)
  next
    fix b
    assume "ls_active (gw_objs (s\<lparr>gw_objs := (gw_objs s)(a := l), gw_connecting := c\<rparr>) b) \<noteq> {}"
    then show "b \<in> snd ` set (gw_leases (s\<lparr>gw_objs := (gw_objs s)(a := l), gw_connecting := c\<rparr>))"
      using live gw_invD(5)[OF inv, of b] by (cases "b = a") (simp_all add: obj)
  qed (use inv nx gw_inv_leases[OF inv] in \<open>simp_all add: iss sc del: fun_upd_apply\<close>)
qed

lemma gw_inv_destroyed: "gw_inv sha256 opts (s\<lparr>gw_destroyed := d\<rparr>) = gw_inv sha256 opts s"
  by (simp add: gw_inv_def keys_ok_def)

lemma map_of_live: "map_of (gw_leases s) i = Some a \<Longrightarrow> a \<in> snd ` set (gw_leases s)"
  by (force dest: map_of_SomeD)

lemma authorize_shrinks: "keys_ok s \<Longrightarrow> shrinks s (snd (authorize sha256 now request s))"
  by (auto simp: authorize_def Let_def revokeTrusted_shrinks split: option.split)

lemma authorize_Inr:
  "authorize sha256 now request s = (Inr a, s1) \<longleftrightarrow>
     s1 = s \<and> map_of (gw_leases s) (tr_leaseId request) = Some a \<and> now < ls_validBefore (gw_objs s a)
     \<and> is_uuid4 (tr_workspaceId request) \<and> full wallet_rx (tr_wallet request)
     \<and> ls_workspaceId (gw_objs s a) = to_lower (tr_workspaceId request)
     \<and> ls_wallet (gw_objs s a) = to_lower (tr_wallet request) \<and> ls_mode (gw_objs s a) = tr_mode request
     \<and> digestToken sha256 (tr_accessToken request) = ls_tokenHash (gw_objs s a)"
  by (cases "map_of (gw_leases s) (tr_leaseId request)") (auto simp: authorize_def Let_def res_simps norm_Inr not_le)

lemma openTunnel_begin_inv:
  assumes inv: "gw_inv sha256 opts s" and o: "openTunnel_begin sha256 opts now request s = (r, s')"
  shows "gw_inv sha256 opts s'"
proof -
  obtain r1 s1 where a: "authorize sha256 now request s = (r1, s1)" by fastforce
  have inv1: "gw_inv sha256 opts s1"
    using gw_inv_shrinks[OF inv authorize_shrinks[of s sha256 now request]] gw_invD(1)[OF inv] a by simp
  show ?thesis
  proof (cases r1)
    case (Inl e)
    then show ?thesis using o a inv1 by (simp add: openTunnel_begin_def)
  next
    case (Inr x)
    have x: "s1 = s" "map_of (gw_leases s) (tr_leaseId request) = Some x" using a unfolding Inr authorize_Inr by simp_all
    have "gw_inv sha256 opts (s1\<lparr>gw_objs := (gw_objs s1)(x := (gw_objs s1 x)\<lparr>ls_pending := ls_pending (gw_objs s1 x) + 1\<rparr>),
        gw_connecting := x # gw_connecting s1\<rparr>)"
      if full: "\<not> lo_maxConnections opts \<le> int (card (ls_active (gw_objs s1 x))) + ls_pending (gw_objs s1 x)"
    proof (rule gw_inv_object[OF inv1, where A = "ls_active (gw_objs s1 x)"])
      have "x < gw_next s" using inv map_of_SomeD[OF x(2)] by (auto simp: gw_inv_def keys_ok_def)
      then show "\<forall>b \<in> set (x # gw_connecting s1). b < gw_next s1" using inv x(1) by (simp add: gw_inv_def)
    qed (use full gw_invD(2,3,4,5)[OF inv1, of x] x map_of_live[OF x(2)] in auto)
    then show ?thesis using o a Inr inv1 by (auto simp: openTunnel_begin_def Let_def split: if_splits)
  qed
qed

lemma connector_done_inv:
  assumes inv: "gw_inv sha256 opts s" and a: "a \<in> set (gw_connecting s)"
  shows "gw_inv sha256 opts (connector_done a s)"
    "int (card (ls_active (gw_objs (connector_done a s) a))) + ls_pending (gw_objs (connector_done a s) a) + 1 \<le> lo_maxConnections opts"
proof -
  have i: "finite (ls_active (gw_objs s a))" "ls_pending (gw_objs s a) = int (count_list (gw_connecting s) a)"
    "int (card (ls_active (gw_objs s a))) + ls_pending (gw_objs s a) \<le> lo_maxConnections opts"
    by (rule gw_invD[OF inv])+
  have pos: "0 < count_list (gw_connecting s) a" using a count_list_0_iff[of "gw_connecting s" a] by auto
  show "gw_inv sha256 opts (connector_done a s)"
    unfolding connector_done_def
  proof (rule gw_inv_object[OF inv, where A = "ls_active (gw_objs s a)"])
    show "\<forall>b \<in> set (remove1 a (gw_connecting s)). b < gw_next s"
      using gw_invD(6)[OF inv] by (auto dest: notin_set_remove1)
    show "ls_pending (gw_objs s a) - 1 = int (count_list (remove1 a (gw_connecting s)) a)"
      using i(2) pos by (simp add: count_remove1 of_nat_diff)
    show "ls_active (gw_objs s a) \<noteq> {} \<Longrightarrow> a \<in> snd ` set (gw_leases s)" using gw_invD(5)[OF inv, of a] by blast
  qed (use i in \<open>simp_all add: count_remove1\<close>)
  show "int (card (ls_active (gw_objs (connector_done a s) a))) + ls_pending (gw_objs (connector_done a s) a) + 1 \<le> lo_maxConnections opts"
    using i by (simp add: connector_done_def)
qed

lemma tunnel_connected_inv:
  assumes inv: "gw_inv sha256 opts s" and a: "a \<in> set (gw_connecting s)"
    and t: "tunnel_connected now a stream s = (r, s')"
  shows "gw_inv sha256 opts s'"
proof -
  define s1 where "s1 = connector_done a s"
  note i1 = connector_done_inv[OF inv a, folded s1_def]
  have fin: "finite (ls_active (gw_objs s1 a))" "ls_pending (gw_objs s1 a) = int (count_list (gw_connecting s1) a)"
    by (rule gw_invD[OF i1(1)])+
  have add: "gw_inv sha256 opts (s1\<lparr>gw_objs := (gw_objs s1)(a := (gw_objs s1 a)\<lparr>ls_active := insert stream (ls_active (gw_objs s1 a))\<rparr>)\<rparr>)"
    if m: "map_of (gw_leases s1) (ls_leaseId (gw_objs s1 a)) = Some a"
  proof -
    have "card (insert stream (ls_active (gw_objs s1 a))) \<le> Suc (card (ls_active (gw_objs s1 a)))" by (rule card_insert_le_m1) simp_all
    then have "gw_inv sha256 opts (s1\<lparr>gw_objs := (gw_objs s1)(a := (gw_objs s1 a)\<lparr>ls_active := insert stream (ls_active (gw_objs s1 a))\<rparr>),
        gw_connecting := gw_connecting s1\<rparr>)"
      by (intro gw_inv_object[OF i1(1), where A = "insert stream (ls_active (gw_objs s1 a))"])
        (use i1(2) fin map_of_live[OF m] gw_invD(6)[OF i1(1)] in auto)
    then show ?thesis by simp
  qed
  have dst: "gw_inv sha256 opts (s1\<lparr>gw_destroyed := insert stream (gw_destroyed s1)\<rparr>)"
    using i1(1) by (simp only: gw_inv_destroyed)
  show ?thesis using t add dst by (auto simp: tunnel_connected_def Let_def s1_def[symmetric] split: if_splits)
qed

lemma release_inv:
  assumes inv: "gw_inv sha256 opts s"
  shows "gw_inv sha256 opts (release_stream a stream s)"
proof -
  have i: "finite (ls_active (gw_objs s a))" "ls_pending (gw_objs s a) = int (count_list (gw_connecting s) a)"
    "int (card (ls_active (gw_objs s a))) + ls_pending (gw_objs s a) \<le> lo_maxConnections opts"
    "ls_active (gw_objs s a) \<noteq> {} \<longrightarrow> a \<in> snd ` set (gw_leases s)"
    by (rule gw_invD[OF inv])+
  have "card (ls_active (gw_objs s a) - {stream}) \<le> card (ls_active (gw_objs s a))" using i by (simp add: card_mono)
  then have "gw_inv sha256 opts (s\<lparr>gw_objs := (gw_objs s)(a := (gw_objs s a)\<lparr>ls_active := ls_active (gw_objs s a) - {stream}\<rparr>),
      gw_connecting := gw_connecting s\<rparr>)"
    by (intro gw_inv_object[OF inv, where A = "ls_active (gw_objs s a) - {stream}"]) (use i gw_invD(6)[OF inv] in auto)
  then show ?thesis by (simp add: release_stream_def)
qed

section \<open>Issuing\<close>

lemma validateEndpoint_Inr:
  "validateEndpoint opts e = Inr e' \<longleftrightarrow>
     (\<exists>host port. e = TcpEndpoint host port \<and> e' = e \<and> (host = ''127.0.0.1'' \<or> host = ''::1'') \<and> 1 \<le> port \<and> port \<le> 65535)
     \<or> (\<exists>p. e = UnixEndpoint p \<and> e' = UnixEndpoint (resolve_abs p) \<and> isAbsolute p
          \<and> CHR 0x00 \<notin> set p \<and> CHR 0x0A \<notin> set p \<and> CHR 0x0D \<notin> set p
          \<and> starts_with (resolve_abs p) (lo_socketRoot opts @ ''/''))"
  by (cases e) (auto simp: validateEndpoint_def assertPort_def is_safe_integer_def max_safe_integer_def Let_def res_simps
      split: if_splits)

lemma issue_begin_Inr:
  "issue_begin opts now req = Inr (spec, ep) \<longleftrightarrow>
     (\<exists>ttl. ttl = (case lr_requestedTtlMs req of None \<Rightarrow> lo_maxLeaseMs opts | Some n \<Rightarrow> n)
        \<and> is_safe_integer ttl \<and> 5000 \<le> ttl \<and> ttl \<le> lo_maxLeaseMs opts
        \<and> cs_validBefore spec = min (lr_workspaceLeaseExpiresAt req) (now + ttl))
     \<and> cs_validAfter spec = now - 5000 \<and> now + 1000 < cs_validBefore spec
     \<and> is_safe_integer (lr_workspaceLeaseExpiresAt req) \<and> now + 1000 < lr_workspaceLeaseExpiresAt req
     \<and> normalizeWorkspaceId (lr_workspaceId req) = Inr (cs_workspaceId spec)
     \<and> normalizeWallet (lr_wallet req) = Inr (cs_wallet spec)
     \<and> normalizeAccessMode (lr_mode req) = Inr (cs_mode spec)
     \<and> validateEndpoint opts (lr_endpoint req) = Inr ep
     \<and> cs_caKeyPath spec = lo_caKeyPath opts \<and> cs_publicKey spec = lr_publicKey req"
  unfolding issue_begin_def rbind_Inr_iff Let_def by (cases spec) (auto simp: not_le)

lemma map_set_fresh: "k \<notin> fst ` set xs \<Longrightarrow> map_set k v xs = xs @ [(k, v)]"
  by (induction k v xs rule: map_set.induct) auto

lemma alloc_inv:
  assumes inv: "gw_inv sha256 opts s" and l: "ls_active l = {}" "ls_pending l = 0"
  shows "gw_inv sha256 opts (s\<lparr>gw_objs := (gw_objs s)(gw_next s := l), gw_next := Suc (gw_next s)\<rparr>)"
proof -
  have lt: "snd p \<noteq> gw_next s" if "p \<in> set (gw_leases s)" for p
    using gw_invD(1)[OF inv] that by (auto simp: keys_ok_def)
  have zero: "count_list (gw_connecting s) (gw_next s) = 0"
    using gw_invD(6)[OF inv] by (auto simp: count_list_0_iff)
  have mx: "0 \<le> lo_maxConnections opts" using gw_invD(3,4)[OF inv, of 0] by linarith
  show ?thesis
  proof (rule gw_invI)
    show "keys_ok (s\<lparr>gw_objs := (gw_objs s)(gw_next s := l), gw_next := Suc (gw_next s)\<rparr>)"
      using gw_invD(1)[OF inv] by (auto simp: keys_ok_def)
  next
    fix a
    show "finite (ls_active (gw_objs (s\<lparr>gw_objs := (gw_objs s)(gw_next s := l), gw_next := Suc (gw_next s)\<rparr>) a))
      \<and> ls_pending (gw_objs (s\<lparr>gw_objs := (gw_objs s)(gw_next s := l), gw_next := Suc (gw_next s)\<rparr>) a)
        = int (count_list (gw_connecting (s\<lparr>gw_objs := (gw_objs s)(gw_next s := l), gw_next := Suc (gw_next s)\<rparr>)) a)
      \<and> int (card (ls_active (gw_objs (s\<lparr>gw_objs := (gw_objs s)(gw_next s := l), gw_next := Suc (gw_next s)\<rparr>) a)))
        + ls_pending (gw_objs (s\<lparr>gw_objs := (gw_objs s)(gw_next s := l), gw_next := Suc (gw_next s)\<rparr>) a) \<le> lo_maxConnections opts"
      using gw_invD(2,3,4)[OF inv, of a] l zero mx by (cases "a = gw_next s") simp_all
  next
    fix a
    assume "ls_active (gw_objs (s\<lparr>gw_objs := (gw_objs s)(gw_next s := l), gw_next := Suc (gw_next s)\<rparr>) a) \<noteq> {}"
    then show "a \<in> snd ` set (gw_leases (s\<lparr>gw_objs := (gw_objs s)(gw_next s := l), gw_next := Suc (gw_next s)\<rparr>))"
      using gw_invD(5)[OF inv, of a] l by (cases "a = gw_next s") simp_all
  next
    fix b
    assume "b \<in> set (gw_connecting (s\<lparr>gw_objs := (gw_objs s)(gw_next s := l), gw_next := Suc (gw_next s)\<rparr>))"
    then show "b < gw_next (s\<lparr>gw_objs := (gw_objs s)(gw_next s := l), gw_next := Suc (gw_next s)\<rparr>)"
      using gw_invD(6)[OF inv] by (simp add: less_SucI)
  qed (use gw_inv_leases[OF inv] lt in \<open>simp_all\<close>)
qed

lemma issue_finish_inv:
  assumes inv: "gw_inv sha256 opts s" and b: "issue_begin opts now req = Inr (spec, ep)"
    and fresh: "i \<notin> fst ` set (gw_leases s)" and f: "issue_finish sha256 spec ep cert i token s = Inr s'"
  shows "gw_inv sha256 opts s'"
proof -
  define l where "l = \<lparr>ls_signed = cert, ls_leaseId = i, ls_workspaceId = cs_workspaceId spec, ls_wallet = cs_wallet spec,
    ls_endpoint = ep, ls_tokenHash = digestToken sha256 token, ls_active = {}, ls_pending = 0\<rparr>"
  define s1 where "s1 = s\<lparr>gw_objs := (gw_objs s)(gw_next s := l), gw_next := Suc (gw_next s)\<rparr>"
  define P where "P = (\<lambda>l :: lease. ls_workspaceId l = cs_workspaceId spec \<and> ls_mode l = cs_mode spec)"
  define s2 where "s2 = revoke_where P s1"
  from f have c: "workspacePrincipal sha256 (cs_workspaceId spec) (cs_wallet spec) (cs_mode spec) = Inr (sc_principal cert)"
    "sc_mode cert = cs_mode spec" "sc_validAfter cert = cs_validAfter spec" "sc_validBefore cert = cs_validBefore spec"
    and s': "s' = s2\<lparr>gw_leases := map_set i (gw_next s) (gw_leases s2)\<rparr>"
    by (auto simp: issue_finish_def res_simps Let_def l_def s1_def s2_def P_def split: if_splits)
  have inv1: "gw_inv sha256 opts s1" unfolding s1_def by (rule alloc_inv[OF inv]) (simp_all add: l_def)
  have P: "\<And>l. P (l\<lparr>ls_active := {}\<rparr>) = P l" by (simp add: P_def)
  note spec2 = revoke_where_spec[OF gw_invD(1)[OF inv1], of P, OF P, folded s2_def]
  have sh: "shrinks s1 s2" and l2: "gw_leases s2 = filter (\<lambda>p. \<not> P (gw_objs s1 (snd p))) (gw_leases s1)" using spec2 by auto
  have inv2: "gw_inv sha256 opts s2" by (rule gw_inv_shrinks[OF inv1 sh])
  have core: "gw_objs s2 a = gw_objs s1 a \<or> gw_objs s2 a = (gw_objs s1 a)\<lparr>ls_active := {}\<rparr>" for a using sh by (simp add: shrinks_def)
  have new: "gw_objs s2 (gw_next s) = l" using core[of "gw_next s"] by (auto simp: s1_def l_def)
  have nP: "\<not> P (gw_objs s2 (snd p))" if "p \<in> set (gw_leases s2)" for p
    using that core[of "snd p"] P[of "gw_objs s1 (snd p)"] unfolding l2 by auto
  have fresh2: "i \<notin> fst ` set (gw_leases s2)" using fresh unfolding l2 by (auto simp: s1_def)
  have nx: "gw_next s2 = Suc (gw_next s)" using sh by (simp add: shrinks_def s1_def)
  have leases: "gw_leases s' = gw_leases s2 @ [(i, gw_next s)]" unfolding s' using map_set_fresh[OF fresh2] by simp
  have Pl: "P l" using c by (simp add: P_def l_def)
  have rest: "gw_objs s' = gw_objs s2" "gw_next s' = gw_next s2" "gw_connecting s' = gw_connecting s2" by (simp_all add: s')
  show ?thesis
  proof (rule gw_invI, unfold rest leases)
    show "keys_ok s'"
      using gw_invD(1)[OF inv2] fresh2 new by (auto simp: keys_ok_def leases rest nx l_def)
  next
    fix p q
    assume pq: "p \<in> set (gw_leases s2 @ [(i, gw_next s)])" "q \<in> set (gw_leases s2 @ [(i, gw_next s)])"
      and sc: "same_scope (gw_objs s2 (snd p)) (gw_objs s2 (snd q))"
    have "P (gw_objs s2 (snd p)) = P (gw_objs s2 (snd q))" using sc by (simp add: P_def same_scope_def)
    then show "p = q" using pq sc nP[of p] nP[of q] gw_inv_leases(2)[OF inv2, of p q] new Pl by auto
  next
    fix p assume "p \<in> set (gw_leases s2 @ [(i, gw_next s)])"
    moreover have "issued sha256 opts l"
      using b c unfolding issue_begin_Inr issued_def l_def by auto
    ultimately show "issued sha256 opts (gw_objs s2 (snd p))" using gw_inv_leases(1)[OF inv2, of p] new by auto
  qed (use gw_invD[OF inv2] in auto)
qed

lemma gw_step_inv:
  assumes "gw_step sha256 opts s s'" and inv: "gw_inv sha256 opts s"
  shows "gw_inv sha256 opts s'"
  using assms(1)
proof cases
  case (issue now request spec endpoint leaseId cert accessToken)
  then show ?thesis using issue_finish_inv[OF inv] by blast
next
  case (openTunnel now request r)
  then show ?thesis using openTunnel_begin_inv[OF inv] by blast
next
  case (connected a now stream r)
  then show ?thesis using tunnel_connected_inv[OF inv] by blast
next
  case (failed a r)
  then show ?thesis using connector_done_inv(1)[OF inv] by (auto simp: tunnel_failed_def)
next
  case (closed a stream)
  then show ?thesis using release_inv[OF inv] by simp
next
  case (revoke leaseId workspaceId wallet r)
  then have "shrinks s s'"
    using revokeTrusted_shrinks[OF gw_invD(1)[OF inv]] by (auto simp: revoke_def split: option.splits sum.splits)
  then show ?thesis by (rule gw_inv_shrinks[OF inv])
next
  case (revokeWorkspace workspaceId)
  then obtain w where "s' = revoke_where (\<lambda>l. ls_workspaceId l = w) s" by (auto simp: revokeWorkspace_def res_simps)
  then show ?thesis using gw_inv_shrinks[OF inv] revoke_where_spec[OF gw_invD(1)[OF inv], of "\<lambda>l. ls_workspaceId l = w"] by simp
next
  case (expired leaseId)
  then show ?thesis using gw_inv_shrinks[OF inv] revokeTrusted_shrinks[OF gw_invD(1)[OF inv]] by simp
next
  case (sweep now)
  then show ?thesis
    using gw_inv_shrinks[OF inv] revoke_where_spec[OF gw_invD(1)[OF inv], of "\<lambda>l. ls_validBefore l \<le> now"]
    by (simp add: sweepExpired_def)
next
  case stop
  then show ?thesis
    using gw_inv_shrinks[OF inv] revoke_where_spec[OF gw_invD(1)[OF inv], of "\<lambda>_. True"] by (simp add: stop_def)
qed

lemma gw_reachable_inv:
  assumes "0 \<le> lo_maxConnections opts" "gw_reachable sha256 opts s"
  shows "gw_inv sha256 opts s"
  using assms(2) unfolding gw_reachable_def
  by (induction rule: rtranclp_induct) (use gw_inv_new[OF assms(1)] gw_step_inv in blast)+

section \<open>What stays fixed of a lease\<close>

definition lease_core :: "lease \<Rightarrow> signed_certificate \<times> string \<times> string \<times> string \<times> endpoint \<times> octets" where
  "lease_core l = (ls_signed l, ls_leaseId l, ls_workspaceId l, ls_wallet l, ls_endpoint l, ls_tokenHash l)"

definition keeps_core :: "gateway \<Rightarrow> gateway \<Rightarrow> bool" where
  "keeps_core s s' \<longleftrightarrow> gw_next s \<le> gw_next s' \<and> (\<forall>a < gw_next s. lease_core (gw_objs s' a) = lease_core (gw_objs s a))"

lemma shrinks_core: "shrinks s s' \<Longrightarrow> keeps_core s s'"
proof -
  assume sh: "shrinks s s'"
  have "lease_core (gw_objs s' a) = lease_core (gw_objs s a)" for a
  proof -
    have "gw_objs s' a = gw_objs s a \<or> gw_objs s' a = (gw_objs s a)\<lparr>ls_active := {}\<rparr>" using sh by (simp add: shrinks_def)
    then show ?thesis by (auto simp: lease_core_def)
  qed
  then show ?thesis using sh by (simp add: keeps_core_def shrinks_def)
qed

lemma keeps_core_trans: "keeps_core s t \<Longrightarrow> keeps_core t u \<Longrightarrow> keeps_core s u"
  by (auto simp: keeps_core_def)

lemma gw_step_core:
  assumes "gw_step sha256 opts s s'" and inv: "gw_inv sha256 opts s"
  shows "keeps_core s s'"
  using assms(1)
proof cases
  case (issue now request spec endpoint leaseId cert accessToken)
  define l where "l = \<lparr>ls_signed = cert, ls_leaseId = leaseId, ls_workspaceId = cs_workspaceId spec, ls_wallet = cs_wallet spec,
    ls_endpoint = endpoint, ls_tokenHash = digestToken sha256 accessToken, ls_active = {}, ls_pending = 0\<rparr>"
  define s1 where "s1 = s\<lparr>gw_objs := (gw_objs s)(gw_next s := l), gw_next := Suc (gw_next s)\<rparr>"
  define P where "P = (\<lambda>l :: lease. ls_workspaceId l = cs_workspaceId spec \<and> ls_mode l = cs_mode spec)"
  have s': "s' = (revoke_where P s1)\<lparr>gw_leases := map_set leaseId (gw_next s) (gw_leases (revoke_where P s1))\<rparr>"
    using issue(3) by (auto simp: issue_finish_def res_simps Let_def l_def s1_def P_def split: if_splits)
  have "keys_ok s1" using gw_invD(1)[OF inv] by (auto simp: keys_ok_def s1_def)
  then have "keeps_core s1 (revoke_where P s1)" by (intro shrinks_core conjunct1[OF revoke_where_spec]) (simp_all add: P_def)
  moreover have "keeps_core s s1" by (simp add: keeps_core_def s1_def)
  ultimately show ?thesis by (auto simp: keeps_core_def s')
next
  case (openTunnel now request r)
  obtain r1 s1 where a: "authorize sha256 now request s = (r1, s1)" by fastforce
  have "keeps_core s s1" using shrinks_core[OF authorize_shrinks[OF gw_invD(1)[OF inv], of sha256 now request]] a by simp
  then show ?thesis using openTunnel a by (auto simp: openTunnel_begin_def Let_def keeps_core_def lease_core_def split: sum.splits if_splits)
next
  case (revoke leaseId workspaceId wallet r)
  then have "shrinks s s'"
    using revokeTrusted_shrinks[OF gw_invD(1)[OF inv]] by (auto simp: revoke_def split: option.splits sum.splits)
  then show ?thesis by (rule shrinks_core)
next
  case (revokeWorkspace workspaceId)
  then obtain w where "s' = revoke_where (\<lambda>l. ls_workspaceId l = w) s" by (auto simp: revokeWorkspace_def res_simps)
  then show ?thesis using shrinks_core revoke_where_spec[OF gw_invD(1)[OF inv], of "\<lambda>l. ls_workspaceId l = w"] by simp
next
  case (sweep now)
  then show ?thesis
    using shrinks_core revoke_where_spec[OF gw_invD(1)[OF inv], of "\<lambda>l. ls_validBefore l \<le> now"] by (simp add: sweepExpired_def)
next
  case stop
  then show ?thesis using shrinks_core revoke_where_spec[OF gw_invD(1)[OF inv], of "\<lambda>_. True"] by (simp add: stop_def)
next
  case (expired leaseId)
  then show ?thesis using shrinks_core[OF revokeTrusted_shrinks[OF gw_invD(1)[OF inv]]] by simp
qed (auto simp: tunnel_connected_def tunnel_failed_def connector_done_def release_stream_def Let_def keeps_core_def lease_core_def
    split: if_splits)

lemma gw_steps_core:
  assumes "(gw_step sha256 opts)\<^sup>*\<^sup>* s s'" and inv: "gw_inv sha256 opts s"
  shows "keeps_core s s' \<and> gw_inv sha256 opts s'"
  using assms(1)
proof (induction rule: rtranclp_induct)
  case base
  show ?case using inv by (simp add: keeps_core_def)
next
  case (step t u)
  then show ?case using gw_step_core gw_step_inv keeps_core_trans by blast
qed

lemma openTunnel_Inr:
  "openTunnel_begin sha256 opts now request s = (Inr a, s') \<longleftrightarrow>
     authorize sha256 now request s = (Inr a, s)
     \<and> int (card (ls_active (gw_objs s a))) + ls_pending (gw_objs s a) < lo_maxConnections opts
     \<and> s' = s\<lparr>gw_objs := (gw_objs s)(a := (gw_objs s a)\<lparr>ls_pending := ls_pending (gw_objs s a) + 1\<rparr>),
              gw_connecting := a # gw_connecting s\<rparr>"
proof -
  obtain r1 s1 where a: "authorize sha256 now request s = (r1, s1)" by fastforce
  show ?thesis
  proof (cases r1)
    case (Inl e)
    then show ?thesis using a by (simp add: openTunnel_begin_def)
  next
    case (Inr b)
    then have "s1 = s" using a authorize_Inr by blast
    then show ?thesis using a Inr by (auto simp: openTunnel_begin_def Let_def not_le)
  qed
qed

section \<open>A sample gateway\<close>

definition sample_ws :: string where "sample_ws = ''0a0b0c0d-1234-4abc-8def-0123456789ab''"
definition sample_wallet :: string where "sample_wallet = ''0x00000000000000000000000000000000000000Ab''"
definition sample_token :: string where "sample_token = replicate 43 CHR ''t''"

definition sample_sha :: "octets \<Rightarrow> octets" where
  "sample_sha bs = replicate 31 0 @ [of_nat (length bs)]"

definition sample_opts :: lease_options where
  "sample_opts = \<lparr>lo_caKeyPath = ''/etc/bloom/ca'', lo_socketRoot = ''/run/bloom'', lo_maxLeaseMs = 900000, lo_maxConnections = 2\<rparr>"

definition sample_request :: lease_request where
  "sample_request = \<lparr>lr_workspaceId = sample_ws, lr_wallet = sample_wallet, lr_publicKey = sample_key, lr_mode = ''shell'',
     lr_workspaceLeaseExpiresAt = 2000000, lr_requestedTtlMs = None, lr_endpoint = UnixEndpoint ''/run/bloom/./w1/ssh.sock''\<rparr>"

definition sample_spec :: certificate_spec where
  "sample_spec = \<lparr>cs_caKeyPath = ''/etc/bloom/ca'', cs_publicKey = sample_key, cs_workspaceId = sample_ws,
     cs_wallet = to_lower sample_wallet, cs_mode = ''shell'', cs_validAfter = 995000, cs_validBefore = 1900000\<rparr>"

definition sample_principal :: string where
  "sample_principal = ''bloom-shell-'' @ sample_ws @ ''-w-'' @ replicate 32 CHR ''0''"

definition sample_cert :: signed_certificate where
  "sample_cert = \<lparr>sc_certificate = ''ssh-ed25519-cert-v01@openssh.com AAAA'', sc_fingerprint = [], sc_principal = sample_principal,
     sc_serial = ''7'', sc_validAfter = 995000, sc_validBefore = 1900000, sc_mode = ''shell''\<rparr>"

definition sample_lease :: lease where
  "sample_lease = \<lparr>ls_signed = sample_cert, ls_leaseId = ''l1'', ls_workspaceId = sample_ws, ls_wallet = to_lower sample_wallet,
     ls_endpoint = UnixEndpoint ''/run/bloom/w1/ssh.sock'', ls_tokenHash = digestToken sample_sha sample_token,
     ls_active = {}, ls_pending = 0\<rparr>"

definition sample_gateway :: gateway where
  "sample_gateway = new_gateway\<lparr>gw_objs := (gw_objs new_gateway)(0 := sample_lease), gw_next := 1, gw_leases := [(''l1'', 0)]\<rparr>"

definition sample_tunnel :: tunnel_request where
  "sample_tunnel = \<lparr>tr_leaseId = ''l1'', tr_workspaceId = sample_ws, tr_wallet = sample_wallet, tr_mode = ''shell'',
     tr_accessToken = sample_token\<rparr>"

lemma sample_opts_new: "new_SshLeaseManager ''/'' ''/etc/bloom/ca'' ''/run//bloom/'' None None = Some sample_opts"
  by code_simp

lemma sample_begin: "issue_begin sample_opts 1000000 sample_request = Inr (sample_spec, UnixEndpoint ''/run/bloom/w1/ssh.sock'')"
  by code_simp

lemma sample_principal_of: "workspacePrincipal sample_sha sample_ws (to_lower sample_wallet) ''shell'' = Inr sample_principal"
  by code_simp

lemma sample_finish:
  "issue_finish sample_sha sample_spec (UnixEndpoint ''/run/bloom/w1/ssh.sock'') sample_cert ''l1'' sample_token new_gateway
    = Inr sample_gateway"
proof -
  have "workspacePrincipal sample_sha (cs_workspaceId sample_spec) (cs_wallet sample_spec) (cs_mode sample_spec) = Inr sample_principal"
    by (simp add: sample_spec_def sample_principal_of)
  then show ?thesis
    by (simp add: issue_finish_def Let_def sample_cert_def sample_spec_def revoke_where_def new_gateway_def
      sample_gateway_def sample_lease_def)
qed

lemma sample_lease_reachable: "gw_reachable sample_sha sample_opts sample_gateway"
  unfolding gw_reachable_def
  by (rule r_into_rtranclp, rule gw_step.issue[OF sample_begin _ sample_finish]) (simp add: new_gateway_def)

lemma sample_max: "0 \<le> lo_maxConnections sample_opts"
  by (simp add: sample_opts_def)

section \<open>Properties\<close>

text \<open>C9. In every state the gateway can reach there is one lease for each workspace and mode at most; a lease
  has no more streams, open or being opened, than the connection limit; every open stream belongs to a
  lease that is still registered; and every registered lease names the principal of its own workspace, wallet
  and mode, for no longer than the configured maximum and the five seconds of backdating.\<close>

theorem ssh_lease_invariant:
  assumes "gw_reachable sha256 opts s" "0 \<le> lo_maxConnections opts"
  shows "(\<forall>p \<in> set (gw_leases s). \<forall>q \<in> set (gw_leases s).
        ls_workspaceId (gw_objs s (snd p)) = ls_workspaceId (gw_objs s (snd q))
        \<and> ls_mode (gw_objs s (snd p)) = ls_mode (gw_objs s (snd q)) \<longrightarrow> p = q)
    \<and> (\<forall>a. int (card (ls_active (gw_objs s a))) + int (count_list (gw_connecting s) a) \<le> lo_maxConnections opts)
    \<and> (\<forall>a. ls_active (gw_objs s a) \<noteq> {} \<longrightarrow> (\<exists>i. (i, a) \<in> set (gw_leases s)))
    \<and> (\<forall>p \<in> set (gw_leases s). let l = gw_objs s (snd p) in
        workspacePrincipal sha256 (ls_workspaceId l) (ls_wallet l) (ls_mode l) = Inr (sc_principal (ls_signed l))
        \<and> ls_validBefore l - sc_validAfter (ls_signed l) \<le> lo_maxLeaseMs opts + 5000)"
proof -
  note inv = gw_reachable_inv[OF assms(2,1)]
  have "\<forall>a. int (card (ls_active (gw_objs s a))) + int (count_list (gw_connecting s) a) \<le> lo_maxConnections opts"
    using gw_invD(3,4)[OF inv] by metis
  moreover have "\<forall>a. ls_active (gw_objs s a) \<noteq> {} \<longrightarrow> (\<exists>i. (i, a) \<in> set (gw_leases s))"
    using gw_invD(5)[OF inv] by fastforce
  ultimately show ?thesis
    using gw_inv_leases[OF inv] by (simp add: same_scope_def issued_def Let_def)
qed

theorem ssh_lease_invariant_witness: "\<exists>l. workspacePrincipal sample_sha sample_ws (to_lower sample_wallet) ''shell'' = Inr l"
  using ssh_lease_invariant[OF sample_lease_reachable sample_max]
  by (simp add: sample_gateway_def sample_lease_def sample_cert_def Let_def)

text \<open>C8. A tunnel is handed out only to the bearer of the lease. Whatever other requests, revocations and timers run
  while the connector works, a stream returned for a request belongs to the lease that the request named:
  its workspace, wallet and mode are those of the request, the token hashes to the stored digest, and at the
  moment the stream is handed over the lease is registered and has not expired, and it tracks the stream.\<close>

theorem ssh_tunnel_authorized:
  assumes "gw_reachable sha256 opts s" "0 \<le> lo_maxConnections opts"
    and "openTunnel_begin sha256 opts now request s = (Inr a, s1)"
    and "(gw_step sha256 opts)\<^sup>*\<^sup>* s1 s2"
    and "tunnel_connected now' a stream s2 = (Inr x, s3)"
  shows "x = stream \<and> stream \<in> ls_active (gw_objs s3 a) \<and> now' < ls_validBefore (gw_objs s3 a)
    \<and> map_of (gw_leases s3) (tr_leaseId request) = Some a
    \<and> ls_workspaceId (gw_objs s3 a) = to_lower (tr_workspaceId request)
    \<and> ls_wallet (gw_objs s3 a) = to_lower (tr_wallet request) \<and> ls_mode (gw_objs s3 a) = tr_mode request
    \<and> ls_tokenHash (gw_objs s3 a) = digestToken sha256 (tr_accessToken request)"
proof -
  note inv = gw_reachable_inv[OF assms(2,1)]
  have a: "map_of (gw_leases s) (tr_leaseId request) = Some a"
    "ls_workspaceId (gw_objs s a) = to_lower (tr_workspaceId request)" "ls_wallet (gw_objs s a) = to_lower (tr_wallet request)"
    "ls_mode (gw_objs s a) = tr_mode request" "digestToken sha256 (tr_accessToken request) = ls_tokenHash (gw_objs s a)"
    and core1: "lease_core (gw_objs s1 a) = lease_core (gw_objs s a)" and n1: "gw_next s1 = gw_next s"
    using assms(3) unfolding openTunnel_Inr authorize_Inr by (auto simp: lease_core_def)
  have "a < gw_next s" "ls_leaseId (gw_objs s a) = tr_leaseId request"
    using gw_invD(1)[OF inv] map_of_SomeD[OF a(1)] by (auto simp: keys_ok_def)
  moreover have "keeps_core s1 s2" using gw_steps_core[OF assms(4) openTunnel_begin_inv[OF inv assms(3)]] by blast
  ultimately have core: "lease_core (gw_objs s2 a) = lease_core (gw_objs s a)" "ls_leaseId (gw_objs s2 a) = tr_leaseId request"
    using core1 by (auto simp: keeps_core_def n1 lease_core_def)
  show ?thesis
    using assms(5) a core by (auto simp: tunnel_connected_def connector_done_def Let_def lease_core_def split: if_splits)
qed

lemma sample_authorized: "authorize sample_sha 1000000 sample_tunnel sample_gateway = (Inr 0, sample_gateway)"
proof -
  have "is_uuid4 sample_ws" "full wallet_rx sample_wallet" "to_lower sample_ws = sample_ws" by code_simp+
  then show ?thesis
    unfolding authorize_Inr
    by (simp add: sample_gateway_def sample_tunnel_def sample_lease_def sample_cert_def)
qed

definition sample_opening :: gateway where
  "sample_opening = sample_gateway\<lparr>gw_objs := (gw_objs sample_gateway)(0 := sample_lease\<lparr>ls_pending := 1\<rparr>), gw_connecting := [0]\<rparr>"

lemma sample_open: "openTunnel_begin sample_sha sample_opts 1000000 sample_tunnel sample_gateway = (Inr 0, sample_opening)"
  unfolding openTunnel_Inr
  by (intro conjI sample_authorized) (simp_all add: sample_gateway_def sample_opening_def sample_lease_def sample_opts_def new_gateway_def)

lemma sample_connected: "fst (tunnel_connected 1500000 0 9 sample_opening) = Inr 9"
  by (simp add: tunnel_connected_def connector_done_def sample_opening_def sample_gateway_def sample_lease_def sample_cert_def Let_def)

theorem ssh_tunnel_authorized_witness:
  "9 \<in> ls_active (gw_objs (snd (tunnel_connected 1500000 0 9 sample_opening)) 0)"
  using ssh_tunnel_authorized[OF sample_lease_reachable sample_max sample_open rtranclp.rtrancl_refl, of 1500000 9 9]
    sample_connected by (metis prod.collapse)

text \<open>Revoking a workspace is immediate and exact: its leases, and no others, are gone; every stream they had
  open is destroyed, the streams and counters of other leases are untouched; and a connection that was still
  being made under a revoked lease is destroyed when its connector answers, at whatever time.\<close>

theorem ssh_workspace_revoked:
  assumes "gw_reachable sha256 opts s" "0 \<le> lo_maxConnections opts" "revokeWorkspace w s = Inr s'"
  shows "gw_leases s' = filter (\<lambda>p. ls_workspaceId (gw_objs s (snd p)) \<noteq> to_lower w) (gw_leases s)
    \<and> (\<forall>p \<in> set (gw_leases s'). gw_objs s' (snd p) = gw_objs s (snd p))
    \<and> (\<forall>p \<in> set (gw_leases s). ls_workspaceId (gw_objs s (snd p)) = to_lower w \<longrightarrow>
         ls_active (gw_objs s (snd p)) \<subseteq> gw_destroyed s' \<and> ls_active (gw_objs s' (snd p)) = {}
         \<and> (\<forall>now stream. fst (tunnel_connected now (snd p) stream s') = Inl LeaseExpired
              \<and> stream \<in> gw_destroyed (snd (tunnel_connected now (snd p) stream s'))))"
proof -
  note inv = gw_reachable_inv[OF assms(2,1)] and k = gw_invD(1)[OF gw_reachable_inv[OF assms(2,1)]]
  define P where "P = (\<lambda>l :: lease. ls_workspaceId l = to_lower w)"
  have s': "s' = revoke_where P s" using assms(3) by (auto simp: revokeWorkspace_def res_simps norm_Inr P_def)
  have sp: "shrinks s s'" "gw_leases s' = filter (\<lambda>p. \<not> P (gw_objs s (snd p))) (gw_leases s)"
    using revoke_where_spec[OF k, of P] by (simp_all add: s' P_def)
  have gone: "fst (tunnel_connected now (snd p) stream s') = Inl LeaseExpired
      \<and> stream \<in> gw_destroyed (snd (tunnel_connected now (snd p) stream s'))"
    if p: "p \<in> set (gw_leases s)" "ls_workspaceId (gw_objs s (snd p)) = to_lower w" for p now stream
  proof -
    have "lease_core (gw_objs s' (snd p)) = lease_core (gw_objs s (snd p))"
      using shrinks_core[OF sp(1)] p k by (auto simp: keeps_core_def keys_ok_def)
    then have id: "ls_leaseId (gw_objs s' (snd p)) = fst p" using p k by (auto simp: lease_core_def keys_ok_def)
    have "map_of (gw_leases s') (fst p) \<noteq> Some (snd p)"
      using p sp(2) by (auto simp: P_def dest: map_of_SomeD)
    then show ?thesis using id by (simp add: tunnel_connected_def connector_done_def Let_def)
  qed
  have act: "ls_active (gw_objs s (snd p)) \<subseteq> gw_destroyed s' \<and> ls_active (gw_objs s' (snd p)) = {}"
    if p: "p \<in> set (gw_leases s)" "ls_workspaceId (gw_objs s (snd p)) = to_lower w" for p
  proof -
    have "p \<notin> set (gw_leases s')" using p sp(2) by (simp add: P_def)
    then have "ls_active (gw_objs s' (snd p)) = {}" using sp(1) p by (auto simp: shrinks_def)
    moreover have "ls_active (gw_objs s (snd p)) \<subseteq> ls_active (gw_objs s' (snd p)) \<union> gw_destroyed s'" using sp(1) by (simp add: shrinks_def)
    ultimately show ?thesis by simp
  qed
  have kept: "\<forall>p \<in> set (gw_leases s'). gw_objs s' (snd p) = gw_objs s (snd p)" using sp(1) by (simp add: shrinks_def)
  show ?thesis using sp(2) kept act gone by (simp add: P_def)
qed

theorem ssh_workspace_revoked_witness: "gw_leases (revoke_where (\<lambda>l. ls_workspaceId l = sample_ws) sample_gateway) = []"
proof -
  have u: "is_uuid4 sample_ws" "to_lower sample_ws = sample_ws" by code_simp+
  then have "revokeWorkspace sample_ws sample_gateway = Inr (revoke_where (\<lambda>l. ls_workspaceId l = sample_ws) sample_gateway)"
    by (simp add: revokeWorkspace_def normalizeWorkspaceId_def)
  from ssh_workspace_revoked[OF sample_lease_reachable sample_max this] show ?thesis
    using u by (simp add: sample_gateway_def sample_lease_def)
qed

text \<open>A grant is bounded and consistent with the signer: what \<open>issue\<close> asks for ends after now, no later than the
  lease of the workspace and within two hours; the signer's own validity check never rejects it; and
  whatever the default signer returns for it passes the scope check of \<open>issue\<close>. A Unix endpoint lies
  below the socket root, a TCP endpoint on a loopback address.\<close>

theorem ssh_issue_bounded:
  assumes "new_SshLeaseManager cwd ca root maxLease maxConns = Some opts"
    and "issue_begin opts now request = Inr (spec, ep)" "is_safe_integer (now - 5000)"
  shows "now < cs_validBefore spec \<and> cs_validBefore spec \<le> lr_workspaceLeaseExpiresAt request
    \<and> cs_validBefore spec \<le> now + MAX_SSH_LEASE_MS
    \<and> assertValidity (cs_validAfter spec) (cs_validBefore spec) = Inr ()
    \<and> (\<forall>lstat uid keygen random dir cert leaseId token s.
         signWorkspaceCertificate sha256 lstat uid keygen random dir spec = Inr cert \<longrightarrow>
         (\<exists>s'. issue_finish sha256 spec ep cert leaseId token s = Inr s'))
    \<and> (case ep of TcpEndpoint host port \<Rightarrow> host \<in> {''127.0.0.1'', ''::1''}
        | UnixEndpoint p \<Rightarrow> lo_socketRoot opts \<noteq> ''/'' \<longrightarrow> below (lo_socketRoot opts) p)"
proof -
  have opts: "5000 \<le> lo_maxLeaseMs opts" "lo_maxLeaseMs opts \<le> MAX_SSH_LEASE_MS" "\<exists>r. lo_socketRoot opts = resolve_abs r"
    using assms(1) by (auto simp: new_SshLeaseManager_def Let_def resolve_def split: if_splits)
  note b = assms(2)[unfolded issue_begin_Inr]
  have times: "now < cs_validBefore spec" "cs_validBefore spec \<le> lr_workspaceLeaseExpiresAt request"
    "cs_validBefore spec \<le> now + lo_maxLeaseMs opts" "cs_validAfter spec = now - 5000"
    using b by auto
  have "assertValidity (cs_validAfter spec) (cs_validBefore spec) = Inr ()"
    using times opts b assms(3) by (auto simp: assertValidity_def is_safe_integer_def)
  moreover have "\<exists>s'. issue_finish sha256 spec ep cert i token s = Inr s'"
    if sg: "signWorkspaceCertificate sha256 lstat uid keygen random dir spec = Inr cert" for lstat uid keygen random dir cert i token s
  proof -
    have "normalizeWorkspaceId (cs_workspaceId spec) = Inr (cs_workspaceId spec)" "normalizeWallet (cs_wallet spec) = Inr (cs_wallet spec)"
      "normalizeAccessMode (cs_mode spec) = Inr (cs_mode spec)" using b normal_again by blast+
    then have "workspacePrincipal sha256 (cs_workspaceId spec) (cs_wallet spec) (cs_mode spec) = Inr (sc_principal cert)
        \<and> sc_mode cert = cs_mode spec \<and> sc_validAfter cert = cs_validAfter spec \<and> sc_validBefore cert = cs_validBefore spec"
      using sg by (auto simp: signWorkspaceCertificate_def res_simps Let_def split: option.splits if_splits)
    then show ?thesis by (simp add: issue_finish_def Let_def)
  qed
  moreover have "case ep of TcpEndpoint host port \<Rightarrow> host \<in> {''127.0.0.1'', ''::1''}
      | UnixEndpoint p \<Rightarrow> lo_socketRoot opts \<noteq> ''/'' \<longrightarrow> below (lo_socketRoot opts) p"
  proof (cases ep)
    case (TcpEndpoint host port)
    then show ?thesis using b by (auto simp: validateEndpoint_Inr)
  next
    case (UnixEndpoint p)
    then obtain q where q: "p = resolve_abs q" "starts_with (resolve_abs q) (lo_socketRoot opts @ ''/'')"
      using b by (auto simp: validateEndpoint_Inr)
    then obtain rest where "resolve_abs q = lo_socketRoot opts @ ''/'' @ rest" by (auto simp: starts_with_iff)
    then show ?thesis using opts(3) resolve_below[of q "lo_socketRoot opts" rest] UnixEndpoint q(1) by auto
  qed
  ultimately show ?thesis using times opts by simp
qed

theorem ssh_issue_bounded_witness: "below ''/run/bloom'' ''/run/bloom/w1/ssh.sock''"
  using ssh_issue_bounded[OF sample_opts_new sample_begin, of id]
  by (simp add: is_safe_integer_def max_safe_integer_def sample_opts_def)

end
