(* ===== verification/SshPlans.thy ===== *)
theory SshPlans
  imports SshContracts
begin

text \<open>
  The command lines that join the two ends of an SSH lease: \<open>src/ssh/guest-sshd.ts\<close> (the daemon
  of a guest), \<open>src/ssh/client-plan.ts\<close> (the user's \<open>ssh\<close>), \<open>src/nfs/client-plan.ts\<close>,
  \<open>src/nfs/export-plan.ts\<close> and \<open>src/nfs/capability.ts\<close> (the NFS mount that runs over such a
  lease), and \<open>src/nfs/kernel-gate.ts\<close>, which decides whether a guest kernel may offer it. The URL
  parser, SHA-256 and the contents of files are parameters.
\<close>

section \<open>The guest's daemon\<close>

abbreviation newline :: char where "newline \<equiv> CHR 0x0A"

record plan_file =
  pf_path :: string
  pf_mode :: nat
  pf_content :: string

record sshd_plan =
  sp_principal :: string
  sp_principals :: "string list"
  sp_directory :: "string \<times> nat"
  sp_files :: "plan_file list"
  sp_hostKeygen :: "string \<times> string list"
  sp_hostPublicKeyPath :: string
  sp_argv :: "string list"
  sp_hostPort :: nat

definition sshd_common :: "string list" where
  "sshd_common =
     [''/usr/sbin/sshd'', ''-D'', ''-e'', ''-f'', ''/etc/ssh/sshd_config'',
      ''-o'', ''HostKey=/run/bloom/ssh/ssh_host_ed25519_key'',
      ''-o'', ''TrustedUserCAKeys=/run/bloom/ssh/user_ca.pub'',
      ''-o'', ''AuthorizedPrincipalsFile=/run/bloom/ssh/authorized_principals'',
      ''-o'', ''AuthorizedKeysFile=none'',
      ''-o'', ''AuthenticationMethods=publickey'',
      ''-o'', ''PubkeyAuthentication=yes'',
      ''-o'', ''PasswordAuthentication=no'',
      ''-o'', ''KbdInteractiveAuthentication=no'',
      ''-o'', ''PermitEmptyPasswords=no'',
      ''-o'', ''PermitRootLogin=no'',
      ''-o'', ''AllowUsers=workspace'',
      ''-o'', ''AllowAgentForwarding=no'',
      ''-o'', ''AllowStreamLocalForwarding=no'',
      ''-o'', ''X11Forwarding=no'',
      ''-o'', ''PermitTunnel=no'',
      ''-o'', ''PermitUserEnvironment=no'',
      ''-o'', ''PermitUserRC=no'',
      ''-o'', ''GatewayPorts=no'',
      ''-o'', ''LoginGraceTime=20'',
      ''-o'', ''MaxAuthTries=3'',
      ''-o'', ''ClientAliveInterval=30'',
      ''-o'', ''ClientAliveCountMax=2'']"

definition sshd_mode_options :: "string list \<Rightarrow> string list" where
  "sshd_mode_options modes =
     (if length modes = 2 then
        [''-o'', ''AllowTcpForwarding=local'', ''-o'', ''PermitOpen=127.0.0.1:2049'', ''-o'', ''PermitListen=none'',
         ''-o'', ''PermitTTY=yes'', ''-o'', ''MaxSessions=1'']
      else if modes ! 0 = ''shell'' then
        [''-o'', ''DisableForwarding=yes'', ''-o'', ''PermitTTY=yes'', ''-o'', ''MaxSessions=1'',
         ''-o'', ''ForceCommand=/usr/local/libexec/bloom-workspace-shell'']
      else
        [''-o'', ''AllowTcpForwarding=local'', ''-o'', ''PermitOpen=127.0.0.1:2049'', ''-o'', ''PermitListen=none'',
         ''-o'', ''PermitTTY=no'', ''-o'', ''MaxSessions=0''])"

text \<open>Modes 0o700, 0o600 and 0o644 are 448, 384 and 420.\<close>

definition guestSshdPlan ::
  "(octets \<Rightarrow> octets) \<Rightarrow> string \<Rightarrow> string \<Rightarrow> string \<Rightarrow> string list \<Rightarrow> (ssh_error, sshd_plan) res" where
  "guestSshdPlan sha256 workspaceId wallet caPublicKey inputModes =
     rbind (rmap normalizeAccessMode inputModes) (\<lambda>modes.
       if length modes < 1 \<or> 2 < length modes \<or> length (remdups modes) \<noteq> length modes then Inl InvalidModes
       else rbind (rmap (workspacePrincipal sha256 workspaceId wallet) modes) (\<lambda>principals.
         rbind (parse_key sha256 caPublicKey) (\<lambda>ca.
           Inr \<lparr>sp_principal = principals ! 0, sp_principals = principals,
                sp_directory = (''/run/bloom/ssh'', 448),
                sp_files =
                  [\<lparr>pf_path = ''/run/bloom/ssh/authorized_principals'', pf_mode = 384,
                     pf_content = join_with newline principals @ [newline]\<rparr>,
                   \<lparr>pf_path = ''/run/bloom/ssh/user_ca.pub'', pf_mode = 420,
                     pf_content = sk_normalized ca @ [newline]\<rparr>],
                sp_hostKeygen = (''/usr/bin/ssh-keygen'',
                  [''-q'', ''-t'', ''ed25519'', ''-N'', '''', ''-f'', ''/run/bloom/ssh/ssh_host_ed25519_key'']),
                sp_hostPublicKeyPath = ''/run/bloom/ssh/ssh_host_ed25519_key.pub'',
                sp_argv = sshd_common @ sshd_mode_options modes,
                sp_hostPort = 22\<rparr>)))"


section \<open>The user's ssh\<close>

record js_url =
  ju_protocol :: string
  ju_username :: string
  ju_password :: string
  ju_pathname :: string
  ju_search :: string
  ju_hash :: string
  ju_origin :: string

record client_input =
  ci_gatewayOrigin :: string
  ci_workspaceId :: string
  ci_leaseId :: string
  ci_mode :: string
  ci_proxyHelperPath :: string
  ci_tokenFilePath :: string
  ci_privateKeyPath :: string
  ci_certificatePath :: string
  ci_knownHostsPath :: string

definition is_path_char :: "char \<Rightarrow> bool" where
  "is_path_char c \<longleftrightarrow> is_alpha c \<or> is_digit c \<or> c \<in> set ''._/-''"

text \<open>\<open>/^\/[A-Za-z0-9._\/-]+$/\<close> and \<open>/^[A-Za-z]:\/[A-Za-z0-9._\/-]+$/\<close>\<close>

definition SAFE_POSIX_PROXY_PATH :: rx where
  "SAFE_POSIX_PROXY_PATH = RSeq (chr slash) (plus (RCls is_path_char))"

definition SAFE_WINDOWS_PROXY_PATH :: rx where
  "SAFE_WINDOWS_PROXY_PATH = seqs [RCls is_alpha, chr CHR '':'', chr slash, plus (RCls is_path_char)]"

definition safeProxyPath :: "string \<Rightarrow> (ssh_error, string) res" where
  "safeProxyPath v =
     (if (\<not> full SAFE_POSIX_PROXY_PATH v \<and> \<not> full SAFE_WINDOWS_PROXY_PATH v) \<or> includes_sub v ''..''
      then Inl UnsafeProxyPath else Inr v)"

definition localPath :: "string \<Rightarrow> (ssh_error, string) res" where
  "localPath v =
     (if v = [] \<or> 4096 < length v \<or> CHR 0x00 \<in> set v \<or> CHR 0x0A \<in> set v \<or> CHR 0x0D \<in> set v
      then Inl InvalidLocalPath else Inr v)"

text \<open>\<open>/^https:\/\/[a-z0-9.-]+(?::[0-9]{1,5})?$/\<close>\<close>

definition is_host_char :: "char \<Rightarrow> bool" where
  "is_host_char c \<longleftrightarrow> is_lower c \<or> is_digit c \<or> c = CHR ''.'' \<or> c = CHR ''-''"

definition origin_rx :: rx where
  "origin_rx = seqs [lit ''https://'', plus (RCls is_host_char), opt (RSeq (chr CHR '':'') (RRep (RCls is_digit) 1 5))]"

definition normalizeHttpsOrigin :: "(string \<Rightarrow> js_url option) \<Rightarrow> string \<Rightarrow> (ssh_error, string) res" where
  "normalizeHttpsOrigin new_URL value =
     (case new_URL value of
        None \<Rightarrow> Inl InvalidOrigin
      | Some url \<Rightarrow>
          if ju_protocol url \<noteq> ''https:'' \<or> ju_username url \<noteq> [] \<or> ju_password url \<noteq> [] \<or> ju_pathname url \<noteq> ''/''
             \<or> ju_search url \<noteq> [] \<or> ju_hash url \<noteq> [] then Inl InvalidOrigin
          else let origin = to_lower (ju_origin url)
               in if \<not> full origin_rx origin then Inl InvalidOrigin else Inr origin)"

definition proxy_command :: "string \<Rightarrow> string \<Rightarrow> string \<Rightarrow> string \<Rightarrow> string \<Rightarrow> string \<Rightarrow> string" where
  "proxy_command helper origin workspaceId leaseId mode tokenFile =
     helper @ '' --origin '' @ origin @ '' --workspace '' @ workspaceId @ '' --lease '' @ leaseId
       @ '' --mode '' @ mode @ '' --token-file '' @ tokenFile"

definition createSshClientArgv :: "(string \<Rightarrow> js_url option) \<Rightarrow> client_input \<Rightarrow> (ssh_error, string list) res" where
  "createSshClientArgv new_URL input =
     rbind (normalizeWorkspaceId (ci_workspaceId input)) (\<lambda>workspaceId.
     rbind (normalizeAccessMode (ci_mode input)) (\<lambda>mode.
       if \<not> is_uuid4 (ci_leaseId input) then Inl InvalidLeaseId
       else rbind (normalizeHttpsOrigin new_URL (ci_gatewayOrigin input)) (\<lambda>origin.
       rbind (safeProxyPath (ci_proxyHelperPath input)) (\<lambda>helper.
       rbind (safeProxyPath (ci_tokenFilePath input)) (\<lambda>tokenFile.
       rbind (localPath (ci_privateKeyPath input)) (\<lambda>key.
       rbind (localPath (ci_certificatePath input)) (\<lambda>certificate.
       rbind (localPath (ci_knownHostsPath input)) (\<lambda>knownHosts.
         Inr [''ssh'',
              ''-o'', ''ProxyCommand='' @ proxy_command helper origin workspaceId (to_lower (ci_leaseId input)) mode tokenFile,
              ''-o'', ''BatchMode=yes'', ''-o'', ''IdentitiesOnly=yes'', ''-o'', ''StrictHostKeyChecking=yes'',
              ''-o'', ''UserKnownHostsFile='' @ knownHosts,
              ''-o'', ''CertificateFile='' @ certificate,
              ''-o'', ''HostKeyAlias=bloom-'' @ workspaceId,
              ''-o'', ''ServerAliveInterval=20'', ''-o'', ''ServerAliveCountMax=2'',
              ''-i'', key, ''workspace@bloom-'' @ workspaceId]))))))))"

text \<open>The alias, the line and the fingerprint.\<close>

definition workspaceKnownHostsLine ::
  "(octets \<Rightarrow> octets) \<Rightarrow> string \<Rightarrow> string \<Rightarrow> (ssh_error, string \<times> string \<times> string) res" where
  "workspaceKnownHostsLine sha256 workspaceId hostPublicKey =
     rbind (normalizeWorkspaceId workspaceId) (\<lambda>wid.
       rbind (parse_key sha256 hostPublicKey) (\<lambda>key.
         Inr (''bloom-'' @ wid, ''bloom-'' @ wid @ '' '' @ sk_normalized key @ [newline], sk_fingerprint key)))"


section \<open>NFS over the tunnel\<close>

datatype platform = Linux | Macos | Windows | Android | Ios | UnknownPlatform
datatype nfs_status = Supported | Conditional | Fallback
datatype vm_runtime = ProcessRt | QemuRt | FirecrackerRt

text \<open>The status and whether administrator rights are needed; every reason text is left out.\<close>

fun nfsPlatformCapability :: "platform \<Rightarrow> nfs_status \<times> bool" where
  "nfsPlatformCapability Linux = (Supported, True)"
| "nfsPlatformCapability Macos = (Supported, True)"
| "nfsPlatformCapability Windows = (Conditional, True)"
| "nfsPlatformCapability Android = (Fallback, False)"
| "nfsPlatformCapability Ios = (Fallback, False)"
| "nfsPlatformCapability UnknownPlatform = (Fallback, False)"

text \<open>The decision and the transport, \<open>nfs4-over-ssh\<close> or none.\<close>

definition nativeNfsDecision :: "vm_runtime \<Rightarrow> bool \<Rightarrow> bool \<Rightarrow> bool \<Rightarrow> platform \<Rightarrow> (nfs_status \<times> bool) \<times> string option" where
  "nativeNfsDecision runtime persistentWorkspace sshGateway nfsdBuiltIn platform =
     (let base = nfsPlatformCapability platform
      in if fst base = Fallback then (base, None)
         else if runtime \<noteq> QemuRt then ((Fallback, False), None)
         else if \<not> persistentWorkspace then ((Fallback, False), None)
         else if \<not> sshGateway then ((Fallback, False), None)
         else if \<not> nfsdBuiltIn then ((Fallback, False), None)
         else (base, Some ''nfs4-over-ssh''))"

record nfs_client_plan =
  np_capability :: "nfs_status \<times> bool"
  np_sshTunnelArgv :: "string list option"
  np_mountArgv :: "string list option"
  np_unmountArgv :: "string list option"

definition port_text :: "int \<Rightarrow> string" where
  "port_text p = nat_to_dec (nat p)"

definition nfs_tunnel_argv :: "string list \<Rightarrow> int \<Rightarrow> string list" where
  "nfs_tunnel_argv argv localPort =
     take 1 argv
       @ [''-N'', ''-T'', ''-o'', ''ExitOnForwardFailure=yes'', ''-o'', ''ClearAllForwardings=yes'',
          ''-L'', ''127.0.0.1:'' @ port_text localPort @ '':127.0.0.1:2049'']
       @ drop 1 argv"

fun nfs_mount_argv :: "platform \<Rightarrow> int \<Rightarrow> string \<Rightarrow> string list" where
  "nfs_mount_argv Linux localPort mountPoint =
     [''mount'', ''-t'', ''nfs4'', ''-o'', ''vers=4.2,proto=tcp,port='' @ port_text localPort @ '',hard,timeo=600,retrans=2'',
      ''127.0.0.1:/'', mountPoint]"
| "nfs_mount_argv Macos localPort mountPoint =
     [''mount_nfs'', ''-o'', ''vers=4,tcp,port='' @ port_text localPort, ''127.0.0.1:/'', mountPoint]"
| "nfs_mount_argv _ localPort mountPoint = [''mount.exe'', ''-o'', ''anon'', ''127.0.0.1:/'', mountPoint]"

definition nfs_unmount_argv :: "platform \<Rightarrow> string \<Rightarrow> string list" where
  "nfs_unmount_argv platform mountPoint =
     [if platform = Linux \<or> platform = Macos then ''umount'' else ''umount.exe'', mountPoint]"

definition createNfsClientPlan ::
  "(string \<Rightarrow> js_url option) \<Rightarrow> client_input \<Rightarrow> platform \<Rightarrow> int \<Rightarrow> string \<Rightarrow> (ssh_error, nfs_client_plan) res" where
  "createNfsClientPlan new_URL input platform localPort mountPoint =
     (let capability = nfsPlatformCapability platform
      in if fst capability = Fallback
         then Inr \<lparr>np_capability = capability, np_sshTunnelArgv = None, np_mountArgv = None, np_unmountArgv = None\<rparr>
         else rbind (assertPort localPort) (\<lambda>_.
         rbind (rmap localPath [ci_privateKeyPath input, ci_certificatePath input, ci_knownHostsPath input, mountPoint]) (\<lambda>_.
           if platform = Windows \<and> localPort \<noteq> 2049 then Inl InvalidLocalPort
           else if platform \<noteq> Windows \<and> localPort < 1024 then Inl InvalidLocalPort
           else rbind (createSshClientArgv new_URL input) (\<lambda>argv.
             Inr \<lparr>np_capability = capability,
                  np_sshTunnelArgv = Some (nfs_tunnel_argv argv localPort),
                  np_mountArgv = Some (nfs_mount_argv platform localPort mountPoint),
                  np_unmountArgv = Some (nfs_unmount_argv platform mountPoint)\<rparr>))))"

datatype nfs_error = NotQemu | NoNfsd | NotPersistent | BadWorkspaceId

type_synonym command = "string \<times> string list"

record nfs_export_plan =
  ne_listen :: "string \<times> nat"
  ne_exportPath :: string
  ne_prepare :: "command list"
  ne_daemons :: "command list"
  ne_activate :: "command list"
  ne_stop :: "command list"

definition NFS_GUEST_PORT :: nat where "NFS_GUEST_PORT = 2049"
definition NFS_EXPORT_PATH :: string where "NFS_EXPORT_PATH = ''/workspace''"

definition createNfsExportPlan :: "string \<Rightarrow> vm_runtime \<Rightarrow> bool \<Rightarrow> bool \<Rightarrow> (nfs_error, nfs_export_plan) res" where
  "createNfsExportPlan workspaceId runtime nfsdBuiltIn persistentWorkspace =
     (if runtime \<noteq> QemuRt then Inl NotQemu
      else if \<not> nfsdBuiltIn then Inl NoNfsd
      else if \<not> persistentWorkspace then Inl NotPersistent
      else if \<not> is_uuid4 workspaceId then Inl BadWorkspaceId
      else let exportTarget = ''127.0.0.1:'' @ NFS_EXPORT_PATH;
               exportOptions = ''rw,fsid=0,sync,no_subtree_check,root_squash,all_squash,anonuid=1000,anongid=1000,insecure''
           in Inr \<lparr>ne_listen = (''127.0.0.1'', NFS_GUEST_PORT), ne_exportPath = NFS_EXPORT_PATH,
                ne_prepare = [(''/bin/hostname'', [''bloom-'' @ to_lower workspaceId]),
                  (''/bin/mount'', [''-t'', ''nfsd'', ''nfsd'', ''/proc/fs/nfsd'']),
                  (''/usr/sbin/exportfs'', [''-i'', ''-o'', exportOptions, exportTarget])],
                ne_daemons = [(''/usr/sbin/rpc.mountd'',
                  [''--foreground'', ''--no-udp'', ''--no-nfs-version'', ''2'', ''--no-nfs-version'', ''3'', ''--ttl'', ''10''])],
                ne_activate = [(''/usr/sbin/rpc.nfsd'',
                  [''--host'', ''127.0.0.1'', ''--no-udp'', ''--no-nfs-version'', ''2'', ''--no-nfs-version'', ''3'',
                   ''--nfs-version'', ''4'', ''--leasetime'', ''10'', ''--grace-time'', ''10'', ''--port'',
                   nat_to_dec NFS_GUEST_PORT, ''1''])],
                ne_stop = [(''/usr/sbin/rpc.nfsd'', [''0'']),
                  (''/usr/sbin/exportfs'', [''-u'', exportTarget]),
                  (''/bin/umount'', [''/proc/fs/nfsd''])]\<rparr>)"


section \<open>The kernel gate\<close>

datatype gate_error = MissingSetting | PnfsEnabled | BadManifest | ChecksumFailed

definition REQUIRED :: "string list" where
  "REQUIRED =
     [''CONFIG_NETWORK_FILESYSTEMS=y'', ''CONFIG_EXPORTFS=y'', ''CONFIG_FHANDLE=y'', ''CONFIG_NFSD=y'', ''CONFIG_NFSD_V4=y'',
      ''# CONFIG_NFSD_BLOCKLAYOUT is not set'', ''# CONFIG_NFSD_SCSILAYOUT is not set'',
      ''# CONFIG_NFSD_FLEXFILELAYOUT is not set'']"

text \<open>\<open>split(/\r?\n/)\<close>: a carriage return right before the line feed goes with it.\<close>

definition chomp :: "string \<Rightarrow> string" where
  "chomp l = (if l \<noteq> [] \<and> last l = CHR 0x0D then butlast l else l)"

definition split_lines :: "string \<Rightarrow> string list" where
  "split_lines s = (let ls = split_on newline s in map chomp (butlast ls) @ [last ls])"

text \<open>\<open>/^([0-9a-f]{64})  ([A-Za-z0-9._-]+)$/\<close>: the digest and the name.\<close>

definition is_name_char :: "char \<Rightarrow> bool" where
  "is_name_char c \<longleftrightarrow> is_alpha c \<or> is_digit c \<or> c \<in> set ''._-''"

definition manifest_line :: "string \<Rightarrow> (string \<times> string) option" where
  "manifest_line l =
     (let digest = take 64 l; name = drop 66 l
      in if length digest = 64 \<and> (\<forall>c \<in> set digest. is_lhex c) \<and> take 2 (drop 64 l) = ''  ''
            \<and> name \<noteq> [] \<and> (\<forall>c \<in> set name. is_name_char c)
         then Some (digest, name) else None)"

text \<open>The entries of the map that \<open>parseManifest\<close> builds, newest first.\<close>

fun manifest_entries :: "string list \<Rightarrow> (string \<times> string) list \<Rightarrow> (string \<times> string) list option" where
  "manifest_entries [] acc = Some acc"
| "manifest_entries (l # ls) acc =
     (if l = [] then manifest_entries ls acc
      else case manifest_line l of
        None \<Rightarrow> None
      | Some (digest, name) \<Rightarrow>
          if name \<in> fst ` set acc then None else manifest_entries ls ((name, digest) # acc))"

definition parseManifest :: "string \<Rightarrow> (string \<times> string) list option" where
  "parseManifest source = manifest_entries (split_lines source) []"

definition basename :: "string \<Rightarrow> string" where
  "basename p = last ([] # filter (\<lambda>s. s \<noteq> []) (split_on slash p))"

definition verifyNfsKernelArtifacts ::
  "(octets \<Rightarrow> octets) \<Rightarrow> string \<Rightarrow> string \<Rightarrow> octets \<Rightarrow> octets \<Rightarrow> string \<Rightarrow> string \<Rightarrow> (gate_error, unit) res" where
  "verifyNfsKernelArtifacts sha256 kernelPath configPath vmlinux config configText manifest =
     (let settings = set (split_lines configText)
      in if \<not> list_all (\<lambda>r. r \<in> settings) REQUIRED then Inl MissingSetting
         else if ''CONFIG_NFSD_PNFS=y'' \<in> settings then Inl PnfsEnabled
         else case parseManifest manifest of
           None \<Rightarrow> Inl BadManifest
         | Some expected \<Rightarrow>
             if list_all (\<lambda>(path, contents). map_of expected (basename path) = Some (hex_digest (sha256 contents)))
                  [(kernelPath, vmlinux), (configPath, config)]
             then Inr () else Inl ChecksumFailed)"

section \<open>The principals of a guest\<close>

lemma rmap_Inr_iff: "rmap f xs = Inr ys \<Longrightarrow> y \<in> set ys \<longleftrightarrow> (\<exists>x \<in> set xs. f x = Inr y)"
  by (induction xs arbitrary: ys) (auto simp: res_simps)

lemma rmap_modes: "rmap normalizeAccessMode xs = Inr ys \<Longrightarrow> ys = xs"
  by (induction xs arbitrary: ys) (auto simp: res_simps norm_Inr)

lemma principal_no_newline:
  assumes "workspacePrincipal sha256 i w m = Inr p"
  shows "newline \<notin> set p \<and> p \<noteq> []"
proof -
  have m: "m = ''shell'' \<or> m = ''nfs''" and i: "is_uuid4 i"
    and p: "p = ''bloom-'' @ m @ ''-'' @ to_lower i @ ''-w-'' @ take 32 (hex_digest (sha256 (bytes_of (to_lower w))))"
    using assms unfolding workspacePrincipal_Inr by auto
  have "newline \<notin> set (to_lower i)"
    using is_uuid4_chars[OF is_uuid4_lower[OF i]] by (auto simp: char_class_defs)
  moreover have "newline \<notin> set (take 32 (hex_digest (sha256 (bytes_of (to_lower w)))))"
    by (auto simp: char_class_defs dest!: in_set_takeD hex_digest_lhex)
  ultimately show ?thesis using m unfolding p by auto
qed

lemma split_lines_content:
  assumes "ps \<noteq> []" "\<And>p. p \<in> set ps \<Longrightarrow> newline \<notin> set p"
  shows "split_on newline (join_with newline ps @ [newline]) = ps @ [[]]"
  using split_on_join[OF assms] split_on_append_sep[of newline "join_with newline ps" "[]"] by simp

section \<open>The ProxyCommand\<close>

text \<open>Characters that a shell takes literally, and the blank between two words.\<close>

definition shell_literal :: "char \<Rightarrow> bool" where
  "shell_literal c \<longleftrightarrow> is_alpha c \<or> is_digit c \<or> c \<in> set ''._/:-''"

lemma is_hex_literal: "is_hex c \<Longrightarrow> shell_literal c"
  by (auto simp: shell_literal_def char_class_defs)

lemma safeProxyPath_Inr:
  assumes "safeProxyPath v = Inr w"
  shows "w = v \<and> v \<noteq> [] \<and> (\<forall>c \<in> set v. shell_literal c) \<and> \<not> includes_sub v ''..''"
proof -
  have f: "v \<in> lang SAFE_POSIX_PROXY_PATH \<or> v \<in> lang SAFE_WINDOWS_PROXY_PATH" "\<not> includes_sub v ''..''" "w = v"
    using assms by (auto simp: safeProxyPath_def full_iff split: if_splits)
  have pc: "is_path_char c \<Longrightarrow> shell_literal c" for c by (auto simp: is_path_char_def shell_literal_def)
  have "v \<noteq> [] \<and> (\<forall>c \<in> set v. shell_literal c)"
  proof (cases "v \<in> lang SAFE_POSIX_PROXY_PATH")
    case True
    then obtain u where "v = slash # u" "\<forall>c \<in> set u. is_path_char c"
      unfolding SAFE_POSIX_PROXY_PATH_def in_lang_Seq in_lang_chr in_lang_plus_Cls by auto
    then show ?thesis using pc by (auto simp: shell_literal_def)
  next
    case False
    then have "v \<in> lang SAFE_WINDOWS_PROXY_PATH" using f by blast
    then obtain d u where "is_alpha d" "v = d # CHR '':'' # slash # u" "\<forall>c \<in> set u. is_path_char c"
      unfolding SAFE_WINDOWS_PROXY_PATH_def in_lang_seqs_Cons in_lang_seqs_Nil in_lang_chr in_lang_Cls in_lang_plus_Cls by auto
    then show ?thesis using pc by (auto simp: shell_literal_def)
  qed
  then show ?thesis using f by simp
qed

lemma origin_literal:
  assumes "normalizeHttpsOrigin new_URL v = Inr w"
  shows "w \<noteq> [] \<and> (\<forall>c \<in> set w. shell_literal c)"
proof -
  have "w \<in> lang origin_rx"
    using assms by (auto simp: normalizeHttpsOrigin_def full_iff Let_def split: option.splits if_splits)
  then obtain s h t where w: "w = s @ h @ t" and s: "s = ''https://''" and h': "h \<in> lang (plus (RCls is_host_char))"
    and t': "t \<in> lang (opt (RSeq (chr CHR '':'') (RRep (RCls is_digit) 1 5)))"
    unfolding origin_rx_def in_lang_seqs_Cons in_lang_seqs_Nil in_lang_lit by auto
  have h: "\<forall>c \<in> set h. is_host_char c" using h' unfolding in_lang_plus_Cls by simp
  have t: "t = [] \<or> (\<exists>d. t = CHR '':'' # d \<and> (\<forall>c \<in> set d. is_digit c))"
    using t' unfolding in_lang_opt in_lang_Seq in_lang_chr in_lang_Rep_Cls by auto
  have "is_host_char c \<Longrightarrow> shell_literal c" "is_digit c \<Longrightarrow> shell_literal c" for c
    by (auto simp: is_host_char_def shell_literal_def is_alpha_def)
  moreover have "\<forall>c \<in> set ''https://''. shell_literal c" by code_simp
  moreover have "shell_literal CHR '':''" by code_simp
  ultimately have "(\<forall>c \<in> set s. shell_literal c) \<and> (\<forall>c \<in> set h. shell_literal c) \<and> (\<forall>c \<in> set t. shell_literal c)"
    using s h t by auto
  then show ?thesis using w s by auto
qed

lemma uuid_literal: "is_uuid4 v \<Longrightarrow> to_lower v \<noteq> [] \<and> (\<forall>c \<in> set (to_lower v). shell_literal c)"
  using is_uuid4_chars[OF is_uuid4_lower[of v]] is_hex_literal by (fastforce simp: shell_literal_def)

lemma literal_no_blank: "\<forall>c \<in> set w. shell_literal c \<Longrightarrow> CHR '' '' \<notin> set w"
  by (auto simp: shell_literal_def char_class_defs)

lemma createSshClientArgv_Inr:
  assumes "createSshClientArgv new_URL input = Inr argv"
  obtains origin where "normalizeHttpsOrigin new_URL (ci_gatewayOrigin input) = Inr origin"
    "is_uuid4 (ci_workspaceId input)" "is_uuid4 (ci_leaseId input)" "ci_mode input = ''shell'' \<or> ci_mode input = ''nfs''"
    "safeProxyPath (ci_proxyHelperPath input) = Inr (ci_proxyHelperPath input)"
    "safeProxyPath (ci_tokenFilePath input) = Inr (ci_tokenFilePath input)"
    "argv ! 2 = ''ProxyCommand='' @ proxy_command (ci_proxyHelperPath input) origin (to_lower (ci_workspaceId input))
       (to_lower (ci_leaseId input)) (ci_mode input) (ci_tokenFilePath input)"
    "length argv = 22"
proof -
  obtain wid mode origin helper token key cert known where
    b: "normalizeWorkspaceId (ci_workspaceId input) = Inr wid" "normalizeAccessMode (ci_mode input) = Inr mode"
      "is_uuid4 (ci_leaseId input)" "normalizeHttpsOrigin new_URL (ci_gatewayOrigin input) = Inr origin"
      "safeProxyPath (ci_proxyHelperPath input) = Inr helper" "safeProxyPath (ci_tokenFilePath input) = Inr token"
    and argv: "Inr argv = (Inr [''ssh'',
              ''-o'', ''ProxyCommand='' @ proxy_command helper origin wid (to_lower (ci_leaseId input)) mode token,
              ''-o'', ''BatchMode=yes'', ''-o'', ''IdentitiesOnly=yes'', ''-o'', ''StrictHostKeyChecking=yes'',
              ''-o'', ''UserKnownHostsFile='' @ known,
              ''-o'', ''CertificateFile='' @ cert,
              ''-o'', ''HostKeyAlias=bloom-'' @ wid,
              ''-o'', ''ServerAliveInterval=20'', ''-o'', ''ServerAliveCountMax=2'',
              ''-i'', key, ''workspace@bloom-'' @ wid] :: (ssh_error, string list) res)"
    using assms unfolding createSshClientArgv_def rbind_Inr_iff if_Inr_iff by metis
  have "helper = ci_proxyHelperPath input" "token = ci_tokenFilePath input" using safeProxyPath_Inr b by blast+
  moreover have "wid = to_lower (ci_workspaceId input)" "is_uuid4 (ci_workspaceId input)" "mode = ci_mode input"
    "ci_mode input = ''shell'' \<or> ci_mode input = ''nfs''" using b by (auto simp: norm_Inr)
  ultimately show ?thesis using that[of origin] b argv[THEN sum.inject(2)[THEN iffD1]] by simp
qed

lemma split_words:
  assumes "\<forall>p \<in> set ps. CHR '' '' \<notin> set p" "ps \<noteq> []"
  shows "split_on CHR '' '' (join_with CHR '' '' ps) = ps"
  using split_on_join[of ps "CHR '' ''"] assms by auto

lemma proxy_command_words:
  "proxy_command helper origin wid lid mode token =
     join_with CHR '' '' [helper, ''--origin'', origin, ''--workspace'', wid, ''--lease'', lid, ''--mode'', mode, ''--token-file'', token]"
  by (simp add: proxy_command_def)

section \<open>The manifest\<close>

lemma manifest_line_Some:
  "manifest_line l = Some (d, n) \<longleftrightarrow>
     l = d @ ''  '' @ n \<and> length d = 64 \<and> (\<forall>c \<in> set d. is_lhex c) \<and> n \<noteq> [] \<and> (\<forall>c \<in> set n. is_name_char c)"
proof
  assume m: "manifest_line l = Some (d, n)"
  then have p: "d = take 64 l" "n = drop 66 l" "take 2 (drop 64 l) = ''  ''" "length d = 64" "\<forall>c \<in> set d. is_lhex c"
    "n \<noteq> []" "\<forall>c \<in> set n. is_name_char c"
    by (auto simp: manifest_line_def Let_def split: if_splits)
  have "l = take 64 l @ take 2 (drop 64 l) @ drop 2 (drop 64 l)" by (simp only: append_take_drop_id)
  then have "l = d @ ''  '' @ n" using p by simp
  then show "l = d @ ''  '' @ n \<and> length d = 64 \<and> (\<forall>c \<in> set d. is_lhex c) \<and> n \<noteq> [] \<and> (\<forall>c \<in> set n. is_name_char c)"
    using p by simp
qed (simp add: manifest_line_def)

lemma manifest_entries_Some:
  "manifest_entries ls acc = Some e \<longleftrightarrow>
     (\<forall>l \<in> set ls. l \<noteq> [] \<longrightarrow> manifest_line l \<noteq> None)
     \<and> e = rev (map (\<lambda>l. let (d, n) = the (manifest_line l) in (n, d)) (filter (\<lambda>l. l \<noteq> []) ls)) @ acc
     \<and> distinct (map (snd o the o manifest_line) (filter (\<lambda>l. l \<noteq> []) ls))
     \<and> (\<forall>l \<in> set ls. l \<noteq> [] \<longrightarrow> snd (the (manifest_line l)) \<notin> fst ` set acc)"
proof (induction ls arbitrary: acc)
  case (Cons l ls)
  show ?case
  proof (cases "l = [] \<or> manifest_line l = None")
    case True
    then show ?thesis using Cons by auto
  next
    case False
    then obtain d n where m: "manifest_line l = Some (d, n)" "l \<noteq> []" by auto
    show ?thesis
    proof (cases "n \<in> fst ` set acc")
      case True
      then show ?thesis using m by auto
    next
      case False
      then show ?thesis using m Cons.IH[of "(n, d) # acc"] by (auto simp: image_iff)
    qed
  qed
qed auto


lemma createNfsClientPlan_Inr:
  assumes "createNfsClientPlan new_URL input platform port mount = Inr plan" "fst (nfsPlatformCapability platform) \<noteq> Fallback"
  shows "\<exists>argv. createSshClientArgv new_URL input = Inr argv \<and> 1 \<le> port \<and> port \<le> 65535 \<and> (platform = Windows \<longrightarrow> port = 2049)
    \<and> (platform \<noteq> Windows \<longrightarrow> 1024 \<le> port) \<and> np_sshTunnelArgv plan = Some (nfs_tunnel_argv argv port)"
  using assms(1) unfolding createNfsClientPlan_def Let_def if_not_P[OF assms(2)] rbind_Inr_iff if_Inr_iff
  by (elim exE conjE) (auto simp: assertPort_def split: if_splits)

section \<open>Properties\<close>

text \<open>The guest's daemon accepts exactly the certificates of its own workspace. A line of the authorized-principals
  file that the plan writes is the principal signed for a lease if and only if the lease is for the same
  workspace, one of the modes of the plan, and a wallet with the same digest.\<close>

theorem guest_sshd_authorizes:
  assumes "guestSshdPlan sha256 workspaceId wallet ca modes = Inr plan"
    and "workspacePrincipal sha256 workspaceId' wallet' mode = Inr p"
  shows "p \<in> set (split_on newline (pf_content (sp_files plan ! 0))) \<longleftrightarrow>
     to_lower workspaceId' = to_lower workspaceId \<and> mode \<in> set modes
     \<and> take 32 (hex_digest (sha256 (bytes_of (to_lower wallet')))) = take 32 (hex_digest (sha256 (bytes_of (to_lower wallet))))"
proof -
  from assms(1) obtain ms ps k where ms: "rmap normalizeAccessMode modes = Inr ms" and n: "length ms \<noteq> 0"
    and ps: "rmap (workspacePrincipal sha256 workspaceId wallet) ms = Inr ps"
    and c: "pf_content (sp_files plan ! 0) = join_with newline ps @ [newline]"
    by (auto simp: guestSshdPlan_def res_simps split: if_splits)
  have np: "newline \<notin> set q \<and> q \<noteq> []" if "q \<in> set ps" for q
    using rmap_Inr_set[OF ps that] principal_no_newline by blast
  have "ms = modes" by (rule rmap_modes[OF ms])
  have "ps \<noteq> []" using rmap_Inr_length[OF ps] n by auto
  then have "p \<in> set (split_on newline (pf_content (sp_files plan ! 0))) \<longleftrightarrow> p \<in> set ps"
    using split_lines_content[of ps] np principal_no_newline[OF assms(2)] c by auto
  also have "\<dots> \<longleftrightarrow> (\<exists>m \<in> set ms. workspacePrincipal sha256 workspaceId wallet m = Inr p)" by (rule rmap_Inr_iff[OF ps])
  also have "\<dots> \<longleftrightarrow> to_lower workspaceId' = to_lower workspaceId \<and> mode \<in> set modes
     \<and> take 32 (hex_digest (sha256 (bytes_of (to_lower wallet')))) = take 32 (hex_digest (sha256 (bytes_of (to_lower wallet))))"
    (is "?L \<longleftrightarrow> ?R")
  proof
    assume ?L
    then obtain m where "m \<in> set modes" "workspacePrincipal sha256 workspaceId wallet m = Inr p" using \<open>ms = modes\<close> by blast
    then show ?R using principal_scope[OF assms(2), of workspaceId wallet m] by simp
  next
    assume ?R
    obtain m q where "workspacePrincipal sha256 workspaceId wallet m = Inr q" using ps n by (cases ms) (auto simp: res_simps)
    then have "is_uuid4 workspaceId" "full wallet_rx wallet" by (simp_all only: workspacePrincipal_Inr)
    then have "workspacePrincipal sha256 workspaceId wallet mode = Inr p"
      using assms(2) \<open>?R\<close> by (simp only: workspacePrincipal_Inr simp_thms)
    then show ?L using \<open>?R\<close> \<open>ms = modes\<close> by blast
  qed
  finally show ?thesis .
qed

text \<open>The one option that OpenSSH passes to a shell is safe: the ProxyCommand of every generated command line holds
  no character that a shell interprets, splits into exactly its eleven words, the values each being one word,
  and neither path in it contains \<open>..\<close>.\<close>

theorem proxy_command_safe:
  assumes "createSshClientArgv new_URL input = Inr argv"
  shows "\<exists>cmd origin. argv ! 2 = ''ProxyCommand='' @ cmd \<and> (\<forall>c \<in> set cmd. shell_literal c \<or> c = CHR '' '')
    \<and> normalizeHttpsOrigin new_URL (ci_gatewayOrigin input) = Inr origin
    \<and> split_on CHR '' '' cmd = [ci_proxyHelperPath input, ''--origin'', origin, ''--workspace'', to_lower (ci_workspaceId input),
         ''--lease'', to_lower (ci_leaseId input), ''--mode'', ci_mode input, ''--token-file'', ci_tokenFilePath input]
    \<and> \<not> includes_sub (ci_proxyHelperPath input) ''..'' \<and> \<not> includes_sub (ci_tokenFilePath input) ''..''"
proof -
  obtain origin where o: "normalizeHttpsOrigin new_URL (ci_gatewayOrigin input) = Inr origin"
    "is_uuid4 (ci_workspaceId input)" "is_uuid4 (ci_leaseId input)" "ci_mode input = ''shell'' \<or> ci_mode input = ''nfs''"
    "safeProxyPath (ci_proxyHelperPath input) = Inr (ci_proxyHelperPath input)"
    "safeProxyPath (ci_tokenFilePath input) = Inr (ci_tokenFilePath input)"
    "argv ! 2 = ''ProxyCommand='' @ proxy_command (ci_proxyHelperPath input) origin (to_lower (ci_workspaceId input))
       (to_lower (ci_leaseId input)) (ci_mode input) (ci_tokenFilePath input)"
    using createSshClientArgv_Inr[OF assms] by metis
  define words where "words = [ci_proxyHelperPath input, ''--origin'', origin, ''--workspace'', to_lower (ci_workspaceId input),
         ''--lease'', to_lower (ci_leaseId input), ''--mode'', ci_mode input, ''--token-file'', ci_tokenFilePath input]"
  have l: "\<forall>c \<in> set ''--origin''. shell_literal c" "\<forall>c \<in> set ''--workspace''. shell_literal c" "\<forall>c \<in> set ''--lease''. shell_literal c"
    "\<forall>c \<in> set ''--mode''. shell_literal c" "\<forall>c \<in> set ''--token-file''. shell_literal c"
    "\<forall>c \<in> set ''shell''. shell_literal c" "\<forall>c \<in> set ''nfs''. shell_literal c" by code_simp+
  have m: "\<forall>c \<in> set (ci_mode input). shell_literal c" using o(4) by (elim disjE) (erule ssubst, rule l)+
  have v: "\<forall>c \<in> set (ci_proxyHelperPath input). shell_literal c" "\<forall>c \<in> set (ci_tokenFilePath input). shell_literal c"
    "\<forall>c \<in> set origin. shell_literal c" "\<forall>c \<in> set (to_lower (ci_workspaceId input)). shell_literal c"
    "\<forall>c \<in> set (to_lower (ci_leaseId input)). shell_literal c"
    using safeProxyPath_Inr[OF o(5)] safeProxyPath_Inr[OF o(6)] origin_literal[OF o(1)] uuid_literal[OF o(2)] uuid_literal[OF o(3)]
    by simp_all
  have "list_all (\<lambda>w. \<forall>c \<in> set w. shell_literal c) words"
    unfolding words_def list.pred_inject by (intro conjI l m v TrueI list.pred_inject(1))
  then have lit: "\<forall>c \<in> set w. shell_literal c" if "w \<in> set words" for w using that by (simp add: list_all_iff)
  have cmd: "argv ! 2 = ''ProxyCommand='' @ join_with CHR '' '' words" using o(7) by (simp only: proxy_command_words words_def)
  have chars: "c \<in> set (join_with CHR '' '' ws) \<Longrightarrow> c = CHR '' '' \<or> (\<exists>w \<in> set ws. c \<in> set w)" for c ws
    by (induction "CHR '' ''" ws rule: join_with.induct) auto
  have "split_on CHR '' '' (join_with CHR '' '' words) = words"
    by (rule split_words) (use lit literal_no_blank in \<open>auto simp: words_def\<close>)
  then have words: "split_on CHR '' '' (join_with CHR '' '' words) = [ci_proxyHelperPath input, ''--origin'', origin, ''--workspace'',
      to_lower (ci_workspaceId input), ''--lease'', to_lower (ci_leaseId input), ''--mode'', ci_mode input, ''--token-file'',
      ci_tokenFilePath input]" by (simp only: words_def)
  have cs: "\<forall>c \<in> set (join_with CHR '' '' words). shell_literal c \<or> c = CHR '' ''" using chars lit by blast
  have dots: "\<not> includes_sub (ci_proxyHelperPath input) ''..''" "\<not> includes_sub (ci_tokenFilePath input) ''..''"
    using safeProxyPath_Inr[OF o(5)] safeProxyPath_Inr[OF o(6)] by simp_all
  show ?thesis by (intro exI[of _ "join_with CHR '' '' words"] exI[of _ origin] conjI cmd cs o(1) words dots)
qed

text \<open>Native NFS is offered exactly for a persistent workspace on QEMU with an SSH gateway and a kernel that passed
  the gate, to a desktop platform; whenever it is offered the export plan of the guest can be made, and the tunnel of
  every client plan forwards to the very address and port on which that export listens.\<close>

theorem nfs_offer_exact:
  "(snd (nativeNfsDecision runtime persistent gateway nfsd platform) \<noteq> None \<longleftrightarrow>
      runtime = QemuRt \<and> persistent \<and> gateway \<and> nfsd \<and> (platform = Linux \<or> platform = Macos \<or> platform = Windows))
   \<and> (snd (nativeNfsDecision runtime persistent gateway nfsd platform) \<noteq> None \<longrightarrow> is_uuid4 w \<longrightarrow>
        (\<exists>export. createNfsExportPlan w runtime nfsd persistent = Inr export
          \<and> (\<forall>plan. createNfsClientPlan new_URL input platform port mount = Inr plan \<longrightarrow>
              (\<exists>argv. np_sshTunnelArgv plan = Some argv \<and> argv ! 7 = ''-L''
                \<and> argv ! 8 = ''127.0.0.1:'' @ port_text port @ '':'' @ fst (ne_listen export) @ '':'' @ nat_to_dec (snd (ne_listen export))
                \<and> 1 \<le> port \<and> port \<le> 65535 \<and> (platform = Windows \<longleftrightarrow> port = 2049 \<and> platform = Windows)))))"
proof -
  have offer: "snd (nativeNfsDecision runtime persistent gateway nfsd platform) \<noteq> None \<longleftrightarrow>
      runtime = QemuRt \<and> persistent \<and> gateway \<and> nfsd \<and> (platform = Linux \<or> platform = Macos \<or> platform = Windows)"
    by (cases platform) (auto simp: nativeNfsDecision_def)
  have n: "nat_to_dec 2049 = ''2049''" by code_simp
  have tunnel: "\<exists>argv. np_sshTunnelArgv plan = Some argv \<and> argv ! 7 = ''-L''
      \<and> argv ! 8 = ''127.0.0.1:'' @ port_text port @ '':127.0.0.1:2049''
      \<and> 1 \<le> port \<and> port \<le> 65535 \<and> (platform = Windows \<longleftrightarrow> port = 2049 \<and> platform = Windows)"
    if pl: "platform = Linux \<or> platform = Macos \<or> platform = Windows"
      and c: "createNfsClientPlan new_URL input platform port mount = Inr plan" for plan
  proof -
    from pl have "fst (nfsPlatformCapability platform) \<noteq> Fallback" by auto
    from createNfsClientPlan_Inr[OF c this] obtain argv where a: "createSshClientArgv new_URL input = Inr argv"
      "1 \<le> port" "port \<le> 65535" "platform = Windows \<longrightarrow> port = 2049" "np_sshTunnelArgv plan = Some (nfs_tunnel_argv argv port)"
      by blast
    have "length argv = 22" by (rule createSshClientArgv_Inr[OF a(1)])
    then obtain x rest where "argv = x # rest" by (cases argv) auto
    then show ?thesis using a by (auto simp: nfs_tunnel_argv_def)
  qed
  show ?thesis
  proof (intro conjI impI)
    show "snd (nativeNfsDecision runtime persistent gateway nfsd platform) \<noteq> None \<longleftrightarrow>
      runtime = QemuRt \<and> persistent \<and> gateway \<and> nfsd \<and> (platform = Linux \<or> platform = Macos \<or> platform = Windows)" by (rule offer)
    assume o: "snd (nativeNfsDecision runtime persistent gateway nfsd platform) \<noteq> None" and u: "is_uuid4 w"
    define export where "export = projr (createNfsExportPlan w runtime nfsd persistent)"
    have e: "createNfsExportPlan w runtime nfsd persistent = Inr export" and l: "ne_listen export = (''127.0.0.1'', 2049)"
      using o u unfolding offer export_def by (auto simp: createNfsExportPlan_def Let_def NFS_GUEST_PORT_def)
    show "\<exists>export. createNfsExportPlan w runtime nfsd persistent = Inr export
          \<and> (\<forall>plan. createNfsClientPlan new_URL input platform port mount = Inr plan \<longrightarrow>
              (\<exists>argv. np_sshTunnelArgv plan = Some argv \<and> argv ! 7 = ''-L''
                \<and> argv ! 8 = ''127.0.0.1:'' @ port_text port @ '':'' @ fst (ne_listen export) @ '':'' @ nat_to_dec (snd (ne_listen export))
                \<and> 1 \<le> port \<and> port \<le> 65535 \<and> (platform = Windows \<longleftrightarrow> port = 2049 \<and> platform = Windows)))"
      by (rule exI[of _ export]) (use e l n tunnel o offer in simp)
  qed
qed

text \<open>The kernel gate passes exactly when the configuration has every required line and no pNFS, each line of the
  checksum manifest is well formed, no file is named twice, and the manifest lists the kernel and the configuration
  with the digests that their contents have.\<close>

theorem kernel_gate_exact:
  assumes "\<And>bs. length (sha256 bs) = 32"
  shows "verifyNfsKernelArtifacts sha256 kernelPath configPath vmlinux config configText manifest = Inr () \<longleftrightarrow>
     (\<forall>r \<in> set REQUIRED. r \<in> set (split_lines configText)) \<and> ''CONFIG_NFSD_PNFS=y'' \<notin> set (split_lines configText)
     \<and> (\<forall>l \<in> set (split_lines manifest). l \<noteq> [] \<longrightarrow> manifest_line l \<noteq> None)
     \<and> distinct (map (snd o the o manifest_line) (filter (\<lambda>l. l \<noteq> []) (split_lines manifest)))
     \<and> (\<forall>(path, contents) \<in> {(kernelPath, vmlinux), (configPath, config)}. basename path \<noteq> [] \<and> list_all is_name_char (basename path)
          \<and> hex_digest (sha256 contents) @ ''  '' @ basename path \<in> set (split_lines manifest))"
proof -
  define ls where "ls = split_lines manifest"
  define ne where "ne = filter (\<lambda>l. l \<noteq> []) ls"
  define wf where "wf \<longleftrightarrow> (\<forall>l \<in> set ls. l \<noteq> [] \<longrightarrow> manifest_line l \<noteq> None) \<and> distinct (map (snd o the o manifest_line) ne)"
  define e where "e = rev (map (\<lambda>l. let (d, n) = the (manifest_line l) in (n, d)) ne)"
  have parse: "parseManifest manifest = (if wf then Some e else None)"
  proof (cases "parseManifest manifest")
    case None
    then have "\<not> wf" unfolding parseManifest_def wf_def
      using manifest_entries_Some[of ls "[]" e] by (auto simp: ls_def ne_def e_def)
    then show ?thesis using None by simp
  next
    case (Some e')
    then show ?thesis unfolding parseManifest_def wf_def
      using manifest_entries_Some[of ls "[]" e'] by (auto simp: ls_def ne_def e_def)
  qed
  have lookup: "map_of e n = Some (hex_digest (sha256 bs)) \<longleftrightarrow>
      n \<noteq> [] \<and> list_all is_name_char n \<and> hex_digest (sha256 bs) @ ''  '' @ n \<in> set ls" if wf for n bs
  proof -
    have d: "length (hex_digest (sha256 bs)) = 64" "\<forall>c \<in> set (hex_digest (sha256 bs)). is_lhex c"
      using assms hex_digest_lhex by auto
    have keys: "distinct (map fst e)"
      using that by (simp add: e_def wf_def rev_map[symmetric] comp_def case_prod_beta Let_def)
    then have "map_of e n = Some (hex_digest (sha256 bs)) \<longleftrightarrow> (n, hex_digest (sha256 bs)) \<in> set e" by simp
    also have "\<dots> \<longleftrightarrow> (\<exists>l \<in> set ls. l \<noteq> [] \<and> manifest_line l = Some (hex_digest (sha256 bs), n))"
      using that by (auto simp: e_def ne_def wf_def case_prod_beta Let_def image_iff)
    also have "\<dots> \<longleftrightarrow> n \<noteq> [] \<and> list_all is_name_char n \<and> hex_digest (sha256 bs) @ ''  '' @ n \<in> set ls"
      using d by (auto simp: manifest_line_Some list_all_iff)
    finally show ?thesis .
  qed
  show ?thesis
    unfolding verifyNfsKernelArtifacts_def Let_def parse
    using lookup by (auto simp: list_all_iff ls_def wf_def ne_def split: option.splits)
qed

section \<open>Samples\<close>

definition sample_id :: string where "sample_id = ''0a0b0c0d-1234-4abc-8def-0123456789AB''"
definition sample_owner :: string where "sample_owner = ''0x00000000000000000000000000000000000000ab''"
definition sample_digest :: "octets \<Rightarrow> octets" where "sample_digest bs = replicate 32 0"

definition sample_sshd :: sshd_plan where
  "sample_sshd = projr (guestSshdPlan sample_digest sample_id sample_owner sample_key [''shell'', ''nfs''])"

lemma sample_blob: "ed25519_blob sample_key_blob"
proof -
  have "ascii7 (map (of_nat o of_char) ssh_ed25519) = ssh_ed25519" by code_simp
  then show ?thesis unfolding ed25519_blob_def sample_key_blob_def by (metis length_replicate)
qed

lemma sample_ca: "parse_key sha256 sample_key = Inr (key_of sha256 sample_key_blob)"
  using parse_normalized[OF sample_blob, of sha256] by (simp add: parse_key_def sample_key_def key_of_def)

lemma sample_id_uuid: "is_uuid4 sample_id" by code_simp

lemma sample_owner_wallet: "full wallet_rx sample_owner" by code_simp

lemma sample_sshd_plan: "guestSshdPlan sample_digest sample_id sample_owner sample_key [''shell'', ''nfs''] = Inr sample_sshd"
proof -
  have modes: "rmap normalizeAccessMode [''shell'', ''nfs''] = Inr [''shell'', ''nfs'']" by (simp add: normalizeAccessMode_def)
  have p: "workspacePrincipal sample_digest sample_id sample_owner m = Inr (''bloom-'' @ m @ ''-'' @ to_lower sample_id @ ''-w-''
      @ take 32 (hex_digest (sample_digest (bytes_of (to_lower sample_owner)))))" if "m = ''shell'' \<or> m = ''nfs''" for m
    unfolding workspacePrincipal_Inr using sample_id_uuid sample_owner_wallet that by blast
  have "\<exists>plan. guestSshdPlan sample_digest sample_id sample_owner sample_key [''shell'', ''nfs''] = Inr plan"
    unfolding guestSshdPlan_def modes rbind_simps using p[of "''shell''"] p[of "''nfs''"] sample_ca[of sample_digest] by simp
  then show ?thesis unfolding sample_sshd_def by auto
qed

lemma sample_principal_nfs:
  "workspacePrincipal sample_digest (to_lower sample_id) sample_owner ''nfs''
    = Inr (''bloom-nfs-0a0b0c0d-1234-4abc-8def-0123456789ab-w-'' @ replicate 32 CHR ''0'')"
  by code_simp

theorem guest_sshd_authorizes_witness:
  "''bloom-nfs-0a0b0c0d-1234-4abc-8def-0123456789ab-w-'' @ replicate 32 CHR ''0''
     \<in> set (split_on newline (pf_content (sp_files sample_sshd ! 0)))"
  using guest_sshd_authorizes[OF sample_sshd_plan sample_principal_nfs] by simp

definition sample_client :: client_input where
  "sample_client = \<lparr>ci_gatewayOrigin = ''https://ssh.bloom.example'', ci_workspaceId = sample_id, ci_leaseId = sample_id,
     ci_mode = ''nfs'', ci_proxyHelperPath = ''/usr/bin/bloom-proxy'', ci_tokenFilePath = ''C:/bloom/token'',
     ci_privateKeyPath = ''/home/u/my key'', ci_certificatePath = ''/home/u/cert'', ci_knownHostsPath = ''/home/u/hosts''\<rparr>"

definition sample_url :: "string \<Rightarrow> js_url option" where
  "sample_url t = Some \<lparr>ju_protocol = ''https:'', ju_username = [], ju_password = [], ju_pathname = ''/'', ju_search = [],
     ju_hash = [], ju_origin = t\<rparr>"

lemma sample_client_argv: "createSshClientArgv sample_url sample_client = Inr (projr (createSshClientArgv sample_url sample_client))"
proof -
  have "isl (createSshClientArgv sample_url sample_client) = False" by code_simp
  then show ?thesis by (metis sum.collapse(2))
qed

theorem proxy_command_safe_witness:
  "\<exists>cmd. projr (createSshClientArgv sample_url sample_client) ! 2 = ''ProxyCommand='' @ cmd
     \<and> length (split_on CHR '' '' cmd) = 11"
proof -
  from proxy_command_safe[OF sample_client_argv] obtain cmd origin where
    "projr (createSshClientArgv sample_url sample_client) ! 2 = ''ProxyCommand='' @ cmd"
    "split_on CHR '' '' cmd = [ci_proxyHelperPath sample_client, ''--origin'', origin, ''--workspace'', to_lower (ci_workspaceId sample_client),
         ''--lease'', to_lower (ci_leaseId sample_client), ''--mode'', ci_mode sample_client, ''--token-file'', ci_tokenFilePath sample_client]"
    by blast
  then show ?thesis by (intro exI[of _ cmd]) simp
qed

theorem nfs_offer_exact_witness: "\<exists>export. createNfsExportPlan sample_id QemuRt True True = Inr export"
  using nfs_offer_exact[of QemuRt True True True Linux sample_id sample_url sample_client 20049 "''/mnt''"] sample_id_uuid by auto

definition sample_line :: "string \<Rightarrow> string" where
  "sample_line name = replicate 64 CHR ''0'' @ ''  '' @ name"

definition sample_manifest :: string where
  "sample_manifest = join_with newline [sample_line ''vmlinux'', sample_line ''vmlinux.config'', []]"

lemma sample_manifest_lines: "split_lines sample_manifest = [sample_line ''vmlinux'', sample_line ''vmlinux.config'', []]"
proof -
  have "split_on newline sample_manifest = [sample_line ''vmlinux'', sample_line ''vmlinux.config'', []]"
    unfolding sample_manifest_def by (rule split_on_join) (auto simp: sample_line_def)
  then show ?thesis by (simp add: split_lines_def chomp_def sample_line_def)
qed

lemma sample_config_lines: "split_lines (join_with newline REQUIRED) = REQUIRED"
proof -
  have nl: "\<forall>r \<in> set REQUIRED. newline \<notin> set r" by code_simp
  have c: "map chomp (butlast REQUIRED) @ [last REQUIRED] = REQUIRED" by code_simp
  have "split_on newline (join_with newline REQUIRED) = REQUIRED"
  proof (rule split_on_join)
    show "REQUIRED \<noteq> []" by (simp add: REQUIRED_def)
  qed (use nl in blast)
  then show ?thesis using c by (simp only: split_lines_def Let_def)
qed

lemma sample_lines:
  "manifest_line (sample_line ''vmlinux'') = Some (replicate 64 CHR ''0'', ''vmlinux'')"
  "manifest_line (sample_line ''vmlinux.config'') = Some (replicate 64 CHR ''0'', ''vmlinux.config'')"
  unfolding manifest_line_Some sample_line_def by (simp_all add: is_name_char_def char_class_defs)

theorem kernel_gate_exact_witness:
  "verifyNfsKernelArtifacts sample_digest ''/k/vmlinux'' ''/k/vmlinux.config'' [] [] (join_with newline REQUIRED) sample_manifest = Inr ()"
proof -
  have len: "\<And>bs. length (sample_digest bs) = 32" by (simp add: sample_digest_def)
  have hex: "hex_digest (sample_digest []) = replicate 64 CHR ''0''" by code_simp
  have base: "basename ''/k/vmlinux'' = ''vmlinux''" "basename ''/k/vmlinux.config'' = ''vmlinux.config''" by code_simp+
  have names: "list_all is_name_char ''vmlinux''" "list_all is_name_char ''vmlinux.config''" by code_simp+
  have pnfs: "''CONFIG_NFSD_PNFS=y'' \<notin> set REQUIRED" by code_simp
  have ne: "sample_line n \<noteq> []" for n by (simp add: sample_line_def)
  show ?thesis
    unfolding kernel_gate_exact[of sample_digest, OF len] sample_manifest_lines sample_config_lines
    using pnfs sample_lines names by (simp add: hex base ne) (simp add: sample_line_def)
qed

end
