(* ===== verification/GuestProtocol.thy ===== *)
theory GuestProtocol
  imports Encoding PosixPath
begin

text \<open>
  \<open>src/guest-protocol.ts\<close> and \<open>src/agent/guest-channel.ts\<close>: the requests the host may send to
  the service in a guest, the JSON-lines framing, and one request over a private socket.

  Parameters: \<open>is_uuid\<close> for the UUID check of zod, \<open>parse_json\<close> for \<open>JSON.parse\<close> on the bytes of a
  line (\<open>None\<close> when it throws), \<open>stringify\<close> for \<open>JSON.stringify\<close>, and \<open>as_response\<close> for the response
  schema applied to a parsed value.
\<close>

definition MAX_GUEST_FRAME_BYTES :: nat where "MAX_GUEST_FRAME_BYTES = 384 * 1024"
definition MAX_FILE_CHUNK_BYTES :: nat where "MAX_FILE_CHUNK_BYTES = 256 * 1024"
definition MAX_JOB_LOG_CHUNK_BYTES :: nat where "MAX_JOB_LOG_CHUNK_BYTES = 256 * 1024"

section \<open>Paths\<close>

definition isSafeWorkspacePath :: "string \<Rightarrow> bool" where
  "isSafeWorkspacePath v =
     (if CHR 0x00 \<in> set v \<or> CHR 0x5C \<in> set v \<or> starts_with v ''/'' \<or> ends_with v ''/'' then False
      else let normalized = normalize v
           in normalized = v \<and> normalized \<noteq> ''.'' \<and> \<not> starts_with normalized ''../'' \<and> normalized \<noteq> ''..'')"

definition RelativePath :: "string \<Rightarrow> bool" where
  "RelativePath v \<longleftrightarrow> 1 \<le> length v \<and> length v \<le> 1024 \<and> isSafeWorkspacePath v"

definition WorkspaceDirectory :: "string \<Rightarrow> bool" where
  "WorkspaceDirectory v \<longleftrightarrow> v = ''.'' \<or> RelativePath v"

section \<open>Requests\<close>

definition isCanonicalBase64 :: "string \<Rightarrow> bool" where
  "isCanonicalBase64 v \<longleftrightarrow> full base64_rx v \<and> base64_encode (base64_decode v) = v"

text \<open>\<open>Math.ceil(MAX_FILE_CHUNK_BYTES / 3) * 4 + 4\<close> is 349532.\<close>

definition Base64Chunk :: "string \<Rightarrow> bool" where
  "Base64Chunk v \<longleftrightarrow> length v \<le> 349532 \<and> isCanonicalBase64 v \<and> length (base64_decode v) \<le> MAX_FILE_CHUNK_BYTES"

definition is_id_char :: "char \<Rightarrow> bool" where
  "is_id_char c \<longleftrightarrow> is_alpha c \<or> is_digit c \<or> c = CHR ''_'' \<or> c = CHR ''-''"

text \<open>\<open>/^[A-Za-z0-9_-]{1,64}$/\<close>, \<open>/^[A-Za-z_][A-Za-z0-9_]{0,63}$/\<close>, \<open>/^0x[0-9a-f]{40}$/\<close> and the CA key pattern.\<close>

definition request_id_rx :: rx where "request_id_rx = RRep (RCls is_id_char) 1 64"

definition env_name_rx :: rx where
  "env_name_rx = RSeq (RCls (\<lambda>c. is_alpha c \<or> c = CHR ''_'')) (RRep (RCls (\<lambda>c. is_alpha c \<or> is_digit c \<or> c = CHR ''_'')) 0 63)"

definition evm_address_rx :: rx where "evm_address_rx = RSeq (lit ''0x'') (RRep (RCls is_lhex) 40 40)"

definition ca_key_rx :: rx where
  "ca_key_rx = seqs [lit ''ssh-ed25519 '', plus (RCls is_b64), RRep (chr CHR ''='') 0 2]"

type_synonym environment = "(string \<times> string) list"

definition Environment :: "environment \<Rightarrow> bool" where
  "Environment env \<longleftrightarrow> (\<forall>(n, v) \<in> set env. full env_name_rx n \<and> length v \<le> 8192) \<and> length env \<le> 64"

definition AssertionBase64 :: "string \<Rightarrow> bool" where
  "AssertionBase64 v \<longleftrightarrow> length v \<le> 8192 \<and> isCanonicalBase64 v"

record ceremony_assertion =
  ca_credentialId :: string
  ca_authenticatorData :: string
  ca_clientDataJSON :: string
  ca_signature :: string

definition CeremonyAssertion :: "ceremony_assertion \<Rightarrow> bool" where
  "CeremonyAssertion a \<longleftrightarrow> AssertionBase64 (ca_credentialId a) \<and> AssertionBase64 (ca_authenticatorData a)
     \<and> AssertionBase64 (ca_clientDataJSON a) \<and> AssertionBase64 (ca_signature a)"

datatype guest_operation =
    Hello
  | FsList string
  | FsRead string int int
  | FsWrite string int string bool
  | FsDelete string bool
  | JobStart string "string list" string environment int
  | JobStatusOf string int int
  | JobCancel string
  | BloomStatus
  | ConnectionsConfigure string string string bool
  | CeremonyPending
  | CeremonyApprove string ceremony_assertion

text \<open>\<open>z.number().int()\<close> with bounds.\<close>

definition int_between :: "int \<Rightarrow> int \<Rightarrow> int \<Rightarrow> bool" where
  "int_between lo hi n \<longleftrightarrow> is_safe_integer n \<and> lo \<le> n \<and> n \<le> hi"

fun valid_operation :: "(string \<Rightarrow> bool) \<Rightarrow> guest_operation \<Rightarrow> bool" where
  "valid_operation is_uuid Hello = True"
| "valid_operation is_uuid (FsList p) = WorkspaceDirectory p"
| "valid_operation is_uuid (FsRead p off n) =
     (RelativePath p \<and> int_between 0 max_safe_integer off \<and> int_between 1 (int MAX_FILE_CHUNK_BYTES) n)"
| "valid_operation is_uuid (FsWrite p off d t) = (RelativePath p \<and> int_between 0 max_safe_integer off \<and> Base64Chunk d)"
| "valid_operation is_uuid (FsDelete p rec) = (RelativePath p \<and> \<not> rec)"
| "valid_operation is_uuid (JobStart j argv cwd env ms) =
     (is_uuid j \<and> (\<forall>a \<in> set argv. 1 \<le> length a \<and> length a \<le> 4096) \<and> 1 \<le> length argv \<and> length argv \<le> 64
      \<and> WorkspaceDirectory cwd \<and> Environment env \<and> int_between 1000 (2 * 60 * 60000) ms)"
| "valid_operation is_uuid (JobStatusOf j off n) =
     (is_uuid j \<and> int_between 0 max_safe_integer off \<and> int_between 1 (int MAX_JOB_LOG_CHUNK_BYTES) n)"
| "valid_operation is_uuid (JobCancel j) = is_uuid j"
| "valid_operation is_uuid BloomStatus = True"
| "valid_operation is_uuid (ConnectionsConfigure w a k n) =
     (is_uuid w \<and> full evm_address_rx a \<and> 32 \<le> length k \<and> length k \<le> 1024 \<and> full ca_key_rx k)"
| "valid_operation is_uuid CeremonyPending = True"
| "valid_operation is_uuid (CeremonyApprove t a) = (full request_id_rx t \<and> CeremonyAssertion a)"

record guest_request =
  gq_version :: int
  gq_id :: string
  gq_operation :: guest_operation

definition GuestRequest :: "(string \<Rightarrow> bool) \<Rightarrow> guest_request \<Rightarrow> bool" where
  "GuestRequest is_uuid r \<longleftrightarrow> gq_version r = 1 \<and> full request_id_rx (gq_id r) \<and> valid_operation is_uuid (gq_operation r)"

datatype guest_code =
    InvalidRequest | NotFound | Conflict | LimitExceeded | PermissionDenied | Unavailable | Internal | Transport

section \<open>Frames\<close>

datatype frame_error = FrameTooLarge | BufferTooLarge | BadJson

definition line_feed :: "8 word" where "line_feed = 10"

definition encodeGuestFrame :: "('v \<Rightarrow> octets) \<Rightarrow> 'v \<Rightarrow> (frame_error, octets) res" where
  "encodeGuestFrame stringify v =
     (let body = stringify v @ [line_feed]
      in if MAX_GUEST_FRAME_BYTES < length body then Inl FrameTooLarge else Inr body)"

text \<open>The loop of \<open>decodeGuestFrames\<close> on the bytes from \<open>start\<close> on: cut at the next line feed, skip empty lines.\<close>

function frames_loop :: "(octets \<Rightarrow> 'j option) \<Rightarrow> octets \<Rightarrow> 'j list \<Rightarrow> (frame_error, 'j list \<times> octets) res" where
  "frames_loop parse_json buf frames =
     (case dropWhile (\<lambda>b. b \<noteq> line_feed) buf of
        [] \<Rightarrow> if MAX_GUEST_FRAME_BYTES < length buf then Inl FrameTooLarge else Inr (frames, buf)
      | _ # rest \<Rightarrow>
          let line = takeWhile (\<lambda>b. b \<noteq> line_feed) buf
          in if line = [] then frames_loop parse_json rest frames
             else if MAX_GUEST_FRAME_BYTES < length line + 1 then Inl FrameTooLarge
             else case parse_json line of
               None \<Rightarrow> Inl BadJson
             | Some v \<Rightarrow> frames_loop parse_json rest (frames @ [v]))"
  by pat_completeness auto

termination
proof (relation "measure (\<lambda>(_, buf, _). length buf)", simp_all)
  fix buf rest :: octets and x
  assume d: "dropWhile (\<lambda>b. b \<noteq> line_feed) buf = x # rest"
  have "length (x # rest) \<le> length buf" unfolding d[symmetric] by (rule length_dropWhile_le)
  then show "length rest < length buf" "length rest < length buf" by simp_all
qed

declare frames_loop.simps [simp del]

definition decodeGuestFrames :: "(octets \<Rightarrow> 'j option) \<Rightarrow> octets \<Rightarrow> (frame_error, 'j list \<times> octets) res" where
  "decodeGuestFrames parse_json buf =
     (if MAX_GUEST_FRAME_BYTES * 2 < length buf then Inl BufferTooLarge else frames_loop parse_json buf [])"

section \<open>One request over a socket\<close>

record 'r guest_response =
  gr_id :: string
  gr_body :: "guest_code + 'r"

record 'r channel =
  ch_handshake :: bool
  ch_handshakeBuffer :: octets
  ch_frameBuffer :: octets
  ch_sent :: bool
  ch_settled :: "(guest_code + 'r) option"

text \<open>
  \<open>sendable\<close> says whether \<open>encodeGuestFrame\<close> accepts the request: a direct socket sends it when it connects, a
  vsock socket after the handshake, and a request that is too large fails there.
\<close>

definition send_request :: "bool \<Rightarrow> 'r channel \<Rightarrow> 'r channel" where
  "send_request sendable c =
     (if sendable then c\<lparr>ch_sent := True\<rparr>
      else case ch_settled c of None \<Rightarrow> c\<lparr>ch_settled := Some (Inl Transport)\<rparr> | Some _ \<Rightarrow> c)"

definition new_channel :: "bool \<Rightarrow> bool \<Rightarrow> 'r channel" where
  "new_channel sendable vsock =
     (let c = \<lparr>ch_handshake = vsock, ch_handshakeBuffer = [], ch_frameBuffer = [], ch_sent = False, ch_settled = None\<rparr>
      in if vsock then c else send_request sendable c)"

definition finish :: "guest_code + 'r \<Rightarrow> 'r channel \<Rightarrow> 'r channel" where
  "finish r c = (case ch_settled c of None \<Rightarrow> c\<lparr>ch_settled := Some r\<rparr> | Some _ \<Rightarrow> c)"

text \<open>\<open>consumeFrames\<close>; every throw ends as a transport error.\<close>

definition consumeFrames ::
  "(octets \<Rightarrow> 'j option) \<Rightarrow> ('j \<Rightarrow> 'r guest_response option) \<Rightarrow> string \<Rightarrow> octets \<Rightarrow> 'r channel \<Rightarrow> 'r channel" where
  "consumeFrames parse_json as_response rid chunk c =
     (let buf = ch_frameBuffer c @ chunk; c1 = c\<lparr>ch_frameBuffer := buf\<rparr>
      in if MAX_GUEST_FRAME_BYTES < length buf then finish (Inl Transport) c1
         else case decodeGuestFrames parse_json buf of
           Inl _ \<Rightarrow> finish (Inl Transport) c1
         | Inr (frames, remainder) \<Rightarrow>
             let c2 = c1\<lparr>ch_frameBuffer := remainder\<rparr>
             in case frames of
                  [] \<Rightarrow> c2
                | [j] \<Rightarrow>
                    if remainder \<noteq> [] then finish (Inl Transport) c2
                    else (case as_response j of
                       None \<Rightarrow> finish (Inl Transport) c2
                     | Some r \<Rightarrow> if gr_id r \<noteq> rid then finish (Inl Transport) c2 else finish (gr_body r) c2)
                | _ \<Rightarrow> finish (Inl Transport) c2)"

text \<open>\<open>/^OK [0-9]+$/\<close>\<close>

definition ok_rx :: rx where "ok_rx = RSeq (lit ''OK '') (plus (RCls is_digit))"

text \<open>The data listener. The socket is destroyed when the request settles, and later data is not delivered.\<close>

definition channel_data ::
  "bool \<Rightarrow> (octets \<Rightarrow> 'j option) \<Rightarrow> ('j \<Rightarrow> 'r guest_response option) \<Rightarrow> string \<Rightarrow> octets \<Rightarrow> 'r channel \<Rightarrow> 'r channel" where
  "channel_data sendable parse_json as_response rid chunk c =
     (if ch_settled c \<noteq> None then c
      else if ch_handshake c then
        (let hs = ch_handshakeBuffer c @ chunk; c1 = c\<lparr>ch_handshakeBuffer := hs\<rparr>
         in if 128 < length hs then finish (Inl Transport) c1
            else case dropWhile (\<lambda>b. b \<noteq> line_feed) hs of
              [] \<Rightarrow> c1
            | _ # remainder \<Rightarrow>
                if \<not> full ok_rx (ascii7 (takeWhile (\<lambda>b. b \<noteq> line_feed) hs)) then finish (Inl Transport) c1
                else let c2 = send_request sendable (c1\<lparr>ch_handshakeBuffer := [], ch_handshake := False\<rparr>)
                     in if remainder \<noteq> [] then consumeFrames parse_json as_response rid remainder c2 else c2)
      else consumeFrames parse_json as_response rid chunk c)"

text \<open>The error and close events and the timer.\<close>

definition channel_closed :: "'r channel \<Rightarrow> 'r channel" where
  "channel_closed c = finish (Inl Transport) c"

definition valid_call :: "(string \<Rightarrow> bool) \<Rightarrow> int option \<Rightarrow> guest_request \<Rightarrow> int \<Rightarrow> bool" where
  "valid_call is_uuid vsockPort request timeoutMs \<longleftrightarrow>
     GuestRequest is_uuid request \<and> int_between 100 120000 timeoutMs
     \<and> (case vsockPort of None \<Rightarrow> True | Some p \<Rightarrow> int_between 1 0xffffffff p)"

section \<open>Safe paths are lists of plain segments\<close>

lemma norm_step_cases:
  "norm_step True stack s =
     (if s = [] \<or> s = ''.'' then stack else if s = ''..'' then
        (case stack of [] \<Rightarrow> [''..''] | t # rest \<Rightarrow> if t = ''..'' then ''..'' # stack else rest)
      else s # stack)"
  by (simp only: norm_step.simps if_True split: list.split)

text \<open>A normalised relative path is some \<open>..\<close> segments followed by plain ones; the stack holds it in reverse.\<close>

definition dots_then_plain :: "string list \<Rightarrow> bool" where
  "dots_then_plain segs \<longleftrightarrow> (\<exists>k ps. segs = replicate k ''..'' @ ps \<and> (\<forall>p \<in> set ps. plain p))"

lemma not_plain_dots [simp]: "\<not> plain ''..''"
  by (simp add: plain_def)

lemma dots_snoc: "dots_then_plain segs \<Longrightarrow> plain s \<Longrightarrow> dots_then_plain (segs @ [s])"
proof -
  assume "dots_then_plain segs" "plain s"
  then obtain k ps where k: "segs = replicate k ''..'' @ ps" "\<forall>p \<in> set ps. plain p"
    unfolding dots_then_plain_def by blast
  have "segs @ [s] = replicate k ''..'' @ (ps @ [s])" "\<forall>p \<in> set (ps @ [s]). plain p"
    using k \<open>plain s\<close> by simp_all
  then show ?thesis unfolding dots_then_plain_def by blast
qed

lemma dots_butlast:
  assumes "dots_then_plain (segs @ [t])" "t \<noteq> ''..''"
  shows "dots_then_plain segs"
proof -
  obtain k ps where k: "segs @ [t] = replicate k ''..'' @ ps" "\<forall>p \<in> set ps. plain p"
    using assms(1) by (auto simp: dots_then_plain_def)
  have "ps \<noteq> []"
  proof
    assume "ps = []"
    then have "t \<in> set (replicate k ''..'')" using k(1) by (metis append_Nil2 last_in_set last_snoc snoc_eq_iff_butlast)
    then show False using assms(2) by simp
  qed
  then obtain ps' where "ps = ps' @ [t]" using k(1) by (metis append_butlast_last_id last_appendR last_snoc)
  then show ?thesis using k by (auto simp: dots_then_plain_def)
qed

lemma dots_more:
  assumes "dots_then_plain (segs @ [''..''])"
  shows "dots_then_plain (segs @ [''..'', ''..''])"
proof -
  obtain k ps where k: "segs @ [''..''] = replicate k ''..'' @ ps" "\<forall>p \<in> set ps. plain p"
    using assms by (auto simp: dots_then_plain_def)
  have "ps = []"
  proof (rule ccontr)
    assume "ps \<noteq> []"
    then have "last ps = ''..''" using k(1) by (metis last_appendR last_snoc)
    then show False using k(2) \<open>ps \<noteq> []\<close> not_plain_dots last_in_set by metis
  qed
  then have "segs @ [''..'', ''..''] = replicate (Suc k) ''..'' @ []"
    using k(1) by (metis append.assoc append_Cons append_Nil append_Nil2 replicate_Suc replicate_append_same)
  then show ?thesis unfolding dots_then_plain_def by (metis empty_iff empty_set)
qed

lemma foldl_dots:
  assumes "\<forall>s \<in> set segs. slash \<notin> set s" "dots_then_plain (rev stack)"
  shows "dots_then_plain (rev (foldl (norm_step True) stack segs))"
  using assms
proof (induction segs arbitrary: stack)
  case (Cons s segs)
  have "dots_then_plain (rev (norm_step True stack s))"
  proof (cases "s = [] \<or> s = ''.''")
    case True
    then show ?thesis using Cons.prems by (simp only: norm_step_cases if_True)
  next
    case plainish: False
    show ?thesis
    proof (cases "s = ''..''")
      case True
      show ?thesis
      proof (cases stack)
        case Nil
        have "[''..''] = replicate 1 ''..'' @ ([] :: string list)" by simp
        then have "dots_then_plain [''..'']" unfolding dots_then_plain_def by (metis empty_iff empty_set)
        then show ?thesis using Nil True plainish by (simp only: norm_step_cases if_True if_False list.case rev.simps append_Nil simp_thms)
      next
        case (Cons t rest)
        have d: "dots_then_plain (rev rest @ [t])" using Cons.prems(2) Cons by simp
        have e: "norm_step True stack s = (if t = ''..'' then ''..'' # stack else rest)"
          using plainish True Cons by (simp only: norm_step_cases if_False if_True list.case simp_thms)
        show ?thesis
        proof (cases "t = ''..''")
          case up: True
          then have "dots_then_plain (rev rest @ [''..''])" using d by simp
          then have "dots_then_plain (rev rest @ [''..'', ''..''])" by (rule dots_more)
          moreover have "rev (norm_step True stack s) = rev rest @ [''..'', ''..'']"
            using e up Cons by simp
          ultimately show ?thesis by (simp only:)
        next
          case False
          then show ?thesis using e dots_butlast[OF d False] by simp
        qed
      qed
    next
      case False
      then have "plain s" using plainish Cons.prems by (simp add: plain_def)
      then show ?thesis using dots_snoc[OF Cons.prems(2)] norm_step_plain[of s] by simp
    qed
  qed
  then show ?case using Cons.IH[of "norm_step True stack s"] Cons.prems(1) by simp
qed simp

lemma norm_dots: "dots_then_plain (norm_segments True (split_on slash v))"
proof -
  have d: "dots_then_plain (rev [])" unfolding dots_then_plain_def by (rule exI[of _ 0], rule exI[of _ "[]"]) simp
  have s: "\<forall>s \<in> set (split_on slash v). slash \<notin> set s" by (rule ballI, drule split_on_pieces, erule conjunct1)
  show ?thesis unfolding norm_segments_def by (rule foldl_dots[OF s d])
qed

lemma starts_slash: "starts_with v ''/'' \<longleftrightarrow> (\<exists>r. v = slash # r)"
  by (simp add: starts_with_iff)

lemma isSafeWorkspacePath_iff:
  "isSafeWorkspacePath v \<longleftrightarrow> CHR 0x00 \<notin> set v \<and> CHR 0x5C \<notin> set v \<and> (\<forall>s \<in> set (split_on slash v). plain s)"
proof
  assume safe: "isSafeWorkspacePath v"
  then have c: "CHR 0x00 \<notin> set v" "CHR 0x5C \<notin> set v" and rel: "\<not> starts_with v ''/''" "\<not> ends_with v ''/''"
    and n: "normalize v = v" "v \<noteq> ''.''" "\<not> starts_with v ''../''" "v \<noteq> ''..''"
    by (auto simp: isSafeWorkspacePath_def Let_def split: if_splits)
  have "v \<noteq> []" using n(1,2) by (auto simp: normalize_def)
  define ns where "ns = norm_segments True (split_on slash v)"
  have "normalize v = (if join_with slash ns = [] then ''.'' else join_with slash ns)"
    using \<open>v \<noteq> []\<close> rel by (simp add: normalize_def isAbsolute_def ns_def Let_def)
  then have j: "join_with slash ns = v" using n(1,2) by (auto split: if_splits)
  obtain k ps where ks: "ns = replicate k ''..'' @ ps" "\<forall>p \<in> set ps. plain p"
    using norm_dots[of v] by (auto simp: dots_then_plain_def ns_def)
  have "k = 0"
  proof (rule ccontr)
    assume "k \<noteq> 0"
    then obtain k' where "k = Suc k'" by (cases k) auto
    then obtain rest where r: "ns = ''..'' # rest" using ks(1) by simp
    then have "v = ''..'' \<or> (\<exists>t. v = ''../'' @ t)" using j by (cases rest) auto
    then show False using n(3,4) by (auto simp: starts_with_iff)
  qed
  then have p: "\<forall>p \<in> set ns. plain p" using ks by simp
  have "ns \<noteq> []" using j \<open>v \<noteq> []\<close> by auto
  moreover have "\<forall>p \<in> set ns. slash \<notin> set p" using p by (simp add: plain_def)
  ultimately have "split_on slash v = ns" using split_on_join[of ns slash] j by auto
  then show "CHR 0x00 \<notin> set v \<and> CHR 0x5C \<notin> set v \<and> (\<forall>s \<in> set (split_on slash v). plain s)" using c p by simp
next
  assume r: "CHR 0x00 \<notin> set v \<and> CHR 0x5C \<notin> set v \<and> (\<forall>s \<in> set (split_on slash v). plain s)"
  then have p: "\<forall>s \<in> set (split_on slash v). plain s" by blast
  obtain a as where a: "split_on slash v = a # as" by (cases "split_on slash v") auto
  have v: "v = join_with slash (a # as)" using join_split_on[of slash v] a by simp
  have "plain a" using p a by simp
  have nostart: "\<not> starts_with v ''/''"
  proof
    assume "starts_with v ''/''"
    then obtain t where "v = slash # t" by (auto simp: starts_slash)
    then have "[] \<in> set (split_on slash v)" by simp
    then show False using p by (auto simp: plain_def)
  qed
  have noend: "\<not> ends_with v ''/''"
  proof
    assume "ends_with v ''/''"
    then obtain t where "v = t @ slash # []" by (auto simp: ends_with_iff)
    then have "split_on slash v = split_on slash t @ [[]]" using split_on_append_sep[of slash t "[]"] by simp
    then show False using p by (auto simp: plain_def)
  qed
  have jv: "join_with slash (norm_segments True (split_on slash v)) = v" using p by simp
  have "v \<noteq> []" using \<open>plain a\<close> v by (cases as) (auto simp: plain_def)
  then have n: "normalize v = v" using jv nostart noend by (simp add: normalize_def isAbsolute_def Let_def)
  have dot: "v \<noteq> ''.''"
  proof
    assume "v = ''.''"
    then have "split_on slash v = [''.'']" by simp
    then show False using p by (simp add: plain_def)
  qed
  moreover have dots: "v \<noteq> ''..''"
  proof
    assume "v = ''..''"
    then have "split_on slash v = [''..'']" by simp
    then show False using p by (simp add: plain_def)
  qed
  moreover have "\<not> starts_with v ''../''"
  proof
    assume "starts_with v ''../''"
    then obtain t where "v = ''..'' @ slash # t" by (auto simp: starts_with_iff)
    then have "''..'' \<in> set (split_on slash v)" using split_on_append_sep[of slash "''..''" t] by simp
    then show False using p not_plain_dots by blast
  qed
  ultimately show "isSafeWorkspacePath v" using r n nostart noend by (simp add: isSafeWorkspacePath_def)
qed

section \<open>Canonical base64\<close>

lemma isCanonicalBase64_iff: "isCanonicalBase64 v \<longleftrightarrow> v \<in> range base64_encode"
  using base64_canonical[of base64_decode v] base64_encode_rx by (auto simp: isCanonicalBase64_def)

lemma length_base64_encode: "length (base64_encode bs) = 4 * ((length bs + 2) div 3)"
proof (induction bs rule: base64_encode.induct)
  case (4 a b c bs)
  have "(length bs + 3 + 2) div 3 = Suc ((length bs + 2) div 3)" by presburger
  then show ?case using 4 by (simp add: add.commute)
qed simp_all

lemma Base64Chunk_encode [simp]: "length bs \<le> MAX_FILE_CHUNK_BYTES \<Longrightarrow> Base64Chunk (base64_encode bs)"
proof -
  assume l: "length bs \<le> MAX_FILE_CHUNK_BYTES"
  then have "(length bs + 2) div 3 \<le> 87383" by (simp add: MAX_FILE_CHUNK_BYTES_def)
  then have "length (base64_encode bs) \<le> 349532" by (simp add: length_base64_encode)
  then show ?thesis using l by (simp add: Base64Chunk_def isCanonicalBase64_iff)
qed

section \<open>Frames\<close>

definition one_line :: "octets \<Rightarrow> bool" where
  "one_line l \<longleftrightarrow> l \<noteq> [] \<and> line_feed \<notin> set l \<and> length l + 1 \<le> MAX_GUEST_FRAME_BYTES"

lemma cut_line:
  assumes "line_feed \<notin> set l"
  shows "dropWhile (\<lambda>b. b \<noteq> line_feed) (l @ line_feed # r) = line_feed # r"
    "takeWhile (\<lambda>b. b \<noteq> line_feed) (l @ line_feed # r) = l"
proof -
  have "\<forall>b \<in> set l. b \<noteq> line_feed" using assms by blast
  then show "dropWhile (\<lambda>b. b \<noteq> line_feed) (l @ line_feed # r) = line_feed # r"
    "takeWhile (\<lambda>b. b \<noteq> line_feed) (l @ line_feed # r) = l"
    by (simp_all add: dropWhile_append2 takeWhile_append2)
qed

lemma no_line: "line_feed \<notin> set l \<Longrightarrow> dropWhile (\<lambda>b. b \<noteq> line_feed) l = []"
  by auto

lemma frames_loop_tail:
  assumes "line_feed \<notin> set t" "length t \<le> MAX_GUEST_FRAME_BYTES"
  shows "frames_loop parse_json t acc = Inr (acc, t)"
  by (subst frames_loop.simps) (use assms in \<open>simp add: no_line not_less\<close>)

lemma frames_loop_lines:
  assumes "\<forall>l \<in> set ls. one_line l \<and> parse_json l \<noteq> None"
  shows "frames_loop parse_json (concat (map (\<lambda>l. l @ [line_feed]) ls) @ t) acc
    = frames_loop parse_json t (acc @ map (the o parse_json) ls)"
  using assms
proof (induction ls arbitrary: acc)
  case (Cons l ls)
  then obtain v where l: "one_line l" "parse_json l = Some v" by auto
  have "frames_loop parse_json (l @ line_feed # (concat (map (\<lambda>l. l @ [line_feed]) ls) @ t)) acc
      = frames_loop parse_json (concat (map (\<lambda>l. l @ [line_feed]) ls) @ t) (acc @ [v])"
    using l by (subst frames_loop.simps) (simp add: cut_line one_line_def)
  then show ?case using Cons l by simp
qed simp

text \<open>C38. Framing round trip. Values are written one after the other with \<open>encodeGuestFrame\<close> and followed by an
  unfinished line: as long as no write is refused and the buffer stays below the receive limit,
  \<open>decodeGuestFrames\<close> returns exactly the values, in order, and keeps the unfinished line. What is used of
  JSON: \<open>JSON.parse\<close> undoes \<open>JSON.stringify\<close>, whose output is not empty and holds no line feed.
\<close>
lemma guest_frames_roundtrip:
  assumes "\<forall>v \<in> set vs. parse_json (stringify v) = Some v \<and> stringify v \<noteq> [] \<and> line_feed \<notin> set (stringify v)"
    and "list_all2 (\<lambda>v f. encodeGuestFrame stringify v = Inr f) vs fs"
    and "line_feed \<notin> set t" "length t \<le> MAX_GUEST_FRAME_BYTES" "length (concat fs @ t) \<le> 2 * MAX_GUEST_FRAME_BYTES"
  shows "decodeGuestFrames parse_json (concat fs @ t) = Inr (vs, t)"
proof -
  have f: "fs = map (\<lambda>l. l @ [line_feed]) (map stringify vs)"
    using assms(2) by (induction rule: list_all2_induct) (auto simp: encodeGuestFrame_def Let_def split: if_splits)
  have "\<forall>v \<in> set vs. \<exists>f. encodeGuestFrame stringify v = Inr f"
    using assms(2) by (fastforce simp: list_all2_conv_all_nth in_set_conv_nth)
  then have "\<forall>l \<in> set (map stringify vs). one_line l \<and> parse_json l \<noteq> None"
    using assms(1) by (fastforce simp: encodeGuestFrame_def one_line_def Let_def split: if_splits)
  moreover have "map (the o parse_json) (map stringify vs) = vs"
    using assms(1) by (induction vs) auto
  ultimately show ?thesis
    using assms(5) frames_loop_lines[of "map stringify vs" parse_json t "[]"] frames_loop_tail[OF assms(3,4), of parse_json vs]
    by (simp only: decodeGuestFrames_def f append_Nil) (simp add: mult.commute not_less)
qed

section \<open>The channel\<close>

lemma settled_data: "ch_settled c \<noteq> None \<Longrightarrow> channel_data sd pj ar rid d c = c"
  by (simp add: channel_data_def)

lemma settled_run: "ch_settled c \<noteq> None \<Longrightarrow> foldl (\<lambda>c d. channel_data sd pj ar rid d c) c ds = c"
  by (induction ds) (simp_all add: settled_data)

lemma consume_partial:
  assumes "line_feed \<notin> set (ch_frameBuffer c @ d)" "length (ch_frameBuffer c @ d) \<le> MAX_GUEST_FRAME_BYTES"
  shows "consumeFrames pj ar rid d c = c\<lparr>ch_frameBuffer := ch_frameBuffer c @ d\<rparr>"
  using assms frames_loop_tail[OF assms, of pj "[]"] by (simp add: consumeFrames_def decodeGuestFrames_def Let_def)

lemma consume_line:
  assumes "ch_frameBuffer c @ d = l @ [line_feed]" "one_line l" "pj l = Some j" "ar j = Some r" "gr_id r = rid"
    "ch_settled c = None"
  shows "ch_settled (consumeFrames pj ar rid d c) = Some (gr_body r)"
proof -
  have "frames_loop pj (l @ [line_feed]) [] = Inr ([j], [])"
    using frames_loop_lines[of "[l]" pj "[]" "[]"] frames_loop_tail[of "[]" pj "[j]"] assms(2,3) by simp
  then show ?thesis
    using assms by (simp add: consumeFrames_def decodeGuestFrames_def one_line_def finish_def Let_def)
qed

lemma channel_frames:
  assumes "ch_settled c = None" "\<not> ch_handshake c" "line_feed \<notin> set (ch_frameBuffer c)"
    and "ch_frameBuffer c @ concat ds = l @ [line_feed]" "one_line l" "pj l = Some j" "ar j = Some r" "gr_id r = rid"
  shows "ch_settled (foldl (\<lambda>c d. channel_data sd pj ar rid d c) c ds) = Some (gr_body r)"
  using assms(1-4)
proof (induction ds arbitrary: c)
  case (Cons d ds)
  let ?b = "ch_frameBuffer c @ d"
  have e: "?b @ concat ds = l @ [line_feed]" using Cons.prems by simp
  have step: "channel_data sd pj ar rid d c = consumeFrames pj ar rid d c"
    using Cons.prems by (simp add: channel_data_def)
  show ?case
  proof (cases "concat ds = []")
    case True
    have "?b = l @ [line_feed]" using e unfolding True by simp
    then have "ch_settled (channel_data sd pj ar rid d c) = Some (gr_body r)"
      using step consume_line[of c d l pj j ar r rid] assms(5-8) Cons.prems(1) by simp
    then show ?thesis by (simp add: settled_run)
  next
    case False
    then obtain t x where "concat ds = t @ [x]" by (metis rev_exhaust)
    then have b: "l = ?b @ t" using e by (metis append.assoc append_eq_append_conv last_snoc butlast_snoc butlast_append append_is_Nil_conv)
    then have n: "line_feed \<notin> set ?b" and "length ?b \<le> MAX_GUEST_FRAME_BYTES"
      using assms(5) by (auto simp: one_line_def)
    then have s: "channel_data sd pj ar rid d c = c\<lparr>ch_frameBuffer := ?b\<rparr>"
      using step consume_partial by metis
    show ?thesis using Cons.IH[of "c\<lparr>ch_frameBuffer := ?b\<rparr>"] Cons.prems n e s by simp
  qed
qed simp

lemma channel_handshake:
  assumes "ch_settled c = None" "ch_handshake c" "line_feed \<notin> set (ch_handshakeBuffer c)"
    and "ch_handshakeBuffer c @ concat ds = ok @ [line_feed]" "length ok < 128"
    and "line_feed \<notin> set ok" "full ok_rx (ascii7 ok)"
  shows "\<exists>n < length ds. foldl (\<lambda>c d. channel_data True pj ar rid d c) c (take (Suc n) ds)
      = c\<lparr>ch_handshakeBuffer := [], ch_handshake := False, ch_sent := True\<rparr> \<and> concat (drop (Suc n) ds) = []"
  using assms(1-4)
proof (induction ds arbitrary: c)
  case (Cons d ds)
  let ?b = "ch_handshakeBuffer c @ d"
  have e: "?b @ concat ds = ok @ [line_feed]" using Cons.prems by simp
  show ?case
  proof (cases "concat ds = []")
    case True
    have b: "?b = ok @ [line_feed]" using e unfolding True by simp
    have "channel_data True pj ar rid d c = c\<lparr>ch_handshakeBuffer := [], ch_handshake := False, ch_sent := True\<rparr>"
      using Cons.prems assms(5-7) b cut_line[OF assms(6), of "[]"] by (simp add: channel_data_def send_request_def Let_def)
    then show ?thesis using True by (intro exI[of _ 0]) simp
  next
    case False
    then obtain t x where "concat ds = t @ [x]" by (metis rev_exhaust)
    then have b: "ok = ?b @ t" using e by (metis append.assoc append_eq_append_conv last_snoc butlast_snoc butlast_append append_is_Nil_conv)
    then have n: "line_feed \<notin> set ?b" and "length ?b < 128" using assms(5,6) by auto
    then have s: "channel_data True pj ar rid d c = c\<lparr>ch_handshakeBuffer := ?b\<rparr>"
      using Cons.prems by (simp add: channel_data_def send_request_def Let_def no_line[OF n])
    obtain k where k: "k < length ds"
      "foldl (\<lambda>c d. channel_data True pj ar rid d c) (c\<lparr>ch_handshakeBuffer := ?b\<rparr>) (take (Suc k) ds)
         = c\<lparr>ch_handshakeBuffer := [], ch_handshake := False, ch_sent := True\<rparr>" "concat (drop (Suc k) ds) = []"
      using Cons.IH[of "c\<lparr>ch_handshakeBuffer := ?b\<rparr>"] Cons.prems n e by auto
    show ?thesis by (rule exI[of _ "Suc k"]) (use k s in simp)
  qed
qed simp

lemma channel_nothing:
  assumes "ch_settled c = None" "\<not> ch_handshake c" "ch_frameBuffer c = []" "concat ds = []"
  shows "foldl (\<lambda>c d. channel_data sd pj ar rid d c) c ds = c"
  using assms
proof (induction ds arbitrary: c)
  case (Cons d ds)
  have "channel_data sd pj ar rid d c = c"
    using Cons.prems consume_partial[of c d pj ar rid] by (simp add: channel_data_def MAX_GUEST_FRAME_BYTES_def)
  then show ?case using Cons by simp
qed simp

text \<open>One request over a private socket. However the transport cuts the bytes into chunks, a well-formed
  response with the identifier of the request settles the request with its body: on a direct socket, and on a
  vsock socket after the \<open>OK <port>\<close> line of the hypervisor, itself cut anywhere.
\<close>
lemma guest_channel_delivers:
  assumes "encodeGuestFrame stringify j = Inr f" "parse_json (stringify j) = Some j" "stringify j \<noteq> []"
    "line_feed \<notin> set (stringify j)" "as_response j = Some r" "gr_id r = rid"
    and "concat hs = ok @ [line_feed]" "length ok < 128" "line_feed \<notin> set ok" "full ok_rx (ascii7 ok)"
    and "concat ds = f"
  shows "ch_settled (foldl (\<lambda>c d. channel_data True parse_json as_response rid d c) (new_channel True False) ds) = Some (gr_body r)
       \<and> ch_settled (foldl (\<lambda>c d. channel_data True parse_json as_response rid d c) (new_channel True True) (hs @ ds)) = Some (gr_body r)"
proof
  have f: "concat ds = stringify j @ [line_feed]" "one_line (stringify j)"
    using assms(1-4,11) by (auto simp: encodeGuestFrame_def one_line_def Let_def split: if_splits)
  show "ch_settled (foldl (\<lambda>c d. channel_data True parse_json as_response rid d c) (new_channel True False) ds) = Some (gr_body r)"
    by (rule channel_frames[where l = "stringify j" and j = j]) (simp_all add: new_channel_def send_request_def f assms(2,5,6) del: concat_eq_append_conv)
  let ?run = "foldl (\<lambda>c d. channel_data True parse_json as_response rid d c)"
  let ?c = "(new_channel True True)\<lparr>ch_handshakeBuffer := [], ch_handshake := False, ch_sent := True\<rparr>"
  obtain n where n: "?run (new_channel True True) (take (Suc n) hs) = ?c" "concat (drop (Suc n) hs) = []"
    using channel_handshake[of "new_channel True True" hs ok parse_json as_response rid] assms by (auto simp: new_channel_def send_request_def)
  have "?run (new_channel True True) hs = ?run (?run (new_channel True True) (take (Suc n) hs)) (drop (Suc n) hs)"
    by (metis foldl_append append_take_drop_id)
  also have "\<dots> = ?c" using n by (simp only:) (rule channel_nothing, simp_all add: new_channel_def send_request_def)
  finally have "?run (new_channel True True) (hs @ ds) = ?run ?c ds" by simp
  then show "ch_settled (?run (new_channel True True) (hs @ ds)) = Some (gr_body r)"
    using channel_frames[where c = ?c and ds = ds and l = "stringify j" and j = j and r = r and rid = rid] f assms(2,5,6)
    by (simp add: new_channel_def send_request_def)
qed

lemma guest_frames_roundtrip_witness:
  "decodeGuestFrames (\<lambda>l. if l = [123, 125] then Some () else None) ([123, 125, 10, 123, 125, 10, 91] :: octets) = Inr ([(), ()], [91])"
  using guest_frames_roundtrip[where vs = "[(), ()]" and fs = "[[123, 125, 10], [123, 125, 10]]" and t = "[91]"
      and stringify = "\<lambda>_. [123, 125]" and parse_json = "\<lambda>l. if l = [123, 125] then Some () else None"]
  by (simp add: line_feed_def encodeGuestFrame_def MAX_GUEST_FRAME_BYTES_def)

lemma guest_channel_delivers_witness:
  "ch_settled (foldl (\<lambda>c d. channel_data True (\<lambda>l. if l = [123, 125] then Some () else None)
       (\<lambda>_. Some \<lparr>gr_id = ''a'', gr_body = Inr ()\<rparr>) ''a'' d c) (new_channel True True) [[79, 75], [32, 53, 10], [123], [125, 10]])
     = Some (Inr ())"
proof -
  have "full ok_rx (ascii7 [79, 75, 32, 53])" by code_simp
  then show ?thesis
    using guest_channel_delivers[where stringify = "\<lambda>_. [123, 125]" and j = "()" and f = "[123, 125, 10]"
        and parse_json = "\<lambda>l. if l = [123, 125] then Some () else None" and as_response = "\<lambda>_. Some \<lparr>gr_id = ''a'', gr_body = Inr ()\<rparr>"
        and r = "\<lparr>gr_id = ''a'', gr_body = Inr ()\<rparr>" and rid = "''a''" and ok = "[79, 75, 32, 53]"
        and hs = "[[79, 75], [32, 53, 10]]" and ds = "[[123], [125, 10]]"]
    by (simp add: line_feed_def encodeGuestFrame_def MAX_GUEST_FRAME_BYTES_def)
qed

section \<open>Only a matching response settles a request\<close>

definition inside :: "octets \<Rightarrow> octets \<Rightarrow> bool" where
  "inside l bs \<longleftrightarrow> (\<exists>p q. bs = p @ l @ q)"

lemma inside_append: "inside l bs \<Longrightarrow> inside l (p @ bs @ q)"
  unfolding inside_def by (metis append.assoc)

lemma inside_self [simp]: "inside l l"
  unfolding inside_def by (metis append_Nil append_Nil2)

lemma frames_loop_inside:
  "frames_loop pj buf acc = Inr (fs, t) \<Longrightarrow>
     (\<exists>p. buf = p @ t) \<and> (\<forall>j \<in> set fs. j \<in> set acc \<or> (\<exists>l. inside l buf \<and> pj l = Some j))"
proof (induction pj buf acc rule: frames_loop.induct)
  case (1 pj buf acc)
  let ?line = "takeWhile (\<lambda>b. b \<noteq> line_feed) buf"
  show ?case
  proof (cases "dropWhile (\<lambda>b. b \<noteq> line_feed) buf")
    case Nil
    then have "fs = acc" "t = buf" using 1(3) by (subst (asm) frames_loop.simps, simp split: if_splits)+
    then show ?thesis by simp
  next
    case (Cons x rest)
    have buf: "buf = ?line @ x # rest" using Cons by (metis takeWhile_dropWhile_id)
    show ?thesis
    proof (cases "?line = []")
      case True
      then have "frames_loop pj rest acc = Inr (fs, t)" using 1(3) Cons by (subst (asm) frames_loop.simps) simp
      then have r: "\<exists>p. rest = p @ t" "\<forall>j \<in> set fs. j \<in> set acc \<or> (\<exists>l. inside l rest \<and> pj l = Some j)"
        using 1(1)[OF Cons refl True] by blast+
      have b: "buf = [x] @ rest @ []" using buf True by simp
      show ?thesis using r b inside_append[of _ rest "[x]" "[]"] by (metis append.assoc append_Nil2)
    next
      case False
      obtain v where v: "pj ?line = Some v" "\<not> MAX_GUEST_FRAME_BYTES < length ?line + 1" "frames_loop pj rest (acc @ [v]) = Inr (fs, t)"
        using 1(3) Cons False by (subst (asm) frames_loop.simps) (auto simp: Let_def split: if_splits option.splits)
      have r: "\<exists>p. rest = p @ t" "\<forall>j \<in> set fs. j \<in> set (acc @ [v]) \<or> (\<exists>l. inside l rest \<and> pj l = Some j)"
        using 1(2)[OF Cons refl False v(2,1,3)] by blast+
      have b: "buf = (?line @ [x]) @ rest @ []" using buf by simp
      have "inside ?line buf" unfolding inside_def using buf by (metis append_Nil)
      then have "\<forall>j \<in> set fs. j \<in> set acc \<or> (\<exists>l. inside l buf \<and> pj l = Some j)"
        using r(2) v(1) b inside_append[of _ rest "?line @ [x]" "[]"] by (metis Un_iff empty_iff empty_set set_ConsD set_append)
      then show ?thesis using r(1) b by (metis append.assoc append_Nil2)
    qed
  qed
qed

text \<open>What the invariant of a channel says once the bytes \<open>rcv\<close> have arrived.\<close>

definition answered_by ::
  "(octets \<Rightarrow> 'j option) \<Rightarrow> ('j \<Rightarrow> 'r guest_response option) \<Rightarrow> string \<Rightarrow> octets \<Rightarrow> (guest_code + 'r) \<Rightarrow> bool" where
  "answered_by pj ar rid rcv b \<longleftrightarrow>
     (\<exists>l j r. inside l rcv \<and> pj l = Some j \<and> ar j = Some r \<and> gr_id r = rid \<and> b = gr_body r)"

definition channel_inv ::
  "(octets \<Rightarrow> 'j option) \<Rightarrow> ('j \<Rightarrow> 'r guest_response option) \<Rightarrow> string \<Rightarrow> octets \<Rightarrow> 'r channel \<Rightarrow> bool" where
  "channel_inv pj ar rid rcv c \<longleftrightarrow>
     (ch_settled c = None \<longrightarrow> (\<exists>p. rcv = p @ ch_frameBuffer c)
        \<and> (ch_handshake c \<longrightarrow> ch_frameBuffer c = [] \<and> (\<exists>p. rcv = p @ ch_handshakeBuffer c)))
     \<and> (\<forall>b. ch_settled c = Some b \<longrightarrow> b = Inl Transport \<or> answered_by pj ar rid rcv b)"

lemma answered_by_more: "answered_by pj ar rid rcv b \<Longrightarrow> answered_by pj ar rid (rcv @ d) b"
  unfolding answered_by_def using inside_append[of _ rcv "[]" d] by (metis append_Nil)

lemma consume_settled:
  assumes "ch_settled c = None" "rcv = p @ ch_frameBuffer c"
  shows "(\<exists>p'. rcv @ d = p' @ ch_frameBuffer (consumeFrames pj ar rid d c))
     \<and> (\<forall>b. ch_settled (consumeFrames pj ar rid d c) = Some b \<longrightarrow> b = Inl Transport \<or> answered_by pj ar rid (rcv @ d) b)
     \<and> ch_handshakeBuffer (consumeFrames pj ar rid d c) = ch_handshakeBuffer c
     \<and> ch_handshake (consumeFrames pj ar rid d c) = ch_handshake c"
proof (cases "decodeGuestFrames pj (ch_frameBuffer c @ d)")
  case (Inl e)
  then show ?thesis using assms by (simp add: consumeFrames_def finish_def Let_def)
next
  case (Inr x)
  then obtain fs t where ft: "decodeGuestFrames pj (ch_frameBuffer c @ d) = Inr (fs, t)" by (cases x) auto
  then have l: "frames_loop pj (ch_frameBuffer c @ d) [] = Inr (fs, t)" by (simp add: decodeGuestFrames_def split: if_splits)
  have s: "\<exists>q. ch_frameBuffer c @ d = q @ t" and m: "\<forall>j \<in> set fs. \<exists>l. inside l (ch_frameBuffer c @ d) \<and> pj l = Some j"
    using frames_loop_inside[OF l] by auto
  have s': "\<exists>q. rcv @ d = q @ t" using s assms(2) by (metis append.assoc)
  have m': "\<forall>j \<in> set fs. \<exists>l. inside l (rcv @ d) \<and> pj l = Some j"
    using m assms(2) inside_append[of _ "ch_frameBuffer c @ d" p "[]"] by (metis append.assoc append_Nil2)
  then have a: "\<forall>j \<in> set fs. \<forall>r. ar j = Some r \<longrightarrow> gr_id r = rid \<longrightarrow> answered_by pj ar rid (rcv @ d) (gr_body r)"
    unfolding answered_by_def by blast
  show ?thesis
    using ft assms s' a by (auto simp: consumeFrames_def finish_def Let_def split: list.splits option.splits)
qed

lemma consume_keeps: "ch_settled c = Some b \<Longrightarrow> ch_settled (consumeFrames pj ar rid d c) = Some b"
  by (auto simp: consumeFrames_def finish_def Let_def split: sum.splits list.splits option.splits)

lemma handshake_cases:
  assumes "ch_settled c = None" "ch_handshake c"
  shows "ch_settled (channel_data sd pj ar rid d c) = Some (Inl Transport)
    \<or> channel_data sd pj ar rid d c = c\<lparr>ch_handshakeBuffer := ch_handshakeBuffer c @ d\<rparr>
    \<or> (\<exists>p x rem. ch_handshakeBuffer c @ d = p @ x # rem
         \<and> channel_data sd pj ar rid d c =
             (let c2 = c\<lparr>ch_handshakeBuffer := [], ch_handshake := False, ch_sent := True\<rparr>
              in if rem \<noteq> [] then consumeFrames pj ar rid rem c2 else c2))"
proof (cases "dropWhile (\<lambda>b. b \<noteq> line_feed) (ch_handshakeBuffer c @ d)")
  case Nil
  then show ?thesis using assms by (simp only: channel_data_def Let_def list.case) (simp add: finish_def)
next
  case (Cons x rem)
  then have "ch_handshakeBuffer c @ d = takeWhile (\<lambda>b. b \<noteq> line_feed) (ch_handshakeBuffer c @ d) @ x # rem"
    by (metis takeWhile_dropWhile_id)
  then obtain p where e: "ch_handshakeBuffer c @ d = p @ x # rem" by blast
  let ?o = "let c2 = c\<lparr>ch_handshakeBuffer := [], ch_handshake := False, ch_sent := True\<rparr>
              in if rem \<noteq> [] then consumeFrames pj ar rid rem c2 else c2"
  have "ch_settled (channel_data sd pj ar rid d c) = Some (Inl Transport) \<or> channel_data sd pj ar rid d c = ?o"
    using assms Cons by (simp add: channel_data_def finish_def send_request_def consume_keeps Let_def)
  then show ?thesis using e by blast
qed

lemma channel_inv_data:
  assumes "channel_inv pj ar rid rcv c"
  shows "channel_inv pj ar rid (rcv @ d) (channel_data sd pj ar rid d c)"
proof (cases "ch_settled c")
  case (Some b)
  then show ?thesis using assms answered_by_more[of pj ar rid rcv b d] by (auto simp: channel_inv_def settled_data)
next
  case None
  then obtain p where p: "rcv = p @ ch_frameBuffer c"
    and h: "ch_handshake c \<longrightarrow> ch_frameBuffer c = [] \<and> (\<exists>p. rcv = p @ ch_handshakeBuffer c)"
    using assms None unfolding channel_inv_def by blast
  show ?thesis
  proof (cases "ch_handshake c")
    case False
    then have "channel_data sd pj ar rid d c = consumeFrames pj ar rid d c" using None by (simp add: channel_data_def)
    then show ?thesis using consume_settled[OF None p, of d pj ar rid] False by (auto simp: channel_inv_def)
  next
    case True
    then obtain q where q: "rcv = q @ ch_handshakeBuffer c" using h by blast
    from handshake_cases[OF None True, of sd pj ar rid d] show ?thesis
    proof (elim disjE exE conjE)
      assume "ch_settled (channel_data sd pj ar rid d c) = Some (Inl Transport)"
      then show ?thesis by (simp add: channel_inv_def)
    next
      assume "channel_data sd pj ar rid d c = c\<lparr>ch_handshakeBuffer := ch_handshakeBuffer c @ d\<rparr>"
      then show ?thesis using q h True None by (simp add: channel_inv_def)
    next
      fix u x rem
      let ?c2 = "c\<lparr>ch_handshakeBuffer := [], ch_handshake := False, ch_sent := True\<rparr>"
      assume u: "ch_handshakeBuffer c @ d = u @ x # rem"
        and e: "channel_data sd pj ar rid d c = (let c2 = ?c2 in if rem \<noteq> [] then consumeFrames pj ar rid rem c2 else c2)"
      have r: "rcv @ d = (q @ u @ [x]) @ rem" using q u by simp
      have s: "ch_settled ?c2 = None" "q @ u @ [x] = (q @ u @ [x]) @ ch_frameBuffer ?c2" using None True h by simp_all
      show ?thesis
      proof (cases "rem = []")
        case True
        then show ?thesis using e s by (simp add: channel_inv_def)
      next
        case False
        then show ?thesis using e r consume_settled[OF s, of rem pj ar rid] by (auto simp: channel_inv_def)
      qed
    qed
  qed
qed

lemma channel_inv_run:
  "channel_inv pj ar rid rcv c \<Longrightarrow> channel_inv pj ar rid (rcv @ concat ds) (foldl (\<lambda>c d. channel_data sd pj ar rid d c) c ds)"
proof (induction ds arbitrary: rcv c)
  case (Cons d ds)
  then show ?case using channel_inv_data[OF Cons.prems, of d] Cons.IH[of "rcv @ d"] by simp
qed simp

text \<open>C26. Whatever bytes a guest sends, in whatever chunks, a request settled with anything but a transport error
  was settled by a response inside those bytes that passes the response schema and carries the identifier of
  this request, with exactly its body.
\<close>
lemma guest_channel_matching:
  assumes "ch_settled (foldl (\<lambda>c d. channel_data sendable parse_json as_response rid d c) (new_channel sendable vsock) ds) = Some b"
    and "b \<noteq> Inl Transport"
  shows "\<exists>p l q j r. concat ds = p @ l @ q \<and> parse_json l = Some j \<and> as_response j = Some r \<and> gr_id r = rid \<and> b = gr_body r"
proof -
  have "channel_inv parse_json as_response rid [] (new_channel sendable vsock)"
    by (simp add: channel_inv_def new_channel_def send_request_def Let_def)
  then have "answered_by parse_json as_response rid (concat ds) b"
    using channel_inv_run[of parse_json as_response rid "[]" "new_channel sendable vsock" ds sendable] assms by (auto simp: channel_inv_def)
  then show ?thesis unfolding answered_by_def inside_def by blast
qed

lemma guest_channel_matching_witness:
  "\<exists>p l q j r. concat [[123], [125, 10 :: 8 word]] = p @ l @ q \<and> (if l = [123, 125] then Some () else None) = Some j
     \<and> Some \<lparr>gr_id = ''a'', gr_body = Inr ()\<rparr> = Some r \<and> gr_id r = ''a'' \<and> Inr () = gr_body r"
proof (rule guest_channel_matching[where vsock = False and sendable = True])
  have "dropWhile (\<lambda>b. b \<noteq> line_feed) [123, 125, 10] = [10]" "takeWhile (\<lambda>b. b \<noteq> line_feed) [123, 125, 10] = [123, 125]"
    by (simp_all add: line_feed_def)
  then show "ch_settled (foldl (\<lambda>c d. channel_data True (\<lambda>l. if l = [123, 125] then Some () else None)
       (\<lambda>_. Some \<lparr>gr_id = ''a'', gr_body = Inr ()\<rparr>) ''a'' d c) (new_channel True False) [[123], [125, 10]]) = Some (Inr ())"
    by (simp add: line_feed_def channel_data_def new_channel_def send_request_def consumeFrames_def decodeGuestFrames_def
        frames_loop.simps MAX_GUEST_FRAME_BYTES_def finish_def)
qed simp

end
