(* ===== verification/Jobs.thy ===== *)
theory Jobs
  imports GuestProtocol
begin

text \<open>
  \<open>src/jobs/model.ts\<close>, \<open>src/jobs/client.ts\<close> and the job form of \<open>src/web/workspace-contracts.ts\<close>: what a
  job is, which changes of state are legal, what the browser accepts, what the control plane accepts, and how
  the client turns a job into a request of the guest protocol and checks the answer.

  Parameters: \<open>is_uuid\<close> (the UUID check of zod), \<open>call\<close> (the transport to the guest) and \<open>as_status\<close>
  (the shape of \<open>JobStatus\<close>, read from a JSON value; the refinements are modelled).
\<close>

section \<open>The job model\<close>

definition MAX_JOB_TIMEOUT_MS :: int where "MAX_JOB_TIMEOUT_MS = 2 * 60 * 60000"

datatype job_state = Queued | Running | Succeeded | Failed | Cancelled | TimedOut

definition userEnvironmentNames :: "string list" where
  "userEnvironmentNames = [''CI'', ''DEBUG'', ''FORCE_COLOR'', ''LANG'', ''LC_ALL'', ''LOG_LEVEL'', ''NODE_ENV'', ''NO_COLOR'',
     ''PYTHONUNBUFFERED'', ''RUST_BACKTRACE'', ''RUST_LOG'', ''TERM'', ''TZ'']"

definition userEnvironmentPrefixes :: "string list" where
  "userEnvironmentPrefixes = [''APP_'', ''JOB_'', ''TEST_'']"

definition isAllowlistedJobEnvironmentName :: "string \<Rightarrow> bool" where
  "isAllowlistedJobEnvironmentName name \<longleftrightarrow>
     name \<in> set userEnvironmentNames \<or> (\<exists>prefix \<in> set userEnvironmentPrefixes. starts_with name prefix)"

definition environment_bytes :: "environment \<Rightarrow> nat" where
  "environment_bytes env = sum_list (map (\<lambda>(n, v). utf8_len n + utf8_len v) env)"

text \<open>A JavaScript record has every name once; the list holds its entries.\<close>

definition JobEnvironment :: "environment \<Rightarrow> bool" where
  "JobEnvironment env \<longleftrightarrow>
     (\<forall>(n, v) \<in> set env. full env_name_rx n \<and> length v \<le> 8192 \<and> CHR 0x00 \<notin> set v) \<and> length env \<le> 64
     \<and> (\<forall>(n, v) \<in> set env. isAllowlistedJobEnvironmentName n) \<and> environment_bytes env \<le> 32 * 1024"

definition RelativeJobPath :: "string \<Rightarrow> bool" where
  "RelativeJobPath path \<longleftrightarrow> 1 \<le> length path \<and> length path \<le> 1024 \<and>
     (if path = ''.'' then True
      else if CHR 0x00 \<in> set path \<or> CHR 0x5C \<in> set path \<or> starts_with path ''/'' \<or> ends_with path ''/'' then False
      else list_all (\<lambda>part. part \<noteq> [] \<and> part \<noteq> ''.'' \<and> part \<noteq> ''..'') (split_on slash path))"

record job_spec =
  js_argv :: "string list"
  js_cwd :: string
  js_environment :: environment
  js_timeoutMs :: int

definition argv_bytes :: "string list \<Rightarrow> nat" where
  "argv_bytes argv = sum_list (map utf8_len argv)"

definition StructuredJobSpec :: "job_spec \<Rightarrow> bool" where
  "StructuredJobSpec s \<longleftrightarrow>
     (\<forall>a \<in> set (js_argv s). 1 \<le> length a \<and> length a \<le> 4096 \<and> CHR 0x00 \<notin> set a)
     \<and> 1 \<le> length (js_argv s) \<and> length (js_argv s) \<le> 64 \<and> argv_bytes (js_argv s) \<le> 32 * 1024
     \<and> RelativeJobPath (js_cwd s) \<and> JobEnvironment (js_environment s) \<and> int_between 1000 MAX_JOB_TIMEOUT_MS (js_timeoutMs s)"

record job_log_chunk =
  jl_offset :: int
  jl_nextOffset :: int
  jl_endOffset :: int
  jl_truncatedBefore :: bool
  jl_eof :: bool
  jl_data :: string

definition JobLogChunk :: "job_log_chunk \<Rightarrow> bool" where
  "JobLogChunk c \<longleftrightarrow> int_between 0 max_safe_integer (jl_offset c) \<and> int_between 0 max_safe_integer (jl_nextOffset c)
     \<and> int_between 0 max_safe_integer (jl_endOffset c) \<and> jl_offset c \<le> jl_nextOffset c \<and> jl_nextOffset c \<le> jl_endOffset c
     \<and> (let decoded = base64_decode (jl_data c)
        in base64_encode decoded = jl_data c \<and> length decoded \<le> MAX_JOB_LOG_CHUNK_BYTES
           \<and> int (length decoded) = jl_nextOffset c - jl_offset c)"

record job_status =
  jt_jobId :: string
  jt_state :: job_state
  jt_createdAt :: int
  jt_startedAt :: "int option"
  jt_finishedAt :: "int option"
  jt_exitCode :: "int option"
  jt_signal :: "int option"
  jt_timeoutMs :: int
  jt_logs :: job_log_chunk

definition isTerminalJobState :: "job_state \<Rightarrow> bool" where
  "isTerminalJobState st \<longleftrightarrow> st = Succeeded \<or> st = Failed \<or> st = Cancelled \<or> st = TimedOut"

definition JobStatus :: "(string \<Rightarrow> bool) \<Rightarrow> job_status \<Rightarrow> bool" where
  "JobStatus is_uuid j \<longleftrightarrow> is_uuid (jt_jobId j) \<and> int_between 0 max_safe_integer (jt_createdAt j)
     \<and> list_all (int_between 0 max_safe_integer) (case jt_startedAt j of None \<Rightarrow> [] | Some t \<Rightarrow> [t])
     \<and> list_all (int_between 0 max_safe_integer) (case jt_finishedAt j of None \<Rightarrow> [] | Some t \<Rightarrow> [t])
     \<and> list_all is_safe_integer (case jt_exitCode j of None \<Rightarrow> [] | Some n \<Rightarrow> [n])
     \<and> list_all (int_between 1 max_safe_integer) (case jt_signal j of None \<Rightarrow> [] | Some n \<Rightarrow> [n])
     \<and> int_between 1000 MAX_JOB_TIMEOUT_MS (jt_timeoutMs j) \<and> JobLogChunk (jt_logs j)
     \<and> isTerminalJobState (jt_state j) = (jt_finishedAt j \<noteq> None)
     \<and> (jt_state j = Queued) = (jt_startedAt j = None)
     \<and> \<not> (jt_state j = Succeeded \<and> jt_exitCode j \<noteq> Some 0)"

text \<open>\<open>JobLogChunk.parse\<close> throws on a chunk that is not valid.\<close>

definition decodeJobLog :: "job_log_chunk \<Rightarrow> octets option" where
  "decodeJobLog c = (if JobLogChunk c then Some (base64_decode (jl_data c)) else None)"

fun transitions :: "job_state \<Rightarrow> job_state list" where
  "transitions Queued = [Running, Failed, Cancelled]"
| "transitions Running = [Succeeded, Failed, Cancelled, TimedOut]"
| "transitions Succeeded = []"
| "transitions Failed = []"
| "transitions Cancelled = []"
| "transitions TimedOut = []"

definition isValidJobTransition :: "job_state \<Rightarrow> job_state \<Rightarrow> bool" where
  "isValidJobTransition a b \<longleftrightarrow> a = b \<or> b \<in> set (transitions a)"

section \<open>The client of the job engine\<close>

datatype 'e jobs_error = SpecRejected | RequestRejected | CallFailed 'e | ReplyRejected

definition requestId :: "string \<Rightarrow> string" where
  "requestId uuid = ''job_'' @ filter (\<lambda>c. c \<noteq> CHR ''-'') uuid"

text \<open>Parse the request, call the guest with ten seconds, parse the reply.\<close>

definition jobs_call ::
  "(string \<Rightarrow> bool) \<Rightarrow> (guest_request \<Rightarrow> int \<Rightarrow> ('e, 'j) res) \<Rightarrow> ('j \<Rightarrow> job_status option) \<Rightarrow> guest_request
     \<Rightarrow> ('e jobs_error, job_status) res" where
  "jobs_call is_uuid call as_status request =
     (if \<not> GuestRequest is_uuid request then Inl RequestRejected
      else case call request 10000 of
        Inl e \<Rightarrow> Inl (CallFailed e)
      | Inr v \<Rightarrow> (case as_status v of
          None \<Rightarrow> Inl ReplyRejected
        | Some st \<Rightarrow> if JobStatus is_uuid st then Inr st else Inl ReplyRejected))"

definition start_request :: "string \<Rightarrow> string \<Rightarrow> job_spec \<Rightarrow> guest_request" where
  "start_request uuid jobId spec = \<lparr>gq_version = 1, gq_id = requestId uuid,
     gq_operation = JobStart jobId (js_argv spec) (js_cwd spec) (js_environment spec) (js_timeoutMs spec)\<rparr>"

definition jobs_start ::
  "(string \<Rightarrow> bool) \<Rightarrow> (guest_request \<Rightarrow> int \<Rightarrow> ('e, 'j) res) \<Rightarrow> ('j \<Rightarrow> job_status option) \<Rightarrow> string \<Rightarrow> job_spec \<Rightarrow> string
     \<Rightarrow> ('e jobs_error, job_status) res" where
  "jobs_start is_uuid call as_status uuid input jobId =
     (if \<not> StructuredJobSpec input then Inl SpecRejected
      else jobs_call is_uuid call as_status (start_request uuid jobId input))"

definition jobs_status ::
  "(string \<Rightarrow> bool) \<Rightarrow> (guest_request \<Rightarrow> int \<Rightarrow> ('e, 'j) res) \<Rightarrow> ('j \<Rightarrow> job_status option) \<Rightarrow> string \<Rightarrow> string \<Rightarrow> int \<Rightarrow> int
     \<Rightarrow> ('e jobs_error, job_status) res" where
  "jobs_status is_uuid call as_status uuid jobId logOffset maxBytes =
     jobs_call is_uuid call as_status
       \<lparr>gq_version = 1, gq_id = requestId uuid, gq_operation = JobStatusOf jobId logOffset maxBytes\<rparr>"

definition jobs_cancel ::
  "(string \<Rightarrow> bool) \<Rightarrow> (guest_request \<Rightarrow> int \<Rightarrow> ('e, 'j) res) \<Rightarrow> ('j \<Rightarrow> job_status option) \<Rightarrow> string \<Rightarrow> string
     \<Rightarrow> ('e jobs_error, job_status) res" where
  "jobs_cancel is_uuid call as_status uuid jobId =
     jobs_call is_uuid call as_status \<lparr>gq_version = 1, gq_id = requestId uuid, gq_operation = JobCancel jobId\<rparr>"

section \<open>The job form of the browser\<close>

text \<open>JSON values as \<open>JSON.parse\<close> returns them (no number is looked at here); \<open>parse\<close> is a parameter, \<open>None\<close> when it throws.\<close>

datatype json = JNull | JBool bool | JNum int | JStr string | JArr "json list" | JObj "(string \<times> json) list"

datatype form_error =
    NotJson | BadArguments | ArgumentsTooLarge | NotRelative | BadSegments | NotAllowlisted | Duplicated | BadValue | TooMuchEnvironment | BadTimeout

fun as_string :: "json \<Rightarrow> string option" where
  "as_string (JStr s) = Some s"
| "as_string _ = None"

definition parseStructuredArgv :: "(string \<Rightarrow> json option) \<Rightarrow> string \<Rightarrow> (form_error, string list) res" where
  "parseStructuredArgv parse source =
     (case parse source of
        None \<Rightarrow> Inl NotJson
      | Some (JArr items) \<Rightarrow>
          if items = [] \<or> 64 < length items
             \<or> (\<exists>i \<in> set items. case as_string i of None \<Rightarrow> True | Some s \<Rightarrow> s = [] \<or> CHR 0x00 \<in> set s)
          then Inl BadArguments
          else let argv = map (the o as_string) items
               in if (\<exists>a \<in> set argv. 4096 < length a) \<or> 32 * 1024 < argv_bytes argv then Inl ArgumentsTooLarge
                  else Inr argv
      | Some _ \<Rightarrow> Inl BadArguments)"

definition normalizeWorkspacePath :: "bool \<Rightarrow> string \<Rightarrow> (form_error, string) res" where
  "normalizeWorkspacePath allowRoot source =
     (let path = trim source
      in if allowRoot \<and> path = ''.'' then Inr path
         else if path = [] \<or> 4096 < length path \<or> starts_with path ''/'' \<or> ends_with path ''/''
                 \<or> CHR 0x5C \<in> set path \<or> CHR 0x00 \<in> set path then Inl NotRelative
         else if \<exists>part \<in> set (split_on slash path). part = [] \<or> part = ''.'' \<or> part = ''..'' then Inl BadSegments
         else Inr path)"

definition isAllowlistedEnvironmentName :: "string \<Rightarrow> bool" where
  "isAllowlistedEnvironmentName name \<longleftrightarrow> full env_name_rx name
     \<and> ((\<exists>allowed \<in> set userEnvironmentNames. allowed = name) \<or> (\<exists>prefix \<in> set userEnvironmentPrefixes. starts_with name prefix))"

text \<open>The loop over the rows: the record so far and the bytes counted.\<close>

fun environment_rows :: "(string \<times> string) list \<Rightarrow> environment \<Rightarrow> nat \<Rightarrow> (form_error, environment \<times> nat) res" where
  "environment_rows [] env bytes = Inr (env, bytes)"
| "environment_rows ((raw, v) # rows) env bytes =
     (let name = trim raw
      in if name = [] \<and> v = [] then environment_rows rows env bytes
         else if \<not> isAllowlistedEnvironmentName name then Inl NotAllowlisted
         else if name \<in> fst ` set env then Inl Duplicated
         else if CHR 0x00 \<in> set v \<or> 8192 < length v then Inl BadValue
         else environment_rows rows (env @ [(name, v)]) (bytes + utf8_len (name @ v)))"

definition buildJobEnvironment :: "(string \<times> string) list \<Rightarrow> (form_error, environment) res" where
  "buildJobEnvironment rows =
     rbind (environment_rows rows [] 0)
       (\<lambda>(env, bytes). if 64 < length env \<or> 32 * 1024 < bytes then Inl TooMuchEnvironment else Inr env)"

text \<open>\<open>Number(source)\<close> is the parameter \<open>to_number\<close>: \<open>None\<close> when it is not an integer.\<close>

definition parseTimeoutSeconds :: "(string \<Rightarrow> int option) \<Rightarrow> string \<Rightarrow> (form_error, int) res" where
  "parseTimeoutSeconds to_number source =
     (case to_number source of
        None \<Rightarrow> Inl BadTimeout
      | Some seconds \<Rightarrow> if seconds < 1 \<or> MAX_JOB_TIMEOUT_MS < seconds * 1000 then Inl BadTimeout else Inr (seconds * 1000))"

text \<open>\<open>src/web/main.ts\<close> builds the specification of a job from the four fields of the form.\<close>

definition job_form ::
  "(string \<Rightarrow> json option) \<Rightarrow> (string \<Rightarrow> int option) \<Rightarrow> string \<Rightarrow> string \<Rightarrow> (string \<times> string) list \<Rightarrow> string
     \<Rightarrow> (form_error, job_spec) res" where
  "job_form parse to_number argv cwd rows timeout =
     rbind (parseStructuredArgv parse argv) (\<lambda>a.
     rbind (normalizeWorkspacePath True cwd) (\<lambda>c.
     rbind (buildJobEnvironment rows) (\<lambda>e.
     rbind (parseTimeoutSeconds to_number timeout) (\<lambda>t.
       Inr \<lparr>js_argv = a, js_cwd = c, js_environment = e, js_timeoutMs = t\<rparr>))))"

section \<open>The validators of paths agree\<close>

lemma plain_segments:
  "list_all (\<lambda>part. part \<noteq> [] \<and> part \<noteq> ''.'' \<and> part \<noteq> ''..'') (split_on slash p) \<longleftrightarrow> (\<forall>s \<in> set (split_on slash p). plain s)"
proof -
  have "s \<in> set (split_on slash p) \<Longrightarrow> plain s \<longleftrightarrow> s \<noteq> [] \<and> s \<noteq> ''.'' \<and> s \<noteq> ''..''" for s
    using split_on_pieces[of s slash p] by (simp only: plain_def simp_thms)
  then show ?thesis unfolding list_all_iff by blast
qed

lemma plain_segments_ends:
  assumes "\<forall>s \<in> set (split_on slash p). plain s"
  shows "\<not> starts_with p ''/''" "\<not> ends_with p ''/''" "p \<noteq> []"
proof -
  have nil: "[] \<notin> set (split_on slash p)" using assms by (auto simp: plain_def)
  show "\<not> starts_with p ''/''"
  proof
    assume "starts_with p ''/''"
    then obtain t where "p = slash # t" by (auto simp: starts_slash)
    then show False using nil by simp
  qed
  show "\<not> ends_with p ''/''"
  proof
    assume "ends_with p ''/''"
    then obtain t where "p = t @ slash # []" by (auto simp: ends_with_iff)
    then show False using nil by (simp add: split_on_append_sep)
  qed
  show "p \<noteq> []" using nil by auto
qed

lemma RelativeJobPath_iff:
  "RelativeJobPath p \<longleftrightarrow> p = ''.'' \<or> length p \<le> 1024 \<and> CHR 0x00 \<notin> set p \<and> CHR 0x5C \<notin> set p \<and> (\<forall>s \<in> set (split_on slash p). plain s)"
proof (cases "p = ''.''")
  case True
  then show ?thesis by (simp add: RelativeJobPath_def)
next
  case False
  show ?thesis
    unfolding RelativeJobPath_def plain_segments
    using False plain_segments_ends[of p] by (cases p) (auto simp del: split_on.simps)
qed

lemma RelativePath_iff:
  "RelativePath p \<longleftrightarrow> length p \<le> 1024 \<and> CHR 0x00 \<notin> set p \<and> CHR 0x5C \<notin> set p \<and> (\<forall>s \<in> set (split_on slash p). plain s)"
  unfolding RelativePath_def isSafeWorkspacePath_iff
  using plain_segments_ends(3)[of p] by (cases p) (auto simp del: split_on.simps)

text \<open>The working directory of a job is checked twice, by two routines written differently: the control plane
  cuts the path at its slashes and refuses empty, \<open>.\<close> and \<open>..\<close> segments, the guest protocol compares the path
  with its POSIX normal form. They accept exactly the same directories: \<open>.\<close>, and the relative paths of at most
  1024 characters without NUL and backslash whose segments are all plain names.
\<close>
lemma job_directory_validators_agree:
  "RelativeJobPath p = WorkspaceDirectory p
   \<and> RelativeJobPath p = (p = ''.'' \<or> length p \<le> 1024 \<and> CHR 0x00 \<notin> set p \<and> CHR 0x5C \<notin> set p
        \<and> list_all (\<lambda>part. part \<notin> {[], ''.'', ''..''}) (split_on slash p))"
  unfolding WorkspaceDirectory_def RelativeJobPath_iff RelativePath_iff plain_segments[symmetric] by simp

section \<open>Requests\<close>

lemma JobEnvironment_guest: "JobEnvironment e \<Longrightarrow> Environment e"
  unfolding JobEnvironment_def Environment_def by blast

lemma requestId_ok:
  assumes "length uuid \<le> 60" "\<forall>c \<in> set uuid. is_hex c \<or> c = CHR ''-''"
  shows "full request_id_rx (requestId uuid)"
proof -
  have "length (filter (\<lambda>c. c \<noteq> CHR ''-'') uuid) \<le> 60" using assms(1) length_filter_le le_trans by blast
  moreover have "is_id_char c" if "is_hex c" for c
    using that by (auto simp: is_id_char_def char_class_defs)
  moreover have "\<forall>c \<in> set ''job_''. is_id_char c" by code_simp
  ultimately show ?thesis
    using assms(2) by (auto simp: full_iff request_id_rx_def requestId_def in_lang_Rep_Cls simp del: lang.simps)
qed

text \<open>A job that the control plane accepts is never refused on the way to the guest: for every valid
  specification and job identifier the request passes the schema of the guest protocol, so \<open>start\<close> calls the
  guest, and what it returns is decided by the reply alone. What is used of \<open>randomUUID\<close>: at most 60 characters,
  hexadecimal digits and dashes.
\<close>
lemma jobs_start_sends:
  assumes "StructuredJobSpec spec" "is_uuid jobId"
    and "length uuid \<le> 60" "\<forall>c \<in> set uuid. is_hex c \<or> c = CHR ''-''"
  shows "GuestRequest is_uuid (start_request uuid jobId spec)
    \<and> jobs_start is_uuid call as_status uuid spec jobId =
        (case call (start_request uuid jobId spec) 10000 of
           Inl e \<Rightarrow> Inl (CallFailed e)
         | Inr v \<Rightarrow> (case as_status v of
             None \<Rightarrow> Inl ReplyRejected
           | Some st \<Rightarrow> if JobStatus is_uuid st then Inr st else Inl ReplyRejected))"
proof -
  have "WorkspaceDirectory (js_cwd spec)" "Environment (js_environment spec)"
    using assms(1) JobEnvironment_guest job_directory_validators_agree by (auto simp: StructuredJobSpec_def)
  then have "GuestRequest is_uuid (start_request uuid jobId spec)"
    using assms requestId_ok[OF assms(3,4)]
    by (simp add: GuestRequest_def start_request_def StructuredJobSpec_def MAX_JOB_TIMEOUT_MS_def)
  then show ?thesis using assms(1) by (simp add: jobs_start_def jobs_call_def)
qed

lemma jobs_start_sends_witness:
  "jobs_start (\<lambda>_. True) (\<lambda>_ _. Inl ()) (\<lambda>_ :: unit. None) ''0f'' \<lparr>js_argv = [''ls''], js_cwd = ''.'', js_environment = [], js_timeoutMs = 1000\<rparr> ''j''
     = Inl (CallFailed ())"
proof -
  have "StructuredJobSpec \<lparr>js_argv = [''ls''], js_cwd = ''.'', js_environment = [], js_timeoutMs = 1000\<rparr>" by code_simp
  moreover have "\<forall>c \<in> set ''0f''. is_hex c \<or> c = CHR ''-''" by code_simp
  ultimately show ?thesis
    using jobs_start_sends[of "\<lparr>js_argv = [''ls''], js_cwd = ''.'', js_environment = [], js_timeoutMs = 1000\<rparr>" "\<lambda>_. True" "''j''" "''0f''" "\<lambda>_ _. Inl ()" "\<lambda>_ :: unit. None"]
    by simp
qed

section \<open>What the browser sends is what the control plane accepts\<close>

lemma parseStructuredArgv_Inr:
  assumes "parseStructuredArgv parse src = Inr argv"
  shows "(\<forall>a \<in> set argv. 1 \<le> length a \<and> length a \<le> 4096 \<and> CHR 0x00 \<notin> set a)
    \<and> 1 \<le> length argv \<and> length argv \<le> 64 \<and> argv_bytes argv \<le> 32 * 1024"
proof -
  obtain items where i: "parse src = Some (JArr items)"
    using assms by (auto simp: parseStructuredArgv_def split: option.splits json.splits)
  have bad: "items \<noteq> []" "length items \<le> 64"
    "\<not> (\<exists>i \<in> set items. case as_string i of None \<Rightarrow> True | Some s \<Rightarrow> s = [] \<or> CHR 0x00 \<in> set s)"
    and a: "argv = map (the o as_string) items" and big: "\<not> (\<exists>a \<in> set argv. 4096 < length a)" "argv_bytes argv \<le> 32 * 1024"
    using assms i by (auto simp: parseStructuredArgv_def Let_def split: if_splits)
  have "a \<noteq> [] \<and> CHR 0x00 \<notin> set a" if "a \<in> set argv" for a
  proof -
    obtain i where "i \<in> set items" "a = the (as_string i)" using \<open>a \<in> set argv\<close> a by auto
    then show ?thesis using bad(3) by (cases "as_string i") auto
  qed
  moreover have "1 \<le> length argv" using bad(1) a by (cases items) auto
  ultimately show ?thesis using bad(2) a big
    by (auto simp: not_less Suc_le_eq)
qed

lemma normalizeWorkspacePath_Inr:
  "normalizeWorkspacePath r src = Inr p \<longleftrightarrow> p = trim src \<and>
     (r \<and> p = ''.'' \<or> length p \<le> 4096 \<and> CHR 0x00 \<notin> set p \<and> CHR 0x5C \<notin> set p \<and> (\<forall>s \<in> set (split_on slash p). plain s))"
proof -
  have segs: "(\<forall>s \<in> set (split_on slash q). plain s) \<longleftrightarrow>
      \<not> (\<exists>part \<in> set (split_on slash q). part = [] \<or> part = ''.'' \<or> part = ''..'')" for q
    using plain_segments[of q] by (auto simp: list_all_iff)
  have dot: "\<not> (\<forall>s \<in> set (split_on slash ''.''). plain s)" by (simp add: plain_def)
  show ?thesis
    using plain_segments_ends[of "trim src"] dot
    unfolding normalizeWorkspacePath_def Let_def segs by (auto simp: not_less)
qed

lemma environment_rows_Inr:
  assumes "environment_rows rows env bytes = Inr (env', bytes')"
    and "\<forall>(n, v) \<in> set env. full env_name_rx n \<and> length v \<le> 8192 \<and> CHR 0x00 \<notin> set v \<and> isAllowlistedJobEnvironmentName n"
    and "distinct (map fst env)" "bytes = environment_bytes env"
  shows "(\<forall>(n, v) \<in> set env'. full env_name_rx n \<and> length v \<le> 8192 \<and> CHR 0x00 \<notin> set v \<and> isAllowlistedJobEnvironmentName n)
    \<and> distinct (map fst env') \<and> bytes' = environment_bytes env'"
  using assms
proof (induction rows env bytes rule: environment_rows.induct)
  case (2 raw v rows env bytes)
  show ?case
  proof (cases "trim raw = [] \<and> v = []")
    case True
    then show ?thesis using 2(1)[OF refl True] 2(3-6) by simp
  next
    case False
    have ok: "isAllowlistedEnvironmentName (trim raw)" "trim raw \<notin> fst ` set env" "\<not> (CHR 0x00 \<in> set v \<or> 8192 < length v)"
      and r: "environment_rows rows (env @ [(trim raw, v)]) (bytes + utf8_len (trim raw @ v)) = Inr (env', bytes')"
      using 2(3) False by (simp_all add: Let_def split: if_splits)
    have a: "full env_name_rx (trim raw)" "isAllowlistedJobEnvironmentName (trim raw)"
      using ok(1) by (auto simp: isAllowlistedEnvironmentName_def isAllowlistedJobEnvironmentName_def)
    have n: "\<not> \<not> isAllowlistedEnvironmentName (trim raw)" using ok(1) by simp
    show ?thesis
      using 2(4-6) a ok by (intro 2(2)[OF refl False n ok(2,3) r]) (auto simp: environment_bytes_def)
  qed
qed simp

lemma buildJobEnvironment_Inr:
  assumes "buildJobEnvironment rows = Inr env"
  shows "JobEnvironment env \<and> distinct (map fst env)"
proof -
  obtain bytes where "environment_rows rows [] 0 = Inr (env, bytes)" "length env \<le> 64" "bytes \<le> 32 * 1024"
    using assms by (auto simp: buildJobEnvironment_def res_simps split: if_splits)
  then show ?thesis
    using environment_rows_Inr[of rows "[]" 0 env bytes] by (auto simp: JobEnvironment_def environment_bytes_def)
qed

lemma parseTimeoutSeconds_Inr: "parseTimeoutSeconds to_number src = Inr t \<Longrightarrow> int_between 1000 MAX_JOB_TIMEOUT_MS t"
  by (auto simp: parseTimeoutSeconds_def int_between_def is_safe_integer_def max_safe_integer_def MAX_JOB_TIMEOUT_MS_def
      split: option.splits if_splits)

text \<open>The job form of the browser and the schema of the control plane agree: a specification that the form
  accepts is a valid \<open>StructuredJobSpec\<close> exactly when its directory has at most 1024 characters, so a directory of
  1025 to 4096 characters is the only input the form lets through and the server refuses.
\<close>
lemma job_form_accepted:
  assumes "job_form parse to_number argv cwd rows timeout = Inr spec"
  shows "StructuredJobSpec spec = (length (js_cwd spec) \<le> 1024)"
proof -
  have p: "parseStructuredArgv parse argv = Inr (js_argv spec)" "normalizeWorkspacePath True cwd = Inr (js_cwd spec)"
    "buildJobEnvironment rows = Inr (js_environment spec)" "parseTimeoutSeconds to_number timeout = Inr (js_timeoutMs spec)"
    using assms by (auto simp: job_form_def res_simps)
  have "RelativeJobPath (js_cwd spec) \<longleftrightarrow> length (js_cwd spec) \<le> 1024"
    using p(2) unfolding normalizeWorkspacePath_Inr RelativeJobPath_iff by auto
  then show ?thesis
    using parseStructuredArgv_Inr[OF p(1)] buildJobEnvironment_Inr[OF p(3)] parseTimeoutSeconds_Inr[OF p(4)]
    by (simp add: StructuredJobSpec_def)
qed

lemma job_form_accepted_witness:
  "StructuredJobSpec \<lparr>js_argv = [''ls''], js_cwd = ''a/b'', js_environment = [(''CI'', ''1'')], js_timeoutMs = 60000\<rparr>"
proof -
  have "job_form (\<lambda>_. Some (JArr [JStr ''ls''])) (\<lambda>_. Some 60) ''x'' '' a/b'' [('' CI '', ''1''), ([], [])] ''60''
     = Inr \<lparr>js_argv = [''ls''], js_cwd = ''a/b'', js_environment = [(''CI'', ''1'')], js_timeoutMs = 60000\<rparr>" by code_simp
  then show ?thesis using job_form_accepted[of "\<lambda>_. Some (JArr [JStr ''ls''])" "\<lambda>_. Some 60"] by fastforce
qed

text \<open>The directory of 1025 characters that the form accepts and the control plane refuses.\<close>

lemma job_form_long_directory:
  "normalizeWorkspacePath True (replicate 1025 CHR ''a'') = Inr (replicate 1025 CHR ''a'')
   \<and> \<not> RelativeJobPath (replicate 1025 CHR ''a'')"
proof -
  let ?d = "replicate 1025 CHR ''a''"
  have s: "split_on slash ?d = [?d]" by (rule split_on_absent) simp
  have t: "trim ?d = ?d" by (rule trim_id) (simp_all add: js_space_def code_def)
  have l: "length ?d = 1025" by simp
  then have "?d \<noteq> ''.''" "?d \<noteq> ''..''" "?d \<noteq> []" by fastforce+
  then have "plain ?d" by (simp add: plain_def)
  then show ?thesis
    unfolding normalizeWorkspacePath_Inr RelativeJobPath_iff s t using l \<open>?d \<noteq> ''.''\<close> by (simp del: replicate.simps)
qed

end
