(* ===== verification/FileTree.thy ===== *)
theory FileTree
  imports Encoding PosixPath "HOL-Library.AList"
begin

text \<open>
  A directory tree, as the file operations of the host and of the guest see it: the entries below a root, by
  their path from it. The kernel's view is \<open>walk\<close>: every directory component is looked up in turn, and a
  symbolic link in one of them would be followed, out of the tree for all the caller knows; the model stops
  there, so that not following links is something to prove.
\<close>

type_synonym path = "string list"

datatype node = File octets | Dir | Link | Special

type_synonym tree = "(path \<times> node) list"

datatype errno = ENOENT | ENOTDIR | ELOOP | EISDIR | EEXIST

datatype walk_error = Errno errno | Followed

fun walk :: "tree \<Rightarrow> path \<Rightarrow> path \<Rightarrow> (walk_error, node) res" where
  "walk t pre [] = (case map_of t pre of None \<Rightarrow> Inl (Errno ENOENT) | Some n \<Rightarrow> Inr n)"
| "walk t pre (s # rest) =
     (case map_of t pre of
        None \<Rightarrow> Inl (Errno ENOENT)
      | Some Dir \<Rightarrow> walk t (pre @ [s]) rest
      | Some Link \<Rightarrow> Inl Followed
      | Some _ \<Rightarrow> Inl (Errno ENOTDIR))"

definition children :: "tree \<Rightarrow> path \<Rightarrow> (path \<times> node) list" where
  "children t d = filter (\<lambda>(p, n). p \<noteq> [] \<and> butlast p = d) t"

definition wf_tree :: "tree \<Rightarrow> bool" where
  "wf_tree t \<longleftrightarrow> distinct (map fst t) \<and> list_all (\<lambda>(p, n). p = [] \<or> map_of t (butlast p) = Some Dir) t"

fun node_size :: "node \<Rightarrow> nat" where
  "node_size (File b) = length b"
| "node_size _ = 0"

definition under :: "path \<Rightarrow> path \<Rightarrow> bool" where
  "under d p \<longleftrightarrow> length d < length p \<and> take (length d) p = d"

text \<open>The bytes of the files below a directory.\<close>

definition tree_bytes :: "tree \<Rightarrow> path \<Rightarrow> nat" where
  "tree_bytes t d = sum_list (map (\<lambda>(p, n). node_size n) (filter (\<lambda>(p, n). under d p) t))"

section \<open>Lookup and update\<close>

lemma wf_treeD:
  assumes "wf_tree t" "map_of t p = Some n" "p \<noteq> []"
  shows "map_of t (butlast p) = Some Dir"
  using assms map_of_SomeD[OF assms(2)] by (auto simp: wf_tree_def list_all_iff)

lemma wf_prefix_dir:
  assumes "wf_tree t" "map_of t p = Some n" "k < length p"
  shows "map_of t (take k p) = Some Dir"
  using assms(2,3)
proof (induction p arbitrary: n rule: rev_induct)
  case (snoc s p)
  have d: "map_of t p = Some Dir" using wf_treeD[OF assms(1) snoc.prems(1)] by simp
  show ?case
  proof (cases "k = length p")
    case True
    then show ?thesis using d by simp
  next
    case False
    then show ?thesis using snoc.IH[OF d] snoc.prems(2) by simp
  qed
qed simp

lemma walk_lookup:
  "wf_tree t \<Longrightarrow> walk t pre p = Inr n \<longleftrightarrow> map_of t (pre @ p) = Some n"
proof (induction t pre p rule: walk.induct)
  case (2 t pre s rest)
  show ?case
  proof (cases "map_of t (pre @ s # rest) = Some n")
    case True
    then have "map_of t (take (length pre) (pre @ s # rest)) = Some Dir"
      by (rule wf_prefix_dir[OF 2(2)]) simp
    then show ?thesis using 2 by simp
  next
    case False
    then show ?thesis using 2 by (auto split: option.splits node.splits)
  qed
qed (auto split: option.splits)

lemma walk_Followed: "walk t pre p = Inl Followed \<Longrightarrow> \<exists>k < length p. map_of t (pre @ take k p) = Some Link"
proof (induction t pre p rule: walk.induct)
  case (2 t pre s rest)
  show ?case
  proof (cases "map_of t pre = Some Link")
    case True
    then show ?thesis by (intro exI[of _ 0]) simp
  next
    case False
    then have d: "map_of t pre = Some Dir" "walk t (pre @ [s]) rest = Inl Followed"
      using 2(2) by (auto split: option.splits node.splits)
    obtain k where "k < length rest" "map_of t ((pre @ [s]) @ take k rest) = Some Link"
      using 2(1)[OF d(1) _ d(2)] by auto
    then show ?thesis by (intro exI[of _ "Suc k"]) simp
  qed
qed (simp split: option.splits)

lemma wf_update:
  assumes "wf_tree t" "p \<noteq> []" "map_of t (butlast p) = Some Dir" "map_of t p = Some Dir \<Longrightarrow> n = Dir"
  shows "wf_tree (AList.update p n t)"
proof -
  have "map_of (AList.update p n t) (butlast q) = Some Dir" if "(q, m) \<in> set (AList.update p n t)" "q \<noteq> []" for q m
  proof -
    have "map_of t q \<noteq> None \<or> q = p"
      using that(1) by (metis (no_types, lifting) Some_eq_map_of_iff assms(1) distinct_update fun_upd_apply option.distinct(1) update_conv' wf_tree_def)
    then have "map_of t (butlast q) = Some Dir" using wf_treeD[OF assms(1)] that(2) assms(3) by fastforce
    then show ?thesis using assms(4) by (auto simp: update_conv')
  qed
  moreover have "distinct (map fst (AList.update p n t))" using assms(1) by (simp add: distinct_update wf_tree_def)
  ultimately show ?thesis by (auto simp: wf_tree_def list_all_iff)
qed

lemma wf_delete:
  assumes "wf_tree t" "map_of t p \<noteq> Some Dir"
  shows "wf_tree (AList.delete p t)"
proof -
  have "map_of (AList.delete p t) (butlast q) = Some Dir" if "(q, m) \<in> set (AList.delete p t)" "q \<noteq> []" for q m
  proof -
    have "(q, m) \<in> set t" using that(1) by (auto simp: AList.delete_eq)
    then have "map_of t q = Some m" using assms(1) by (simp add: wf_tree_def)
    then have "map_of t (butlast q) = Some Dir" using wf_treeD[OF assms(1)] that(2) by blast
    then show ?thesis using assms(2) by (auto simp: delete_conv')
  qed
  then show ?thesis using assms(1) by (auto simp: wf_tree_def list_all_iff distinct_delete)
qed

section \<open>Sizes\<close>

lemma tree_bytes_sum:
  assumes "distinct (map fst t)"
  shows "tree_bytes t d = (\<Sum>x \<in> {x \<in> set t. under d (fst x)}. node_size (snd x))"
proof -
  have "distinct (filter (\<lambda>(p, n). under d p) t)" using assms by (simp add: distinct_map)
  then have "tree_bytes t d = (\<Sum>x \<in> set (filter (\<lambda>(p, n). under d p) t). node_size (snd x))"
    unfolding tree_bytes_def by (subst sum_list_distinct_conv_sum_set) (simp_all add: case_prod_unfold)
  also have "set (filter (\<lambda>(p, n). under d p) t) = {x \<in> set t. under d (fst x)}" by auto
  finally show ?thesis .
qed

lemma tree_bytes_Nil_update:
  assumes "p \<noteq> []"
  shows "tree_bytes (AList.update p n t) [] + (case map_of t p of None \<Rightarrow> 0 | Some m \<Rightarrow> node_size m)
    = tree_bytes t [] + node_size n"
  using assms by (induction t) (auto simp: tree_bytes_def under_def)

lemma tree_bytes_Nil_delete:
  assumes "p \<noteq> []" "distinct (map fst t)"
  shows "tree_bytes (AList.delete p t) [] + (case map_of t p of None \<Rightarrow> 0 | Some m \<Rightarrow> node_size m) = tree_bytes t []"
  using assms
proof (induction t)
  case (Cons x t)
  obtain q m where x: "x = (q, m)" by (cases x)
  show ?case
  proof (cases "q = p")
    case True
    then have "map_of t p = None" using Cons.prems x by (auto simp: map_of_eq_None_iff image_iff)
    then show ?thesis using Cons True x by (auto simp: tree_bytes_def under_def)
  next
    case False
    then show ?thesis using Cons x by (auto simp: tree_bytes_def under_def)
  qed
qed (simp add: tree_bytes_def)

section \<open>Making directories\<close>

text \<open>Making parents only adds directories.\<close>

definition grown :: "tree \<Rightarrow> tree \<Rightarrow> bool" where
  "grown t t' \<longleftrightarrow> (\<forall>p. map_of t' p = map_of t p \<or> map_of t p = None \<and> map_of t' p = Some Dir)
     \<and> (wf_tree t \<longrightarrow> wf_tree t') \<and> tree_bytes t' [] = tree_bytes t []"

lemma grown_refl [simp]: "grown t t"
  by (simp add: grown_def)

lemma grown_trans: "grown t u \<Longrightarrow> grown u v \<Longrightarrow> grown t v"
  unfolding grown_def by (metis option.distinct(1) option.inject)

lemma grown_mkdir:
  assumes "map_of t (P @ [s]) = None" "map_of t P = Some Dir"
  shows "grown t (AList.update (P @ [s]) Dir t)"
proof -
  have "tree_bytes (AList.update (P @ [s]) Dir t) [] = tree_bytes t []"
    using tree_bytes_Nil_update[of "P @ [s]" Dir t] assms(1) by simp
  then show ?thesis using assms by (simp add: grown_def update_conv' wf_update)
qed

end
