(* ===== verification/GuestFiles.thy ===== *)
theory GuestFiles
  imports GuestProtocol FileTree
begin

text \<open>
  \<open>src/agent/guest-workspace.ts\<close>: the adapter that turns the file operations of the node agent into chunked
  requests of the guest protocol, and checks every reply.

  The guest is a state machine behind \<open>call\<close>, which takes a request and returns its result or the error of the
  channel. A reply is a JSON value; \<open>as_list\<close>, \<open>as_read\<close>, \<open>as_write\<close> and \<open>as_delete\<close> read its shape as
  the zod objects do (\<open>None\<close> when a field is missing, extra or of the wrong type), and the bounds on the fields
  are modelled. \<open>uuids\<close> is the sequence of random identifiers.
\<close>

section \<open>Replies\<close>

datatype data_error = RuntimeData nat | SchemaRejected

datatype call_failure = FailData nat | FailChannel guest_code | FailOther

type_synonym ('s, 'j) guest = "guest_request \<Rightarrow> 's \<Rightarrow> (call_failure, 'j) res \<times> 's"

record guest_entry =
  ge_path :: string
  ge_type :: string
  ge_size :: int
  ge_modifiedAt :: int

definition FileEntry :: "guest_entry \<Rightarrow> bool" where
  "FileEntry e \<longleftrightarrow> 1 \<le> length (ge_path e) \<and> length (ge_path e) \<le> 1024
     \<and> ge_type e \<in> set [''file'', ''directory'', ''symlink'']
     \<and> int_between 0 max_safe_integer (ge_size e) \<and> int_between 0 max_safe_integer (ge_modifiedAt e)"

definition FileList :: "guest_entry list \<Rightarrow> bool" where
  "FileList es \<longleftrightarrow> list_all FileEntry es \<and> length es \<le> 1000"

record read_chunk =
  rc_path :: string
  rc_offset :: int
  rc_nextOffset :: int
  rc_size :: int
  rc_eof :: bool
  rc_data :: string

definition ReadChunk :: "read_chunk \<Rightarrow> bool" where
  "ReadChunk r \<longleftrightarrow> int_between 0 max_safe_integer (rc_offset r) \<and> int_between 0 max_safe_integer (rc_nextOffset r)
     \<and> int_between 0 (8 * 1024 * 1024) (rc_size r)"

record write_chunk =
  wc_path :: string
  wc_size :: int
  wc_nextOffset :: int
  wc_usedBytes :: int
  wc_quotaBytes :: int

definition WriteChunk :: "write_chunk \<Rightarrow> bool" where
  "WriteChunk r \<longleftrightarrow> int_between 0 max_safe_integer (wc_size r) \<and> int_between 0 max_safe_integer (wc_nextOffset r)
     \<and> int_between 0 max_safe_integer (wc_usedBytes r) \<and> int_between 1 max_safe_integer (wc_quotaBytes r)"

record delete_result =
  dl_path :: string
  dl_usedBytes :: int
  dl_quotaBytes :: int

definition DeleteResult :: "delete_result \<Rightarrow> bool" where
  "DeleteResult r \<longleftrightarrow> int_between 0 max_safe_integer (dl_usedBytes r) \<and> int_between 1 max_safe_integer (dl_quotaBytes r)"

section \<open>Requests\<close>

fun guest_status :: "guest_code \<Rightarrow> nat" where
  "guest_status NotFound = 404"
| "guest_status Conflict = 409"
| "guest_status LimitExceeded = 413"
| "guest_status Unavailable = 501"
| "guest_status Transport = 501"
| "guest_status _ = 400"

definition fs_id :: "string \<Rightarrow> string" where
  "fs_id uuid = ''fs_'' @ filter (\<lambda>c. c \<noteq> CHR ''-'') uuid"

text \<open>\<open>request\<close>: the request is parsed inside the \<open>try\<close>, so one that does not pass is an error 501.\<close>

definition request ::
  "(string \<Rightarrow> bool) \<Rightarrow> ('s, 'j) guest \<Rightarrow> string \<Rightarrow> guest_operation \<Rightarrow> 's \<Rightarrow> (data_error, 'j) res \<times> 's" where
  "request is_uuid call uuid operation s =
     (let r = \<lparr>gq_version = 1, gq_id = fs_id uuid, gq_operation = operation\<rparr>
      in if \<not> GuestRequest is_uuid r then (Inl (RuntimeData 501), s)
         else case call r s of
           (Inr v, s') \<Rightarrow> (Inr v, s')
         | (Inl (FailData st), s') \<Rightarrow> (Inl (RuntimeData st), s')
         | (Inl (FailChannel c), s') \<Rightarrow> (Inl (RuntimeData (guest_status c)), s')
         | (Inl FailOther, s') \<Rightarrow> (Inl (RuntimeData 501), s'))"

definition canonicalBase64 :: "string \<Rightarrow> (data_error, octets) res" where
  "canonicalBase64 v =
     (if \<not> full base64_rx v then Inl (RuntimeData 501)
      else let decoded = base64_decode v
           in if base64_encode decoded \<noteq> v then Inl (RuntimeData 501) else Inr decoded)"

section \<open>Operations\<close>

definition gw_list ::
  "(string \<Rightarrow> bool) \<Rightarrow> ('s, 'j) guest \<Rightarrow> ('j \<Rightarrow> guest_entry list option) \<Rightarrow> string \<Rightarrow> string \<Rightarrow> 's
     \<Rightarrow> (data_error, guest_entry list) res \<times> 's" where
  "gw_list is_uuid call as_list uuid path s =
     (case request is_uuid call uuid (FsList path) s of
        (Inl e, s') \<Rightarrow> (Inl e, s')
      | (Inr v, s') \<Rightarrow>
          (case as_list v of None \<Rightarrow> Inl SchemaRejected | Some es \<Rightarrow> if FileList es then Inr es else Inl SchemaRejected, s'))"

text \<open>One turn of the loop of \<open>read\<close>: what the reply is checked for, and the bytes it holds.\<close>

definition check_chunk :: "string \<Rightarrow> int \<Rightarrow> int option \<Rightarrow> read_chunk option \<Rightarrow> (data_error, read_chunk \<times> octets) res" where
  "check_chunk path offset expected reply =
     (case reply of
        None \<Rightarrow> Inl SchemaRejected
      | Some r \<Rightarrow>
          if \<not> ReadChunk r then Inl SchemaRejected
          else if rc_path r \<noteq> path \<or> rc_offset r \<noteq> offset \<or> (expected \<noteq> None \<and> expected \<noteq> Some (rc_size r))
          then Inl (RuntimeData 501)
          else rbind (canonicalBase64 (rc_data r)) (\<lambda>chunk.
               if MAX_FILE_CHUNK_BYTES < length chunk \<or> rc_nextOffset r \<noteq> offset + int (length chunk) then Inl (RuntimeData 501)
               else Inr (r, chunk)))"

lemma check_chunk_Inr:
  "check_chunk path offset expected reply = Inr (r, chunk) \<Longrightarrow>
     ReadChunk r \<and> rc_nextOffset r = offset + int (length chunk) \<and> rc_path r = path \<and> rc_offset r = offset
     \<and> length chunk \<le> MAX_FILE_CHUNK_BYTES \<and> (expected = None \<or> expected = Some (rc_size r))"
  by (auto simp: check_chunk_def res_simps split: option.splits if_splits)

function read_loop ::
  "(string \<Rightarrow> bool) \<Rightarrow> ('s, 'j) guest \<Rightarrow> ('j \<Rightarrow> read_chunk option) \<Rightarrow> (nat \<Rightarrow> string) \<Rightarrow> string
     \<Rightarrow> octets \<Rightarrow> int \<Rightarrow> int option \<Rightarrow> nat \<Rightarrow> 's \<Rightarrow> (data_error, octets) res \<times> 's" where
  "read_loop is_uuid call as_read uuids path chunks offset expected n s =
     (case request is_uuid call (uuids n) (FsRead path offset (int MAX_FILE_CHUNK_BYTES)) s of
        (Inl e, s') \<Rightarrow> (Inl e, s')
      | (Inr v, s') \<Rightarrow>
          (case check_chunk path offset expected (as_read v) of
             Inl e \<Rightarrow> (Inl e, s')
           | Inr (r, chunk) \<Rightarrow>
               if rc_eof r then (if rc_nextOffset r \<noteq> rc_size r then Inl (RuntimeData 501) else Inr (chunks @ chunk), s')
               else if chunk = [] then (Inl (RuntimeData 501), s')
               else read_loop is_uuid call as_read uuids path (chunks @ chunk) (rc_nextOffset r) (Some (rc_size r)) (Suc n) s'))"
  by pat_completeness auto

text \<open>The offset grows with every turn and stays a safe integer, so the loop ends for every guest.\<close>

termination
proof (relation "measure (\<lambda>(_, _, _, _, _, _, offset, _). nat (max_safe_integer - offset))", goal_cases)
  case (2 is_uuid call as_read uuids path chunks offset expected n s x s' v y r chunk)
  then have "check_chunk path offset expected (as_read v) = Inr (r, chunk)" by simp
  from check_chunk_Inr[OF this] have "rc_nextOffset r = offset + int (length chunk)" "rc_nextOffset r \<le> max_safe_integer"
    by (auto simp: ReadChunk_def int_between_def)
  moreover have "0 < int (length chunk)" using 2 by simp
  ultimately have "offset < rc_nextOffset r" "offset < max_safe_integer" by linarith+
  then show ?case by simp
qed simp

declare read_loop.simps [simp del]

definition gw_read ::
  "(string \<Rightarrow> bool) \<Rightarrow> ('s, 'j) guest \<Rightarrow> ('j \<Rightarrow> read_chunk option) \<Rightarrow> (nat \<Rightarrow> string) \<Rightarrow> string \<Rightarrow> 's
     \<Rightarrow> (data_error, octets) res \<times> 's" where
  "gw_read is_uuid call as_read uuids path s = read_loop is_uuid call as_read uuids path [] 0 None 0 s"

function write_loop ::
  "(string \<Rightarrow> bool) \<Rightarrow> ('s, 'j) guest \<Rightarrow> ('j \<Rightarrow> write_chunk option) \<Rightarrow> (nat \<Rightarrow> string) \<Rightarrow> string
     \<Rightarrow> octets \<Rightarrow> nat \<Rightarrow> nat \<Rightarrow> 's \<Rightarrow> (data_error, write_chunk) res \<times> 's" where
  "write_loop is_uuid call as_write uuids path contents offset n s =
     (let chunk = take MAX_FILE_CHUNK_BYTES (drop offset contents)
      in case request is_uuid call (uuids n) (FsWrite path (int offset) (base64_encode chunk) (offset = 0)) s of
        (Inl e, s') \<Rightarrow> (Inl e, s')
      | (Inr v, s') \<Rightarrow>
          (case as_write v of
             None \<Rightarrow> (Inl SchemaRejected, s')
           | Some r \<Rightarrow>
               if \<not> WriteChunk r then (Inl SchemaRejected, s')
               else if wc_path r \<noteq> path \<or> wc_nextOffset r \<noteq> int (offset + length chunk) then (Inl (RuntimeData 501), s')
               else if offset + length chunk < length contents
               then write_loop is_uuid call as_write uuids path contents (offset + length chunk) (Suc n) s'
               else (Inr r, s')))"
  by pat_completeness auto

termination
  by (relation "measure (\<lambda>(_, _, _, _, _, contents, offset, _). length contents - offset)")
    (auto simp: MAX_FILE_CHUNK_BYTES_def)

declare write_loop.simps [simp del]

definition gw_write ::
  "(string \<Rightarrow> bool) \<Rightarrow> ('s, 'j) guest \<Rightarrow> ('j \<Rightarrow> write_chunk option) \<Rightarrow> (nat \<Rightarrow> string) \<Rightarrow> string \<Rightarrow> octets \<Rightarrow> 's
     \<Rightarrow> (data_error, int \<times> int \<times> int) res \<times> 's" where
  "gw_write is_uuid call as_write uuids path contents s =
     (case write_loop is_uuid call as_write uuids path contents 0 0 s of
        (Inl e, s') \<Rightarrow> (Inl e, s')
      | (Inr final, s') \<Rightarrow>
          (if wc_size final \<noteq> int (length contents) then Inl (RuntimeData 501)
           else Inr (wc_size final, wc_usedBytes final, wc_quotaBytes final), s'))"

definition gw_delete ::
  "(string \<Rightarrow> bool) \<Rightarrow> ('s, 'j) guest \<Rightarrow> ('j \<Rightarrow> delete_result option) \<Rightarrow> string \<Rightarrow> string \<Rightarrow> 's
     \<Rightarrow> (data_error, int \<times> int) res \<times> 's" where
  "gw_delete is_uuid call as_delete uuid path s =
     (case request is_uuid call uuid (FsDelete path False) s of
        (Inl e, s') \<Rightarrow> (Inl e, s')
      | (Inr v, s') \<Rightarrow>
          (case as_delete v of
             None \<Rightarrow> Inl SchemaRejected
           | Some r \<Rightarrow> if \<not> DeleteResult r then Inl SchemaRejected
                       else if dl_path r \<noteq> path then Inl (RuntimeData 501)
                       else Inr (dl_usedBytes r, dl_quotaBytes r), s'))"

section \<open>The service in the guest\<close>

text \<open>
  \<open>ops/guest-control/src/files.rs\<close> and \<open>validate.rs\<close>: the guest opens every component of a path with
  \<open>openat\<close> and \<open>O_NOFOLLOW\<close>, so a symbolic link is an error of the system and is never followed. An error is
  the code of the protocol. The state is the tree below \<open>/workspace\<close>; \<open>write_lock\<close> makes an operation one
  step, and the result carries the fields that the adapter reads.
\<close>

datatype guest_reply = Listed "guest_entry list" | ReadReply read_chunk | Written write_chunk | Deleted delete_result

record guest_disk =
  gd_tree :: tree
  gd_quota :: int

definition MAX_FILE_BYTES :: int where "MAX_FILE_BYTES = 8 * 1024 * 1024"
definition MAX_SCAN_ENTRIES :: int where "MAX_SCAN_ENTRIES = 20000"

definition from_io_error :: "errno \<Rightarrow> guest_code" where
  "from_io_error e = (case e of ENOENT \<Rightarrow> NotFound | ELOOP \<Rightarrow> PermissionDenied | ENOTDIR \<Rightarrow> PermissionDenied | _ \<Rightarrow> Internal)"

definition validate_relative_path :: "string \<Rightarrow> (guest_code, path) res" where
  "validate_relative_path s =
     (if s = [] \<or> 1024 < utf8_len s then Inl InvalidRequest
      else if CHR 0x00 \<in> set s \<or> CHR 0x5C \<in> set s then Inl InvalidRequest
      else if starts_with s ''/'' \<or> ends_with s ''/'' then Inl InvalidRequest
      else let parts = split_on slash s
           in if \<not> list_all (\<lambda>part. part \<noteq> [] \<and> part \<noteq> ''.'' \<and> part \<noteq> ''..'') parts then Inl InvalidRequest else Inr parts)"

definition validate_integer :: "int \<Rightarrow> int \<Rightarrow> int \<Rightarrow> (guest_code, int) res" where
  "validate_integer n lo hi = (if n < lo \<or> hi < n then Inl InvalidRequest else Inr n)"

text \<open>\<open>openat\<close> of a directory component: a link is \<open>ELOOP\<close> or \<open>ENOTDIR\<close>, both a refusal; \<open>create\<close> makes a missing one.\<close>

fun open_directory :: "tree \<Rightarrow> path \<Rightarrow> path \<Rightarrow> bool \<Rightarrow> (guest_code, path) res \<times> tree" where
  "open_directory t current [] create = (Inr current, t)"
| "open_directory t current (part # parts) create =
     (let next' = current @ [part];
          t' = (if create \<and> map_of t next' = None then AList.update next' Dir t else t)
      in case map_of t' next' of
           None \<Rightarrow> (Inl (from_io_error ENOENT), t')
         | Some Dir \<Rightarrow> open_directory t' next' parts create
         | Some Link \<Rightarrow> (Inl (from_io_error ELOOP), t')
         | Some _ \<Rightarrow> (Inl (from_io_error ENOTDIR), t'))"

text \<open>\<open>open_file\<close>: the parents, then the file, made empty when \<open>create\<close> and missing.\<close>

definition open_file :: "tree \<Rightarrow> path \<Rightarrow> bool \<Rightarrow> (guest_code, node) res \<times> tree" where
  "open_file t parts create =
     (if length parts < 2 then (Inl InvalidRequest, t)
      else case open_directory t [] (butlast parts) create of
        (Inl e, t1) \<Rightarrow> (Inl e, t1)
      | (Inr _, t1) \<Rightarrow>
          (case map_of t1 parts of
             None \<Rightarrow> if create then (Inr (File []), AList.update parts (File []) t1) else (Inl (from_io_error ENOENT), t1)
           | Some Link \<Rightarrow> (Inl (from_io_error ELOOP), t1)
           | Some Dir \<Rightarrow> if create then (Inl (from_io_error EISDIR), t1) else (Inr Dir, t1)
           | Some n \<Rightarrow> (Inr n, t1)))"

definition guest_read :: "guest_disk \<Rightarrow> string \<Rightarrow> int \<Rightarrow> int \<Rightarrow> (guest_code, guest_reply) res" where
  "guest_read d path offset max_bytes =
     rbind (validate_relative_path path) (\<lambda>parts.
     rbind (validate_integer offset 0 MAX_FILE_BYTES) (\<lambda>start.
     rbind (validate_integer max_bytes 1 (int MAX_FILE_CHUNK_BYTES)) (\<lambda>limit.
     rbind (fst (open_file (gd_tree d) parts False)) (\<lambda>node.
       case node of
         File b \<Rightarrow>
           if MAX_FILE_BYTES < int (length b) then Inl LimitExceeded
           else if int (length b) < start then Inl InvalidRequest
           else let buf = take (nat limit) (drop (nat start) b); next' = start + int (length buf)
                in Inr (ReadReply \<lparr>rc_path = join_with slash parts, rc_offset = start, rc_nextOffset = next',
                     rc_size = int (length b), rc_eof = (int (length b) \<le> next'), rc_data = base64_encode buf\<rparr>)
       | _ \<Rightarrow> Inl InvalidRequest))))"

text \<open>
  \<open>walk_dir_bytes\<close>: 33 levels are scanned, an error of a subdirectory is dropped, the counters are kept. The
  result tells whether this level ran to its end.
\<close>

primrec walk_dir_bytes :: "nat \<Rightarrow> tree \<Rightarrow> path \<Rightarrow> int \<times> int \<Rightarrow> bool \<times> int \<times> int" where
  "walk_dir_bytes 0 t d ct = (True, ct)"
| "walk_dir_bytes (Suc levels) t d ct =
     foldl (\<lambda>(ok, count, total) (p, n).
       if \<not> ok then (ok, count, total)
       else case n of
         File b \<Rightarrow> if MAX_SCAN_ENTRIES < count + 1 then (False, count + 1, total) else (True, count + 1, total + int (length b))
       | Dir \<Rightarrow> (True, snd (walk_dir_bytes levels t p (count, total)))
       | _ \<Rightarrow> (True, count, total)) (True, ct) (children t d)"

definition directory_bytes :: "tree \<Rightarrow> (guest_code, int) res" where
  "directory_bytes t =
     (let (ok, count, total) = walk_dir_bytes 33 t [] (0, 0) in if ok then Inr total else Inl LimitExceeded)"

text \<open>\<open>pwrite\<close> of a chunk at an offset: a gap is filled with zeros.\<close>

definition pwrite_at :: "octets \<Rightarrow> nat \<Rightarrow> octets \<Rightarrow> octets" where
  "pwrite_at b start chunk =
     (if chunk = [] then b else take start b @ replicate (start - length b) 0 @ chunk @ drop (start + length chunk) b)"

definition guest_write :: "guest_disk \<Rightarrow> string \<Rightarrow> int \<Rightarrow> string \<Rightarrow> bool \<Rightarrow> (guest_code, guest_reply) res \<times> guest_disk" where
  "guest_write d path offset encoded trunc =
     (case rbind (validate_relative_path path) (\<lambda>parts.
           rbind (validate_integer offset 0 MAX_FILE_BYTES) (\<lambda>start.
             if trunc \<and> start \<noteq> 0 then Inl InvalidRequest
             else if \<not> isCanonicalBase64 encoded then Inl InvalidRequest
             else if MAX_FILE_CHUNK_BYTES < length (base64_decode encoded) then Inl LimitExceeded
             else if MAX_FILE_BYTES < start + int (length (base64_decode encoded)) then Inl LimitExceeded
             else Inr (parts, start, base64_decode encoded))) of
        Inl e \<Rightarrow> (Inl e, d)
      | Inr (parts, start, chunk) \<Rightarrow>
          (case open_file (gd_tree d) parts True of
             (Inl e, t1) \<Rightarrow> (Inl e, d\<lparr>gd_tree := t1\<rparr>)
           | (Inr (File b), t1) \<Rightarrow>
               (case directory_bytes t1 of
                  Inl e \<Rightarrow> (Inl e, d\<lparr>gd_tree := t1\<rparr>)
                | Inr used \<Rightarrow>
                    let prior = int (length b);
                        resulting = (if trunc then max (start + int (length chunk)) 0 else max (start + int (length chunk)) prior)
                    in if gd_quota d < used - prior + resulting then (Inl LimitExceeded, d\<lparr>gd_tree := t1\<rparr>)
                       else let b' = pwrite_at (if trunc then [] else b) (nat start) chunk
                            in (Inr (Written \<lparr>wc_path = join_with slash parts, wc_size = int (length b'),
                                   wc_nextOffset = start + int (length chunk), wc_usedBytes = used - prior + resulting,
                                   wc_quotaBytes = gd_quota d\<rparr>),
                                d\<lparr>gd_tree := AList.update parts (File b') t1\<rparr>))
           | (Inr _, t1) \<Rightarrow> (Inl InvalidRequest, d\<lparr>gd_tree := t1\<rparr>)))"

definition guest_delete :: "guest_disk \<Rightarrow> string \<Rightarrow> bool \<Rightarrow> (guest_code, guest_reply) res \<times> guest_disk" where
  "guest_delete d path recursive =
     (case rbind (validate_relative_path path) (\<lambda>parts.
           if recursive then Inl PermissionDenied
           else rbind (fst (open_directory (gd_tree d) [] (butlast parts) False)) (\<lambda>_.
             case map_of (gd_tree d) parts of
               None \<Rightarrow> Inl (from_io_error ENOENT)
             | Some (File b) \<Rightarrow> Inr parts
             | Some _ \<Rightarrow> Inl InvalidRequest)) of
        Inl e \<Rightarrow> (Inl e, d)
      | Inr parts \<Rightarrow>
          let t1 = AList.delete parts (gd_tree d)
          in (rbind (directory_bytes t1) (\<lambda>used.
                Inr (Deleted \<lparr>dl_path = join_with slash parts, dl_usedBytes = used, dl_quotaBytes = gd_quota d\<rparr>)), d\<lparr>gd_tree := t1\<rparr>))"

text \<open>
  The dispatcher of \<open>control.rs\<close> for reading, writing and deleting; \<open>other\<close> stands for the rest of the service. An
  error of the service reaches the adapter as an error of the channel with the same code.
\<close>

definition as_result :: "(guest_code, guest_reply) res \<Rightarrow> (call_failure, guest_reply) res" where
  "as_result reply = (case reply of Inl e \<Rightarrow> Inl (FailChannel e) | Inr v \<Rightarrow> Inr v)"

definition guest_service :: "(guest_disk, guest_reply) guest \<Rightarrow> (guest_disk, guest_reply) guest" where
  "guest_service other r d =
     (case gq_operation r of
        FsRead p off n \<Rightarrow> (as_result (guest_read d p off n), d)
      | FsWrite p off enc trunc \<Rightarrow> (case guest_write d p off enc trunc of (reply, d') \<Rightarrow> (as_result reply, d'))
      | FsDelete p rec \<Rightarrow> (case guest_delete d p rec of (reply, d') \<Rightarrow> (as_result reply, d'))
      | _ \<Rightarrow> other r d)"

fun reply_read :: "guest_reply \<Rightarrow> read_chunk option" where
  "reply_read (ReadReply r) = Some r"
| "reply_read _ = None"

fun reply_write :: "guest_reply \<Rightarrow> write_chunk option" where
  "reply_write (Written r) = Some r"
| "reply_write _ = None"

fun reply_delete :: "guest_reply \<Rightarrow> delete_result option" where
  "reply_delete (Deleted r) = Some r"
| "reply_delete _ = None"

section \<open>The interface between the adapter and a guest\<close>

text \<open>A guest whose files have contents: what reads return, and what an accepted write leaves behind.\<close>

locale file_service =
  fixes is_uuid :: "string \<Rightarrow> bool"
    and call :: "('s, 'j) guest"
    and as_read :: "'j \<Rightarrow> read_chunk option"
    and as_write :: "'j \<Rightarrow> write_chunk option"
    and good :: "'s \<Rightarrow> bool"
    and content :: "'s \<Rightarrow> string \<Rightarrow> octets option"
  assumes read_law:
    "good s \<Longrightarrow> content s p = Some b \<Longrightarrow> length b \<le> 8388608 \<Longrightarrow> off \<le> length b \<Longrightarrow>
       \<exists>v. call \<lparr>gq_version = 1, gq_id = i, gq_operation = FsRead p (int off) (int MAX_FILE_CHUNK_BYTES)\<rparr> s = (Inr v, s)
         \<and> as_read v = Some \<lparr>rc_path = p, rc_offset = int off,
             rc_nextOffset = int (off + length (take MAX_FILE_CHUNK_BYTES (drop off b))), rc_size = int (length b),
             rc_eof = (length b \<le> off + length (take MAX_FILE_CHUNK_BYTES (drop off b))),
             rc_data = base64_encode (take MAX_FILE_CHUNK_BYTES (drop off b))\<rparr>"
    and write_law:
    "good s \<Longrightarrow> call \<lparr>gq_version = 1, gq_id = i, gq_operation = FsWrite p (int off) (base64_encode chunk) (off = 0)\<rparr> s = (Inr v, s') \<Longrightarrow>
       off = 0 \<and> old = [] \<or> content s p = Some old \<and> length old = off \<Longrightarrow>
       good s' \<and> content s' p = Some (old @ chunk) \<and> length (old @ chunk) \<le> 8388608"
begin

lemma request_Inr:
  "request is_uuid call uuid opn s = (Inr v, s') \<Longrightarrow>
     GuestRequest is_uuid \<lparr>gq_version = 1, gq_id = fs_id uuid, gq_operation = opn\<rparr>
     \<and> call \<lparr>gq_version = 1, gq_id = fs_id uuid, gq_operation = opn\<rparr> s = (Inr v, s')"
  by (auto simp: request_def Let_def split: if_splits prod.splits sum.splits call_failure.splits)

lemma request_call:
  "GuestRequest is_uuid \<lparr>gq_version = 1, gq_id = fs_id uuid, gq_operation = opn\<rparr> \<Longrightarrow>
     call \<lparr>gq_version = 1, gq_id = fs_id uuid, gq_operation = opn\<rparr> s = (Inr v, s') \<Longrightarrow>
     request is_uuid call uuid opn s = (Inr v, s')"
  by (simp add: request_def)

lemma write_loop_content:
  assumes "write_loop is_uuid call as_write uuids p contents off n s = (Inr w, s')" "good s"
    and "off = 0 \<and> old = [] \<or> content s p = Some old \<and> length old = off" "off \<le> length contents" "old = take off contents"
  shows "good s' \<and> content s' p = Some contents \<and> length contents \<le> 8388608
    \<and> RelativePath p \<and> full request_id_rx (fs_id (uuids n))"
  using assms
proof (induction "length contents - off" arbitrary: off n s old rule: less_induct)
  case less
  let ?chunk = "take MAX_FILE_CHUNK_BYTES (drop off contents)"
  have old: "length old = off" using less.prems(4,5) by simp
  obtain v s1 where req: "request is_uuid call (uuids n) (FsWrite p (int off) (base64_encode ?chunk) (off = 0)) s = (Inr v, s1)"
    using less.prems(1) by (subst (asm) write_loop.simps) (auto simp: Let_def split: prod.splits sum.splits)
  note c = request_Inr[OF req]
  have g: "good s1" "content s1 p = Some (old @ ?chunk)" "length (old @ ?chunk) \<le> 8388608"
    using write_law[OF less.prems(2) conjunct2[OF c] less.prems(3)] by blast+
  have safe: "RelativePath p" "full request_id_rx (fs_id (uuids n))" using c by (simp_all add: GuestRequest_def)
  have cat: "old @ ?chunk = take (off + length ?chunk) contents"
    using less.prems(4,5) by (simp add: take_add min_def)
  show ?case
  proof (cases "off + length ?chunk < length contents")
    case True
    have "write_loop is_uuid call as_write uuids p contents (off + length ?chunk) (Suc n) s1 = (Inr w, s')"
      using less.prems(1) req True by (subst (asm) write_loop.simps) (auto simp: Let_def split: option.splits if_splits)
    moreover have "length contents - (off + length ?chunk) < length contents - off" using True by (auto simp: MAX_FILE_CHUNK_BYTES_def)
    ultimately show ?thesis
      using less.hyps[of "off + length ?chunk" "Suc n" s1 "old @ ?chunk"] g cat True old safe by simp
  next
    case False
    then have "s1 = s'"
      using less.prems(1) req by (subst (asm) write_loop.simps) (auto simp: Let_def split: option.splits if_splits)
    moreover have "old @ ?chunk = contents" using cat False by simp
    ultimately show ?thesis using g safe by simp
  qed
qed

lemma read_loop_content:
  assumes "good s" "content s p = Some b" "length b \<le> 8388608" "RelativePath p" "\<And>k. full request_id_rx (fs_id (uuids k))"
    and "off \<le> length b" "chunks = take off b" "expected = None \<or> expected = Some (int (length b))"
  shows "read_loop is_uuid call as_read uuids p chunks (int off) expected n s = (Inr b, s)"
  using assms(6-8)
proof (induction "length b - off" arbitrary: off n chunks expected rule: less_induct)
  case less
  define c where "c = take MAX_FILE_CHUNK_BYTES (drop off b)"
  have lc: "length c \<le> MAX_FILE_CHUNK_BYTES" "off + length c \<le> length b" using less.prems(1) by (auto simp: c_def)
  have cat: "chunks @ c = take (off + length c) b" using less.prems(1,2) by (simp add: c_def take_add min_def)
  let ?r = "\<lparr>rc_path = p, rc_offset = int off, rc_nextOffset = int (off + length c), rc_size = int (length b),
             rc_eof = (length b \<le> off + length c), rc_data = base64_encode c\<rparr>"
  let ?q = "\<lparr>gq_version = 1, gq_id = fs_id (uuids n), gq_operation = FsRead p (int off) (int MAX_FILE_CHUNK_BYTES)\<rparr>"
  obtain v where v: "call ?q s = (Inr v, s)" "as_read v = Some ?r"
    using read_law[OF assms(1-3) less.prems(1)] unfolding c_def by blast
  have "GuestRequest is_uuid ?q"
    using assms(3-5) less.prems(1)
    by (simp add: GuestRequest_def int_between_def is_safe_integer_def max_safe_integer_def MAX_FILE_CHUNK_BYTES_def)
  then have req: "request is_uuid call (uuids n) (FsRead p (int off) (int MAX_FILE_CHUNK_BYTES)) s = (Inr v, s)"
    using v(1) by (rule request_call)
  have rc: "ReadChunk ?r"
    using assms(3) less.prems(1) lc by (simp add: ReadChunk_def int_between_def is_safe_integer_def max_safe_integer_def)
  have "check_chunk p (int off) expected (Some ?r) = Inr (?r, c)"
    using rc less.prems(3) lc(1) by (auto simp: check_chunk_def canonicalBase64_def base64_encode_rx)
  then have step: "read_loop is_uuid call as_read uuids p chunks (int off) expected n s =
      (if length b \<le> off + length c then (if int (off + length c) \<noteq> int (length b) then Inl (RuntimeData 501) else Inr (chunks @ c), s)
       else if c = [] then (Inl (RuntimeData 501), s)
       else read_loop is_uuid call as_read uuids p (chunks @ c) (int (off + length c)) (Some (int (length b))) (Suc n) s)"
    by (subst read_loop.simps) (simp add: req v(2))
  show ?case
  proof (cases "length b \<le> off + length c")
    case True
    then have "off + length c = length b" using lc(2) by simp
    then show ?thesis using step cat by simp
  next
    case False
    then have m: "length b - (off + length c) < length b - off" "c \<noteq> []"
      by (auto simp: c_def MAX_FILE_CHUNK_BYTES_def)
    show ?thesis
      using step False m(2) less.hyps[OF m(1) lc(2) cat, of "Some (int (length b))" "Suc n"] by simp
  qed
qed

lemma upload_download:
  assumes "gw_write is_uuid call as_write uuids p contents s = (Inr x, s')" "good s" "\<And>k. full request_id_rx (fs_id (uuids k))"
  shows "content s' p = Some contents \<and> gw_read is_uuid call as_read uuids p s' = (Inr contents, s')"
proof -
  obtain w where "write_loop is_uuid call as_write uuids p contents 0 0 s = (Inr w, s')"
    using assms(1) by (auto simp: gw_write_def split: prod.splits sum.splits if_splits)
  from write_loop_content[OF this assms(2), of "[]"]
  have g: "good s'" "content s' p = Some contents" "length contents \<le> 8388608" "RelativePath p" by simp_all
  have "read_loop is_uuid call as_read uuids p [] (int 0) None 0 s' = (Inr contents, s')"
    by (rule read_loop_content[OF g assms(3)]) simp_all
  then show ?thesis using g(2) by (simp add: gw_read_def)
qed

end

section \<open>The service of the guest provides the interface\<close>

definition good_disk :: "guest_disk \<Rightarrow> bool" where
  "good_disk d \<longleftrightarrow> wf_tree (gd_tree d) \<and> map_of (gd_tree d) [] = Some Dir"

definition disk_content :: "guest_disk \<Rightarrow> string \<Rightarrow> octets option" where
  "disk_content d p =
     (case validate_relative_path p of
        Inl _ \<Rightarrow> None
      | Inr parts \<Rightarrow> if length parts < 2 then None
                    else case map_of (gd_tree d) parts of Some (File b) \<Rightarrow> Some b | _ \<Rightarrow> None)"

lemma validate_relative_path_Inr: "validate_relative_path p = Inr parts \<Longrightarrow> parts = split_on slash p"
  by (auto simp: validate_relative_path_def Let_def split: if_splits)

lemma disk_content_Some:
  "disk_content d p = Some b \<Longrightarrow> \<exists>parts. validate_relative_path p = Inr parts \<and> 2 \<le> length parts \<and> map_of (gd_tree d) parts = Some (File b)
     \<and> join_with slash parts = p"
  by (auto simp: disk_content_def not_less split: sum.splits if_splits option.splits node.splits dest: validate_relative_path_Inr)

lemma open_directory_run:
  assumes "map_of t cur = Some Dir" "open_directory t cur parts create = (r, t')"
  shows "grown t t' \<and> (r = Inr x \<longrightarrow> map_of t' (cur @ parts) = Some Dir)"
  using assms
proof (induction parts arbitrary: t cur)
  case (Cons part parts)
  define t1 where "t1 = (if create \<and> map_of t (cur @ [part]) = None then AList.update (cur @ [part]) Dir t else t)"
  have g: "grown t t1" using grown_mkdir[OF _ Cons.prems(1), of part] by (simp add: t1_def)
  have run: "open_directory t cur (part # parts) create =
     (case map_of t1 (cur @ [part]) of
           None \<Rightarrow> (Inl (from_io_error ENOENT), t1)
         | Some Dir \<Rightarrow> open_directory t1 (cur @ [part]) parts create
         | Some Link \<Rightarrow> (Inl (from_io_error ELOOP), t1)
         | Some _ \<Rightarrow> (Inl (from_io_error ENOTDIR), t1))"
    unfolding t1_def by (simp only: open_directory.simps Let_def)
  show ?case
  proof (cases "map_of t1 (cur @ [part]) = Some Dir")
    case True
    then have "open_directory t1 (cur @ [part]) parts create = (r, t')" using run Cons.prems(2) by simp
    from Cons.IH[OF True this] show ?thesis using g grown_trans[of t t1 t'] by simp
  next
    case False
    then have "t' = t1 \<and> (\<exists>e. r = Inl e)" using run Cons.prems(2) by (auto split: option.splits node.splits)
    then show ?thesis using g by auto
  qed
qed auto

lemma open_directory_found:
  assumes "wf_tree t" "map_of t (cur @ parts @ [x]) = Some n"
  shows "open_directory t cur parts create = (Inr (cur @ parts), t)"
  using assms(2)
proof (induction parts arbitrary: cur)
  case (Cons part parts)
  have "map_of t (take (Suc (length cur)) (cur @ (part # parts) @ [x])) = Some Dir"
    by (rule wf_prefix_dir[OF assms(1) Cons.prems]) simp
  then have "map_of t (cur @ [part]) = Some Dir" by simp
  then show ?case using Cons.IH[of "cur @ [part]"] Cons.prems by simp
qed simp

lemma open_file_found:
  assumes "wf_tree t" "2 \<le> length parts" "map_of t parts = Some (File b)"
  shows "open_file t parts create = (Inr (File b), t)"
proof -
  have "parts = [] @ butlast parts @ [last parts]" using assms(2) by (cases parts rule: rev_cases) simp_all
  then have "open_directory t [] (butlast parts) create = (Inr (butlast parts), t)"
    using open_directory_found[OF assms(1), of "[]" "butlast parts" "last parts"] assms(3) by simp
  then show ?thesis using assms(2,3) by (simp add: open_file_def)
qed

lemma open_file_run:
  assumes "wf_tree t" "map_of t [] = Some Dir" "open_file t parts True = (Inr (File b), t1)"
  shows "wf_tree t1 \<and> map_of t1 [] = Some Dir \<and> map_of t1 (butlast parts) = Some Dir \<and> map_of t1 parts = Some (File b) \<and> 2 \<le> length parts"
proof -
  have l: "2 \<le> length parts" using assms(3) by (auto simp: open_file_def split: if_splits)
  obtain r t0 where o: "open_directory t [] (butlast parts) True = (r, t0)" by (cases "open_directory t [] (butlast parts) True")
  then obtain x where r: "r = Inr x" using assms(3) l by (cases r) (auto simp: open_file_def)
  have g: "grown t t0" "map_of t0 (butlast parts) = Some Dir"
    using open_directory_run[OF assms(2) o, of x] r by simp_all
  then have w: "wf_tree t0" "map_of t0 [] = Some Dir" using assms(1,2) by (auto simp: grown_def) (metis option.distinct(1))
  show ?thesis
  proof (cases "map_of t0 parts")
    case None
    then have t1: "t1 = AList.update parts (File []) t0" "b = []" using assms(3) o r l by (auto simp: open_file_def)
    have "parts \<noteq> []" "butlast parts \<noteq> parts" using l by (cases parts rule: rev_cases; simp)+
    then show ?thesis using wf_update[OF w(1), of parts "File []"] g(2) None t1 w(2) l by (auto simp: update_conv')
  next
    case (Some n)
    then have "t1 = t0 \<and> n = File b" using assms(3) o r l by (auto simp: open_file_def split: node.splits)
    then show ?thesis using w g(2) Some l by simp
  qed
qed

lemma guest_read_found:
  assumes "good_disk d" "disk_content d p = Some b" "length b \<le> 8388608" "off \<le> length b"
  shows "guest_read d p (int off) (int MAX_FILE_CHUNK_BYTES) =
     (let buf = take MAX_FILE_CHUNK_BYTES (drop off b)
      in Inr (ReadReply \<lparr>rc_path = p, rc_offset = int off, rc_nextOffset = int (off + length buf), rc_size = int (length b),
           rc_eof = (length b \<le> off + length buf), rc_data = base64_encode buf\<rparr>))"
proof -
  obtain parts where p: "validate_relative_path p = Inr parts" "2 \<le> length parts" "map_of (gd_tree d) parts = Some (File b)"
    "join_with slash parts = p" using disk_content_Some[OF assms(2)] by blast
  have "open_file (gd_tree d) parts False = (Inr (File b), gd_tree d)"
    using open_file_found[OF _ p(2,3)] assms(1) by (simp add: good_disk_def)
  moreover have "(int (length b) \<le> int off + int x) = (length b \<le> off + x)" for x by linarith
  ultimately show ?thesis
    using p assms(3,4) by (simp add: guest_read_def validate_integer_def MAX_FILE_BYTES_def MAX_FILE_CHUNK_BYTES_def Let_def)
qed

lemma guest_write_run:
  assumes "good_disk d" "guest_write d p (int off) (base64_encode chunk) (off = 0) = (Inr v, d')"
    and "off = 0 \<and> old = [] \<or> disk_content d p = Some old \<and> length old = off"
  shows "good_disk d' \<and> disk_content d' p = Some (old @ chunk) \<and> length (old @ chunk) \<le> 8388608"
proof -
  obtain parts where p: "validate_relative_path p = Inr parts"
    using assms(2) by (cases "validate_relative_path p") (auto simp: guest_write_def)
  have small: "off + length chunk \<le> 8388608"
    using assms(2) p by (auto simp: guest_write_def validate_integer_def MAX_FILE_BYTES_def split: if_splits)
  have pre: "guest_write d p (int off) (base64_encode chunk) (off = 0) =
      (case open_file (gd_tree d) parts True of
             (Inl e, t1) \<Rightarrow> (Inl e, d\<lparr>gd_tree := t1\<rparr>)
           | (Inr (File b), t1) \<Rightarrow>
               (case directory_bytes t1 of
                  Inl e \<Rightarrow> (Inl e, d\<lparr>gd_tree := t1\<rparr>)
                | Inr used \<Rightarrow>
                    let prior = int (length b);
                        resulting = (if off = 0 then max (int off + int (length chunk)) 0 else max (int off + int (length chunk)) prior)
                    in if gd_quota d < used - prior + resulting then (Inl LimitExceeded, d\<lparr>gd_tree := t1\<rparr>)
                       else let b' = pwrite_at (if off = 0 then [] else b) (nat (int off)) chunk
                            in (Inr (Written \<lparr>wc_path = join_with slash parts, wc_size = int (length b'),
                                   wc_nextOffset = int off + int (length chunk), wc_usedBytes = used - prior + resulting,
                                   wc_quotaBytes = gd_quota d\<rparr>),
                                d\<lparr>gd_tree := AList.update parts (File b') t1\<rparr>))
           | (Inr _, t1) \<Rightarrow> (Inl InvalidRequest, d\<lparr>gd_tree := t1\<rparr>))"
    using assms(2) p by (auto simp: guest_write_def validate_integer_def MAX_FILE_BYTES_def isCanonicalBase64_iff split: if_splits)
  obtain b t1 where o: "open_file (gd_tree d) parts True = (Inr (File b), t1)"
    using assms(2) pre by (auto split: prod.splits sum.splits node.splits)
  have d': "d' = d\<lparr>gd_tree := AList.update parts (File (pwrite_at (if off = 0 then [] else b) off chunk)) t1\<rparr>"
    using assms(2) pre o by (auto simp: Let_def split: sum.splits if_splits)
  have t1: "wf_tree t1" "map_of t1 [] = Some Dir" "map_of t1 (butlast parts) = Some Dir" "map_of t1 parts = Some (File b)" "2 \<le> length parts"
    using open_file_run[OF _ _ o] assms(1) by (simp_all add: good_disk_def)
  have new: "pwrite_at (if off = 0 then [] else b) off chunk = old @ chunk"
  proof (cases "off = 0")
    case True
    then have "old = []" using assms(3) by auto
    then show ?thesis using True by (simp add: pwrite_at_def)
  next
    case False
    then have c: "disk_content d p = Some old" "length old = off" using assms(3) by auto
    then have "map_of (gd_tree d) parts = Some (File old)" using disk_content_Some[OF c(1)] p by auto
    then have "b = old" using open_file_found[OF _ t1(5), of "gd_tree d" old True] o assms(1) by (simp add: good_disk_def)
    then show ?thesis using False c(2) by (simp add: pwrite_at_def)
  qed
  have len: "length old = off" using assms(3) by auto
  have ne: "parts \<noteq> []" using t1(5) by auto
  have "wf_tree (AList.update parts (File (old @ chunk)) t1)"
    by (rule wf_update[OF t1(1) ne t1(3)]) (simp add: t1(4))
  then have "good_disk d'" using d' new t1(2) ne by (simp add: good_disk_def update_conv')
  moreover have "disk_content d' p = Some (old @ chunk)" using d' new p t1(5) by (simp add: disk_content_def update_conv')
  ultimately show ?thesis using small len by simp
qed

interpretation gf: file_service "\<lambda>_. True" "guest_service other" reply_read reply_write good_disk disk_content
proof (unfold_locales, goal_cases)
  case (1 s p b off i)
  then show ?case using guest_read_found[OF 1] by (simp add: guest_service_def as_result_def Let_def)
next
  case (2 s i p off chunk v s' old)
  obtain reply d' where w: "guest_write s p (int off) (base64_encode chunk) (off = 0) = (reply, d')"
    by (cases "guest_write s p (int off) (base64_encode chunk) (off = 0)")
  then have "reply = Inr v \<and> d' = s'" using 2(2) by (cases reply) (auto simp: guest_service_def as_result_def)
  then show ?case using guest_write_run[OF 2(1) _ 2(3)] w by simp
qed

section \<open>Properties of the adapter\<close>

lemma fs_id_ok:
  assumes "length uuid \<le> 60" "\<forall>c \<in> set uuid. is_hex c \<or> c = CHR ''-''"
  shows "full request_id_rx (fs_id uuid)"
proof -
  have "length (filter (\<lambda>c. c \<noteq> CHR ''-'') uuid) \<le> 60" using assms(1) length_filter_le le_trans by blast
  moreover have "is_id_char c" if "is_hex c" for c
    using that by (auto simp: is_id_char_def char_class_defs)
  moreover have "\<forall>c \<in> set ''fs_''. is_id_char c" by code_simp
  ultimately show ?thesis
    using assms(2) by (auto simp: full_iff request_id_rx_def fs_id_def in_lang_Rep_Cls simp del: lang.simps)
qed

text \<open>C25. Upload, then download. Against the file service of the guest, an upload of any bytes that the adapter
  reports as done leaves exactly those bytes in the file, however many chunks it took, and a download of the
  path returns them and changes nothing.
\<close>
lemma guest_upload_download:
  assumes "good_disk d" "\<forall>k. length (uuids k) \<le> 60 \<and> (\<forall>c \<in> set (uuids k). is_hex c \<or> c = CHR ''-'')"
    and "gw_write (\<lambda>_. True) (guest_service other) reply_write uuids p contents d = (Inr x, d')"
  shows "disk_content d' p = Some contents
    \<and> gw_read (\<lambda>_. True) (guest_service other) reply_read uuids p d' = (Inr contents, d')"
proof -
  have "full request_id_rx (fs_id (uuids k))" for k using fs_id_ok assms(2) by blast
  then show ?thesis using gf.upload_download[OF assms(3,1)] by blast
qed

definition disk_sample :: guest_disk where
  "disk_sample = \<lparr>gd_tree = [([], Dir)], gd_quota = 1000\<rparr>"

lemma guest_upload_download_witness:
  "fst (gw_read (\<lambda>_. True) (guest_service (\<lambda>_ d. (Inl FailOther, d))) reply_read (\<lambda>_. ''0'') ''a/b''
       (snd (gw_write (\<lambda>_. True) (guest_service (\<lambda>_ d. (Inl FailOther, d))) reply_write (\<lambda>_. ''0'') ''a/b'' [1, 2, 3, 4] disk_sample)))
     = Inr [1, 2, 3, 4]"
proof -
  let ?w = "gw_write (\<lambda>_. True) (guest_service (\<lambda>_ d. (Inl FailOther, d))) reply_write (\<lambda>_. ''0'') ''a/b'' [1, 2, 3, 4] disk_sample"
  have "fst ?w = Inr (4, 4, 1000)"
    unfolding gw_write_def by (subst write_loop.simps) code_simp
  then have w: "?w = (Inr (4, 4, 1000), snd ?w)" by (metis prod.collapse)
  have "good_disk disk_sample" by code_simp
  moreover have "\<forall>c \<in> set ''0''. is_hex c \<or> c = CHR ''-''" by code_simp
  ultimately show ?thesis using guest_upload_download[OF _ _ w] by simp
qed

lemma read_loop_length:
  "int (length chunks) = offset \<Longrightarrow> fst (read_loop is_uuid call as_read uuids path chunks offset expected n s) = Inr b \<Longrightarrow>
     length b \<le> 8388608"
proof (induction is_uuid call as_read uuids path chunks offset expected n s rule: read_loop.induct)
  case (1 is_uuid call as_read uuids path chunks offset expected n s)
  obtain v s1 where req: "request is_uuid call (uuids n) (FsRead path offset (int MAX_FILE_CHUNK_BYTES)) s = (Inr v, s1)"
    using 1(3) by (subst (asm) read_loop.simps) (auto split: prod.splits sum.splits)
  obtain r chunk where c: "check_chunk path offset expected (as_read v) = Inr (r, chunk)"
    using 1(3) req by (subst (asm) read_loop.simps) (auto split: prod.splits sum.splits)
  note cc = check_chunk_Inr[OF c]
  have len: "int (length (chunks @ chunk)) = rc_nextOffset r" using cc 1(2) by simp
  show ?case
  proof (cases "rc_eof r")
    case True
    then have "b = chunks @ chunk" "rc_nextOffset r = rc_size r"
      using 1(3) req c by (subst (asm) read_loop.simps; simp split: if_splits)+
    then show ?thesis using len cc by (simp add: ReadChunk_def int_between_def)
  next
    case False
    then have ne: "chunk \<noteq> []" and rest: "fst (read_loop is_uuid call as_read uuids path (chunks @ chunk) (rc_nextOffset r) (Some (rc_size r)) (Suc n) s1) = Inr b"
      using 1(3) req c by (subst (asm) read_loop.simps; simp split: if_splits)+
    show ?thesis using 1(1)[OF req[symmetric] refl c refl False ne len rest] .
  qed
qed

text \<open>Downloads are bounded. Whatever a guest answers, the loop of \<open>read\<close> ends, and what it returns has at most
  eight mebibytes.
\<close>
lemma guest_read_bounded:
  assumes "fst (gw_read is_uuid call as_read uuids path s) = Inr b"
  shows "length b \<le> 8 * 1024 * 1024"
  using read_loop_length[of "[]" 0 is_uuid call as_read uuids path None 0 s b] assms by (simp add: gw_read_def)

lemma guest_read_bounded_witness:
  "fst (gw_read (\<lambda>_. True) (guest_service (\<lambda>_ d. (Inl FailOther, d))) reply_read (\<lambda>_. ''0'') ''a/b''
       \<lparr>gd_tree = [([], Dir), ([''a''], Dir), ([''a'', ''b''], File [7])], gd_quota = 10\<rparr>) = Inr [7]
   \<and> length [7 :: 8 word] \<le> 8 * 1024 * 1024"
proof -
  let ?r = "gw_read (\<lambda>_. True) (guest_service (\<lambda>_ d. (Inl FailOther, d))) reply_read (\<lambda>_. ''0'') ''a/b''
       \<lparr>gd_tree = [([], Dir), ([''a''], Dir), ([''a'', ''b''], File [7])], gd_quota = 10\<rparr>"
  have "fst ?r = Inr [7]" unfolding gw_read_def by (subst read_loop.simps) code_simp
  then show ?thesis using guest_read_bounded[of "\<lambda>_. True" "guest_service (\<lambda>_ d. (Inl FailOther, d))" reply_read] by blast
qed

section \<open>A guest that never ends a file\<close>

text \<open>
  The size of the file is compared with the offset only when the guest says that the file ends. A guest that
  answers every request with one byte of an empty file that never ends keeps the loop going, and the bytes are
  kept, until the offset stops being a safe integer.
\<close>

definition endless_guest :: "(nat, read_chunk) guest" where
  "endless_guest r k =
     (case gq_operation r of
        FsRead p off n \<Rightarrow>
          (Inr \<lparr>rc_path = p, rc_offset = off, rc_nextOffset = off + 1, rc_size = 0, rc_eof = False, rc_data = base64_encode [0]\<rparr>, Suc k)
      | _ \<Rightarrow> (Inl FailOther, k))"

lemma endless_loop:
  assumes "RelativePath p" "0 \<le> off" "off \<le> max_safe_integer" "expected = None \<or> expected = Some 0"
  shows "snd (read_loop is_uuid endless_guest Some (\<lambda>_. ''0'') p chunks off expected n k) = k + nat (max_safe_integer + 1 - off)"
  using assms(2-4)
proof (induction "nat (max_safe_integer - off)" arbitrary: chunks off expected n k rule: less_induct)
  case less
  have "\<forall>c \<in> set ''0''. is_hex c \<or> c = CHR ''-''" by code_simp
  then have i: "full request_id_rx (fs_id ''0'')" by (intro fs_id_ok) simp_all
  have req: "request is_uuid endless_guest ''0'' (FsRead p off (int MAX_FILE_CHUNK_BYTES)) k =
      (Inr \<lparr>rc_path = p, rc_offset = off, rc_nextOffset = off + 1, rc_size = 0, rc_eof = False, rc_data = base64_encode [0]\<rparr>, Suc k)"
    using assms(1) less.prems(1,2) i
    by (simp add: request_def GuestRequest_def endless_guest_def int_between_def is_safe_integer_def max_safe_integer_def MAX_FILE_CHUNK_BYTES_def)
  show ?case
  proof (cases "off = max_safe_integer")
    case True
    then show ?thesis
      by (subst read_loop.simps) (simp add: req[unfolded True] check_chunk_def ReadChunk_def int_between_def is_safe_integer_def)
  next
    case False
    have "ReadChunk \<lparr>rc_path = p, rc_offset = off, rc_nextOffset = off + 1, rc_size = 0, rc_eof = False, rc_data = base64_encode [0]\<rparr>"
      using less.prems(1,2) False by (simp add: ReadChunk_def int_between_def is_safe_integer_def max_safe_integer_def)
    then have "check_chunk p off expected (Some \<lparr>rc_path = p, rc_offset = off, rc_nextOffset = off + 1, rc_size = 0, rc_eof = False, rc_data = base64_encode [0]\<rparr>)
        = Inr (\<lparr>rc_path = p, rc_offset = off, rc_nextOffset = off + 1, rc_size = 0, rc_eof = False, rc_data = base64_encode [0]\<rparr>, [0])"
      using less.prems(3) by (auto simp: check_chunk_def canonicalBase64_def base64_encode_rx MAX_FILE_CHUNK_BYTES_def simp del: base64_encode.simps)
    then have "read_loop is_uuid endless_guest Some (\<lambda>_. ''0'') p chunks off expected n k
        = read_loop is_uuid endless_guest Some (\<lambda>_. ''0'') p (chunks @ [0]) (off + 1) (Some 0) (Suc n) (Suc k)"
      by (subst read_loop.simps) (simp add: req del: base64_encode.simps)
    moreover have "snd (read_loop is_uuid endless_guest Some (\<lambda>_. ''0'') p (chunks @ [0]) (off + 1) (Some 0) (Suc n) (Suc k))
        = Suc k + nat (max_safe_integer + 1 - (off + 1))"
      using less.prems False by (intro less.hyps) simp_all
    ultimately show ?thesis using less.prems False by simp
  qed
qed

lemma guest_read_endless:
  "snd (gw_read is_uuid endless_guest Some (\<lambda>_. ''0'') ''a'' 0) = 9007199254740992"
proof -
  have "RelativePath ''a''" by code_simp
  then show ?thesis
    using endless_loop[of "''a''" 0 None is_uuid "[]" 0 0] by (simp add: gw_read_def max_safe_integer_def)
qed

section \<open>Paths that the protocol does not know\<close>

text \<open>A path outside the protocol, the empty path of the root among them, is answered 501 without asking the guest.\<close>

lemma guest_list_empty_path:
  "gw_list is_uuid call as_list uuid [] s = (Inl (RuntimeData 501), s)"
  by (simp add: gw_list_def request_def GuestRequest_def WorkspaceDirectory_def RelativePath_def)

text \<open>The guest refuses a file at the top of the workspace, which the protocol accepts.\<close>

lemma guest_top_level_file:
  "RelativePath ''notes'' \<and> guest_write disk_sample ''notes'' 0 (base64_encode [1]) True = (Inl InvalidRequest, disk_sample)"
  by code_simp

end
