(* ===== verification/DataFiles.thy ===== *)
theory DataFiles
  imports FileTree
begin

text \<open>
  \<open>src/agent/data-files.ts\<close>: the file operations of the development runtime on a directory of the host. A
  root is an absolute path and a quota; the tree below it is the state. Every path the code builds is a string;
  the kernel reads it through \<open>locate\<close>, which tells the path from the root, or that it lies outside.
  \<open>serialized\<close> runs the writes and deletions of a root one after the other, so an operation is one step.
  \<open>locale_sort\<close> (the order of \<open>localeCompare\<close>) and \<open>mtime\<close> are parameters.
\<close>

definition MAX_FILE_TRANSFER_BYTES :: nat where "MAX_FILE_TRANSFER_BYTES = 8 * 1024 * 1024"
definition MAX_LIST_ENTRIES :: nat where "MAX_LIST_ENTRIES = 1000"
definition MAX_QUOTA_SCAN_ENTRIES :: nat where "MAX_QUOTA_SCAN_ENTRIES = 20000"

record data_root =
  dr_path :: string
  dr_quotaBytes :: nat

text \<open>A \<open>RuntimeDataError\<close> by its status, an error of the system, and the two ways to leave the tree.\<close>

datatype file_error = Data nat | Raw errno | Outside | LinkFollowed

section \<open>Paths and the kernel\<close>

definition abs_path :: "path \<Rightarrow> string" where
  "abs_path segs = slash # join_with slash segs"

definition path_segments :: "string \<Rightarrow> path" where
  "path_segments p = norm_segments False (split_on slash p)"

definition dirname :: "string \<Rightarrow> string" where
  "dirname p = (case last_index_of slash p of None \<Rightarrow> ''.'' | Some 0 \<Rightarrow> ''/'' | Some n \<Rightarrow> take n p)"

fun common :: "path \<Rightarrow> path \<Rightarrow> nat" where
  "common (a # as) (b # bs) = (if a = b then Suc (common as bs) else 0)"
| "common _ _ = 0"

text \<open>\<open>relative\<close> of two absolute paths.\<close>

definition relative :: "string \<Rightarrow> string \<Rightarrow> string" where
  "relative from to =
     (let f = path_segments from; t = path_segments to; k = common f t
      in join_with slash (replicate (length f - k) ''..'' @ drop k t))"

definition locate :: "data_root \<Rightarrow> string \<Rightarrow> path option" where
  "locate root p =
     (let r = path_segments (dr_path root); q = path_segments p
      in if take (length r) q = r then Some (drop (length r) q) else None)"

definition lstat :: "data_root \<Rightarrow> tree \<Rightarrow> string \<Rightarrow> (file_error, node) res" where
  "lstat root t p =
     (case locate root p of
        None \<Rightarrow> Inl Outside
      | Some segs \<Rightarrow> (case walk t [] segs of Inl (Errno e) \<Rightarrow> Inl (Raw e) | Inl Followed \<Rightarrow> Inl LinkFollowed | Inr n \<Rightarrow> Inr n))"

text \<open>\<open>mkdir\<close>, \<open>open\<close> for writing with \<open>O_CREAT | O_TRUNC | O_NOFOLLOW\<close> and \<open>writeFile\<close>, and \<open>rm\<close> of a file.\<close>

definition kernel_mkdir :: "data_root \<Rightarrow> tree \<Rightarrow> string \<Rightarrow> (file_error, unit) res \<times> tree" where
  "kernel_mkdir root t p =
     (case lstat root t (dirname p) of
        Inl e \<Rightarrow> (Inl e, t)
      | Inr Link \<Rightarrow> (Inl LinkFollowed, t)
      | Inr Dir \<Rightarrow> (case locate root p of
            None \<Rightarrow> (Inl Outside, t)
          | Some segs \<Rightarrow> if map_of t segs \<noteq> None then (Inl (Raw EEXIST), t) else (Inr (), AList.update segs Dir t))
      | Inr _ \<Rightarrow> (Inl (Raw ENOTDIR), t))"

definition kernel_write :: "data_root \<Rightarrow> tree \<Rightarrow> string \<Rightarrow> octets \<Rightarrow> (file_error, unit) res \<times> tree" where
  "kernel_write root t p contents =
     (case lstat root t p of
        Inr Link \<Rightarrow> (Inl (Raw ELOOP), t)
      | Inr Dir \<Rightarrow> (Inl (Raw EISDIR), t)
      | Inl (Raw ENOENT) \<Rightarrow>
          (case lstat root t (dirname p) of
             Inl e \<Rightarrow> (Inl e, t)
           | Inr Link \<Rightarrow> (Inl LinkFollowed, t)
           | Inr Dir \<Rightarrow> (case locate root p of None \<Rightarrow> (Inl Outside, t) | Some segs \<Rightarrow> (Inr (), AList.update segs (File contents) t))
           | Inr _ \<Rightarrow> (Inl (Raw ENOTDIR), t))
      | Inl e \<Rightarrow> (Inl e, t)
      | Inr (File _) \<Rightarrow> (case locate root p of None \<Rightarrow> (Inl Outside, t) | Some segs \<Rightarrow> (Inr (), AList.update segs (File contents) t))
      | Inr Special \<Rightarrow> (Inr (), t))"

definition kernel_rm :: "data_root \<Rightarrow> tree \<Rightarrow> string \<Rightarrow> (file_error, unit) res \<times> tree" where
  "kernel_rm root t p =
     (case lstat root t p of
        Inl e \<Rightarrow> (Inl e, t)
      | Inr Dir \<Rightarrow> (Inl (Raw EISDIR), t)
      | Inr _ \<Rightarrow> (case locate root p of None \<Rightarrow> (Inl Outside, t) | Some segs \<Rightarrow> (Inr (), AList.delete segs t)))"

section \<open>Checks\<close>

definition assertRoot :: "data_root \<Rightarrow> tree \<Rightarrow> (file_error, unit) res" where
  "assertRoot root t =
     (case lstat root t (dr_path root) of
        Inl (Raw ENOENT) \<Rightarrow> Inl (Data 409)
      | Inl e \<Rightarrow> Inl e
      | Inr Dir \<Rightarrow> Inr ()
      | Inr _ \<Rightarrow> Inl (Data 409))"

definition validateRelativePath :: "string \<Rightarrow> bool \<Rightarrow> (file_error, string) res" where
  "validateRelativePath v allowEmpty =
     (if 4096 < utf8_len v \<or> CHR 0x00 \<in> set v \<or> CHR 0x5C \<in> set v \<or> starts_with v ''/'' then Inl (Data 400)
      else if (v = [] \<or> v = ''.'') \<and> allowEmpty then Inr []
      else let parts = split_on slash v
           in if v = [] \<or> \<not> list_all (\<lambda>part. part \<noteq> [] \<and> part \<noteq> ''.'' \<and> part \<noteq> ''..'') parts then Inl (Data 400)
              else Inr (join_with slash parts))"

fun check_parts :: "data_root \<Rightarrow> tree \<Rightarrow> string \<Rightarrow> string list \<Rightarrow> (file_error, unit) res" where
  "check_parts root t cursor [] = Inr ()"
| "check_parts root t cursor (part # parts) =
     (let cursor' = join [cursor, part]
      in case lstat root t cursor' of
           Inl (Raw ENOENT) \<Rightarrow> Inl (Data 404)
         | Inl e \<Rightarrow> Inl e
         | Inr Link \<Rightarrow> Inl (Data 400)
         | Inr _ \<Rightarrow> check_parts root t cursor' parts)"

definition resolved :: "data_root \<Rightarrow> string" where
  "resolved root = resolve_abs (dr_path root)"

definition checkedExistingPath :: "data_root \<Rightarrow> tree \<Rightarrow> string \<Rightarrow> bool \<Rightarrow> (file_error, string) res" where
  "checkedExistingPath root t requestedPath allowEmpty =
     rbind (validateRelativePath requestedPath allowEmpty) (\<lambda>relativePath.
     let target = resolve (dr_path root) relativePath
     in if target \<noteq> resolved root \<and> \<not> starts_with target (resolved root @ ''/'') then Inl (Data 400)
        else rbind (check_parts root t (resolved root) (if relativePath = [] then [] else split_on slash relativePath))
               (\<lambda>_. Inr target))"

text \<open>The loop of \<open>ensureSafeParents\<close>: a missing parent is made, and looked at again.\<close>

fun make_parents :: "data_root \<Rightarrow> tree \<Rightarrow> string \<Rightarrow> string list \<Rightarrow> (file_error, unit) res \<times> tree" where
  "make_parents root t cursor [] = (Inr (), t)"
| "make_parents root t cursor (part # parts) =
     (let cursor' = join [cursor, part]
      in case lstat root t cursor' of
           Inr n \<Rightarrow> if n \<noteq> Dir then (Inl (Data 400), t) else make_parents root t cursor' parts
         | Inl (Raw ENOENT) \<Rightarrow>
             (case kernel_mkdir root t cursor' of
                (Inl e, t') \<Rightarrow> (Inl e, t')
              | (Inr _, t') \<Rightarrow>
                  (case lstat root t' cursor' of
                     Inl e \<Rightarrow> (Inl e, t')
                   | Inr n \<Rightarrow> if n \<noteq> Dir then (Inl (Data 400), t') else make_parents root t' cursor' parts))
         | Inl e \<Rightarrow> (Inl e, t))"

definition ensureSafeParents :: "data_root \<Rightarrow> tree \<Rightarrow> string \<Rightarrow> (file_error, unit) res \<times> tree" where
  "ensureSafeParents root t targetParent =
     (let relativeParent = relative (resolved root) targetParent
      in if starts_with relativeParent ''..'' \<or> resolve (dr_path root) relativeParent \<noteq> targetParent then (Inl (Data 400), t)
         else make_parents root t (resolved root) (if relativeParent = [] then [] else split_on slash relativeParent))"

definition regularFileSizeOrZero :: "data_root \<Rightarrow> tree \<Rightarrow> string \<Rightarrow> (file_error, nat) res" where
  "regularFileSizeOrZero root t target =
     (case lstat root t target of
        Inr (File b) \<Rightarrow> Inr (length b)
      | Inr _ \<Rightarrow> Inl (Data 400)
      | Inl (Raw ENOENT) \<Rightarrow> Inr 0
      | Inl e \<Rightarrow> Inl e)"

section \<open>The quota scan\<close>

text \<open>The entries of one directory: the pending directories (the last pushed first), the count and the bytes.\<close>

fun scan_entries :: "(path \<times> node) list \<Rightarrow> path list \<Rightarrow> nat \<Rightarrow> nat \<Rightarrow> (file_error, path list \<times> nat \<times> nat) res" where
  "scan_entries [] pending count bytes = Inr (pending, count, bytes)"
| "scan_entries ((p, n) # es) pending count bytes =
     (if MAX_QUOTA_SCAN_ENTRIES < Suc count then Inl (Data 413)
      else case n of
        Dir \<Rightarrow> scan_entries es (p # pending) (Suc count) bytes
      | File b \<Rightarrow> scan_entries es pending (Suc count) (bytes + length b)
      | _ \<Rightarrow> scan_entries es pending (Suc count) bytes)"

lemma scan_entries_count:
  "scan_entries es pending count bytes = Inr (pending', count', bytes') \<Longrightarrow>
     count' = count + length es \<and> (es = [] \<and> pending' = pending \<or> count' \<le> MAX_QUOTA_SCAN_ENTRIES)
     \<and> length pending' \<le> length pending + length es"
proof (induction es arbitrary: pending count bytes)
  case (Cons e es)
  obtain p n where e: "e = (p, n)" by (cases e)
  have b: "Suc count \<le> MAX_QUOTA_SCAN_ENTRIES" using Cons.prems e by (simp split: if_splits)
  obtain pending1 bytes1 where s: "scan_entries es pending1 (Suc count) bytes1 = Inr (pending', count', bytes')"
    and l: "length pending1 \<le> Suc (length pending)"
    using Cons.prems e b by (cases n) (force simp: not_less)+
  show ?case using Cons.IH[OF s] b l by auto
qed simp

function scan_loop :: "tree \<Rightarrow> path list \<Rightarrow> nat \<Rightarrow> nat \<Rightarrow> (file_error, nat) res" where
  "scan_loop t [] count bytes = Inr bytes"
| "scan_loop t (d # pending) count bytes =
     (case scan_entries (children t d) pending count bytes of
        Inl e \<Rightarrow> Inl e
      | Inr (pending', count', bytes') \<Rightarrow> scan_loop t pending' count' bytes')"
  by pat_completeness auto

termination
proof (relation "measure (\<lambda>(t, pending, count, bytes). 2 * (MAX_QUOTA_SCAN_ENTRIES - count) + length pending)")
  fix t d pending count bytes x pending' y count' bytes'
  assume "scan_entries (children t d) pending count bytes = Inr x" "(pending', y) = x" "(count', bytes') = y"
  then have "scan_entries (children t d) pending count bytes = Inr (pending', count', bytes')" by simp
  from scan_entries_count[OF this]
  show "((t, pending', count', bytes'), (t, d # pending, count, bytes))
      \<in> measure (\<lambda>(t, pending, count, bytes). 2 * (MAX_QUOTA_SCAN_ENTRIES - count) + length pending)"
    by auto
qed simp

definition directoryBytes :: "data_root \<Rightarrow> tree \<Rightarrow> (file_error, nat) res" where
  "directoryBytes root t = rbind (assertRoot root t) (\<lambda>_. scan_loop t [[]] 0 0)"

section \<open>Operations\<close>

record file_write =
  fw_size :: nat
  fw_usedBytes :: int
  fw_quotaBytes :: nat

record file_entry =
  fe_path :: string
  fe_type :: string
  fe_size :: nat
  fe_modifiedAt :: int

definition list_entry :: "(path \<Rightarrow> int) \<Rightarrow> data_root \<Rightarrow> tree \<Rightarrow> string \<Rightarrow> path \<Rightarrow> string \<Rightarrow> (file_error, file_entry) res" where
  "list_entry mtime root t target d name =
     (let entryPath = join [target, name]
      in rbind (lstat root t entryPath) (\<lambda>n.
         Inr \<lparr>fe_path = relative (dr_path root) entryPath,
              fe_type = (case n of Link \<Rightarrow> ''symlink'' | Dir \<Rightarrow> ''directory'' | _ \<Rightarrow> ''file''),
              fe_size = node_size n, fe_modifiedAt = mtime (d @ [name])\<rparr>))"

definition list_files ::
  "(string list \<Rightarrow> string list) \<Rightarrow> (path \<Rightarrow> int) \<Rightarrow> data_root \<Rightarrow> tree \<Rightarrow> string \<Rightarrow> (file_error, file_entry list) res" where
  "list_files locale_sort mtime root t requestedPath =
     rbind (assertRoot root t) (\<lambda>_.
     rbind (checkedExistingPath root t requestedPath True) (\<lambda>target.
     rbind (lstat root t target) (\<lambda>stat.
       if stat \<noteq> Dir then Inl (Data 400)
       else case locate root target of
         None \<Rightarrow> Inl Outside
       | Some d \<Rightarrow>
           let entries = map (last o fst) (children t d)
           in if MAX_LIST_ENTRIES < length entries then Inl (Data 413)
              else rmap (list_entry mtime root t target d) (locale_sort entries))))"

definition read_file :: "data_root \<Rightarrow> tree \<Rightarrow> string \<Rightarrow> (file_error, octets) res" where
  "read_file root t requestedPath =
     rbind (assertRoot root t) (\<lambda>_.
     rbind (checkedExistingPath root t requestedPath False) (\<lambda>target.
     case lstat root t target of
       Inl (Raw ELOOP) \<Rightarrow> Inl (Data 400)
     | Inl e \<Rightarrow> Inl e
     | Inr Link \<Rightarrow> Inl (Data 400)
     | Inr (File b) \<Rightarrow> if MAX_FILE_TRANSFER_BYTES < length b then Inl (Data 413) else Inr b
     | Inr _ \<Rightarrow> Inl (Data 400)))"

text \<open>The second half of \<open>write\<close>, once the parents are there: sizes, quota, and the write itself.\<close>

definition commit_write :: "data_root \<Rightarrow> tree \<Rightarrow> string \<Rightarrow> octets \<Rightarrow> (file_error, file_write) res \<times> tree" where
  "commit_write root t target contents =
     (case rbind (regularFileSizeOrZero root t target) (\<lambda>prior.
             rbind (directoryBytes root t) (\<lambda>used. Inr (int used - int prior + int (length contents)))) of
        Inl e \<Rightarrow> (Inl e, t)
      | Inr usedAfter \<Rightarrow>
          if int (dr_quotaBytes root) < usedAfter then (Inl (Data 413), t)
          else case kernel_write root t target contents of
            (Inl (Raw ELOOP), t') \<Rightarrow> (Inl (Data 400), t')
          | (Inl e, t') \<Rightarrow> (Inl e, t')
          | (Inr _, t') \<Rightarrow>
              (Inr \<lparr>fw_size = length contents, fw_usedBytes = usedAfter, fw_quotaBytes = dr_quotaBytes root\<rparr>, t'))"

definition write_file :: "data_root \<Rightarrow> tree \<Rightarrow> string \<Rightarrow> octets \<Rightarrow> (file_error, file_write) res \<times> tree" where
  "write_file root t requestedPath contents =
     (if MAX_FILE_TRANSFER_BYTES < length contents then (Inl (Data 413), t)
      else case rbind (assertRoot root t) (\<lambda>_. validateRelativePath requestedPath False) of
        Inl e \<Rightarrow> (Inl e, t)
      | Inr relativePath \<Rightarrow>
          let target = resolve (dr_path root) relativePath
          in case ensureSafeParents root t (dirname target) of
               (Inl e, t1) \<Rightarrow> (Inl e, t1)
             | (Inr _, t1) \<Rightarrow> commit_write root t1 target contents)"

definition delete_file :: "data_root \<Rightarrow> tree \<Rightarrow> string \<Rightarrow> (file_error, nat \<times> nat) res \<times> tree" where
  "delete_file root t requestedPath =
     (case rbind (assertRoot root t) (\<lambda>_. rbind (checkedExistingPath root t requestedPath False) (\<lambda>target.
             rbind (lstat root t target) (\<lambda>n. Inr (target, n)))) of
        Inl e \<Rightarrow> (Inl e, t)
      | Inr (target, Link) \<Rightarrow> (Inl (Data 400), t)
      | Inr (target, File b) \<Rightarrow>
          (case kernel_rm root t target of
             (Inl e, t1) \<Rightarrow> (Inl e, t1)
           | (Inr _, t1) \<Rightarrow> (rbind (directoryBytes root t1) (\<lambda>used. Inr (used, dr_quotaBytes root)), t1))
      | Inr (target, _) \<Rightarrow> (Inl (Data 400), t))"

section \<open>Absolute paths of plain segments\<close>

abbreviation plain_path :: "path \<Rightarrow> bool" where "plain_path P \<equiv> \<forall>s \<in> set P. plain s"

lemma split_abs: "plain_path S \<Longrightarrow> S \<noteq> [] \<Longrightarrow> split_on slash (abs_path S) = [] # S"
  using split_on_join[of S slash] by (auto simp: abs_path_def plain_def)

lemma path_segments_abs [simp]: "plain_path S \<Longrightarrow> path_segments (abs_path S) = S"
  by (cases "S = []") (simp_all add: path_segments_def split_abs norm_segments_def foldl_norm_plain, simp add: abs_path_def)

lemma resolve_abs_path [simp]: "plain_path S \<Longrightarrow> resolve_abs (abs_path S) = abs_path S"
  by (simp add: abs_path_def resolve_abs_id)

lemma join_segments_append: "a \<noteq> [] \<Longrightarrow> b \<noteq> [] \<Longrightarrow> join_with c (a @ b) = join_with c a @ c # join_with c b"
proof (induction a)
  case (Cons x a)
  obtain y ys where b: "b = y # ys" using Cons.prems(2) by (cases b) simp_all
  show ?case
  proof (cases a)
    case Nil
    then show ?thesis by (simp add: b)
  next
    case (Cons z zs)
    then show ?thesis using Cons.IH Cons.prems(2) by simp
  qed
qed simp

lemma abs_path_append: "S \<noteq> [] \<Longrightarrow> P \<noteq> [] \<Longrightarrow> abs_path (S @ P) = abs_path S @ slash # join_with slash P"
  by (simp add: abs_path_def join_segments_append)

lemma join_plain_relative:
  assumes "plain_path P" "P \<noteq> []"
  shows "\<not> isAbsolute (join_with slash P)" "join_with slash P \<noteq> []"
proof -
  obtain s ps where P: "P = s # ps" using assms(2) by (cases P) auto
  then have "s \<noteq> []" "slash \<notin> set s" using assms(1) by (auto simp: plain_def)
  then obtain c cs where s: "s = c # cs" "c \<noteq> slash" by (cases s) auto
  show "\<not> isAbsolute (join_with slash P)" using P s by (cases ps) (auto simp: isAbsolute_def starts_with_iff)
  show "join_with slash P \<noteq> []" using P s by (cases ps) auto
qed

lemma resolve_plain:
  assumes "plain_path S" "plain_path P" "S \<noteq> []" "P \<noteq> []"
  shows "resolve (abs_path S) (join_with slash P) = abs_path (S @ P)"
proof -
  have "resolve (abs_path S) (join_with slash P) = resolve_abs (abs_path (S @ P))"
    using join_plain_relative[OF assms(2,4)] by (simp add: resolve_def abs_path_append assms(3,4))
  then show ?thesis using assms(1,2) by (simp add: ball_Un)
qed

lemma resolve_empty:
  assumes "plain_path S" "S \<noteq> []"
  shows "resolve (abs_path S) [] = abs_path S"
proof -
  have "split_on slash (abs_path S @ ''/'') = split_on slash (abs_path S) @ split_on slash []"
    using split_on_append_sep[of slash "abs_path S" "[]"] by simp
  then have "norm_segments False (split_on slash (abs_path S @ ''/'')) = S"
    using split_abs[OF assms] assms(1) by (simp add: norm_segments_def foldl_norm_plain)
  then show ?thesis by (simp add: resolve_def isAbsolute_def starts_with_def resolve_abs_def abs_path_def)
qed

lemma join_cursor:
  assumes "plain_path S" "plain s" "S \<noteq> []"
  shows "join [abs_path S, s] = abs_path (S @ [s])"
proof -
  have ne: "s \<noteq> []" using assms(2) by (simp add: plain_def)
  have w: "join_with slash [abs_path S, s] = abs_path (S @ [s])" by (simp add: abs_path_append assms(3))
  have "normalize (abs_path (S @ [s])) = abs_path (S @ [s])"
  proof -
    have p: "plain_path (S @ [s])" using assms by simp
    have n: "norm_segments False (split_on slash (abs_path (S @ [s]))) = S @ [s]"
      using path_segments_abs[OF p] by (simp add: path_segments_def)
    have t: "\<not> ends_with (abs_path (S @ [s])) ''/''"
    proof
      assume "ends_with (abs_path (S @ [s])) ''/''"
      then obtain r where "abs_path (S @ [s]) = r @ slash # []" by (auto simp: ends_with_iff)
      then have "last (abs_path (S @ [s])) = slash" by simp
      moreover have "last (abs_path (S @ [s])) = last s" using ne by (simp add: abs_path_append assms(3))
      ultimately have "slash \<in> set s" using ne last_in_set by metis
      then show False using assms(2) by (simp add: plain_def)
    qed
    have a: "isAbsolute (abs_path (S @ [s]))" by (simp add: isAbsolute_def abs_path_def starts_with_def)
    have "join_with slash (S @ [s]) \<noteq> []" using join_plain_relative(2)[OF p] by simp
    then show ?thesis using n t a by (simp add: normalize_def abs_path_def Let_def)
  qed
  moreover have "filter (\<lambda>p. p \<noteq> []) [abs_path S, s] = [abs_path S, s]" using ne by (simp add: abs_path_def)
  ultimately show ?thesis unfolding join_def by (simp only: list.case w)
qed

lemma dirname_abs:
  assumes "plain s" "S \<noteq> []"
  shows "dirname (abs_path (S @ [s])) = abs_path S"
proof -
  have "slash \<notin> set s" using assms by (simp add: plain_def)
  then have "last_index_of slash (abs_path S @ slash # s) = Some (length (abs_path S))" by simp
  moreover have "abs_path S \<noteq> []" by (simp add: abs_path_def)
  ultimately show ?thesis using assms(2)
    by (simp add: dirname_def abs_path_append split: nat.split)
qed

lemma common_append [simp]: "common R (R @ P) = length R"
  by (induction R) simp_all

lemma relative_abs:
  "plain_path R \<Longrightarrow> plain_path P \<Longrightarrow> relative (abs_path R) (abs_path (R @ P)) = join_with slash P"
  by (simp add: relative_def ball_Un Let_def)

section \<open>A root\<close>

definition good_root :: "data_root \<Rightarrow> bool" where
  "good_root root \<longleftrightarrow> (\<exists>R. R \<noteq> [] \<and> plain_path R \<and> dr_path root = abs_path R)"

definition root_path :: "data_root \<Rightarrow> path \<Rightarrow> string" where
  "root_path root P = abs_path (path_segments (dr_path root) @ P)"

lemma good_root_ex:
  "good_root root \<Longrightarrow> \<exists>R. R \<noteq> [] \<and> plain_path R \<and> dr_path root = abs_path R \<and> (\<forall>P. root_path root P = abs_path (R @ P))"
  by (auto simp: good_root_def root_path_def)

lemma root_paths:
  assumes "good_root root"
  shows "dr_path root = root_path root []" "resolved root = root_path root []"
    and "plain_path P \<Longrightarrow> locate root (root_path root P) = Some P"
    and "plain_path P \<Longrightarrow> resolve (dr_path root) (join_with slash P) = root_path root P"
    and "plain_path P \<Longrightarrow> plain s \<Longrightarrow> join [root_path root P, s] = root_path root (P @ [s])"
    and "plain s \<Longrightarrow> dirname (root_path root (P @ [s])) = root_path root P"
    and "plain_path P \<Longrightarrow> relative (root_path root []) (root_path root P) = join_with slash P"
proof -
  obtain R where R: "R \<noteq> []" "plain_path R" "dr_path root = abs_path R" "\<forall>P. root_path root P = abs_path (R @ P)"
    using good_root_ex[OF assms] by blast
  show "dr_path root = root_path root []" "resolved root = root_path root []" using R by (simp_all add: resolved_def)
  show "plain_path P \<Longrightarrow> locate root (root_path root P) = Some P" using R by (simp add: locate_def ball_Un)
  show "plain_path P \<Longrightarrow> resolve (dr_path root) (join_with slash P) = root_path root P"
    using R resolve_plain[of R P] resolve_empty[of R] by (cases "P = []") simp_all
  show "plain_path P \<Longrightarrow> plain s \<Longrightarrow> join [root_path root P, s] = root_path root (P @ [s])"
    using R join_cursor[of "R @ P" s] by (simp add: ball_Un)
  show "plain s \<Longrightarrow> dirname (root_path root (P @ [s])) = root_path root P"
    using R dirname_abs[of s "R @ P"] by simp
  show "plain_path P \<Longrightarrow> relative (root_path root []) (root_path root P) = join_with slash P"
    using R relative_abs[of R P] by simp
qed

lemma root_path_below:
  assumes "good_root root" "P \<noteq> []"
  shows "starts_with (root_path root P) (root_path root [] @ ''/'')"
proof -
  obtain R where R: "R \<noteq> []" "\<forall>P. root_path root P = abs_path (R @ P)"
    using good_root_ex[OF assms(1)] by blast
  then show ?thesis using assms(2) by (simp add: abs_path_append starts_with_iff)
qed

lemma lstat_root_path:
  assumes "good_root root" "plain_path P"
  shows "lstat root t (root_path root P) =
    (case walk t [] P of Inl (Errno e) \<Rightarrow> Inl (Raw e) | Inl Followed \<Rightarrow> Inl LinkFollowed | Inr n \<Rightarrow> Inr n)"
  using root_paths(3)[OF assms] by (simp add: lstat_def)

section \<open>The scan counts the bytes of the tree\<close>

lemma tree_bytes_leaf:
  assumes "wf_tree t" "map_of t p = Some n" "n \<noteq> Dir"
  shows "tree_bytes t p = 0"
proof -
  have "\<not> under p (fst x)" if "x \<in> set t" for x
  proof
    assume u: "under p (fst x)"
    have "map_of t (fst x) = Some (snd x)" using that assms(1) by (simp add: wf_tree_def)
    from wf_prefix_dir[OF assms(1) this, of "length p"] u show False using assms(2,3) by (simp add: under_def)
  qed
  then have "filter (\<lambda>(p', n). under p p') t = []" by (auto simp: filter_empty_conv)
  then show ?thesis by (simp add: tree_bytes_def)
qed

lemma child_iff: "p \<noteq> [] \<and> butlast p = d \<longleftrightarrow> length p = Suc (length d) \<and> take (length d) p = d"
  by (cases p rule: rev_cases) auto

lemma under_child:
  assumes "wf_tree t" "(q, m) \<in> set t" "under d q"
  shows "\<exists>n. (take (Suc (length d)) q, n) \<in> set (children t d)"
proof -
  let ?c = "take (Suc (length d)) q"
  have q: "map_of t q = Some m" using assms(1,2) by (simp add: wf_tree_def)
  have "\<exists>n. map_of t ?c = Some n"
  proof (cases "length q = Suc (length d)")
    case True
    then show ?thesis using q by simp
  next
    case False
    then have "Suc (length d) < length q" using assms(3) by (simp add: under_def)
    then show ?thesis using wf_prefix_dir[OF assms(1) q] by blast
  qed
  then obtain n where "(?c, n) \<in> set t" using map_of_SomeD by metis
  moreover have "?c \<noteq> [] \<and> butlast ?c = d" using assms(3) unfolding child_iff by (simp add: under_def min_def)
  ultimately show ?thesis by (auto simp: children_def)
qed

lemma tree_bytes_children:
  assumes "wf_tree t"
  shows "tree_bytes t d = sum_list (map (\<lambda>(p, n). node_size n + (if n = Dir then tree_bytes t p else 0)) (children t d))"
proof -
  have dist: "distinct (map fst t)" using assms by (simp add: wf_tree_def)
  let ?A = "{x \<in> set t. under d (fst x)}" and ?C = "set (children t d)" and ?g = "\<lambda>x. take (Suc (length d)) (fst x)"
  have fib: "(\<Sum>x \<in> {x \<in> ?A. ?g x = p}. node_size (snd x)) = node_size n + (if n = Dir then tree_bytes t p else 0)"
    if c: "(p, n) \<in> ?C" for p n
  proof -
    have l: "length p = Suc (length d)" "take (length d) p = d" and pn: "(p, n) \<in> set t"
      using c child_iff[of p d] by (auto simp: children_def)
    have "{x \<in> ?A. ?g x = p} = insert (p, n) {x \<in> set t. under p (fst x)}"
    proof (intro set_eqI iffI)
      fix x assume x: "x \<in> {x \<in> ?A. ?g x = p}"
      show "x \<in> insert (p, n) {x \<in> set t. under p (fst x)}"
      proof (cases "length (fst x) = length p")
        case True
        then have "fst x = p" using x l by simp
        then have "x = (p, n)" using x pn dist by (metis (mono_tags, lifting) eq_key_imp_eq_value mem_Collect_eq prod.collapse)
        then show ?thesis by simp
      next
        case False
        then show ?thesis using x l by (auto simp: under_def)
      qed
    next
      fix x assume x: "x \<in> insert (p, n) {x \<in> set t. under p (fst x)}"
      have "take (length d) (fst x) = take (length d) (take (length p) (fst x))" using l by (simp add: min_def)
      then show "x \<in> {x \<in> ?A. ?g x = p}" using x l pn by (auto simp: under_def)
    qed
    moreover have "(p, n) \<notin> {x \<in> set t. under p (fst x)}" by (simp add: under_def)
    ultimately have "(\<Sum>x \<in> {x \<in> ?A. ?g x = p}. node_size (snd x)) = node_size n + tree_bytes t p"
      by (simp add: tree_bytes_sum[OF dist])
    moreover have "n \<noteq> Dir \<Longrightarrow> tree_bytes t p = 0" using tree_bytes_leaf[OF assms] pn dist by simp
    ultimately show ?thesis by simp
  qed
  have "distinct (map fst (children t d))" using dist by (simp add: children_def distinct_map_filter)
  then have inj: "inj_on fst ?C" and dc: "distinct (children t d)" by (simp_all add: distinct_map)
  have "?g ` ?A \<subseteq> fst ` ?C" using under_child[OF assms] by force
  then have t: "tree_bytes t d = (\<Sum>p \<in> fst ` ?C. \<Sum>x \<in> {x \<in> ?A. ?g x = p}. node_size (snd x))"
    unfolding tree_bytes_sum[OF dist] by (subst sum.group) simp_all
  also have "\<dots> = (\<Sum>c \<in> ?C. \<Sum>x \<in> {x \<in> ?A. ?g x = fst c}. node_size (snd x))" by (rule sum.reindex[OF inj, unfolded o_def])
  also have "\<dots> = (\<Sum>(p, n) \<in> ?C. node_size n + (if n = Dir then tree_bytes t p else 0))"
  proof (rule sum.cong[OF refl])
    fix c assume c: "c \<in> ?C"
    obtain p n where pn: "c = (p, n)" by (cases c)
    show "(\<Sum>x \<in> {x \<in> ?A. ?g x = fst c}. node_size (snd x)) = (case c of (p, n) \<Rightarrow> node_size n + (if n = Dir then tree_bytes t p else 0))"
      using fib[of p n] c unfolding pn by (simp only: fst_conv case_prod_conv)
  qed
  also have "\<dots> = sum_list (map (\<lambda>(p, n). node_size n + (if n = Dir then tree_bytes t p else 0)) (children t d))"
    using dc by (rule sum_list_distinct_conv_sum_set[symmetric])
  finally show ?thesis .
qed

lemma scan_entries_bytes:
  "scan_entries es pending count bytes = Inr (pending', count', bytes') \<Longrightarrow>
     bytes' + sum_list (map f pending') = bytes + sum_list (map f pending)
       + sum_list (map (\<lambda>(p, n). node_size n + (if n = Dir then f p else 0)) es)"
proof (induction es arbitrary: pending count bytes)
  case (Cons e es)
  obtain p n where e: "e = (p, n)" by (cases e)
  have "\<not> MAX_QUOTA_SCAN_ENTRIES < Suc count" using Cons.prems e by (simp split: if_splits)
  then show ?case using Cons e by (cases n) (auto simp: Cons.IH)
qed simp

lemma scan_loop_bytes:
  assumes "wf_tree t" "scan_loop t pending count bytes = Inr r"
  shows "r = bytes + sum_list (map (tree_bytes t) pending)"
  using assms
proof (induction t pending count bytes rule: scan_loop.induct)
  case (2 t d pending count bytes)
  obtain pending' count' bytes' where s: "scan_entries (children t d) pending count bytes = Inr (pending', count', bytes')"
    and r: "scan_loop t pending' count' bytes' = Inr r"
    using 2(3) by (auto split: sum.splits prod.splits)
  then show ?case
    using 2(1)[OF s refl refl 2(2) r] scan_entries_bytes[OF s, of "tree_bytes t"] tree_bytes_children[OF 2(2), of d] by simp
qed simp

lemma directoryBytes_Inr: "wf_tree t \<Longrightarrow> directoryBytes root t = Inr n \<Longrightarrow> n = tree_bytes t []"
  using scan_loop_bytes[of t "[[]]" 0 0 n] unfolding directoryBytes_def by (auto simp: rbind_Inr_iff)

section \<open>Requested paths\<close>

lemma validateRelativePath_plain:
  assumes "validateRelativePath v allowEmpty = Inr r"
  shows "\<exists>P. plain_path P \<and> r = join_with slash P \<and> (if r = [] then [] else split_on slash r) = P
     \<and> (\<not> allowEmpty \<longrightarrow> P = split_on slash v \<and> P \<noteq> [])"
proof (cases "(v = [] \<or> v = ''.'') \<and> allowEmpty")
  case True
  then have "r = []" using assms by (auto simp: validateRelativePath_def split: if_splits)
  then show ?thesis using True by (intro exI[of _ "[]"]) simp
next
  case False
  let ?P = "split_on slash v"
  have l: "list_all (\<lambda>part. part \<noteq> [] \<and> part \<noteq> ''.'' \<and> part \<noteq> ''..'') ?P" and r: "r = v"
    using assms False by (auto simp: validateRelativePath_def Let_def split: if_splits)
  have "plain s" if "s \<in> set ?P" for s
    using l that split_on_pieces[OF that] unfolding list_all_iff plain_def by blast
  then have p: "plain_path ?P" by blast
  have "[] \<notin> set ?P" using p by (auto simp: plain_def)
  then have "r \<noteq> []" using r by auto
  then show ?thesis using p r by (intro exI[of _ ?P]) simp
qed

section \<open>Walking without links\<close>

definition nolink :: "tree \<Rightarrow> path \<Rightarrow> bool" where
  "nolink t P \<longleftrightarrow> (\<forall>k \<le> length P. map_of t (take k P) \<noteq> Some Link)"

definition alldirs :: "tree \<Rightarrow> path \<Rightarrow> bool" where
  "alldirs t P \<longleftrightarrow> (\<forall>k \<le> length P. map_of t (take k P) = Some Dir)"

lemma walk_Inr: "walk t pre p = Inr n \<Longrightarrow> map_of t (pre @ p) = Some n"
  by (induction t pre p rule: walk.induct) (auto split: option.splits node.splits)

lemma nolink_snoc: "nolink t (P @ [s]) \<longleftrightarrow> nolink t P \<and> map_of t (P @ [s]) \<noteq> Some Link"
  unfolding nolink_def by (auto simp: le_Suc_eq)

lemma alldirs_snoc: "alldirs t (P @ [s]) \<longleftrightarrow> alldirs t P \<and> map_of t (P @ [s]) = Some Dir"
  unfolding alldirs_def by (auto simp: le_Suc_eq)

lemma nolink_walk:
  assumes "nolink t (butlast P)"
  shows "walk t [] P \<noteq> Inl Followed"
proof
  assume "walk t [] P = Inl Followed"
  from walk_Followed[OF this] obtain k where k: "k < length P" "map_of t (take k P) = Some Link" by auto
  then have "take k P = take k (butlast P)" "k \<le> length (butlast P)" by (simp_all add: take_butlast)
  then show False using assms k(2) by (simp add: nolink_def)
qed

lemma alldirs_nolink: "alldirs t P \<Longrightarrow> nolink t P"
  by (simp add: alldirs_def nolink_def)

lemma walk_alldirs_gen:
  "(\<forall>k \<le> length P. map_of t (pre @ take k P) = Some Dir) \<Longrightarrow>
     walk t pre (P @ [s]) = (case map_of t (pre @ P @ [s]) of None \<Rightarrow> Inl (Errno ENOENT) | Some n \<Rightarrow> Inr n)"
proof (induction P arbitrary: pre)
  case Nil
  then show ?case by simp
next
  case (Cons x P)
  have "map_of t pre = Some Dir" using Cons.prems by (metis append_Nil2 le0 take_0)
  moreover have "\<forall>k \<le> length P. map_of t ((pre @ [x]) @ take k P) = Some Dir"
  proof (intro allI impI)
    fix k assume "k \<le> length P"
    then show "map_of t ((pre @ [x]) @ take k P) = Some Dir" using Cons.prems[rule_format, of "Suc k"] by simp
  qed
  ultimately show ?case using Cons.IH[of "pre @ [x]"] by simp
qed

lemma lstat_alldirs:
  assumes "good_root root" "plain_path (P @ [s])" "alldirs t P"
  shows "lstat root t (root_path root (P @ [s])) = (case map_of t (P @ [s]) of None \<Rightarrow> Inl (Raw ENOENT) | Some n \<Rightarrow> Inr n)"
  using assms(3) lstat_root_path[OF assms(1,2), of t] walk_alldirs_gen[of P t "[]" s]
  by (simp add: alldirs_def split: option.splits)

lemma lstat_dir:
  assumes "good_root root" "plain_path P" "alldirs t P"
  shows "lstat root t (root_path root P) = Inr Dir"
proof (cases P rule: rev_cases)
  case Nil
  then show ?thesis using assms lstat_root_path[OF assms(1,2), of t] by (simp add: alldirs_def)
next
  case (snoc Q s)
  then show ?thesis using assms lstat_alldirs[of root Q s t] by (simp add: alldirs_snoc)
qed

lemma lstat_nolink:
  assumes "good_root root" "plain_path P" "nolink t (butlast P)"
  shows "lstat root t (root_path root P) \<noteq> Inl Outside" "lstat root t (root_path root P) \<noteq> Inl LinkFollowed"
proof -
  have "walk t [] P \<noteq> Inl Followed" by (rule nolink_walk[OF assms(3)])
  then show "lstat root t (root_path root P) \<noteq> Inl Outside" "lstat root t (root_path root P) \<noteq> Inl LinkFollowed"
    using lstat_root_path[OF assms(1,2), of t] by (auto split: sum.splits walk_error.splits)
qed

lemma lstat_Inr:
  assumes "good_root root" "plain_path P" "lstat root t (root_path root P) = Inr n"
  shows "map_of t P = Some n"
  using assms(3) lstat_root_path[OF assms(1,2), of t] walk_Inr[of t "[]" P] by (auto split: sum.splits walk_error.splits)

lemma assertRoot_Inr: "good_root root \<Longrightarrow> assertRoot root t = Inr u \<Longrightarrow> alldirs t []"
  using lstat_Inr[of root "[]" t] root_paths(1)[of root]
  by (auto simp: assertRoot_def alldirs_def split: sum.splits node.splits file_error.splits errno.splits)

lemma assertRoot_stays:
  assumes "good_root root"
  shows "assertRoot root t \<noteq> Inl Outside" "assertRoot root t \<noteq> Inl LinkFollowed"
proof -
  have "lstat root t (dr_path root) \<noteq> Inl Outside \<and> lstat root t (dr_path root) \<noteq> Inl LinkFollowed"
    using lstat_root_path[OF assms, of "[]" t] root_paths(1)[OF assms] by (auto split: option.splits)
  then show "assertRoot root t \<noteq> Inl Outside" "assertRoot root t \<noteq> Inl LinkFollowed"
    by (auto simp: assertRoot_def split: sum.splits node.splits file_error.splits errno.splits)
qed

section \<open>Existing paths\<close>

lemma check_parts_run:
  assumes "good_root root" "plain_path (S @ P)" "nolink t S"
  shows "check_parts root t (root_path root S) P \<noteq> Inl Outside \<and> check_parts root t (root_path root S) P \<noteq> Inl LinkFollowed
    \<and> (check_parts root t (root_path root S) P = Inr () \<longrightarrow> nolink t (S @ P) \<and> (P \<noteq> [] \<longrightarrow> map_of t (S @ P) \<noteq> None))"
  using assms(2,3)
proof (induction P arbitrary: S)
  case (Cons s P)
  have pp: "plain_path (S @ [s])" and ps: "plain_path S" "plain s" using Cons.prems(1) by auto
  have c: "join [root_path root S, s] = root_path root (S @ [s])" using root_paths(5)[OF assms(1) ps] .
  show ?case
  proof (cases "lstat root t (root_path root (S @ [s]))")
    case (Inl e)
    then have "e \<noteq> Outside" "e \<noteq> LinkFollowed" using lstat_nolink[OF assms(1) pp, of t] Cons.prems(2) by auto
    then show ?thesis using Inl c by (auto split: file_error.splits errno.splits)
  next
    case (Inr n)
    show ?thesis
    proof (cases "n = Link")
      case True
      then show ?thesis using Inr c by simp
    next
      case False
      have m: "map_of t (S @ [s]) = Some n" using lstat_Inr[OF assms(1) pp Inr] .
      then have "nolink t (S @ [s])" using Cons.prems(2) False by (simp add: nolink_snoc)
      moreover have "check_parts root t (root_path root S) (s # P) = check_parts root t (root_path root (S @ [s])) P"
        using Inr c False by (cases n) simp_all
      ultimately show ?thesis using Cons.IH[of "S @ [s]"] Cons.prems(1) m by (cases P) auto
    qed
  qed
qed simp

lemma checkedExistingPath_run:
  assumes "good_root root" "nolink t []"
  shows "checkedExistingPath root t v allowEmpty \<noteq> Inl Outside" "checkedExistingPath root t v allowEmpty \<noteq> Inl LinkFollowed"
    and "checkedExistingPath root t v allowEmpty = Inr target \<Longrightarrow>
      \<exists>P. plain_path P \<and> target = root_path root P \<and> nolink t P \<and> (\<not> allowEmpty \<longrightarrow> P = split_on slash v \<and> map_of t P \<noteq> None)"
proof -
  have "checkedExistingPath root t v allowEmpty \<noteq> Inl Outside \<and> checkedExistingPath root t v allowEmpty \<noteq> Inl LinkFollowed
    \<and> (checkedExistingPath root t v allowEmpty = Inr target \<longrightarrow>
      (\<exists>P. plain_path P \<and> target = root_path root P \<and> nolink t P \<and> (\<not> allowEmpty \<longrightarrow> P = split_on slash v \<and> map_of t P \<noteq> None)))"
  proof (cases "validateRelativePath v allowEmpty")
    case (Inl e)
    then have "e = Data 400" by (auto simp: validateRelativePath_def Let_def split: if_splits)
    then show ?thesis using Inl by (simp add: checkedExistingPath_def)
  next
    case (Inr r)
    obtain P where P: "plain_path P" "r = join_with slash P" "(if r = [] then [] else split_on slash r) = P"
      "\<not> allowEmpty \<longrightarrow> P = split_on slash v \<and> P \<noteq> []"
      using validateRelativePath_plain[OF Inr] by blast
    have target: "resolve (dr_path root) r = root_path root P" using root_paths(4)[OF assms(1) P(1)] P(2) by simp
    have base: "resolved root = root_path root []" by (rule root_paths(2)[OF assms(1)])
    have inside: "root_path root P = root_path root [] \<or> starts_with (root_path root P) (root_path root [] @ ''/'')"
      using root_path_below[OF assms(1), of P] by (cases "P = []") auto
    have run: "checkedExistingPath root t v allowEmpty
        = rbind (check_parts root t (root_path root []) P) (\<lambda>_. Inr (root_path root P))"
      using Inr inside by (simp only: checkedExistingPath_def rbind_simps Let_def target base P(3)) auto
    show ?thesis
      using check_parts_run[OF assms(1), of "[]" P t] P(1,4) assms(2)
      unfolding run by (cases "check_parts root t (root_path root []) P") auto
  qed
  then show "checkedExistingPath root t v allowEmpty \<noteq> Inl Outside" "checkedExistingPath root t v allowEmpty \<noteq> Inl LinkFollowed"
    "checkedExistingPath root t v allowEmpty = Inr target \<Longrightarrow>
      \<exists>P. plain_path P \<and> target = root_path root P \<and> nolink t P \<and> (\<not> allowEmpty \<longrightarrow> P = split_on slash v \<and> map_of t P \<noteq> None)"
    by blast+
qed

section \<open>Writing\<close>

lemma kernel_mkdir_run:
  assumes "good_root root" "plain_path (P @ [s])" "alldirs t P" "map_of t (P @ [s]) = None"
  shows "kernel_mkdir root t (root_path root (P @ [s])) = (Inr (), AList.update (P @ [s]) Dir t)"
proof -
  have "dirname (root_path root (P @ [s])) = root_path root P" using root_paths(6)[OF assms(1)] assms(2) by simp
  moreover have "lstat root t (root_path root P) = Inr Dir" using lstat_dir[OF assms(1) _ assms(3)] assms(2) by simp
  ultimately show ?thesis using root_paths(3)[OF assms(1,2)] assms(4) by (simp add: kernel_mkdir_def)
qed

lemma alldirs_mkdir: "alldirs t P \<Longrightarrow> alldirs (AList.update (P @ [s]) Dir t) (P @ [s])"
  unfolding alldirs_def by (auto simp: update_conv' le_Suc_eq)

lemma make_parents_run:
  assumes "good_root root" "plain_path (S @ P)" "alldirs t S" "make_parents root t (root_path root S) P = (r, t')"
  shows "r \<noteq> Inl Outside \<and> r \<noteq> Inl LinkFollowed \<and> grown t t' \<and> (r = Inr () \<longrightarrow> alldirs t' (S @ P))"
  using assms(2-4)
proof (induction P arbitrary: S t)
  case (Cons s P)
  have pp: "plain_path (S @ [s])" and ps: "plain_path S" "plain s" using Cons.prems(1) by auto
  have c: "join [root_path root S, s] = root_path root (S @ [s])" using root_paths(5)[OF assms(1) ps] .
  have l: "lstat root t (root_path root (S @ [s])) = (case map_of t (S @ [s]) of None \<Rightarrow> Inl (Raw ENOENT) | Some n \<Rightarrow> Inr n)"
    by (rule lstat_alldirs[OF assms(1) pp Cons.prems(2)])
  show ?case
  proof (cases "map_of t (S @ [s])")
    case (Some n)
    show ?thesis
    proof (cases "n = Dir")
      case True
      then have "alldirs t (S @ [s])" using Cons.prems(2) Some by (simp add: alldirs_snoc)
      then show ?thesis using Cons.IH[of "S @ [s]" t] Cons.prems l Some True c by simp
    next
      case False
      then show ?thesis using Cons.prems(3) l Some c by (auto simp: Let_def)
    qed
  next
    case None
    let ?t = "AList.update (S @ [s]) Dir t"
    have d: "alldirs ?t (S @ [s])" by (rule alldirs_mkdir[OF Cons.prems(2)])
    have "map_of t S = Some Dir" using Cons.prems(2) unfolding alldirs_def by (metis order_refl take_all)
    then have g: "grown t ?t" using None by (intro grown_mkdir)
    have "lstat root ?t (root_path root (S @ [s])) = Inr Dir" by (rule lstat_dir[OF assms(1) pp d])
    then have "make_parents root ?t (root_path root (S @ [s])) P = (r, t')"
      using Cons.prems(3) l None kernel_mkdir_run[OF assms(1) pp Cons.prems(2) None] c by simp
    then show ?thesis using Cons.IH[of "S @ [s]" ?t] Cons.prems(1) d g grown_trans by fastforce
  qed
qed auto

lemma directoryBytes_stays:
  assumes "good_root root"
  shows "directoryBytes root t \<noteq> Inl Outside" "directoryBytes root t \<noteq> Inl LinkFollowed"
proof -
  have "scan_entries es ps c b \<noteq> Inl Outside \<and> scan_entries es ps c b \<noteq> Inl LinkFollowed" for es ps c b
    by (induction es ps c b rule: scan_entries.induct) (auto split: node.splits)
  then have s: "scan_loop t ps c b \<noteq> Inl Outside \<and> scan_loop t ps c b \<noteq> Inl LinkFollowed" for ps c b
    by (induction t ps c b rule: scan_loop.induct) (auto split: sum.splits prod.splits)
  show "directoryBytes root t \<noteq> Inl Outside" "directoryBytes root t \<noteq> Inl LinkFollowed"
    using s[of "[[]]" 0 0] assertRoot_stays[OF assms, of t] by (cases "assertRoot root t"; simp add: directoryBytes_def)+
qed

text \<open>What a successful write has done, from a tree in which the parents exist.\<close>

definition written :: "data_root \<Rightarrow> tree \<Rightarrow> path \<Rightarrow> octets \<Rightarrow> file_write \<Rightarrow> tree \<Rightarrow> bool" where
  "written root t P contents w t' \<longleftrightarrow> t' = AList.update P (File contents) t \<and> plain_path P \<and> P \<noteq> [] \<and> alldirs t (butlast P)
     \<and> (\<exists>prior used. (case map_of t P of None \<Rightarrow> prior = 0 | Some n \<Rightarrow> \<exists>b. n = File b \<and> prior = length b)
         \<and> directoryBytes root t = Inr used \<and> fw_usedBytes w = int used - int prior + int (length contents))
     \<and> fw_usedBytes w \<le> int (dr_quotaBytes root) \<and> fw_size w = length contents \<and> fw_quotaBytes w = dr_quotaBytes root"

lemma commit_write_run:
  assumes "good_root root" "plain_path P" "P \<noteq> []" "alldirs t (butlast P)"
    and "commit_write root t (root_path root P) contents = (r, t')"
  shows "r \<noteq> Inl Outside \<and> r \<noteq> Inl LinkFollowed \<and> (case r of Inl e \<Rightarrow> t' = t | Inr w \<Rightarrow> written root t P contents w t')"
proof -
  have PP: "P = butlast P @ [last P]" and pb: "plain_path (butlast P)" "plain (last P)"
    using assms(2,3) by (auto dest: in_set_butlastD)
  have ls: "lstat root t (root_path root P) = (case map_of t P of None \<Rightarrow> Inl (Raw ENOENT) | Some n \<Rightarrow> Inr n)"
    using lstat_alldirs[OF assms(1) _ assms(4), of "last P"] assms(2) PP by simp
  have loc: "locate root (root_path root P) = Some P" using root_paths(3)[OF assms(1,2)] .
  have dn: "dirname (root_path root P) = root_path root (butlast P)" using root_paths(6)[OF assms(1) pb(2), of "butlast P"] PP by simp
  have ld: "lstat root t (dirname (root_path root P)) = Inr Dir" using lstat_dir[OF assms(1) pb(1) assms(4)] dn by simp
  let ?u = "rbind (regularFileSizeOrZero root t (root_path root P)) (\<lambda>prior.
                  rbind (directoryBytes root t) (\<lambda>used. Inr (int used - int prior + int (length contents))))"
  show ?thesis
  proof (cases ?u)
    case (Inl e)
    have "regularFileSizeOrZero root t (root_path root P) \<noteq> Inl Outside \<and> regularFileSizeOrZero root t (root_path root P) \<noteq> Inl LinkFollowed"
      using ls by (auto simp: regularFileSizeOrZero_def split: option.splits node.splits)
    then have "e \<noteq> Outside" "e \<noteq> LinkFollowed" using Inl directoryBytes_stays[OF assms(1), of t] by (auto simp: rbind_Inl_iff)
    then show ?thesis using assms(5) Inl by (auto simp: commit_write_def)
  next
    case (Inr ua)
    then obtain prior used where pu: "regularFileSizeOrZero root t (root_path root P) = Inr prior" "directoryBytes root t = Inr used"
      "ua = int used - int prior + int (length contents)" by (auto simp: rbind_Inr_iff)
    have prior: "case map_of t P of None \<Rightarrow> prior = 0 | Some n \<Rightarrow> \<exists>b. n = File b \<and> prior = length b"
      using pu(1) ls by (auto simp: regularFileSizeOrZero_def split: option.splits node.splits)
    have kw: "kernel_write root t (root_path root P) contents = (Inr (), AList.update P (File contents) t)"
      using prior ls ld loc by (auto simp: kernel_write_def split: option.splits)
    show ?thesis
    proof (cases "int (dr_quotaBytes root) < ua")
      case True
      then show ?thesis using assms(5) Inr by (auto simp: commit_write_def)
    next
      case False
      then have "r = Inr \<lparr>fw_size = length contents, fw_usedBytes = ua, fw_quotaBytes = dr_quotaBytes root\<rparr>"
        "t' = AList.update P (File contents) t" using assms(5) Inr kw by (simp_all add: commit_write_def)
      then show ?thesis using assms(2-4) prior pu(2,3) False by (auto simp: written_def)
    qed
  qed
qed

lemma ensureSafeParents_run:
  assumes "good_root root" "plain_path Q" "alldirs t []" "ensureSafeParents root t (root_path root Q) = (q, t')"
  shows "q \<noteq> Inl Outside \<and> q \<noteq> Inl LinkFollowed \<and> grown t t' \<and> (q = Inr () \<longrightarrow> alldirs t' Q)"
proof -
  have rp: "relative (resolved root) (root_path root Q) = join_with slash Q"
    using root_paths(7)[OF assms(1,2)] root_paths(2)[OF assms(1)] by simp
  have sp: "(if join_with slash Q = [] then [] else split_on slash (join_with slash Q)) = Q"
  proof (cases "Q = []")
    case False
    then show ?thesis using join_plain_relative(2)[OF assms(2) False] split_on_join[OF False, of slash] assms(2) by (auto simp: plain_def)
  qed simp
  have "ensureSafeParents root t (root_path root Q) =
       (if starts_with (join_with slash Q) ''..'' then (Inl (Data 400), t) else make_parents root t (root_path root []) Q)"
    unfolding ensureSafeParents_def Let_def rp sp root_paths(4)[OF assms(1,2)]
    using root_paths(2)[OF assms(1)] by simp
  then show ?thesis using make_parents_run[OF assms(1), of "[]" Q t q t'] assms(2-4) by (auto split: if_splits)
qed

lemma write_file_run:
  assumes "good_root root" "write_file root t v contents = (r, t')"
  shows "r \<noteq> Inl Outside \<and> r \<noteq> Inl LinkFollowed \<and>
    (case r of Inl e \<Rightarrow> grown t t'
     | Inr w \<Rightarrow> length contents \<le> MAX_FILE_TRANSFER_BYTES \<and> (\<exists>rel. validateRelativePath v False = Inr rel) \<and> (\<exists>t1. grown t t1 \<and> written root t1 (split_on slash v) contents w t'))"
proof (cases "MAX_FILE_TRANSFER_BYTES < length contents")
  case True
  then show ?thesis using assms(2) by (auto simp: write_file_def)
next
  case small: False
  show ?thesis
  proof (cases "rbind (assertRoot root t) (\<lambda>_. validateRelativePath v False)")
    case (Inl e)
    have "validateRelativePath v False \<noteq> Inl Outside" "validateRelativePath v False \<noteq> Inl LinkFollowed"
      by (auto simp: validateRelativePath_def Let_def)
    then have "e \<noteq> Outside" "e \<noteq> LinkFollowed" using Inl assertRoot_stays[OF assms(1), of t] by (auto simp: rbind_Inl_iff)
    then show ?thesis using assms(2) Inl small by (auto simp: write_file_def)
  next
    case (Inr rel)
    then have root: "alldirs t []" and val: "validateRelativePath v False = Inr rel"
      using assertRoot_Inr[OF assms(1), of t] by (auto simp: rbind_Inr_iff)
    let ?P = "split_on slash v"
    have P: "plain_path ?P" "rel = join_with slash ?P" "?P \<noteq> []"
      using validateRelativePath_plain[OF val] by auto
    have PP: "?P = butlast ?P @ [last ?P]" and pb: "plain_path (butlast ?P)" "plain (last ?P)"
      using P by (auto dest: in_set_butlastD)
    have target: "resolve (dr_path root) rel = root_path root ?P" using root_paths(4)[OF assms(1) P(1)] P(2) by simp
    have dn: "dirname (root_path root ?P) = root_path root (butlast ?P)"
      using root_paths(6)[OF assms(1) pb(2), of "butlast ?P"] PP by simp
    obtain q t1 where q: "ensureSafeParents root t (root_path root (butlast ?P)) = (q, t1)"
      by (cases "ensureSafeParents root t (root_path root (butlast ?P))")
    note qs = ensureSafeParents_run[OF assms(1) pb(1) root q]
    have w: "write_file root t v contents = (case q of Inl e \<Rightarrow> (Inl e, t1) | Inr _ \<Rightarrow> commit_write root t1 (root_path root ?P) contents)"
      using small Inr q by (simp add: write_file_def target dn Let_def split: sum.split)
    show ?thesis
    proof (cases q)
      case (Inl e)
      then show ?thesis using w assms(2) qs by auto
    next
      case (Inr u)
      then have "commit_write root t1 (root_path root ?P) contents = (r, t')" and d: "alldirs t1 (butlast ?P)"
        using w assms(2) qs by simp_all
      from commit_write_run[OF assms(1) P(1,3) d this(1)] show ?thesis using qs small val by (auto split: sum.splits)
    qed
  qed
qed

section \<open>Reading and deleting\<close>

definition contents_of :: "tree \<Rightarrow> string \<Rightarrow> octets option" where
  "contents_of t v = (case map_of t (split_on slash v) of Some (File b) \<Rightarrow> Some b | _ \<Rightarrow> None)"

lemma split_on_inject: "split_on slash v = split_on slash u \<longleftrightarrow> v = u"
  by (metis join_split_on)

lemma alldirs_take: "alldirs t P \<Longrightarrow> k \<le> length P \<Longrightarrow> alldirs t (take k P)"
  unfolding alldirs_def by (simp add: min_def)

lemma alldirs_Nil: "alldirs t P \<Longrightarrow> alldirs t []"
  using alldirs_take[of t P 0] by simp

lemma check_parts_ok:
  assumes "good_root root" "plain_path (S @ P)" "alldirs t S" "P \<noteq> []" "alldirs t (butlast (S @ P))"
    and "map_of t (S @ P) = Some n" "n \<noteq> Link"
  shows "check_parts root t (root_path root S) P = Inr ()"
  using assms(2-6)
proof (induction P arbitrary: S)
  case (Cons s P)
  have pp: "plain_path (S @ [s])" and ps: "plain_path S" "plain s" using Cons.prems(1) by auto
  have c: "join [root_path root S, s] = root_path root (S @ [s])" using root_paths(5)[OF assms(1) ps] .
  have l: "lstat root t (root_path root (S @ [s])) = (case map_of t (S @ [s]) of None \<Rightarrow> Inl (Raw ENOENT) | Some n \<Rightarrow> Inr n)"
    by (rule lstat_alldirs[OF assms(1) pp Cons.prems(2)])
  show ?case
  proof (cases "P = []")
    case True
    then show ?thesis using Cons.prems(5) assms(7) c l by (cases n) simp_all
  next
    case False
    have "butlast (S @ s # P) = S @ s # butlast P" using False by (simp add: butlast_append)
    then have "alldirs t (S @ [s])" using alldirs_take[OF Cons.prems(4), of "Suc (length S)"] by simp
    then show ?thesis using Cons.IH[of "S @ [s]"] Cons.prems c l False by (simp add: alldirs_snoc)
  qed
qed simp

lemma read_file_Inr:
  assumes "good_root root" "read_file root t v = Inr b"
  shows "contents_of t v = Some b \<and> length b \<le> MAX_FILE_TRANSFER_BYTES"
proof -
  obtain target where r: "assertRoot root t = Inr ()" "checkedExistingPath root t v False = Inr target"
    and l: "(case lstat root t target of
       Inl (Raw ELOOP) \<Rightarrow> Inl (Data 400)
     | Inl e \<Rightarrow> Inl e
     | Inr Link \<Rightarrow> Inl (Data 400)
     | Inr (File b) \<Rightarrow> if MAX_FILE_TRANSFER_BYTES < length b then Inl (Data 413) else Inr b
     | Inr _ \<Rightarrow> Inl (Data 400)) = Inr b"
    using assms(2) by (auto simp: read_file_def rbind_Inr_iff)
  have b: "lstat root t target = Inr (File b)" "length b \<le> MAX_FILE_TRANSFER_BYTES"
    using l by (auto split: sum.splits file_error.splits errno.splits node.splits if_splits)
  have "nolink t []" using assertRoot_Inr[OF assms(1) r(1)] by (rule alldirs_nolink)
  then obtain P where P: "plain_path P" "target = root_path root P" "P = split_on slash v"
    using checkedExistingPath_run(3)[OF assms(1) _ r(2)] by auto
  then have "map_of t P = Some (File b)" using lstat_Inr[OF assms(1) P(1)] b(1) by simp
  then show ?thesis using P(3) b(2) by (simp add: contents_of_def)
qed

lemma read_file_ok:
  assumes "good_root root" "validateRelativePath v False = Inr rel" "alldirs t (butlast (split_on slash v))"
    and "map_of t (split_on slash v) = Some (File b)" "length b \<le> MAX_FILE_TRANSFER_BYTES"
  shows "read_file root t v = Inr b"
proof -
  let ?P = "split_on slash v"
  have P: "plain_path ?P" "rel = join_with slash ?P" "?P \<noteq> []" "(if rel = [] then [] else split_on slash rel) = ?P"
    using validateRelativePath_plain[OF assms(2)] by auto
  have d: "alldirs t []" using assms(3) by (rule alldirs_Nil)
  have base: "resolved root = root_path root []" "dr_path root = root_path root []" by (rule root_paths(2,1)[OF assms(1)])+
  have target: "resolve (dr_path root) rel = root_path root ?P" using root_paths(4)[OF assms(1) P(1)] P(2) by simp
  have "lstat root t (root_path root []) = Inr Dir" by (rule lstat_dir[OF assms(1) _ d]) simp
  then have a: "assertRoot root t = Inr ()" by (simp add: assertRoot_def base(2))
  have cp: "check_parts root t (root_path root []) ?P = Inr ()"
    using check_parts_ok[OF assms(1), of "[]" ?P t "File b"] P(1,3) d assms(3,4) by simp
  have inside: "starts_with (root_path root ?P) (root_path root [] @ ''/'')" by (rule root_path_below[OF assms(1) P(3)])
  have "checkedExistingPath root t v False = Inr (root_path root ?P)"
    using assms(2) inside cp by (simp only: checkedExistingPath_def rbind_simps Let_def target base(1) P(4)) simp
  moreover have "lstat root t (root_path root ?P) = Inr (File b)"
    using lstat_alldirs[OF assms(1) _ assms(3), of "last ?P"] P(1,3) assms(4) by simp
  ultimately show ?thesis using a assms(5) by (simp add: read_file_def)
qed

lemma delete_file_run:
  assumes "good_root root" "delete_file root t v = (r, t')"
  shows "r \<noteq> Inl Outside \<and> r \<noteq> Inl LinkFollowed \<and>
    (t' = t \<and> (\<exists>e. r = Inl e) \<or> (\<exists>b. map_of t (split_on slash v) = Some (File b) \<and> t' = AList.delete (split_on slash v) t
        \<and> r = rbind (directoryBytes root t') (\<lambda>used. Inr (used, dr_quotaBytes root))))"
proof (cases "rbind (assertRoot root t) (\<lambda>_. rbind (checkedExistingPath root t v False) (\<lambda>target.
             rbind (lstat root t target) (\<lambda>n. Inr (target, n))))")
  case (Inl e)
  have "e \<noteq> Outside \<and> e \<noteq> LinkFollowed"
  proof (cases "assertRoot root t")
    case (Inl e')
    then show ?thesis using \<open>rbind _ _ = Inl e\<close> assertRoot_stays[OF assms(1), of t] by auto
  next
    case (Inr u)
    then have n: "nolink t []" using assertRoot_Inr[OF assms(1)] by (auto intro: alldirs_nolink)
    show ?thesis
    proof (cases "checkedExistingPath root t v False")
      case (Inl e')
      then show ?thesis using \<open>rbind _ _ = Inl e\<close> Inr checkedExistingPath_run(1,2)[OF assms(1) n, of v False] by auto
    next
      case (Inr target)
      obtain P where P: "plain_path P" "target = root_path root P" "nolink t P"
        using checkedExistingPath_run(3)[OF assms(1) n Inr] by auto
      have "nolink t (butlast P)" using P(3) by (cases P rule: rev_cases) (simp_all add: nolink_snoc)
      then show ?thesis using \<open>rbind _ _ = Inl e\<close> \<open>assertRoot root t = Inr u\<close> Inr lstat_nolink[OF assms(1) P(1), of t] P(2)
        by (auto simp: rbind_Inl_iff)
    qed
  qed
  then show ?thesis using assms(2) Inl by (auto simp: delete_file_def)
next
  case (Inr x)
  obtain target n where x: "x = (target, n)" by (cases x)
  have r: "assertRoot root t = Inr ()" "checkedExistingPath root t v False = Inr target" "lstat root t target = Inr n"
    using Inr x by (auto simp: rbind_Inr_iff)
  have nl: "nolink t []" using assertRoot_Inr[OF assms(1) r(1)] by (rule alldirs_nolink)
  obtain P where P: "plain_path P" "target = root_path root P" "P = split_on slash v"
    using checkedExistingPath_run(3)[OF assms(1) nl r(2)] by auto
  have m: "map_of t P = Some n" using lstat_Inr[OF assms(1) P(1)] r(3) P(2) by simp
  show ?thesis
  proof (cases n)
    case (File b)
    have "kernel_rm root t target = (Inr (), AList.delete P t)"
      using r(3) File root_paths(3)[OF assms(1) P(1)] P(2) by (simp add: kernel_rm_def)
    then have "t' = AList.delete P t" "r = rbind (directoryBytes root t') (\<lambda>used. Inr (used, dr_quotaBytes root))"
      using assms(2) Inr x File by (auto simp: delete_file_def)
    then show ?thesis using m File P(3) directoryBytes_stays[OF assms(1), of t'] by (auto simp: rbind_Inl_iff)
  qed (use assms(2) Inr x in \<open>auto simp: delete_file_def\<close>)
qed

lemma contents_grown: "grown t t' \<Longrightarrow> contents_of t' = contents_of t"
proof
  fix v assume g: "grown t t'"
  let ?P = "split_on slash v"
  have "map_of t' ?P = map_of t ?P \<or> map_of t ?P = None \<and> map_of t' ?P = Some Dir" using g unfolding grown_def by blast
  then show "contents_of t' v = contents_of t v" by (auto simp: contents_of_def)
qed

lemma contents_update: "contents_of (AList.update (split_on slash v) (File c) t) = (contents_of t)(v \<mapsto> c)"
  by (auto simp: contents_of_def update_conv' split_on_inject)

lemma contents_delete: "contents_of (AList.delete (split_on slash v) t) = (contents_of t)(v := None)"
  by (auto simp: contents_of_def delete_conv' split_on_inject)

section \<open>Listing\<close>

definition plain_tree :: "tree \<Rightarrow> bool" where
  "plain_tree t \<longleftrightarrow> list_all (\<lambda>(p, n). list_all plain p) t"

lemma rmap_Inl: "rmap f xs = Inl e \<Longrightarrow> \<exists>x \<in> set xs. f x = Inl e"
  by (induction xs) (auto simp: rbind_Inl_iff)

lemma list_files_stays:
  assumes "good_root root" "plain_tree t" "\<And>xs. set (locale_sort xs) \<subseteq> set xs"
  shows "list_files locale_sort mtime root t v \<noteq> Inl Outside \<and> list_files locale_sort mtime root t v \<noteq> Inl LinkFollowed"
proof (cases "assertRoot root t")
  case (Inl e)
  then show ?thesis using assertRoot_stays[OF assms(1), of t] by (simp add: list_files_def)
next
  case a: (Inr u)
  then have n: "nolink t []" using assertRoot_Inr[OF assms(1)] by (auto intro: alldirs_nolink)
  show ?thesis
  proof (cases "checkedExistingPath root t v True")
    case (Inl e)
    then show ?thesis using checkedExistingPath_run(1,2)[OF assms(1) n, of v True] a by (simp add: list_files_def)
  next
    case c: (Inr target)
    obtain P where P: "plain_path P" "target = root_path root P" "nolink t P"
      using checkedExistingPath_run(3)[OF assms(1) n c] by auto
    have nb: "nolink t (butlast P)" using P(3) by (cases P rule: rev_cases) (simp_all add: nolink_snoc)
    have loc: "locate root target = Some P" using root_paths(3)[OF assms(1) P(1)] P(2) by simp
    let ?row = "list_entry mtime root t target P"
    have row: "?row name \<noteq> Inl Outside \<and> ?row name \<noteq> Inl LinkFollowed"
      if "name \<in> set (locale_sort (map (last o fst) (children t P)))" for name
    proof -
      have "name \<in> set (map (last o fst) (children t P))" using that assms(3) by blast
      then obtain q m where q: "(q, m) \<in> set (children t P)" "name = last q" by force
      then have qq: "(q, m) \<in> set t" "q \<noteq> []" "butlast q = P" by (auto simp: children_def)
      then have "plain_path q" using assms(2) by (auto simp: plain_tree_def list_all_iff)
      then have "plain name" using q(2) qq(2) by simp
      then have j: "join [target, name] = root_path root (P @ [name])" "plain_path (P @ [name])"
        using root_paths(5)[OF assms(1) P(1)] P(1,2) by simp_all
      show ?thesis
        using lstat_nolink[OF assms(1) j(2), of t] P(3) j(1) by (cases "lstat root t (root_path root (P @ [name]))") (simp_all add: list_entry_def)
    qed
    have rows: "rmap ?row xs \<noteq> Inl Outside \<and> rmap ?row xs \<noteq> Inl LinkFollowed"
      if "set xs \<subseteq> set (locale_sort (map (last o fst) (children t P)))" for xs
      using row that rmap_Inl[of ?row xs] by blast
    show ?thesis
      using lstat_nolink[OF assms(1) P(1) nb] rows[OF order_refl] a c P(2) loc
      by (cases "lstat root t target") (simp_all add: list_files_def Let_def)
  qed
qed

lemma read_file_stays:
  assumes "good_root root"
  shows "read_file root t v \<noteq> Inl Outside \<and> read_file root t v \<noteq> Inl LinkFollowed"
proof (cases "assertRoot root t")
  case (Inl e)
  then show ?thesis using assertRoot_stays[OF assms, of t] by (simp add: read_file_def)
next
  case a: (Inr u)
  then have n: "nolink t []" using assertRoot_Inr[OF assms] by (auto intro: alldirs_nolink)
  show ?thesis
  proof (cases "checkedExistingPath root t v False")
    case (Inl e)
    then show ?thesis using checkedExistingPath_run(1,2)[OF assms n, of v False] a by (simp add: read_file_def)
  next
    case c: (Inr target)
    obtain P where P: "plain_path P" "target = root_path root P" "nolink t P"
      using checkedExistingPath_run(3)[OF assms n c] by auto
    have "nolink t (butlast P)" using P(3) by (cases P rule: rev_cases) (simp_all add: nolink_snoc)
    then show ?thesis
      using lstat_nolink[OF assms P(1), of t] a c P(2)
      by (auto simp: read_file_def split: sum.splits file_error.splits errno.splits node.splits)
  qed
qed

section \<open>The properties of the file store\<close>

definition data_sample :: data_root where
  "data_sample = \<lparr>dr_path = ''/d/w'', dr_quotaBytes = 100\<rparr>"

lemma data_sample_good: "good_root data_sample"
  unfolding good_root_def by (rule exI[of _ "[''d'', ''w'']"]) (simp add: data_sample_def abs_path_def plain_def)

text \<open>C23. Containment. For every path a client may send, listing, reading, writing and deleting never look at, change
  or create anything outside the root of the workspace, and never let the kernel follow a symbolic link: the
  two outcomes of the model that stand for it do not happen. The root is an absolute path in normal form, and
  directory entries have ordinary names.
\<close>
lemma data_files_contained:
  assumes "good_root root" "plain_tree t" "\<And>xs. set (locale_sort xs) \<subseteq> set xs"
  shows "{list_files locale_sort mtime root t v} \<inter> {Inl Outside, Inl LinkFollowed} = {}
    \<and> {read_file root t v} \<inter> {Inl Outside, Inl LinkFollowed} = {}
    \<and> {fst (write_file root t v contents)} \<inter> {Inl Outside, Inl LinkFollowed} = {}
    \<and> {fst (delete_file root t v)} \<inter> {Inl Outside, Inl LinkFollowed} = {}"
  using list_files_stays[OF assms, of mtime v] read_file_stays[OF assms(1), of t v]
    write_file_run[OF assms(1), of t v contents "fst (write_file root t v contents)" "snd (write_file root t v contents)"]
    delete_file_run[OF assms(1), of t v "fst (delete_file root t v)" "snd (delete_file root t v)"]
  by simp

text \<open>The tree of the witness has a link to the outside; writing below it is refused.\<close>

lemma data_files_contained_witness:
  "fst (write_file data_sample [([], Dir), ([''l''], Link)] ''l/x'' [1]) = Inl (Data 400)
   \<and> fst (write_file data_sample [([], Dir), ([''l''], Link)] ''l/x'' [1]) \<noteq> Inl LinkFollowed"
proof -
  have "fst (write_file data_sample [([], Dir), ([''l''], Link)] ''l/x'' [1]) = Inl (Data 400)" by code_simp
  moreover have "plain_tree [([], Dir), ([''l''], Link)]" by code_simp
  ultimately show ?thesis
    using data_files_contained[OF data_sample_good, of "[([], Dir), ([''l''], Link)]" id "\<lambda>_. 0" "''l/x''" "[1]"] by simp
qed



text \<open>C24. Quota. After a successful write the bytes of all files below the root are exactly the reported usage, and
  at most the quota; and from a tree within its quota no write and no deletion, successful or refused, leaves a
  tree that exceeds it.
\<close>
lemma data_files_quota:
  assumes "good_root root" "wf_tree t"
  shows "(case write_file root t v contents of
       (Inl e, t') \<Rightarrow> tree_bytes t' [] = tree_bytes t []
     | (Inr w, t') \<Rightarrow> int (tree_bytes t' []) = fw_usedBytes w \<and> tree_bytes t' [] \<le> dr_quotaBytes root)
    \<and> tree_bytes (snd (delete_file root t v)) [] \<le> tree_bytes t []"
proof (rule conjI)
  obtain r t' where w: "write_file root t v contents = (r, t')" by (cases "write_file root t v contents")
  note run = write_file_run[OF assms(1) w]
  show "case write_file root t v contents of
       (Inl e, t') \<Rightarrow> tree_bytes t' [] = tree_bytes t []
     | (Inr w, t') \<Rightarrow> int (tree_bytes t' []) = fw_usedBytes w \<and> tree_bytes t' [] \<le> dr_quotaBytes root"
  proof (cases r)
    case (Inl e)
    then show ?thesis using run w by (simp add: grown_def)
  next
    case (Inr fw)
    then obtain t1 where g: "grown t t1" and wr: "written root t1 (split_on slash v) contents fw t'" using run by auto
    let ?P = "split_on slash v"
    have t': "t' = AList.update ?P (File contents) t1" and wf1: "wf_tree t1" using wr g assms(2) by (simp_all add: written_def grown_def)
    obtain prior used where pu: "case map_of t1 ?P of None \<Rightarrow> prior = 0 | Some n \<Rightarrow> \<exists>b. n = File b \<and> prior = length b"
      "directoryBytes root t1 = Inr used" "fw_usedBytes fw = int used - int prior + int (length contents)"
      and q: "fw_usedBytes fw \<le> int (dr_quotaBytes root)" using wr by (auto simp: written_def)
    have "used = tree_bytes t1 []" by (rule directoryBytes_Inr[OF wf1 pu(2)])
    moreover have "tree_bytes t' [] + prior = tree_bytes t1 [] + length contents"
      using tree_bytes_Nil_update[of ?P "File contents" t1] pu(1) unfolding t' by (auto split: option.splits)
    ultimately show ?thesis using w Inr pu(3) q by simp
  qed
next
  obtain r t' where d: "delete_file root t v = (r, t')" by (cases "delete_file root t v")
  show "tree_bytes (snd (delete_file root t v)) [] \<le> tree_bytes t []"
    using delete_file_run[OF assms(1) d] d tree_bytes_Nil_delete[of "split_on slash v" t] assms(2) by (auto simp: wf_tree_def)
qed

lemma data_files_quota_witness:
  "tree_bytes (snd (write_file data_sample [([], Dir), ([''a''], File [1])] ''b'' [1, 2])) [] = 3
   \<and> tree_bytes (snd (write_file data_sample [([], Dir), ([''a''], File [1])] ''b'' [1, 2])) [] \<le> 100"
proof -
  have "wf_tree [([], Dir), ([''a''], File [1])]" by code_simp
  moreover have "fst (write_file data_sample [([], Dir), ([''a''], File [1])] ''b'' [1, 2]) = Inr \<lparr>fw_size = 2, fw_usedBytes = 3, fw_quotaBytes = 100\<rparr>"
    by code_simp
  ultimately show ?thesis
    using data_files_quota[OF data_sample_good, of "[([], Dir), ([''a''], File [1])]" "''b''" "[1, 2]"]
    by (cases "write_file data_sample [([], Dir), ([''a''], File [1])] ''b'' [1, 2]") (simp add: data_sample_def)
qed

text \<open>A directory whose name starts with two dots is taken for a step out of the root: writing below it is refused.\<close>

lemma write_below_dotted_directory:
  "fst (write_file data_sample [([], Dir)] ''..data/x'' [1]) = Inl (Data 400)
   \<and> fst (write_file data_sample [([], Dir)] ''..data'' [1]) = Inr \<lparr>fw_size = 1, fw_usedBytes = 1, fw_quotaBytes = 100\<rparr>"
  by code_simp

end
