(* ===== verification/Auth.thy ===== *)
theory Auth
  imports NodeNet Encoding
begin

text \<open>
  Signing in: \<open>src/security.ts\<close> (cookies, client addresses, constant-time comparison), \<open>src/control/session.ts\<close>,
  \<open>src/control/auth.ts\<close> and the guards and sign-in routes of \<open>src/control/server.ts\<close>, over the tables
  \<open>auth_challenges\<close> and \<open>sessions\<close> of \<open>src/db.ts\<close>.

  \<open>verifyChallenge\<close> awaits the check of a signature, so it is cut there: \<open>verify_begin\<close> checks the message
  against its challenge and leaves the request in flight, \<open>verify_finish\<close> consumes the challenge and makes the
  session; any other operation may run in between.

  Parameters: \<open>hmac\<close> (the keyed hash of \<open>tokenHash\<close>), \<open>decode\<close> (\<open>decodeURIComponent\<close>, \<open>None\<close> when it
  throws), \<open>parse_siwe\<close>, \<open>checksum\<close> and \<open>verify_message\<close> (viem), the random tokens and nonces, and the clock.
\<close>

section \<open>Cookies and client addresses\<close>

fun set_cookies :: "(string \<Rightarrow> string option) \<Rightarrow> string list \<Rightarrow> (string \<Rightarrow> string option) \<Rightarrow> (string \<Rightarrow> string option)" where
  "set_cookies decode [] cookies = cookies"
| "set_cookies decode (item # items) cookies =
     (case dropWhile (\<lambda>c. c \<noteq> CHR ''='') item of
        [] \<Rightarrow> set_cookies decode items cookies
      | _ # v \<Rightarrow>
          let name = takeWhile (\<lambda>c. c \<noteq> CHR ''='') item
          in if name = [] then set_cookies decode items cookies
             else case decode (trim v) of
               None \<Rightarrow> set_cookies decode items cookies
             | Some d \<Rightarrow> set_cookies decode items (cookies(trim name \<mapsto> d)))"

definition parseCookies :: "(string \<Rightarrow> string option) \<Rightarrow> string option \<Rightarrow> (string \<Rightarrow> string option)" where
  "parseCookies decode header =
     set_cookies decode (case header of None \<Rightarrow> [] | Some h \<Rightarrow> split_on (CHR '';'') h) (\<lambda>_. None)"

definition normalizeIp :: "string \<Rightarrow> string option" where
  "normalizeIp v =
     (let normalized = (if starts_with v ''::ffff:'' then drop 7 v else v)
      in if isIP normalized = 0 then None else Some normalized)"

text \<open>\<open>None\<close> when any call throws.\<close>

fun normalize_all :: "string list \<Rightarrow> string list option" where
  "normalize_all [] = Some []"
| "normalize_all (p # ps) =
     (case normalizeIp (trim p) of None \<Rightarrow> None | Some q \<Rightarrow> (case normalize_all ps of None \<Rightarrow> None | Some qs \<Rightarrow> Some (q # qs)))"

definition clientIp :: "string \<Rightarrow> string option \<Rightarrow> nat \<Rightarrow> string option" where
  "clientIp remoteAddress forwarded trustedProxyHops =
     (case normalizeIp remoteAddress of
        None \<Rightarrow> None
      | Some direct \<Rightarrow>
          if trustedProxyHops = 0 then Some direct
          else case forwarded of
            None \<Rightarrow> None
          | Some h \<Rightarrow>
              (case normalize_all (split_on (CHR '','') h) of
                 None \<Rightarrow> None
               | Some chain \<Rightarrow>
                   if length chain < trustedProxyHops then None
                   else let ip = chain ! (length chain - trustedProxyHops) in if ip = [] then None else Some ip))"

definition safeEqual :: "string \<Rightarrow> string \<Rightarrow> bool" where
  "safeEqual left right \<longleftrightarrow> length left = length right \<and> left = right"

definition requestFingerprint :: "(string \<Rightarrow> string \<Rightarrow> string) \<Rightarrow> string \<Rightarrow> string \<Rightarrow> string" where
  "requestFingerprint hmac ip secret = hmac (''ip:'' @ ip) secret"

text \<open>\<open>url_origin\<close> is the origin of the URL parser, \<open>None\<close> when it throws.\<close>

definition validBrowserOrigin :: "(string \<Rightarrow> string option) \<Rightarrow> string option \<Rightarrow> string \<Rightarrow> bool" where
  "validBrowserOrigin url_origin header expectedOrigin =
     (case header of None \<Rightarrow> False | Some h \<Rightarrow> h \<noteq> [] \<and> url_origin h = Some expectedOrigin)"

section \<open>Tables\<close>

record auth_config =
  au_origin_host :: string
  au_origin :: string
  au_authChainId :: int
  au_challengeTtlMs :: int
  au_sessionTtlMs :: int
  au_sessionSecret :: string
  au_devAuth :: bool
  au_publicMode :: bool

record challenge_row =
  ac_nonce :: string
  ac_domain :: string
  ac_uri :: string
  ac_chain_id :: int
  ac_ip_hash :: string
  ac_issued_at :: int
  ac_expires_at :: int
  ac_consumed_at :: "int option"

record session_row =
  se_token_hash :: string
  se_wallet :: string
  se_csrf_token :: string
  se_ip_hash :: string
  se_created_at :: int
  se_expires_at :: int

text \<open>A verification that waits for its signature: the nonce, the address, the message, the signature and the client.\<close>

record in_flight =
  if_nonce :: string
  if_address :: string
  if_message :: string
  if_signature :: string
  if_ip_hash :: string

record auth_store =
  as_challenges :: "challenge_row list"
  as_sessions :: "session_row list"
  as_in_flight :: "in_flight list"

section \<open>Sessions\<close>

definition readSession ::
  "(string \<Rightarrow> string \<Rightarrow> string) \<Rightarrow> (string \<Rightarrow> string option) \<Rightarrow> auth_config \<Rightarrow> int \<Rightarrow> string option \<Rightarrow> auth_store \<Rightarrow> session_row option" where
  "readSession hmac decode cfg now cookie s =
     (case parseCookies decode cookie ''bloom_session'' of
        None \<Rightarrow> None
      | Some token \<Rightarrow>
          if token = [] then None
          else find (\<lambda>r. se_token_hash r = hmac token (au_sessionSecret cfg) \<and> now < se_expires_at r) (as_sessions s))"

record set_cookie =
  sc_value :: string
  sc_httpOnly :: bool
  sc_secure :: bool
  sc_sameSite :: string
  sc_maxAge :: int

text \<open>The token hash is the primary key: a second row with it is an error.\<close>

definition createSession ::
  "(string \<Rightarrow> string \<Rightarrow> string) \<Rightarrow> auth_config \<Rightarrow> int \<Rightarrow> string \<Rightarrow> string \<Rightarrow> string \<Rightarrow> string \<Rightarrow> auth_store
     \<Rightarrow> (string \<times> set_cookie \<times> auth_store) option" where
  "createSession hmac cfg now token csrfToken wallet ipHash s =
     (let th = hmac token (au_sessionSecret cfg)
      in if th \<in> se_token_hash ` set (as_sessions s) then None
         else Some (csrfToken,
           \<lparr>sc_value = token, sc_httpOnly = True, sc_secure = starts_with (au_origin cfg) ''https://'', sc_sameSite = ''strict'',
            sc_maxAge = au_sessionTtlMs cfg\<rparr>,
           s\<lparr>as_sessions := as_sessions s @ [\<lparr>se_token_hash = th, se_wallet = to_lower wallet, se_csrf_token = csrfToken,
              se_ip_hash = ipHash, se_created_at = now, se_expires_at = now + au_sessionTtlMs cfg\<rparr>]\<rparr>))"

definition clearSession ::
  "(string \<Rightarrow> string \<Rightarrow> string) \<Rightarrow> (string \<Rightarrow> string option) \<Rightarrow> auth_config \<Rightarrow> string option \<Rightarrow> auth_store \<Rightarrow> auth_store" where
  "clearSession hmac decode cfg cookie s =
     (case parseCookies decode cookie ''bloom_session'' of
        None \<Rightarrow> s
      | Some token \<Rightarrow>
          if token = [] then s
          else s\<lparr>as_sessions := filter (\<lambda>r. se_token_hash r \<noteq> hmac token (au_sessionSecret cfg)) (as_sessions s)\<rparr>)"

datatype guard_result = BadOrigin | NoClientAddress | Unauthorized | BadCsrf | Allowed session_row

definition mutating :: "string \<Rightarrow> bool" where
  "mutating httpMethod \<longleftrightarrow> httpMethod \<in> set [''POST'', ''PUT'', ''PATCH'', ''DELETE'']"

text \<open>The headers of a request that the guards read; \<open>rq_ip\<close> is what \<open>clientIp\<close> makes of the connection.\<close>

record api_request =
  rq_method :: string
  rq_ip :: "string option"
  rq_origin :: "string option"
  rq_cookie :: "string option"
  rq_csrf :: "string option"

text \<open>\<open>requireSession\<close> and the \<open>context\<close> it computes, which throws when the address cannot be told.\<close>

definition requireSession ::
  "(string \<Rightarrow> string \<Rightarrow> string) \<Rightarrow> (string \<Rightarrow> string option) \<Rightarrow> auth_config \<Rightarrow> int \<Rightarrow> api_request \<Rightarrow> auth_store \<Rightarrow> guard_result" where
  "requireSession hmac decode cfg now rq s =
     (if rq_ip rq = None then NoClientAddress
      else case readSession hmac decode cfg now (rq_cookie rq) s of
        None \<Rightarrow> Unauthorized
      | Some r \<Rightarrow>
          if mutating (rq_method rq) \<and> \<not> safeEqual (case rq_csrf rq of None \<Rightarrow> [] | Some h \<Rightarrow> h) (se_csrf_token r)
          then BadCsrf else Allowed r)"

text \<open>The origin check of every \<open>/api\<close> route, then the guard of the routes that need a session.\<close>

definition api_guard ::
  "(string \<Rightarrow> string \<Rightarrow> string) \<Rightarrow> (string \<Rightarrow> string option) \<Rightarrow> (string \<Rightarrow> string option) \<Rightarrow> auth_config \<Rightarrow> int \<Rightarrow> api_request \<Rightarrow> auth_store
     \<Rightarrow> guard_result" where
  "api_guard hmac decode url_origin cfg now rq s =
     (if mutating (rq_method rq) \<and> \<not> validBrowserOrigin url_origin (rq_origin rq) (au_origin cfg) then BadOrigin
      else requireSession hmac decode cfg now rq s)"

section \<open>Challenges\<close>

datatype auth_error =
    TooManyAttempts | AtCapacity | BadBody | MalformedMessage | ExpiredOrUsed | DifferentClient | AudienceMismatch | IssuanceMismatch
  | MessageExpired | ExpiryExceeds | NotActive | InvalidAddress | InvalidSignature | AlreadyUsed | DevDisabled | KeyConflict

text \<open>The rate limits of the route, then \<open>issueChallenge\<close>; the nonce is the primary key.\<close>

definition issueChallenge :: "auth_config \<Rightarrow> int \<Rightarrow> string \<Rightarrow> string \<Rightarrow> auth_store \<Rightarrow> (auth_error, challenge_row) res \<times> auth_store" where
  "issueChallenge cfg now nonce ipHash s =
     (let kept = filter (\<lambda>r. \<not> (ac_expires_at r < now - 60000 \<or> ac_consumed_at r \<noteq> None)) (as_challenges s);
          row = \<lparr>ac_nonce = nonce, ac_domain = au_origin_host cfg, ac_uri = au_origin cfg, ac_chain_id = au_authChainId cfg,
                 ac_ip_hash = ipHash, ac_issued_at = now, ac_expires_at = now + au_challengeTtlMs cfg, ac_consumed_at = None\<rparr>
      in if nonce \<in> ac_nonce ` set kept then (Inl KeyConflict, s\<lparr>as_challenges := kept\<rparr>)
         else (Inr row, s\<lparr>as_challenges := kept @ [row]\<rparr>))"

definition challenge_route :: "auth_config \<Rightarrow> int \<Rightarrow> string \<Rightarrow> string \<Rightarrow> auth_store \<Rightarrow> (auth_error, challenge_row) res \<times> auth_store" where
  "challenge_route cfg now nonce ipHash s =
     (if 10 \<le> length (filter (\<lambda>r. ac_ip_hash r = ipHash \<and> now - 60000 < ac_issued_at r) (as_challenges s)) then (Inl TooManyAttempts, s)
      else if 1000 \<le> length (filter (\<lambda>r. now - 60000 < ac_issued_at r) (as_challenges s)) then (Inl AtCapacity, s)
      else issueChallenge cfg now nonce ipHash s)"

text \<open>A date of a message: absent, or a \<open>Date\<close> object, which is not a time when the text was not a date.\<close>

record siwe =
  sw_nonce :: "string option"
  sw_address :: "string option"
  sw_domain :: "string option"
  sw_uri :: "string option"
  sw_chainId :: "int option"
  sw_version :: "string option"
  sw_issuedAt :: "int option option"
  sw_expirationTime :: "int option option"
  sw_notBefore :: "int option option"

text \<open>A comparison with a date that is not a time is false, as with \<open>NaN\<close>.\<close>

definition date_test :: "(int \<Rightarrow> bool) \<Rightarrow> int option option \<Rightarrow> bool" where
  "date_test P d = (case d of Some (Some t) \<Rightarrow> P t | _ \<Rightarrow> False)"

text \<open>\<open>/^0x[0-9a-fA-F]+$/\<close> and the bounds of the body.\<close>

definition VerifyBody :: "string \<Rightarrow> string \<Rightarrow> bool" where
  "VerifyBody message signature \<longleftrightarrow> 1 \<le> length message \<and> length message \<le> 4096
     \<and> full (RSeq (lit ''0x'') (plus (RCls is_hex))) signature \<and> length signature \<le> 132"

definition present :: "string option \<Rightarrow> bool" where
  "present x \<longleftrightarrow> x \<noteq> None \<and> x \<noteq> Some []"

definition verify_begin ::
  "(string \<Rightarrow> siwe) \<Rightarrow> (string \<Rightarrow> string option) \<Rightarrow> int \<Rightarrow> string \<Rightarrow> string \<Rightarrow> string \<Rightarrow> auth_store \<Rightarrow> (auth_error, auth_store) res" where
  "verify_begin parse_siwe checksum now message signature ipHash s =
     (let p = parse_siwe message
      in if \<not> VerifyBody message signature then Inl BadBody
         else if \<not> present (sw_nonce p) \<or> \<not> present (sw_address p) \<or> \<not> present (sw_domain p) \<or> \<not> present (sw_uri p)
            \<or> sw_chainId p = None \<or> sw_chainId p = Some 0 \<or> sw_version p \<noteq> Some ''1'' then Inl MalformedMessage
         else case find (\<lambda>r. Some (ac_nonce r) = sw_nonce p) (as_challenges s) of
           None \<Rightarrow> Inl ExpiredOrUsed
         | Some c \<Rightarrow>
             if ac_consumed_at c \<noteq> None \<or> ac_expires_at c < now then Inl ExpiredOrUsed
             else if ac_ip_hash c \<noteq> ipHash then Inl DifferentClient
             else if sw_domain p \<noteq> Some (ac_domain c) \<or> sw_uri p \<noteq> Some (ac_uri c) \<or> sw_chainId p \<noteq> Some (ac_chain_id c) then Inl AudienceMismatch
             else if sw_issuedAt p = None \<or> date_test (\<lambda>t. 30000 < \<bar>t - ac_issued_at c\<bar>) (sw_issuedAt p) then Inl IssuanceMismatch
             else if date_test (\<lambda>t. t < now) (sw_expirationTime p) then Inl MessageExpired
             else if date_test (\<lambda>t. ac_expires_at c + 30000 < t) (sw_expirationTime p) then Inl ExpiryExceeds
             else if date_test (\<lambda>t. now + 30000 < t) (sw_notBefore p) then Inl NotActive
             else case checksum (the (sw_address p)) of
               None \<Rightarrow> Inl InvalidAddress
             | Some address \<Rightarrow>
                 Inr (s\<lparr>as_in_flight := as_in_flight s @ [\<lparr>if_nonce = ac_nonce c, if_address = address, if_message = message,
                   if_signature = signature, if_ip_hash = ipHash\<rparr>]\<rparr>))"

text \<open>The signature has been checked: consume the challenge if nobody has, and make the session.\<close>

definition verify_finish ::
  "(string \<Rightarrow> string \<Rightarrow> string) \<Rightarrow> (string \<Rightarrow> string \<Rightarrow> string \<Rightarrow> bool) \<Rightarrow> auth_config \<Rightarrow> int \<Rightarrow> string \<Rightarrow> string \<Rightarrow> in_flight \<Rightarrow> auth_store
     \<Rightarrow> (auth_error, string \<times> string \<times> set_cookie) res \<times> auth_store" where
  "verify_finish hmac verify_message cfg now token csrfToken v s =
     (let s1 = s\<lparr>as_in_flight := remove1 v (as_in_flight s)\<rparr>
      in if \<not> verify_message (if_address v) (if_message v) (if_signature v) then (Inl InvalidSignature, s1)
         else let unused = (\<lambda>r. ac_nonce r = if_nonce v \<and> ac_consumed_at r = None);
                  changes = length (filter unused (as_challenges s1));
                  s2 = s1\<lparr>as_challenges := map (\<lambda>r. if unused r then r\<lparr>ac_consumed_at := Some now\<rparr> else r) (as_challenges s1)\<rparr>
              in if changes \<noteq> 1 then (Inl AlreadyUsed, s2)
                 else case createSession hmac cfg now token csrfToken (if_address v) (if_ip_hash v) s2 of
                   None \<Rightarrow> (Inl KeyConflict, s2)
                 | Some (csrf, cookie, s3) \<Rightarrow> (Inr (if_address v, csrf, cookie), s3))"

definition dev_login ::
  "(string \<Rightarrow> string \<Rightarrow> string) \<Rightarrow> auth_config \<Rightarrow> int \<Rightarrow> string \<Rightarrow> string \<Rightarrow> string \<Rightarrow> auth_store \<Rightarrow> (auth_error, set_cookie) res \<times> auth_store" where
  "dev_login hmac cfg now token csrfToken ipHash s =
     (if \<not> au_devAuth cfg \<or> au_publicMode cfg then (Inl DevDisabled, s)
      else case createSession hmac cfg now token csrfToken ''0x000000000000000000000000000000000000dEaD'' ipHash s of
        None \<Rightarrow> (Inl KeyConflict, s)
      | Some (csrf, cookie, s') \<Rightarrow> (Inr cookie, s'))"

text \<open>The two deletions of the hourly maintenance that concern these tables.\<close>

definition auth_maintenance :: "int \<Rightarrow> auth_store \<Rightarrow> auth_store" where
  "auth_maintenance now s = s\<lparr>as_challenges := filter (\<lambda>r. \<not> ac_expires_at r < now) (as_challenges s),
     as_sessions := filter (\<lambda>r. \<not> se_expires_at r < now) (as_sessions s)\<rparr>"

section \<open>Runs\<close>

datatype auth_event =
    Issued challenge_row
  | Began in_flight int
  | SignedIn in_flight session_row
  | DevSignedIn session_row
  | OtherEvent

text \<open>
  One operation of the service. \<open>now\<close> is the clock when it runs. A nonce is never drawn twice, which is what
  \<open>generateSiweNonce\<close> is used for.
\<close>

inductive auth_step ::
  "(string \<Rightarrow> string \<Rightarrow> string) \<Rightarrow> (string \<Rightarrow> string option) \<Rightarrow> (string \<Rightarrow> siwe) \<Rightarrow> (string \<Rightarrow> string option)
     \<Rightarrow> (string \<Rightarrow> string \<Rightarrow> string \<Rightarrow> bool) \<Rightarrow> auth_config \<Rightarrow> auth_event list \<Rightarrow> auth_store \<Rightarrow> auth_event \<Rightarrow> auth_store \<Rightarrow> bool"
  for hmac decode parse_siwe checksum verify_message cfg evs where
  issue: "challenge_route cfg now nonce ipHash s = (Inr row, s') \<Longrightarrow> \<forall>r. Issued r \<in> set evs \<longrightarrow> ac_nonce r \<noteq> nonce \<Longrightarrow>
     auth_step hmac decode parse_siwe checksum verify_message cfg evs s (Issued row) s'"
| begin_verify: "verify_begin parse_siwe checksum now message signature ipHash s = Inr s' \<Longrightarrow>
     auth_step hmac decode parse_siwe checksum verify_message cfg evs s (Began (last (as_in_flight s')) now) s'"
| sign_in: "v \<in> set (as_in_flight s) \<Longrightarrow> verify_finish hmac verify_message cfg now token csrf v s = (Inr r, s') \<Longrightarrow>
     auth_step hmac decode parse_siwe checksum verify_message cfg evs s (SignedIn v (last (as_sessions s'))) s'"
| refuse: "v \<in> set (as_in_flight s) \<Longrightarrow> verify_finish hmac verify_message cfg now token csrf v s = (Inl e, s') \<Longrightarrow>
     auth_step hmac decode parse_siwe checksum verify_message cfg evs s OtherEvent s'"
| dev: "dev_login hmac cfg now token csrf ipHash s = (Inr c, s') \<Longrightarrow>
     auth_step hmac decode parse_siwe checksum verify_message cfg evs s (DevSignedIn (last (as_sessions s'))) s'"
| logout: "auth_step hmac decode parse_siwe checksum verify_message cfg evs s OtherEvent (clearSession hmac decode cfg cookie s)"
| maintain: "auth_step hmac decode parse_siwe checksum verify_message cfg evs s OtherEvent (auth_maintenance now s)"

inductive auth_run ::
  "(string \<Rightarrow> string \<Rightarrow> string) \<Rightarrow> (string \<Rightarrow> string option) \<Rightarrow> (string \<Rightarrow> siwe) \<Rightarrow> (string \<Rightarrow> string option)
     \<Rightarrow> (string \<Rightarrow> string \<Rightarrow> string \<Rightarrow> bool) \<Rightarrow> auth_config \<Rightarrow> auth_event list \<Rightarrow> auth_store \<Rightarrow> bool"
  for hmac decode parse_siwe checksum verify_message cfg where
  start: "auth_run hmac decode parse_siwe checksum verify_message cfg [] \<lparr>as_challenges = [], as_sessions = [], as_in_flight = []\<rparr>"
| step: "auth_run hmac decode parse_siwe checksum verify_message cfg evs s \<Longrightarrow>
     auth_step hmac decode parse_siwe checksum verify_message cfg evs s e s' \<Longrightarrow>
     auth_run hmac decode parse_siwe checksum verify_message cfg (evs @ [e]) s'"

section \<open>Client addresses\<close>

lemma normalize_all_Some: "normalize_all ps = Some qs \<Longrightarrow> length qs = length ps \<and> (\<forall>i < length ps. normalizeIp (trim (ps ! i)) = Some (qs ! i))"
  by (induction ps arbitrary: qs) (auto split: option.splits simp: nth_Cons split: nat.splits)

text \<open>With \<open>n\<close> trusted proxies the address of a client is the \<open>n\<close>-th entry of the forwarding header counted from
  its end: whatever a client puts in front of what the proxies append, the address is decided by what they
  appended (or the request is refused).
\<close>
lemma clientIp_trusts_proxies:
  assumes "clientIp remote (Some (join_with (CHR '','') (forged @ appended))) (length appended) = Some ip"
    and "appended \<noteq> []" "\<forall>e \<in> set (forged @ appended). CHR '','' \<notin> set e"
  shows "normalizeIp (trim (hd appended)) = Some ip"
proof -
  have s: "split_on (CHR '','') (join_with (CHR '','') (forged @ appended)) = forged @ appended"
    using assms(2,3) by (intro split_on_join) auto
  obtain chain where c: "normalize_all (forged @ appended) = Some chain" "ip = chain ! (length chain - length appended)"
    using assms(1,2) by (auto simp: clientIp_def s Let_def split: option.splits if_splits)
  have "length chain = length (forged @ appended)" "normalizeIp (trim ((forged @ appended) ! length forged)) = Some (chain ! length forged)"
    using normalize_all_Some[OF c(1)] assms(2) by auto
  then show ?thesis using c(2) assms(2) by (simp add: nth_append hd_conv_nth)
qed

lemma clientIp_trusts_proxies_witness:
  "normalizeIp (trim '' 203.0.113.9'') = Some ''203.0.113.9''"
proof -
  have "clientIp ''127.0.0.1'' (Some (join_with (CHR '','') ([''10.0.0.1''] @ ['' 203.0.113.9'']))) (length ['' 203.0.113.9'']) = Some ''203.0.113.9''"
    by code_simp
  moreover have "\<forall>e \<in> set ([''10.0.0.1''] @ ['' 203.0.113.9'']). CHR '','' \<notin> set e" by code_simp
  ultimately show ?thesis using clientIp_trusts_proxies[of "''127.0.0.1''" "[''10.0.0.1'']" "['' 203.0.113.9'']"] by fastforce
qed

section \<open>The guard of the API\<close>

text \<open>The guards of the API. A request to a route that needs a session is let through exactly when the address of
  its client is known, its cookie holds a token whose keyed hash is the key of a session that has not expired
  and, for the four methods that change state, the page that sent it has the origin of this site and its header
  repeats the CSRF token of that session; it then acts for the wallet of that session.
\<close>
lemma api_guard_exact:
  "api_guard hmac decode url_origin cfg now rq s = Allowed r \<longleftrightarrow>
     rq_ip rq \<noteq> None \<and> readSession hmac decode cfg now (rq_cookie rq) s = Some r
     \<and> (if mutating (rq_method rq)
        then (\<exists>h. rq_origin rq = Some h \<and> h \<noteq> [] \<and> url_origin h = Some (au_origin cfg))
             \<and> (case rq_csrf rq of None \<Rightarrow> [] | Some h \<Rightarrow> h) = se_csrf_token r
        else True)"
  unfolding api_guard_def requireSession_def
  by (cases "readSession hmac decode cfg now (rq_cookie rq) s")
     (auto simp: safeEqual_def validBrowserOrigin_def split: if_splits option.splits)

lemma readSession_Some:
  "readSession hmac decode cfg now cookie s = Some r \<Longrightarrow>
     r \<in> set (as_sessions s) \<and> now < se_expires_at r
     \<and> (\<exists>token. token \<noteq> [] \<and> parseCookies decode cookie ''bloom_session'' = Some token \<and> se_token_hash r = hmac token (au_sessionSecret cfg))"
  by (auto simp: readSession_def find_Some_iff split: option.splits if_splits)

section \<open>What a session rests on\<close>

definition signed_nonces :: "auth_event list \<Rightarrow> string list" where
  "signed_nonces evs = concat (map (\<lambda>e. case e of SignedIn v r \<Rightarrow> [if_nonce v] | _ \<Rightarrow> []) evs)"

lemma signed_nonces_snoc [simp]:
  "signed_nonces (evs @ [e]) = signed_nonces evs @ (case e of SignedIn v r \<Rightarrow> [if_nonce v] | _ \<Rightarrow> [])"
  by (simp add: signed_nonces_def)

text \<open>A request in flight answers a challenge that was issued to its client, for this site.\<close>

definition answers :: "(string \<Rightarrow> siwe) \<Rightarrow> (string \<Rightarrow> string option) \<Rightarrow> auth_config \<Rightarrow> challenge_row \<Rightarrow> in_flight \<Rightarrow> bool" where
  "answers parse_siwe checksum cfg c v \<longleftrightarrow>
     (let p = parse_siwe (if_message v)
      in ac_nonce c = if_nonce v \<and> ac_ip_hash c = if_ip_hash v \<and> sw_nonce p = Some (if_nonce v)
         \<and> sw_domain p = Some (au_origin_host cfg) \<and> sw_uri p = Some (au_origin cfg) \<and> sw_chainId p = Some (au_authChainId cfg)
         \<and> checksum (the (sw_address p)) = Some (if_address v))"

definition signed_session ::
  "(string \<Rightarrow> siwe) \<Rightarrow> (string \<Rightarrow> string option) \<Rightarrow> (string \<Rightarrow> string \<Rightarrow> string \<Rightarrow> bool) \<Rightarrow> auth_config \<Rightarrow> auth_event list \<Rightarrow> session_row \<Rightarrow> bool" where
  "signed_session parse_siwe checksum verify_message cfg evs r \<longleftrightarrow>
     (\<exists>v c. SignedIn v r \<in> set evs \<and> Issued c \<in> set evs \<and> answers parse_siwe checksum cfg c v
        \<and> verify_message (if_address v) (if_message v) (if_signature v)
        \<and> se_wallet r = to_lower (if_address v) \<and> se_ip_hash r = ac_ip_hash c
        \<and> se_expires_at r = se_created_at r + au_sessionTtlMs cfg)"

definition site_row :: "auth_config \<Rightarrow> challenge_row \<Rightarrow> bool" where
  "site_row cfg c \<longleftrightarrow> ac_domain c = au_origin_host cfg \<and> ac_uri c = au_origin cfg \<and> ac_chain_id c = au_authChainId cfg"

definition fresh_row :: "challenge_row \<Rightarrow> challenge_row" where
  "fresh_row c = c\<lparr>ac_consumed_at := None\<rparr>"

lemma fresh_row_simps [simp]:
  "ac_nonce (fresh_row c) = ac_nonce c" "ac_ip_hash (fresh_row c) = ac_ip_hash c" "site_row cfg (fresh_row c) = site_row cfg c"
  "fresh_row (c\<lparr>ac_consumed_at := x\<rparr>) = fresh_row c"
  by (simp_all add: fresh_row_def site_row_def)

definition rows_inv :: "auth_config \<Rightarrow> auth_event list \<Rightarrow> challenge_row list \<Rightarrow> bool" where
  "rows_inv cfg evs rows \<longleftrightarrow> distinct (map ac_nonce rows) \<and> (\<forall>c \<in> set rows. Issued (fresh_row c) \<in> set evs \<and> site_row cfg c)
     \<and> (\<forall>c \<in> set rows. ac_nonce c \<in> set (signed_nonces evs) \<longrightarrow> ac_consumed_at c \<noteq> None)"

definition auth_inv ::
  "(string \<Rightarrow> siwe) \<Rightarrow> (string \<Rightarrow> string option) \<Rightarrow> (string \<Rightarrow> string \<Rightarrow> string \<Rightarrow> bool) \<Rightarrow> auth_config \<Rightarrow> auth_event list \<Rightarrow> auth_store \<Rightarrow> bool" where
  "auth_inv parse_siwe checksum verify_message cfg evs s \<longleftrightarrow>
     rows_inv cfg evs (as_challenges s)
     \<and> distinct (signed_nonces evs) \<and> (\<forall>n \<in> set (signed_nonces evs). \<exists>c. Issued c \<in> set evs \<and> ac_nonce c = n)
     \<and> (\<forall>v \<in> set (as_in_flight s). \<exists>c. Issued c \<in> set evs \<and> answers parse_siwe checksum cfg c v)
     \<and> (\<forall>r \<in> set (as_sessions s). signed_session parse_siwe checksum verify_message cfg evs r
          \<or> DevSignedIn r \<in> set evs \<and> au_devAuth cfg \<and> \<not> au_publicMode cfg)"

lemma rows_inv_sub: "rows_inv cfg evs rows \<Longrightarrow> rows_inv cfg evs (filter P rows)"
  by (auto simp: rows_inv_def distinct_map_filter)

lemma rows_inv_more:
  assumes "rows_inv cfg evs rows" "signed_nonces (evs @ [e]) = signed_nonces evs"
  shows "rows_inv cfg (evs @ [e]) rows"
  using assms unfolding rows_inv_def assms(2) by auto

lemma signed_session_more: "signed_session a b c cfg evs r \<Longrightarrow> signed_session a b c cfg (evs @ [e]) r"
  unfolding signed_session_def by auto

text \<open>The invariant survives an event that only drops rows, and what an event may add.\<close>

lemma auth_inv_event:
  assumes "auth_inv ps ck vm cfg evs s" "rows_inv cfg (evs @ [e]) (as_challenges s')"
    and "\<And>v r. e \<noteq> SignedIn v r"
    and "\<forall>v \<in> set (as_in_flight s'). v \<in> set (as_in_flight s) \<or> (\<exists>c. Issued c \<in> set evs \<and> answers ps ck cfg c v)"
    and "\<forall>r \<in> set (as_sessions s'). r \<in> set (as_sessions s) \<or> e = DevSignedIn r \<and> au_devAuth cfg \<and> \<not> au_publicMode cfg"
  shows "auth_inv ps ck vm cfg (evs @ [e]) s'"
proof -
  have sn: "signed_nonces (evs @ [e]) = signed_nonces evs" using assms(3) by (cases e) auto
  have "\<forall>v \<in> set (as_in_flight s'). \<exists>c. Issued c \<in> set (evs @ [e]) \<and> answers ps ck cfg c v"
    using assms(1,4) unfolding auth_inv_def by (metis Un_iff set_append)
  moreover have "\<forall>r \<in> set (as_sessions s'). signed_session ps ck vm cfg (evs @ [e]) r
          \<or> DevSignedIn r \<in> set (evs @ [e]) \<and> au_devAuth cfg \<and> \<not> au_publicMode cfg"
  proof
    fix r assume "r \<in> set (as_sessions s')"
    then consider "r \<in> set (as_sessions s)" | "e = DevSignedIn r \<and> au_devAuth cfg \<and> \<not> au_publicMode cfg" using assms(5) by blast
    then show "signed_session ps ck vm cfg (evs @ [e]) r \<or> DevSignedIn r \<in> set (evs @ [e]) \<and> au_devAuth cfg \<and> \<not> au_publicMode cfg"
    proof cases
      case 1
      then have "signed_session ps ck vm cfg evs r \<or> DevSignedIn r \<in> set evs \<and> au_devAuth cfg \<and> \<not> au_publicMode cfg"
        using assms(1) by (simp add: auth_inv_def)
      then show ?thesis using signed_session_more by auto
    qed simp
  qed
  ultimately show ?thesis using assms(1,2) unfolding auth_inv_def sn by auto
qed

lemma verify_begin_Inr:
  assumes "verify_begin ps ck now message signature ipHash s = Inr s'" "rows_inv cfg evs (as_challenges s)"
  shows "\<exists>v c. s' = s\<lparr>as_in_flight := as_in_flight s @ [v]\<rparr> \<and> Issued c \<in> set evs \<and> answers ps ck cfg c v"
proof -
  obtain c where c: "find (\<lambda>r. Some (ac_nonce r) = sw_nonce (ps message)) (as_challenges s) = Some c"
    using assms(1) by (auto simp: verify_begin_def Let_def split: if_splits option.splits)
  then have cs: "c \<in> set (as_challenges s)" "sw_nonce (ps message) = Some (ac_nonce c)" by (auto simp: find_Some_iff)
  have chk: "ac_ip_hash c = ipHash" "sw_domain (ps message) = Some (ac_domain c)" "sw_uri (ps message) = Some (ac_uri c)"
    "sw_chainId (ps message) = Some (ac_chain_id c)"
    and "\<exists>a. ck (the (sw_address (ps message))) = Some a \<and> s' = s\<lparr>as_in_flight := as_in_flight s @
        [\<lparr>if_nonce = ac_nonce c, if_address = a, if_message = message, if_signature = signature, if_ip_hash = ipHash\<rparr>]\<rparr>"
    using assms(1) c by (auto simp: verify_begin_def Let_def split: if_splits option.splits)
  then obtain a where a: "ck (the (sw_address (ps message))) = Some a" "s' = s\<lparr>as_in_flight := as_in_flight s @
        [\<lparr>if_nonce = ac_nonce c, if_address = a, if_message = message, if_signature = signature, if_ip_hash = ipHash\<rparr>]\<rparr>" by blast
  have "Issued (fresh_row c) \<in> set evs" "site_row cfg c" using assms(2) cs(1) by (simp_all add: rows_inv_def)
  moreover have "answers ps ck cfg (fresh_row c)
      \<lparr>if_nonce = ac_nonce c, if_address = a, if_message = message, if_signature = signature, if_ip_hash = ipHash\<rparr>"
    using chk a(1) cs(2) \<open>site_row cfg c\<close> by (simp add: answers_def site_row_def Let_def)
  ultimately show ?thesis using a(2) by blast
qed

lemma createSession_Some:
  assumes "createSession hmac cfg now token csrf wallet ipHash s = Some (c, cookie, s')"
  shows "\<exists>r. s' = s\<lparr>as_sessions := as_sessions s @ [r]\<rparr> \<and> se_wallet r = to_lower wallet \<and> se_ip_hash r = ipHash
    \<and> se_expires_at r = se_created_at r + au_sessionTtlMs cfg"
  using assms by (auto simp: createSession_def Let_def split: if_splits)

lemma issue_row:
  assumes "challenge_route cfg now nonce ipHash s = (Inr row, s')" "rows_inv cfg evs (as_challenges s)"
    and "\<forall>r. Issued r \<in> set evs \<longrightarrow> ac_nonce r \<noteq> nonce" "\<forall>n \<in> set (signed_nonces evs). \<exists>c. Issued c \<in> set evs \<and> ac_nonce c = n"
  shows "rows_inv cfg (evs @ [Issued row]) (as_challenges s') \<and> as_sessions s' = as_sessions s \<and> as_in_flight s' = as_in_flight s"
proof -
  let ?kept = "filter (\<lambda>r. \<not> (ac_expires_at r < now - 60000 \<or> ac_consumed_at r \<noteq> None)) (as_challenges s)"
  have row: "s' = s\<lparr>as_challenges := ?kept @ [row]\<rparr>" "ac_nonce row = nonce" "nonce \<notin> ac_nonce ` set ?kept" "fresh_row row = row" "site_row cfg row"
    using assms(1) by (auto simp: challenge_route_def issueChallenge_def Let_def fresh_row_def site_row_def split: if_splits)
  have "nonce \<notin> set (signed_nonces evs)" using assms(3,4) by blast
  moreover have "rows_inv cfg (evs @ [Issued row]) ?kept"
    by (rule rows_inv_more[OF rows_inv_sub[OF assms(2)]]) simp
  ultimately show ?thesis using row unfolding rows_inv_def by auto
qed

text \<open>Consuming a challenge: exactly one unused row of the nonce, which has then not been signed in with before.\<close>

lemma consume_row:
  assumes "rows_inv cfg evs rows"
  shows "rows_inv cfg evs (map (\<lambda>r. if ac_nonce r = n \<and> ac_consumed_at r = None then r\<lparr>ac_consumed_at := Some now\<rparr> else r) rows)"
proof -
  define f where "f = (\<lambda>r :: challenge_row. if ac_nonce r = n \<and> ac_consumed_at r = None then r\<lparr>ac_consumed_at := Some now\<rparr> else r)"
  have f: "fresh_row (f c) = fresh_row c" "site_row cfg (f c) = site_row cfg c" "ac_nonce (f c) = ac_nonce c"
    "ac_consumed_at c \<noteq> None \<Longrightarrow> ac_consumed_at (f c) \<noteq> None" for c
    by (simp_all add: f_def site_row_def)
  have m: "map ac_nonce (map f rows) = map ac_nonce rows" by (simp add: f(3))
  have "rows_inv cfg evs (map f rows)"
    unfolding rows_inv_def m
  proof (intro conjI ballI impI)
    show "distinct (map ac_nonce rows)" using assms by (simp add: rows_inv_def)
  next
    fix c assume "c \<in> set (map f rows)"
    then obtain c0 where c0: "c0 \<in> set rows" "c = f c0" by auto
    then have "Issued (fresh_row c0) \<in> set evs \<and> site_row cfg c0" using assms by (simp add: rows_inv_def)
    then show "Issued (fresh_row c) \<in> set evs" "site_row cfg c" unfolding c0(2) f by simp_all
    assume "ac_nonce c \<in> set (signed_nonces evs)"
    then have "ac_nonce c0 \<in> set (signed_nonces evs)" unfolding c0(2) f(3) .
    then have "ac_consumed_at c0 \<noteq> None" using assms c0(1) unfolding rows_inv_def by blast
    then show "ac_consumed_at c \<noteq> None" unfolding c0(2) by (rule f(4))
  qed
  then show ?thesis unfolding f_def .
qed

lemma rows_inv_signed:
  assumes "rows_inv cfg evs rows" "\<forall>c \<in> set rows. ac_nonce c = if_nonce v \<longrightarrow> ac_consumed_at c \<noteq> None"
  shows "rows_inv cfg (evs @ [SignedIn v r]) rows"
  unfolding rows_inv_def
proof (intro conjI ballI impI)
  show "distinct (map ac_nonce rows)" using assms(1) by (simp add: rows_inv_def)
next
  fix c assume c: "c \<in> set rows"
  then show "Issued (fresh_row c) \<in> set (evs @ [SignedIn v r])" "site_row cfg c" using assms(1) by (simp_all add: rows_inv_def)
  assume "ac_nonce c \<in> set (signed_nonces (evs @ [SignedIn v r]))"
  then consider "ac_nonce c \<in> set (signed_nonces evs)" | "ac_nonce c = if_nonce v" by fastforce
  then show "ac_consumed_at c \<noteq> None" using assms c by cases (simp_all add: rows_inv_def)
qed

lemma sign_in_inv:
  assumes inv: "auth_inv ps ck vm cfg evs s" and v: "v \<in> set (as_in_flight s)"
    and fin: "verify_finish hmac vm cfg now token csrf v s = (Inr x, s')"
  shows "auth_inv ps ck vm cfg (evs @ [SignedIn v (last (as_sessions s'))]) s'"
proof -
  let ?n = "if_nonce v"
  let ?rows = "map (\<lambda>r. if ac_nonce r = ?n \<and> ac_consumed_at r = None then r\<lparr>ac_consumed_at := Some now\<rparr> else r) (as_challenges s)"
  let ?s2 = "s\<lparr>as_in_flight := remove1 v (as_in_flight s), as_challenges := ?rows\<rparr>"
  have ok: "vm (if_address v) (if_message v) (if_signature v)"
    and one: "length (filter (\<lambda>r. ac_nonce r = ?n \<and> ac_consumed_at r = None) (as_challenges s)) = 1"
    using fin by (auto simp: verify_finish_def Let_def split: if_splits option.splits prod.splits)
  obtain c cookie where cs: "createSession hmac cfg now token csrf (if_address v) (if_ip_hash v) ?s2 = Some (c, cookie, s')"
    using fin ok one by (auto simp: verify_finish_def Let_def split: option.splits prod.splits)
  obtain r where r: "s' = ?s2\<lparr>as_sessions := as_sessions ?s2 @ [r]\<rparr>" "se_wallet r = to_lower (if_address v)"
    "se_ip_hash r = if_ip_hash v" "se_expires_at r = se_created_at r + au_sessionTtlMs cfg"
    using createSession_Some[OF cs] by blast
  have last: "last (as_sessions s') = r" using r(1) by simp
  let ?evs = "evs @ [SignedIn v r]"
  have rows: "rows_inv cfg evs (as_challenges s)" using inv by (simp add: auth_inv_def)
  have "\<exists>row \<in> set (as_challenges s). ac_nonce row = ?n \<and> ac_consumed_at row = None"
  proof (rule ccontr)
    assume "\<not> ?thesis"
    then have "filter (\<lambda>r. ac_nonce r = ?n \<and> ac_consumed_at r = None) (as_challenges s) = []" by (simp add: filter_empty_conv)
    then show False using one by (simp only: list.size)
  qed
  then obtain row where row: "row \<in> set (as_challenges s)" "ac_nonce row = ?n" "ac_consumed_at row = None" by blast
  have unsigned: "?n \<notin> set (signed_nonces evs)" using rows row unfolding rows_inv_def by metis
  have sn: "signed_nonces ?evs = signed_nonces evs @ [?n]" by simp
  have "Issued (fresh_row row) \<in> set evs" using rows row(1) by (simp add: rows_inv_def)
  have "\<forall>n \<in> set (signed_nonces evs). \<exists>c. Issued c \<in> set evs \<and> ac_nonce c = n" using inv by (simp add: auth_inv_def)
  have issued: "\<forall>n \<in> set (signed_nonces ?evs). \<exists>c. Issued c \<in> set ?evs \<and> ac_nonce c = n"
  proof (intro ballI)
    fix n assume "n \<in> set (signed_nonces ?evs)"
    then consider "n = ?n" | "n \<in> set (signed_nonces evs)" unfolding sn by auto
    then show "\<exists>c. Issued c \<in> set ?evs \<and> ac_nonce c = n"
    proof cases
      case 1
      then show ?thesis using \<open>Issued (fresh_row row) \<in> set evs\<close> row(2) by (intro exI[of _ "fresh_row row"]) simp
    next
      case 2
      then obtain c where "Issued c \<in> set evs" "ac_nonce c = n"
        using \<open>\<forall>n \<in> set (signed_nonces evs). \<exists>c. Issued c \<in> set evs \<and> ac_nonce c = n\<close> by blast
      then show ?thesis by (intro exI[of _ c]) simp
    qed
  qed
  have cr: "rows_inv cfg evs ?rows" by (rule consume_row[OF rows])
  have consumed: "\<forall>c \<in> set ?rows. ac_nonce c = ?n \<longrightarrow> ac_consumed_at c \<noteq> None" by auto
  have rows': "rows_inv cfg ?evs ?rows"
  proof (rule rows_inv_signed[OF cr])
    show "\<forall>c \<in> set ?rows. ac_nonce c = ?n \<longrightarrow> ac_consumed_at c \<noteq> None" by (rule consumed)
  qed
  obtain ch where ch: "Issued ch \<in> set evs" "answers ps ck cfg ch v" using inv v unfolding auth_inv_def by blast
  have "ac_ip_hash ch = if_ip_hash v" using ch(2) by (simp add: answers_def Let_def)
  then have new: "signed_session ps ck vm cfg ?evs r" using ch ok r(2-4) unfolding signed_session_def by (intro exI[of _ v] exI[of _ ch]) simp
  have old: "signed_session ps ck vm cfg ?evs q \<or> DevSignedIn q \<in> set ?evs \<and> au_devAuth cfg \<and> \<not> au_publicMode cfg"
    if "q \<in> set (as_sessions s)" for q
    using inv that signed_session_more unfolding auth_inv_def by auto
  have fl: "\<forall>w \<in> set (remove1 v (as_in_flight s)). \<exists>c. Issued c \<in> set ?evs \<and> answers ps ck cfg c w"
  proof
    fix w assume "w \<in> set (remove1 v (as_in_flight s))"
    then have "w \<in> set (as_in_flight s)" using set_remove1_subset[of v "as_in_flight s"] by blast
    then show "\<exists>c. Issued c \<in> set ?evs \<and> answers ps ck cfg c w" using inv unfolding auth_inv_def by auto
  qed
  have "distinct (signed_nonces evs)" using inv by (simp add: auth_inv_def)
  then show ?thesis
    unfolding last auth_inv_def sn using rows' issued unsigned fl new old r(1) by (auto simp: sn)
qed

lemma refuse_rows:
  assumes "verify_finish hmac vm cfg now token csrf v s = (Inl e, s')" "rows_inv cfg evs (as_challenges s)"
  shows "rows_inv cfg evs (as_challenges s') \<and> as_sessions s' = as_sessions s \<and> set (as_in_flight s') \<subseteq> set (as_in_flight s)"
proof -
  let ?s1 = "s\<lparr>as_in_flight := remove1 v (as_in_flight s)\<rparr>"
  let ?s2 = "?s1\<lparr>as_challenges := map (\<lambda>r. if ac_nonce r = if_nonce v \<and> ac_consumed_at r = None
      then r\<lparr>ac_consumed_at := Some now\<rparr> else r) (as_challenges s)\<rparr>"
  have "s' = ?s1 \<or> s' = ?s2"
    using assms(1) by (auto simp: verify_finish_def Let_def split: if_splits option.splits prod.splits)
  then show ?thesis
  proof
    assume "s' = ?s1"
    then show ?thesis using assms(2) set_remove1_subset[of v "as_in_flight s"] by simp
  next
    assume "s' = ?s2"
    then show ?thesis using consume_row[OF assms(2), of "if_nonce v" now] set_remove1_subset[of v "as_in_flight s"] by simp
  qed
qed

lemma auth_inv_step:
  assumes "auth_inv ps ck vm cfg evs s" "auth_step hmac decode ps ck vm cfg evs s e s'"
  shows "auth_inv ps ck vm cfg (evs @ [e]) s'"
  using assms(2)
proof cases
  case (issue now nonce ipHash row)
  have rows: "rows_inv cfg evs (as_challenges s)" and "\<forall>n \<in> set (signed_nonces evs). \<exists>c. Issued c \<in> set evs \<and> ac_nonce c = n"
    using assms(1) by (simp_all add: auth_inv_def)
  from issue_row[OF issue(2) rows issue(3) this(2)] show ?thesis
    unfolding issue(1) by (intro auth_inv_event[OF assms(1)]) auto
next
  case (begin_verify now message signature ipHash)
  have rows: "rows_inv cfg evs (as_challenges s)" using assms(1) by (simp add: auth_inv_def)
  obtain v c where v: "s' = s\<lparr>as_in_flight := as_in_flight s @ [v]\<rparr>" "Issued c \<in> set evs" "answers ps ck cfg c v"
    using verify_begin_Inr[OF begin_verify(2) rows] by blast
  have "rows_inv cfg (evs @ [e]) (as_challenges s')"
    using rows_inv_more[OF rows, of e] v(1) begin_verify(1) by simp
  then show ?thesis using v begin_verify(1) by (intro auth_inv_event[OF assms(1)]) auto
next
  case (sign_in v now token csrf r)
  then show ?thesis using sign_in_inv[OF assms(1)] by blast
next
  case (refuse v now token csrf err)
  have rows: "rows_inv cfg evs (as_challenges s)" using assms(1) by (simp add: auth_inv_def)
  note rr = refuse_rows[OF refuse(3) rows]
  have "rows_inv cfg (evs @ [e]) (as_challenges s')" using rows_inv_more[OF conjunct1[OF rr], of e] refuse(1) by simp
  then show ?thesis using rr refuse(1) by (intro auth_inv_event[OF assms(1)]) auto
next
  case (dev now token csrf ipHash c)
  have rows: "rows_inv cfg evs (as_challenges s)" using assms(1) by (simp add: auth_inv_def)
  obtain cc cookie where cs: "createSession hmac cfg now token csrf ''0x000000000000000000000000000000000000dEaD'' ipHash s = Some (cc, cookie, s')"
    and d: "au_devAuth cfg" "\<not> au_publicMode cfg"
    using dev(2) by (auto simp: dev_login_def split: if_splits option.splits prod.splits)
  obtain r where r: "s' = s\<lparr>as_sessions := as_sessions s @ [r]\<rparr>" using createSession_Some[OF cs] by blast
  have e: "e = DevSignedIn r" using dev(1) r by simp
  have "rows_inv cfg (evs @ [e]) (as_challenges s')" using rows_inv_more[OF rows, of e] r e by simp
  then show ?thesis using r e d by (intro auth_inv_event[OF assms(1)]) auto
next
  case (logout cookie)
  have rows: "rows_inv cfg evs (as_challenges s)" using assms(1) by (simp add: auth_inv_def)
  have s': "as_challenges s' = as_challenges s \<and> as_in_flight s' = as_in_flight s \<and> set (as_sessions s') \<subseteq> set (as_sessions s)"
    using logout(2) by (auto simp: clearSession_def split: option.splits)
  then have "rows_inv cfg (evs @ [e]) (as_challenges s')" using rows_inv_more[OF rows, of e] logout(1) by simp
  then show ?thesis using s' logout(1) by (intro auth_inv_event[OF assms(1)]) auto
next
  case (maintain now)
  have rows: "rows_inv cfg evs (as_challenges s)" using assms(1) by (simp add: auth_inv_def)
  have "rows_inv cfg (evs @ [e]) (as_challenges s')"
    using rows_inv_more[OF rows_inv_sub[OF rows], of e] maintain by (simp add: auth_maintenance_def)
  then show ?thesis using maintain by (intro auth_inv_event[OF assms(1)]) (auto simp: auth_maintenance_def)
qed

lemma auth_run_inv: "auth_run hmac decode ps ck vm cfg evs s \<Longrightarrow> auth_inv ps ck vm cfg evs s"
proof (induction rule: auth_run.induct)
  case start
  show ?case by (simp add: auth_inv_def rows_inv_def signed_nonces_def)
next
  case (step evs s e s')
  then show ?case using auth_inv_step by blast
qed

section \<open>A sample run\<close>

definition sample_auth :: auth_config where
  "sample_auth = \<lparr>au_origin_host = ''bloom.example'', au_origin = ''https://bloom.example'', au_authChainId = 1, au_challengeTtlMs = 300000,
     au_sessionTtlMs = 43200000, au_sessionSecret = ''s'', au_devAuth = False, au_publicMode = True\<rparr>"

definition sample_siwe :: siwe where
  "sample_siwe = \<lparr>sw_nonce = Some ''n1'', sw_address = Some ''0xAb'', sw_domain = Some ''bloom.example'', sw_uri = Some ''https://bloom.example'',
     sw_chainId = Some 1, sw_version = Some ''1'', sw_issuedAt = Some (Some 1000), sw_expirationTime = None, sw_notBefore = None\<rparr>"

definition sample_challenge :: challenge_row where
  "sample_challenge = \<lparr>ac_nonce = ''n1'', ac_domain = ''bloom.example'', ac_uri = ''https://bloom.example'', ac_chain_id = 1, ac_ip_hash = ''h'',
     ac_issued_at = 1000, ac_expires_at = 301000, ac_consumed_at = None\<rparr>"

definition sample_flight :: in_flight where
  "sample_flight = \<lparr>if_nonce = ''n1'', if_address = ''0xAb'', if_message = ''m'', if_signature = ''0x1'', if_ip_hash = ''h''\<rparr>"

definition sample_session :: session_row where
  "sample_session = \<lparr>se_token_hash = ''t'', se_wallet = ''0xab'', se_csrf_token = ''c'', se_ip_hash = ''h'', se_created_at = 3000,
     se_expires_at = 43203000\<rparr>"

definition sample_store :: auth_store where
  "sample_store = \<lparr>as_challenges = [sample_challenge\<lparr>ac_consumed_at := Some 3000\<rparr>], as_sessions = [sample_session], as_in_flight = []\<rparr>"

definition sample_events :: "auth_event list" where
  "sample_events = [Issued sample_challenge, Began sample_flight 2000, SignedIn sample_flight sample_session]"

definition sample_request :: api_request where
  "sample_request = \<lparr>rq_method = ''POST'', rq_ip = Some ''203.0.113.9'', rq_origin = Some ''https://bloom.example'',
     rq_cookie = Some ''bloom_session=t'', rq_csrf = Some ''c''\<rparr>"

abbreviation sample_run :: "auth_event list \<Rightarrow> auth_store \<Rightarrow> bool" where
  "sample_run \<equiv> auth_run (\<lambda>t k. t) Some (\<lambda>_. sample_siwe) Some (\<lambda>_ _ _. True) sample_auth"

lemma sample_run_events: "sample_run sample_events sample_store"
proof -
  let ?s0 = "\<lparr>as_challenges = [], as_sessions = [], as_in_flight = []\<rparr>"
  let ?s1 = "\<lparr>as_challenges = [sample_challenge], as_sessions = [], as_in_flight = []\<rparr>"
  let ?s2 = "\<lparr>as_challenges = [sample_challenge], as_sessions = [], as_in_flight = [sample_flight]\<rparr>"
  have 1: "challenge_route sample_auth 1000 ''n1'' ''h'' ?s0 = (Inr sample_challenge, ?s1)" by code_simp
  have 2: "verify_begin (\<lambda>_. sample_siwe) Some 2000 ''m'' ''0x1'' ''h'' ?s1 = Inr ?s2" by code_simp
  have 3: "verify_finish (\<lambda>t k. t) (\<lambda>_ _ _. True) sample_auth 3000 ''t'' ''c'' sample_flight ?s2
      = (Inr (''0xAb'', ''c'', \<lparr>sc_value = ''t'', sc_httpOnly = True, sc_secure = True, sc_sameSite = ''strict'', sc_maxAge = 43200000\<rparr>), sample_store)"
    by code_simp
  have "sample_run [] ?s0" by (rule auth_run.start)
  from auth_run.step[OF this auth_step.issue[OF 1]] have "sample_run [Issued sample_challenge] ?s1" by simp
  from auth_run.step[OF this auth_step.begin_verify[OF 2]] have "sample_run [Issued sample_challenge, Began sample_flight 2000] ?s2" by simp
  from auth_run.step[OF this auth_step.sign_in[OF _ 3]] show ?thesis by (simp add: sample_events_def sample_store_def)
qed

section \<open>Sessions are authentic and challenges single-use\<close>

text \<open>C10. Whoever the guard of the API lets through has signed in. In every run of the service, a request that is
  allowed carries a token of a session that has not expired, and that session was made by a sign-in whose
  signature verified for its wallet over a message that answers a challenge of this site, issued to the same
  client (or by the development login, which exists only when enabled and never in public mode).
\<close>
lemma session_authentic:
  assumes "auth_run hmac decode parse_siwe checksum verify_message cfg evs s"
    and "requireSession hmac decode cfg now rq s = Allowed r"
  shows "now < se_expires_at r \<and> (\<exists>token. parseCookies decode (rq_cookie rq) ''bloom_session'' = Some token \<and> se_token_hash r = hmac token (au_sessionSecret cfg))
    \<and> ((\<exists>v c. SignedIn v r \<in> set evs \<and> Issued c \<in> set evs \<and> answers parse_siwe checksum cfg c v
          \<and> verify_message (if_address v) (if_message v) (if_signature v)
          \<and> se_wallet r = to_lower (if_address v) \<and> se_ip_hash r = ac_ip_hash c)
       \<or> DevSignedIn r \<in> set evs \<and> au_devAuth cfg \<and> \<not> au_publicMode cfg)"
proof -
  have "readSession hmac decode cfg now (rq_cookie rq) s = Some r"
    using assms(2) by (auto simp: requireSession_def split: option.splits if_splits)
  note rs = readSession_Some[OF this]
  have "signed_session parse_siwe checksum verify_message cfg evs r \<or> DevSignedIn r \<in> set evs \<and> au_devAuth cfg \<and> \<not> au_publicMode cfg"
    using auth_run_inv[OF assms(1)] rs unfolding auth_inv_def by blast
  then show ?thesis using rs unfolding signed_session_def by blast
qed

lemma session_authentic_witness:
  "\<exists>v c. SignedIn v sample_session \<in> set sample_events \<and> Issued c \<in> set sample_events
     \<and> answers (\<lambda>_. sample_siwe) Some sample_auth c v \<and> se_ip_hash sample_session = ac_ip_hash c"
proof -
  have "requireSession (\<lambda>t k. t) Some sample_auth 5000 sample_request sample_store = Allowed sample_session"
    by code_simp
  moreover have "au_publicMode sample_auth" by (simp add: sample_auth_def)
  ultimately show ?thesis using session_authentic[OF sample_run_events] by blast
qed

text \<open>C11. A challenge signs in once. However requests interleave while their signatures are checked, and whatever is
  deleted in between, no two sign-ins of a run use the same nonce, and every nonce signed in with was issued.
\<close>
lemma auth_single_use:
  assumes "auth_run hmac decode parse_siwe checksum verify_message cfg evs s"
  shows "distinct (signed_nonces evs) \<and> set (signed_nonces evs) \<subseteq> {ac_nonce c | c. Issued c \<in> set evs}"
  using auth_run_inv[OF assms] unfolding auth_inv_def by auto

lemma auth_single_use_witness: "signed_nonces sample_events = [''n1''] \<and> distinct (signed_nonces sample_events)"
  using auth_single_use[OF sample_run_events] by (simp add: signed_nonces_def sample_events_def sample_flight_def)

end
