(* ===== verification/Config.thy ===== *)
theory Config
  imports EgressPolicy PosixPath Encoding
begin

text \<open>
  \<open>src/config.ts\<close>: the environment schema, \<open>loadConfig\<close> and \<open>assertSafeConfiguration\<close>; and
  \<open>src/capabilities.ts\<close>. The schema is kept as the table it is in the source: a name with the zod type of its
  value. A failing parse is one error, without the issues zod collects.

  Parameters: \<open>number\<close> (\<open>Number(s)\<close>, when it is an integer), \<open>is_url\<close> (zod's test of URLs),
  \<open>url_origin\<close> (the origin of the URL parser, \<open>None\<close> when it throws), \<open>to_ascii\<close> (\<open>domainToASCII\<close>)
  and \<open>cwd\<close>, the working directory.
\<close>

section \<open>The schema\<close>

datatype field =
    BooleanString bool
  | Integer int
  | Ranged int int int
  | Text string
  | Optional
  | Choice "string list" string
  | HostList "string list"
  | PetalList
  | Url string

datatype setting = VBool bool | VInt int | VText string | VMaybe "string option" | VList "string list"

definition DEFAULT_PACKAGE_HOSTS :: "string list" where
  "DEFAULT_PACKAGE_HOSTS = [''dl-cdn.alpinelinux.org'', ''github.com'', ''*.githubusercontent.com'', ''objects.githubusercontent.com'',
     ''registry.npmjs.org'', ''*.npmjs.org'', ''pypi.org'', ''files.pythonhosted.org'', ''index.crates.io'', ''static.crates.io'', ''nodejs.org'']"

definition comma_items :: "string \<Rightarrow> string list" where
  "comma_items v = filter (\<lambda>s. s \<noteq> []) (map trim (split_on (CHR '','') v))"

definition hostList :: "string \<Rightarrow> string list option" where
  "hostList v = (let hosts = comma_items v in if 64 < length hosts \<or> list_ex (\<lambda>h. 253 < length h) hosts then None else Some hosts)"

text \<open>\<open>/^[a-z0-9_-]+$/i\<close>\<close>

definition petal_rx :: rx where
  "petal_rx = plus (RCls (\<lambda>c. is_digit c \<or> c \<in> set ''abcdefghijklmnopqrstuvwxyzABCDEFGHIJKLMNOPQRSTUVWXYZ_-''))"

definition petalList :: "string \<Rightarrow> string list option" where
  "petalList v = (let petals = comma_items v
     in if 32 < length petals \<or> list_ex (\<lambda>p. 128 < length p \<or> \<not> full petal_rx p) petals then None else Some petals)"

text \<open>\<open>z.coerce.number().int()\<close> with bounds; \<open>int\<close> of zod 4 takes safe integers only.\<close>

definition coerced :: "(string \<Rightarrow> int option) \<Rightarrow> int \<Rightarrow> int option \<Rightarrow> int \<Rightarrow> string option \<Rightarrow> setting option" where
  "coerced number lo hi fallback v =
     (case v of
        None \<Rightarrow> Some (VInt fallback)
      | Some s \<Rightarrow>
          (case number s of
             None \<Rightarrow> None
           | Some n \<Rightarrow>
               if \<not> is_safe_integer n \<or> n < lo \<or> (case hi of None \<Rightarrow> False | Some h \<Rightarrow> h < n) then None else Some (VInt n)))"

fun parse_field :: "(string \<Rightarrow> int option) \<Rightarrow> (string \<Rightarrow> bool) \<Rightarrow> field \<Rightarrow> string option \<Rightarrow> setting option" where
  "parse_field number is_url (BooleanString d) v =
     (case v of None \<Rightarrow> Some (VBool d) | Some s \<Rightarrow> if s = ''1'' then Some (VBool True) else if s = ''0'' then Some (VBool False) else None)"
| "parse_field number is_url (Integer d) v = coerced number 1 None d v"
| "parse_field number is_url (Ranged lo hi d) v = coerced number lo (Some hi) d v"
| "parse_field number is_url (Text d) v = Some (VText (case v of None \<Rightarrow> d | Some s \<Rightarrow> s))"
| "parse_field number is_url Optional v = Some (VMaybe v)"
| "parse_field number is_url (Choice cs d) v =
     (case v of None \<Rightarrow> Some (VText d) | Some s \<Rightarrow> if s \<in> set cs then Some (VText s) else None)"
| "parse_field number is_url (HostList d) v =
     map_option VList (hostList (case v of None \<Rightarrow> join_with (CHR '','') d | Some s \<Rightarrow> s))"
| "parse_field number is_url PetalList v = map_option VList (petalList (case v of None \<Rightarrow> [] | Some s \<Rightarrow> s))"
| "parse_field number is_url (Url d) v =
     (case v of None \<Rightarrow> Some (VText d) | Some s \<Rightarrow> if is_url s then Some (VText s) else None)"

definition Env :: "(string \<times> field) list" where
  "Env = [
     (''BLOOM_ORIGIN'', Url ''http://127.0.0.1:8787''),
     (''BLOOM_PORT'', Integer 8787),
     (''BLOOM_DATABASE'', Text ''./data/control.sqlite''),
     (''BLOOM_AGENT_SOCKET'', Text ''./data/agent.sock''),
     (''BLOOM_AGENT_TOKEN'', Text ''local-agent-token-change-me''),
     (''BLOOM_SESSION_SECRET'', Text ''local-session-secret-change-me''),
     (''BLOOM_RUNTIME'', Choice [''process'', ''qemu'', ''firecracker''] ''process''),
     (''BLOOM_DEV_AUTH'', BooleanString False),
     (''BLOOM_DEV_MOCK_CEREMONY'', BooleanString False),
     (''BLOOM_DEV_REAL_BLOOM'', BooleanString False),
     (''BLOOM_PUBLIC_MODE'', BooleanString False),
     (''BLOOM_TRUSTED_PROXY_HOPS'', Ranged 0 5 0),
     (''BLOOM_TURNSTILE_SITE_KEY'', Optional),
     (''BLOOM_TURNSTILE_SECRET'', Optional),
     (''BLOOM_AUTH_CHAIN_ID'', Integer 1),
     (''BLOOM_LEASE_MINUTES'', Integer 30),
     (''BLOOM_MAX_LEASE_MINUTES'', Integer 120),
     (''BLOOM_MAX_RUNNING'', Integer 10),
     (''BLOOM_MAX_QUEUE'', Integer 100),
     (''BLOOM_MAX_ACTIVE_PER_WALLET'', Integer 1),
     (''BLOOM_MAX_ACTIVE_PER_IP'', Integer 2),
     (''BLOOM_DAILY_PER_WALLET'', Integer 3),
     (''BLOOM_DAILY_PER_IP'', Integer 5),
     (''BLOOM_DATA_DIR'', Text ''./data/workspaces''),
     (''BLOOM_VM_KERNEL'', Text ''./artifacts/vmlinux-6.1.155''),
     (''BLOOM_VM_ROOTFS'', Text ''./artifacts/bloom-alpine.ext4''),
     (''BLOOM_FIRECRACKER_BIN'', Text ''./artifacts/firecracker''),
     (''BLOOM_FIRECRACKER_JAILER_BIN'', Text ''./artifacts/jailer''),
     (''BLOOM_FIRECRACKER_JAILED'', BooleanString False),
     (''BLOOM_JAILER_CHROOT_BASE'', Text ''/run/bloom-jailer''),
     (''BLOOM_RUNTIME_SOCKET_DIR'', Text ''/tmp/bloom-workspaces-vm''),
     (''BLOOM_QEMU_BIN'', Text ''qemu-system-x86_64''),
     (''BLOOM_BLOOM_BIN'', Text ''bloom''),
     (''BLOOM_VM_MEMORY_MIB'', Ranged 128 8192 512),
     (''BLOOM_VM_VCPUS'', Ranged 1 8 1),
     (''BLOOM_VM_ACCEL'', Choice [''kvm'', ''tcg''] ''kvm''),
     (''BLOOM_VM_EGRESS'', Choice [''none'', ''controlled'', ''internet''] ''none''),
     (''BLOOM_EGRESS_ALLOWED_HOSTS'', HostList DEFAULT_PACKAGE_HOSTS),
     (''BLOOM_EGRESS_MAX_CONNECTIONS'', Ranged 1 256 32),
     (''BLOOM_EGRESS_MAX_MIB_PER_CONNECTION'', Ranged 1 1024 128),
     (''BLOOM_EGRESS_CONNECTION_SECONDS'', Ranged 5 3600 300),
     (''BLOOM_PERSISTENCE_ENABLED'', BooleanString True),
     (''BLOOM_SSH_ENABLED'', BooleanString False),
     (''BLOOM_SSH_CA_KEY'', Optional),
     (''BLOOM_SSH_MAX_LEASE_MINUTES'', Ranged 1 120 15),
     (''BLOOM_NFS_ENABLED'', BooleanString False),
     (''BLOOM_NFS_KERNEL_CONFIG'', Optional),
     (''BLOOM_STORAGE_QUOTA_MIB'', Ranged 16 5120 512),
     (''BLOOM_PREINSTALLED_PETALS'', PetalList)]"

type_synonym env = "string \<Rightarrow> setting"

definition parse_env :: "(string \<Rightarrow> int option) \<Rightarrow> (string \<Rightarrow> bool) \<Rightarrow> (string \<times> field) list \<Rightarrow> (string \<Rightarrow> string option) \<Rightarrow> env option" where
  "parse_env number is_url schema source =
     (if list_all (\<lambda>(name, f). parse_field number is_url f (source name) \<noteq> None) schema
      then Some (\<lambda>name. case map_of schema name of
             None \<Rightarrow> VMaybe None | Some f \<Rightarrow> the (parse_field number is_url f (source name)))
      else None)"

text \<open>The static types of the parsed object.\<close>

fun as_bool :: "setting \<Rightarrow> bool" where "as_bool (VBool b) = b" | "as_bool _ = False"
fun as_int :: "setting \<Rightarrow> int" where "as_int (VInt n) = n" | "as_int _ = 0"
fun as_text :: "setting \<Rightarrow> string" where "as_text (VText s) = s" | "as_text _ = []"
fun as_maybe :: "setting \<Rightarrow> string option" where "as_maybe (VMaybe m) = m" | "as_maybe _ = None"
fun as_list :: "setting \<Rightarrow> string list" where "as_list (VList xs) = xs" | "as_list _ = []"

section \<open>The configuration\<close>

record config =
  cfg_origin :: string
  cfg_port :: int
  cfg_databasePath :: string
  cfg_agentSocket :: string
  cfg_agentToken :: string
  cfg_sessionSecret :: string
  cfg_runtime :: string
  cfg_devAuth :: bool
  cfg_devMockCeremony :: bool
  cfg_devRealBloom :: bool
  cfg_publicMode :: bool
  cfg_trustedProxyHops :: int
  cfg_turnstileSiteKey :: "string option"
  cfg_turnstileSecret :: "string option"
  cfg_authChainId :: int
  cfg_leaseMs :: int
  cfg_maxLeaseMs :: int
  cfg_maxRunning :: int
  cfg_maxQueue :: int
  cfg_maxActivePerWallet :: int
  cfg_maxActivePerIp :: int
  cfg_dailyPerWallet :: int
  cfg_dailyPerIp :: int
  cfg_dataDir :: string
  cfg_vmKernel :: string
  cfg_vmRootfs :: string
  cfg_firecrackerBin :: string
  cfg_firecrackerJailerBin :: string
  cfg_firecrackerJailed :: bool
  cfg_jailerChrootBase :: string
  cfg_runtimeSocketDir :: string
  cfg_qemuBin :: string
  cfg_bloomBin :: string
  cfg_vmMemoryMib :: int
  cfg_vmVcpus :: int
  cfg_vmAccel :: string
  cfg_vmCpu :: string
  cfg_vmEgress :: string
  cfg_egressAllowedHosts :: "string list"
  cfg_egressMaxConnections :: int
  cfg_egressMaxBytesPerConnection :: int
  cfg_egressMaxConnectionMs :: int
  cfg_persistenceEnabled :: bool
  cfg_sshEnabled :: bool
  cfg_sshCaKeyPath :: "string option"
  cfg_sshMaxLeaseMs :: int
  cfg_nfsEnabled :: bool
  cfg_nfsKernelConfig :: "string option"
  cfg_storageQuotaBytes :: int
  cfg_preinstalledPetals :: "string list"
  cfg_sessionTtlMs :: int
  cfg_challengeTtlMs :: int
  cfg_agentRequestTimeoutMs :: int

text \<open>A string that is there and not empty.\<close>

definition truthy :: "string option \<Rightarrow> bool" where
  "truthy v \<longleftrightarrow> v \<noteq> None \<and> v \<noteq> Some []"

definition resolve_some :: "string \<Rightarrow> string option \<Rightarrow> string option" where
  "resolve_some cwd v = (if truthy v then map_option (resolve cwd) v else None)"

definition resolve_command :: "string \<Rightarrow> string \<Rightarrow> string" where
  "resolve_command cwd v = (if CHR ''/'' \<in> set v then resolve cwd v else v)"

definition build_config :: "string \<Rightarrow> string \<Rightarrow> env \<Rightarrow> config" where
  "build_config cwd origin env =
     (let bool_of = (\<lambda>n. as_bool (env n)); int_of = (\<lambda>n. as_int (env n)); text_of = (\<lambda>n. as_text (env n));
          maybe_of = (\<lambda>n. as_maybe (env n)); list_of = (\<lambda>n. as_list (env n)); path_of = (\<lambda>n. resolve cwd (as_text (env n)))
      in \<lparr>cfg_origin = origin,
          cfg_port = int_of ''BLOOM_PORT'',
          cfg_databasePath = path_of ''BLOOM_DATABASE'',
          cfg_agentSocket = path_of ''BLOOM_AGENT_SOCKET'',
          cfg_agentToken = text_of ''BLOOM_AGENT_TOKEN'',
          cfg_sessionSecret = text_of ''BLOOM_SESSION_SECRET'',
          cfg_runtime = text_of ''BLOOM_RUNTIME'',
          cfg_devAuth = bool_of ''BLOOM_DEV_AUTH'',
          cfg_devMockCeremony = bool_of ''BLOOM_DEV_MOCK_CEREMONY'',
          cfg_devRealBloom = bool_of ''BLOOM_DEV_REAL_BLOOM'',
          cfg_publicMode = bool_of ''BLOOM_PUBLIC_MODE'',
          cfg_trustedProxyHops = int_of ''BLOOM_TRUSTED_PROXY_HOPS'',
          cfg_turnstileSiteKey = maybe_of ''BLOOM_TURNSTILE_SITE_KEY'',
          cfg_turnstileSecret = maybe_of ''BLOOM_TURNSTILE_SECRET'',
          cfg_authChainId = int_of ''BLOOM_AUTH_CHAIN_ID'',
          cfg_leaseMs = int_of ''BLOOM_LEASE_MINUTES'' * 60000,
          cfg_maxLeaseMs = int_of ''BLOOM_MAX_LEASE_MINUTES'' * 60000,
          cfg_maxRunning = int_of ''BLOOM_MAX_RUNNING'',
          cfg_maxQueue = int_of ''BLOOM_MAX_QUEUE'',
          cfg_maxActivePerWallet = int_of ''BLOOM_MAX_ACTIVE_PER_WALLET'',
          cfg_maxActivePerIp = int_of ''BLOOM_MAX_ACTIVE_PER_IP'',
          cfg_dailyPerWallet = int_of ''BLOOM_DAILY_PER_WALLET'',
          cfg_dailyPerIp = int_of ''BLOOM_DAILY_PER_IP'',
          cfg_dataDir = path_of ''BLOOM_DATA_DIR'',
          cfg_vmKernel = path_of ''BLOOM_VM_KERNEL'',
          cfg_vmRootfs = path_of ''BLOOM_VM_ROOTFS'',
          cfg_firecrackerBin = path_of ''BLOOM_FIRECRACKER_BIN'',
          cfg_firecrackerJailerBin = path_of ''BLOOM_FIRECRACKER_JAILER_BIN'',
          cfg_firecrackerJailed = bool_of ''BLOOM_FIRECRACKER_JAILED'',
          cfg_jailerChrootBase = path_of ''BLOOM_JAILER_CHROOT_BASE'',
          cfg_runtimeSocketDir = path_of ''BLOOM_RUNTIME_SOCKET_DIR'',
          cfg_qemuBin = resolve_command cwd (text_of ''BLOOM_QEMU_BIN''),
          cfg_bloomBin = resolve_command cwd (text_of ''BLOOM_BLOOM_BIN''),
          cfg_vmMemoryMib = int_of ''BLOOM_VM_MEMORY_MIB'',
          cfg_vmVcpus = int_of ''BLOOM_VM_VCPUS'',
          cfg_vmAccel = text_of ''BLOOM_VM_ACCEL'',
          cfg_vmCpu = (if text_of ''BLOOM_VM_ACCEL'' = ''tcg'' then ''max'' else ''host''),
          cfg_vmEgress = text_of ''BLOOM_VM_EGRESS'',
          cfg_egressAllowedHosts = list_of ''BLOOM_EGRESS_ALLOWED_HOSTS'',
          cfg_egressMaxConnections = int_of ''BLOOM_EGRESS_MAX_CONNECTIONS'',
          cfg_egressMaxBytesPerConnection = int_of ''BLOOM_EGRESS_MAX_MIB_PER_CONNECTION'' * 1024 * 1024,
          cfg_egressMaxConnectionMs = int_of ''BLOOM_EGRESS_CONNECTION_SECONDS'' * 1000,
          cfg_persistenceEnabled = bool_of ''BLOOM_PERSISTENCE_ENABLED'',
          cfg_sshEnabled = bool_of ''BLOOM_SSH_ENABLED'',
          cfg_sshCaKeyPath = resolve_some cwd (maybe_of ''BLOOM_SSH_CA_KEY''),
          cfg_sshMaxLeaseMs = int_of ''BLOOM_SSH_MAX_LEASE_MINUTES'' * 60000,
          cfg_nfsEnabled = bool_of ''BLOOM_NFS_ENABLED'',
          cfg_nfsKernelConfig = resolve_some cwd (maybe_of ''BLOOM_NFS_KERNEL_CONFIG''),
          cfg_storageQuotaBytes = int_of ''BLOOM_STORAGE_QUOTA_MIB'' * 1024 * 1024,
          cfg_preinstalledPetals = list_of ''BLOOM_PREINSTALLED_PETALS'',
          cfg_sessionTtlMs = 12 * 60 * 60000,
          cfg_challengeTtlMs = 5 * 60000,
          cfg_agentRequestTimeoutMs = 30000\<rparr>)"

section \<open>Refused configurations\<close>

datatype role = AllRoles | Control | Agent

datatype complaint =
    SshNeedsQemu | SshNeedsCaKey | NfsNeedsSsh | NfsNeedsQemu | NfsNeedsKernelConfig
  | OriginNotHttps | DevAuth | MockCeremony | RealBloom | ProcessRuntime | NoTurnstile | WeakSessionSecret | WeakAgentToken
  | OpenEgress | NotJailed | Emulated

datatype config_error = BadEnvironment | BadOriginUrl | BadHosts policy_failure | UnsafeCapability "complaint list" | UnsafePublic "complaint list"

definition weak_secret :: "string \<Rightarrow> bool" where
  "weak_secret s \<longleftrightarrow> includes_sub s ''change-me'' \<or> utf8_len s < 32"

definition capability_complaints :: "config \<Rightarrow> role \<Rightarrow> complaint list" where
  "capability_complaints c role =
     (if cfg_sshEnabled c \<and> cfg_runtime c \<noteq> ''qemu'' then [SshNeedsQemu] else [])
     @ (if role \<noteq> Control \<and> cfg_sshEnabled c \<and> \<not> truthy (cfg_sshCaKeyPath c) then [SshNeedsCaKey] else [])
     @ (if cfg_nfsEnabled c \<and> \<not> cfg_sshEnabled c then [NfsNeedsSsh] else [])
     @ (if cfg_nfsEnabled c \<and> cfg_runtime c \<noteq> ''qemu'' then [NfsNeedsQemu] else [])
     @ (if role \<noteq> Control \<and> cfg_nfsEnabled c \<and> \<not> truthy (cfg_nfsKernelConfig c) then [NfsNeedsKernelConfig] else [])"

definition public_complaints :: "config \<Rightarrow> role \<Rightarrow> complaint list" where
  "public_complaints c role =
     (if role \<noteq> Agent \<and> \<not> starts_with (cfg_origin c) ''https://'' then [OriginNotHttps] else [])
     @ (if role \<noteq> Agent \<and> cfg_devAuth c then [DevAuth] else [])
     @ (if cfg_devMockCeremony c then [MockCeremony] else [])
     @ (if cfg_devRealBloom c then [RealBloom] else [])
     @ (if cfg_runtime c = ''process'' then [ProcessRuntime] else [])
     @ (if role \<noteq> Agent \<and> (\<not> truthy (cfg_turnstileSiteKey c) \<or> \<not> truthy (cfg_turnstileSecret c)) then [NoTurnstile] else [])
     @ (if role \<noteq> Agent \<and> weak_secret (cfg_sessionSecret c) then [WeakSessionSecret] else [])
     @ (if weak_secret (cfg_agentToken c) then [WeakAgentToken] else [])
     @ (if cfg_vmEgress c = ''internet'' then [OpenEgress] else [])
     @ (if cfg_runtime c = ''firecracker'' \<and> \<not> cfg_firecrackerJailed c then [NotJailed] else [])
     @ (if cfg_vmAccel c = ''tcg'' then [Emulated] else [])"

definition assertSafeConfiguration :: "config \<Rightarrow> role \<Rightarrow> (config_error, unit) res" where
  "assertSafeConfiguration c role =
     (if capability_complaints c role \<noteq> [] then Inl (UnsafeCapability (capability_complaints c role))
      else if \<not> cfg_publicMode c then Inr ()
      else if public_complaints c role \<noteq> [] then Inl (UnsafePublic (public_complaints c role)) else Inr ())"

definition loadConfig ::
  "(string \<Rightarrow> int option) \<Rightarrow> (string \<Rightarrow> bool) \<Rightarrow> (string \<Rightarrow> string option) \<Rightarrow> (string \<Rightarrow> string) \<Rightarrow> string \<Rightarrow> (string \<Rightarrow> string option)
     \<Rightarrow> role \<Rightarrow> (config_error, config) res" where
  "loadConfig number is_url url_origin to_ascii cwd source role =
     (case parse_env number is_url Env source of
        None \<Rightarrow> Inl BadEnvironment
      | Some env \<Rightarrow>
          (case url_origin (as_text (env ''BLOOM_ORIGIN'')) of
             None \<Rightarrow> Inl BadOriginUrl
           | Some origin \<Rightarrow>
               let c = build_config cwd origin env
               in case new_EgressPolicy to_ascii \<lparr>eo_allowedHosts = Some (cfg_egressAllowedHosts c), eo_allowedHttpPorts = None,
                      eo_allowedConnectPorts = None, eo_dnsTimeoutMs = None\<rparr> of
                    Inl e \<Rightarrow> Inl (BadHosts e)
                  | Inr _ \<Rightarrow> (case assertSafeConfiguration c role of Inl e \<Rightarrow> Inl e | Inr _ \<Rightarrow> Inr c)))"

section \<open>Capabilities\<close>

datatype status = Available | Disabled | Unsupported

datatype transport = Websocket | Https | GuestControl | HttpProxy | SshTransport | Nfs4

record capability_inputs =
  ci_runtime :: string
  ci_guestControl :: bool
  ci_persistentDataDisk :: bool
  ci_egressProxy :: bool
  ci_sshGateway :: bool
  ci_nfsGateway :: bool

text \<open>A capability without its text.\<close>

type_synonym capability = "status \<times> transport option"

definition available :: "transport \<Rightarrow> capability" where "available t = (Available, Some t)"
definition disabled :: capability where "disabled = (Disabled, None)"
definition unsupported :: capability where "unsupported = (Unsupported, None)"

record capability_set =
  cs_terminal :: capability
  cs_files :: capability
  cs_persistence :: capability
  cs_jobs :: capability
  cs_bloom :: capability
  cs_controlledEgress :: capability
  cs_ssh :: capability
  cs_nfs :: capability

definition runtimeCapabilities :: "capability_inputs \<Rightarrow> capability_set" where
  "runtimeCapabilities i =
     (let developmentProcess = (ci_runtime i = ''process'');
          files = (if ci_guestControl i \<or> developmentProcess then available Https else unsupported);
          persistence = (if ci_persistentDataDisk i then available GuestControl else unsupported);
          jobs = (if ci_guestControl i then available GuestControl else unsupported);
          bloom = (if ci_guestControl i then available GuestControl else unsupported);
          controlledEgress = (if ci_egressProxy i then available HttpProxy else disabled);
          ssh = (if ci_sshGateway i \<and> (ci_guestControl i \<or> developmentProcess) then available SshTransport
                 else if ci_sshGateway i then unsupported else disabled);
          nfs = (if ci_nfsGateway i \<and> ci_persistentDataDisk i \<and> fst ssh = Available then available Nfs4
                 else if ci_nfsGateway i then unsupported else disabled)
      in \<lparr>cs_terminal = available Websocket, cs_files = files, cs_persistence = persistence, cs_jobs = jobs, cs_bloom = bloom,
          cs_controlledEgress = controlledEgress, cs_ssh = ssh, cs_nfs = nfs\<rparr>)"

section \<open>Parsed environments are typed\<close>

definition in_range :: "int \<Rightarrow> int option \<Rightarrow> int \<Rightarrow> bool" where
  "in_range lo hi n \<longleftrightarrow> is_safe_integer n \<and> lo \<le> n \<and> (case hi of None \<Rightarrow> True | Some h \<Rightarrow> n \<le> h)"

fun of_type :: "field \<Rightarrow> setting \<Rightarrow> bool" where
  "of_type (Integer d) (VInt n) = in_range 1 None n"
| "of_type (Ranged lo hi d) (VInt n) = in_range lo (Some hi) n"
| "of_type (Choice cs d) (VText s) = (s \<in> set cs)"
| "of_type (BooleanString d) (VBool b) = True"
| "of_type (Text d) (VText s) = True"
| "of_type (Url d) (VText s) = True"
| "of_type Optional (VMaybe m) = True"
| "of_type (HostList d) (VList hosts) = (length hosts \<le> 64 \<and> (\<forall>h \<in> set hosts. h \<noteq> [] \<and> length h \<le> 253))"
| "of_type PetalList (VList ps) = (length ps \<le> 32 \<and> (\<forall>p \<in> set ps. length p \<le> 128 \<and> full petal_rx p))"
| "of_type _ _ = False"

text \<open>The defaults, which zod does not check, are values of their types.\<close>

fun default_ok :: "field \<Rightarrow> bool" where
  "default_ok (Integer d) = in_range 1 None d"
| "default_ok (Ranged lo hi d) = in_range lo (Some hi) d"
| "default_ok (Choice cs d) = (d \<in> set cs)"
| "default_ok _ = True"

lemma hostList_Some: "hostList v = Some hosts \<Longrightarrow> length hosts \<le> 64 \<and> (\<forall>h \<in> set hosts. h \<noteq> [] \<and> length h \<le> 253)"
proof -
  assume h: "hostList v = Some hosts"
  have "comma_items v = hosts" "length hosts \<le> 64" "\<forall>h \<in> set hosts. length h \<le> 253"
    using h by (auto simp: hostList_def Let_def list_ex_iff not_less split: if_splits)
  moreover have "\<forall>h \<in> set (comma_items v). h \<noteq> []" by (simp add: comma_items_def)
  ultimately show ?thesis by blast
qed

lemma petalList_Some: "petalList v = Some ps \<Longrightarrow> length ps \<le> 32 \<and> (\<forall>p \<in> set ps. length p \<le> 128 \<and> full petal_rx p)"
  by (auto simp: petalList_def Let_def list_ex_iff not_less split: if_splits)

lemma coerced_Some: "coerced number lo hi d v = Some x \<Longrightarrow> in_range lo hi d \<Longrightarrow> \<exists>n. x = VInt n \<and> in_range lo hi n"
  by (auto simp: coerced_def in_range_def split: option.splits if_splits)

lemma parse_field_typed: "parse_field number is_url f v = Some x \<Longrightarrow> default_ok f \<Longrightarrow> of_type f x"
proof (cases f)
  case (Integer d)
  then show "parse_field number is_url f v = Some x \<Longrightarrow> default_ok f \<Longrightarrow> ?thesis" using coerced_Some[of number 1 None d v x] by auto
next
  case (Ranged lo hi d)
  then show "parse_field number is_url f v = Some x \<Longrightarrow> default_ok f \<Longrightarrow> ?thesis" using coerced_Some[of number lo "Some hi" d v x] by auto
qed (auto split: option.splits if_splits dest: hostList_Some petalList_Some)

lemma Env_defaults: "list_all (\<lambda>(n, f). default_ok f) Env"
  by code_simp

lemma parse_env_typed:
  assumes "parse_env number is_url Env source = Some env" "map_of Env n = Some f"
  shows "of_type f (env n)"
proof -
  have mem: "(n, f) \<in> set Env" by (rule map_of_SomeD[OF assms(2)])
  have all: "\<forall>x \<in> set Env. case x of (n, f) \<Rightarrow> parse_field number is_url f (source n) \<noteq> None"
    and env: "env n = the (parse_field number is_url f (source n))"
    using assms by (auto simp: parse_env_def list_all_iff split: if_splits)
  have "parse_field number is_url f (source n) \<noteq> None" using bspec[OF all mem] by simp
  moreover have "default_ok f" using Env_defaults mem by (auto simp: list_all_iff)
  ultimately show ?thesis using parse_field_typed[of number is_url f "source n"] env by auto
qed

lemma typed_int: "of_type (Integer d) x \<Longrightarrow> 1 \<le> as_int x \<and> is_safe_integer (as_int x)" by (cases x) (auto simp: in_range_def)
lemma typed_ranged: "of_type (Ranged lo hi d) x \<Longrightarrow> lo \<le> as_int x \<and> as_int x \<le> hi" by (cases x) (auto simp: in_range_def)
lemma typed_choice: "of_type (Choice cs d) x \<Longrightarrow> as_text x \<in> set cs" by (cases x) auto
lemma typed_hosts: "of_type (HostList d) x \<Longrightarrow> length (as_list x) \<le> 64 \<and> (\<forall>h \<in> set (as_list x). h \<noteq> [] \<and> length h \<le> 253)" by (cases x) auto
lemma typed_petals: "of_type PetalList x \<Longrightarrow> length (as_list x) \<le> 32 \<and> (\<forall>p \<in> set (as_list x). length p \<le> 128 \<and> full petal_rx p)" by (cases x) auto

lemma loadConfig_Inr:
  "loadConfig number is_url url_origin to_ascii cwd source role = Inr c \<longleftrightarrow>
     (\<exists>env origin p. parse_env number is_url Env source = Some env \<and> url_origin (as_text (env ''BLOOM_ORIGIN'')) = Some origin
        \<and> c = build_config cwd origin env
        \<and> new_EgressPolicy to_ascii \<lparr>eo_allowedHosts = Some (cfg_egressAllowedHosts c), eo_allowedHttpPorts = None,
            eo_allowedConnectPorts = None, eo_dnsTimeoutMs = None\<rparr> = Inr p
        \<and> assertSafeConfiguration c role = Inr ())"
  unfolding loadConfig_def Let_def by (auto split: option.splits sum.splits)

text \<open>The fields a loaded configuration takes from numbers of the environment.\<close>

lemma Env_lookup:
  "map_of Env ''BLOOM_PORT'' = Some (Integer 8787)"
  "map_of Env ''BLOOM_RUNTIME'' = Some (Choice [''process'', ''qemu'', ''firecracker''] ''process'')"
  "map_of Env ''BLOOM_TRUSTED_PROXY_HOPS'' = Some (Ranged 0 5 0)"
  "map_of Env ''BLOOM_LEASE_MINUTES'' = Some (Integer 30)"
  "map_of Env ''BLOOM_MAX_LEASE_MINUTES'' = Some (Integer 120)"
  "map_of Env ''BLOOM_MAX_RUNNING'' = Some (Integer 10)"
  "map_of Env ''BLOOM_MAX_QUEUE'' = Some (Integer 100)"
  "map_of Env ''BLOOM_MAX_ACTIVE_PER_WALLET'' = Some (Integer 1)"
  "map_of Env ''BLOOM_VM_MEMORY_MIB'' = Some (Ranged 128 8192 512)"
  "map_of Env ''BLOOM_VM_VCPUS'' = Some (Ranged 1 8 1)"
  "map_of Env ''BLOOM_VM_ACCEL'' = Some (Choice [''kvm'', ''tcg''] ''kvm'')"
  "map_of Env ''BLOOM_VM_EGRESS'' = Some (Choice [''none'', ''controlled'', ''internet''] ''none'')"
  "map_of Env ''BLOOM_EGRESS_ALLOWED_HOSTS'' = Some (HostList DEFAULT_PACKAGE_HOSTS)"
  "map_of Env ''BLOOM_EGRESS_MAX_CONNECTIONS'' = Some (Ranged 1 256 32)"
  "map_of Env ''BLOOM_EGRESS_MAX_MIB_PER_CONNECTION'' = Some (Ranged 1 1024 128)"
  "map_of Env ''BLOOM_EGRESS_CONNECTION_SECONDS'' = Some (Ranged 5 3600 300)"
  "map_of Env ''BLOOM_SSH_MAX_LEASE_MINUTES'' = Some (Ranged 1 120 15)"
  "map_of Env ''BLOOM_STORAGE_QUOTA_MIB'' = Some (Ranged 16 5120 512)"
  "map_of Env ''BLOOM_PREINSTALLED_PETALS'' = Some PetalList"
  by code_simp+

lemmas built = build_config_def Let_def

lemma build_config_ints:
  "cfg_port (build_config cwd u env) = as_int (env ''BLOOM_PORT'')"
  "cfg_trustedProxyHops (build_config cwd u env) = as_int (env ''BLOOM_TRUSTED_PROXY_HOPS'')"
  "cfg_leaseMs (build_config cwd u env) = as_int (env ''BLOOM_LEASE_MINUTES'') * 60000"
  "cfg_maxLeaseMs (build_config cwd u env) = as_int (env ''BLOOM_MAX_LEASE_MINUTES'') * 60000"
  "cfg_maxRunning (build_config cwd u env) = as_int (env ''BLOOM_MAX_RUNNING'')"
  "cfg_maxQueue (build_config cwd u env) = as_int (env ''BLOOM_MAX_QUEUE'')"
  "cfg_maxActivePerWallet (build_config cwd u env) = as_int (env ''BLOOM_MAX_ACTIVE_PER_WALLET'')"
  "cfg_vmMemoryMib (build_config cwd u env) = as_int (env ''BLOOM_VM_MEMORY_MIB'')"
  "cfg_vmVcpus (build_config cwd u env) = as_int (env ''BLOOM_VM_VCPUS'')"
  "cfg_egressMaxConnections (build_config cwd u env) = as_int (env ''BLOOM_EGRESS_MAX_CONNECTIONS'')"
  "cfg_egressMaxBytesPerConnection (build_config cwd u env) = as_int (env ''BLOOM_EGRESS_MAX_MIB_PER_CONNECTION'') * 1024 * 1024"
  "cfg_egressMaxConnectionMs (build_config cwd u env) = as_int (env ''BLOOM_EGRESS_CONNECTION_SECONDS'') * 1000"
  "cfg_sshMaxLeaseMs (build_config cwd u env) = as_int (env ''BLOOM_SSH_MAX_LEASE_MINUTES'') * 60000"
  "cfg_storageQuotaBytes (build_config cwd u env) = as_int (env ''BLOOM_STORAGE_QUOTA_MIB'') * 1024 * 1024"
  by (simp_all add: built)

lemma build_config_others:
  "cfg_origin (build_config cwd u env) = u"
  "cfg_runtime (build_config cwd u env) = as_text (env ''BLOOM_RUNTIME'')"
  "cfg_vmAccel (build_config cwd u env) = as_text (env ''BLOOM_VM_ACCEL'')"
  "cfg_vmEgress (build_config cwd u env) = as_text (env ''BLOOM_VM_EGRESS'')"
  "cfg_vmCpu (build_config cwd u env) = (if as_text (env ''BLOOM_VM_ACCEL'') = ''tcg'' then ''max'' else ''host'')"
  "cfg_egressAllowedHosts (build_config cwd u env) = as_list (env ''BLOOM_EGRESS_ALLOWED_HOSTS'')"
  "cfg_preinstalledPetals (build_config cwd u env) = as_list (env ''BLOOM_PREINSTALLED_PETALS'')"
  "cfg_runtimeSocketDir (build_config cwd u env) = resolve cwd (as_text (env ''BLOOM_RUNTIME_SOCKET_DIR''))"
  "cfg_databasePath (build_config cwd u env) = resolve cwd (as_text (env ''BLOOM_DATABASE''))"
  "cfg_agentSocket (build_config cwd u env) = resolve cwd (as_text (env ''BLOOM_AGENT_SOCKET''))"
  "cfg_dataDir (build_config cwd u env) = resolve cwd (as_text (env ''BLOOM_DATA_DIR''))"
  by (simp_all add: built)

lemma resolve_absolute: "isAbsolute (resolve cwd p)"
  by (simp add: resolve_def resolve_abs_def isAbsolute_def starts_with_def)


lemma loadConfig_choices:
  assumes "loadConfig number is_url url_origin to_ascii cwd source role = Inr c"
  shows "cfg_runtime c \<in> set [''process'', ''qemu'', ''firecracker''] \<and> cfg_vmAccel c \<in> set [''kvm'', ''tcg'']
    \<and> cfg_vmEgress c \<in> set [''none'', ''controlled'', ''internet'']"
proof -
  obtain env u where env: "parse_env number is_url Env source = Some env" and c: "c = build_config cwd u env"
    using assms unfolding loadConfig_Inr by blast
  note t = parse_env_typed[OF env]
  show ?thesis unfolding c build_config_others
    using typed_choice[OF t[OF Env_lookup(2)]] typed_choice[OF t[OF Env_lookup(11)]] typed_choice[OF t[OF Env_lookup(12)]] by blast
qed

text \<open>What a loaded configuration takes from the egress settings.\<close>

lemma loadConfig_egress:
  assumes "loadConfig number is_url url_origin to_ascii cwd source role = Inr c"
  shows "1 \<le> cfg_egressMaxConnections c \<and> cfg_egressMaxConnections c \<le> 256
    \<and> 1024 * 1024 \<le> cfg_egressMaxBytesPerConnection c \<and> cfg_egressMaxBytesPerConnection c \<le> 1024 * 1024 * 1024
    \<and> 5000 \<le> cfg_egressMaxConnectionMs c \<and> cfg_egressMaxConnectionMs c \<le> 3600000
    \<and> (\<exists>p. new_EgressPolicy to_ascii \<lparr>eo_allowedHosts = Some (cfg_egressAllowedHosts c), eo_allowedHttpPorts = None,
            eo_allowedConnectPorts = None, eo_dnsTimeoutMs = None\<rparr> = Inr p)"
proof -
  obtain env u p where env: "parse_env number is_url Env source = Some env" and c: "c = build_config cwd u env"
    and p: "new_EgressPolicy to_ascii \<lparr>eo_allowedHosts = Some (cfg_egressAllowedHosts c), eo_allowedHttpPorts = None,
            eo_allowedConnectPorts = None, eo_dnsTimeoutMs = None\<rparr> = Inr p"
    using assms unfolding loadConfig_Inr by blast
  note t = parse_env_typed[OF env]
  note ranges = typed_ranged[OF t[OF Env_lookup(14)]] typed_ranged[OF t[OF Env_lookup(15)]] typed_ranged[OF t[OF Env_lookup(16)]]
  have "\<exists>p. new_EgressPolicy to_ascii \<lparr>eo_allowedHosts = Some (cfg_egressAllowedHosts c), eo_allowedHttpPorts = None,
            eo_allowedConnectPorts = None, eo_dnsTimeoutMs = None\<rparr> = Inr p" using p by blast
  moreover have "1 \<le> cfg_egressMaxConnections c \<and> cfg_egressMaxConnections c \<le> 256
    \<and> 1024 * 1024 \<le> cfg_egressMaxBytesPerConnection c \<and> cfg_egressMaxBytesPerConnection c \<le> 1024 * 1024 * 1024
    \<and> 5000 \<le> cfg_egressMaxConnectionMs c \<and> cfg_egressMaxConnectionMs c \<le> 3600000"
    unfolding c build_config_ints using ranges by simp
  ultimately show ?thesis by blast
qed

section \<open>Public deployments\<close>

lemma complaints_Nil:
  "capability_complaints c role = [] \<longleftrightarrow>
     (cfg_sshEnabled c \<longrightarrow> cfg_runtime c = ''qemu'' \<and> (role = Control \<or> truthy (cfg_sshCaKeyPath c)))
     \<and> (cfg_nfsEnabled c \<longrightarrow> cfg_sshEnabled c \<and> cfg_runtime c = ''qemu'' \<and> (role = Control \<or> truthy (cfg_nfsKernelConfig c)))"
  by (auto simp: capability_complaints_def)

lemma if_Nil_iff: "(if b then [x] else []) = [] \<longleftrightarrow> \<not> b"
  by simp

lemma public_Nil:
  "public_complaints c role = [] \<longleftrightarrow>
     (role \<noteq> Agent \<longrightarrow> starts_with (cfg_origin c) ''https://'' \<and> \<not> cfg_devAuth c \<and> truthy (cfg_turnstileSiteKey c)
        \<and> truthy (cfg_turnstileSecret c) \<and> \<not> weak_secret (cfg_sessionSecret c))
     \<and> \<not> cfg_devMockCeremony c \<and> \<not> cfg_devRealBloom c \<and> cfg_runtime c \<noteq> ''process'' \<and> \<not> weak_secret (cfg_agentToken c)
     \<and> cfg_vmEgress c \<noteq> ''internet'' \<and> (cfg_runtime c = ''firecracker'' \<longrightarrow> cfg_firecrackerJailed c) \<and> cfg_vmAccel c \<noteq> ''tcg''"
  unfolding public_complaints_def append_is_Nil_conv if_Nil_iff
  by (cases role) (simp_all, blast+)

lemma assertSafe_Inr:
  "assertSafeConfiguration c role = Inr () \<longleftrightarrow>
     capability_complaints c role = [] \<and> (cfg_publicMode c \<longrightarrow> public_complaints c role = [])"
  by (auto simp: assertSafeConfiguration_def)

lemma loadConfig_safe:
  "loadConfig number is_url url_origin to_ascii cwd source role = Inr c \<Longrightarrow> assertSafeConfiguration c role = Inr ()"
  unfolding loadConfig_Inr by blast

lemma loadConfig_public_vm:
  assumes "loadConfig number is_url url_origin to_ascii cwd source role = Inr c" "cfg_publicMode c"
  shows "cfg_vmAccel c = ''kvm''" "cfg_vmEgress c \<noteq> ''internet''" "cfg_runtime c \<noteq> ''process''"
proof -
  have "public_complaints c role = []" using loadConfig_safe[OF assms(1)] assms(2) by (simp add: assertSafe_Inr)
  note nil = this[unfolded public_Nil weak_secret_def]
  show "cfg_vmAccel c = ''kvm''" "cfg_vmEgress c \<noteq> ''internet''" "cfg_runtime c \<noteq> ''process''"
    using nil loadConfig_choices[OF assms(1)] by auto
qed

text \<open>C30. A configuration in public mode is hardened, whatever role loads it: it runs virtual machines on KVM (Firecracker
  only through its jailer), neither mocks of the ceremony nor open Internet access, and a token of the node agent
  that is long enough and not the default; a role that serves the API also has an HTTPS origin, Turnstile keys, a
  strong session secret and no development login.\<close>
lemma loadConfig_public:
  assumes "loadConfig number is_url url_origin to_ascii cwd source role = Inr c" "cfg_publicMode c"
  shows "cfg_runtime c \<in> set [''qemu'', ''firecracker''] \<and> (cfg_runtime c = ''firecracker'' \<longrightarrow> cfg_firecrackerJailed c)
    \<and> cfg_vmAccel c = ''kvm'' \<and> cfg_vmCpu c = ''host'' \<and> cfg_vmEgress c \<in> set [''none'', ''controlled'']
    \<and> \<not> cfg_devMockCeremony c \<and> \<not> cfg_devRealBloom c \<and> 32 \<le> utf8_len (cfg_agentToken c)
    \<and> \<not> includes_sub (cfg_agentToken c) ''change-me''
    \<and> (role \<noteq> Agent \<longrightarrow> starts_with (cfg_origin c) ''https://'' \<and> \<not> cfg_devAuth c \<and> 32 \<le> utf8_len (cfg_sessionSecret c)
         \<and> truthy (cfg_turnstileSiteKey c) \<and> truthy (cfg_turnstileSecret c))"
proof -
  have "public_complaints c role = []" using loadConfig_safe[OF assms(1)] assms(2) by (simp add: assertSafe_Inr)
  note nil = this[unfolded public_Nil weak_secret_def]
  obtain env u where "c = build_config cwd u env" using assms(1) unfolding loadConfig_Inr by blast
  then have cpu: "cfg_vmCpu c = (if cfg_vmAccel c = ''tcg'' then ''max'' else ''host'')" by (simp only: build_config_others)
  have "cfg_runtime c \<in> set [''process'', ''qemu'', ''firecracker'']" "cfg_vmAccel c \<in> set [''kvm'', ''tcg'']"
    "cfg_vmEgress c \<in> set [''none'', ''controlled'', ''internet'']"
    using loadConfig_choices[OF assms(1)] by blast+
  then show ?thesis using nil cpu by (cases role) (simp_all add: not_less)
qed

definition sample_source :: "string \<Rightarrow> string option" where
  "sample_source = map_of [(''BLOOM_ORIGIN'', ''https://bloom.example''), (''BLOOM_PUBLIC_MODE'', ''1''), (''BLOOM_RUNTIME'', ''qemu''),
     (''BLOOM_TURNSTILE_SITE_KEY'', ''k''), (''BLOOM_TURNSTILE_SECRET'', ''s''), (''BLOOM_VM_EGRESS'', ''controlled''),
     (''BLOOM_EGRESS_ALLOWED_HOSTS'', ''a.example''),
     (''BLOOM_SESSION_SECRET'', ''0123456789abcdef0123456789abcdef''), (''BLOOM_AGENT_TOKEN'', ''abcdef0123456789abcdef0123456789'')]"

lemma sample_source_loads:
  "case loadConfig (\<lambda>_. None) (\<lambda>_. True) Some id ''/srv'' sample_source Control of
     Inl _ \<Rightarrow> False | Inr c \<Rightarrow> cfg_publicMode c \<and> cfg_vmEgress c = ''controlled'' \<and> cfg_origin c = ''https://bloom.example''"
  by code_simp

lemma sample_config_ex:
  "\<exists>c. loadConfig (\<lambda>_. None) (\<lambda>_. True) Some id ''/srv'' sample_source Control = Inr c
     \<and> cfg_publicMode c \<and> cfg_vmEgress c = ''controlled''"
  using sample_source_loads by (auto split: sum.splits)


lemma loadConfig_public_witness:
  "\<exists>c. loadConfig (\<lambda>_. None) (\<lambda>_. True) Some id ''/srv'' sample_source Control = Inr c \<and> cfg_vmAccel c = ''kvm'' \<and> \<not> cfg_devMockCeremony c"
  using sample_config_ex loadConfig_public by blast

end
