(* ===== verification/EgressSession.thy ===== *)
theory EgressSession
  imports Config EgressProxy
begin

text \<open>
  \<open>src/agent/egress-session.ts\<close>: the egress proxy that a runtime starts for a workspace. What \<open>listen\<close> and
  \<open>address\<close> of the server answer is a parameter.
\<close>

datatype egress_failure = PolicyFailed policy_failure | ProxyFailed proxy_config_failure | ListenFailed | NotTcp

record workspace_egress =
  we_kernelArgument :: string
  we_qemuGuestForward :: "string option"
  we_limits :: proxy_limits
  we_policy :: egress_policy

definition workspaceProxy :: "(string \<Rightarrow> string) \<Rightarrow> config \<Rightarrow> (egress_failure, egress_policy \<times> proxy_limits) res" where
  "workspaceProxy to_ascii c =
     (case new_EgressPolicy to_ascii \<lparr>eo_allowedHosts = Some (cfg_egressAllowedHosts c), eo_allowedHttpPorts = None,
             eo_allowedConnectPorts = None, eo_dnsTimeoutMs = None\<rparr> of
        Inl e \<Rightarrow> Inl (PolicyFailed e)
      | Inr policy \<Rightarrow>
          (case createEgressProxy \<lparr>po_allowedMethods = None, po_maxConcurrentConnections = Some (cfg_egressMaxConnections c),
                  po_maxBytesPerConnection = Some (cfg_egressMaxBytesPerConnection c), po_connectTimeoutMs = None,
                  po_idleTimeoutMs = None, po_maxConnectionMs = Some (cfg_egressMaxConnectionMs c),
                  po_maxClientHelloBytes = None, po_clientHelloTimeoutMs = None\<rparr> of
             Inl e \<Rightarrow> Inl (ProxyFailed e)
           | Inr limits \<Rightarrow> Inr (policy, limits)))"

text \<open>The address a listening server has: none, a path, or a TCP port.\<close>

datatype listening = ListenError | NoAddress | SocketPath | TcpPort nat

definition startQemuWorkspaceEgress ::
  "(string \<Rightarrow> string) \<Rightarrow> config \<Rightarrow> listening \<Rightarrow> (egress_failure, workspace_egress option) res" where
  "startQemuWorkspaceEgress to_ascii c listening =
     (if cfg_vmEgress c \<noteq> ''controlled'' then Inr None
      else rbind (workspaceProxy to_ascii c) (\<lambda>(policy, limits).
        case listening of
          ListenError \<Rightarrow> Inl ListenFailed
        | TcpPort p \<Rightarrow>
            Inr (Some \<lparr>we_kernelArgument = ''bloom_egress=qemu'',
              we_qemuGuestForward = Some (''guestfwd=tcp:10.0.2.100:3128-tcp:127.0.0.1:'' @ nat_to_dec p),
              we_limits = limits, we_policy = policy\<rparr>)
        | _ \<Rightarrow> Inl NotTcp))"

text \<open>Firecracker's socket is a path; its server listens or fails.\<close>

definition startFirecrackerWorkspaceEgress ::
  "(string \<Rightarrow> string) \<Rightarrow> config \<Rightarrow> listening \<Rightarrow> (egress_failure, workspace_egress option) res" where
  "startFirecrackerWorkspaceEgress to_ascii c listening =
     (if cfg_vmEgress c \<noteq> ''controlled'' then Inr None
      else rbind (workspaceProxy to_ascii c) (\<lambda>(policy, limits).
        if listening = ListenError then Inl ListenFailed
        else Inr (Some \<lparr>we_kernelArgument = ''bloom_egress=vsock'', we_qemuGuestForward = None, we_limits = limits, we_policy = policy\<rparr>)))"

text \<open>\<open>idempotentClose\<close>: the flag, and how often the proxy was closed.\<close>

definition idempotentClose :: "bool \<times> nat \<Rightarrow> bool \<times> nat" where
  "idempotentClose s = (case s of (closed, n) \<Rightarrow> if closed then (closed, n) else (True, Suc n))"

lemma idempotentClose_once: "(idempotentClose ^^ Suc n) (False, 0) = (True, 1)"
  by (induction n) (simp_all add: idempotentClose_def)

lemma default_methods:
  "normalizeMethod ''GET'' = Inr ''GET''" "normalizeMethod ''HEAD'' = Inr ''HEAD''" "normalizeMethod ''POST'' = Inr ''POST''"
  by code_simp+

lemma workspaceProxy_starts:
  assumes "loadConfig number is_url url_origin to_ascii cwd source role = Inr c"
  shows "\<exists>policy limits. workspaceProxy to_ascii c = Inr (policy, limits)
    \<and> pl_maxConcurrent limits = cfg_egressMaxConnections c \<and> pl_maxConcurrent limits \<le> 256
    \<and> pl_maxBytes limits = cfg_egressMaxBytesPerConnection c \<and> pl_maxBytes limits \<le> 1024 * 1024 * 1024
    \<and> pl_maxConnectionMs limits = cfg_egressMaxConnectionMs c
    \<and> rmap (parseHostPattern to_ascii) (cfg_egressAllowedHosts c) = Inr (ep_hostPatterns policy)
    \<and> ep_httpPorts policy = {80} \<and> ep_connectPorts policy = {443}"
proof -
  note b = loadConfig_egress[OF assms]
  obtain policy where p: "new_EgressPolicy to_ascii \<lparr>eo_allowedHosts = Some (cfg_egressAllowedHosts c), eo_allowedHttpPorts = None,
            eo_allowedConnectPorts = None, eo_dnsTimeoutMs = None\<rparr> = Inr policy" using b by blast
  have safe: "is_safe_integer (cfg_egressMaxConnections c)" "is_safe_integer (cfg_egressMaxBytesPerConnection c)"
    "is_safe_integer (cfg_egressMaxConnectionMs c)"
    using b by (simp_all add: is_safe_integer_def max_safe_integer_def)
  have pos: "positiveInteger n name = Inr n" if "1 \<le> n" "is_safe_integer n" for n name
    using that by (simp add: positiveInteger_def)
  have defaults: "positiveInteger 10000 x = Inr 10000" "positiveInteger 30000 x = Inr 30000" "positiveInteger 65536 x = Inr 65536"
    "positiveInteger 5000 x = Inr 5000" for x
    by (simp_all add: positiveInteger_def is_safe_integer_def max_safe_integer_def)
  obtain limits where l: "createEgressProxy \<lparr>po_allowedMethods = None, po_maxConcurrentConnections = Some (cfg_egressMaxConnections c),
                  po_maxBytesPerConnection = Some (cfg_egressMaxBytesPerConnection c), po_connectTimeoutMs = None,
                  po_idleTimeoutMs = None, po_maxConnectionMs = Some (cfg_egressMaxConnectionMs c),
                  po_maxClientHelloBytes = None, po_clientHelloTimeoutMs = None\<rparr> = Inr limits
      \<and> pl_maxConcurrent limits = cfg_egressMaxConnections c \<and> pl_maxBytes limits = cfg_egressMaxBytesPerConnection c
      \<and> pl_maxConnectionMs limits = cfg_egressMaxConnectionMs c"
    using b safe by (simp add: createEgressProxy_def option_or_def pos defaults default_methods)
  have hosts: "rmap (parseHostPattern to_ascii) (cfg_egressAllowedHosts c) = Inr (ep_hostPatterns policy)
      \<and> ep_httpPorts policy = {80} \<and> ep_connectPorts policy = {443}"
    using new_EgressPolicy_Inr(1-3)[OF p] by (simp add: option_or_def)
  have "workspaceProxy to_ascii c = Inr (policy, limits)" by (simp add: workspaceProxy_def p l)
  then show ?thesis using l hosts b by auto
qed

text \<open>A bad egress policy is refused when the configuration is loaded and never later. From every configuration that
  loads, whether or not it enables egress, the egress proxy of a workspace can be made, with the limits the
  environment gave, and its policy approves only hosts of the configured list, on ports 80 and 443.\<close>
lemma workspace_egress_starts:
  assumes "loadConfig number is_url url_origin to_ascii cwd source role = Inr c"
  shows "\<exists>policy limits. workspaceProxy to_ascii c = Inr (policy, limits)
    \<and> pl_maxConcurrent limits = cfg_egressMaxConnections c \<and> pl_maxConcurrent limits \<le> 256
    \<and> pl_maxBytes limits = cfg_egressMaxBytesPerConnection c \<and> pl_maxBytes limits \<le> 1024 * 1024 * 1024
    \<and> pl_maxConnectionMs limits = cfg_egressMaxConnectionMs c
    \<and> rmap (parseHostPattern to_ascii) (cfg_egressAllowedHosts c) = Inr (ep_hostPatterns policy)
    \<and> ep_httpPorts policy = {80} \<and> ep_connectPorts policy = {443}"
  by (rule workspaceProxy_starts[OF assms])

lemma workspace_egress_starts_witness:
  "\<exists>c policy limits. loadConfig (\<lambda>_. None) (\<lambda>_. True) Some id ''/srv'' sample_source Control = Inr c
     \<and> workspaceProxy id c = Inr (policy, limits) \<and> ep_connectPorts policy = {443}"
  using sample_config_ex workspace_egress_starts by blast

end
