(* ===== verification/Machines.thy ===== *)
theory Machines
  imports EgressSession Workspaces GuestProtocol
begin

text \<open>
  What the runtimes hand to the hypervisors and the kernel: \<open>src/agent/data-volume.ts\<close> (the volume images),
  \<open>src/agent/guest-ready.ts\<close>, the command line of \<open>src/agent/qemu-runtime.ts\<close>, and the configuration, the paths
  and the allocation of user ids of \<open>src/agent/firecracker-runtime.ts\<close>. The life of the instances is in theory
  \<open>Runtimes\<close>.

  Parameters: what \<open>mkfs.ext4\<close> makes of an empty image (\<open>None\<close> when it fails), the free space of the host, and
  the answers of the guest while its control service starts.
\<close>

section \<open>Specifications of a workspace\<close>

record runtime_storage =
  rt_mode :: storage_mode
  rt_volumeId :: "string option"
  rt_quotaBytes :: int

record runtime_spec =
  rs_id :: string
  rs_leaseExpiresAt :: int
  rs_storage :: runtime_storage
  rs_identity :: "string option"

text \<open>\<open>RuntimeDataError\<close> with its status, or a plain \<open>Error\<close>.\<close>

datatype runtime_error = RuntimeDataError nat | PlainError

section \<open>Volume images\<close>

definition volumeDirectory :: "string \<Rightarrow> string \<Rightarrow> (runtime_error, string) res" where
  "volumeDirectory dataDir volumeId =
     (if \<not> is_uuid4 volumeId then Inl (RuntimeDataError 400) else Inr (join [dataDir, ''volumes'', volumeId]))"

text \<open>What a path of the host names: a regular file with its size and whether the ext4 magic stands at 1080.\<close>

datatype disk_image = Image int bool | ImageLink | ImageOther

definition validatePublishedImage :: "disk_image option \<Rightarrow> int \<Rightarrow> (runtime_error, unit) res option" where
  "validatePublishedImage node quotaBytes =
     (case node of
        None \<Rightarrow> None
      | Some ImageLink \<Rightarrow> Some (Inl (RuntimeDataError 409))
      | Some ImageOther \<Rightarrow> Some (Inl (RuntimeDataError 409))
      | Some (Image bytes magic) \<Rightarrow>
          Some (if bytes \<noteq> quotaBytes \<or> \<not> magic then Inl (RuntimeDataError 409) else Inr ()))"

text \<open>
  Formatting and publishing an image at a path that named nothing. While \<open>mkfs\<close> runs another creator may publish
  one, \<open>rival\<close>; \<open>link\<close> then fails with \<open>EEXIST\<close>, which is ignored. The temporary image is removed in the
  end, so it never shows in the result.
\<close>

definition create_image ::
  "(int \<Rightarrow> bool option) \<Rightarrow> string \<Rightarrow> int \<Rightarrow> disk_image option \<Rightarrow> (string \<Rightarrow> disk_image option) \<Rightarrow> (runtime_error, string) res \<times> (string \<Rightarrow> disk_image option)" where
  "create_image mkfs target quotaBytes rival fs =
     (let fs1 = (case rival of None \<Rightarrow> fs | Some r \<Rightarrow> fs(target \<mapsto> r))
      in case mkfs quotaBytes of
           None \<Rightarrow> (Inl PlainError, fs1)
         | Some magic \<Rightarrow>
             let fs2 = (if fs1 target = None then fs1(target \<mapsto> Image quotaBytes magic) else fs1)
             in case validatePublishedImage (fs2 target) quotaBytes of
                  Some (Inr _) \<Rightarrow> (Inr target, fs2)
                | Some (Inl e) \<Rightarrow> (Inl e, fs2)
                | None \<Rightarrow> (Inl PlainError, fs2))"

text \<open>\<open>ensureExt4Volume\<close> on the images of the host by path; \<open>None\<close> of the validation is \<open>ENOENT\<close>.\<close>

definition ensureExt4Volume ::
  "(int \<Rightarrow> bool option) \<Rightarrow> int \<Rightarrow> string \<Rightarrow> string \<Rightarrow> int \<Rightarrow> disk_image option \<Rightarrow> (string \<Rightarrow> disk_image option)
     \<Rightarrow> (runtime_error, string) res \<times> (string \<Rightarrow> disk_image option)" where
  "ensureExt4Volume mkfs freeSpace dataDir volumeId quotaBytes rival fs =
     (if \<not> is_safe_integer quotaBytes \<or> quotaBytes < 16 * 1024 * 1024 \<or> 5 * 1024 * 1024 * 1024 < quotaBytes
      then (Inl (RuntimeDataError 400), fs)
      else if freeSpace < quotaBytes then (Inl (RuntimeDataError 507), fs)
      else case volumeDirectory dataDir volumeId of
        Inl e \<Rightarrow> (Inl e, fs)
      | Inr directory \<Rightarrow>
          let target = join [directory, ''workspace.ext4'']
          in case validatePublishedImage (fs target) quotaBytes of
               Some (Inr _) \<Rightarrow> (Inr target, fs)
             | Some (Inl e) \<Rightarrow> (Inl e, fs)
             | None \<Rightarrow> create_image mkfs target quotaBytes rival fs)"

section \<open>Waiting for the guest\<close>

text \<open>A reply to \<open>hello\<close>: its protocol version and its operations, when the value has them.\<close>

definition required_operations :: "string list" where
  "required_operations = [''fs.list'', ''fs.read'', ''fs.write'', ''fs.delete'', ''job.start'', ''job.status'', ''job.cancel'',
     ''bloom.status'', ''connections.configure'']"

definition isHello :: "(int \<times> string list) option \<Rightarrow> bool" where
  "isHello v = (case v of None \<Rightarrow> False | Some (version, operations) \<Rightarrow>
     version = 1 \<and> list_all (\<lambda>o'. o' \<in> set operations) required_operations)"

text \<open>
  \<open>waitForGuestControl\<close>: attempt \<open>k\<close> takes \<open>fst (attempts k)\<close> milliseconds and ends with \<open>snd (attempts k)\<close>,
  \<open>None\<close> for a call that throws. The result is the number of the attempt that succeeded, \<open>None\<close> when the
  deadline passes.
\<close>

function ready_loop :: "(nat \<Rightarrow> nat \<times> (int \<times> string list) option) \<Rightarrow> nat \<Rightarrow> nat \<Rightarrow> nat \<Rightarrow> nat option" where
  "ready_loop attempts deadline now k =
     (if \<not> now < deadline then None
      else if isHello (snd (attempts k)) then Some k
      else ready_loop attempts deadline (now + fst (attempts k) + 100) (Suc k))"
  by pat_completeness auto
termination by (relation "measure (\<lambda>(attempts, deadline, now, k). deadline - now)") auto

declare ready_loop.simps [simp del]

definition waitForGuestControl :: "(nat \<Rightarrow> nat \<times> (int \<times> string list) option) \<Rightarrow> nat \<Rightarrow> nat \<Rightarrow> nat option" where
  "waitForGuestControl attempts now timeoutMs = ready_loop attempts (now + timeoutMs) now 0"

section \<open>The command line of QEMU\<close>

definition js_int :: "int \<Rightarrow> string" where
  "js_int n = (if n < 0 then CHR ''-'' # nat_to_dec (nat (- n)) else nat_to_dec (nat n))"

text \<open>The words a runtime adds to the kernel command line for what the workspace has.\<close>

definition boot_tail :: "config \<Rightarrow> runtime_spec \<Rightarrow> bool \<Rightarrow> workspace_egress option \<Rightarrow> string" where
  "boot_tail c spec disk egress =
     (if disk then '' bloom_workspace=/dev/vdb'' else [])
     @ (case egress of None \<Rightarrow> [] | Some e \<Rightarrow> '' '' @ we_kernelArgument e)
     @ (case rs_identity spec of None \<Rightarrow> [] | Some w \<Rightarrow> '' bloom_identity='' @ w)
     @ (if cfg_preinstalledPetals c = [] then [] else '' bloom_petals='' @ join_with (CHR '','') (cfg_preinstalledPetals c))"

definition qemu_append :: "config \<Rightarrow> runtime_spec \<Rightarrow> bool \<Rightarrow> workspace_egress option \<Rightarrow> string" where
  "qemu_append c spec disk egress =
     ''console=ttyS0 reboot=k panic=1 root=/dev/vda rw init=/usr/local/sbin/bloom-init bloom_transport=qemu bloom_deadline=''
     @ js_int (rs_leaseExpiresAt spec div 1000) @ boot_tail c spec disk egress"

definition qemu_netdev :: "config \<Rightarrow> workspace_egress option \<Rightarrow> nat option \<Rightarrow> string" where
  "qemu_netdev c egress sshPort =
     (let hostfwd = (case sshPort of None \<Rightarrow> [] | Some p \<Rightarrow> '',hostfwd=tcp:127.0.0.1:'' @ nat_to_dec p @ ''-:22'')
      in if cfg_vmEgress c = ''internet'' then ''user,id=net0'' @ hostfwd
         else ''user,id=net0,restrict=on''
           @ (case egress of None \<Rightarrow> [] | Some e \<Rightarrow>
                (case we_qemuGuestForward e of None \<Rightarrow> [] | Some f \<Rightarrow> if f = [] then [] else '','' @ f))
           @ hostfwd)"

definition qemu_devices :: "string \<Rightarrow> string \<Rightarrow> string list" where
  "qemu_devices controlSocket netdev =
     [''-chardev'', ''socket,id=bloom-control,path='' @ controlSocket @ '',server=on,wait=off'',
      ''-device'', ''virtio-serial-pci'',
      ''-device'', ''virtserialport,chardev=bloom-control,name=org.bloom.control'',
      ''-device'', ''virtio-rng-pci'',
      ''-netdev'', netdev,
      ''-device'', ''virtio-net-pci,netdev=net0'',
      ''-display'', ''none'', ''-nodefaults'', ''-monitor'', ''none'', ''-serial'', ''stdio'', ''-no-reboot'']"

text \<open>\<open>command\<close>, once the disk, the egress proxy and the SSH port are there.\<close>

definition qemu_command :: "config \<Rightarrow> runtime_spec \<Rightarrow> string \<Rightarrow> string option \<Rightarrow> workspace_egress option \<Rightarrow> nat option \<Rightarrow> string \<times> string list \<times> string" where
  "qemu_command c spec workspaceDir workspaceDisk egress sshPort =
     (let rootfs = join [workspaceDir, ''rootfs.ext4''];
          controlSocket = join [join [cfg_runtimeSocketDir c, rs_id spec], ''control.sock'']
      in (cfg_qemuBin c,
          [''-machine'', ''q35'',
           ''-accel'', if cfg_vmAccel c = ''tcg'' then ''tcg,thread=multi'' else ''kvm'',
           ''-sandbox'', ''on,obsolete=deny,elevateprivileges=deny,spawn=deny,resourcecontrol=deny'',
           ''-cpu'', cfg_vmCpu c,
           ''-smp'', js_int (cfg_vmVcpus c),
           ''-m'', js_int (cfg_vmMemoryMib c),
           ''-kernel'', cfg_vmKernel c,
           ''-append'', qemu_append c spec (workspaceDisk \<noteq> None) egress,
           ''-drive'', ''file='' @ rootfs @ '',if=virtio,format=raw,cache=none,aio=native'']
          @ (case workspaceDisk of None \<Rightarrow> [] | Some d \<Rightarrow> [''-drive'', ''file='' @ d @ '',if=virtio,format=raw,cache=none,aio=native''])
          @ qemu_devices controlSocket (qemu_netdev c egress sshPort),
          workspaceDir))"

section \<open>The configuration of Firecracker\<close>

record drive =
  dv_drive_id :: string
  dv_path_on_host :: string
  dv_is_root_device :: bool
  dv_is_read_only :: bool

record vm_config =
  vm_kernel_image_path :: string
  vm_boot_args :: string
  vm_drives :: "drive list"
  vm_guest_cid :: nat
  vm_uds_path :: string
  vm_vcpu_count :: int
  vm_mem_size_mib :: int
  vm_smt :: bool

definition vmConfig :: "config \<Rightarrow> runtime_spec \<Rightarrow> string \<Rightarrow> string \<Rightarrow> string \<Rightarrow> string option \<Rightarrow> workspace_egress option \<Rightarrow> vm_config" where
  "vmConfig c spec kernelPath rootfs vsockPath workspaceDisk egress =
     \<lparr>vm_kernel_image_path = kernelPath,
      vm_boot_args = ''console=ttyS0 reboot=k panic=1 pci=off root=/dev/vda rw init=/usr/local/sbin/bloom-init bloom_transport=vsock bloom_deadline=''
        @ js_int (rs_leaseExpiresAt spec div 1000) @ boot_tail c spec (workspaceDisk \<noteq> None) egress,
      vm_drives = \<lparr>dv_drive_id = ''rootfs'', dv_path_on_host = rootfs, dv_is_root_device = True, dv_is_read_only = False\<rparr>
        # (case workspaceDisk of None \<Rightarrow> [] | Some d \<Rightarrow>
             [\<lparr>dv_drive_id = ''workspace'', dv_path_on_host = d, dv_is_root_device = False, dv_is_read_only = False\<rparr>]),
      vm_guest_cid = 3, vm_uds_path = vsockPath, vm_vcpu_count = cfg_vmVcpus c, vm_mem_size_mib = cfg_vmMemoryMib c, vm_smt = False\<rparr>"

definition vsockPath :: "config \<Rightarrow> string \<Rightarrow> string" where
  "vsockPath c wid =
     (if \<not> cfg_firecrackerJailed c then join [cfg_runtimeSocketDir c, wid, ''v.sock'']
      else join [cfg_jailerChrootBase c, ''firecracker'', wid, ''root'', ''run'', ''vsock.sock''])"

text \<open>\<open>prepareDirect\<close> and \<open>prepareJailed\<close>: program, arguments, working directory, and the configuration written.\<close>

definition prepareDirect :: "config \<Rightarrow> runtime_spec \<Rightarrow> string option \<Rightarrow> workspace_egress option \<Rightarrow> (string \<times> string list \<times> string) \<times> vm_config" where
  "prepareDirect c spec workspaceDisk egress =
     (let workspaceDir = join [cfg_dataDir c, rs_id spec]; socketDir = join [cfg_runtimeSocketDir c, rs_id spec];
          configPath = join [workspaceDir, ''firecracker.json'']
      in ((cfg_firecrackerBin c, [''--api-sock'', join [socketDir, ''api.sock''], ''--config-file'', configPath], workspaceDir),
          vmConfig c spec (cfg_vmKernel c) (join [workspaceDir, ''rootfs.ext4'']) (vsockPath c (rs_id spec)) workspaceDisk egress))"

definition prepareJailed :: "config \<Rightarrow> runtime_spec \<Rightarrow> nat \<Rightarrow> workspace_egress option \<Rightarrow> (string \<times> string list \<times> string) \<times> vm_config" where
  "prepareJailed c spec uid egress =
     ((cfg_firecrackerJailerBin c,
       [''--id'', rs_id spec, ''--exec-file'', cfg_firecrackerBin c, ''--uid'', nat_to_dec uid, ''--gid'', nat_to_dec uid,
        ''--chroot-base-dir'', cfg_jailerChrootBase c, ''--new-pid-ns'', ''--'', ''--api-sock'', ''/run/firecracker.sock'',
        ''--config-file'', ''/firecracker.json''],
       join [cfg_dataDir c, rs_id spec]),
      vmConfig c spec ''/vmlinux'' ''/rootfs.ext4'' ''/run/vsock.sock'' None egress)"

text \<open>
  The user id of a jail: the first free one from a start taken from the id. The loop has no bound of its own; its
  result is \<open>None\<close> when it never ends.
\<close>

definition first_uid :: "string \<Rightarrow> nat" where
  "first_uid wid = 30000 + hex_to_nat (take 8 wid) mod 20000"

definition next_uid :: "nat \<Rightarrow> nat" where
  "next_uid uid = 30000 + (uid - 29999) mod 20000"

partial_function (option) uid_loop :: "nat set \<Rightarrow> nat \<Rightarrow> nat option" where
  "uid_loop allocated uid = (if uid \<in> allocated then uid_loop allocated (next_uid uid) else Some uid)"

definition allocate_uid :: "nat set \<Rightarrow> string \<Rightarrow> (nat \<times> nat set) option" where
  "allocate_uid allocated wid =
     (case uid_loop allocated (first_uid wid) of None \<Rightarrow> None | Some uid \<Rightarrow> Some (uid, insert uid allocated))"

text \<open>\<open>validateStorage\<close> of the two hypervisor runtimes.\<close>

definition validateStorage_qemu :: "config \<Rightarrow> runtime_spec \<Rightarrow> (runtime_error, unit) res" where
  "validateStorage_qemu c spec =
     (let st = rs_storage spec
      in if rt_mode st = Persistent
         then rbind (volumeDirectory (cfg_dataDir c) (case rt_volumeId st of None \<Rightarrow> [] | Some v \<Rightarrow> v)) (\<lambda>_. Inr ())
         else if rt_volumeId st \<noteq> None then Inl (RuntimeDataError 400) else Inr ())"

definition validateStorage_firecracker :: "config \<Rightarrow> runtime_spec \<Rightarrow> (runtime_error, unit) res" where
  "validateStorage_firecracker c spec =
     (let st = rs_storage spec
      in if rt_mode st = Persistent
         then rbind (volumeDirectory (cfg_dataDir c) (case rt_volumeId st of None \<Rightarrow> [] | Some v \<Rightarrow> v)) (\<lambda>_.
              if cfg_firecrackerJailed c then Inl (RuntimeDataError 501) else Inr ())
         else if rt_volumeId st \<noteq> None then Inl (RuntimeDataError 400) else Inr ())"

section \<open>Waiting ends\<close>

definition elapsed :: "(nat \<Rightarrow> nat \<times> (int \<times> string list) option) \<Rightarrow> nat \<Rightarrow> nat" where
  "elapsed attempts k = (\<Sum>j < k. fst (attempts j) + 100)"

lemma ready_loop_iff:
  "ready_loop attempts deadline now k = Some m \<longleftrightarrow>
     k \<le> m \<and> now + (\<Sum>j = k..<m. fst (attempts j) + 100) < deadline \<and> isHello (snd (attempts m))
     \<and> (\<forall>j \<in> {k..<m}. \<not> isHello (snd (attempts j)))"
proof (induction attempts deadline now k rule: ready_loop.induct)
  case (1 attempts deadline now k)
  show ?case
  proof (cases "\<not> now < deadline \<or> isHello (snd (attempts k))")
    case True
    show ?thesis
    proof (cases "now < deadline")
      case False
      then show ?thesis by (subst ready_loop.simps) simp
    next
      case later: True
      then have hello: "isHello (snd (attempts k))" using True by simp
      have "m = k" if "k \<le> m" "\<forall>j \<in> {k..<m}. \<not> isHello (snd (attempts j))"
        using that hello by (metis atLeastLessThan_iff le_neq_implies_less order_refl)
      then show ?thesis using later hello by (subst ready_loop.simps) auto
    qed
  next
    case False
    then have step: "ready_loop attempts deadline now k = ready_loop attempts deadline (now + fst (attempts k) + 100) (Suc k)"
      and no: "\<not> isHello (snd (attempts k))"
      by (subst ready_loop.simps, simp_all)
    have IH: "ready_loop attempts deadline (now + fst (attempts k) + 100) (Suc k) = Some m \<longleftrightarrow>
        Suc k \<le> m \<and> now + fst (attempts k) + 100 + (\<Sum>j = Suc k..<m. fst (attempts j) + 100) < deadline
        \<and> isHello (snd (attempts m)) \<and> (\<forall>j \<in> {Suc k..<m}. \<not> isHello (snd (attempts j)))"
      using 1 False by simp
    show ?thesis
    proof (cases "k < m")
      case True
      then have "{k..<m} = insert k {Suc k..<m}" by auto
      then show ?thesis unfolding step IH using no True by (simp add: add.assoc)
    next
      case False
      then show ?thesis unfolding step IH using no by (metis Suc_le_eq le_neq_implies_less)
    qed
  qed
qed

text \<open>Waiting for a guest ends, and with the right answer. Whatever the guest answers and however long each call
  takes, the loop returns: with the first attempt that got a proper hello reply if that attempt began before the
  deadline, and otherwise with the failure; since attempts are 100 ms apart it makes at most one call per 100 ms of
  its time limit.\<close>
lemma guest_ready_exact:
  "(waitForGuestControl attempts now timeoutMs = Some k \<longleftrightarrow>
      elapsed attempts k < timeoutMs \<and> isHello (snd (attempts k)) \<and> (\<forall>j \<in> {..<k}. \<not> isHello (snd (attempts j))))
   \<and> (waitForGuestControl attempts now timeoutMs = Some k \<longrightarrow> 100 * k < timeoutMs)"
proof -
  have "100 * k \<le> elapsed attempts k" by (induction k) (simp_all add: elapsed_def)
  then show ?thesis
    unfolding waitForGuestControl_def ready_loop_iff elapsed_def by (auto simp: atLeast0LessThan)
qed

lemma guest_ready_exact_witness:
  "waitForGuestControl (\<lambda>k. (50, if k = 2 then Some (1, required_operations) else None)) 7 1000 = Some 2 \<and> 100 * 2 < (1000::nat)"
proof -
  have w: "waitForGuestControl (\<lambda>k. (50, if k = 2 then Some (1, required_operations) else None)) 7 1000 = Some 2" by code_simp
  show ?thesis using w guest_ready_exact[of "\<lambda>k. (50, if k = 2 then Some (1, required_operations) else None)" 7 1000 2] by blast
qed

section \<open>User ids of jails\<close>

lemma next_uid_range: "30000 \<le> next_uid u \<and> next_uid u < 50000"
  by (simp add: next_uid_def)

lemma first_uid_range: "30000 \<le> first_uid w \<and> first_uid w < 50000"
  by (simp add: first_uid_def)

lemma next_uid_iterate: "30000 \<le> u \<Longrightarrow> u < 50000 \<Longrightarrow> (next_uid ^^ n) u = 30000 + (u - 30000 + n) mod 20000"
proof (induction n)
  case (Suc n)
  have "(next_uid ^^ Suc n) u = next_uid (30000 + (u - 30000 + n) mod 20000)" using Suc by simp
  also have "\<dots> = 30000 + (u - 30000 + Suc n) mod 20000"
    unfolding next_uid_def by (simp add: mod_Suc_eq)
  finally show ?case .
qed simp

lemma uid_loop_found: "(\<forall>j < n. (next_uid ^^ j) u \<in> A) \<Longrightarrow> (next_uid ^^ n) u \<notin> A \<Longrightarrow> uid_loop A u = Some ((next_uid ^^ n) u)"
proof (induction n arbitrary: u)
  case 0
  then show ?case by (subst uid_loop.simps) simp
next
  case (Suc n)
  have shift: "(next_uid ^^ j) (next_uid u) = (next_uid ^^ Suc j) u" for j by (simp only: funpow_Suc_right o_apply)
  have "u \<in> A" using Suc.prems(1) by (metis funpow_0 zero_less_Suc)
  then have "uid_loop A u = uid_loop A (next_uid u)" by (subst uid_loop.simps) simp
  also have "\<dots> = Some ((next_uid ^^ n) (next_uid u))"
  proof (rule Suc.IH)
    show "\<forall>j < n. (next_uid ^^ j) (next_uid u) \<in> A" using Suc.prems(1) shift by (metis Suc_mono)
    show "(next_uid ^^ n) (next_uid u) \<notin> A" using Suc.prems(2) shift by metis
  qed
  finally show ?case unfolding shift .
qed

lemma uid_loop_sound:
  assumes "uid_loop A u = Some r"
  shows "r \<notin> A \<and> (r = u \<or> 30000 \<le> r \<and> r < 50000)"
  using assms
proof (rule uid_loop.raw_induct[rotated])
  fix loop :: "nat set \<Rightarrow> nat \<Rightarrow> nat option" and A u r
  assume IH: "\<And>A u r. loop A u = Some r \<Longrightarrow> r \<notin> A \<and> (r = u \<or> 30000 \<le> r \<and> r < 50000)"
    and body: "(if u \<in> A then loop A (next_uid u) else Some u) = Some r"
  show "r \<notin> A \<and> (r = u \<or> 30000 \<le> r \<and> r < 50000)"
    using IH[of A "next_uid u" r] body next_uid_range[of u] by (auto split: if_splits)
qed

text \<open>C39. The search for a user id. For the jail of a Firecracker machine it ends with an id from 30000 to 49999 that no
  other jail has exactly when one of these 20000 ids is free; when all are taken the loop never ends.\<close>
lemma uid_loop_exact:
  "(if {30000..<50000} \<subseteq> allocated then uid_loop allocated (first_uid wid) = None
    else \<exists>uid. uid_loop allocated (first_uid wid) = Some uid \<and> uid \<notin> allocated \<and> 30000 \<le> uid \<and> uid < 50000)"
proof (cases "{30000..<50000} \<subseteq> allocated")
  case True
  have "uid_loop allocated (first_uid wid) \<noteq> Some r" for r
  proof
    assume "uid_loop allocated (first_uid wid) = Some r"
    note uid_loop_sound[OF this]
    then have "r \<notin> allocated" "r \<in> {30000..<50000}" using first_uid_range[of wid] by auto
    then show False using True by blast
  qed
  then show ?thesis using True by (cases "uid_loop allocated (first_uid wid)") auto
next
  case False
  let ?u = "first_uid wid"
  obtain v where v: "30000 \<le> v" "v < 50000" "v \<notin> allocated" using False by (meson atLeastLessThan_iff subsetI)
  have "(?u - 30000 + (20000 + v - ?u)) mod 20000 = v - 30000"
    using v first_uid_range[of wid] by (simp add: mod_if)
  then have "(next_uid ^^ (20000 + v - ?u)) ?u = v"
    using next_uid_iterate[of ?u "20000 + v - ?u"] first_uid_range[of wid] v by simp
  then have "\<exists>n. (next_uid ^^ n) ?u \<notin> allocated" using v(3) by metis
  then obtain n where n: "(next_uid ^^ n) ?u \<notin> allocated" "\<forall>j < n. (next_uid ^^ j) ?u \<in> allocated"
    using exists_least_iff[of "\<lambda>n. (next_uid ^^ n) ?u \<notin> allocated"] by blast
  have "uid_loop allocated ?u = Some ((next_uid ^^ n) ?u)" by (rule uid_loop_found[OF n(2,1)])
  moreover have "30000 \<le> (next_uid ^^ n) ?u \<and> (next_uid ^^ n) ?u < 50000"
    using next_uid_iterate[of ?u n] first_uid_range[of wid] by simp
  ultimately show ?thesis using False n(1) by auto
qed

section \<open>Volume images are never replaced\<close>

lemma create_image_safe:
  assumes "create_image mkfs target quotaBytes rival fs = (r, fs')" "fs target = None"
  shows "(fs' = fs \<or> (\<exists>n. fs' = fs(target \<mapsto> n))) \<and> (\<forall>im. rival = Some im \<longrightarrow> fs' target = Some im)
    \<and> (\<forall>i. r = Inr i \<longrightarrow> i = target \<and> fs' target = Some (Image quotaBytes True))"
  using assms by (auto simp: create_image_def validatePublishedImage_def Let_def split: option.splits disk_image.splits if_splits)

text \<open>Making a volume never replaces one. Whatever image is on the host before, or is published by another creator
  while this one formats its own, is still there afterwards, and nothing but the image of this volume changes; on
  success the returned path names a regular file of exactly the quota that carries the ext4 magic, below the data
  directory in a directory named by a UUID.\<close>
lemma ensureExt4Volume_safe:
  assumes "ensureExt4Volume mkfs freeSpace dataDir volumeId quotaBytes rival fs = (r, fs')"
  shows "(\<forall>p im. fs p = Some im \<longrightarrow> fs' p = Some im)
    \<and> (\<forall>p. fs' p \<noteq> fs p \<longrightarrow> is_uuid4 volumeId \<and> p = join [join [dataDir, ''volumes'', volumeId], ''workspace.ext4'']
           \<and> (\<forall>im. rival = Some im \<longrightarrow> fs' p = Some im))
    \<and> (case r of Inl _ \<Rightarrow> True
       | Inr target \<Rightarrow> target = join [join [dataDir, ''volumes'', volumeId], ''workspace.ext4''] \<and> fs' target = Some (Image quotaBytes True)
           \<and> is_uuid4 volumeId \<and> 16 * 1024 * 1024 \<le> quotaBytes \<and> quotaBytes \<le> 5 * 1024 * 1024 * 1024)"
proof (cases "\<not> is_safe_integer quotaBytes \<or> quotaBytes < 16 * 1024 * 1024 \<or> 5 * 1024 * 1024 * 1024 < quotaBytes \<or> freeSpace < quotaBytes
    \<or> \<not> is_uuid4 volumeId")
  case True
  then have "\<exists>e. r = Inl e \<and> fs' = fs"
    using assms by (auto simp: ensureExt4Volume_def volumeDirectory_def Let_def split: if_splits)
  then show ?thesis by auto
next
  case False
  define target where "target = join [join [dataDir, ''volumes'', volumeId], ''workspace.ext4'']"
  have bounds: "16 * 1024 * 1024 \<le> quotaBytes" "quotaBytes \<le> 5 * 1024 * 1024 * 1024" "is_uuid4 volumeId" using False by auto
  have run: "ensureExt4Volume mkfs freeSpace dataDir volumeId quotaBytes rival fs =
     (case validatePublishedImage (fs target) quotaBytes of
               Some (Inr _) \<Rightarrow> (Inr target, fs)
             | Some (Inl e) \<Rightarrow> (Inl e, fs)
             | None \<Rightarrow> create_image mkfs target quotaBytes rival fs)"
    using False unfolding ensureExt4Volume_def volumeDirectory_def target_def by (simp add: Let_def)
  show ?thesis
  proof (cases "fs target")
    case (Some n)
    then have "fs' = fs \<and> (\<forall>i. r = Inr i \<longrightarrow> i = target \<and> n = Image quotaBytes True)"
      using assms unfolding run by (auto simp: validatePublishedImage_def split: disk_image.splits if_splits)
    then show ?thesis using Some bounds by (auto simp: target_def split: sum.splits)
  next
    case None
    then have "create_image mkfs target quotaBytes rival fs = (r, fs')" using assms unfolding run by (simp add: validatePublishedImage_def)
    note c = create_image_safe[OF this None]
    then show ?thesis using None bounds by (auto simp: target_def split: sum.splits if_splits)
  qed
qed

lemma ensureExt4Volume_safe_witness:
  "\<exists>fs'. ensureExt4Volume (\<lambda>_. Some True) 99999999999 ''/data'' ''2b2a5c3e-1111-4222-8333-444455556666'' 16777216 None Map.empty
      = (Inr ''/data/volumes/2b2a5c3e-1111-4222-8333-444455556666/workspace.ext4'', fs')
    \<and> fs' ''/data/volumes/2b2a5c3e-1111-4222-8333-444455556666/workspace.ext4'' = Some (Image 16777216 True)"
proof -
  let ?r = "ensureExt4Volume (\<lambda>_. Some True) 99999999999 ''/data'' ''2b2a5c3e-1111-4222-8333-444455556666'' 16777216 None (\<lambda>_. None)"
  have f: "fst ?r = Inr ''/data/volumes/2b2a5c3e-1111-4222-8333-444455556666/workspace.ext4''" by code_simp
  obtain fs' where r: "?r = (Inr ''/data/volumes/2b2a5c3e-1111-4222-8333-444455556666/workspace.ext4'', fs')"
    using f by (metis prod.collapse)
  have "fs' ''/data/volumes/2b2a5c3e-1111-4222-8333-444455556666/workspace.ext4'' = Some (Image 16777216 True)"
    using ensureExt4Volume_safe[OF r] unfolding sum.case by blast
  then show ?thesis using r by blast
qed

section \<open>The kernel command line\<close>

lemma join_blank: "ws \<noteq> [] \<Longrightarrow> join_with c ws @ concat (map (\<lambda>w. c # w) vs) = join_with c (ws @ vs)"
proof (induction vs arbitrary: ws)
  case (Cons v vs)
  have "join_with c ws @ concat (map (\<lambda>w. c # w) (v # vs)) = join_with c (ws @ [v]) @ concat (map (\<lambda>w. c # w) vs)"
    using Cons.prems by (simp add: join_with_snoc)
  also have "\<dots> = join_with c ((ws @ [v]) @ vs)" by (rule Cons.IH) simp
  finally show ?case by simp
qed simp

lemma js_int_plain: "c \<in> set (js_int n) \<Longrightarrow> is_digit c \<or> c = CHR ''-''"
  using nat_to_dec_digits by (auto simp: js_int_def split: if_splits)

lemma js_int_no_blank: "CHR '' '' \<notin> set (js_int n)"
proof
  assume "CHR '' '' \<in> set (js_int n)"
  from js_int_plain[OF this] show False by (auto simp: char_class_defs)
qed

lemma address_no_blank: "full evm_address_rx w \<Longrightarrow> CHR '' '' \<notin> set w"
proof
  assume w: "full evm_address_rx w" and b: "CHR '' '' \<in> set w"
  obtain v where v: "w = ''0x'' @ v" "\<forall>c \<in> set v. is_lhex c"
    using w unfolding evm_address_rx_def full_iff in_lang_Seq in_lang_lit in_lang_Rep_Cls by blast
  have "\<not> is_lhex CHR '' ''" "CHR '' '' \<notin> set ''0x''" by code_simp+
  then show False using v b by (metis Un_iff set_append)
qed

lemma petal_no_blank: "full petal_rx p \<Longrightarrow> CHR '' '' \<notin> set p"
proof
  assume p: "full petal_rx p" and b: "CHR '' '' \<in> set p"
  have "\<not> (is_digit CHR '' '' \<or> CHR '' '' \<in> set ''abcdefghijklmnopqrstuvwxyzABCDEFGHIJKLMNOPQRSTUVWXYZ_-'')" by code_simp
  then show False using p b unfolding petal_rx_def full_iff in_lang_plus_Cls by blast
qed

lemma join_no_blank: "\<forall>p \<in> set ps. c \<notin> set p \<Longrightarrow> c \<noteq> d \<Longrightarrow> c \<notin> set (join_with d ps)"
  by (induction d ps rule: join_with.induct) auto

text \<open>The words of \<open>boot_tail\<close>.\<close>

definition boot_tail_words :: "config \<Rightarrow> runtime_spec \<Rightarrow> bool \<Rightarrow> workspace_egress option \<Rightarrow> string list" where
  "boot_tail_words c spec disk egress =
     (if disk then [''bloom_workspace=/dev/vdb''] else [])
     @ (case egress of None \<Rightarrow> [] | Some e \<Rightarrow> [we_kernelArgument e])
     @ (case rs_identity spec of None \<Rightarrow> [] | Some w \<Rightarrow> [''bloom_identity='' @ w])
     @ (if cfg_preinstalledPetals c = [] then [] else [''bloom_petals='' @ join_with (CHR '','') (cfg_preinstalledPetals c)])"

lemma boot_tail_concat: "boot_tail c spec disk egress = concat (map (\<lambda>w. CHR '' '' # w) (boot_tail_words c spec disk egress))"
  by (simp add: boot_tail_def boot_tail_words_def split: option.split)

lemma boot_tail_no_blank:
  assumes "\<forall>p \<in> set (cfg_preinstalledPetals c). full petal_rx p" "\<forall>w. rs_identity spec = Some w \<longrightarrow> full evm_address_rx w"
    and "\<forall>e. egress = Some e \<longrightarrow> we_kernelArgument e \<in> {''bloom_egress=qemu'', ''bloom_egress=vsock''}"
    and "w \<in> set (boot_tail_words c spec disk egress)"
  shows "CHR '' '' \<notin> set w"
proof -
  have lits: "CHR '' '' \<notin> set ''bloom_workspace=/dev/vdb''" "CHR '' '' \<notin> set ''bloom_egress=qemu''" "CHR '' '' \<notin> set ''bloom_egress=vsock''"
    "CHR '' '' \<notin> set ''bloom_identity=''" "CHR '' '' \<notin> set ''bloom_petals=''" "CHR '' '' \<noteq> CHR '',''"
    by code_simp+
  have petals: "CHR '' '' \<notin> set (join_with (CHR '','') (cfg_preinstalledPetals c))"
    using assms(1) petal_no_blank lits(6) by (intro join_no_blank) auto
  have parts: "\<forall>w \<in> set (if disk then [''bloom_workspace=/dev/vdb''] else []). CHR '' '' \<notin> set w"
    "\<forall>w \<in> set (case egress of None \<Rightarrow> [] | Some e \<Rightarrow> [we_kernelArgument e]). CHR '' '' \<notin> set w"
    "\<forall>w \<in> set (case rs_identity spec of None \<Rightarrow> [] | Some w \<Rightarrow> [''bloom_identity='' @ w]). CHR '' '' \<notin> set w"
    "\<forall>w \<in> set (if cfg_preinstalledPetals c = [] then [] else [''bloom_petals='' @ join_with (CHR '','') (cfg_preinstalledPetals c)]).
       CHR '' '' \<notin> set w"
  proof -
    show "\<forall>w \<in> set (if disk then [''bloom_workspace=/dev/vdb''] else []). CHR '' '' \<notin> set w" by simp
    show "\<forall>w \<in> set (case egress of None \<Rightarrow> [] | Some e \<Rightarrow> [we_kernelArgument e]). CHR '' '' \<notin> set w"
      using assms(3) lits(2,3) by (cases egress) auto
    show "\<forall>w \<in> set (case rs_identity spec of None \<Rightarrow> [] | Some w \<Rightarrow> [''bloom_identity='' @ w]). CHR '' '' \<notin> set w"
      using assms(2) address_no_blank by (cases "rs_identity spec") auto
    show "\<forall>w \<in> set (if cfg_preinstalledPetals c = [] then [] else [''bloom_petals='' @ join_with (CHR '','') (cfg_preinstalledPetals c)]).
       CHR '' '' \<notin> set w"
      using petals by simp
  qed
  show ?thesis using assms(4) parts unfolding boot_tail_words_def set_append by blast
qed

lemma boot_words_split:
  assumes "ws \<noteq> []" "\<forall>w \<in> set ws. CHR '' '' \<notin> set w" "\<forall>w \<in> set (boot_tail_words c spec disk egress). CHR '' '' \<notin> set w"
  shows "split_on (CHR '' '') (join_with (CHR '' '') ws @ boot_tail c spec disk egress) = ws @ boot_tail_words c spec disk egress"
  unfolding boot_tail_concat join_blank[OF assms(1)] using assms by (intro split_on_join) auto

definition qemu_words :: "int \<Rightarrow> string list" where
  "qemu_words t = [''console=ttyS0'', ''reboot=k'', ''panic=1'', ''root=/dev/vda'', ''rw'', ''init=/usr/local/sbin/bloom-init'',
     ''bloom_transport=qemu'', ''bloom_deadline='' @ js_int t]"

definition vsock_words :: "int \<Rightarrow> string list" where
  "vsock_words t = [''console=ttyS0'', ''reboot=k'', ''panic=1'', ''pci=off'', ''root=/dev/vda'', ''rw'', ''init=/usr/local/sbin/bloom-init'',
     ''bloom_transport=vsock'', ''bloom_deadline='' @ js_int t]"

lemma fixed_words_no_blank: "w \<in> set (qemu_words t) \<union> set (vsock_words t) \<Longrightarrow> CHR '' '' \<notin> set w"
  using js_int_no_blank[of t] by (auto simp: qemu_words_def vsock_words_def)

lemma qemu_append_words: "qemu_append c spec disk egress = join_with (CHR '' '') (qemu_words (rs_leaseExpiresAt spec div 1000)) @ boot_tail c spec disk egress"
  by (simp add: qemu_append_def qemu_words_def)

lemma vm_boot_args_words:
  "vm_boot_args (vmConfig c spec k r v d egress) = join_with (CHR '' '') (vsock_words (rs_leaseExpiresAt spec div 1000)) @ boot_tail c spec (d \<noteq> None) egress"
  by (simp add: vmConfig_def vsock_words_def)

lemma loadConfig_petals:
  assumes "loadConfig number is_url url_origin to_ascii cwd source role = Inr c"
  shows "\<forall>p \<in> set (cfg_preinstalledPetals c). full petal_rx p"
proof -
  obtain env u where env: "parse_env number is_url Env source = Some env" and c: "c = build_config cwd u env"
    using assms unfolding loadConfig_Inr by blast
  show ?thesis using typed_petals[OF parse_env_typed[OF env Env_lookup(19)]] unfolding c build_config_others by blast
qed

lemma tail_words_bloom: "w \<in> set (boot_tail_words c spec disk egress) \<Longrightarrow>
    \<forall>e. egress = Some e \<longrightarrow> we_kernelArgument e \<in> {''bloom_egress=qemu'', ''bloom_egress=vsock''} \<Longrightarrow> starts_with w ''bloom_''"
  by (auto simp: boot_tail_words_def starts_with_def split: if_splits option.splits)

lemma starts_kernelArgument:
  "startQemuWorkspaceEgress to_ascii c l = Inr egress \<or> startFirecrackerWorkspaceEgress to_ascii c l = Inr egress \<Longrightarrow>
     \<forall>e. egress = Some e \<longrightarrow> we_kernelArgument e \<in> {''bloom_egress=qemu'', ''bloom_egress=vsock''}"
proof -
  have q: "startQemuWorkspaceEgress to_ascii c l = Inr egress \<Longrightarrow> egress = Some e \<Longrightarrow> we_kernelArgument e = ''bloom_egress=qemu''" for e
    by (cases "workspaceProxy to_ascii c") (auto simp: startQemuWorkspaceEgress_def split: if_splits prod.splits listening.splits)
  have f: "startFirecrackerWorkspaceEgress to_ascii c l = Inr egress \<Longrightarrow> egress = Some e \<Longrightarrow> we_kernelArgument e = ''bloom_egress=vsock''" for e
    by (cases "workspaceProxy to_ascii c") (auto simp: startFirecrackerWorkspaceEgress_def split: if_splits prod.splits)
  show "startQemuWorkspaceEgress to_ascii c l = Inr egress \<or> startFirecrackerWorkspaceEgress to_ascii c l = Inr egress \<Longrightarrow> ?thesis"
    using q f by blast
qed

lemma fixed_not_bloom:
  "filter (\<lambda>w. \<not> starts_with w ''bloom_'') (qemu_words t) =
     [''console=ttyS0'', ''reboot=k'', ''panic=1'', ''root=/dev/vda'', ''rw'', ''init=/usr/local/sbin/bloom-init'']"
  "filter (\<lambda>w. \<not> starts_with w ''bloom_'') (vsock_words t) =
     [''console=ttyS0'', ''reboot=k'', ''panic=1'', ''pci=off'', ''root=/dev/vda'', ''rw'', ''init=/usr/local/sbin/bloom-init'']"
  by (simp_all add: qemu_words_def vsock_words_def starts_with_def)

lemma words_not_Nil: "qemu_words t \<noteq> []" "vsock_words t \<noteq> []"
  by (simp_all add: qemu_words_def vsock_words_def)

text \<open>Nothing a user or the environment supplies becomes a kernel parameter of its own. Under every loaded
  configuration, for a workspace whose identity is a wallet address, the command line of the kernel splits at its
  blanks into the fixed words of the runtime, followed only by words that begin with \<open>bloom_\<close>: neither the wallet
  nor the list of petals can add \<open>init=\<close> or another word.\<close>
lemma boot_command_line:
  assumes "loadConfig number is_url url_origin to_ascii cwd source role = Inr c"
    and "\<forall>w. rs_identity spec = Some w \<longrightarrow> full evm_address_rx w"
    and "startQemuWorkspaceEgress to_ascii c l = Inr qe" "startFirecrackerWorkspaceEgress to_ascii c l' = Inr fe"
  shows "split_on (CHR '' '') (qemu_append c spec disk qe)
       = qemu_words (rs_leaseExpiresAt spec div 1000) @ boot_tail_words c spec disk qe
    \<and> split_on (CHR '' '') (vm_boot_args (vmConfig c spec kern rootfs vsock d fe))
       = vsock_words (rs_leaseExpiresAt spec div 1000) @ boot_tail_words c spec (d \<noteq> None) fe
    \<and> filter (\<lambda>w. \<not> starts_with w ''bloom_'') (split_on (CHR '' '') (qemu_append c spec disk qe))
       = [''console=ttyS0'', ''reboot=k'', ''panic=1'', ''root=/dev/vda'', ''rw'', ''init=/usr/local/sbin/bloom-init'']
    \<and> filter (\<lambda>w. \<not> starts_with w ''bloom_'') (split_on (CHR '' '') (vm_boot_args (vmConfig c spec kern rootfs vsock d fe)))
       = [''console=ttyS0'', ''reboot=k'', ''panic=1'', ''pci=off'', ''root=/dev/vda'', ''rw'', ''init=/usr/local/sbin/bloom-init'']"
proof -
  let ?t = "rs_leaseExpiresAt spec div 1000"
  have petals: "\<forall>p \<in> set (cfg_preinstalledPetals c). full petal_rx p" by (rule loadConfig_petals[OF assms(1)])
  have ke: "\<forall>e. qe = Some e \<longrightarrow> we_kernelArgument e \<in> {''bloom_egress=qemu'', ''bloom_egress=vsock''}"
    "\<forall>e. fe = Some e \<longrightarrow> we_kernelArgument e \<in> {''bloom_egress=qemu'', ''bloom_egress=vsock''}"
    using starts_kernelArgument assms(3,4) by blast+
  have q: "split_on (CHR '' '') (qemu_append c spec disk qe) = qemu_words ?t @ boot_tail_words c spec disk qe"
    unfolding qemu_append_words using boot_tail_no_blank[OF petals assms(2) ke(1)] fixed_words_no_blank[of _ ?t]
    by (intro boot_words_split words_not_Nil) blast+
  have v: "split_on (CHR '' '') (vm_boot_args (vmConfig c spec kern rootfs vsock d fe))
       = vsock_words ?t @ boot_tail_words c spec (d \<noteq> None) fe"
    unfolding vm_boot_args_words using boot_tail_no_blank[OF petals assms(2) ke(2)] fixed_words_no_blank[of _ ?t]
    by (intro boot_words_split words_not_Nil) blast+
  have nil: "filter (\<lambda>w. \<not> starts_with w ''bloom_'') (boot_tail_words c spec disk qe) = []"
    "filter (\<lambda>w. \<not> starts_with w ''bloom_'') (boot_tail_words c spec (d \<noteq> None) fe) = []"
    using tail_words_bloom ke by (metis (no_types, lifting) filter_False)+
  show ?thesis unfolding q v filter_append nil fixed_not_bloom by simp
qed

lemma controlled_starts:
  assumes "loadConfig number is_url url_origin to_ascii cwd source role = Inr c" "cfg_vmEgress c = ''controlled''"
  shows "\<exists>e. startQemuWorkspaceEgress to_ascii c (TcpPort p) = Inr (Some e)
    \<and> we_qemuGuestForward e = Some (''guestfwd=tcp:10.0.2.100:3128-tcp:127.0.0.1:'' @ nat_to_dec p)"
    "\<exists>e. startFirecrackerWorkspaceEgress to_ascii c SocketPath = Inr (Some e)"
  using workspaceProxy_starts[OF assms(1)] assms(2)
  by (auto simp: startQemuWorkspaceEgress_def startFirecrackerWorkspaceEgress_def)

lemma boot_command_line_witness:
  "\<exists>c e. loadConfig (\<lambda>_. None) (\<lambda>_. True) Some id ''/srv'' sample_source Control = Inr c
     \<and> startQemuWorkspaceEgress id c (TcpPort 40000) = Inr (Some e)
     \<and> filter (\<lambda>w. \<not> starts_with w ''bloom_'') (split_on (CHR '' '') (qemu_append c
          \<lparr>rs_id = ''w'', rs_leaseExpiresAt = 5000, rs_storage = \<lparr>rt_mode = Disposable, rt_volumeId = None, rt_quotaBytes = 1\<rparr>, rs_identity = None\<rparr>
          False (Some e)))
       = [''console=ttyS0'', ''reboot=k'', ''panic=1'', ''root=/dev/vda'', ''rw'', ''init=/usr/local/sbin/bloom-init'']"
proof -
  obtain c where c: "loadConfig (\<lambda>_. None) (\<lambda>_. True) Some id ''/srv'' sample_source Control = Inr c" "cfg_vmEgress c = ''controlled''"
    using sample_config_ex by blast
  obtain e where e: "startQemuWorkspaceEgress id c (TcpPort 40000) = Inr (Some e)" using controlled_starts(1)[OF c, of 40000] by blast
  obtain f where f: "startFirecrackerWorkspaceEgress id c SocketPath = Inr (Some f)" using controlled_starts(2)[OF c] by blast
  from boot_command_line[OF c(1) _ e f, of "\<lparr>rs_id = ''w'', rs_leaseExpiresAt = 5000,
      rs_storage = \<lparr>rt_mode = Disposable, rt_volumeId = None, rt_quotaBytes = 1\<rparr>, rs_identity = None\<rparr>" False]
  show ?thesis using c(1) e by fastforce
qed

section \<open>The network of a machine\<close>

lemma split_netdev:
  assumes "cfg_vmEgress c \<noteq> ''internet''"
    and "\<forall>e f. egress = Some e \<and> we_qemuGuestForward e = Some f \<longrightarrow> f \<noteq> [] \<and> CHR '','' \<notin> set f"
  shows "split_on (CHR '','') (qemu_netdev c egress sshPort) =
     [''user'', ''id=net0'', ''restrict=on'']
     @ (case egress of None \<Rightarrow> [] | Some e \<Rightarrow> (case we_qemuGuestForward e of None \<Rightarrow> [] | Some f \<Rightarrow> [f]))
     @ (case sshPort of None \<Rightarrow> [] | Some p \<Rightarrow> [''hostfwd=tcp:127.0.0.1:'' @ nat_to_dec p @ ''-:22''])"
proof -
  let ?f = "case egress of None \<Rightarrow> [] | Some e \<Rightarrow> (case we_qemuGuestForward e of None \<Rightarrow> [] | Some f \<Rightarrow> [f])"
  let ?h = "case sshPort of None \<Rightarrow> [] | Some p \<Rightarrow> [''hostfwd=tcp:127.0.0.1:'' @ nat_to_dec p @ ''-:22'']"
  have e: "qemu_netdev c egress sshPort = join_with (CHR '','') [''user'', ''id=net0'', ''restrict=on''] @ concat (map (\<lambda>w. CHR '','' # w) (?f @ ?h))"
    using assms by (auto simp: qemu_netdev_def split: option.split)
  have d: "CHR '','' \<notin> set (nat_to_dec p)" for p
    using nat_to_dec_digits[of "CHR '',''" p] by (auto simp: char_class_defs)
  have "\<forall>w \<in> set (?f @ ?h). CHR '','' \<notin> set w" using assms(2) d by (auto split: option.splits)
  then show ?thesis unfolding e join_blank[of "[''user'', ''id=net0'', ''restrict=on'']", OF list.distinct(2)]
    by (intro split_on_join) auto
qed

text \<open>Machines of a public deployment reach nothing but what the agent gives them. The network device of QEMU is then
  restricted, with one forward to the egress proxy on a loopback port when egress is controlled and none
  otherwise, and one forward from a loopback port to the guest's SSH server when SSH is on; QEMU runs on KVM in
  its sandbox.\<close>
lemma qemu_isolated:
  assumes "loadConfig number is_url url_origin to_ascii cwd source role = Inr c" "cfg_publicMode c"
    and "startQemuWorkspaceEgress to_ascii c l = Inr egress"
    and "qemu_command c spec workspaceDir disk egress sshPort = (file, args, dir)"
  shows "\<exists>pre netdev post. args = pre @ [''-netdev'', netdev] @ post
    \<and> take 6 args = [''-machine'', ''q35'', ''-accel'', ''kvm'', ''-sandbox'', ''on,obsolete=deny,elevateprivileges=deny,spawn=deny,resourcecontrol=deny'']
    \<and> (\<exists>forwards. split_on (CHR '','') netdev = [''user'', ''id=net0'', ''restrict=on''] @ forwards
           @ (case sshPort of None \<Rightarrow> [] | Some p \<Rightarrow> [''hostfwd=tcp:127.0.0.1:'' @ nat_to_dec p @ ''-:22''])
         \<and> (if cfg_vmEgress c = ''controlled''
            then \<exists>p. l = TcpPort p \<and> forwards = [''guestfwd=tcp:10.0.2.100:3128-tcp:127.0.0.1:'' @ nat_to_dec p]
            else forwards = []))"
proof -
  note accel = loadConfig_public_vm(1)[OF assms(1,2)] and net = loadConfig_public_vm(2)[OF assms(1,2)]
  let ?nd = "qemu_netdev c egress sshPort"
  have args: "\<exists>pre post. args = pre @ [''-netdev'', ?nd] @ post"
  proof -
    have "fst (snd (qemu_command c spec workspaceDir disk egress sshPort)) = args" using assms(4) by simp
    then obtain X k where X: "X @ qemu_devices k ?nd = args"
      unfolding qemu_command_def Let_def fst_conv snd_conv append_assoc[symmetric] by blast
    have "qemu_devices k ?nd = take 8 (qemu_devices k ?nd) @ drop 8 (qemu_devices k ?nd)" by simp
    also have "drop 8 (qemu_devices k ?nd) = [''-netdev'', ?nd] @ drop 10 (qemu_devices k ?nd)" by (simp add: qemu_devices_def)
    finally have "args = (X @ take 8 (qemu_devices k ?nd)) @ [''-netdev'', ?nd] @ drop 10 (qemu_devices k ?nd)" unfolding X[symmetric] append_assoc by (rule arg_cong)
    then show ?thesis by blast
  qed
  have first: "take 6 args = [''-machine'', ''q35'', ''-accel'', ''kvm'', ''-sandbox'', ''on,obsolete=deny,elevateprivileges=deny,spawn=deny,resourcecontrol=deny'']"
    using assms(4) accel by (auto simp: qemu_command_def Let_def)
  have plain: "CHR '','' \<notin> set (''guestfwd=tcp:10.0.2.100:3128-tcp:127.0.0.1:'' @ nat_to_dec p)" for p
    using nat_to_dec_digits[of "CHR '',''" p] by (auto simp: char_class_defs)
  have egress: "(if cfg_vmEgress c = ''controlled''
      then \<exists>p e. l = TcpPort p \<and> egress = Some e \<and> we_qemuGuestForward e = Some (''guestfwd=tcp:10.0.2.100:3128-tcp:127.0.0.1:'' @ nat_to_dec p)
      else egress = None)"
    using assms(3) by (cases "workspaceProxy to_ascii c") (auto simp: startQemuWorkspaceEgress_def split: if_splits prod.splits listening.splits)
  have "\<forall>e f. egress = Some e \<and> we_qemuGuestForward e = Some f \<longrightarrow> f \<noteq> [] \<and> CHR '','' \<notin> set f"
    using egress plain by (auto split: if_splits)
  note split = split_netdev[OF net this, of sshPort]
  show ?thesis
  proof -
    obtain pre post where "args = pre @ [''-netdev'', ?nd] @ post" using args by blast
    moreover have "\<exists>forwards. split_on (CHR '','') ?nd = [''user'', ''id=net0'', ''restrict=on''] @ forwards
           @ (case sshPort of None \<Rightarrow> [] | Some p \<Rightarrow> [''hostfwd=tcp:127.0.0.1:'' @ nat_to_dec p @ ''-:22''])
         \<and> (if cfg_vmEgress c = ''controlled''
            then \<exists>p. l = TcpPort p \<and> forwards = [''guestfwd=tcp:10.0.2.100:3128-tcp:127.0.0.1:'' @ nat_to_dec p]
            else forwards = [])"
      unfolding split using egress by (cases "cfg_vmEgress c = ''controlled''") auto
    ultimately show ?thesis using first by blast
  qed
qed

lemma qemu_isolated_witness:
  "\<exists>c e args netdev. loadConfig (\<lambda>_. None) (\<lambda>_. True) Some id ''/srv'' sample_source Control = Inr c
     \<and> startQemuWorkspaceEgress id c (TcpPort 40000) = Inr (Some e)
     \<and> netdev \<in> set args \<and> take 3 (split_on (CHR '','') netdev) = [''user'', ''id=net0'', ''restrict=on'']"
proof -
  obtain c where c: "loadConfig (\<lambda>_. None) (\<lambda>_. True) Some id ''/srv'' sample_source Control = Inr c"
    "cfg_publicMode c" "cfg_vmEgress c = ''controlled''"
    using sample_config_ex by blast
  obtain e where e: "startQemuWorkspaceEgress id c (TcpPort 40000) = Inr (Some e)" using controlled_starts(1)[OF c(1,3), of 40000] by blast
  let ?spec = "\<lparr>rs_id = ''w'', rs_leaseExpiresAt = 5000, rs_storage = \<lparr>rt_mode = Disposable, rt_volumeId = None, rt_quotaBytes = 1\<rparr>, rs_identity = None\<rparr>"
  obtain prog args dir where q: "qemu_command c ?spec ''/srv/w'' None (Some e) (Some 50022) = (prog, args, dir)" using prod_cases3 by blast
  from qemu_isolated[OF c(1,2) e q] obtain pre netdev post forwards where
    "args = pre @ [''-netdev'', netdev] @ post" "split_on (CHR '','') netdev = [''user'', ''id=net0'', ''restrict=on''] @ forwards
           @ (case Some 50022 of None \<Rightarrow> [] | Some p \<Rightarrow> [''hostfwd=tcp:127.0.0.1:'' @ nat_to_dec p @ ''-:22''])"
    by blast
  then have "netdev \<in> set args" "take 3 (split_on (CHR '','') netdev) = [''user'', ''id=net0'', ''restrict=on'']"
    by simp_all
  then show ?thesis using c(1) e by blast
qed

end
