(* ===== verification/Runtimes.thy ===== *)
theory Runtimes
  imports Machines "HOL-Library.AList"
begin

text \<open>
  The life of the instances of a runtime: \<open>src/agent/pty-runtime.ts\<close> with the parts of
  \<open>src/agent/process-runtime.ts\<close> and \<open>src/agent/qemu-runtime.ts\<close> that extend it, and the terminal queue of
  \<open>src/agent/firecracker-runtime.ts\<close>. An instance is an object, named by a number, because timers and exit
  handlers keep hold of it after its id has been forgotten; \<open>instances\<close> maps ids to objects.

  \<open>create\<close> awaits the preparation of the command and, in QEMU's case, the readiness of the guest, so it is cut
  there: \<open>rt_create\<close>, \<open>rt_spawned\<close> and \<open>qemu_ready\<close>.
\<close>

section \<open>State\<close>

datatype vm_state = VmRunning | VmStopped | VmFailed

datatype terminal_message = Output string | Closed

record vm_instance =
  io_spec :: runtime_spec
  io_state :: vm_state
  io_history :: string
  io_listeners :: "nat list"
  io_killed :: bool
  io_exited :: bool
  io_cleanups :: nat

record pty =
  py_objs :: "nat \<Rightarrow> vm_instance"
  py_next :: nat
  py_instances :: "(string \<times> nat) list"
  py_pending :: "runtime_spec list"
  py_waiting :: "runtime_spec list"
  py_timers :: "(string \<times> nat) list"
  py_storage :: "(string \<times> runtime_storage) list"
  py_sent :: "(nat \<times> terminal_message) list"

datatype runtime_kind = ProcessKind | QemuKind

definition MAX_HISTORY :: nat where "MAX_HISTORY = 256 * 1024"

definition last_n :: "nat \<Rightarrow> 'a list \<Rightarrow> 'a list" where
  "last_n n xs = drop (length xs - n) xs"

definition rt_status :: "pty \<Rightarrow> string \<Rightarrow> vm_state option" where
  "rt_status s wid = map_option (\<lambda>o'. io_state (py_objs s o')) (map_of (py_instances s) wid)"

definition set_obj :: "nat \<Rightarrow> (vm_instance \<Rightarrow> vm_instance) \<Rightarrow> pty \<Rightarrow> pty" where
  "set_obj n f s = s\<lparr>py_objs := (py_objs s)(n := f (py_objs s n))\<rparr>"

text \<open>\<open>py_sent\<close> is what the listeners have been called with, in order.\<close>

definition emit :: "nat \<Rightarrow> terminal_message \<Rightarrow> pty \<Rightarrow> pty" where
  "emit n m s = s\<lparr>py_sent := py_sent s @ map (\<lambda>l. (l, m)) (io_listeners (py_objs s n))\<rparr>"

section \<open>Stopping\<close>

definition forgetLater :: "string \<Rightarrow> nat \<Rightarrow> pty \<Rightarrow> pty" where
  "forgetLater wid n s = s\<lparr>py_timers := py_timers s @ [(wid, n)]\<rparr>"

definition rt_stop :: "string \<Rightarrow> pty \<Rightarrow> pty" where
  "rt_stop wid s =
     (case map_of (py_instances s) wid of
        None \<Rightarrow> s
      | Some n \<Rightarrow>
          if io_state (py_objs s n) \<noteq> VmRunning then s
          else forgetLater wid n (emit n Closed
            (set_obj n (\<lambda>i. i\<lparr>io_state := VmStopped, io_killed := True, io_cleanups := Suc (io_cleanups i)\<rparr>) s)))"

definition rt_sweep :: "int \<Rightarrow> pty \<Rightarrow> pty" where
  "rt_sweep now s =
     foldl (\<lambda>t wid. rt_stop wid t) s
       (map fst (filter (\<lambda>(wid, n). io_state (py_objs s n) = VmRunning \<and> rs_leaseExpiresAt (io_spec (py_objs s n)) \<le> now) (py_instances s)))"

definition rt_close :: "pty \<Rightarrow> pty" where
  "rt_close s = foldl (\<lambda>t wid. rt_stop wid t) s (map fst (py_instances s))"

text \<open>The timer of \<open>forgetLater\<close>.\<close>

definition rt_forget :: "string \<times> nat \<Rightarrow> pty \<Rightarrow> pty" where
  "rt_forget e s =
     (let s1 = s\<lparr>py_timers := remove1 e (py_timers s)\<rparr>
      in if map_of (py_instances s) (fst e) \<noteq> Some (snd e) then s1
         else (set_obj (snd e) (\<lambda>i. i\<lparr>io_history := [], io_listeners := []\<rparr>) s1)\<lparr>py_instances := AList.delete (fst e) (py_instances s)\<rparr>)"

section \<open>Creating\<close>

datatype create_result = CreateError runtime_error | Already | Awaits

definition super_create :: "int \<Rightarrow> runtime_spec \<Rightarrow> pty \<Rightarrow> create_result" where
  "super_create now spec s =
     (if \<not> is_uuid4 (rs_id spec) then CreateError PlainError
      else if rs_leaseExpiresAt spec \<le> now then CreateError PlainError
      else if map_of (py_instances s) (rs_id spec) \<noteq> None then Already else Awaits)"

definition validateStorage_process :: "config \<Rightarrow> runtime_spec \<Rightarrow> (runtime_error, unit) res" where
  "validateStorage_process c spec =
     (let st = rs_storage spec
      in if \<not> is_safe_integer (rt_quotaBytes st) \<or> rt_quotaBytes st \<le> 0 then Inl (RuntimeDataError 400)
         else if rt_mode st = Persistent
         then rbind (volumeDirectory (cfg_dataDir c) (case rt_volumeId st of None \<Rightarrow> [] | Some v \<Rightarrow> v)) (\<lambda>_. Inr ())
         else if rt_volumeId st \<noteq> None then Inl (RuntimeDataError 400) else Inr ())"

text \<open>\<open>ProcessRuntime.create\<close>, up to the first await.\<close>

definition process_create :: "config \<Rightarrow> int \<Rightarrow> runtime_spec \<Rightarrow> pty \<Rightarrow> create_result \<times> pty" where
  "process_create c now spec s =
     (case validateStorage_process c spec of
        Inl e \<Rightarrow> (CreateError e, s)
      | Inr _ \<Rightarrow>
          let s1 = s\<lparr>py_storage := AList.update (rs_id spec) (rs_storage spec) (py_storage s)\<rparr>
          in case super_create now spec s1 of
               CreateError e \<Rightarrow> (CreateError e, s1\<lparr>py_storage := AList.delete (rs_id spec) (py_storage s1)\<rparr>)
             | Already \<Rightarrow> (Already, s1)
             | Awaits \<Rightarrow> (Awaits, s1\<lparr>py_pending := py_pending s1 @ [spec]\<rparr>))"

text \<open>\<open>QemuRuntime.create\<close>: an error of the base class stops the id, and an instance that is there is waited for.\<close>

definition qemu_failed :: "runtime_spec \<Rightarrow> pty \<Rightarrow> pty" where
  "qemu_failed spec s = (let s1 = rt_stop (rs_id spec) s in s1\<lparr>py_storage := AList.delete (rs_id spec) (py_storage s1)\<rparr>)"

definition qemu_create :: "config \<Rightarrow> int \<Rightarrow> runtime_spec \<Rightarrow> pty \<Rightarrow> create_result \<times> pty" where
  "qemu_create c now spec s =
     (case validateStorage_qemu c spec of
        Inl e \<Rightarrow> (CreateError e, s)
      | Inr _ \<Rightarrow>
          let s1 = s\<lparr>py_storage := AList.update (rs_id spec) (rs_storage spec) (py_storage s)\<rparr>
          in case super_create now spec s1 of
               CreateError e \<Rightarrow> (CreateError e, qemu_failed spec s1)
             | Already \<Rightarrow> (Already, s1\<lparr>py_waiting := py_waiting s1 @ [spec]\<rparr>)
             | Awaits \<Rightarrow> (Awaits, s1\<lparr>py_pending := py_pending s1 @ [spec]\<rparr>))"

definition rt_create :: "runtime_kind \<Rightarrow> config \<Rightarrow> int \<Rightarrow> runtime_spec \<Rightarrow> pty \<Rightarrow> create_result \<times> pty" where
  "rt_create k c now spec s = (case k of ProcessKind \<Rightarrow> process_create c now spec s | QemuKind \<Rightarrow> qemu_create c now spec s)"

text \<open>The command is prepared and its process spawned, or either failed.\<close>

definition rt_spawned :: "runtime_kind \<Rightarrow> bool \<Rightarrow> runtime_spec \<Rightarrow> pty \<Rightarrow> pty" where
  "rt_spawned k ok spec s =
     (let s1 = s\<lparr>py_pending := remove1 spec (py_pending s)\<rparr>
      in if \<not> ok then (case k of ProcessKind \<Rightarrow> s1\<lparr>py_storage := AList.delete (rs_id spec) (py_storage s1)\<rparr> | QemuKind \<Rightarrow> qemu_failed spec s1)
         else let n = py_next s1;
                  i = \<lparr>io_spec = spec, io_state = VmRunning, io_history = [], io_listeners = [], io_killed = False, io_exited = False, io_cleanups = 0\<rparr>
              in s1\<lparr>py_objs := (py_objs s1)(n := i), py_next := Suc n,
                   py_instances := AList.update (rs_id spec) n (py_instances s1),
                   py_waiting := (case k of ProcessKind \<Rightarrow> py_waiting s1 | QemuKind \<Rightarrow> py_waiting s1 @ [spec])\<rparr>)"

definition qemu_ready :: "bool \<Rightarrow> runtime_spec \<Rightarrow> pty \<Rightarrow> pty" where
  "qemu_ready ok spec s =
     (let s1 = s\<lparr>py_waiting := remove1 spec (py_waiting s)\<rparr> in if ok then s1 else qemu_failed spec s1)"

section \<open>The process and its terminal\<close>

definition rt_data :: "nat \<Rightarrow> string \<Rightarrow> pty \<Rightarrow> pty" where
  "rt_data n d s = emit n (Output d) (set_obj n (\<lambda>i. i\<lparr>io_history := last_n MAX_HISTORY (io_history i @ d)\<rparr>) s)"

definition rt_exit :: "nat \<Rightarrow> int \<Rightarrow> pty \<Rightarrow> pty" where
  "rt_exit n exitCode s =
     forgetLater (rs_id (io_spec (py_objs s n))) n (emit n Closed
       (set_obj n (\<lambda>i. i\<lparr>io_exited := True, io_cleanups := Suc (io_cleanups i),
          io_state := (if io_state i = VmRunning then (if exitCode = 0 then VmStopped else VmFailed) else io_state i)\<rparr>) s))"

text \<open>\<open>attach\<close> replays the history to the new listener.\<close>

definition rt_attach :: "nat \<Rightarrow> string \<Rightarrow> pty \<Rightarrow> (runtime_error, pty) res" where
  "rt_attach l wid s =
     (case map_of (py_instances s) wid of
        None \<Rightarrow> Inl PlainError
      | Some n \<Rightarrow>
          if io_state (py_objs s n) \<noteq> VmRunning then Inl PlainError
          else let h = io_history (py_objs s n)
               in Inr (set_obj n (\<lambda>i. i\<lparr>io_listeners := io_listeners i @ [l]\<rparr>)
                    (s\<lparr>py_sent := py_sent s @ (if h = [] then [] else [(l, Output h)])\<rparr>)))"

definition rt_detach :: "nat \<Rightarrow> nat \<Rightarrow> pty \<Rightarrow> pty" where
  "rt_detach l n s = set_obj n (\<lambda>i. i\<lparr>io_listeners := remove1 l (io_listeners i)\<rparr>) s"

text \<open>\<open>write\<close>: the process that gets the data.\<close>

definition rt_write :: "string \<Rightarrow> string \<Rightarrow> pty \<Rightarrow> (runtime_error, nat) res" where
  "rt_write wid d s =
     (if 64 * 1024 < utf8_len d then Inl PlainError
      else case map_of (py_instances s) wid of
        None \<Rightarrow> Inl PlainError
      | Some n \<Rightarrow> if io_state (py_objs s n) \<noteq> VmRunning then Inl PlainError else Inr n)"

definition rt_resize :: "string \<Rightarrow> int \<Rightarrow> int \<Rightarrow> pty \<Rightarrow> (nat \<times> int \<times> int) option" where
  "rt_resize wid cols rows s =
     (case map_of (py_instances s) wid of
        None \<Rightarrow> None
      | Some n \<Rightarrow> if io_state (py_objs s n) \<noteq> VmRunning then None else Some (n, max 20 (min 300 cols), max 5 (min 120 rows)))"

section \<open>Data\<close>

definition destroyVolume :: "config \<Rightarrow> string \<Rightarrow> pty \<Rightarrow> (runtime_error, string) res" where
  "destroyVolume c volumeId s =
     (if list_ex (\<lambda>(wid, st). rt_volumeId st = Some volumeId \<and> rt_status s wid = Some VmRunning) (py_storage s)
      then Inl (RuntimeDataError 409) else volumeDirectory (cfg_dataDir c) volumeId)"

definition process_dataRoot :: "config \<Rightarrow> string \<Rightarrow> pty \<Rightarrow> (runtime_error, string \<times> int) res" where
  "process_dataRoot c wid s =
     (if rt_status s wid \<noteq> Some VmRunning then Inl (RuntimeDataError 409)
      else case map_of (py_storage s) wid of
        None \<Rightarrow> Inl (RuntimeDataError 404)
      | Some st \<Rightarrow>
          if rt_mode st = Persistent
          then rbind (volumeDirectory (cfg_dataDir c) (case rt_volumeId st of None \<Rightarrow> ''undefined'' | Some v \<Rightarrow> v)) (\<lambda>d. Inr (join [d, ''workspace''], rt_quotaBytes st))
          else Inr (join [cfg_dataDir c, wid, ''workspace''], rt_quotaBytes st))"

section \<open>Runs\<close>

text \<open>
  The steps of a runtime. A workspace is created under an id that is neither registered nor being created: the
  control plane draws a random UUID for every workspace and asks for each once.
\<close>

definition fresh_id :: "string \<Rightarrow> pty \<Rightarrow> bool" where
  "fresh_id wid s \<longleftrightarrow> map_of (py_instances s) wid = None \<and> wid \<notin> rs_id ` set (py_pending s) \<and> wid \<notin> rs_id ` set (py_waiting s)"

definition new_pty :: pty where
  "new_pty = \<lparr>py_objs = (\<lambda>_. \<lparr>io_spec = \<lparr>rs_id = [], rs_leaseExpiresAt = 0, rs_storage = \<lparr>rt_mode = Disposable, rt_volumeId = None, rt_quotaBytes = 0\<rparr>,
       rs_identity = None\<rparr>, io_state = VmStopped, io_history = [], io_listeners = [], io_killed = True, io_exited = True, io_cleanups = 0\<rparr>),
     py_next = 0, py_instances = [], py_pending = [], py_waiting = [], py_timers = [], py_storage = [], py_sent = []\<rparr>"

inductive rt_step :: "runtime_kind \<Rightarrow> config \<Rightarrow> pty \<Rightarrow> pty \<Rightarrow> bool" for k c where
  create: "fresh_id (rs_id spec) s \<Longrightarrow> rt_create k c now spec s = (r, s') \<Longrightarrow> rt_step k c s s'"
| spawned: "spec \<in> set (py_pending s) \<Longrightarrow> rt_step k c s (rt_spawned k ok spec s)"
| ready: "spec \<in> set (py_waiting s) \<Longrightarrow> rt_step k c s (qemu_ready ok spec s)"
| data: "n < py_next s \<Longrightarrow> rt_step k c s (rt_data n d s)"
| exit: "n < py_next s \<Longrightarrow> \<not> io_exited (py_objs s n) \<Longrightarrow> rt_step k c s (rt_exit n exitCode s)"
| forget: "e \<in> set (py_timers s) \<Longrightarrow> rt_step k c s (rt_forget e s)"
| stop: "rt_step k c s (rt_stop wid s)"
| sweep: "rt_step k c s (rt_sweep now s)"
| close: "rt_step k c s (rt_close s)"
| attach: "rt_attach l wid s = Inr s' \<Longrightarrow> rt_step k c s s'"
| detach: "n < py_next s \<Longrightarrow> rt_step k c s (rt_detach l n s)"

inductive rt_reachable :: "runtime_kind \<Rightarrow> config \<Rightarrow> pty \<Rightarrow> bool" for k c where
  start: "rt_reachable k c new_pty"
| step: "rt_reachable k c s \<Longrightarrow> rt_step k c s s' \<Longrightarrow> rt_reachable k c s'"

abbreviation running :: "pty \<Rightarrow> nat \<Rightarrow> bool" where
  "running s n \<equiv> io_state (py_objs s n) = VmRunning"

abbreviation obj_id :: "pty \<Rightarrow> nat \<Rightarrow> string" where
  "obj_id s n \<equiv> rs_id (io_spec (py_objs s n))"

text \<open>A process that has been spawned and neither killed nor seen to exit.\<close>

definition live :: "pty \<Rightarrow> nat \<Rightarrow> bool" where
  "live s n \<longleftrightarrow> n < py_next s \<and> \<not> io_killed (py_objs s n) \<and> \<not> io_exited (py_objs s n)"

definition objs_ok :: "pty \<Rightarrow> bool" where
  "objs_ok s \<longleftrightarrow> (\<forall>n < py_next s. running s n = live s n)
     \<and> (\<forall>n < py_next s. running s n \<longrightarrow> map_of (py_instances s) (obj_id s n) = Some n
          \<and> map_of (py_storage s) (obj_id s n) = Some (rs_storage (io_spec (py_objs s n))))"

definition keys_ok :: "pty \<Rightarrow> bool" where
  "keys_ok s \<longleftrightarrow> (\<forall>wid n. map_of (py_instances s) wid = Some n \<longrightarrow> n < py_next s \<and> obj_id s n = wid)
     \<and> (\<forall>(wid, n) \<in> set (py_timers s). n < py_next s \<and> \<not> running s n)"

definition pending_ok :: "pty \<Rightarrow> bool" where
  "pending_ok s \<longleftrightarrow> distinct (map rs_id (py_pending s))
     \<and> (\<forall>spec \<in> set (py_pending s). map_of (py_instances s) (rs_id spec) = None
          \<and> map_of (py_storage s) (rs_id spec) = Some (rs_storage spec) \<and> rs_id spec \<notin> rs_id ` set (py_waiting s))"

definition rt_inv :: "pty \<Rightarrow> bool" where
  "rt_inv s \<longleftrightarrow> objs_ok s \<and> keys_ok s \<and> pending_ok s"

lemma map_of_AList [simp]:
  "map_of (AList.update k v xs) = (map_of xs)(k \<mapsto> v)" "map_of (AList.delete k xs) = (map_of xs)(k := None)"
  by (simp_all add: update_conv' delete_conv')

text \<open>Steps that change one object, keep its specification and do not start it, and add timers only for stopped ones.\<close>

lemma rt_inv_object:
  assumes inv: "rt_inv s"
    and same: "py_next s' = py_next s" "py_instances s' = py_instances s" "py_pending s' = py_pending s" "py_waiting s' = py_waiting s"
      "py_storage s' = py_storage s"
    and objs: "\<forall>m. io_spec (py_objs s' m) = io_spec (py_objs s m)" "\<forall>m < py_next s. running s' m = live s' m" "\<forall>m. running s' m \<longrightarrow> running s m"
    and timers: "\<forall>(wid, m) \<in> set (py_timers s'). (wid, m) \<in> set (py_timers s) \<or> m < py_next s \<and> \<not> running s' m"
  shows "rt_inv s'"
proof -
  have "objs_ok s'" using inv objs unfolding rt_inv_def objs_ok_def same by simp
  moreover have "keys_ok s'" using inv objs(1,3) timers unfolding rt_inv_def keys_ok_def same by fastforce
  moreover have "pending_ok s'" using inv unfolding rt_inv_def pending_ok_def same by simp
  ultimately show ?thesis by (simp add: rt_inv_def)
qed

lemmas rt_sels = set_obj_def emit_def forgetLater_def live_def

lemma rt_inv_stop:
  assumes "rt_inv s" shows "rt_inv (rt_stop wid s)"
proof (cases "map_of (py_instances s) wid")
  case None
  then show ?thesis using assms by (simp add: rt_stop_def)
next
  case (Some n)
  have ok: "\<forall>m < py_next s. running s m = live s m" using assms by (simp add: rt_inv_def objs_ok_def)
  have n: "n < py_next s" using assms Some by (simp add: rt_inv_def keys_ok_def)
  show ?thesis
  proof (cases "running s n")
    case True
    show ?thesis
      by (rule rt_inv_object[OF assms]) (use Some True ok n in \<open>auto simp: rt_stop_def rt_sels\<close>)
  qed (use assms Some in \<open>simp add: rt_stop_def\<close>)
qed

lemma rt_inv_stops: "rt_inv s \<Longrightarrow> rt_inv (foldl (\<lambda>t wid. rt_stop wid t) s ws)"
  by (induction ws arbitrary: s) (simp_all add: rt_inv_stop)

lemma rt_inv_exit:
  assumes "rt_inv s" "n < py_next s" shows "rt_inv (rt_exit n exitCode s)"
proof (rule rt_inv_object[OF assms(1)])
  have ok: "\<forall>m < py_next s. running s m = live s m" using assms by (simp add: rt_inv_def objs_ok_def)
  show "\<forall>m < py_next s. running (rt_exit n exitCode s) m = live (rt_exit n exitCode s) m"
    using ok by (auto simp: rt_exit_def rt_sels)
qed (use assms(2) in \<open>auto simp: rt_exit_def rt_sels split: if_splits\<close>)

lemma rt_inv_attach:
  assumes "rt_inv s" "rt_attach l wid s = Inr s'" shows "rt_inv s'"
proof (rule rt_inv_object[OF assms(1)])
  have ok: "\<forall>m < py_next s. running s m = live s m" using assms(1) by (simp add: rt_inv_def objs_ok_def)
  show "\<forall>m < py_next s. running s' m = live s' m"
    using assms(2) ok by (auto simp: rt_attach_def rt_sels Let_def split: option.splits if_splits)
qed (use assms(2) in \<open>auto simp: rt_attach_def rt_sels Let_def split: option.splits if_splits\<close>)

lemma rt_inv_quiet:
  assumes "rt_inv s" shows "rt_inv (rt_data n d s)" "rt_inv (rt_detach l n s)"
proof -
  have ok: "\<forall>m < py_next s. running s m = live s m" using assms by (simp add: rt_inv_def objs_ok_def)
  show "rt_inv (rt_data n d s)"
    by (rule rt_inv_object[OF assms]) (use ok in \<open>auto simp: rt_data_def rt_sels\<close>)
  show "rt_inv (rt_detach l n s)"
    by (rule rt_inv_object[OF assms]) (use ok in \<open>auto simp: rt_detach_def rt_sels\<close>)
qed

lemma rt_invD:
  assumes "rt_inv s"
  shows "n < py_next s \<Longrightarrow> running s n = live s n"
    "n < py_next s \<Longrightarrow> running s n \<Longrightarrow> map_of (py_instances s) (obj_id s n) = Some n"
    "n < py_next s \<Longrightarrow> running s n \<Longrightarrow> map_of (py_storage s) (obj_id s n) = Some (rs_storage (io_spec (py_objs s n)))"
    "map_of (py_instances s) wid = Some n \<Longrightarrow> n < py_next s \<and> obj_id s n = wid"
    "(wid, n) \<in> set (py_timers s) \<Longrightarrow> n < py_next s \<and> \<not> running s n"
    "distinct (map rs_id (py_pending s))"
    "spec \<in> set (py_pending s) \<Longrightarrow> map_of (py_instances s) (rs_id spec) = None
       \<and> map_of (py_storage s) (rs_id spec) = Some (rs_storage spec) \<and> rs_id spec \<notin> rs_id ` set (py_waiting s)"
  using assms unfolding rt_inv_def objs_ok_def keys_ok_def pending_ok_def by blast+

lemma rt_inv_forget:
  assumes inv: "rt_inv s" and e: "e \<in> set (py_timers s)"
  shows "rt_inv (rt_forget e s)"
proof (cases "map_of (py_instances s) (fst e) = Some (snd e)")
  case False
  have ok: "\<forall>m < py_next s. running s m = live s m" using rt_invD(1)[OF inv] by blast
  show ?thesis
    by (rule rt_inv_object[OF inv]) (use False ok in \<open>auto simp: rt_forget_def live_def dest: notin_set_remove1[THEN contrapos_pp, rotated]\<close>)
next
  case True
  have n: "snd e < py_next s" "\<not> running s (snd e)" using rt_invD(5)[OF inv, of "fst e" "snd e"] e by simp_all
  have run: "running (rt_forget e s) m = running s m" "io_spec (py_objs (rt_forget e s) m) = io_spec (py_objs s m)"
    "live (rt_forget e s) m = live s m" for m
    using True by (simp_all add: rt_forget_def rt_sels Let_def)
  have same: "py_next (rt_forget e s) = py_next s" "py_storage (rt_forget e s) = py_storage s" "py_pending (rt_forget e s) = py_pending s"
    "py_waiting (rt_forget e s) = py_waiting s" "map_of (py_instances (rt_forget e s)) = (map_of (py_instances s))(fst e := None)"
    "set (py_timers (rt_forget e s)) \<subseteq> set (py_timers s)"
    using True set_remove1_subset[of e "py_timers s"] by (simp_all add: rt_forget_def set_obj_def Let_def)
  have other: "obj_id s m \<noteq> fst e" if "m < py_next s" "running s m" for m
  proof
    assume "obj_id s m = fst e"
    then have "m = snd e" using rt_invD(2)[OF inv that] True by simp
    then show False using n(2) that(2) by simp
  qed
  have "objs_ok (rt_forget e s)"
    unfolding objs_ok_def run same using rt_invD(1-3)[OF inv] other by auto
  moreover have "keys_ok (rt_forget e s)"
    unfolding keys_ok_def run same using rt_invD(4,5)[OF inv] same(6) by (auto split: if_splits)
  moreover have "pending_ok (rt_forget e s)"
    unfolding pending_ok_def same using rt_invD(6,7)[OF inv] by auto
  ultimately show ?thesis by (simp add: rt_inv_def)
qed

text \<open>Changing the storage of an id that no running instance and no pending creation has.\<close>

lemma rt_inv_storage:
  assumes inv: "rt_inv s" and free: "\<forall>m < py_next s. running s m \<longrightarrow> obj_id s m \<noteq> wid" "wid \<notin> rs_id ` set (py_pending s)"
    and X: "map_of X = (map_of (py_storage s))(wid := v)"
  shows "rt_inv (s\<lparr>py_storage := X\<rparr>)"
proof -
  let ?s = "s\<lparr>py_storage := X\<rparr>"
  have "objs_ok ?s" unfolding objs_ok_def live_def using rt_invD(1-3)[OF inv] free(1) X by (simp add: live_def)
  moreover have "keys_ok ?s" using inv by (simp add: rt_inv_def keys_ok_def)
  moreover have "pending_ok ?s" unfolding pending_ok_def using rt_invD(6,7)[OF inv] free(2) X by auto
  ultimately show ?thesis by (simp add: rt_inv_def)
qed

lemma rt_inv_pending_less:
  assumes inv: "rt_inv s" shows "rt_inv (s\<lparr>py_pending := remove1 spec (py_pending s)\<rparr>)"
proof -
  let ?s = "s\<lparr>py_pending := remove1 spec (py_pending s)\<rparr>"
  have sub: "set (remove1 spec (py_pending s)) \<subseteq> set (py_pending s)" by (rule set_remove1_subset)
  have "distinct (map rs_id (remove1 spec (py_pending s)))"
    using rt_invD(6)[OF inv] by (induction "py_pending s") (auto simp: distinct_map inj_on_def)
  then have "pending_ok ?s" unfolding pending_ok_def using rt_invD(7)[OF inv] sub by auto
  then show ?thesis using inv by (simp add: rt_inv_def objs_ok_def keys_ok_def live_def)
qed

lemma stop_stops: "\<lbrakk>rt_inv s; m < py_next (rt_stop wid s); running (rt_stop wid s) m\<rbrakk> \<Longrightarrow> obj_id (rt_stop wid s) m \<noteq> wid"
proof
  assume inv: "rt_inv s" and m: "m < py_next (rt_stop wid s)" "running (rt_stop wid s) m" "obj_id (rt_stop wid s) m = wid"
  have "map_of (py_instances (rt_stop wid s)) wid = Some m" using rt_invD(2)[OF rt_inv_stop[OF inv] m(1,2)] m(3) by simp
  moreover have "py_instances (rt_stop wid s) = py_instances s" by (simp add: rt_stop_def rt_sels split: option.split)
  ultimately have "map_of (py_instances s) wid = Some m" by simp
  then show False using m(2) by (auto simp: rt_stop_def rt_sels split: if_splits)
qed

lemma stop_sels [simp]: "py_pending (rt_stop wid s) = py_pending s" "py_waiting (rt_stop wid s) = py_waiting s" "py_storage (rt_stop wid s) = py_storage s"
  "py_instances (rt_stop wid s) = py_instances s" "py_next (rt_stop wid s) = py_next s"
  by (simp_all add: rt_stop_def rt_sels split: option.split)

lemma rt_inv_qemu_failed:
  assumes "rt_inv s" "rs_id spec \<notin> rs_id ` set (py_pending s)" shows "rt_inv (qemu_failed spec s)"
  unfolding qemu_failed_def Let_def
  by (rule rt_inv_storage[OF rt_inv_stop[OF assms(1)], where wid = "rs_id spec" and v = None])
     (use assms stop_stops[OF assms(1)] in auto)

lemma rt_inv_create:
  assumes inv: "rt_inv s" and fresh: "fresh_id (rs_id spec) s" and run: "rt_create k c now spec s = (r, s')"
  shows "rt_inv s'"
proof -
  let ?id = "rs_id spec"
  let ?s1 = "s\<lparr>py_storage := AList.update ?id (rs_storage spec) (py_storage s)\<rparr>"
  have none: "map_of (py_instances s) ?id = None" "?id \<notin> rs_id ` set (py_pending s)" "?id \<notin> rs_id ` set (py_waiting s)"
    using fresh by (auto simp: fresh_id_def)
  have free: "\<forall>m < py_next s. running s m \<longrightarrow> obj_id s m \<noteq> ?id" using rt_invD(2)[OF inv] none(1) by fastforce
  have s1: "rt_inv ?s1" by (rule rt_inv_storage[OF inv free none(2)]) simp
  have s2: "rt_inv (?s1\<lparr>py_storage := AList.delete ?id (py_storage ?s1)\<rparr>)"
    by (rule rt_inv_storage[OF s1, where wid = ?id and v = None]) (use free none in auto)
  have s3: "rt_inv (qemu_failed spec ?s1)" by (rule rt_inv_qemu_failed[OF s1]) (use none in simp)
  have s4: "rt_inv (?s1\<lparr>py_pending := py_pending ?s1 @ [spec]\<rparr>)"
  proof -
    let ?s4 = "?s1\<lparr>py_pending := py_pending ?s1 @ [spec]\<rparr>"
    have "pending_ok ?s4" using s1 none unfolding rt_inv_def pending_ok_def by auto
    then show ?thesis using s1 by (simp add: rt_inv_def objs_ok_def keys_ok_def live_def)
  qed
  have "super_create now spec ?s1 \<noteq> Already" using none(1) by (simp add: super_create_def)
  then have "s' \<in> {s, ?s1\<lparr>py_storage := AList.delete ?id (py_storage ?s1)\<rparr>, qemu_failed spec ?s1, ?s1\<lparr>py_pending := py_pending ?s1 @ [spec]\<rparr>}"
    using run unfolding rt_create_def process_create_def qemu_create_def Let_def
    by (cases k; cases "super_create now spec ?s1") (auto split: sum.splits)
  then show ?thesis using inv s2 s3 s4 by blast
qed

lemma rt_inv_spawned:
  assumes inv: "rt_inv s" and spec: "spec \<in> set (py_pending s)"
  shows "rt_inv (rt_spawned k ok spec s)"
proof -
  let ?s1 = "s\<lparr>py_pending := remove1 spec (py_pending s)\<rparr>"
  have s1: "rt_inv ?s1" by (rule rt_inv_pending_less[OF inv])
  note p = rt_invD(7)[OF inv spec]
  have d: "distinct (py_pending s)" "inj_on rs_id (set (py_pending s))" using rt_invD(6)[OF inv] by (simp_all add: distinct_map)
  have gone: "rs_id spec \<notin> rs_id ` set (remove1 spec (py_pending s))"
    using d spec by (auto simp: inj_on_def)
  have free: "\<forall>m < py_next s. running s m \<longrightarrow> obj_id s m \<noteq> rs_id spec" using rt_invD(2)[OF inv] p by fastforce
  show ?thesis
  proof (cases ok)
    case False
    have "rt_inv (?s1\<lparr>py_storage := AList.delete (rs_id spec) (py_storage ?s1)\<rparr>)"
      by (rule rt_inv_storage[OF s1, where wid = "rs_id spec" and v = None]) (use free gone in auto)
    moreover have "rt_inv (qemu_failed spec ?s1)" by (rule rt_inv_qemu_failed[OF s1]) (use gone in simp)
    ultimately show ?thesis using False by (cases k) (simp_all add: rt_spawned_def Let_def)
  next
    case True
    let ?s' = "rt_spawned k ok spec s"
    have sels: "py_next ?s' = Suc (py_next s)" "map_of (py_instances ?s') = (map_of (py_instances s))(rs_id spec \<mapsto> py_next s)"
      "py_storage ?s' = py_storage s" "py_timers ?s' = py_timers s" "py_pending ?s' = remove1 spec (py_pending s)"
      "set (py_waiting ?s') \<subseteq> insert spec (set (py_waiting s))"
      "m < py_next s \<Longrightarrow> py_objs ?s' m = py_objs s m"
      "running ?s' (py_next s)" "io_spec (py_objs ?s' (py_next s)) = spec" "live ?s' (py_next s)" for m
      using True by (auto simp: rt_spawned_def Let_def live_def split: runtime_kind.split)
    have lv: "live ?s' m = live s m" if "m < py_next s" for m using that sels(1,7) by (simp add: live_def)
    have old: "running ?s' m = running s m" "obj_id ?s' m = obj_id s m" if "m < py_next s" for m using that sels(7) by simp_all
    have "objs_ok ?s'"
      unfolding objs_ok_def sels(1-3)
    proof (intro conjI allI impI)
      fix m assume "m < Suc (py_next s)"
      then consider "m = py_next s" | "m < py_next s" by linarith
      then show "running ?s' m = live ?s' m"
        by cases (use sels(8,10) lv old rt_invD(1)[OF inv] in auto)
    next
      fix m assume m: "m < Suc (py_next s)" "running ?s' m"
      then consider "m = py_next s" | "m < py_next s" by linarith
      then show "((map_of (py_instances s))(rs_id spec \<mapsto> py_next s)) (obj_id ?s' m) = Some m"
        by cases (use sels(9) old m(2) free rt_invD(2)[OF inv] in auto)
      from \<open>m < Suc (py_next s)\<close> consider "m = py_next s" | "m < py_next s" by linarith
      then show "map_of (py_storage s) (obj_id ?s' m) = Some (rs_storage (io_spec (py_objs ?s' m)))"
        by cases (use sels(7,9) old m(2) p rt_invD(3)[OF inv] in auto)
    qed
    moreover have "keys_ok ?s'"
      unfolding keys_ok_def sels(1,2,4)
    proof (intro conjI allI impI ballI)
      fix wid m assume a: "((map_of (py_instances s))(rs_id spec \<mapsto> py_next s)) wid = Some m"
      show "m < Suc (py_next s)" using a rt_invD(4)[OF inv] by (fastforce split: if_splits)
      show "obj_id ?s' m = wid" using a rt_invD(4)[OF inv] old(2) sels(9) by (fastforce split: if_splits)
    next
      fix e assume "e \<in> set (py_timers s)"
      then have t: "snd e < py_next s \<and> \<not> running s (snd e)" using rt_invD(5)[OF inv, of "fst e" "snd e"] by simp
      then have "\<not> running ?s' (snd e)" using old(1)[of "snd e"] by blast
      then show "case e of (wid, m) \<Rightarrow> m < Suc (py_next s) \<and> \<not> running ?s' m" using t by (simp add: case_prod_beta)
    qed
    moreover have "pending_ok ?s'"
      unfolding pending_ok_def sels(2,3,5)
    proof (intro conjI ballI)
      show "distinct (map rs_id (remove1 spec (py_pending s)))" using rt_invD(6)[OF s1] by simp
    next
      fix q assume q: "q \<in> set (remove1 spec (py_pending s))"
      then have ne: "rs_id q \<noteq> rs_id spec" using gone by (metis image_eqI)
      have Q: "map_of (py_instances s) (rs_id q) = None \<and> map_of (py_storage s) (rs_id q) = Some (rs_storage q) \<and> rs_id q \<notin> rs_id ` set (py_waiting s)"
        using rt_invD(7)[OF s1, of q] q by simp
      show "((map_of (py_instances s))(rs_id spec \<mapsto> py_next s)) (rs_id q) = None" using Q ne by simp
      show "map_of (py_storage s) (rs_id q) = Some (rs_storage q)" using Q by simp
      show "rs_id q \<notin> rs_id ` set (py_waiting ?s')" using Q ne sels(6) by blast
    qed
    ultimately show ?thesis by (simp add: rt_inv_def)
  qed
qed

lemma rt_inv_ready:
  assumes inv: "rt_inv s" and spec: "spec \<in> set (py_waiting s)"
  shows "rt_inv (qemu_ready ok spec s)"
proof -
  let ?s1 = "s\<lparr>py_waiting := remove1 spec (py_waiting s)\<rparr>"
  have sub: "set (remove1 spec (py_waiting s)) \<subseteq> set (py_waiting s)" by (rule set_remove1_subset)
  have "pending_ok ?s1" unfolding pending_ok_def using rt_invD(6,7)[OF inv] sub by (simp, blast)
  then have s1: "rt_inv ?s1" using inv by (simp add: rt_inv_def objs_ok_def keys_ok_def live_def)
  have "rs_id spec \<notin> rs_id ` set (py_pending s)"
  proof
    assume "rs_id spec \<in> rs_id ` set (py_pending s)"
    then obtain q where q: "q \<in> set (py_pending s)" "rs_id spec = rs_id q" by blast
    then show False using rt_invD(7)[OF inv q(1)] spec by (metis image_eqI)
  qed
  then have "rs_id spec \<notin> rs_id ` set (py_pending ?s1)" by simp
  then show ?thesis using s1 rt_inv_qemu_failed[OF s1] by (simp add: qemu_ready_def Let_def)
qed

lemma rt_inv_step:
  assumes "rt_step k c s s'" "rt_inv s" shows "rt_inv s'"
  using assms(1)
proof cases
  case create
  then show ?thesis using rt_inv_create[OF assms(2)] by blast
next
  case spawned
  then show ?thesis using rt_inv_spawned[OF assms(2)] by blast
next
  case ready
  then show ?thesis using rt_inv_ready[OF assms(2)] by blast
next
  case data
  then show ?thesis using rt_inv_quiet(1)[OF assms(2)] by blast
next
  case exit
  then show ?thesis using rt_inv_exit[OF assms(2)] by blast
next
  case forget
  then show ?thesis using rt_inv_forget[OF assms(2)] by blast
next
  case stop
  then show ?thesis using rt_inv_stop[OF assms(2)] by blast
next
  case sweep
  then show ?thesis using rt_inv_stops[OF assms(2)] by (simp add: rt_sweep_def)
next
  case close
  then show ?thesis using rt_inv_stops[OF assms(2)] by (simp add: rt_close_def)
next
  case attach
  then show ?thesis using rt_inv_attach[OF assms(2)] by blast
next
  case detach
  then show ?thesis using rt_inv_quiet(2)[OF assms(2)] by blast
qed

lemma rt_reachable_inv: "rt_reachable k c s \<Longrightarrow> rt_inv s"
proof (induction rule: rt_reachable.induct)
  case start
  show ?case by (simp add: rt_inv_def objs_ok_def keys_ok_def pending_ok_def new_pty_def)
next
  case (step s s')
  then show ?case using rt_inv_step by blast
qed

section \<open>Leases and volumes\<close>

lemma live_running: "rt_inv s \<Longrightarrow> live s n \<Longrightarrow> running s n \<and> map_of (py_instances s) (obj_id s n) = Some n
    \<and> map_of (py_storage s) (obj_id s n) = Some (rs_storage (io_spec (py_objs s n)))"
proof -
  assume inv: "rt_inv s" and l: "live s n"
  then have n: "n < py_next s" by (simp add: live_def)
  then have "running s n" using rt_invD(1)[OF inv] l by simp
  then show ?thesis using rt_invD(2,3)[OF inv n] by simp
qed

lemma live_stop: "live (rt_stop wid s) n \<Longrightarrow> live s n \<and> io_spec (py_objs (rt_stop wid s) n) = io_spec (py_objs s n)"
  by (auto simp: rt_stop_def rt_sels split: option.splits if_splits)

lemma live_stops:
  "rt_inv s \<Longrightarrow> live (foldl (\<lambda>t wid. rt_stop wid t) s ws) n \<Longrightarrow>
     live s n \<and> io_spec (py_objs (foldl (\<lambda>t wid. rt_stop wid t) s ws) n) = io_spec (py_objs s n) \<and> obj_id s n \<notin> set ws"
proof (induction ws arbitrary: s)
  case (Cons w ws)
  let ?t = "rt_stop w s"
  have inv: "rt_inv ?t" by (rule rt_inv_stop[OF Cons.prems(1)])
  have l: "live (foldl (\<lambda>t wid. rt_stop wid t) ?t ws) n" using Cons.prems(2) by simp
  note IH = Cons.IH[OF inv l]
  have t: "live ?t n" using IH by blast
  note s = live_stop[OF t]
  have "obj_id ?t n \<noteq> w"
    using stop_stops[OF Cons.prems(1), of n w] live_running[OF inv t] t by (simp add: live_def)
  then show ?case using IH s by simp
qed simp

text \<open>C29. Leases are enforced on every process there is. In every run of a runtime, a process that has been spawned and is
  neither killed nor exited is the registered, running instance of its id; after a sweep none is left whose lease
  has ended, and after the agent closes none is left at all.\<close>
lemma runtime_lease_enforced:
  assumes "rt_reachable k c s"
  shows "(live s n \<longrightarrow> rt_status s (obj_id s n) = Some VmRunning \<and> map_of (py_instances s) (obj_id s n) = Some n)
    \<and> (live (rt_sweep now s) n \<longrightarrow> now < rs_leaseExpiresAt (io_spec (py_objs s n)))
    \<and> \<not> live (rt_close s) n"
proof (intro conjI impI notI)
  note inv = rt_reachable_inv[OF assms]
  {
    assume "live s n"
    note l = live_running[OF inv this]
    then show "rt_status s (obj_id s n) = Some VmRunning" by (simp add: rt_status_def)
    show "map_of (py_instances s) (obj_id s n) = Some n" using l by simp
  }
  {
    assume "live (rt_sweep now s) n"
    note ls = live_stops[OF inv this[unfolded rt_sweep_def]]
    have l: "live s n" using ls by blast
    note r = live_running[OF inv l]
    show "now < rs_leaseExpiresAt (io_spec (py_objs s n))"
    proof (rule ccontr)
      assume "\<not> ?thesis"
      then have "(obj_id s n, n) \<in> set (filter (\<lambda>(wid, n). running s n \<and> rs_leaseExpiresAt (io_spec (py_objs s n)) \<le> now) (py_instances s))"
        using r map_of_SomeD[of "py_instances s" "obj_id s n" n] by (simp only: set_filter mem_Collect_eq case_prod_conv) simp
      then have "obj_id s n \<in> fst ` set (filter (\<lambda>(wid, n). running s n \<and> rs_leaseExpiresAt (io_spec (py_objs s n)) \<le> now) (py_instances s))"
        by (rule image_eqI[rotated]) (simp only: fst_conv)
      then show False using ls by simp
    qed
  }
  {
    assume "live (rt_close s) n"
    note ls = live_stops[OF inv this[unfolded rt_close_def]]
    have "live s n" using ls by blast
    then have "obj_id s n \<in> fst ` set (py_instances s)" using live_running[OF inv] map_of_SomeD by (metis fst_conv image_eqI)
    then show False using ls by simp
  }
qed

text \<open>C28. A volume that is destroyed is in use by no process. In every run, \<open>destroyVolume\<close> goes on to remove the directory of a
  volume only if no process that is alive was created with that volume, and it refuses with 409 as long as one is.\<close>
lemma runtime_volume_safe:
  assumes "rt_reachable k c s"
  shows "(case destroyVolume c volumeId s of
      Inr directory \<Rightarrow> (\<forall>n. live s n \<longrightarrow> rt_volumeId (rs_storage (io_spec (py_objs s n))) \<noteq> Some volumeId)
        \<and> volumeDirectory (cfg_dataDir c) volumeId = Inr directory
    | Inl _ \<Rightarrow> True)
    \<and> ((\<exists>n. live s n \<and> rt_volumeId (rs_storage (io_spec (py_objs s n))) = Some volumeId) \<longrightarrow>
         destroyVolume c volumeId s = Inl (RuntimeDataError 409))"
proof -
  note inv = rt_reachable_inv[OF assms]
  have used: "destroyVolume c volumeId s = Inl (RuntimeDataError 409)"
    if "live s n" "rt_volumeId (rs_storage (io_spec (py_objs s n))) = Some volumeId" for n
  proof -
    note r = live_running[OF inv that(1)]
    then have "(obj_id s n, rs_storage (io_spec (py_objs s n))) \<in> set (py_storage s)" by (simp add: map_of_SomeD)
    moreover have "rt_status s (obj_id s n) = Some VmRunning" using r by (simp add: rt_status_def)
    ultimately have "list_ex (\<lambda>(wid, st). rt_volumeId st = Some volumeId \<and> rt_status s wid = Some VmRunning) (py_storage s)"
      using that(2) by (auto simp: list_ex_iff)
    then show ?thesis by (simp add: destroyVolume_def)
  qed
  then show ?thesis
    by (cases "destroyVolume c volumeId s") (auto simp: destroyVolume_def split: if_splits)
qed

section \<open>A sample run\<close>

definition sample_storage :: runtime_storage where
  "sample_storage = \<lparr>rt_mode = Persistent, rt_volumeId = Some ''2b2a5c3e-1111-4222-8333-444455556666'', rt_quotaBytes = 16777216\<rparr>"

definition sample_spec :: runtime_spec where
  "sample_spec = \<lparr>rs_id = ''aaaaaaaa-1111-4222-8333-444455556666'', rs_leaseExpiresAt = 1000, rs_storage = sample_storage, rs_identity = None\<rparr>"

definition sample_created :: "config \<Rightarrow> pty" where
  "sample_created c = snd (process_create c 5 sample_spec new_pty)"

definition sample_running :: "config \<Rightarrow> pty" where
  "sample_running c = rt_spawned ProcessKind True sample_spec (sample_created c)"

lemma sample_uuids: "is_uuid4 ''2b2a5c3e-1111-4222-8333-444455556666''" "is_uuid4 ''aaaaaaaa-1111-4222-8333-444455556666''"
  by code_simp+

lemma sample_created_eq:
  "process_create c 5 sample_spec new_pty = (Awaits, new_pty\<lparr>py_storage := [(rs_id sample_spec, sample_storage)], py_pending := [sample_spec]\<rparr>)"
  using sample_uuids
  by (simp add: process_create_def validateStorage_process_def super_create_def volumeDirectory_def new_pty_def sample_spec_def sample_storage_def
      is_safe_integer_def max_safe_integer_def Let_def)

lemma sample_created_new: "sample_created c = new_pty\<lparr>py_storage := [(rs_id sample_spec, sample_storage)], py_pending := [sample_spec]\<rparr>"
  by (simp add: sample_created_def sample_created_eq)

lemma sample_run:
  "rt_reachable ProcessKind c (sample_running c) \<and> live (sample_running c) 0 \<and> io_spec (py_objs (sample_running c) 0) = sample_spec"
proof -
  have "rt_step ProcessKind c new_pty (sample_created c)"
    by (rule rt_step.create[where spec = sample_spec and now = 5 and r = Awaits])
       (simp_all add: fresh_id_def rt_create_def sample_created_eq sample_created_new, simp_all add: new_pty_def)
  then have 1: "rt_reachable ProcessKind c (sample_created c)" using rt_reachable.step[OF rt_reachable.start] by blast
  have "sample_spec \<in> set (py_pending (sample_created c))" by (simp add: sample_created_def sample_created_eq)
  then have "rt_step ProcessKind c (sample_created c) (sample_running c)" unfolding sample_running_def by (rule rt_step.spawned)
  then have "rt_reachable ProcessKind c (sample_running c)" using rt_reachable.step[OF 1] by blast
  then show ?thesis
    by (simp add: sample_running_def rt_spawned_def Let_def live_def sample_created_new new_pty_def)
qed

lemma runtime_lease_enforced_witness:
  "\<forall>c. live (sample_running c) 0 \<and> \<not> live (rt_sweep 1000 (sample_running c)) 0 \<and> \<not> live (rt_close (sample_running c)) 0"
proof
  fix c
  have "rs_leaseExpiresAt (io_spec (py_objs (sample_running c) 0)) = 1000" using sample_run[of c] by (simp add: sample_spec_def)
  then show "live (sample_running c) 0 \<and> \<not> live (rt_sweep 1000 (sample_running c)) 0 \<and> \<not> live (rt_close (sample_running c)) 0"
    using runtime_lease_enforced[of ProcessKind c "sample_running c" 0 1000] sample_run[of c] by simp
qed

lemma runtime_volume_safe_witness:
  "\<forall>c. destroyVolume c ''2b2a5c3e-1111-4222-8333-444455556666'' (sample_running c) = Inl (RuntimeDataError 409)"
proof
  fix c
  have "live (sample_running c) 0 \<and> rt_volumeId (rs_storage (io_spec (py_objs (sample_running c) 0))) = Some ''2b2a5c3e-1111-4222-8333-444455556666''"
    using sample_run[of c] by (simp add: sample_spec_def sample_storage_def)
  then show "destroyVolume c ''2b2a5c3e-1111-4222-8333-444455556666'' (sample_running c) = Inl (RuntimeDataError 409)"
    using runtime_volume_safe[of ProcessKind c "sample_running c" "''2b2a5c3e-1111-4222-8333-444455556666''"] sample_run[of c] by blast
qed

text \<open>
  The ids must be fresh. A second request to create a running workspace, with other storage, is answered like the
  first; but it has replaced the storage of the id, after which the volume the process works on can be destroyed
  under it.
\<close>

lemma recreate_detaches_volume:
  "\<exists>spec s'. rs_id spec = rs_id sample_spec \<and> process_create c 5 spec (sample_running c) = (Already, s') \<and> live s' 0
     \<and> destroyVolume c ''2b2a5c3e-1111-4222-8333-444455556666'' s' = Inr (join [cfg_dataDir c, ''volumes'', ''2b2a5c3e-1111-4222-8333-444455556666''])"
proof -
  let ?spec = "sample_spec\<lparr>rs_storage := \<lparr>rt_mode = Disposable, rt_volumeId = None, rt_quotaBytes = 1\<rparr>\<rparr>"
  have "\<exists>s'. process_create c 5 ?spec (sample_running c) = (Already, s') \<and> live s' 0
     \<and> destroyVolume c ''2b2a5c3e-1111-4222-8333-444455556666'' s' = Inr (join [cfg_dataDir c, ''volumes'', ''2b2a5c3e-1111-4222-8333-444455556666''])"
    using sample_uuids
    by (simp add: process_create_def validateStorage_process_def super_create_def volumeDirectory_def sample_running_def rt_spawned_def Let_def
        sample_created_new new_pty_def sample_spec_def sample_storage_def is_safe_integer_def max_safe_integer_def live_def
        destroyVolume_def rt_status_def)
  then show ?thesis by (intro exI[of _ ?spec]) simp
qed

text \<open>Two creations of one id that overlap leave a process that no sweep and no stop can reach.\<close>

lemma concurrent_creates_orphan:
  "\<exists>s'. s' = rt_spawned ProcessKind True sample_spec (rt_spawned ProcessKind True sample_spec
        (snd (process_create c 5 sample_spec (snd (process_create c 5 sample_spec new_pty)))))
     \<and> live s' 0 \<and> live s' 1 \<and> map_of (py_instances s') (rs_id sample_spec) = Some 1 \<and> live (rt_close s') 0"
  using sample_uuids
  by (simp add: sample_created_eq)
     (simp add: process_create_def validateStorage_process_def super_create_def volumeDirectory_def rt_spawned_def Let_def
      new_pty_def sample_spec_def sample_storage_def is_safe_integer_def max_safe_integer_def live_def rt_close_def rt_stop_def
      forgetLater_def emit_def set_obj_def)

section \<open>What a terminal shows\<close>

definition received :: "nat \<Rightarrow> (nat \<times> terminal_message) list \<Rightarrow> string" where
  "received l sent = concat (map (\<lambda>(m, x). case x of Output d \<Rightarrow> if m = l then d else [] | Closed \<Rightarrow> []) sent)"

lemma received_append [simp]: "received l (xs @ ys) = received l xs @ received l ys"
  by (simp add: received_def)

lemma received_listeners: "distinct ls \<Longrightarrow> received l (map (\<lambda>m. (m, Output d)) ls) = (if l \<in> set ls then d else [])"
  by (induction ls) (auto simp: received_def)

lemma last_n_window: "last_n n (last_n n xs @ ys) = last_n n (xs @ ys)"
  by (cases "n \<le> length xs") (simp_all add: last_n_def add.commute)

lemma data_run_history:
  "io_history (py_objs (foldl (\<lambda>t d. rt_data n d t) s ds) n) = (if ds = [] then io_history (py_objs s n)
     else last_n MAX_HISTORY (io_history (py_objs s n) @ concat ds))
   \<and> io_state (py_objs (foldl (\<lambda>t d. rt_data n d t) s ds) n) = io_state (py_objs s n)
   \<and> io_listeners (py_objs (foldl (\<lambda>t d. rt_data n d t) s ds) n) = io_listeners (py_objs s n)
   \<and> py_instances (foldl (\<lambda>t d. rt_data n d t) s ds) = py_instances s"
proof (induction ds arbitrary: s)
  case (Cons d ds)
  show ?case using Cons.IH[of "rt_data n d s"] by (simp add: rt_data_def rt_sels last_n_window)
qed simp

lemma data_run_sent:
  assumes "distinct (io_listeners (py_objs s n))" "l \<in> set (io_listeners (py_objs s n))"
  shows "\<exists>more. py_sent (foldl (\<lambda>t d. rt_data n d t) s ds) = py_sent s @ more \<and> received l more = concat ds"
  using assms
proof (induction ds arbitrary: s)
  case Nil
  then show ?case by (simp add: received_def)
next
  case (Cons d ds)
  let ?t = "rt_data n d s"
  have t: "io_listeners (py_objs ?t n) = io_listeners (py_objs s n)" by (simp add: rt_data_def rt_sels)
  obtain more where m: "py_sent (foldl (\<lambda>t d. rt_data n d t) ?t ds) = py_sent ?t @ more" "received l more = concat ds"
    using Cons.IH[of ?t] Cons.prems t by auto
  have "py_sent ?t = py_sent s @ map (\<lambda>m. (m, Output d)) (io_listeners (py_objs s n))" by (simp add: rt_data_def rt_sels)
  then show ?case using m received_listeners[OF Cons.prems(1), of l d] Cons.prems(2)
    by (intro exI[of _ "map (\<lambda>m. (m, Output d)) (io_listeners (py_objs s n)) @ more"]) simp
qed

text \<open>A terminal that attaches late misses nothing of the window and sees nothing twice. Whatever chunks a process
  writes before and after a client attaches, the client receives the last 256 Ki characters written before, then
  all that is written later, without a gap.\<close>
lemma terminal_replay:
  assumes "map_of (py_instances s) wid = Some n" "running s n" "io_history (py_objs s n) = []"
    and "distinct (io_listeners (py_objs s n))" "l \<notin> set (io_listeners (py_objs s n))"
    and "rt_attach l wid (foldl (\<lambda>t d. rt_data n d t) s before) = Inr s2"
  shows "received l (drop (length (py_sent (foldl (\<lambda>t d. rt_data n d t) s before))) (py_sent (foldl (\<lambda>t d. rt_data n d t) s2 later)))
    = last_n MAX_HISTORY (concat before) @ concat later"
proof -
  let ?s1 = "foldl (\<lambda>t d. rt_data n d t) s before"
  note h = data_run_history[of n s before]
  have hist: "io_history (py_objs ?s1 n) = last_n MAX_HISTORY (concat before)" using h assms(3) by (simp add: last_n_def)
  let ?h = "io_history (py_objs ?s1 n)"
  have s2: "s2 = set_obj n (\<lambda>i. i\<lparr>io_listeners := io_listeners i @ [l]\<rparr>) (?s1\<lparr>py_sent := py_sent ?s1 @ (if ?h = [] then [] else [(l, Output ?h)])\<rparr>)"
  proof -
    have "map_of (py_instances ?s1) wid = Some n" "running ?s1 n" using h assms(1,2) by simp_all
    then show ?thesis using assms(6) by (simp add: rt_attach_def Let_def)
  qed
  have ls: "io_listeners (py_objs s2 n) = io_listeners (py_objs s n) @ [l]" unfolding s2 using h by (simp add: set_obj_def)
  obtain more where m: "py_sent (foldl (\<lambda>t d. rt_data n d t) s2 later) = py_sent s2 @ more" "received l more = concat later"
    using data_run_sent[of s2 n l later] ls assms(4,5) by auto
  have "py_sent s2 = py_sent ?s1 @ (if ?h = [] then [] else [(l, Output ?h)])" unfolding s2 by (simp add: set_obj_def)
  moreover have "received l (if ?h = [] then [] else [(l, Output ?h)]) = ?h" by (simp add: received_def)
  ultimately show ?thesis using m hist by simp
qed

lemma terminal_replay_witness:
  "\<forall>c. \<exists>s2. rt_attach 7 (rs_id sample_spec) (foldl (\<lambda>t d. rt_data 0 d t) (sample_running c) [''ab'', ''c'']) = Inr s2
     \<and> received 7 (drop (length (py_sent (foldl (\<lambda>t d. rt_data 0 d t) (sample_running c) [''ab'', ''c''])))
          (py_sent (foldl (\<lambda>t d. rt_data 0 d t) s2 [''d'']))) = ''abcd''"
proof
  fix c
  let ?s = "sample_running c" let ?s1 = "foldl (\<lambda>t d. rt_data 0 d t) ?s [''ab'', ''c'']"
  have i: "map_of (py_instances ?s) (rs_id sample_spec) = Some 0" "running ?s 0" "io_history (py_objs ?s 0) = []" "io_listeners (py_objs ?s 0) = []"
    by (simp_all add: sample_running_def rt_spawned_def Let_def sample_created_new new_pty_def)
  note h = data_run_history[of 0 ?s "[''ab'', ''c'']"]
  obtain s2 where a: "rt_attach 7 (rs_id sample_spec) ?s1 = Inr s2"
    using h i by (simp add: rt_attach_def Let_def)
  have "last_n MAX_HISTORY (concat [''ab'', ''c'']) @ concat [''d''] = ''abcd''" by code_simp
  then show "\<exists>s2. rt_attach 7 (rs_id sample_spec) ?s1 = Inr s2
     \<and> received 7 (drop (length (py_sent ?s1)) (py_sent (foldl (\<lambda>t d. rt_data 0 d t) s2 [''d'']))) = ''abcd''"
    using terminal_replay[OF i(1-3) _ _ a, of "[''d'']"] a i(4) by auto
qed

section \<open>Input to a Firecracker machine\<close>

text \<open>
  The queue of a Firecracker terminal. \<open>ft_socket\<close> says whether there is a socket and whether it is writable,
  \<open>ft_sent\<close> is what has been written to sockets. A write that finds the queue full throws after it has appended.
\<close>

record fc_terminal =
  ft_state :: vm_state
  ft_socket :: "bool option"
  ft_connecting :: bool
  ft_pendingInput :: string
  ft_sent :: string

definition connectTerminal :: "fc_terminal \<Rightarrow> fc_terminal" where
  "connectTerminal t = (if ft_socket t \<noteq> None \<or> ft_connecting t \<or> ft_state t \<noteq> VmRunning then t else t\<lparr>ft_connecting := True\<rparr>)"

definition fc_write :: "string \<Rightarrow> fc_terminal \<Rightarrow> runtime_error option \<times> fc_terminal" where
  "fc_write d t =
     (if 64 * 1024 < utf8_len d then (Some PlainError, t)
      else if ft_state t \<noteq> VmRunning then (Some PlainError, t)
      else if ft_socket t = Some True then (None, t\<lparr>ft_sent := ft_sent t @ d\<rparr>)
      else let t1 = t\<lparr>ft_pendingInput := ft_pendingInput t @ d\<rparr>
           in if 64 * 1024 < utf8_len (ft_pendingInput t1) then (Some PlainError, t1) else (None, connectTerminal t1))"

text \<open>The handshake succeeded; the socket closed; the socket is no longer writable; an error, and the timer it sets.\<close>

definition fc_connected :: "fc_terminal \<Rightarrow> fc_terminal" where
  "fc_connected t = t\<lparr>ft_connecting := False, ft_socket := Some True, ft_sent := ft_sent t @ ft_pendingInput t, ft_pendingInput := []\<rparr>"

definition fc_closed :: "fc_terminal \<Rightarrow> fc_terminal" where
  "fc_closed t = t\<lparr>ft_connecting := False, ft_socket := None\<rparr>"

definition fc_ended :: "fc_terminal \<Rightarrow> fc_terminal" where
  "fc_ended t = t\<lparr>ft_socket := map_option (\<lambda>_. False) (ft_socket t)\<rparr>"

definition fc_error :: "fc_terminal \<Rightarrow> fc_terminal" where
  "fc_error t = t\<lparr>ft_connecting := False\<rparr>"

definition fc_stopped :: "vm_state \<Rightarrow> fc_terminal \<Rightarrow> fc_terminal" where
  "fc_stopped st t = (if st = VmRunning then t else t\<lparr>ft_state := st\<rparr>)"

text \<open>A run, with the data of every write it took and whether that write threw.\<close>

inductive fc_run :: "(string \<times> bool) list \<Rightarrow> fc_terminal \<Rightarrow> bool" where
  "fc_run [] \<lparr>ft_state = VmRunning, ft_socket = None, ft_connecting = False, ft_pendingInput = [], ft_sent = []\<rparr>"
| "fc_run ws t \<Longrightarrow> utf8_len d \<le> 64 * 1024 \<Longrightarrow> ft_state t = VmRunning \<Longrightarrow> fc_write d t = (e, t') \<Longrightarrow> fc_run (ws @ [(d, e \<noteq> None)]) t'"
| "fc_run ws t \<Longrightarrow> fc_run ws (connectTerminal t)"
| "fc_run ws t \<Longrightarrow> ft_connecting t \<Longrightarrow> fc_run ws (fc_connected t)"
| "fc_run ws t \<Longrightarrow> fc_run ws (fc_closed t)"
| "fc_run ws t \<Longrightarrow> fc_run ws (fc_ended t)"
| "fc_run ws t \<Longrightarrow> fc_run ws (fc_error t)"
| "fc_run ws t \<Longrightarrow> fc_run ws (fc_stopped st t)"

text \<open>Input reaches a Firecracker machine in order, once. In every run, through refused connections, closed sockets
  and reconnects, what has been written to the guest followed by what is queued is all the input taken so far, in
  the order it was typed, and nothing is queued while a writable socket is there. (Input whose write was reported
  as failed because the queue was full is part of it.)\<close>
lemma fc_input_order:
  assumes "fc_run ws t"
  shows "ft_sent t @ ft_pendingInput t = concat (map fst ws) \<and> (ft_socket t = Some True \<longrightarrow> ft_pendingInput t = [])"
  using assms
proof (induction rule: fc_run.induct)
  case (2 ws t d e t')
  then show ?case by (auto simp: fc_write_def connectTerminal_def Let_def split: if_splits)
qed (auto simp: connectTerminal_def fc_connected_def fc_closed_def fc_ended_def fc_error_def fc_stopped_def)

lemma fc_input_order_witness:
  "\<exists>t t'. snd (fc_write ''ls'' t) = t' \<and> ft_sent (fc_connected t') @ ft_pendingInput (fc_connected t') = ''ls''"
proof -
  define t :: fc_terminal where "t = \<lparr>ft_state = VmRunning, ft_socket = None, ft_connecting = False, ft_pendingInput = [], ft_sent = []\<rparr>"
  have r0: "fc_run [] t" unfolding t_def by (rule fc_run.intros(1))
  have len: "utf8_len ''ls'' \<le> 64 * 1024" "utf8_len [] = 0" by code_simp+
  obtain e t' where w: "fc_write ''ls'' t = (e, t')" by (cases "fc_write ''ls'' t")
  have r1: "fc_run [(''ls'', e \<noteq> None)] t'"
    using fc_run.intros(2)[OF r0 len(1) _ w] by (simp add: t_def)
  have "ft_connecting t'" using w len by (auto simp: t_def fc_write_def connectTerminal_def Let_def)
  from fc_input_order[OF fc_run.intros(4)[OF r1 this]] w show ?thesis by (intro exI[of _ t] exI[of _ t']) simp
qed

text \<open>The limit of the queue does not hold it: a machine whose terminal never answers queues every further write.\<close>

lemma code_a: "code CHR ''a'' < 128" by code_simp

lemma fc_queue_unbounded:
  "\<exists>ws t. fc_run ws t \<and> length (ft_pendingInput t) = k * 65536 \<and> ft_socket t = None \<and> ft_state t = VmRunning
     \<and> length (filter snd ws) = k - 1"
proof (induction k)
  case 0
  show ?case by (rule exI[of _ "[]"], rule exI, intro conjI, rule fc_run.intros(1)) simp_all
next
  case (Suc k)
  then obtain ws t where t: "fc_run ws t" "length (ft_pendingInput t) = k * 65536" "ft_socket t = None" "ft_state t = VmRunning"
    "length (filter snd ws) = k - 1" by blast
  let ?d = "replicate 65536 (CHR ''a'')"
  have len: "utf8_len ?d = 65536" using utf8_len_ascii[of ?d] by (simp add: code_a)
  obtain e t' where w: "fc_write ?d t = (e, t')" by (cases "fc_write ?d t")
  have t': "ft_pendingInput t' = ft_pendingInput t @ ?d" "ft_socket t' = None" "ft_state t' = VmRunning"
    using w t(3,4) len by (auto simp: fc_write_def Let_def connectTerminal_def split: if_splits)
  have e: "e \<noteq> None \<longleftrightarrow> 65536 < utf8_len (ft_pendingInput t @ ?d)"
    using w t(3,4) len by (auto simp: fc_write_def Let_def split: if_splits)
  have "fc_run (ws @ [(?d, e \<noteq> None)]) t'" by (rule fc_run.intros(2)[OF t(1) _ t(4) w]) (simp add: len)
  moreover have "e \<noteq> None \<longleftrightarrow> 0 < k"
    using e t(2) len length_le_utf8_len[of "ft_pendingInput t"] by (cases k) (auto simp: utf8_len_simps)
  ultimately show ?case using t'(1-3) t(2,5)
    by (intro exI[of _ "ws @ [(?d, e \<noteq> None)]"] exI[of _ t']) (cases k; simp)
qed

section \<open>The mock ceremony of the process runtime\<close>

text \<open>
  \<open>src/agent/mock-ceremony.ts\<close> and \<open>ProcessRuntime.guestRequest\<close> without a real Bloom. \<open>sha256\<close> is a parameter.
\<close>

record mock_request =
  mk_workspaceId :: string
  mk_txId :: string
  mk_chain :: string
  mk_wallet :: string
  mk_planMd :: string

record ceremony_view =
  cv_id :: string
  cv_chain :: string
  cv_wallet :: string
  cv_planMd :: string
  cv_ceremonyUrl :: "string option"
  cv_challenge :: string
  cv_intent :: "string option"
  cv_signing :: string

type_synonym mock_store = "(string \<times> mock_request) list"

definition mock_seed :: "mock_request \<Rightarrow> mock_store \<Rightarrow> mock_store" where
  "mock_seed r store = AList.update (mk_txId r) r store"

definition challengeFor :: "(string \<Rightarrow> octets) \<Rightarrow> mock_request \<Rightarrow> string" where
  "challengeFor sha256 r = base64_encode (take 32 (sha256 (mk_txId r @ '':'' @ mk_planMd r)))"

definition mock_view :: "(string \<Rightarrow> octets) \<Rightarrow> mock_request \<Rightarrow> ceremony_view" where
  "mock_view sha256 r =
     \<lparr>cv_id = mk_txId r, cv_chain = mk_chain r, cv_wallet = mk_wallet r, cv_planMd = mk_planMd r, cv_ceremonyUrl = None,
      cv_challenge = challengeFor sha256 r, cv_intent = None, cv_signing = ''ceremony''\<rparr>"

definition mock_pending :: "(string \<Rightarrow> octets) \<Rightarrow> string \<Rightarrow> mock_store \<Rightarrow> ceremony_view list" where
  "mock_pending sha256 wid store =
     map (mock_view sha256) (filter (\<lambda>r. mk_workspaceId r = wid) (map snd store))"

definition mock_approve :: "string \<Rightarrow> string \<Rightarrow> mock_store \<Rightarrow> bool \<times> mock_store" where
  "mock_approve wid tx store =
     (case map_of store tx of
        None \<Rightarrow> (False, store)
      | Some r \<Rightarrow> if mk_workspaceId r \<noteq> wid then (False, store) else (True, AList.delete tx store))"

definition seedMockCeremony :: "runtime_spec \<Rightarrow> mock_store \<Rightarrow> mock_store" where
  "seedMockCeremony spec store =
     mock_seed \<lparr>mk_workspaceId = rs_id spec, mk_txId = ''dev_mock_'' @ rs_id spec, mk_chain = ''8453'',
       mk_wallet = (case rs_identity spec of None \<Rightarrow> ''0x0000000000000000000000000000000000000000'' | Some w \<Rightarrow> w),
       mk_planMd = ''# Dev mock transaction'' @ [CHR 0x0A, CHR 0x0A]
         @ ''Seeded by BLOOM_DEV_MOCK_CEREMONY=1. Approve to exercise the relay end to end without KVM.'' @ [CHR 0x0A]\<rparr> store"

datatype process_reply = PendingRequests "ceremony_view list" | Approved

definition process_guestRequest ::
  "(string \<Rightarrow> octets) \<Rightarrow> bool \<Rightarrow> string \<Rightarrow> guest_operation \<Rightarrow> pty \<Rightarrow> mock_store \<Rightarrow> (runtime_error, process_reply) res \<times> mock_store" where
  "process_guestRequest sha256 mockCeremony wid operation s store =
     (if rt_status s wid \<noteq> Some VmRunning then (Inl (RuntimeDataError 409), store)
      else if \<not> mockCeremony then (Inl (RuntimeDataError 501), store)
      else case operation of
        CeremonyPending \<Rightarrow> (Inr (PendingRequests (mock_pending sha256 wid store)), store)
      | CeremonyApprove tx assertion \<Rightarrow>
          (case mock_approve wid tx store of
             (True, store') \<Rightarrow> (Inr Approved, store')
           | (False, store') \<Rightarrow> (Inl (RuntimeDataError 404), store'))
      | _ \<Rightarrow> (Inl (RuntimeDataError 501), store))"

text \<open>A workspace sees its own requests only, and approving resolves one of its own, once.\<close>

lemma mock_pending_own:
  "v \<in> set (mock_pending sha256 wid store) \<Longrightarrow> \<exists>q \<in> snd ` set store. mk_workspaceId q = wid \<and> v = mock_view sha256 q"
  by (auto simp: mock_pending_def)

lemma mock_approve_own:
  "mock_approve wid tx store = (True, store')
     \<longleftrightarrow> (\<exists>q. map_of store tx = Some q \<and> mk_workspaceId q = wid) \<and> store' = AList.delete tx store"
  by (auto simp: mock_approve_def split: option.splits)

lemma mock_approve_refused: "mock_approve wid tx store = (False, store') \<Longrightarrow> store' = store"
  by (auto simp: mock_approve_def split: option.splits if_splits)

lemma mock_approve_once: "mock_approve wid tx store = (True, store') \<Longrightarrow> fst (mock_approve wid tx store') = False"
  by (auto simp: mock_approve_def delete_conv split: option.splits if_splits)

text \<open>Approval on the process runtime cannot cross workspaces. Whatever a request asks of the mock ceremony store,
  every entry of another workspace is still there afterwards, and an entry that disappears was approved by name by
  its own workspace.\<close>
lemma mock_ceremony_isolated:
  assumes "process_guestRequest sha256 mock wid operation s store = (r, store')" "map_of store tx = Some q"
  shows "map_of store' tx = Some q \<or> (map_of store' tx = None \<and> mk_workspaceId q = wid \<and> r = Inr Approved
    \<and> (\<exists>assertion. operation = CeremonyApprove tx assertion))"
proof (cases "\<exists>t a. operation = CeremonyApprove t a")
  case False
  then have "store' = store"
    using assms(1) by (cases operation) (auto simp: process_guestRequest_def split: if_splits)
  then show ?thesis using assms(2) by simp
next
  case True
  then obtain t a where o: "operation = CeremonyApprove t a" by blast
  obtain ok st where m: "mock_approve wid t store = (ok, st)" by (cases "mock_approve wid t store")
  show ?thesis
  proof (cases "ok \<and> store' \<noteq> store")
    case True
    then have r: "r = Inr Approved" "store' = st" and ok: "ok"
      using assms(1) o m by (auto simp: process_guestRequest_def split: if_splits)
    obtain p where p: "map_of store t = Some p" "mk_workspaceId p = wid" and st: "st = AList.delete t store"
      using mock_approve_own[of wid t store st] m ok by auto
    have "map_of st tx = (if tx = t then None else map_of store tx)" unfolding st delete_conv by simp
    then show ?thesis using r o p assms(2) by (cases "tx = t") auto
  next
    case False
    then have "store' = store"
      using assms(1) o m mock_approve_refused[of wid t store st] by (auto simp: process_guestRequest_def split: if_splits bool.splits)
    then show ?thesis using assms(2) by simp
  qed
qed

end
