(* ===== verification/AgentServer.thy ===== *)
theory AgentServer
  imports Runtimes SshLeases SshPlans Jobs Auth
begin

text \<open>
  \<open>src/agent/server.ts\<close>: the node agent, between a runtime (\<open>WorkspaceRuntime\<close>, an interface: its operations are
  arguments here and the locale \<open>workspace_runtime\<close> states what is relied on) and the SSH gateway; with
  \<open>src/ssh/api.ts\<close> and \<open>src/guest/results.ts\<close>.

  The state of the server is the map \<open>connections\<close>, which has an entry for every workspace whose guest has set up
  SSH. Handlers are cut at their awaits: creating waits for the runtime and then for the guest, issuing for the
  signer, opening a tunnel for the connector. Other handlers, the sweepers and the runtime run in between.

  Express, \<open>ws\<close>, the URL parser and the socket file are left out.
\<close>

section \<open>Bodies\<close>

definition GiB5 :: int where "GiB5 = 5 * 1024 * 1024 * 1024"

definition Storage :: "(string \<Rightarrow> bool) \<Rightarrow> runtime_storage \<Rightarrow> bool" where
  "Storage is_uuid st \<longleftrightarrow>
     (case rt_mode st of
        Disposable \<Rightarrow> rt_volumeId st = None \<and> int_between 1 GiB5 (rt_quotaBytes st)
      | Persistent \<Rightarrow> (\<exists>v. rt_volumeId st = Some v \<and> is_uuid v) \<and> int_between (16 * 1024 * 1024) GiB5 (rt_quotaBytes st))"

definition CreateWorkspaceBody :: "(string \<Rightarrow> bool) \<Rightarrow> runtime_spec \<Rightarrow> bool" where
  "CreateWorkspaceBody is_uuid spec \<longleftrightarrow>
     is_uuid (rs_id spec) \<and> int_between 1 max_safe_integer (rs_leaseExpiresAt spec) \<and> Storage is_uuid (rs_storage spec)
     \<and> (case rs_identity spec of None \<Rightarrow> True | Some w \<Rightarrow> full evm_address_rx w)"

definition PublicKey :: "(octets \<Rightarrow> octets) \<Rightarrow> string \<Rightarrow> string option" where
  "PublicKey sha256 v =
     (if length v < 32 \<or> 4096 < length v then None
      else case parseSshPublicKey sha256 v of Inl _ \<Rightarrow> None | Inr k \<Rightarrow> Some (sk_normalized k))"

record ssh_lease_body =
  sb_publicKey :: string
  sb_mode :: string
  sb_requestedTtlMs :: "int option"

definition SshLeaseBody :: "(octets \<Rightarrow> octets) \<Rightarrow> ssh_lease_body \<Rightarrow> ssh_lease_body option" where
  "SshLeaseBody sha256 b =
     (case PublicKey sha256 (sb_publicKey b) of
        None \<Rightarrow> None
      | Some key \<Rightarrow>
          if (sb_mode b = ''shell'' \<or> sb_mode b = ''nfs'')
             \<and> (case sb_requestedTtlMs b of None \<Rightarrow> True | Some n \<Rightarrow> int_between 5000 max_safe_integer n)
          then Some (b\<lparr>sb_publicKey := key\<rparr>) else None)"

text \<open>The reply of \<open>connections.configure\<close>: \<open>ssh.available\<close> is the literal true and \<open>ssh.port\<close> is 22.\<close>

record guest_connection =
  gc_workspaceId :: string
  gc_hostKey :: string
  gc_nfsAvailable :: bool
  gc_nfsPort :: "int option"

definition GuestConnectionStatus :: "(octets \<Rightarrow> octets) \<Rightarrow> (string \<Rightarrow> bool) \<Rightarrow> guest_connection \<Rightarrow> guest_connection option" where
  "GuestConnectionStatus sha256 is_uuid g =
     (case PublicKey sha256 (gc_hostKey g) of
        None \<Rightarrow> None
      | Some key \<Rightarrow>
          if is_uuid (gc_workspaceId g) \<and> (gc_nfsPort g = None \<or> gc_nfsPort g = Some 2049)
             \<and> gc_nfsAvailable g = (gc_nfsPort g = Some 2049)
          then Some (g\<lparr>gc_hostKey := key\<rparr>) else None)"

record bloom_status =
  bs_available :: bool
  bs_mountPath :: string
  bs_mounted :: bool
  bs_identity :: "(string \<times> string) option"
  bs_walletSigning :: bool
  bs_transactions :: bool
  bs_helper :: "string \<times> int"

definition BloomGuestStatus :: "bloom_status \<Rightarrow> bool" where
  "BloomGuestStatus s \<longleftrightarrow> bs_mountPath s = ''/bloom''
     \<and> (case bs_identity s of None \<Rightarrow> True | Some (kind, a) \<Rightarrow> kind = ''watch'' \<and> full evm_address_rx a)
     \<and> \<not> bs_walletSigning s \<and> \<not> bs_transactions s \<and> bs_helper s = (''bloom-workspace'', 1)
     \<and> (bs_available s \<longrightarrow> bs_identity s \<noteq> None)"

section \<open>Errors, authentication, capabilities\<close>

datatype agent_error =
    ZodError
  | RuntimeFailed runtime_error
  | GuestFailed guest_code
  | ParserError nat
  | OtherError

text \<open>The error handler.\<close>

definition guest_error_status :: "guest_code \<Rightarrow> nat" where
  "guest_error_status e =
     (case e of guest_code.NotFound \<Rightarrow> 404 | Conflict \<Rightarrow> 409 | LimitExceeded \<Rightarrow> 413 | PermissionDenied \<Rightarrow> 403
        | Unavailable \<Rightarrow> 501 | Transport \<Rightarrow> 501 | _ \<Rightarrow> 400)"

definition agent_status :: "agent_error \<Rightarrow> nat" where
  "agent_status err =
     (case err of ZodError \<Rightarrow> 400
        | RuntimeFailed (RuntimeDataError status) \<Rightarrow> status
        | GuestFailed e \<Rightarrow> guest_error_status e
        | ParserError status \<Rightarrow> status
        | _ \<Rightarrow> 500)"

definition bearer :: "string option \<Rightarrow> string" where
  "bearer authorization = (case authorization of None \<Rightarrow> [] | Some v \<Rightarrow> if starts_with v ''Bearer '' then drop 7 v else v)"

definition agent_authorized :: "config \<Rightarrow> string option \<Rightarrow> bool" where
  "agent_authorized c authorization \<longleftrightarrow> safeEqual (bearer authorization) (cfg_agentToken c)"

text \<open>What a runtime has: \<open>dataCapabilities\<close>, and which of the optional methods.\<close>

record data_capabilities =
  dc_persistence :: bool
  dc_fileTransfer :: bool

record runtime_methods =
  rm_dataCapabilities :: "data_capabilities option"
  rm_guestRequest :: bool
  rm_sshEndpoint :: bool

definition createRuntime :: "config \<Rightarrow> runtime_methods" where
  "createRuntime c =
     (if cfg_runtime c = ''qemu''
      then \<lparr>rm_dataCapabilities = Some \<lparr>dc_persistence = True, dc_fileTransfer = True\<rparr>, rm_guestRequest = True, rm_sshEndpoint = True\<rparr>
      else if cfg_runtime c = ''firecracker''
      then \<lparr>rm_dataCapabilities = Some \<lparr>dc_persistence = \<not> cfg_firecrackerJailed c, dc_fileTransfer = True\<rparr>,
             rm_guestRequest = True, rm_sshEndpoint = False\<rparr>
      else \<lparr>rm_dataCapabilities = Some \<lparr>dc_persistence = True, dc_fileTransfer = True\<rparr>, rm_guestRequest = True, rm_sshEndpoint = False\<rparr>)"

definition advertisedCapabilities :: "config \<Rightarrow> runtime_methods \<Rightarrow> data_capabilities \<times> capability_set" where
  "advertisedCapabilities c m =
     (let runtimeData = (case rm_dataCapabilities m of None \<Rightarrow> \<lparr>dc_persistence = False, dc_fileTransfer = False\<rparr> | Some d \<Rightarrow> d);
          data = (if cfg_persistenceEnabled c then runtimeData else runtimeData\<lparr>dc_persistence := False\<rparr>);
          sshGateway = cfg_sshEnabled c \<and> rm_sshEndpoint m \<and> rm_guestRequest m
      in (data, runtimeCapabilities \<lparr>ci_runtime = cfg_runtime c, ci_guestControl = rm_guestRequest m,
           ci_persistentDataDisk = dc_persistence data, ci_egressProxy = (cfg_vmEgress c = ''controlled''),
           ci_sshGateway = sshGateway, ci_nfsGateway = cfg_nfsEnabled c \<and> sshGateway\<rparr>))"

section \<open>Workspaces and their connections\<close>

record connection =
  cn_wallet :: string
  cn_leaseExpiresAt :: int
  cn_storageMode :: storage_mode
  cn_guest :: guest_connection

record 'r agent =
  ag_runtime :: 'r
  ag_ssh :: gateway
  ag_connections :: "(string \<times> connection) list"

text \<open>\<open>POST /v1/workspaces\<close> up to the call of the runtime; \<open>configureRequest\<close> is what the guest is asked then.\<close>

definition create_check :: "config \<Rightarrow> (string \<Rightarrow> bool) \<Rightarrow> int \<Rightarrow> runtime_spec \<Rightarrow> (agent_error, runtime_spec) res" where
  "create_check c is_uuid now spec =
     (if \<not> CreateWorkspaceBody is_uuid spec then Inl ZodError
      else if rt_mode (rs_storage spec) = Persistent \<and> \<not> cfg_persistenceEnabled c then Inl (RuntimeFailed (RuntimeDataError 501))
      else if now + cfg_maxLeaseMs c + 60000 < rs_leaseExpiresAt spec then Inl OtherError
      else Inr spec)"

definition configureRequest :: "config \<Rightarrow> runtime_methods \<Rightarrow> string \<Rightarrow> runtime_spec \<Rightarrow> (agent_error, guest_request) res" where
  "configureRequest c m caPublicKey spec =
     (case rs_identity spec of
        Some wallet \<Rightarrow>
          if rm_guestRequest m \<and> rm_sshEndpoint m
          then Inr \<lparr>gq_version = 1, gq_id = ''connections_'' @ filter (\<lambda>ch. ch \<noteq> CHR ''-'') (rs_id spec),
                 gq_operation = ConnectionsConfigure (rs_id spec) wallet caPublicKey (cfg_nfsEnabled c \<and> rt_mode (rs_storage spec) = Persistent)\<rparr>
          else Inl (RuntimeFailed (RuntimeDataError 501))
      | None \<Rightarrow> Inl (RuntimeFailed (RuntimeDataError 501)))"

text \<open>\<open>sshEndpoint\<close> of the QEMU runtime, over the map \<open>sshEndpoints\<close>.\<close>

definition sshEndpoint :: "('r \<Rightarrow> string \<Rightarrow> vm_state option) \<Rightarrow> (string \<Rightarrow> endpoint option) \<Rightarrow> string \<Rightarrow> 'r \<Rightarrow> (agent_error, endpoint) res" where
  "sshEndpoint status endpoints wid r =
     (if status r wid \<noteq> Some VmRunning then Inl (RuntimeFailed (RuntimeDataError 409))
      else case endpoints wid of None \<Rightarrow> Inl (RuntimeFailed (RuntimeDataError 501)) | Some e \<Rightarrow> Inr e)"

text \<open>The guest has answered (\<open>None\<close> when the call failed): register the workspace, or stop it.\<close>

definition create_configured ::
  "(octets \<Rightarrow> octets) \<Rightarrow> (string \<Rightarrow> bool) \<Rightarrow> ('r \<Rightarrow> string \<Rightarrow> vm_state option) \<Rightarrow> (string \<Rightarrow> 'r \<Rightarrow> 'r) \<Rightarrow> (string \<Rightarrow> endpoint option)
     \<Rightarrow> runtime_spec \<Rightarrow> guest_connection option \<Rightarrow> 'r agent \<Rightarrow> bool \<times> 'r agent" where
  "create_configured sha256 is_uuid status stop_vm endpoints spec reply s =
     (let failed = (False, s\<lparr>ag_runtime := stop_vm (rs_id spec) (ag_runtime s)\<rparr>)
      in case rs_identity spec of
           None \<Rightarrow> failed
         | Some wallet \<Rightarrow>
             (case reply of
                None \<Rightarrow> failed
              | Some g \<Rightarrow>
                  (case GuestConnectionStatus sha256 is_uuid g of
                     None \<Rightarrow> failed
                   | Some guest \<Rightarrow>
                       (case sshEndpoint status endpoints (rs_id spec) (ag_runtime s) of
                          Inl _ \<Rightarrow> failed
                        | Inr _ \<Rightarrow> (True, s\<lparr>ag_connections := AList.update (rs_id spec)
                            \<lparr>cn_wallet = wallet, cn_leaseExpiresAt = rs_leaseExpiresAt spec, cn_storageMode = rt_mode (rs_storage spec),
                             cn_guest = guest\<rparr> (ag_connections s)\<rparr>)))))"

text \<open>
  Forgetting the connections of a workspace; \<open>revokeWorkspace\<close> throws for an id that is not a UUID. This is the agent
  with SSH enabled; without it there is no gateway, \<open>connections\<close> stays empty and deleting only stops the workspace.
\<close>

definition drop_connection :: "string \<Rightarrow> 'r agent \<Rightarrow> (ssh_error, 'r agent) res" where
  "drop_connection wid s =
     (case revokeWorkspace wid (ag_ssh s) of
        Inl e \<Rightarrow> Inl e
      | Inr g \<Rightarrow> Inr (s\<lparr>ag_ssh := g, ag_connections := AList.delete wid (ag_connections s)\<rparr>))"

text \<open>\<open>DELETE /v1/workspaces/:id\<close>.\<close>

definition delete_workspace :: "(string \<Rightarrow> 'r \<Rightarrow> 'r) \<Rightarrow> string \<Rightarrow> 'r agent \<Rightarrow> (agent_error, 'r agent) res" where
  "delete_workspace stop_vm wid s =
     (case drop_connection wid s of
        Inl _ \<Rightarrow> Inl OtherError
      | Inr t \<Rightarrow> Inr (t\<lparr>ag_runtime := stop_vm wid (ag_runtime t)\<rparr>))"

text \<open>The sweeper, after the runtime has swept; an error ends the loop.\<close>

fun sweep_connections :: "('r \<Rightarrow> string \<Rightarrow> vm_state option) \<Rightarrow> string list \<Rightarrow> 'r agent \<Rightarrow> 'r agent" where
  "sweep_connections status [] s = s"
| "sweep_connections status (wid # ids) s =
     (if status (ag_runtime s) wid = Some VmRunning then sweep_connections status ids s
      else case drop_connection wid s of Inl _ \<Rightarrow> s | Inr t \<Rightarrow> sweep_connections status ids t)"

definition sweeper :: "('r \<Rightarrow> string \<Rightarrow> vm_state option) \<Rightarrow> 'r agent \<Rightarrow> 'r agent" where
  "sweeper status s = sweep_connections status (map fst (ag_connections s)) s"

section \<open>SSH\<close>

text \<open>\<open>POST /v1/workspaces/:id/connections/ssh\<close> up to the signer.\<close>

definition ssh_issue ::
  "config \<Rightarrow> (octets \<Rightarrow> octets) \<Rightarrow> lease_options \<Rightarrow> ('r \<Rightarrow> string \<Rightarrow> vm_state option) \<Rightarrow> (string \<Rightarrow> endpoint option) \<Rightarrow> int \<Rightarrow> string
     \<Rightarrow> ssh_lease_body \<Rightarrow> 'r agent \<Rightarrow> (agent_error, certificate_spec \<times> endpoint) res" where
  "ssh_issue c sha256 opts status endpoints now wid body s =
     (if \<not> cfg_sshEnabled c then Inl (RuntimeFailed (RuntimeDataError 501))
      else if status (ag_runtime s) wid \<noteq> Some VmRunning then Inl (RuntimeFailed (RuntimeDataError 409))
      else case map_of (ag_connections s) wid of
        None \<Rightarrow> Inl (RuntimeFailed (RuntimeDataError 501))
      | Some state \<Rightarrow>
          (case SshLeaseBody sha256 body of
             None \<Rightarrow> Inl ZodError
           | Some b \<Rightarrow>
               if sb_mode b = ''nfs'' \<and> \<not> gc_nfsAvailable (cn_guest state) then Inl (RuntimeFailed (RuntimeDataError 501))
               else (case sshEndpoint status endpoints wid (ag_runtime s) of
                  Inl e \<Rightarrow> Inl e
                | Inr endpoint \<Rightarrow>
                    (case issue_begin opts now \<lparr>lr_workspaceId = wid, lr_wallet = cn_wallet state, lr_publicKey = sb_publicKey b,
                         lr_mode = sb_mode b, lr_workspaceLeaseExpiresAt = cn_leaseExpiresAt state,
                         lr_requestedTtlMs = sb_requestedTtlMs b, lr_endpoint = endpoint\<rparr> of
                       Inl _ \<Rightarrow> Inl OtherError
                     | Inr r \<Rightarrow> Inr r))))"

text \<open>\<open>DELETE /v1/workspaces/:id/connections/ssh/:leaseId\<close>.\<close>

definition ssh_revoke :: "config \<Rightarrow> string \<Rightarrow> string \<Rightarrow> 'r agent \<Rightarrow> (agent_error, unit) res \<times> 'r agent" where
  "ssh_revoke c leaseId wid s =
     (if \<not> cfg_sshEnabled c then (Inl (RuntimeFailed (RuntimeDataError 501)), s)
      else case map_of (ag_connections s) wid of
        None \<Rightarrow> (Inl (RuntimeFailed (RuntimeDataError 404)), s)
      | Some state \<Rightarrow>
          (case revoke leaseId wid (cn_wallet state) (ag_ssh s) of
             (Inl _, g) \<Rightarrow> (Inl OtherError, s\<lparr>ag_ssh := g\<rparr>)
           | (Inr _, g) \<Rightarrow> (Inr (), s\<lparr>ag_ssh := g\<rparr>)))"

text \<open>
  An upgrade. The pattern of the tunnel path is matched without case; its middle is the workspace. The parts of the
  URL and the header values are arguments, absent ones empty.
\<close>

definition path_id :: "string \<Rightarrow> string \<Rightarrow> string \<Rightarrow> string option" where
  "path_id prefix suffix path =
     (let p = to_lower path; n = length path - length prefix - length suffix; wid = take n (drop (length prefix) path)
      in if length prefix + length suffix < length path \<and> starts_with p prefix \<and> ends_with p suffix
            \<and> list_all (\<lambda>ch. is_hex ch \<or> ch = CHR ''-'') wid
         then Some wid else None)"

datatype upgrade =
    RejectUpgrade
  | TerminalUpgrade string
  | TunnelUpgrade tunnel_request

definition upgrade_request ::
  "config \<Rightarrow> string option \<Rightarrow> string \<Rightarrow> string \<Rightarrow> string \<Rightarrow> string \<Rightarrow> string \<Rightarrow> (string \<times> connection) list \<Rightarrow> upgrade" where
  "upgrade_request c authorization path lease mode sshToken protocols conns =
     (if \<not> agent_authorized c authorization then RejectUpgrade
      else case path_id ''/v1/workspaces/'' ''/terminal'' path of
        Some wid \<Rightarrow> TerminalUpgrade wid
      | None \<Rightarrow>
          (case path_id ''/v1/workspaces/'' ''/connections/ssh/tunnel'' path of
             None \<Rightarrow> RejectUpgrade
           | Some wid \<Rightarrow>
               (case map_of conns wid of
                  None \<Rightarrow> RejectUpgrade
                | Some state \<Rightarrow>
                    if \<not> cfg_sshEnabled c \<or> (mode \<noteq> ''shell'' \<and> mode \<noteq> ''nfs'')
                       \<or> ''bloom-ssh-v1'' \<notin> set (map trim (split_on (CHR '','') protocols)) then RejectUpgrade
                    else TunnelUpgrade \<lparr>tr_leaseId = lease, tr_workspaceId = wid, tr_wallet = cn_wallet state, tr_mode = mode,
                           tr_accessToken = sshToken\<rparr>)))"

section \<open>Runs\<close>

text \<open>
  The steps of the agent over any runtime. A certificate may come back from the signer at any later time, so what
  \<open>ssh_issue\<close> asked for is taken from an arbitrary state. \<open>Created\<close> and \<open>Deleted\<close> name the registrations and
  deletions of a run.
\<close>

datatype agent_event = Created string | Deleted string | Elsewhere

inductive agent_step ::
  "config \<Rightarrow> (octets \<Rightarrow> octets) \<Rightarrow> (string \<Rightarrow> bool) \<Rightarrow> lease_options \<Rightarrow> ('r \<Rightarrow> string \<Rightarrow> vm_state option) \<Rightarrow> (string \<Rightarrow> 'r \<Rightarrow> 'r)
     \<Rightarrow> ('r \<Rightarrow> 'r \<Rightarrow> bool) \<Rightarrow> agent_event \<Rightarrow> 'r agent \<Rightarrow> 'r agent \<Rightarrow> bool"
  for c sha256 is_uuid opts status stop_vm vm_step where
  runtime: "vm_step (ag_runtime s) r \<Longrightarrow> agent_step c sha256 is_uuid opts status stop_vm vm_step Elsewhere s (s\<lparr>ag_runtime := r\<rparr>)"
| created: "create_configured sha256 is_uuid status stop_vm endpoints spec reply s = (True, s')
    \<Longrightarrow> agent_step c sha256 is_uuid opts status stop_vm vm_step (Created (rs_id spec)) s s'"
| refused: "create_configured sha256 is_uuid status stop_vm endpoints spec reply s = (False, s')
    \<Longrightarrow> agent_step c sha256 is_uuid opts status stop_vm vm_step Elsewhere s s'"
| deleted: "delete_workspace stop_vm wid s = Inr s' \<Longrightarrow> agent_step c sha256 is_uuid opts status stop_vm vm_step (Deleted wid) s s'"
| issued: "ssh_issue c sha256 opts status endpoints now wid body s0 = Inr (spec, endpoint) \<Longrightarrow> leaseId \<notin> fst ` set (gw_leases (ag_ssh s))
    \<Longrightarrow> issue_finish sha256 spec endpoint cert leaseId accessToken (ag_ssh s) = Inr g
    \<Longrightarrow> agent_step c sha256 is_uuid opts status stop_vm vm_step Elsewhere s (s\<lparr>ag_ssh := g\<rparr>)"
| tunnel: "upgrade_request c authorization path lease mode sshToken protocols (ag_connections s) = TunnelUpgrade request
    \<Longrightarrow> openTunnel_begin sha256 opts now request (ag_ssh s) = (r, g)
    \<Longrightarrow> agent_step c sha256 is_uuid opts status stop_vm vm_step Elsewhere s (s\<lparr>ag_ssh := g\<rparr>)"
| connected: "a \<in> set (gw_connecting (ag_ssh s)) \<Longrightarrow> tunnel_connected now a stream (ag_ssh s) = (r, g)
    \<Longrightarrow> agent_step c sha256 is_uuid opts status stop_vm vm_step Elsewhere s (s\<lparr>ag_ssh := g\<rparr>)"
| failed: "a \<in> set (gw_connecting (ag_ssh s)) \<Longrightarrow> tunnel_failed a (ag_ssh s) = (r, g)
    \<Longrightarrow> agent_step c sha256 is_uuid opts status stop_vm vm_step Elsewhere s (s\<lparr>ag_ssh := g\<rparr>)"
| closed: "agent_step c sha256 is_uuid opts status stop_vm vm_step Elsewhere s (s\<lparr>ag_ssh := release_stream a stream (ag_ssh s)\<rparr>)"
| revoked: "ssh_revoke c leaseId wid s = (r, s') \<Longrightarrow> agent_step c sha256 is_uuid opts status stop_vm vm_step Elsewhere s s'"
| expired: "agent_step c sha256 is_uuid opts status stop_vm vm_step Elsewhere s (s\<lparr>ag_ssh := revokeTrusted leaseId (ag_ssh s)\<rparr>)"
| lease_sweeper: "agent_step c sha256 is_uuid opts status stop_vm vm_step Elsewhere s (s\<lparr>ag_ssh := sweepExpired now (ag_ssh s)\<rparr>)"
| sweeper: "agent_step c sha256 is_uuid opts status stop_vm vm_step Elsewhere s (sweeper status s)"
| stopped: "agent_step c sha256 is_uuid opts status stop_vm vm_step Elsewhere s (s\<lparr>ag_ssh := SshLeases.stop (ag_ssh s)\<rparr>)"

inductive agent_run ::
  "config \<Rightarrow> (octets \<Rightarrow> octets) \<Rightarrow> (string \<Rightarrow> bool) \<Rightarrow> lease_options \<Rightarrow> ('r \<Rightarrow> string \<Rightarrow> vm_state option) \<Rightarrow> (string \<Rightarrow> 'r \<Rightarrow> 'r)
     \<Rightarrow> ('r \<Rightarrow> 'r \<Rightarrow> bool) \<Rightarrow> 'r \<Rightarrow> agent_event list \<Rightarrow> 'r agent \<Rightarrow> bool"
  for c sha256 is_uuid opts status stop_vm vm_step r0 where
  start: "agent_run c sha256 is_uuid opts status stop_vm vm_step r0 [] \<lparr>ag_runtime = r0, ag_ssh = new_gateway, ag_connections = []\<rparr>"
| step: "agent_run c sha256 is_uuid opts status stop_vm vm_step r0 evs s \<Longrightarrow> agent_step c sha256 is_uuid opts status stop_vm vm_step ev s s'
    \<Longrightarrow> agent_run c sha256 is_uuid opts status stop_vm vm_step r0 (evs @ [ev]) s'"

section \<open>Tunnels stay within the registered workspaces\<close>

text \<open>Every lease that has a stream, or will get one, is of a workspace among \<open>ids\<close>.\<close>

definition within :: "string set \<Rightarrow> gateway \<Rightarrow> bool" where
  "within ids g \<longleftrightarrow> (\<forall>a. (ls_active (gw_objs g a) \<noteq> {} \<or> a \<in> set (gw_connecting g) \<and> a \<in> snd ` set (gw_leases g))
     \<longrightarrow> (\<exists>wid \<in> ids. ls_workspaceId (gw_objs g a) = to_lower wid))"

lemma within_mono: "within ids g \<Longrightarrow> ids \<subseteq> ids' \<Longrightarrow> within ids' g"
  unfolding within_def by blast

lemma shrinks_id: "shrinks g g' \<Longrightarrow> ls_workspaceId (gw_objs g' a) = ls_workspaceId (gw_objs g a)"
  unfolding shrinks_def by (metis lease.select_convs(3) lease.surjective lease.update_convs(7))

lemma shrinks_active: "shrinks g g' \<Longrightarrow> ls_active (gw_objs g' a) \<noteq> {} \<Longrightarrow> ls_active (gw_objs g a) \<noteq> {}"
  unfolding shrinks_def by (metis lease.select_convs(7) lease.surjective lease.update_convs(7))

lemma within_shrinks:
  assumes w: "within ids g" and sh: "shrinks g g'"
  shows "within ids g'"
  unfolding within_def
proof (intro allI impI)
  fix a assume a: "ls_active (gw_objs g' a) \<noteq> {} \<or> a \<in> set (gw_connecting g') \<and> a \<in> snd ` set (gw_leases g')"
  have "gw_connecting g' = gw_connecting g" "set (gw_leases g') \<subseteq> set (gw_leases g)" using sh by (auto simp: shrinks_def)
  then have "ls_active (gw_objs g a) \<noteq> {} \<or> a \<in> set (gw_connecting g) \<and> a \<in> snd ` set (gw_leases g)"
    using a shrinks_active[OF sh, of a] by auto
  then show "\<exists>wid \<in> ids. ls_workspaceId (gw_objs g' a) = to_lower wid"
    using w shrinks_id[OF sh, of a] by (simp add: within_def)
qed

text \<open>The leases that are left after a workspace is revoked are those of others.\<close>

lemma revokeWorkspace_Inr: "revokeWorkspace wid g = Inr g' \<longleftrightarrow> is_uuid4 wid \<and> g' = revoke_where (\<lambda>l. ls_workspaceId l = to_lower wid) g"
  by (auto simp: revokeWorkspace_def normalizeWorkspaceId_def res_simps)

lemma revoked_without:
  assumes inv: "gw_inv sha256 opts g" and g': "revokeWorkspace wid g = Inr g'" and w: "within ids g"
  shows "gw_inv sha256 opts g' \<and> within {x \<in> ids. to_lower x \<noteq> to_lower wid} g'"
proof -
  have eq: "g' = revoke_where (\<lambda>l. ls_workspaceId l = to_lower wid) g" using g' by (simp add: revokeWorkspace_Inr)
  have sp: "shrinks g g'" "gw_leases g' = filter (\<lambda>p. ls_workspaceId (gw_objs g (snd p)) \<noteq> to_lower wid) (gw_leases g)"
    using revoke_where_spec[OF gw_invD(1)[OF inv], of "\<lambda>l. ls_workspaceId l = to_lower wid"] by (simp_all add: eq)
  have inv': "gw_inv sha256 opts g'" by (rule gw_inv_shrinks[OF inv sp(1)])
  have "within {x \<in> ids. to_lower x \<noteq> to_lower wid} g'"
    unfolding within_def
  proof (intro allI impI)
    fix a assume a: "ls_active (gw_objs g' a) \<noteq> {} \<or> a \<in> set (gw_connecting g') \<and> a \<in> snd ` set (gw_leases g')"
    then have "a \<in> snd ` set (gw_leases g')" using gw_invD(5)[OF inv', of a] by blast
    then have ne: "ls_workspaceId (gw_objs g' a) \<noteq> to_lower wid" using sp shrinks_id[OF sp(1)] by auto
    obtain x where "x \<in> ids" "ls_workspaceId (gw_objs g' a) = to_lower x"
      using within_shrinks[OF w sp(1)] a unfolding within_def by blast
    then show "\<exists>x \<in> {x \<in> ids. to_lower x \<noteq> to_lower wid}. ls_workspaceId (gw_objs g' a) = to_lower x" using ne by auto
  qed
  then show ?thesis using inv' by simp
qed

lemma within_issue:
  assumes inv: "gw_inv sha256 opts g" and f: "issue_finish sha256 spec endpoint cert leaseId token g = Inr g'"
    and fresh: "leaseId \<notin> fst ` set (gw_leases g)" and b: "issue_begin opts now req = Inr (spec, endpoint)" and w: "within ids g"
  shows "within ids g'"
proof -
  define l where "l = \<lparr>ls_signed = cert, ls_leaseId = leaseId, ls_workspaceId = cs_workspaceId spec, ls_wallet = cs_wallet spec,
    ls_endpoint = endpoint, ls_tokenHash = digestToken sha256 token, ls_active = {}, ls_pending = 0\<rparr>"
  define g1 where "g1 = g\<lparr>gw_objs := (gw_objs g)(gw_next g := l), gw_next := Suc (gw_next g)\<rparr>"
  define P where "P = (\<lambda>l :: lease. ls_workspaceId l = cs_workspaceId spec \<and> ls_mode l = cs_mode spec)"
  have g': "g' = (revoke_where P g1)\<lparr>gw_leases := map_set leaseId (gw_next g) (gw_leases (revoke_where P g1))\<rparr>"
    using f by (auto simp: issue_finish_def res_simps Let_def l_def g1_def P_def split: if_splits)
  have inv1: "gw_inv sha256 opts g1" unfolding g1_def by (rule alloc_inv[OF inv]) (simp_all add: l_def)
  have new: "gw_next g \<notin> set (gw_connecting g)" "gw_next g \<notin> snd ` set (gw_leases g)"
    using gw_invD(1,6)[OF inv] by (auto simp: SshLeases.keys_ok_def)
  have w1: "within ids g1" unfolding within_def
  proof (intro allI impI)
    fix a assume a: "ls_active (gw_objs g1 a) \<noteq> {} \<or> a \<in> set (gw_connecting g1) \<and> a \<in> snd ` set (gw_leases g1)"
    then have "a \<noteq> gw_next g" using new by (auto simp: g1_def l_def)
    then show "\<exists>wid \<in> ids. ls_workspaceId (gw_objs g1 a) = to_lower wid" using a w by (simp add: g1_def within_def)
  qed
  have sh: "shrinks g1 (revoke_where P g1)" using revoke_where_spec[OF gw_invD(1)[OF inv1], of P] by (simp add: P_def)
  have w2: "within ids (revoke_where P g1)" by (rule within_shrinks[OF w1 sh])
  have leases: "set (gw_leases g') \<subseteq> insert (leaseId, gw_next g) (set (gw_leases (revoke_where P g1)))"
  proof -
    have "leaseId \<notin> fst ` set (gw_leases (revoke_where P g1))" using sh fresh by (auto simp: shrinks_def g1_def)
    then show ?thesis unfolding g' by (simp add: map_set_fresh)
  qed
  have conn: "gw_connecting g' = gw_connecting g" "gw_objs g' = gw_objs (revoke_where P g1)"
    using sh by (simp_all add: g' shrinks_def g1_def)
  show ?thesis unfolding within_def conn
  proof (intro allI impI)
    fix a assume a: "ls_active (gw_objs (revoke_where P g1) a) \<noteq> {} \<or> a \<in> set (gw_connecting g) \<and> a \<in> snd ` set (gw_leases g')"
    then have "ls_active (gw_objs (revoke_where P g1) a) \<noteq> {}
        \<or> a \<in> set (gw_connecting (revoke_where P g1)) \<and> a \<in> snd ` set (gw_leases (revoke_where P g1))"
      using leases new(1) sh by (auto simp: shrinks_def g1_def)
    then show "\<exists>wid \<in> ids. ls_workspaceId (gw_objs (revoke_where P g1) a) = to_lower wid" using w2 unfolding within_def by blast
  qed
qed

lemma within_open:
  assumes inv: "gw_inv sha256 opts g" and o: "openTunnel_begin sha256 opts now request g = (r, g')"
    and w: "within ids g" and id: "tr_workspaceId request \<in> ids"
  shows "within ids g'"
proof -
  obtain r1 g1 where au: "authorize sha256 now request g = (r1, g1)" by fastforce
  have w1: "within ids g1" using within_shrinks[OF w authorize_shrinks[of g sha256 now request]] gw_invD(1)[OF inv] au by simp
  show ?thesis
  proof (cases r)
    case (Inl e)
    then have "g' = g1" using o au by (auto simp: openTunnel_begin_def Let_def split: sum.splits if_splits)
    then show ?thesis using w1 by simp
  next
    case (Inr a)
    have x: "authorize sha256 now request g = (Inr a, g)"
      "g' = g\<lparr>gw_objs := (gw_objs g)(a := (gw_objs g a)\<lparr>ls_pending := ls_pending (gw_objs g a) + 1\<rparr>), gw_connecting := a # gw_connecting g\<rparr>"
      using o unfolding Inr openTunnel_Inr by simp_all
    have "ls_workspaceId (gw_objs g a) = to_lower (tr_workspaceId request)" using x(1) unfolding authorize_Inr by simp
    then show ?thesis using w id unfolding x(2) within_def by auto
  qed
qed

lemma within_sub:
  assumes w: "within ids g" and same: "gw_leases g' = gw_leases g" "set (gw_connecting g') \<subseteq> set (gw_connecting g)"
    and id: "\<And>a. ls_workspaceId (gw_objs g' a) = ls_workspaceId (gw_objs g a)"
    and act: "\<And>a. ls_active (gw_objs g' a) \<noteq> {} \<Longrightarrow> ls_active (gw_objs g a) \<noteq> {} \<or> a \<in> set (gw_connecting g) \<and> a \<in> snd ` set (gw_leases g)"
  shows "within ids g'"
  unfolding within_def id same(1)
proof (intro allI impI)
  fix a assume "ls_active (gw_objs g' a) \<noteq> {} \<or> a \<in> set (gw_connecting g') \<and> a \<in> snd ` set (gw_leases g)"
  then have "ls_active (gw_objs g a) \<noteq> {} \<or> a \<in> set (gw_connecting g) \<and> a \<in> snd ` set (gw_leases g)" using act[of a] same(2) by blast
  then show "\<exists>wid \<in> ids. ls_workspaceId (gw_objs g a) = to_lower wid" using w unfolding within_def by blast
qed

lemma within_connected:
  assumes w: "within ids g" and a: "a \<in> set (gw_connecting g)" and t: "tunnel_connected now a stream g = (r, g')"
  shows "within ids g'"
proof (rule within_sub[OF w])
  show "gw_leases g' = gw_leases g" using t by (auto simp: tunnel_connected_def connector_done_def Let_def split: if_splits)
  have "gw_connecting g' = remove1 a (gw_connecting g)" using t by (auto simp: tunnel_connected_def connector_done_def Let_def split: if_splits)
  then show "set (gw_connecting g') \<subseteq> set (gw_connecting g)" by (simp add: set_remove1_subset)
  fix b
  show "ls_workspaceId (gw_objs g' b) = ls_workspaceId (gw_objs g b)"
    using t by (auto simp: tunnel_connected_def connector_done_def Let_def split: if_splits)
  assume "ls_active (gw_objs g' b) \<noteq> {}"
  then show "ls_active (gw_objs g b) \<noteq> {} \<or> b \<in> set (gw_connecting g) \<and> b \<in> snd ` set (gw_leases g)"
    using t a map_of_live[of g "ls_leaseId (gw_objs g a)" a]
    by (cases "b = a") (auto simp: tunnel_connected_def connector_done_def Let_def simp del: set_map split: if_splits)
qed

lemma within_failed: "within ids g \<Longrightarrow> tunnel_failed a g = (r, g') \<Longrightarrow> within ids g'"
  by (erule within_sub) (auto simp: tunnel_failed_def connector_done_def split: if_splits dest: subsetD[OF set_remove1_subset])

lemma within_closed: "within ids g \<Longrightarrow> within ids (release_stream a stream g)"
  by (erule within_sub) (auto simp: release_stream_def split: if_splits)

section \<open>The agent over any runtime\<close>

lemma drop_connection_Inr:
  "drop_connection wid s = Inr t \<longleftrightarrow> (\<exists>g. revokeWorkspace wid (ag_ssh s) = Inr g \<and> t = s\<lparr>ag_ssh := g, ag_connections := AList.delete wid (ag_connections s)\<rparr>)"
  by (auto simp: drop_connection_def split: sum.splits)

definition registered :: "'r agent \<Rightarrow> string set" where
  "registered s = fst ` set (ag_connections s)"

lemma registered_simps [simp]:
  "registered (s\<lparr>ag_ssh := g\<rparr>) = registered s" "registered (s\<lparr>ag_runtime := r\<rparr>) = registered s"
  "registered (s\<lparr>ag_connections := xs\<rparr>) = fst ` set xs"
  "fst ` set (AList.delete wid (ag_connections s)) = registered s - {wid}"
  "fst ` set (AList.update wid cn (ag_connections s)) = insert wid (registered s)"
proof -
  have "set (map fst (AList.delete wid (ag_connections s))) = registered s - {wid}" by (simp only: delete_keys set_removeAll registered_def set_map)
  then show "fst ` set (AList.delete wid (ag_connections s)) = registered s - {wid}" by simp
qed (simp_all add: registered_def dom_update)

definition agent_ok :: "(octets \<Rightarrow> octets) \<Rightarrow> lease_options \<Rightarrow> 'r agent \<Rightarrow> bool" where
  "agent_ok sha256 opts s \<longleftrightarrow> gw_inv sha256 opts (ag_ssh s) \<and> within (registered s) (ag_ssh s)
     \<and> (\<forall>wid \<in> registered s. is_uuid4 wid)"

lemma agent_okI:
  "gw_inv sha256 opts (ag_ssh s) \<Longrightarrow> within (registered s) (ag_ssh s) \<Longrightarrow> (\<And>wid. wid \<in> registered s \<Longrightarrow> is_uuid4 wid)
     \<Longrightarrow> agent_ok sha256 opts s"
  by (simp add: agent_ok_def)

lemma agent_ok_runtime [simp]: "agent_ok sha256 opts (s\<lparr>ag_runtime := r\<rparr>) = agent_ok sha256 opts s"
  by (simp add: agent_ok_def)

lemma agent_ok_gateway:
  "agent_ok sha256 opts s \<Longrightarrow> gw_inv sha256 opts g \<Longrightarrow> within (registered s) g \<Longrightarrow> agent_ok sha256 opts (s\<lparr>ag_ssh := g\<rparr>)"
  by (simp add: agent_ok_def)

lemma agent_ok_shrinks: "agent_ok sha256 opts s \<Longrightarrow> shrinks (ag_ssh s) g \<Longrightarrow> agent_ok sha256 opts (s\<lparr>ag_ssh := g\<rparr>)"
  by (auto simp: agent_ok_def intro: gw_inv_shrinks within_shrinks)

lemma drop_connection_ok:
  assumes ok: "agent_ok sha256 opts s" and d: "drop_connection wid s = Inr t"
  shows "agent_ok sha256 opts t \<and> ag_runtime t = ag_runtime s \<and> registered t = registered s - {wid}
    \<and> within {x \<in> registered s. to_lower x \<noteq> to_lower wid} (ag_ssh t)"
proof -
  obtain g where g: "revokeWorkspace wid (ag_ssh s) = Inr g" and t: "t = s\<lparr>ag_ssh := g, ag_connections := AList.delete wid (ag_connections s)\<rparr>"
    using d drop_connection_Inr by blast
  have w: "gw_inv sha256 opts g \<and> within {x \<in> registered s. to_lower x \<noteq> to_lower wid} g"
    using revoked_without[OF _ g, of sha256 opts "registered s"] ok by (simp add: agent_ok_def)
  then have "within (registered s - {wid}) g" by (auto elim: within_mono)
  then show ?thesis using w ok by (simp add: t agent_ok_def)
qed

lemma drop_connection_total: "is_uuid4 wid \<Longrightarrow> \<exists>t. drop_connection wid s = Inr t"
  by (simp add: drop_connection_Inr revokeWorkspace_Inr)

text \<open>The sweeper never throws, and leaves entries of running workspaces only.\<close>

lemma sweep_connections_ok:
  assumes "agent_ok sha256 opts s" "set ids \<subseteq> registered s" "distinct ids"
  shows "agent_ok sha256 opts (sweep_connections status ids s) \<and> ag_runtime (sweep_connections status ids s) = ag_runtime s
    \<and> registered (sweep_connections status ids s)
        = {x \<in> registered s. x \<in> set ids \<longrightarrow> status (ag_runtime s) x = Some VmRunning}"
  using assms
proof (induction ids arbitrary: s)
  case (Cons wid ids)
  show ?case
  proof (cases "status (ag_runtime s) wid = Some VmRunning")
    case True
    then show ?thesis using Cons.IH[of s] Cons.prems by auto
  next
    case False
    have "is_uuid4 wid" using Cons.prems by (auto simp: agent_ok_def)
    then obtain t where t: "drop_connection wid s = Inr t" using drop_connection_total by blast
    note ok = drop_connection_ok[OF Cons.prems(1) t]
    have "set ids \<subseteq> registered t" "distinct ids" using ok Cons.prems by auto
    then show ?thesis using Cons.IH[of t] ok False Cons.prems(3) t by auto
  qed
qed auto

lemma sweeper_ok:
  assumes "agent_ok sha256 opts s" "distinct (map fst (ag_connections s))"
  shows "agent_ok sha256 opts (sweeper status s) \<and> ag_runtime (sweeper status s) = ag_runtime s
    \<and> (\<forall>wid \<in> registered (sweeper status s). status (ag_runtime s) wid = Some VmRunning)"
  using sweep_connections_ok[OF assms(1) _ assms(2), of status] unfolding sweeper_def registered_def by auto

lemma sweeper_sub: "agent_ok sha256 opts s \<Longrightarrow> distinct (map fst (ag_connections s)) \<Longrightarrow> registered (sweeper status s) \<subseteq> registered s"
  using sweep_connections_ok[of sha256 opts s "map fst (ag_connections s)" status] by (auto simp: sweeper_def registered_def)

lemma distinct_sweep: "distinct (map fst (ag_connections s)) \<Longrightarrow> distinct (map fst (ag_connections (sweep_connections status ids s)))"
proof (induction ids arbitrary: s)
  case (Cons wid ids)
  have "distinct (map fst (ag_connections t))" if "drop_connection wid s = Inr t" for t
    using that Cons.prems by (auto simp: drop_connection_Inr distinct_delete)
  then show ?case using Cons by (auto split: sum.splits)
qed simp

text \<open>What the agent relies on of a runtime.\<close>

locale workspace_runtime =
  fixes status :: "'r \<Rightarrow> string \<Rightarrow> vm_state option"
    and stop_vm :: "string \<Rightarrow> 'r \<Rightarrow> 'r"
    and vm_step :: "'r \<Rightarrow> 'r \<Rightarrow> bool"
    and initial :: 'r
    and ok :: "'r \<Rightarrow> bool"
  assumes initial_ok: "ok initial"
    and step_ok: "ok r \<Longrightarrow> vm_step r r' \<Longrightarrow> ok r'"
    and stop_ok: "ok r \<Longrightarrow> ok (stop_vm wid r)"
    and stop_stops: "status (stop_vm wid r) wid \<noteq> Some VmRunning"
    and running_id: "ok r \<Longrightarrow> status r wid = Some VmRunning \<Longrightarrow> is_uuid4 wid"
begin

abbreviation inv :: "(octets \<Rightarrow> octets) \<Rightarrow> lease_options \<Rightarrow> 'r agent \<Rightarrow> bool" where
  "inv sha256 opts s \<equiv> ok (ag_runtime s) \<and> agent_ok sha256 opts s \<and> distinct (map fst (ag_connections s))"

lemma created_inv:
  assumes "inv sha256 opts s" "create_configured sha256 is_uuid status stop_vm endpoints spec reply s = (b, s')"
  shows "inv sha256 opts s' \<and> (registered s' \<subseteq> (if b then insert (rs_id spec) else id) (registered s))
    \<and> ag_ssh s' = ag_ssh s"
proof (cases b)
  case False
  then have "s' = s\<lparr>ag_runtime := stop_vm (rs_id spec) (ag_runtime s)\<rparr>"
    using assms(2) by (auto simp: create_configured_def Let_def split: option.splits sum.splits)
  then show ?thesis using assms(1) stop_ok False by simp
next
  case True
  then obtain cn e where s': "s' = s\<lparr>ag_connections := AList.update (rs_id spec) cn (ag_connections s)\<rparr>"
    and e: "sshEndpoint status endpoints (rs_id spec) (ag_runtime s) = Inr e"
    using assms(2) by (auto simp: create_configured_def Let_def split: option.splits sum.splits)
  have "status (ag_runtime s) (rs_id spec) = Some VmRunning" using e by (auto simp: sshEndpoint_def split: if_splits)
  then have u: "is_uuid4 (rs_id spec)" using running_id assms(1) by blast
  have "within (insert (rs_id spec) (registered s)) (ag_ssh s)"
    using assms(1) by (auto simp: agent_ok_def elim: within_mono)
  then show ?thesis using assms(1) u True by (auto simp: s' agent_ok_def distinct_update)
qed

lemma deleted_inv:
  assumes "inv sha256 opts s" "delete_workspace stop_vm wid s = Inr s'"
  shows "inv sha256 opts s' \<and> within {x \<in> registered s. to_lower x \<noteq> to_lower wid} (ag_ssh s')
    \<and> status (ag_runtime s') wid \<noteq> Some VmRunning \<and> wid \<notin> registered s'
    \<and> registered s' \<subseteq> registered s"
proof -
  obtain t where t: "drop_connection wid s = Inr t" and s': "s' = t\<lparr>ag_runtime := stop_vm wid (ag_runtime t)\<rparr>"
    using assms(2) by (auto simp: delete_workspace_def split: sum.splits)
  note d = drop_connection_ok[OF conjunct1[OF conjunct2[OF assms(1)]] t]
  have "distinct (map fst (ag_connections t))" using t assms(1) by (auto simp: drop_connection_Inr distinct_delete)
  then show ?thesis using d assms(1) stop_ok stop_stops by (auto simp: s')
qed

lemma step_inv:
  assumes "agent_step c sha256 is_uuid opts status stop_vm vm_step ev s s'" and i: "inv sha256 opts s"
  shows "inv sha256 opts s' \<and> (registered s' \<subseteq> (case ev of Created wid \<Rightarrow> insert wid | _ \<Rightarrow> id) (registered s))"
  using assms(1)
proof cases
  case (runtime r)
  then show ?thesis using i step_ok by auto
next
  case (created endpoints spec reply)
  then show ?thesis using created_inv[OF i created(2)] by simp
next
  case (refused endpoints spec reply)
  then show ?thesis using created_inv[OF i refused(2)] by simp
next
  case (deleted wid)
  then show ?thesis using deleted_inv[OF i deleted(2)] by simp
next
  case (issued endpoints now wid body s0 spec endpoint leaseId cert accessToken g)
  have g: "gw_inv sha256 opts (ag_ssh s)" "within (registered s) (ag_ssh s)" using i by (simp_all add: agent_ok_def)
  obtain req where b: "issue_begin opts now req = Inr (spec, endpoint)"
    using issued(3) by (auto simp: ssh_issue_def split: if_splits option.splits sum.splits)
  have "agent_ok sha256 opts s'" unfolding issued(2)
    by (rule agent_ok_gateway[OF _ issue_finish_inv[OF g(1) b issued(4,5)] within_issue[OF g(1) issued(5,4) b g(2)]]) (use i in simp)
  then show ?thesis using i issued by simp
next
  case (tunnel authorization path lease mode sshToken protocols request now r g)
  have g: "gw_inv sha256 opts (ag_ssh s)" "within (registered s) (ag_ssh s)" using i by (simp_all add: agent_ok_def)
  have id: "tr_workspaceId request \<in> registered s"
    using tunnel(3) by (auto simp: upgrade_request_def registered_def split: if_splits option.splits dest!: map_of_SomeD intro: rev_image_eqI)
  have "agent_ok sha256 opts s'" unfolding tunnel(2)
    by (rule agent_ok_gateway[OF _ openTunnel_begin_inv[OF g(1) tunnel(4)] within_open[OF g(1) tunnel(4) g(2) id]]) (use i in simp)
  then show ?thesis using i tunnel by simp
next
  case (connected a now stream r g)
  have g: "gw_inv sha256 opts (ag_ssh s)" "within (registered s) (ag_ssh s)" using i by (simp_all add: agent_ok_def)
  have "agent_ok sha256 opts s'" unfolding connected(2)
    by (rule agent_ok_gateway[OF _ tunnel_connected_inv[OF g(1) connected(3,4)] within_connected[OF g(2) connected(3,4)]]) (use i in simp)
  then show ?thesis using i connected by simp
next
  case (failed a r g)
  have g: "gw_inv sha256 opts (ag_ssh s)" "within (registered s) (ag_ssh s)" using i by (simp_all add: agent_ok_def)
  have "gw_inv sha256 opts g" using connector_done_inv(1)[OF g(1) failed(3)] failed(4) by (simp add: tunnel_failed_def)
  then have "agent_ok sha256 opts s'" unfolding failed(2)
    by (intro agent_ok_gateway[OF _ _ within_failed[OF g(2) failed(4)]]) (use i in simp)
  then show ?thesis using i failed by simp
next
  case (closed a stream)
  have "agent_ok sha256 opts s'" unfolding closed(2)
    by (rule agent_ok_gateway[OF _ release_inv within_closed]) (use i in \<open>simp_all add: agent_ok_def\<close>)
  then show ?thesis using i closed by simp
next
  case (revoked leaseId wid r)
  obtain g where g: "s' = s\<lparr>ag_ssh := g\<rparr>" "shrinks (ag_ssh s) g"
  proof (cases "\<exists>state. cfg_sshEnabled c \<and> map_of (ag_connections s) wid = Some state")
    case True
    then obtain state where st: "map_of (ag_connections s) wid = Some state" and "cfg_sshEnabled c" by blast
    obtain rr g where rv: "SshLeases.revoke leaseId wid (cn_wallet state) (ag_ssh s) = (rr, g)" by fastforce
    have "shrinks (ag_ssh s) g"
      using rv revokeTrusted_shrinks[OF gw_invD(1)] i by (auto simp: revoke_def agent_ok_def split: option.splits sum.splits)
    then show ?thesis using that revoked(2) rv st \<open>cfg_sshEnabled c\<close> by (auto simp: ssh_revoke_def split: sum.splits)
  next
    case False
    then have "s' = s" using revoked(2) by (auto simp: ssh_revoke_def split: if_splits option.splits)
    then show ?thesis using that[of "ag_ssh s"] by simp
  qed
  then show ?thesis using i revoked agent_ok_shrinks by auto
next
  case (expired leaseId)
  have "shrinks (ag_ssh s) (revokeTrusted leaseId (ag_ssh s))"
    using i revokeTrusted_shrinks[OF gw_invD(1)[of sha256 opts]] by (simp add: agent_ok_def)
  then show ?thesis using i agent_ok_shrinks expired by auto
next
  case (lease_sweeper now)
  have "shrinks (ag_ssh s) (sweepExpired now (ag_ssh s))"
    using i revoke_where_spec[OF gw_invD(1), of sha256 opts "ag_ssh s" "\<lambda>l. ls_validBefore l \<le> now"] by (simp add: agent_ok_def sweepExpired_def)
  then show ?thesis using i agent_ok_shrinks lease_sweeper by auto
next
  case sweeper
  then show ?thesis using i sweeper_ok[of sha256 opts s status] sweeper_sub[of sha256 opts s status]
    by (auto simp: sweeper_def distinct_sweep)
next
  case stopped
  have "shrinks (ag_ssh s) (SshLeases.stop (ag_ssh s))"
    using i revoke_where_spec[OF gw_invD(1), of sha256 opts "ag_ssh s" "\<lambda>_. True"] by (simp add: agent_ok_def SshLeases.stop_def)
  then show ?thesis using i agent_ok_shrinks stopped by auto
qed

lemma run_inv:
  assumes "agent_run c sha256 is_uuid opts status stop_vm vm_step initial evs s" "0 \<le> lo_maxConnections opts"
  shows "inv sha256 opts s"
  using assms(1)
proof induction
  case start
  show ?case using initial_ok gw_inv_new[OF assms(2), of sha256] by (simp add: agent_ok_def within_def registered_def new_gateway_def)
next
  case (step evs s ev s')
  then show ?case using step_inv by blast
qed

lemma streams_follow_workspaces:
  assumes "agent_run c sha256 is_uuid opts status stop_vm vm_step initial evs s" "0 \<le> lo_maxConnections opts"
  shows "stream \<in> ls_active (gw_objs (ag_ssh s) a) \<Longrightarrow> \<exists>wid \<in> registered s. ls_workspaceId (gw_objs (ag_ssh s) a) = to_lower wid"
    "stream \<in> ls_active (gw_objs (ag_ssh (sweeper status s)) a) \<Longrightarrow> \<exists>wid \<in> registered s.
       ls_workspaceId (gw_objs (ag_ssh (sweeper status s)) a) = to_lower wid \<and> status (ag_runtime s) wid = Some VmRunning"
proof -
  note i = run_inv[OF assms]
  show "stream \<in> ls_active (gw_objs (ag_ssh s) a) \<Longrightarrow> \<exists>wid \<in> registered s. ls_workspaceId (gw_objs (ag_ssh s) a) = to_lower wid"
    using i unfolding agent_ok_def within_def by blast
  have o: "agent_ok sha256 opts (sweeper status s)" "\<forall>wid \<in> registered (sweeper status s). status (ag_runtime s) wid = Some VmRunning"
    using sweeper_ok[of sha256 opts s status] i by blast+
  have "registered (sweeper status s) \<subseteq> registered s" using i sweeper_sub by blast
  then show "stream \<in> ls_active (gw_objs (ag_ssh (sweeper status s)) a) \<Longrightarrow> \<exists>wid \<in> registered s.
       ls_workspaceId (gw_objs (ag_ssh (sweeper status s)) a) = to_lower wid \<and> status (ag_runtime s) wid = Some VmRunning"
    using o unfolding agent_ok_def within_def by blast
qed

end

section \<open>The QEMU runtime below the agent\<close>

definition rt_ids :: "pty \<Rightarrow> string set" where
  "rt_ids r = fst ` set (py_instances r) \<union> rs_id ` set (py_pending r) \<union> rs_id ` set (py_waiting r)"

lemma rt_ids_stop [simp]: "rt_ids (rt_stop wid r) = rt_ids r"
  by (simp add: rt_ids_def rt_stop_def set_obj_def emit_def forgetLater_def Let_def split: option.split)

lemma rt_ids_stops [simp]: "rt_ids (foldl (\<lambda>t wid. rt_stop wid t) r ws) = rt_ids r"
  by (induction ws arbitrary: r) simp_all

lemma rt_ids_storage [simp]: "rt_ids (r\<lparr>py_storage := x\<rparr>) = rt_ids r" "rt_ids (r\<lparr>py_timers := t\<rparr>) = rt_ids r"
  "rt_ids (r\<lparr>py_sent := y\<rparr>) = rt_ids r" "rt_ids (r\<lparr>py_objs := z\<rparr>) = rt_ids r" "rt_ids (r\<lparr>py_next := n\<rparr>) = rt_ids r"
  "rt_ids (r\<lparr>py_pending := remove1 spec (py_pending r)\<rparr>) \<subseteq> rt_ids r" "rt_ids (r\<lparr>py_waiting := remove1 spec (py_waiting r)\<rparr>) \<subseteq> rt_ids r"
  by (auto simp: rt_ids_def dest: subsetD[OF set_remove1_subset])

lemma rt_ids_qemu_failed [simp]: "rt_ids (qemu_failed spec r) = rt_ids r"
  by (simp add: qemu_failed_def Let_def)

lemma rt_ids_create:
  assumes "qemu_create c now spec r = (res, r')" shows "rt_ids r' \<subseteq> rt_ids r \<union> {x. x = rs_id spec \<and> is_uuid4 x}"
  using assms
  by (auto simp: qemu_create_def super_create_def Let_def split: sum.splits if_splits) (auto simp: rt_ids_def)

lemma rt_ids_spawned: "spec \<in> set (py_pending r) \<Longrightarrow> rt_ids (rt_spawned QemuKind b spec r) \<subseteq> rt_ids r"
proof (cases b)
  case False
  then show ?thesis by (simp add: rt_spawned_def Let_def)
next
  case True
  assume "spec \<in> set (py_pending r)"
  then show ?thesis using True by (auto simp: rt_spawned_def Let_def rt_ids_def dom_update dest: subsetD[OF set_remove1_subset])
qed

lemma rt_ids_ready: "rt_ids (qemu_ready b spec r) \<subseteq> rt_ids r"
  by (simp add: qemu_ready_def Let_def)

lemma rt_ids_forget: "rt_ids (rt_forget e r) \<subseteq> rt_ids r"
  using dom_delete_subset[of "fst e" "py_instances r"] by (auto simp: rt_forget_def Let_def rt_ids_def set_obj_def)

lemma rt_ids_step:
  assumes "rt_step QemuKind c r r'" "\<forall>x \<in> rt_ids r. is_uuid4 x"
  shows "\<forall>x \<in> rt_ids r'. is_uuid4 x"
proof -
  have "rt_ids r' \<subseteq> rt_ids r \<union> {x. is_uuid4 x}"
    using assms(1)
  proof cases
    case (create spec now res)
    then show ?thesis using rt_ids_create[of c now spec r res r'] by (auto simp: rt_create_def)
  next
    case (spawned spec b)
    then show ?thesis using rt_ids_spawned by auto
  next
    case (ready spec b)
    then show ?thesis using rt_ids_ready by auto
  next
    case (forget e)
    then show ?thesis using rt_ids_forget[of e r] by blast
  next
    case (attach l wid)
    then show ?thesis by (auto simp: rt_attach_def set_obj_def Let_def split: option.splits if_splits)
  qed (auto simp: rt_data_def rt_exit_def rt_sweep_def rt_close_def rt_detach_def emit_def set_obj_def forgetLater_def)
  then show ?thesis using assms(2) by blast
qed

lemma rt_stop_stops: "rt_status (rt_stop wid r) wid \<noteq> Some VmRunning"
  by (auto simp: rt_status_def rt_stop_def set_obj_def emit_def forgetLater_def Let_def split: option.split)

lemma rt_status_id: "rt_status r wid = Some st \<Longrightarrow> wid \<in> rt_ids r"
  by (auto simp: rt_status_def rt_ids_def split: option.splits dest!: map_of_SomeD intro: rev_image_eqI)

interpretation qemu: workspace_runtime rt_status rt_stop "rt_step QemuKind c" new_pty "\<lambda>r. \<forall>x \<in> rt_ids r. is_uuid4 x" for c
  by unfold_locales
     (use rt_ids_step rt_stop_stops rt_status_id in \<open>auto simp: rt_ids_def new_pty_def\<close>)

section \<open>Deleted workspaces\<close>

lemma run_snoc:
  assumes "agent_run c sha256 is_uuid opts status stop_vm vm_step r0 (evs @ [ev]) s'"
  obtains s where "agent_run c sha256 is_uuid opts status stop_vm vm_step r0 evs s" "agent_step c sha256 is_uuid opts status stop_vm vm_step ev s s'"
  using assms by (cases rule: agent_run.cases) auto

context workspace_runtime begin

lemma registered_created:
  assumes "agent_run c sha256 is_uuid opts status stop_vm vm_step initial evs s" "0 \<le> lo_maxConnections opts"
  shows "registered s \<subseteq> {wid. Created wid \<in> set evs}"
  using assms(1)
proof induction
  case start
  show ?case by (simp add: registered_def)
next
  case (step evs s ev s')
  have "registered s' \<subseteq> (case ev of Created wid \<Rightarrow> insert wid | _ \<Rightarrow> id) (registered s)"
    using step_inv[OF step(2) run_inv[OF step(1) assms(2)]] by blast
  then show ?case using step.IH by (cases ev) auto
qed

lemma deleted_gone:
  assumes "agent_run c sha256 is_uuid opts status stop_vm vm_step initial (evs1 @ Deleted wid # evs2) s" "0 \<le> lo_maxConnections opts"
    and "Created wid \<notin> set evs2"
  shows "wid \<notin> registered s"
  using assms(1,3)
proof (induction evs2 arbitrary: s rule: rev_induct)
  case Nil
  obtain s0 where r: "agent_run c sha256 is_uuid opts status stop_vm vm_step initial evs1 s0"
    and st: "agent_step c sha256 is_uuid opts status stop_vm vm_step (Deleted wid) s0 s"
    using run_snoc[of c sha256 is_uuid opts status stop_vm vm_step initial evs1 "Deleted wid" s] Nil.prems(1) by auto
  have "delete_workspace stop_vm wid s0 = Inr s" using st by cases auto
  then show ?case using deleted_inv[OF run_inv[OF r assms(2)]] by blast
next
  case (snoc ev evs2)
  obtain s0 where r: "agent_run c sha256 is_uuid opts status stop_vm vm_step initial (evs1 @ Deleted wid # evs2) s0"
    and st: "agent_step c sha256 is_uuid opts status stop_vm vm_step ev s0 s"
    using run_snoc[of c sha256 is_uuid opts status stop_vm vm_step initial "evs1 @ Deleted wid # evs2" ev s] snoc.prems(1) by auto
  have "registered s \<subseteq> (case ev of Created wid \<Rightarrow> insert wid | _ \<Rightarrow> id) (registered s0)"
    using step_inv[OF st run_inv[OF r assms(2)]] by blast
  then show ?case using snoc.IH[OF r] snoc.prems(2) by (cases ev) auto
qed

end

text \<open>C16. SSH follows the life of the workspaces. In every run of the agent over the QEMU runtime, through deletions,
  expiries, crashes of machines and requests that wait for the signer or the connector, an open stream belongs to a
  workspace in the map of connections; and after each tick of the sweeper it belongs to a workspace that is running.\<close>
theorem ssh_streams_follow_workspaces:
  assumes "agent_run c sha256 is_uuid opts rt_status rt_stop (rt_step QemuKind c) new_pty evs s" "0 \<le> lo_maxConnections opts"
  shows "(\<forall>a. \<forall>stream \<in> ls_active (gw_objs (ag_ssh s) a).
        \<exists>wid \<in> registered s. ls_workspaceId (gw_objs (ag_ssh s) a) = to_lower wid)
    \<and> (\<forall>a. \<forall>stream \<in> ls_active (gw_objs (ag_ssh (sweeper rt_status s)) a).
        \<exists>wid \<in> registered s. ls_workspaceId (gw_objs (ag_ssh (sweeper rt_status s)) a) = to_lower wid
          \<and> rt_status (ag_runtime s) wid = Some VmRunning)"
  using qemu.streams_follow_workspaces[OF assms] by blast

text \<open>C15. Deleting a workspace is final for SSH. When ids that differ in case only are not used for different
  workspaces, then after a deletion no stream of the workspace is open in any later state, whatever leases were
  being issued and tunnels being opened at that time, unless the workspace is created again.\<close>
theorem ssh_deleted_workspace_closed:
  assumes "agent_run c sha256 is_uuid opts rt_status rt_stop (rt_step QemuKind c) new_pty (evs1 @ Deleted wid # evs2) s"
    and "0 \<le> lo_maxConnections opts" "Created wid \<notin> set evs2"
    and "\<forall>x. Created x \<in> set (evs1 @ evs2) \<longrightarrow> to_lower x = to_lower wid \<longrightarrow> x = wid"
  shows "\<forall>a. ls_workspaceId (gw_objs (ag_ssh s) a) = to_lower wid \<longrightarrow> ls_active (gw_objs (ag_ssh s) a) = {}"
proof (intro allI impI)
  fix a assume a: "ls_workspaceId (gw_objs (ag_ssh s) a) = to_lower wid"
  have gone: "wid \<notin> registered s" by (rule qemu.deleted_gone[OF assms(1-3)])
  have "registered s \<subseteq> {x. Created x \<in> set (evs1 @ evs2)}" using qemu.registered_created[OF assms(1,2)] by auto
  then have "\<forall>x \<in> registered s. to_lower x \<noteq> to_lower wid" using gone assms(4) by fastforce
  then show "ls_active (gw_objs (ag_ssh s) a) = {}" using qemu.streams_follow_workspaces(1)[OF assms(1,2), of _ a] a by fastforce
qed

section \<open>A sample run with a tunnel\<close>

definition sample_vm :: runtime_spec where
  "sample_vm = \<lparr>rs_id = sample_ws, rs_leaseExpiresAt = 2000000,
     rs_storage = \<lparr>rt_mode = Disposable, rt_volumeId = None, rt_quotaBytes = 536870912\<rparr>, rs_identity = Some (to_lower sample_wallet)\<rparr>"

definition sample_pty :: pty where
  "sample_pty = new_pty\<lparr>py_objs := (py_objs new_pty)(0 := \<lparr>io_spec = sample_vm, io_state = VmRunning, io_history = [], io_listeners = [],
       io_killed = False, io_exited = False, io_cleanups = 0\<rparr>), py_next := 1, py_instances := [(sample_ws, 0)],
     py_waiting := [sample_vm], py_storage := [(sample_ws, rs_storage sample_vm)]\<rparr>"

definition sample_endpoints :: "string \<Rightarrow> endpoint option" where
  "sample_endpoints wid = Some (UnixEndpoint ''/run/bloom/./w1/ssh.sock'')"

definition sample_guest :: guest_connection where
  "sample_guest = \<lparr>gc_workspaceId = sample_ws, gc_hostKey = sample_key, gc_nfsAvailable = False, gc_nfsPort = None\<rparr>"

definition sample_connection :: connection where
  "sample_connection = \<lparr>cn_wallet = to_lower sample_wallet, cn_leaseExpiresAt = 2000000, cn_storageMode = Disposable, cn_guest = sample_guest\<rparr>"

definition sample_body :: ssh_lease_body where
  "sample_body = \<lparr>sb_publicKey = sample_key, sb_mode = ''shell'', sb_requestedTtlMs = None\<rparr>"

definition sample_agent :: "gateway \<Rightarrow> pty agent" where
  "sample_agent g = \<lparr>ag_runtime = sample_pty, ag_ssh = g, ag_connections = [(sample_ws, sample_connection)]\<rparr>"

definition ssh_on :: "config \<Rightarrow> config" where
  "ssh_on c = c\<lparr>cfg_sshEnabled := True, cfg_agentToken := ''secret''\<rparr>"

definition sample_run :: "config \<Rightarrow> agent_event list \<Rightarrow> pty agent \<Rightarrow> bool" where
  "sample_run c = agent_run (ssh_on c) sample_sha (\<lambda>_. True) sample_opts rt_status rt_stop (rt_step QemuKind (ssh_on c)) new_pty"

lemma sample_public_key: "PublicKey sha256 sample_key = Some sample_key"
proof -
  have "parse_key sha256 sample_key = Inr (key_of sha256 sample_key_blob)" by (rule sample_ca)
  then have "parseSshPublicKey sha256 sample_key = Inr (key_of sha256 sample_key_blob)" by (simp add: parse_key_def split: sum.splits)
  moreover have "length sample_key = 80" by code_simp
  ultimately show ?thesis by (simp add: PublicKey_def key_of_def sample_key_def)
qed

lemma sample_status: "rt_status sample_pty sample_ws = Some VmRunning"
  by (simp add: rt_status_def sample_pty_def)

lemma sample_vm_run: "sample_run c [Elsewhere, Elsewhere] \<lparr>ag_runtime = sample_pty, ag_ssh = new_gateway, ag_connections = []\<rparr>"
proof -
  let ?c = "ssh_on c"
  define r1 where "r1 = new_pty\<lparr>py_storage := [(sample_ws, rs_storage sample_vm)], py_pending := [sample_vm]\<rparr>"
  have u: "is_uuid4 sample_ws" by code_simp
  have "rt_create QemuKind ?c 1000000 sample_vm new_pty = (Awaits, r1)"
    by (simp add: rt_create_def qemu_create_def validateStorage_qemu_def super_create_def sample_vm_def new_pty_def r1_def Let_def u)
  then have 1: "rt_step QemuKind ?c new_pty r1"
    by (intro rt_step.create) (simp_all add: fresh_id_def new_pty_def)
  have "rt_spawned QemuKind True sample_vm r1 = sample_pty"
    by (simp add: rt_spawned_def r1_def new_pty_def sample_pty_def Let_def) (simp add: sample_vm_def)
  moreover have "sample_vm \<in> set (py_pending r1)" by (simp add: r1_def)
  ultimately have 2: "rt_step QemuKind ?c r1 sample_pty" using rt_step.spawned by metis
  let ?s0 = "\<lparr>ag_runtime = new_pty, ag_ssh = new_gateway, ag_connections = []\<rparr> :: pty agent"
  let ?s1 = "?s0\<lparr>ag_runtime := r1\<rparr>"
  have "sample_run c ([] @ [Elsewhere]) ?s1"
    unfolding sample_run_def by (rule agent_run.step[OF agent_run.start agent_step.runtime]) (simp add: 1)
  then have "sample_run c ([Elsewhere] @ [Elsewhere]) (?s1\<lparr>ag_runtime := sample_pty\<rparr>)"
    unfolding sample_run_def by (intro agent_run.step[OF _ agent_step.runtime]) (simp_all add: 2)
  then show ?thesis by simp
qed

lemma sample_created_run: "sample_run c [Elsewhere, Elsewhere, Created sample_ws] (sample_agent new_gateway)"
proof -
  have id: "rs_id sample_vm = sample_ws" by (simp add: sample_vm_def)
  have w: "rs_identity sample_vm = Some (to_lower sample_wallet)" by (simp add: sample_vm_def)
  have g: "GuestConnectionStatus sample_sha (\<lambda>_. True) sample_guest = Some sample_guest"
    by (simp add: GuestConnectionStatus_def sample_guest_def sample_public_key)
  have "create_configured sample_sha (\<lambda>_. True) rt_status rt_stop sample_endpoints sample_vm (Some sample_guest)
      \<lparr>ag_runtime = sample_pty, ag_ssh = new_gateway, ag_connections = []\<rparr> = (True, sample_agent new_gateway)"
    by (simp add: create_configured_def g id w sshEndpoint_def sample_status Let_def sample_endpoints_def sample_agent_def sample_connection_def)
       (simp add: sample_vm_def)
  from agent_run.step[OF sample_vm_run[unfolded sample_run_def] agent_step.created[OF this]]
  show ?thesis unfolding sample_run_def id by simp
qed

lemma sample_issue:
  "ssh_issue (ssh_on c) sample_sha sample_opts rt_status sample_endpoints 1000000 sample_ws sample_body (sample_agent g)
    = Inr (SshLeases.sample_spec, UnixEndpoint ''/run/bloom/w1/ssh.sock'')"
proof -
  have b: "SshLeaseBody sample_sha sample_body = Some sample_body"
    by (simp add: SshLeaseBody_def sample_body_def sample_public_key)
  have w: "issue_begin sample_opts 1000000 \<lparr>lr_workspaceId = sample_ws, lr_wallet = to_lower sample_wallet, lr_publicKey = sample_key,
      lr_mode = ''shell'', lr_workspaceLeaseExpiresAt = 2000000, lr_requestedTtlMs = None, lr_endpoint = UnixEndpoint ''/run/bloom/./w1/ssh.sock''\<rparr>
    = Inr (SshLeases.sample_spec, UnixEndpoint ''/run/bloom/w1/ssh.sock'')"
    by code_simp
  show ?thesis
    by (simp add: ssh_issue_def sample_agent_def sample_status b sshEndpoint_def sample_endpoints_def ssh_on_def)
       (simp add: sample_body_def sample_connection_def w)
qed

definition sample_streaming :: gateway where
  "sample_streaming = snd (tunnel_connected 1500000 0 9 sample_opening)"

lemma sample_streaming_run:
  "sample_run c [Elsewhere, Elsewhere, Created sample_ws, Elsewhere, Elsewhere, Elsewhere] (sample_agent sample_streaming)
    \<and> 9 \<in> ls_active (gw_objs sample_streaming 0)"
proof -
  have none: "gw_leases (ag_ssh (sample_agent new_gateway)) = []" by (simp add: sample_agent_def new_gateway_def)
  have fin: "issue_finish sample_sha SshLeases.sample_spec (UnixEndpoint ''/run/bloom/w1/ssh.sock'') sample_cert ''l1'' sample_token
      (ag_ssh (sample_agent new_gateway)) = Inr sample_gateway" by (simp add: sample_agent_def sample_finish)
  have "sample_run c ([Elsewhere, Elsewhere, Created sample_ws] @ [Elsewhere]) ((sample_agent new_gateway)\<lparr>ag_ssh := sample_gateway\<rparr>)"
    unfolding sample_run_def
    by (rule agent_run.step[OF sample_created_run[unfolded sample_run_def] agent_step.issued[OF sample_issue _ fin]]) (simp add: none)
  then have 1: "sample_run c [Elsewhere, Elsewhere, Created sample_ws, Elsewhere] (sample_agent sample_gateway)" by (simp add: sample_agent_def)
  define path where "path = ''/v1/workspaces/'' @ sample_ws @ ''/connections/ssh/tunnel''"
  have path: "path_id ''/v1/workspaces/'' ''/terminal'' path = None"
    "path_id ''/v1/workspaces/'' ''/connections/ssh/tunnel'' path = Some sample_ws"
    unfolding path_def by code_simp+
  have tok: "bearer (Some ''Bearer secret'') = ''secret''" "''bloom-ssh-v1'' \<in> set (map trim (split_on (CHR '','') ''bloom-ssh-v1''))" by code_simp+
  let ?req = "sample_tunnel\<lparr>tr_wallet := to_lower sample_wallet\<rparr>"
  have up: "upgrade_request (ssh_on c) (Some ''Bearer secret'') path ''l1'' ''shell''
      sample_token ''bloom-ssh-v1'' (ag_connections (sample_agent sample_gateway)) = TunnelUpgrade ?req"
    unfolding upgrade_request_def agent_authorized_def safeEqual_def tok path option.case
    using tok by (simp add: ssh_on_def sample_agent_def sample_tunnel_def sample_connection_def)
  have "authorize sample_sha 1000000 ?req sample_gateway = (Inr 0, sample_gateway)"
    using sample_authorized unfolding authorize_Inr by (auto simp: sample_tunnel_def) code_simp+
  then have open_: "openTunnel_begin sample_sha sample_opts 1000000 ?req sample_gateway = (Inr 0, sample_opening)"
    using sample_open unfolding openTunnel_Inr by simp
  have "sample_run c ([Elsewhere, Elsewhere, Created sample_ws, Elsewhere] @ [Elsewhere]) ((sample_agent sample_gateway)\<lparr>ag_ssh := sample_opening\<rparr>)"
    unfolding sample_run_def
    by (rule agent_run.step[OF 1[unfolded sample_run_def] agent_step.tunnel[OF up, of sample_sha sample_opts 1000000 "Inr 0" sample_opening]]) (simp add: sample_agent_def open_)
  then have 2: "sample_run c [Elsewhere, Elsewhere, Created sample_ws, Elsewhere, Elsewhere] (sample_agent sample_opening)" by (simp add: sample_agent_def)
  have conn: "tunnel_connected 1500000 0 9 sample_opening = (Inr 9, sample_streaming)"
    using sample_connected by (simp add: sample_streaming_def prod_eq_iff)
  have "sample_run c ([Elsewhere, Elsewhere, Created sample_ws, Elsewhere, Elsewhere] @ [Elsewhere]) ((sample_agent sample_opening)\<lparr>ag_ssh := sample_streaming\<rparr>)"
    unfolding sample_run_def
    by (rule agent_run.step[OF 2[unfolded sample_run_def] agent_step.connected[of 0 _ 1500000 9 "Inr 9" sample_streaming]])
       (simp_all add: sample_agent_def conn, simp add: sample_opening_def)
  moreover have "9 \<in> ls_active (gw_objs sample_streaming 0)"
    using sample_connected by (auto simp: sample_streaming_def tunnel_connected_def Let_def split: if_splits)
  ultimately show ?thesis by (simp add: sample_agent_def)
qed

lemma ssh_streams_follow_workspaces_witness:
  "\<forall>c. 9 \<in> ls_active (gw_objs (ag_ssh (sample_agent sample_streaming)) 0)
     \<and> (\<exists>wid \<in> registered (sample_agent sample_streaming). ls_workspaceId (gw_objs (ag_ssh (sample_agent sample_streaming)) 0) = to_lower wid)"
proof
  fix c
  have "0 \<le> lo_maxConnections sample_opts" by (simp add: sample_opts_def)
  then show "9 \<in> ls_active (gw_objs (ag_ssh (sample_agent sample_streaming)) 0)
     \<and> (\<exists>wid \<in> registered (sample_agent sample_streaming). ls_workspaceId (gw_objs (ag_ssh (sample_agent sample_streaming)) 0) = to_lower wid)"
    using ssh_streams_follow_workspaces[OF conjunct1[OF sample_streaming_run[of c], unfolded sample_run_def]] sample_streaming_run
    by (simp add: sample_agent_def) blast
qed

lemma sample_delete: "\<exists>s. delete_workspace rt_stop sample_ws (sample_agent sample_streaming) = Inr s"
proof -
  have "is_uuid4 sample_ws" by code_simp
  from drop_connection_total[OF this, of "sample_agent sample_streaming"] show ?thesis by (auto simp: delete_workspace_def)
qed

lemma ssh_deleted_workspace_closed_witness:
  "\<exists>s. delete_workspace rt_stop sample_ws (sample_agent sample_streaming) = Inr s \<and> ls_workspaceId (gw_objs (ag_ssh s) 0) = to_lower sample_ws
     \<and> ls_active (gw_objs (ag_ssh s) 0) = {}"
proof -
  obtain s where s: "delete_workspace rt_stop sample_ws (sample_agent sample_streaming) = Inr s" using sample_delete by blast
  fix c
  let ?evs = "[Elsewhere, Elsewhere, Created sample_ws, Elsewhere, Elsewhere, Elsewhere]"
  have "sample_run c (?evs @ [Deleted sample_ws]) s"
    unfolding sample_run_def
    by (rule agent_run.step[OF conjunct1[OF sample_streaming_run, unfolded sample_run_def] agent_step.deleted[OF s]])
  then have r: "sample_run c (?evs @ Deleted sample_ws # []) s" by simp
  have m: "0 \<le> lo_maxConnections sample_opts" by (simp add: sample_opts_def)
  have closed: "\<forall>a. ls_workspaceId (gw_objs (ag_ssh s) a) = to_lower sample_ws \<longrightarrow> ls_active (gw_objs (ag_ssh s) a) = {}"
    by (rule ssh_deleted_workspace_closed[OF r[unfolded sample_run_def] m]) simp_all
  obtain g where g: "revokeWorkspace sample_ws sample_streaming = Inr g" "ag_ssh s = g"
    using s by (auto simp: delete_workspace_def drop_connection_def sample_agent_def split: sum.splits)
  have "gw_inv sample_sha sample_opts sample_streaming"
    using qemu.run_inv[OF conjunct1[OF sample_streaming_run, unfolded sample_run_def] m] by (simp add: agent_ok_def sample_agent_def)
  then have "shrinks sample_streaming g"
    using g revoke_where_spec[OF gw_invD(1), of sample_sha sample_opts sample_streaming "\<lambda>l. ls_workspaceId l = to_lower sample_ws"]
    by (simp add: revokeWorkspace_Inr)
  then have "ls_workspaceId (gw_objs g 0) = ls_workspaceId (gw_objs sample_streaming 0)" by (rule shrinks_id)
  moreover have "ls_workspaceId (gw_objs sample_streaming 0) = sample_ws"
    by (simp add: sample_streaming_def tunnel_connected_def connector_done_def Let_def sample_opening_def sample_gateway_def sample_lease_def)
  moreover have "to_lower sample_ws = sample_ws" by code_simp
  ultimately show ?thesis using s closed g(2) by auto
qed

section \<open>Capabilities\<close>

text \<open>What the agent advertises is backed by its configuration. A capability is offered only when the runtime, the
  switches of the operator and the paths it needs are there: for every environment that loads for the agent, SSH is
  offered exactly when it is enabled, and then the runtime is QEMU and there is a CA key; NFS only with SSH, persistence
  and a checked kernel; persistence only when it is enabled, and never in the Firecracker jailer; controlled egress
  exactly when the machines get the proxy.\<close>
theorem advertised_capabilities_backed:
  assumes "loadConfig number is_url url_origin to_ascii cwd source r = Inr c" "r \<noteq> Control"
  shows "let caps = snd (advertisedCapabilities c (createRuntime c)) in
    (fst (cs_ssh caps) = Available \<longleftrightarrow> cfg_sshEnabled c)
    \<and> (fst (cs_ssh caps) = Available \<longrightarrow> cfg_runtime c = ''qemu'' \<and> truthy (cfg_sshCaKeyPath c))
    \<and> (fst (cs_nfs caps) = Available \<longleftrightarrow> cfg_nfsEnabled c \<and> cfg_persistenceEnabled c)
    \<and> (fst (cs_nfs caps) = Available \<longrightarrow> fst (cs_ssh caps) = Available \<and> fst (cs_persistence caps) = Available \<and> truthy (cfg_nfsKernelConfig c))
    \<and> (fst (cs_persistence caps) = Available \<longleftrightarrow> cfg_persistenceEnabled c \<and> \<not> (cfg_runtime c = ''firecracker'' \<and> cfg_firecrackerJailed c))
    \<and> (fst (cs_controlledEgress caps) = Available \<longleftrightarrow> cfg_vmEgress c = ''controlled'')"
proof -
  have "capability_complaints c r = []" using loadConfig_safe[OF assms(1)] by (simp add: assertSafe_Inr)
  then have k: "cfg_sshEnabled c \<longrightarrow> cfg_runtime c = ''qemu'' \<and> truthy (cfg_sshCaKeyPath c)"
    "cfg_nfsEnabled c \<longrightarrow> cfg_sshEnabled c \<and> cfg_runtime c = ''qemu'' \<and> truthy (cfg_nfsKernelConfig c)"
    using assms(2) unfolding capability_complaints_def append_is_Nil_conv if_Nil_iff by blast+
  consider "cfg_runtime c = ''qemu''" | "cfg_runtime c = ''firecracker''" | "cfg_runtime c = ''process''"
    using loadConfig_choices[OF assms(1)] by auto
  then show ?thesis
    by cases (use k in \<open>simp_all add: advertisedCapabilities_def createRuntime_def runtimeCapabilities_def available_def disabled_def unsupported_def Let_def\<close>)
qed

definition ssh_source :: "string \<Rightarrow> string option" where
  "ssh_source = map_of [(''BLOOM_RUNTIME'', ''qemu''), (''BLOOM_SSH_ENABLED'', ''1''), (''BLOOM_SSH_CA_KEY'', ''/etc/bloom/ca''),
     (''BLOOM_EGRESS_ALLOWED_HOSTS'', ''a.example'')]"

lemma ssh_source_loads:
  "case loadConfig (\<lambda>_. None) (\<lambda>_. True) Some id ''/srv'' ssh_source Agent of Inl _ \<Rightarrow> False | Inr c \<Rightarrow> cfg_sshEnabled c"
  by code_simp

lemma advertised_capabilities_backed_witness:
  "\<exists>c. loadConfig (\<lambda>_. None) (\<lambda>_. True) Some id ''/srv'' ssh_source Agent = Inr c
     \<and> fst (cs_ssh (snd (advertisedCapabilities c (createRuntime c)))) = Available \<and> cfg_runtime c = ''qemu''"
proof -
  obtain c where c: "loadConfig (\<lambda>_. None) (\<lambda>_. True) Some id ''/srv'' ssh_source Agent = Inr c" "cfg_sshEnabled c"
    using ssh_source_loads by (auto split: sum.splits)
  show ?thesis using advertised_capabilities_backed[OF c(1)] c by (auto simp: Let_def)
qed

lemma starts_with_split: "starts_with v p \<Longrightarrow> v = p @ drop (length p) v"
  by (metis starts_with_def append_take_drop_id)

lemma bearer_Some: "bearer (Some v) = token \<Longrightarrow> v = token \<or> v = ''Bearer '' @ token"
  using starts_with_split[of v "''Bearer ''"] by (auto simp: bearer_def eval_nat_numeral split: if_splits)

text \<open>In public mode only the bearer of a long secret reaches the agent: the token is compared whole.\<close>

lemma agent_access_guarded:
  assumes "loadConfig number is_url url_origin to_ascii cwd source r = Inr c" "cfg_publicMode c"
    and "agent_authorized c authorization"
  shows "\<exists>token. authorization \<in> {Some token, Some (''Bearer '' @ token)} \<and> token = cfg_agentToken c \<and> token \<noteq> []"
proof -
  have "\<not> weak_secret (cfg_agentToken c)"
    using loadConfig_safe[OF assms(1)] assms(2) by (auto simp: assertSafe_Inr public_complaints_def append_is_Nil_conv if_Nil_iff)
  then have t: "cfg_agentToken c \<noteq> []" by (auto simp: weak_secret_def)
  have b: "bearer authorization = cfg_agentToken c" using assms(3) by (simp add: agent_authorized_def safeEqual_def)
  then obtain v where v: "authorization = Some v" using t by (cases authorization) (auto simp: bearer_def)
  show ?thesis using bearer_Some[OF b[unfolded v]] t unfolding v by blast
qed

section \<open>Requests to the guest\<close>

definition ceremony_approve_request :: "string \<Rightarrow> ceremony_assertion \<Rightarrow> guest_request" where
  "ceremony_approve_request txId assertion =
     \<lparr>gq_version = 1, gq_id = ''ceremony_approve_'' @ filter (\<lambda>ch. ch \<noteq> CHR ''-'') txId, gq_operation = CeremonyApprove txId assertion\<rparr>"

text \<open>
  The request id is built from the transaction id, and both are bounded by 64 characters: an id that the protocol
  accepts is refused when it has more than 47 characters beside its hyphens.
\<close>

lemma long_transaction_refused:
  assumes "47 < length (filter (\<lambda>ch. ch \<noteq> CHR ''-'') txId)"
  shows "\<not> GuestRequest is_uuid (ceremony_approve_request txId assertion)"
proof -
  have "64 < length (gq_id (ceremony_approve_request txId assertion))" using assms by (simp add: ceremony_approve_request_def)
  then have "\<not> full request_id_rx (gq_id (ceremony_approve_request txId assertion))"
    by (simp add: full_iff request_id_rx_def in_lang_Rep_Cls del: lang.simps)
  then show ?thesis by (simp add: GuestRequest_def)
qed

lemma long_transaction_valid: "full request_id_rx (replicate 64 (CHR ''a''))"
  by code_simp

text \<open>Every runtime has a method \<open>guestRequest\<close>, so the process runtime advertises jobs; it refuses them all.\<close>

lemma process_jobs_advertised:
  assumes "cfg_runtime c = ''process''"
  shows "fst (cs_jobs (snd (advertisedCapabilities c (createRuntime c)))) = Available
    \<and> fst (cs_bloom (snd (advertisedCapabilities c (createRuntime c)))) = Available"
  using assms by (simp add: advertisedCapabilities_def createRuntime_def runtimeCapabilities_def available_def Let_def)

lemma process_jobs_refused:
  "\<exists>e. process_guestRequest sha256 mock wid (JobStart j argv cwd environment timeout) s store = (Inl e, store)"
  "\<exists>e. process_guestRequest sha256 mock wid BloomStatus s store = (Inl e, store)"
  by (auto simp: process_guestRequest_def)

end
