(* ===== verification/JobStream.thy ===== *)
theory JobStream
  imports Jobs
begin

text \<open>
  The log of a job on its way from the guest to the page: the ring buffer of the guest agent
  (\<open>ops/guest-control/src/logs.rs\<close>), the event stream of the control server
  (\<open>GET /api/workspaces/:id/jobs/:jobId/events\<close> of \<open>src/control/server.ts\<close>) and the page itself
  (\<open>applyJobStatus\<close>, \<open>streamJob\<close>, \<open>fallbackJobPolling\<close> and \<open>cancelJob\<close> of \<open>web/main.ts\<close>).

  A reply is computed from the job at one moment and reaches the page at a later one; output, the end of the job,
  broken connections and cancelling come in between. The state of the whole is \<open>system\<close>, its steps
  \<open>job_step\<close>. What the page shows is a list of the byte chunks it decodes and of the markers of lost output;
  the text decoder is left out. A cursor is a 64-bit integer in the guest, which a log does not reach.
\<close>

section \<open>The ring buffer\<close>

definition MAX_LOG_BYTES :: nat where "MAX_LOG_BYTES = 1024 * 1024"

record log_ring =
  lg_buf :: octets
  lg_start :: nat
  lg_end :: nat

definition new_ring :: log_ring where
  "new_ring = \<lparr>lg_buf = [], lg_start = 0, lg_end = 0\<rparr>"

definition ring_append :: "octets \<Rightarrow> log_ring \<Rightarrow> log_ring" where
  "ring_append chunk r =
     (if chunk = [] then r
      else let buf = lg_buf r @ chunk; overflow = length buf - MAX_LOG_BYTES
           in \<lparr>lg_buf = drop overflow buf, lg_start = lg_start r + overflow, lg_end = lg_end r + length chunk\<rparr>)"

definition ring_slice :: "int \<Rightarrow> nat \<Rightarrow> bool \<Rightarrow> log_ring \<Rightarrow> job_log_chunk option" where
  "ring_slice requested_offset maximum terminal r =
     (if int (lg_end r) < requested_offset then None
      else let offset = max requested_offset (int (lg_start r));
               relative = nat (offset - int (lg_start r));
               chunk = take maximum (drop relative (lg_buf r));
               next_offset = offset + int (length chunk)
           in Some \<lparr>jl_offset = offset, jl_nextOffset = next_offset, jl_endOffset = int (lg_end r),
                    jl_truncatedBefore = (requested_offset < int (lg_start r)),
                    jl_eof = (terminal \<and> next_offset = int (lg_end r)), jl_data = base64_encode chunk\<rparr>)"

text \<open>A ring is the end of the log: the abstraction of all that was appended.\<close>

definition ring_of :: "octets \<Rightarrow> log_ring" where
  "ring_of log = \<lparr>lg_buf = drop (length log - MAX_LOG_BYTES) log, lg_start = length log - MAX_LOG_BYTES, lg_end = length log\<rparr>"

lemma ring_of_Nil: "ring_of [] = new_ring"
  by (simp add: ring_of_def new_ring_def)

lemma ring_of_simps [simp]:
  "lg_start (ring_of log) = length log - MAX_LOG_BYTES" "lg_end (ring_of log) = length log"
  by (simp_all add: ring_of_def)

lemma ring_append_of [simp]: "ring_append chunk (ring_of log) = ring_of (log @ chunk)"
proof -
  let ?M = MAX_LOG_BYTES
  have "drop (length (drop (length log - ?M) log @ chunk) - ?M) (drop (length log - ?M) log @ chunk)
      = drop (length (log @ chunk) - ?M) (log @ chunk)"
    by (cases "length log \<le> ?M") (simp_all add: add.commute)
  moreover have "length log - ?M + (length (drop (length log - ?M) log @ chunk) - ?M) = length (log @ chunk) - ?M"
    by simp
  ultimately show ?thesis by (auto simp: ring_append_def ring_of_def Let_def)
qed

text \<open>What a read at a cursor returns.\<close>

definition chunk_of :: "octets \<Rightarrow> nat \<Rightarrow> nat \<Rightarrow> bool \<Rightarrow> job_log_chunk" where
  "chunk_of log k maximum terminal =
     (let a = max k (length log - MAX_LOG_BYTES); bs = take maximum (drop a log)
      in \<lparr>jl_offset = int a, jl_nextOffset = int (a + length bs), jl_endOffset = int (length log),
          jl_truncatedBefore = (k < length log - MAX_LOG_BYTES), jl_eof = (terminal \<and> a + length bs = length log),
          jl_data = base64_encode bs\<rparr>)"

lemma ring_slice_of:
  "ring_slice (int k) maximum terminal (ring_of log) = (if length log < k then None else Some (chunk_of log k maximum terminal))"
proof (cases "length log < k")
  case False
  define s where "s = length log - MAX_LOG_BYTES"
  have a: "max (int k) (int s) = int (max k s)" by simp
  have n: "nat (int (max k s) - int s) = max k s - s" by arith
  have d: "take maximum (drop (max k s - s) (drop s log)) = take maximum (drop (max k s) log)" by simp
  have r: "ring_of log = \<lparr>lg_buf = drop s log, lg_start = s, lg_end = length log\<rparr>" by (simp add: ring_of_def s_def)
  have e: "int (max k s) + int (length bs) = int (length log) \<longleftrightarrow> max k s + length bs = length log" for bs :: octets by arith
  show ?thesis using False unfolding ring_slice_def r chunk_of_def Let_def s_def[symmetric] log_ring.simps a n d e by simp
qed (simp add: ring_slice_def)

text \<open>C40. The ring buffer implements its log. Whatever is appended, and in whatever pieces, the buffer is the last
  mebibyte of all output and its cursors are absolute: a read at a cursor within the log returns exactly the bytes of
  the output from there, or from the oldest byte that is kept, up to the size asked for.
\<close>
theorem log_ring_refines:
  "let log = concat chunks; r = foldl (\<lambda>r chunk. ring_append chunk r) new_ring chunks;
       a = max k (length log - MAX_LOG_BYTES); bs = take maximum (drop a log)
   in r = ring_of log \<and>
      ring_slice (int k) maximum terminal r =
        (if length log < k then None
         else Some \<lparr>jl_offset = int a, jl_nextOffset = int (a + length bs), jl_endOffset = int (length log),
                jl_truncatedBefore = (k < length log - MAX_LOG_BYTES), jl_eof = (terminal \<and> a + length bs = length log),
                jl_data = base64_encode bs\<rparr>)"
proof -
  have "foldl (\<lambda>r chunk. ring_append chunk r) (ring_of log) chunks = ring_of (log @ concat chunks)" for log
    by (induction chunks arbitrary: log) simp_all
  from this[of "[]"] have "foldl (\<lambda>r chunk. ring_append chunk r) new_ring chunks = ring_of (concat chunks)"
    by (simp add: ring_of_Nil)
  then show ?thesis by (simp only: Let_def ring_slice_of) (simp add: chunk_of_def Let_def)
qed

lemma chunk_of_simps:
  "jl_offset (chunk_of log k m t) = int (max k (length log - MAX_LOG_BYTES))"
  "jl_endOffset (chunk_of log k m t) = int (length log)"
  "jl_truncatedBefore (chunk_of log k m t) = (k < length log - MAX_LOG_BYTES)"
  "base64_decode (jl_data (chunk_of log k m t)) = take m (drop (max k (length log - MAX_LOG_BYTES)) log)"
  "jl_data (chunk_of log k m t) = [] \<longleftrightarrow> m = 0 \<or> length log \<le> max k (length log - MAX_LOG_BYTES)"
  by (simp_all add: chunk_of_def Let_def)

lemma chunk_of_next:
  "k \<le> length log \<Longrightarrow> jl_nextOffset (chunk_of log k m t) = int (min (length log) (max k (length log - MAX_LOG_BYTES) + m))"
  by (simp add: chunk_of_def Let_def) arith

text \<open>Every chunk the guest sends passes the schema of the jobs client.\<close>

lemma chunk_of_valid:
  assumes "k \<le> length log" "m \<le> MAX_JOB_LOG_CHUNK_BYTES" "int (length log) \<le> max_safe_integer"
  shows "JobLogChunk (chunk_of log k m t)"
proof -
  have "jl_offset (chunk_of log k m t) \<le> jl_nextOffset (chunk_of log k m t)" "jl_nextOffset (chunk_of log k m t) \<le> int (length log)"
    using assms(1) by (simp_all add: chunk_of_next chunk_of_simps)
  moreover have "base64_encode (base64_decode (jl_data (chunk_of log k m t))) = jl_data (chunk_of log k m t)"
    by (simp add: chunk_of_def Let_def)
  moreover have "int (length (base64_decode (jl_data (chunk_of log k m t)))) = jl_nextOffset (chunk_of log k m t) - jl_offset (chunk_of log k m t)"
    by (simp add: chunk_of_def Let_def)
  moreover have "length (base64_decode (jl_data (chunk_of log k m t))) \<le> MAX_JOB_LOG_CHUNK_BYTES"
    using assms(2) by (simp add: chunk_of_simps)
  moreover have "0 \<le> jl_offset (chunk_of log k m t)" by (simp add: chunk_of_simps)
  ultimately show ?thesis using assms(3) by (simp add: JobLogChunk_def Let_def int_between_def is_safe_integer_def chunk_of_simps(2))
qed

section \<open>The job, the event stream and the page\<close>

text \<open>\<open>Job\<close> of \<open>ops/guest-control/src/jobs.rs\<close>, as far as a status reports it, and \<open>status_of_inner\<close>: a cursor beyond the
  end gives an object without the fields of a chunk, which no schema accepts.\<close>

record guest_job =
  gj_id :: string
  gj_state :: job_state
  gj_createdAt :: int
  gj_startedAt :: "int option"
  gj_finishedAt :: "int option"
  gj_exitCode :: "int option"
  gj_signal :: "int option"
  gj_timeoutMs :: int
  gj_logs :: log_ring

definition status_of_inner :: "guest_job \<Rightarrow> int \<Rightarrow> nat \<Rightarrow> job_status option" where
  "status_of_inner j log_offset max_bytes =
     map_option (\<lambda>logs. \<lparr>jt_jobId = gj_id j, jt_state = gj_state j, jt_createdAt = gj_createdAt j, jt_startedAt = gj_startedAt j,
         jt_finishedAt = gj_finishedAt j, jt_exitCode = gj_exitCode j, jt_signal = gj_signal j, jt_timeoutMs = gj_timeoutMs j,
         jt_logs = logs\<rparr>)
       (ring_slice log_offset max_bytes (isTerminalJobState (gj_state j)) (gj_logs j))"

definition cancel_status :: "guest_job \<Rightarrow> job_status option" where
  "cancel_status j = status_of_inner j (int (lg_end (gj_logs j))) 1"

text \<open>One turn of the loop of the event stream: the status that is sent, and the cursor of the next turn unless the stream ends.\<close>

definition EVENT_BYTES :: nat where "EVENT_BYTES = 64 * 1024"

definition events_turn :: "('e, job_status) res \<Rightarrow> job_status option \<times> int option" where
  "events_turn reply =
     (case reply of
        Inl _ \<Rightarrow> (None, None)
      | Inr st \<Rightarrow> (Some st, if isTerminalJobState (jt_state st) then None else Some (jl_nextOffset (jt_logs st))))"

text \<open>The loop: \<open>closed n\<close> says whether the request is closed before turn \<open>n\<close>, and \<open>reply n\<close> is the reply of that turn.\<close>

partial_function (option) events_loop :: "(nat \<Rightarrow> bool) \<Rightarrow> (nat \<Rightarrow> int \<Rightarrow> ('e, job_status) res) \<Rightarrow> nat \<Rightarrow> int \<Rightarrow> job_status list option" where
  "events_loop closed reply n offset =
     (if closed n then Some []
      else case events_turn (reply n offset) of
        (None, _) \<Rightarrow> Some []
      | (Some st, None) \<Rightarrow> Some [st]
      | (Some st, Some offset') \<Rightarrow> Option.bind (events_loop closed reply (Suc n) offset') (\<lambda>sts. Some (st # sts)))"

text \<open>The page. \<open>pg_events\<close> is whether \<open>jobEvents\<close> is set, \<open>pg_timer\<close> whether a poll is scheduled.\<close>

datatype piece = Truncated | Bytes octets

record page =
  pg_active :: "job_status option"
  pg_offset :: int
  pg_output :: "piece list"
  pg_events :: bool
  pg_timer :: bool

definition new_page :: page where
  "new_page = \<lparr>pg_active = None, pg_offset = 0, pg_output = [], pg_events = False, pg_timer = False\<rparr>"

definition closeJobStream :: "page \<Rightarrow> page" where
  "closeJobStream p = p\<lparr>pg_events := False, pg_timer := False\<rparr>"

definition appendJobLog :: "piece \<Rightarrow> page \<Rightarrow> page" where
  "appendJobLog x p = p\<lparr>pg_output := pg_output p @ [x]\<rparr>"

definition applyJobStatus :: "job_status \<Rightarrow> page \<Rightarrow> page" where
  "applyJobStatus status p =
     (let logs = jt_logs status;
          p1 = p\<lparr>pg_active := Some status\<rparr>;
          p2 = (if jl_truncatedBefore logs \<and> pg_offset p1 < jl_offset logs then appendJobLog Truncated p1 else p1);
          p3 = (if pg_offset p2 < jl_nextOffset logs \<and> jl_data logs \<noteq> []
                then (appendJobLog (Bytes (base64_decode (jl_data logs))) p2)\<lparr>pg_offset := jl_nextOffset logs\<rparr> else p2)
      in if isTerminalJobState (jt_state status) then closeJobStream p3 else p3)"

text \<open>\<open>startJob\<close> after its reply, and \<open>streamJob\<close>.\<close>

definition streamJob :: "page \<Rightarrow> page" where
  "streamJob p = (closeJobStream p)\<lparr>pg_events := True\<rparr>"

definition startJob_reply :: "job_status \<Rightarrow> page \<Rightarrow> page" where
  "startJob_reply status p = streamJob (applyJobStatus status (p\<lparr>pg_active := Some status, pg_offset := 0, pg_output := []\<rparr>))"

definition page_done :: "page \<Rightarrow> bool" where
  "page_done p \<longleftrightarrow> (case pg_active p of None \<Rightarrow> False | Some st \<Rightarrow> isTerminalJobState (jt_state st))"

definition onerror :: "page \<Rightarrow> page \<times> bool" where
  "onerror p = (if pg_active p = None \<or> page_done p then (closeJobStream p, False) else (closeJobStream p, True))"

definition poll_reply :: "job_status \<Rightarrow> page \<Rightarrow> page" where
  "poll_reply status p =
     (let p' = applyJobStatus status p in if isTerminalJobState (jt_state status) then p' else p'\<lparr>pg_timer := True\<rparr>)"

section \<open>The whole\<close>

text \<open>
  \<open>sy_start\<close> follows the request of \<open>startJob\<close>; its reply meets the page in any state, that of an earlier job included.
  \<open>sy_sse\<close> is the cursor of the loop of the event stream while it runs, \<open>sy_wire\<close> the events it has sent that the page
  has not seen. A poll is asked for a cursor and answered later; at most one is under way, since the page gives up a
  stream once and asks again only after an answer. \<open>sy_cancels\<close> are replies to cancellations on their way. This is one
  job: the next \<open>startJob\<close> begins another system.
\<close>

datatype start = Requested | Replied job_status | Started

datatype poll = NoPoll | Asked int | Answered job_status

record system =
  sy_job :: guest_job
  sy_start :: start
  sy_sse :: "int option"
  sy_wire :: "job_status list"
  sy_poll :: poll
  sy_cancels :: "job_status list"
  sy_page :: page

definition job_accepted :: "guest_job \<Rightarrow> system" where
  "job_accepted j = \<lparr>sy_job = j, sy_start = Requested, sy_sse = None, sy_wire = [], sy_poll = NoPoll, sy_cancels = [], sy_page = new_page\<rparr>"

datatype job_event = Printed octets | Guest | Network | Page | Cancelling

inductive job_step :: "job_event \<Rightarrow> system \<Rightarrow> system \<Rightarrow> bool" where
  printed: "\<not> isTerminalJobState (gj_state (sy_job s)) \<Longrightarrow>
     job_step (Printed bs) s (s\<lparr>sy_job := (sy_job s)\<lparr>gj_logs := ring_append bs (gj_logs (sy_job s))\<rparr>\<rparr>)"
| changed: "\<not> isTerminalJobState (gj_state (sy_job s)) \<Longrightarrow> gj_logs j = gj_logs (sy_job s) \<Longrightarrow> job_step Guest s (s\<lparr>sy_job := j\<rparr>)"
| start_replied: "status_of_inner (sy_job s) 0 MAX_JOB_LOG_CHUNK_BYTES = Some st \<Longrightarrow> sy_start s = Requested \<Longrightarrow>
     job_step Network s (s\<lparr>sy_start := Replied st\<rparr>)"
| started: "sy_start s = Replied st \<Longrightarrow> p = startJob_reply st earlier \<Longrightarrow>
     job_step Page s (s\<lparr>sy_start := Started, sy_page := p, sy_sse := Some (pg_offset p)\<rparr>)"
| turn: "sy_sse s = Some offset \<Longrightarrow> status_of_inner (sy_job s) offset EVENT_BYTES = Some st \<Longrightarrow>
     job_step Network s (s\<lparr>sy_sse := snd (events_turn (Inr st :: (unit, job_status) res)), sy_wire := sy_wire s @ [st]\<rparr>)"
| stream_ended: "job_step Network s (s\<lparr>sy_sse := None\<rparr>)"
| event: "sy_wire s = st # sts \<Longrightarrow> pg_events (sy_page s) \<Longrightarrow>
     job_step Page s (s\<lparr>sy_wire := sts, sy_page := applyJobStatus st (sy_page s)\<rparr>)"
| broken: "pg_events (sy_page s) \<Longrightarrow> onerror (sy_page s) = (p, fallback) \<Longrightarrow>
     job_step Page s (s\<lparr>sy_sse := None, sy_wire := [], sy_page := p, sy_poll := if fallback then Asked (pg_offset p) else sy_poll s\<rparr>)"
| answered: "sy_poll s = Asked offset \<Longrightarrow> status_of_inner (sy_job s) offset MAX_JOB_LOG_CHUNK_BYTES = Some st \<Longrightarrow>
     job_step Network s (s\<lparr>sy_poll := Answered st\<rparr>)"
| poll_failed: "job_step Network s (s\<lparr>sy_poll := NoPoll\<rparr>)"
| polled: "sy_poll s = Answered st \<Longrightarrow> job_step Page s (s\<lparr>sy_poll := NoPoll, sy_page := poll_reply st (sy_page s)\<rparr>)"
| timer: "pg_timer (sy_page s) \<Longrightarrow>
     job_step Page s (s\<lparr>sy_poll := Asked (pg_offset (sy_page s)), sy_page := (sy_page s)\<lparr>pg_timer := False\<rparr>\<rparr>)"
| cancel: "sy_start s = Started \<Longrightarrow> cancel_status (sy_job s) = Some st \<Longrightarrow> job_step Cancelling s (s\<lparr>sy_cancels := st # sy_cancels s\<rparr>)"
| cancelled: "st \<in> set (sy_cancels s) \<Longrightarrow>
     job_step Cancelling s (s\<lparr>sy_cancels := remove1 st (sy_cancels s), sy_page := applyJobStatus st (sy_page s)\<rparr>)"

inductive job_run :: "job_event list \<Rightarrow> guest_job \<Rightarrow> system \<Rightarrow> bool" where
  init: "gj_logs j = new_ring \<Longrightarrow> job_run [] j (job_accepted j)"
| step: "job_run evs j s \<Longrightarrow> job_step e s s' \<Longrightarrow> job_run (evs @ [e]) j s'"

fun printed_by :: "job_event \<Rightarrow> octets" where
  "printed_by (Printed bs) = bs"
| "printed_by _ = []"

definition printed_of :: "job_event list \<Rightarrow> octets" where
  "printed_of evs = concat (map printed_by evs)"

section \<open>What is shown\<close>

text \<open>The pieces show the log from one position to another: every chunk is the bytes there, and a marker stands for bytes
  that the ring had dropped.\<close>

fun log_shows :: "octets \<Rightarrow> nat \<Rightarrow> piece list \<Rightarrow> nat \<Rightarrow> bool" where
  "log_shows log a [] b \<longleftrightarrow> a = b"
| "log_shows log a (Bytes bs # ps) b \<longleftrightarrow> bs \<noteq> [] \<and> take (length bs) (drop a log) = bs \<and> log_shows log (a + length bs) ps b"
| "log_shows log a (Truncated # ps) b \<longleftrightarrow> (\<exists>a' \<in> {a<..length log - MAX_LOG_BYTES}. log_shows log a' ps b)"

lemma log_shows_append: "log_shows log a (ps @ qs) c \<longleftrightarrow> (\<exists>b. log_shows log a ps b \<and> log_shows log b qs c)"
  by (induction log a ps c rule: log_shows.induct) auto

lemma log_shows_grow: "log_shows log a ps b \<Longrightarrow> log_shows (log @ xs) a ps b"
proof (induction log a ps b rule: log_shows.induct)
  case (2 log a bs ps b)
  then have "length bs \<le> length log - a" by (metis length_drop length_take min.cobounded1 log_shows.simps(2))
  with 2 show ?case by simp
next
  case (3 log a ps b)
  then obtain a' where a': "a < a'" "a' \<le> length log - MAX_LOG_BYTES" "log_shows log a' ps b" by auto
  with 3(1)[of a'] have "log_shows (log @ xs) a' ps b" by simp
  then show ?case using a' by (auto intro!: bexI[of _ a'])
qed simp

lemma log_shows_bound: "log_shows log a ps b \<Longrightarrow> a \<le> length log \<Longrightarrow> b \<le> length log"
proof (induction log a ps b rule: log_shows.induct)
  case (2 log a bs ps b)
  then have "length bs = min (length bs) (length log - a)" by (metis length_drop length_take log_shows.simps(2) min.commute)
  then have "a + length bs \<le> length log" using 2(3) by arith
  then show ?case using 2 by simp
qed auto

fun shown_bytes :: "piece list \<Rightarrow> octets" where
  "shown_bytes [] = []"
| "shown_bytes (Bytes bs # ps) = bs @ shown_bytes ps"
| "shown_bytes (Truncated # ps) = shown_bytes ps"

text \<open>Nothing is lost from a log that the ring holds.\<close>

lemma log_shows_complete:
  "log_shows log a ps b \<Longrightarrow> length log \<le> MAX_LOG_BYTES \<Longrightarrow> a \<le> length log \<Longrightarrow> take b log = take a log @ shown_bytes ps \<and> Truncated \<notin> set ps"
proof (induction log a ps b rule: log_shows.induct)
  case (2 log a bs ps b)
  have "length bs = min (length bs) (length log - a)" using 2(2) by (metis length_drop length_take log_shows.simps(2) min.commute)
  then have le: "a + length bs \<le> length log" using 2(4) by arith
  have "take (a + length bs) log = take a log @ bs" using 2(2) by (simp add: take_add)
  then show ?case using 2(1) 2(2,3) le by simp
qed auto

section \<open>Following a job\<close>

text \<open>A status that answers a read of the log at position \<open>k\<close>, made when the log was as it is now or shorter.\<close>

definition answers :: "guest_job \<Rightarrow> octets \<Rightarrow> nat \<Rightarrow> job_status \<Rightarrow> bool" where
  "answers j log k st \<longleftrightarrow>
     (\<exists>old xs m. log = old @ xs \<and> k \<le> length old \<and> 0 < m \<and> jt_logs st = chunk_of old k m (isTerminalJobState (jt_state st))
        \<and> (isTerminalJobState (jt_state st) \<longrightarrow> xs = [] \<and> isTerminalJobState (gj_state j)))"

definition silent :: "job_status \<Rightarrow> bool" where
  "silent st \<longleftrightarrow> jl_data (jt_logs st) = [] \<and> \<not> jl_truncatedBefore (jt_logs st)"

abbreviation next_of :: "job_status \<Rightarrow> nat" where
  "next_of st \<equiv> nat (jl_nextOffset (jt_logs st))"

lemma answers_status:
  assumes "gj_logs j = ring_of log" "status_of_inner j (int k) m = Some st" "0 < m"
  shows "answers j log k st" and "jt_state st = gj_state j"
proof -
  have st: "k \<le> length log" "jt_logs st = chunk_of log k m (isTerminalJobState (gj_state j))" "jt_state st = gj_state j"
    using assms(1,2) by (auto simp: status_of_inner_def ring_slice_of split: if_splits)
  then show "jt_state st = gj_state j" by simp
  show "answers j log k st"
    unfolding answers_def by (rule exI[of _ log], rule exI[of _ "[]"], rule exI[of _ m]) (use st assms(3) in auto)
qed

lemma cancel_silent:
  assumes "gj_logs j = ring_of log" "cancel_status j = Some st"
  shows "silent st" and "jt_state st = gj_state j"
  using assms by (auto simp: cancel_status_def status_of_inner_def ring_slice_of silent_def chunk_of_simps split: if_splits)

lemma answers_grow:
  "answers j log k st \<Longrightarrow> \<not> isTerminalJobState (gj_state j) \<Longrightarrow> answers j' (log @ xs) k st"
  unfolding answers_def by (metis append.assoc)

lemma answers_job: "answers j log k st \<Longrightarrow> \<not> isTerminalJobState (gj_state j) \<Longrightarrow> answers j' log k st"
  unfolding answers_def by metis

lemma answers_next: "answers j log k st \<Longrightarrow> k \<le> next_of st \<and> 0 \<le> jl_nextOffset (jt_logs st)"
  by (auto simp: answers_def chunk_of_next)

lemma answers_end:
  "answers j log k st \<Longrightarrow> isTerminalJobState (jt_state st) \<Longrightarrow> jl_endOffset (jt_logs st) = int (length log)"
  by (auto simp: answers_def chunk_of_simps)

lemma applyJobStatus_fields [simp]:
  "pg_active (applyJobStatus st p) = Some st"
  "pg_events (applyJobStatus st p) \<longleftrightarrow> pg_events p \<and> \<not> isTerminalJobState (jt_state st)"
  "pg_timer (applyJobStatus st p) \<longleftrightarrow> pg_timer p \<and> \<not> isTerminalJobState (jt_state st)"
  by (auto simp: applyJobStatus_def closeJobStream_def appendJobLog_def Let_def)

lemma apply_silent: "silent st \<Longrightarrow> pg_output (applyJobStatus st p) = pg_output p \<and> pg_offset (applyJobStatus st p) = pg_offset p"
  by (auto simp: applyJobStatus_def closeJobStream_def appendJobLog_def silent_def Let_def)

lemma apply_answer:
  assumes "answers j log k st" "pg_offset p = int k" "log_shows log a (pg_output p) k"
  shows "log_shows log a (pg_output (applyJobStatus st p)) (next_of st)"
    and "pg_offset (applyJobStatus st p) = jl_nextOffset (jt_logs st)"
proof -
  obtain old xs m where o: "log = old @ xs" "k \<le> length old" "0 < m" "jt_logs st = chunk_of old k m (isTerminalJobState (jt_state st))"
    using assms(1) by (auto simp: answers_def)
  define s where "s = length old - MAX_LOG_BYTES"
  define bs where "bs = take m (drop (max k s) old)"
  have M: "0 < MAX_LOG_BYTES" by (simp add: MAX_LOG_BYTES_def)
  have c: "jl_offset (jt_logs st) = int (max k s)" "jl_truncatedBefore (jt_logs st) = (k < s)" "base64_decode (jl_data (jt_logs st)) = bs"
    "jl_data (jt_logs st) = [] \<longleftrightarrow> bs = []" "jl_nextOffset (jt_logs st) = int (max k s + length bs)"
    unfolding o(4) chunk_of_simps s_def bs_def by (auto simp: chunk_of_def Let_def)
  have len: "length bs = min m (length old - max k s)" by (simp add: bs_def)
  have e: "bs = [] \<longleftrightarrow> max k s = length old" using o(2,3) M len by (cases "bs = []") (auto simp: s_def)
  have sk: "bs = [] \<Longrightarrow> max k s = k" using e M by (auto simp: s_def max_def split: if_splits)
  have "take (length bs) (drop (max k s) old) = bs" unfolding bs_def by (metis append_take_drop_id append_eq_conv_conj)
  then have t: "take (length bs) (drop (max k s) log) = bs" using o(1) len by simp
  have "log_shows log a (pg_output p @ (if k < s then [Truncated] else []) @ (if bs = [] then [] else [Bytes bs])) (max k s + length bs)"
  proof (cases "bs = []")
    case True
    then show ?thesis using assms(3) sk by (simp add: max_def split: if_splits)
  next
    case False
    have "s \<le> length log - MAX_LOG_BYTES" by (simp add: s_def o(1))
    then have "log_shows log k ((if k < s then [Truncated] else []) @ [Bytes bs]) (max k s + length bs)"
      using t False by (auto simp: max_def split: if_splits)
    then show ?thesis using assms(3) False by (auto simp: log_shows_append)
  qed
  moreover have q: "pg_output (applyJobStatus st p) = pg_output p @ (if k < s then [Truncated] else []) @ (if bs = [] then [] else [Bytes bs])
      \<and> pg_offset (applyJobStatus st p) = int (max k s + length bs)"
  proof (cases "bs = []")
    case True
    then have "max k s = k" by (rule sk)
    then show ?thesis using True
      by (simp add: applyJobStatus_def closeJobStream_def appendJobLog_def Let_def c assms(2) max_def split: if_splits)
  next
    case False
    then have "k < max k s + length bs" by (cases bs) auto
    then have "int k < int (max k s + length bs)" "int k < int (max k s) \<longleftrightarrow> k < s" by auto
    then show ?thesis using False
      by (simp add: applyJobStatus_def closeJobStream_def appendJobLog_def Let_def c assms(2) del: of_nat_add of_nat_max)
  qed
  moreover have n: "next_of st = max k s + length bs" unfolding c(5) by (rule nat_int)
  ultimately show "log_shows log a (pg_output (applyJobStatus st p)) (next_of st)" unfolding n by simp
  show "pg_offset (applyJobStatus st p) = jl_nextOffset (jt_logs st)" using q c(5) by simp
qed

text \<open>The events on the wire, from a position to the cursor of the loop.\<close>

fun chain :: "guest_job \<Rightarrow> octets \<Rightarrow> nat \<Rightarrow> job_status list \<Rightarrow> int option \<Rightarrow> bool" where
  "chain j log k [] sse \<longleftrightarrow> (case sse of None \<Rightarrow> True | Some offset \<Rightarrow> offset = int k)"
| "chain j log k (st # sts) sse \<longleftrightarrow> answers j log k st \<and> chain j log (next_of st) sts sse"

lemma chain_snoc:
  "chain j log k sts (Some offset) \<Longrightarrow> 0 \<le> offset \<Longrightarrow> answers j log (nat offset) st \<Longrightarrow> sse \<in> {None, Some (jl_nextOffset (jt_logs st))}
     \<Longrightarrow> chain j log k (sts @ [st]) sse"
proof (induction sts arbitrary: k)
  case Nil
  then show ?case using answers_next[OF Nil(3)] by (auto split: option.splits)
qed auto

lemma chain_None: "chain j log k sts sse \<Longrightarrow> chain j log k sts None"
  by (induction sts arbitrary: k) auto

lemma chain_grow: "chain j log k sts sse \<Longrightarrow> \<not> isTerminalJobState (gj_state j) \<Longrightarrow> chain j' (log @ xs) k sts sse"
  by (induction sts arbitrary: k) (auto intro: answers_grow)

lemma chain_cursor: "chain j log k sts (Some offset) \<Longrightarrow> 0 \<le> offset"
proof (induction sts arbitrary: k)
  case (Cons st sts)
  then show ?case using Cons.IH[of "next_of st"] by simp
qed simp

definition idle :: "system \<Rightarrow> bool" where
  "idle s \<longleftrightarrow> sy_sse s = None \<and> sy_wire s = [] \<and> sy_poll s = NoPoll \<and> sy_cancels s = [] \<and> sy_page s = new_page"

definition poll_ok :: "octets \<Rightarrow> system \<Rightarrow> bool" where
  "poll_ok log s \<longleftrightarrow>
     (case sy_poll s of
        NoPoll \<Rightarrow> True
      | Asked offset \<Rightarrow> offset = pg_offset (sy_page s) \<and> \<not> pg_timer (sy_page s)
      | Answered st \<Rightarrow> answers (sy_job s) log (nat (pg_offset (sy_page s))) st \<and> \<not> pg_timer (sy_page s))"

definition stream_ok :: "octets \<Rightarrow> system \<Rightarrow> bool" where
  "stream_ok log s \<longleftrightarrow>
     (pg_events (sy_page s) \<longrightarrow>
        chain (sy_job s) log (nat (pg_offset (sy_page s))) (sy_wire s) (sy_sse s) \<and> sy_poll s = NoPoll \<and> \<not> pg_timer (sy_page s))"

definition shown_ok :: "octets \<Rightarrow> system \<Rightarrow> bool" where
  "shown_ok log s \<longleftrightarrow> 0 \<le> pg_offset (sy_page s) \<and> log_shows log 0 (pg_output (sy_page s)) (nat (pg_offset (sy_page s)))"

definition cancels_ok :: "system \<Rightarrow> bool" where
  "cancels_ok s \<longleftrightarrow> (\<forall>st \<in> set (sy_cancels s). silent st \<and> (isTerminalJobState (jt_state st) \<longrightarrow> isTerminalJobState (gj_state (sy_job s))))"

definition job_inv :: "octets \<Rightarrow> system \<Rightarrow> bool" where
  "job_inv log s \<longleftrightarrow> gj_logs (sy_job s) = ring_of log \<and> cancels_ok s \<and>
     (case sy_start s of
        Requested \<Rightarrow> idle s
      | Replied st \<Rightarrow> idle s \<and> answers (sy_job s) log 0 st
      | Started \<Rightarrow> shown_ok log s \<and> stream_ok log s \<and> poll_ok log s)"

lemmas job_inv_defs = job_inv_def idle_def poll_ok_def stream_ok_def shown_ok_def cancels_ok_def

lemma job_inv_Started:
  assumes "job_inv log s" "pg_events (sy_page s) \<or> pg_timer (sy_page s) \<or> sy_poll s \<noteq> NoPoll \<or> sy_sse s \<noteq> None \<or> sy_wire s \<noteq> [] \<or> sy_cancels s \<noteq> []"
  shows "sy_start s = Started" and "shown_ok log s" and "stream_ok log s" and "poll_ok log s"
  using assms by (auto simp: job_inv_def idle_def new_page_def split: start.splits)

lemma job_inv_guest:
  assumes "job_inv log s" "\<not> isTerminalJobState (gj_state (sy_job s))" "gj_logs j = ring_of (log @ xs)"
  shows "job_inv (log @ xs) (s\<lparr>sy_job := j\<rparr>)"
  using assms
  by (auto simp: job_inv_defs split: start.splits poll.splits intro: answers_grow chain_grow log_shows_grow)

lemma started_ok:
  assumes "answers (sy_job s) log 0 st" "gj_logs (sy_job s) = ring_of log" "idle s" "p = startJob_reply st earlier"
  shows "job_inv log (s\<lparr>sy_start := Started, sy_page := p, sy_sse := Some (pg_offset p)\<rparr>)"
proof -
  let ?q = "earlier\<lparr>pg_active := Some st, pg_offset := 0, pg_output := []\<rparr>"
  have p: "pg_events p" "\<not> pg_timer p" "pg_output p = pg_output (applyJobStatus st ?q)" "pg_offset p = pg_offset (applyJobStatus st ?q)"
    by (simp_all add: assms(4) startJob_reply_def streamJob_def closeJobStream_def)
  have "log_shows log 0 (pg_output p) (next_of st)" "pg_offset p = jl_nextOffset (jt_logs st)"
    using apply_answer[OF assms(1), of ?q 0] by (simp_all add: p)
  then show ?thesis using assms answers_next[OF assms(1)] p by (auto simp: job_inv_defs)
qed

lemma applied_ok:
  assumes "shown_ok log s" "answers (sy_job s) log (nat (pg_offset (sy_page s))) st"
  shows "log_shows log 0 (pg_output (applyJobStatus st (sy_page s))) (next_of st)"
    and "pg_offset (applyJobStatus st (sy_page s)) = jl_nextOffset (jt_logs st)" and "0 \<le> jl_nextOffset (jt_logs st)"
proof -
  have o: "pg_offset (sy_page s) = int (nat (pg_offset (sy_page s)))" using assms(1) by (simp add: shown_ok_def)
  have "log_shows log 0 (pg_output (sy_page s)) (nat (pg_offset (sy_page s)))" using assms(1) by (simp add: shown_ok_def)
  from apply_answer[OF assms(2) o this] show "log_shows log 0 (pg_output (applyJobStatus st (sy_page s))) (next_of st)"
    "pg_offset (applyJobStatus st (sy_page s)) = jl_nextOffset (jt_logs st)" by blast+
  show "0 \<le> jl_nextOffset (jt_logs st)" using answers_next[OF assms(2)] by blast
qed

lemma turn_ok:
  assumes "job_inv log s" "sy_sse s = Some offset" "status_of_inner (sy_job s) offset EVENT_BYTES = Some st"
  shows "job_inv log (s\<lparr>sy_sse := snd (events_turn (Inr st :: (unit, job_status) res)), sy_wire := sy_wire s @ [st]\<rparr>)"
proof -
  have ok: "sy_start s = Started" "shown_ok log s" "stream_ok log s" "poll_ok log s" using job_inv_Started[OF assms(1)] assms(2) by auto
  have r: "gj_logs (sy_job s) = ring_of log" "cancels_ok s" using assms(1) by (auto simp: job_inv_def)
  have "chain (sy_job s) log (nat (pg_offset (sy_page s))) (sy_wire s @ [st]) (snd (events_turn (Inr st :: (unit, job_status) res)))"
    if "pg_events (sy_page s)"
  proof (rule chain_snoc)
    show c: "chain (sy_job s) log (nat (pg_offset (sy_page s))) (sy_wire s) (Some offset)" using ok(3) that assms(2) by (simp add: stream_ok_def)
    then show o: "0 \<le> offset" by (rule chain_cursor)
    show "answers (sy_job s) log (nat offset) st"
      by (rule answers_status(1)[OF r(1), where m = EVENT_BYTES]) (use assms(3) o in \<open>simp_all add: EVENT_BYTES_def\<close>)
  qed (simp add: events_turn_def)
  then show ?thesis using ok r by (simp add: job_inv_defs cong: poll.case_cong)
qed

lemma event_ok:
  assumes "job_inv log s" "sy_wire s = st # sts" "pg_events (sy_page s)"
  shows "job_inv log (s\<lparr>sy_wire := sts, sy_page := applyJobStatus st (sy_page s)\<rparr>)"
proof -
  have ok: "sy_start s = Started" "shown_ok log s" "stream_ok log s" "poll_ok log s" using job_inv_Started[OF assms(1)] assms(3) by auto
  have r: "gj_logs (sy_job s) = ring_of log" "cancels_ok s" using assms(1) by (auto simp: job_inv_def)
  have c: "answers (sy_job s) log (nat (pg_offset (sy_page s))) st" "chain (sy_job s) log (next_of st) sts (sy_sse s)"
    "sy_poll s = NoPoll" "\<not> pg_timer (sy_page s)" using ok(3) assms(2,3) by (auto simp: stream_ok_def)
  show ?thesis using applied_ok[OF ok(2) c(1)] c ok(1) r by (simp add: job_inv_defs)
qed

lemma answered_ok:
  assumes "job_inv log s" "sy_poll s = Asked offset" "status_of_inner (sy_job s) offset MAX_JOB_LOG_CHUNK_BYTES = Some st"
  shows "job_inv log (s\<lparr>sy_poll := Answered st\<rparr>)"
proof -
  have ok: "sy_start s = Started" "shown_ok log s" "stream_ok log s" "poll_ok log s" using job_inv_Started[OF assms(1)] assms(2) by auto
  have r: "gj_logs (sy_job s) = ring_of log" "cancels_ok s" using assms(1) by (auto simp: job_inv_def)
  have o: "offset = int (nat (pg_offset (sy_page s)))" "\<not> pg_timer (sy_page s)" using ok(2,4) assms(2) by (auto simp: poll_ok_def shown_ok_def)
  have "answers (sy_job s) log (nat (pg_offset (sy_page s))) st"
    by (rule answers_status(1)[OF r(1), where m = MAX_JOB_LOG_CHUNK_BYTES]) (use assms(3) o(1) in \<open>simp_all add: MAX_JOB_LOG_CHUNK_BYTES_def\<close>)
  moreover have "\<not> pg_events (sy_page s)" using ok(3) assms(2) by (auto simp: stream_ok_def)
  ultimately show ?thesis using ok r o by (simp add: job_inv_defs)
qed

lemma polled_ok:
  assumes "job_inv log s" "sy_poll s = Answered st"
  shows "job_inv log (s\<lparr>sy_poll := NoPoll, sy_page := poll_reply st (sy_page s)\<rparr>)"
proof -
  have ok: "sy_start s = Started" "shown_ok log s" "stream_ok log s" "poll_ok log s" using job_inv_Started[OF assms(1)] assms(2) by auto
  have r: "gj_logs (sy_job s) = ring_of log" "cancels_ok s" using assms(1) by (auto simp: job_inv_def)
  have c: "answers (sy_job s) log (nat (pg_offset (sy_page s))) st" "\<not> pg_events (sy_page s)"
    using ok(3,4) assms(2) by (auto simp: poll_ok_def stream_ok_def)
  show ?thesis using applied_ok[OF ok(2) c(1)] c(2) ok(1) r by (simp add: job_inv_defs poll_reply_def Let_def)
qed

lemma cancelled_ok:
  assumes "job_inv log s" "st \<in> set (sy_cancels s)"
  shows "job_inv log (s\<lparr>sy_cancels := remove1 st (sy_cancels s), sy_page := applyJobStatus st (sy_page s)\<rparr>)"
proof -
  have "sy_cancels s \<noteq> []" using assms(2) by auto
  then have ok: "sy_start s = Started" "shown_ok log s" "stream_ok log s" "poll_ok log s" using job_inv_Started[OF assms(1)] by auto
  have r: "gj_logs (sy_job s) = ring_of log" "cancels_ok s" using assms(1) by (auto simp: job_inv_def)
  have "silent st" using r(2) assms(2) by (simp add: cancels_ok_def)
  from apply_silent[OF this, of "sy_page s"] have p: "pg_output (applyJobStatus st (sy_page s)) = pg_output (sy_page s)"
    "pg_offset (applyJobStatus st (sy_page s)) = pg_offset (sy_page s)" by blast+
  have "cancels_ok (s\<lparr>sy_cancels := remove1 st (sy_cancels s), sy_page := applyJobStatus st (sy_page s)\<rparr>)"
    using r(2) set_remove1_subset[of st "sy_cancels s"] by (auto simp: cancels_ok_def)
  then show ?thesis using ok r(1) by (auto simp: job_inv_defs p split: poll.splits)
qed

lemma broken_ok:
  assumes "job_inv log s" "pg_events (sy_page s)" "onerror (sy_page s) = (p, fallback)"
  shows "job_inv log (s\<lparr>sy_sse := None, sy_wire := [], sy_page := p, sy_poll := if fallback then Asked (pg_offset p) else sy_poll s\<rparr>)"
proof -
  have ok: "sy_start s = Started" "shown_ok log s" "stream_ok log s" "poll_ok log s" using job_inv_Started[OF assms(1)] assms(2) by auto
  have p: "pg_output p = pg_output (sy_page s)" "pg_offset p = pg_offset (sy_page s)" "\<not> pg_events p" "\<not> pg_timer p"
    using assms(3) by (auto simp: onerror_def closeJobStream_def split: if_splits)
  have "sy_poll s = NoPoll" using ok(3) assms(2) by (simp add: stream_ok_def)
  then show ?thesis using assms(1) ok p by (simp add: job_inv_defs)
qed

lemma job_step_inv:
  assumes "job_step e s s'" "job_inv log s"
  shows "job_inv (log @ printed_by e) s'"
  using assms
proof (cases rule: job_step.cases)
  case (printed bs)
  have "job_inv (log @ bs) s'" unfolding printed(2) by (rule job_inv_guest[OF assms(2) printed(3)]) (use assms(2) in \<open>simp add: job_inv_def\<close>)
  then show ?thesis using printed(1) by simp
next
  case (changed j)
  have "job_inv (log @ []) s'" unfolding changed(2) by (rule job_inv_guest[OF assms(2) changed(3)]) (use assms(2) changed(4) in \<open>simp add: job_inv_def\<close>)
  then show ?thesis using changed(1) by simp
next
  case (start_replied st)
  have "answers (sy_job s) log 0 st"
    by (rule answers_status(1)[where m = MAX_JOB_LOG_CHUNK_BYTES]) (use assms(2) start_replied in \<open>simp_all add: job_inv_def MAX_JOB_LOG_CHUNK_BYTES_def\<close>)
  then show ?thesis using assms(2) start_replied by (simp add: job_inv_defs)
next
  case (started st p earlier)
  have "answers (sy_job s) log 0 st" "gj_logs (sy_job s) = ring_of log" "idle s" using assms(2) started by (simp_all add: job_inv_def)
  from started_ok[OF this started(4)] show ?thesis using started(1,2) by simp
next
  case (turn offset st)
  then show ?thesis using turn_ok[OF assms(2)] by simp
next
  case stream_ended
  then have "job_inv log s'" using assms(2) by (auto simp: job_inv_defs dest: chain_None split: start.splits poll.splits)
  then show ?thesis using stream_ended(1) by simp
next
  case (event st sts)
  then show ?thesis using event_ok[OF assms(2)] by simp
next
  case (broken p fallback)
  then show ?thesis using broken_ok[OF assms(2)] by simp
next
  case (answered offset st)
  then show ?thesis using answered_ok[OF assms(2)] by simp
next
  case poll_failed
  then have "job_inv log s'" using assms(2) by (auto simp: job_inv_defs split: start.splits)
  then show ?thesis using poll_failed(1) by simp
next
  case (polled st)
  then show ?thesis using polled_ok[OF assms(2)] by simp
next
  case timer
  have "sy_start s = Started" "shown_ok log s" "stream_ok log s" "poll_ok log s" using job_inv_Started[OF assms(2)] timer(3) by auto
  then have "job_inv log s'" using assms(2) timer by (auto simp: job_inv_defs)
  then show ?thesis using timer(1) by simp
next
  case (cancel st)
  have "silent st" "jt_state st = gj_state (sy_job s)" using cancel_silent[OF _ cancel(4), of log] assms(2) by (auto simp: job_inv_def)
  then have "job_inv log s'" using assms(2) cancel by (auto simp: job_inv_defs split: poll.splits)
  then show ?thesis using cancel(1) by simp
next
  case (cancelled st)
  then show ?thesis using cancelled_ok[OF assms(2)] by simp
qed

lemma printed_snoc [simp]: "printed_of (evs @ [e]) = printed_of evs @ printed_by e"
  by (simp add: printed_of_def)

lemma job_run_inv: "job_run evs j s \<Longrightarrow> job_inv (printed_of evs) s"
proof (induction rule: job_run.induct)
  case (init j)
  then show ?case by (simp add: job_inv_defs job_accepted_def ring_of_Nil printed_of_def)
qed (simp add: job_step_inv)


section \<open>The end of a job\<close>

definition last_ok :: "octets \<Rightarrow> system \<Rightarrow> bool" where
  "last_ok log s \<longleftrightarrow> sy_cancels s = [] \<and>
     (sy_start s = Started \<longrightarrow> (\<exists>k st. pg_active (sy_page s) = Some st \<and> answers (sy_job s) log k st
        \<and> pg_offset (sy_page s) = jl_nextOffset (jt_logs st)))"

lemma last_ok_page:
  "last_ok log s \<Longrightarrow> sy_job s' = sy_job s \<Longrightarrow> sy_start s' = sy_start s \<Longrightarrow> sy_cancels s' = sy_cancels s
     \<Longrightarrow> pg_active (sy_page s') = pg_active (sy_page s) \<Longrightarrow> pg_offset (sy_page s') = pg_offset (sy_page s) \<Longrightarrow> last_ok log s'"
  by (simp add: last_ok_def)

lemma last_ok_guest:
  assumes "last_ok log s" "\<not> isTerminalJobState (gj_state (sy_job s))"
  shows "last_ok (log @ xs) (s\<lparr>sy_job := j\<rparr>)"
proof -
  have "answers (sy_job s) log k st \<Longrightarrow> answers j (log @ xs) k st" for k st using answers_grow assms(2) by blast
  then show ?thesis using assms(1) by (auto simp: last_ok_def)
qed

lemma last_ok_applied:
  assumes "shown_ok log s" "answers (sy_job s) log (nat (pg_offset (sy_page s))) st" "sy_cancels s = []"
    "sy_job s' = sy_job s" "sy_cancels s' = sy_cancels s" "pg_active (sy_page s') = Some st"
    "pg_offset (sy_page s') = pg_offset (applyJobStatus st (sy_page s))"
  shows "last_ok log s'"
  using assms applied_ok(2)[OF assms(1,2)] by (auto simp: last_ok_def)

lemma last_step:
  assumes "job_step e s s'" "job_inv log s" "last_ok log s" "e \<noteq> Cancelling"
  shows "last_ok (log @ printed_by e) s'"
  using assms(1)
proof (cases rule: job_step.cases)
  case (printed bs)
  then show ?thesis using last_ok_guest[OF assms(3) printed(3)] by simp
next
  case (changed j)
  then show ?thesis using last_ok_guest[OF assms(3) changed(3), of "[]"] by simp
next
  case (started st p earlier)
  have a: "answers (sy_job s) log 0 st" using assms(2) started by (simp add: job_inv_def)
  have "pg_offset p = jl_nextOffset (jt_logs st)" "pg_active p = Some st"
    using apply_answer(2)[OF a, of "earlier\<lparr>pg_active := Some st, pg_offset := 0, pg_output := []\<rparr>" 0]
    by (simp_all add: started(4) startJob_reply_def streamJob_def closeJobStream_def)
  then show ?thesis using a assms(3) started(1,2) by (auto simp: last_ok_def)
next
  case (event st sts)
  have ok: "shown_ok log s" "stream_ok log s" using job_inv_Started[OF assms(2)] event(4) by auto
  have "answers (sy_job s) log (nat (pg_offset (sy_page s))) st" using ok(2) event by (simp add: stream_ok_def)
  from last_ok_applied[OF ok(1) this, of s'] show ?thesis using assms(3) event(1,2) by (simp add: last_ok_def)
next
  case (broken p fallback)
  have "pg_active p = pg_active (sy_page s)" "pg_offset p = pg_offset (sy_page s)"
    using broken(4) by (auto simp: onerror_def closeJobStream_def split: if_splits)
  then show ?thesis using last_ok_page[OF assms(3), of s'] broken(1,2) by simp
next
  case (polled st)
  have ok: "shown_ok log s" "poll_ok log s" using job_inv_Started[OF assms(2)] polled(3) by auto
  have "answers (sy_job s) log (nat (pg_offset (sy_page s))) st" using ok(2) polled by (simp add: poll_ok_def)
  from last_ok_applied[OF ok(1) this, of s'] show ?thesis using assms(3) polled(1,2) by (simp add: last_ok_def poll_reply_def Let_def)
next
  case (start_replied st)
  then show ?thesis using assms(3) by (simp add: last_ok_def)
qed (use assms last_ok_page[OF assms(3), of s'] in simp_all)

lemma last_run: "job_run evs j s \<Longrightarrow> Cancelling \<notin> set evs \<Longrightarrow> last_ok (printed_of evs) s"
proof (induction rule: job_run.induct)
  case (init j)
  then show ?case by (simp add: last_ok_def job_accepted_def)
next
  case (step evs j s e s')
  then show ?case using last_step[OF step(2) job_run_inv[OF step(1)]] by auto
qed

text \<open>When the page reports the end of a job that was not cancelled, its cursor is that of the last status it was
  given, and the end that status announces is the end of the whole output: the page shows everything exactly when the
  last status said so.\<close>
theorem job_log_end:
  assumes "job_run evs j s" "Cancelling \<notin> set evs" "sy_start s = Started" "page_done (sy_page s)"
  shows "\<exists>st. pg_active (sy_page s) = Some st \<and> pg_offset (sy_page s) = jl_nextOffset (jt_logs st)
      \<and> jl_endOffset (jt_logs st) = int (length (printed_of evs))
      \<and> (jl_eof (jt_logs st) \<longleftrightarrow> pg_offset (sy_page s) = int (length (printed_of evs)))"
proof -
  obtain k st where st: "pg_active (sy_page s) = Some st" "answers (sy_job s) (printed_of evs) k st"
    "pg_offset (sy_page s) = jl_nextOffset (jt_logs st)"
    using last_run[OF assms(1,2)] assms(3) by (auto simp: last_ok_def)
  have t: "isTerminalJobState (jt_state st)" using assms(4) st(1) by (simp add: page_done_def)
  then have "jl_eof (jt_logs st) \<longleftrightarrow> jl_nextOffset (jt_logs st) = int (length (printed_of evs))"
    using st(2) by (auto simp: answers_def chunk_of_def Let_def)
  then show ?thesis using st answers_end[OF st(2) t] by auto
qed

text \<open>
  The event stream ends with the first status of a finished job, and the page gives it up then: when more than 64 KiB of
  output is left, the rest is not shown, although the guest still has it.
\<close>

lemma job_tail_lost:
  fixes st st' :: job_status
  assumes "gj_logs j = ring_of log" "isTerminalJobState (gj_state j)" "EVENT_BYTES < length log" "length log \<le> MAX_LOG_BYTES"
    and "pg_offset p = 0" "pg_output p = []" "status_of_inner j 0 EVENT_BYTES = Some st"
  shows "snd (events_turn (Inr st :: (unit, job_status) res)) = None"
    and "pg_output (applyJobStatus st p) = [Bytes (take EVENT_BYTES log)]" and "\<not> pg_events (applyJobStatus st p)"
    and "page_done (applyJobStatus st p)" and "status_of_inner j (int EVENT_BYTES) EVENT_BYTES = Some st' \<Longrightarrow> jl_data (jt_logs st') \<noteq> []"
proof -
  have l: "log \<noteq> []" and e: "0 < EVENT_BYTES" using assms(3) by (auto simp: EVENT_BYTES_def)
  have "jt_logs st = chunk_of log 0 EVENT_BYTES True" "jt_state st = gj_state j"
    using assms(1,2,7) ring_slice_of[of 0 EVENT_BYTES True log] by (auto simp: status_of_inner_def)
  then show "snd (events_turn (Inr st :: (unit, job_status) res)) = None" "\<not> pg_events (applyJobStatus st p)"
    "page_done (applyJobStatus st p)" "pg_output (applyJobStatus st p) = [Bytes (take EVENT_BYTES log)]"
    using assms(2,3,4,5,6) l e
    by (simp_all add: events_turn_def page_done_def applyJobStatus_def closeJobStream_def appendJobLog_def Let_def chunk_of_simps chunk_of_next)
  show "jl_data (jt_logs st') \<noteq> []" if "status_of_inner j (int EVENT_BYTES) EVENT_BYTES = Some st'"
  proof -
    have "jt_logs st' = chunk_of log EVENT_BYTES EVENT_BYTES True"
      using that assms(1,2) ring_slice_of[of EVENT_BYTES EVENT_BYTES True log] by (auto simp: status_of_inner_def split: if_splits)
    then show ?thesis using assms(3,4) e by (simp add: chunk_of_simps)
  qed
qed

text \<open>
  A status is applied whatever job it is of, and whatever has been shown since it was made. So a poll of an earlier job
  that is answered after the next job has started puts the output of one job under the other and moves the cursor; and a
  reply to a cancellation that is overtaken by the end of the job shows the job as running again, with nothing left
  that would correct it.
\<close>

lemma stale_poll_mixes_jobs:
  assumes "pg_offset p < jl_nextOffset (jt_logs st)" "jl_data (jt_logs st) \<noteq> []" "\<not> jl_truncatedBefore (jt_logs st)"
  shows "pg_output (poll_reply st p) = pg_output p @ [Bytes (base64_decode (jl_data (jt_logs st)))]
    \<and> pg_offset (poll_reply st p) = jl_nextOffset (jt_logs st) \<and> pg_active (poll_reply st p) = Some st"
  using assms by (simp add: poll_reply_def applyJobStatus_def closeJobStream_def appendJobLog_def Let_def)

lemma late_cancel_reply:
  assumes "page_done p" "\<not> pg_events p" "\<not> pg_timer p" "\<not> isTerminalJobState (jt_state st)"
  shows "\<not> page_done (applyJobStatus st p) \<and> \<not> pg_events (applyJobStatus st p) \<and> \<not> pg_timer (applyJobStatus st p)"
  using assms by (simp add: page_done_def)

section \<open>The loop of the event stream\<close>

text \<open>The cursor after \<open>n\<close> turns, and when the loop ends.\<close>

fun events_cursor :: "(nat \<Rightarrow> int \<Rightarrow> ('e, job_status) res) \<Rightarrow> nat \<Rightarrow> int \<Rightarrow> nat \<Rightarrow> int" where
  "events_cursor reply i offset 0 = offset"
| "events_cursor reply i offset (Suc n) =
     (case snd (events_turn (reply i offset)) of None \<Rightarrow> offset | Some offset' \<Rightarrow> events_cursor reply (Suc i) offset' n)"

definition events_stop :: "(nat \<Rightarrow> bool) \<Rightarrow> (nat \<Rightarrow> int \<Rightarrow> ('e, job_status) res) \<Rightarrow> nat \<Rightarrow> int \<Rightarrow> nat \<Rightarrow> bool" where
  "events_stop closed reply i offset n \<longleftrightarrow>
     closed (i + n) \<or> (case reply (i + n) (events_cursor reply i offset n) of Inl _ \<Rightarrow> True | Inr st \<Rightarrow> isTerminalJobState (jt_state st))"

lemma events_stop_iff:
  "events_stop closed reply i offset n \<longleftrightarrow> closed (i + n) \<or> snd (events_turn (reply (i + n) (events_cursor reply i offset n))) = None"
  by (auto simp: events_stop_def events_turn_def split: sum.splits)

lemma events_loop_returns:
  "events_stop closed reply i offset n \<Longrightarrow> \<exists>sts. events_loop closed reply i offset = Some sts"
proof (induction n arbitrary: i offset)
  case 0
  then show ?case
    by (subst events_loop.simps) (auto simp: events_stop_iff events_turn_def split: sum.splits option.splits prod.splits if_splits)
next
  case (Suc n)
  show ?case
  proof (cases "closed i")
    case False
    show ?thesis
    proof (cases "snd (events_turn (reply i offset))")
      case None
      with False show ?thesis by (subst events_loop.simps) (auto split: prod.splits option.splits)
    next
      case (Some offset')
      then have "events_stop closed reply (Suc i) offset' n" using Suc.prems by (simp add: events_stop_iff)
      then obtain sts where "events_loop closed reply (Suc i) offset' = Some sts" using Suc.IH by blast
      with False Some show ?thesis by (subst events_loop.simps) (auto split: prod.splits option.splits)
    qed
  qed (subst events_loop.simps, simp)
qed

lemma events_loop_stops:
  assumes "events_loop closed reply i offset = Some sts"
  shows "\<exists>n. events_stop closed reply i offset n"
  using assms
proof (rule events_loop.raw_induct[rotated])
  fix loop :: "(nat \<Rightarrow> bool) \<Rightarrow> (nat \<Rightarrow> int \<Rightarrow> ('a, job_status) res) \<Rightarrow> nat \<Rightarrow> int \<Rightarrow> job_status list option"
    and closed :: "nat \<Rightarrow> bool" and reply :: "nat \<Rightarrow> int \<Rightarrow> ('a, job_status) res" and i offset sts
  assume IH: "\<And>closed reply i offset sts. loop closed reply i offset = Some sts \<Longrightarrow> \<exists>n. events_stop closed reply i offset n"
    and body: "(if closed i then Some []
      else case events_turn (reply i offset) of
        (None, _) \<Rightarrow> Some []
      | (Some st, None) \<Rightarrow> Some [st]
      | (Some st, Some offset') \<Rightarrow> Option.bind (loop closed reply (Suc i) offset') (\<lambda>sts. Some (st # sts))) = Some sts"
  show "\<exists>n. events_stop closed reply i offset n"
  proof (cases "closed i \<or> snd (events_turn (reply i offset)) = None")
    case True
    then have "events_stop closed reply i offset 0" by (simp add: events_stop_iff)
    then show ?thesis ..
  next
    case False
    then obtain offset' where o: "snd (events_turn (reply i offset)) = Some offset'" by auto
    then obtain st where st: "events_turn (reply i offset) = (Some st, Some offset')"
      by (auto simp: events_turn_def split: sum.splits if_splits)
    obtain sts' where "loop closed reply (Suc i) offset' = Some sts'"
      using body False unfolding st by (auto simp: bind_eq_Some_conv)
    from IH[OF this] obtain n where "events_stop closed reply (Suc i) offset' n" by blast
    then have "events_stop closed reply i offset (Suc n)" using o by (simp add: events_stop_iff)
    then show ?thesis ..
  qed
qed

text \<open>The loop of the event stream ends exactly when there is a turn at which the request is closed, the status
  cannot be read or the job has ended; a job that never ends is followed for as long as the page is there.\<close>
theorem events_loop_exact:
  "(\<exists>sts. events_loop closed reply 0 offset = Some sts) \<longleftrightarrow> (\<exists>n. events_stop closed reply 0 offset n)"
  using events_loop_returns[of closed reply 0 offset] events_loop_stops[of closed reply 0 offset] by blast

section \<open>A job that prints, breaks its stream and ends\<close>

definition sample_job :: guest_job where
  "sample_job = \<lparr>gj_id = ''j'', gj_state = Running, gj_createdAt = 1, gj_startedAt = Some 2, gj_finishedAt = None, gj_exitCode = None,
     gj_signal = None, gj_timeoutMs = 1000, gj_logs = new_ring\<rparr>"

definition sample_status :: "job_state \<Rightarrow> octets \<Rightarrow> nat \<Rightarrow> nat \<Rightarrow> job_status" where
  "sample_status st log k m = \<lparr>jt_jobId = ''j'', jt_state = st, jt_createdAt = 1, jt_startedAt = Some 2, jt_finishedAt = None,
     jt_exitCode = None, jt_signal = None, jt_timeoutMs = 1000, jt_logs = chunk_of log k m (isTerminalJobState st)\<rparr>"

lemma sample_status_of:
  "k \<le> length log \<Longrightarrow> status_of_inner (sample_job\<lparr>gj_state := st, gj_logs := ring_of log\<rparr>) (int k) m = Some (sample_status st log k m)"
  by (simp add: status_of_inner_def ring_slice_of sample_job_def sample_status_def)

abbreviation sample_at :: "job_state \<Rightarrow> octets \<Rightarrow> guest_job" where
  "sample_at st log \<equiv> sample_job\<lparr>gj_state := st, gj_logs := ring_of log\<rparr>"

definition sample_system :: "job_state \<Rightarrow> octets \<Rightarrow> int option \<Rightarrow> job_status list \<Rightarrow> poll \<Rightarrow> page \<Rightarrow> system" where
  "sample_system st log sse wire poll p = \<lparr>sy_job = sample_at st log, sy_start = Started, sy_sse = sse, sy_wire = wire, sy_poll = poll,
     sy_cancels = [], sy_page = p\<rparr>"

definition sample_page1 :: page where
  "sample_page1 = startJob_reply (sample_status Running [] 0 MAX_JOB_LOG_CHUNK_BYTES) new_page"

definition sample_page2 :: page where
  "sample_page2 = applyJobStatus (sample_status Running [1, 2] 0 EVENT_BYTES) sample_page1"

definition sample_page3 :: page where
  "sample_page3 = poll_reply (sample_status Succeeded [1, 2, 3] 2 MAX_JOB_LOG_CHUNK_BYTES) (closeJobStream sample_page2)"

definition sample_events :: "job_event list" where
  "sample_events = [Network, Page, Printed [1, 2], Network, Page, Printed [3], Page, Guest, Network, Page]"

lemmas sample_page_defs = sample_page1_def sample_page2_def sample_page3_def startJob_reply_def streamJob_def applyJobStatus_def
  closeJobStream_def appendJobLog_def poll_reply_def sample_status_def chunk_of_simps chunk_of_next isTerminalJobState_def Let_def
  MAX_LOG_BYTES_def MAX_JOB_LOG_CHUNK_BYTES_def EVENT_BYTES_def new_page_def

lemma sample_pages:
  "pg_offset sample_page1 = 0" "pg_events sample_page1" "pg_output sample_page1 = []"
  "pg_offset sample_page2 = 2" "pg_events sample_page2" "pg_output sample_page2 = [Bytes [1, 2]]"
  "onerror sample_page2 = (closeJobStream sample_page2, True)"
  "pg_offset sample_page3 = 3" "pg_output sample_page3 = [Bytes [1, 2], Bytes [3]]" "page_done sample_page3"
  by (simp_all add: sample_page_defs onerror_def page_done_def)

lemma sample_job_run: "job_run sample_events sample_job (sample_system Succeeded [1, 2, 3] None [] NoPoll sample_page3)"
proof -
  have j: "sample_at Running [] = sample_job" by (simp add: sample_job_def ring_of_Nil)
  have "job_run [] sample_job (job_accepted sample_job)" by (rule job_run.init) (simp add: sample_job_def)
  from job_run.step[OF this job_step.start_replied, of "sample_status Running [] 0 MAX_JOB_LOG_CHUNK_BYTES"]
  have "job_run [Network] sample_job ((job_accepted sample_job)\<lparr>sy_start := Replied (sample_status Running [] 0 MAX_JOB_LOG_CHUNK_BYTES)\<rparr>)"
    using sample_status_of[of 0 "[]" Running] unfolding j by (simp add: job_accepted_def)
  from job_run.step[OF this job_step.started, OF _ refl, of _ new_page]
  have "job_run [Network, Page] sample_job (sample_system Running [] (Some 0) [] NoPoll sample_page1)"
    by (simp add: job_accepted_def sample_system_def sample_page1_def[symmetric] sample_pages j)
  from job_run.step[OF this job_step.printed, of "[1, 2]"]
  have "job_run [Network, Page, Printed [1, 2]] sample_job (sample_system Running [1, 2] (Some 0) [] NoPoll sample_page1)"
    by (simp add: sample_system_def isTerminalJobState_def)
  from job_run.step[OF this job_step.turn, of 0 "sample_status Running [1, 2] 0 EVENT_BYTES"]
  have "job_run [Network, Page, Printed [1, 2], Network] sample_job
      (sample_system Running [1, 2] (Some 2) [sample_status Running [1, 2] 0 EVENT_BYTES] NoPoll sample_page1)"
    using sample_status_of[of 0 "[1, 2]" Running EVENT_BYTES]
    by (simp add: sample_system_def events_turn_def sample_status_def chunk_of_next isTerminalJobState_def MAX_LOG_BYTES_def EVENT_BYTES_def)
  from job_run.step[OF this job_step.event, of "sample_status Running [1, 2] 0 EVENT_BYTES" "[]"]
  have "job_run [Network, Page, Printed [1, 2], Network, Page] sample_job (sample_system Running [1, 2] (Some 2) [] NoPoll sample_page2)"
    by (simp add: sample_system_def sample_pages sample_page2_def[symmetric])
  from job_run.step[OF this job_step.printed, of "[3]"]
  have "job_run [Network, Page, Printed [1, 2], Network, Page, Printed [3]] sample_job (sample_system Running [1, 2, 3] (Some 2) [] NoPoll sample_page2)"
    by (simp add: sample_system_def isTerminalJobState_def)
  from job_run.step[OF this job_step.broken, of "closeJobStream sample_page2" True]
  have "job_run [Network, Page, Printed [1, 2], Network, Page, Printed [3], Page] sample_job
      (sample_system Running [1, 2, 3] None [] (Asked 2) (closeJobStream sample_page2))"
    by (simp add: sample_system_def sample_pages) (simp add: closeJobStream_def sample_pages)
  from job_run.step[OF this job_step.changed, of "sample_at Succeeded [1, 2, 3]"]
  have "job_run [Network, Page, Printed [1, 2], Network, Page, Printed [3], Page, Guest] sample_job
      (sample_system Succeeded [1, 2, 3] None [] (Asked 2) (closeJobStream sample_page2))"
    by (simp add: sample_system_def isTerminalJobState_def)
  from job_run.step[OF this job_step.answered, of 2 "sample_status Succeeded [1, 2, 3] 2 MAX_JOB_LOG_CHUNK_BYTES"]
  have "job_run [Network, Page, Printed [1, 2], Network, Page, Printed [3], Page, Guest, Network] sample_job
      (sample_system Succeeded [1, 2, 3] None [] (Answered (sample_status Succeeded [1, 2, 3] 2 MAX_JOB_LOG_CHUNK_BYTES)) (closeJobStream sample_page2))"
    using sample_status_of[of 2 "[1, 2, 3]" Succeeded MAX_JOB_LOG_CHUNK_BYTES] by (simp add: sample_system_def)
  from job_run.step[OF this job_step.polled, of "sample_status Succeeded [1, 2, 3] 2 MAX_JOB_LOG_CHUNK_BYTES"]
  show ?thesis by (simp add: sample_system_def sample_page3_def[symmetric] sample_events_def)
qed

lemma sample_printed: "printed_of sample_events = [1, 2, 3]" "Cancelling \<notin> set sample_events"
  by (simp_all add: sample_events_def printed_of_def)


lemma job_log_end_witness:
  "\<exists>st. pg_active sample_page3 = Some st \<and> jl_endOffset (jt_logs st) = 3 \<and> jl_eof (jt_logs st)"
  using job_log_end[OF sample_job_run sample_printed(2)] by (auto simp: sample_system_def sample_printed sample_pages)

end
