(* ===== verification/ControlServer.thy ===== *)
theory ControlServer
  imports AgentServer Workspaces Admission "HOL-Library.Sublist"
begin

text \<open>
  \<open>src/control/server.ts\<close>: the sockets of the control server (the bridge of an SSH tunnel, the pump of a browser
  terminal, the upgrade that leads to them and the accounting of open terminals), the answer to a request for an SSH
  grant, the error handler, and \<open>src/control/turnstile.ts\<close>. The routes that pass a parsed body on to a modelled
  operation of the workspace service are left out; so are Express, the WebSocket handshake and the wire.

  A socket of the library \<open>ws\<close> is its ready state, the bytes it has buffered and what was sent on it. It keeps delivering
  messages after \<open>close\<close> until the peer has answered, so a message may follow the one that made a handler close it.
\<close>

section \<open>Sockets\<close>

datatype ready_state = CONNECTING | OPEN | CLOSING | CLOSED

record socket =
  so_readyState :: ready_state
  so_bufferedAmount :: nat
  so_sent :: "(octets \<times> bool) list"

definition socket_close :: "socket \<Rightarrow> socket" where
  "socket_close w = (if so_readyState w \<in> {CONNECTING, OPEN} then w\<lparr>so_readyState := CLOSING\<rparr> else w)"

definition socket_send :: "octets \<times> bool \<Rightarrow> socket \<Rightarrow> socket" where
  "socket_send f w = w\<lparr>so_sent := so_sent w @ [f], so_bufferedAmount := so_bufferedAmount w + length (fst f)\<rparr>"

definition MiB :: nat where "MiB = 1024 * 1024"

lemma socket_simps [simp]:
  "so_sent (socket_close w) = so_sent w" "so_bufferedAmount (socket_close w) = so_bufferedAmount w"
  "so_readyState (socket_close w) \<noteq> CONNECTING" "so_readyState (socket_close w) \<noteq> OPEN"
  "so_readyState (socket_send f w) = so_readyState w" "so_sent (socket_send f w) = so_sent w @ [f]"
  "so_bufferedAmount (socket_send f w) = so_bufferedAmount w + length (fst f)"
  by (auto simp: socket_close_def socket_send_def)

lemma send_all [simp]:
  "so_readyState (foldl (\<lambda>w f. socket_send f w) w fs) = so_readyState w"
  "so_sent (foldl (\<lambda>w f. socket_send f w) w fs) = so_sent w @ fs"
  "so_bufferedAmount (foldl (\<lambda>w f. socket_send f w) w fs) = so_bufferedAmount w + sum_list (map (length \<circ> fst) fs)"
  by (induction fs arbitrary: w) auto

section \<open>The bridge of an SSH tunnel\<close>

datatype socket_event =
    UpstreamOpen
  | FromClient octets bool
  | FromUpstream octets bool
  | ClientDrained nat
  | UpstreamDrained nat
  | ClientClosed
  | UpstreamClosed
  | SocketError

record bridge =
  br_pending :: "(octets \<times> bool) list"
  br_pendingBytes :: nat
  br_client :: socket
  br_upstream :: socket

definition new_bridge :: bridge where
  "new_bridge = \<lparr>br_pending = [], br_pendingBytes = 0, br_client = \<lparr>so_readyState = OPEN, so_bufferedAmount = 0, so_sent = []\<rparr>,
     br_upstream = \<lparr>so_readyState = CONNECTING, so_bufferedAmount = 0, so_sent = []\<rparr>\<rparr>"

definition close_client :: "bridge \<Rightarrow> bridge" where "close_client s = s\<lparr>br_client := socket_close (br_client s)\<rparr>"
definition close_upstream :: "bridge \<Rightarrow> bridge" where "close_upstream s = s\<lparr>br_upstream := socket_close (br_upstream s)\<rparr>"

text \<open>What both bridges share: the open event flushes what is pending, closing one side closes the other.\<close>

fun socket_step :: "socket_event \<Rightarrow> bridge \<Rightarrow> bridge" where
  "socket_step UpstreamOpen s =
     (if so_readyState (br_upstream s) = CONNECTING
      then s\<lparr>br_upstream := foldl (\<lambda>w f. socket_send f w) ((br_upstream s)\<lparr>so_readyState := OPEN\<rparr>) (br_pending s),
             br_pending := [], br_pendingBytes := 0\<rparr>
      else s)"
| "socket_step (ClientDrained n) s = s\<lparr>br_client := (br_client s)\<lparr>so_bufferedAmount := so_bufferedAmount (br_client s) - n\<rparr>\<rparr>"
| "socket_step (UpstreamDrained n) s = s\<lparr>br_upstream := (br_upstream s)\<lparr>so_bufferedAmount := so_bufferedAmount (br_upstream s) - n\<rparr>\<rparr>"
| "socket_step ClientClosed s = close_upstream (s\<lparr>br_client := (br_client s)\<lparr>so_readyState := CLOSED\<rparr>\<rparr>)"
| "socket_step UpstreamClosed s = close_client (s\<lparr>br_upstream := (br_upstream s)\<lparr>so_readyState := CLOSED\<rparr>\<rparr>)"
| "socket_step SocketError s = close_upstream (close_client s)"
| "socket_step _ s = s"

definition bridge_client_message :: "octets \<Rightarrow> bool \<Rightarrow> bridge \<Rightarrow> bridge" where
  "bridge_client_message message binary s =
     (if \<not> binary then close_client s
      else if so_readyState (br_upstream s) = CONNECTING
      then let s1 = s\<lparr>br_pendingBytes := br_pendingBytes s + length message\<rparr>
           in if 32 \<le> length (br_pending s1) \<or> MiB < br_pendingBytes s1 then close_client s1
              else s1\<lparr>br_pending := br_pending s1 @ [(message, True)]\<rparr>
      else if so_readyState (br_upstream s) = OPEN
      then if MiB \<le> so_bufferedAmount (br_upstream s) then close_client s
           else s\<lparr>br_upstream := socket_send (message, True) (br_upstream s)\<rparr>
      else s)"

definition bridge_upstream_message :: "octets \<Rightarrow> bool \<Rightarrow> bridge \<Rightarrow> bridge" where
  "bridge_upstream_message message binary s =
     (if \<not> binary then close_upstream s
      else if so_readyState (br_client s) = OPEN
      then if MiB \<le> so_bufferedAmount (br_client s) then close_upstream s
           else s\<lparr>br_client := socket_send (message, True) (br_client s)\<rparr>
      else s)"

text \<open>\<open>bridgeBinaryWebSockets\<close>. A closed socket delivers nothing, and the upstream nothing before it is open.\<close>

definition bridge_step :: "bridge \<Rightarrow> socket_event \<Rightarrow> bridge" where
  "bridge_step s e =
     (case e of
        FromClient message binary \<Rightarrow> if so_readyState (br_client s) = CLOSED then s else bridge_client_message message binary s
      | FromUpstream message binary \<Rightarrow>
          if so_readyState (br_upstream s) \<in> {CONNECTING, CLOSED} then s else bridge_upstream_message message binary s
      | _ \<Rightarrow> socket_step e s)"

lemma bridge_step_simps [simp]:
  "bridge_step s (FromClient message binary) = (if so_readyState (br_client s) = CLOSED then s else bridge_client_message message binary s)"
  "bridge_step s (FromUpstream message binary) =
     (if so_readyState (br_upstream s) \<in> {CONNECTING, CLOSED} then s else bridge_upstream_message message binary s)"
  "bridge_step s UpstreamOpen = socket_step UpstreamOpen s" "bridge_step s (ClientDrained n) = socket_step (ClientDrained n) s"
  "bridge_step s (UpstreamDrained n) = socket_step (UpstreamDrained n) s" "bridge_step s ClientClosed = socket_step ClientClosed s"
  "bridge_step s UpstreamClosed = socket_step UpstreamClosed s" "bridge_step s SocketError = socket_step SocketError s"
  by (simp_all add: bridge_step_def)

definition bridgeBinaryWebSockets :: "socket_event list \<Rightarrow> bridge" where
  "bridgeBinaryWebSockets evs = foldl bridge_step new_bridge evs"

text \<open>The messages that the two sockets deliver to the bridge in a run.\<close>

fun delivers :: "bridge \<Rightarrow> socket_event \<Rightarrow> bool" where
  "delivers s (FromClient message binary) \<longleftrightarrow> so_readyState (br_client s) \<noteq> CLOSED"
| "delivers s (FromUpstream message binary) \<longleftrightarrow> so_readyState (br_upstream s) \<notin> {CONNECTING, CLOSED}"
| "delivers s e \<longleftrightarrow> True"

fun client_frame :: "socket_event \<Rightarrow> (octets \<times> bool) list" where
  "client_frame (FromClient message binary) = [(message, binary)]"
| "client_frame _ = []"

fun upstream_frame :: "socket_event \<Rightarrow> (octets \<times> bool) list" where
  "upstream_frame (FromUpstream message binary) = [(message, binary)]"
| "upstream_frame _ = []"

fun run_events :: "(bridge \<Rightarrow> socket_event \<Rightarrow> bridge) \<Rightarrow> bridge \<Rightarrow> socket_event list \<Rightarrow> socket_event list" where
  "run_events step s [] = []"
| "run_events step s (e # evs) = (if delivers s e then [e] else []) @ run_events step (step s e) evs"

definition client_frames :: "(bridge \<Rightarrow> socket_event \<Rightarrow> bridge) \<Rightarrow> socket_event list \<Rightarrow> (octets \<times> bool) list" where
  "client_frames step evs = concat (map client_frame (run_events step new_bridge evs))"

definition upstream_frames :: "(bridge \<Rightarrow> socket_event \<Rightarrow> bridge) \<Rightarrow> socket_event list \<Rightarrow> (octets \<times> bool) list" where
  "upstream_frames step evs = concat (map upstream_frame (run_events step new_bridge evs))"

lemma run_events_snoc:
  "run_events step s (evs @ [e]) = run_events step s evs @ (if delivers (foldl step s evs) e then [e] else [])"
  by (induction evs arbitrary: s) auto

lemma frames_snoc:
  "client_frames step (evs @ [e]) = client_frames step evs @ (if delivers (foldl step new_bridge evs) e then client_frame e else [])"
  "upstream_frames step (evs @ [e]) = upstream_frames step evs @ (if delivers (foldl step new_bridge evs) e then upstream_frame e else [])"
  by (simp_all add: client_frames_def upstream_frames_def run_events_snoc)

text \<open>What has gone to a side, and what waits to.\<close>

abbreviation to_upstream :: "bridge \<Rightarrow> (octets \<times> bool) list" where
  "to_upstream s \<equiv> so_sent (br_upstream s) @ br_pending s"

definition bridge_inv :: "(octets \<times> bool) list \<Rightarrow> (octets \<times> bool) list \<Rightarrow> bridge \<Rightarrow> bool" where
  "bridge_inv up down s \<longleftrightarrow>
     subseq (to_upstream s) up \<and> subseq (so_sent (br_client s)) down
     \<and> (so_readyState (br_client s) = OPEN \<and> so_readyState (br_upstream s) \<in> {CONNECTING, OPEN} \<longrightarrow>
          to_upstream s = up \<and> so_sent (br_client s) = down)"

lemma subseq_snoc: "subseq xs ys \<Longrightarrow> subseq xs (ys @ zs)" "subseq xs ys \<Longrightarrow> subseq (xs @ zs) (ys @ zs)"
  by (auto intro: list_emb_append_mono list_emb_append2)

lemma bridge_inv_same:
  assumes "bridge_inv up down s" "to_upstream s' = to_upstream s" "so_sent (br_client s') = so_sent (br_client s)"
    and "so_readyState (br_client s') = OPEN \<and> so_readyState (br_upstream s') \<in> {CONNECTING, OPEN} \<longrightarrow>
      so_readyState (br_client s) = OPEN \<and> so_readyState (br_upstream s) \<in> {CONNECTING, OPEN} \<and> us = [] \<and> ds = []"
  shows "bridge_inv (up @ us) (down @ ds) s'"
  using assms by (auto simp: bridge_inv_def intro: subseq_snoc)

lemma bridge_inv_dropped:
  "bridge_inv up down s \<Longrightarrow> so_readyState (br_client s) \<noteq> OPEN \<or> so_readyState (br_upstream s) \<notin> {CONNECTING, OPEN} \<Longrightarrow>
     bridge_inv (up @ us) (down @ ds) s"
  by (auto simp: bridge_inv_def intro: subseq_snoc)

lemma bridge_inv_up:
  assumes "bridge_inv up down s" "to_upstream s' = to_upstream s @ us" "so_sent (br_client s') = so_sent (br_client s)"
    and "so_readyState (br_client s') = so_readyState (br_client s)" "so_readyState (br_upstream s') = so_readyState (br_upstream s)"
  shows "bridge_inv (up @ us) down s'"
  using assms subseq_snoc(2)[of "to_upstream s" up us] by (auto simp: bridge_inv_def)

lemma bridge_inv_down:
  assumes "bridge_inv up down s" "to_upstream s' = to_upstream s" "so_sent (br_client s') = so_sent (br_client s) @ ds"
    and "so_readyState (br_client s') = so_readyState (br_client s)" "so_readyState (br_upstream s') = so_readyState (br_upstream s)"
  shows "bridge_inv up (down @ ds) s'"
  using assms subseq_snoc(2)[of "so_sent (br_client s)" down ds] by (auto simp: bridge_inv_def)

lemma socket_step_inv: "bridge_inv up down s \<Longrightarrow> bridge_inv up down (socket_step e s)"
  using bridge_inv_same[of up down s "socket_step e s" "[]" "[]"]
  by (cases e) (auto simp: close_client_def close_upstream_def)

lemma client_message_inv:
  assumes "bridge_inv up down s" "so_readyState (br_upstream s) = OPEN \<longrightarrow> br_pending s = []"
  shows "bridge_inv (up @ [(message, binary)]) down (bridge_client_message message binary s)"
proof -
  let ?s' = "bridge_client_message message binary s"
  let ?full = "32 \<le> length (br_pending s) \<or> MiB < br_pendingBytes s + length message"
  note same = bridge_inv_same[OF assms(1), of ?s' "[(message, binary)]" "[]"]
  note up = bridge_inv_up[OF assms(1), of ?s' "[(message, binary)]"]
  note defs = bridge_client_message_def close_client_def Let_def
  consider "\<not> binary" | "binary" "so_readyState (br_upstream s) = CONNECTING" ?full
    | "binary" "so_readyState (br_upstream s) = CONNECTING" "\<not> ?full"
    | "binary" "so_readyState (br_upstream s) = OPEN" "MiB \<le> so_bufferedAmount (br_upstream s)"
    | "binary" "so_readyState (br_upstream s) = OPEN" "\<not> MiB \<le> so_bufferedAmount (br_upstream s)"
    | "binary" "so_readyState (br_upstream s) \<notin> {CONNECTING, OPEN}" by blast
  then show ?thesis
  proof cases
    case 1 then show ?thesis using same by (simp add: defs)
  next
    case 2 then show ?thesis using same by (simp add: defs)
  next
    case 3 then show ?thesis using up by (simp add: defs)
  next
    case 4 then show ?thesis using same by (simp add: defs)
  next
    case 5 then show ?thesis using up assms(2) by (simp add: defs)
  next
    case 6 then show ?thesis using same by (simp add: defs)
  qed
qed

lemma upstream_message_inv:
  assumes "bridge_inv up down s"
  shows "bridge_inv up (down @ [(message, binary)]) (bridge_upstream_message message binary s)"
proof -
  let ?s' = "bridge_upstream_message message binary s"
  note same = bridge_inv_same[OF assms(1), of ?s' "[]" "[(message, binary)]"]
  note down = bridge_inv_down[OF assms(1), of ?s' "[(message, binary)]"]
  note defs = bridge_upstream_message_def close_upstream_def
  consider "\<not> binary" | "binary" "so_readyState (br_client s) = OPEN" "MiB \<le> so_bufferedAmount (br_client s)"
    | "binary" "so_readyState (br_client s) = OPEN" "\<not> MiB \<le> so_bufferedAmount (br_client s)"
    | "binary" "so_readyState (br_client s) \<noteq> OPEN" by blast
  then show ?thesis
  proof cases
    case 1 then show ?thesis using same by (simp add: defs)
  next
    case 2 then show ?thesis using same by (simp add: defs)
  next
    case 3 then show ?thesis using down by (simp add: defs)
  next
    case 4
    then have "?s' = s" by (simp add: defs)
    then show ?thesis using bridge_inv_dropped[OF assms, of "[]" "[(message, binary)]"] 4 by simp
  qed
qed

text \<open>The buffer before the upstream is open, and the backlog after.\<close>

abbreviation frame_bytes :: "(octets \<times> bool) list \<Rightarrow> nat" where
  "frame_bytes fs \<equiv> sum_list (map (length \<circ> fst) fs)"

definition bridge_bound :: "bridge \<Rightarrow> bool" where
  "bridge_bound s \<longleftrightarrow>
     length (br_pending s) \<le> 32 \<and> frame_bytes (br_pending s) \<le> MiB \<and> frame_bytes (br_pending s) \<le> br_pendingBytes s
     \<and> (so_readyState (br_upstream s) = CONNECTING \<longrightarrow> so_bufferedAmount (br_upstream s) = 0)
     \<and> (so_readyState (br_upstream s) = OPEN \<longrightarrow> br_pending s = [])
     \<and> so_bufferedAmount (br_upstream s) \<le> 2 * MiB \<and> so_bufferedAmount (br_client s) \<le> 2 * MiB"

lemma socket_step_bound:
  assumes "bridge_bound s"
  shows "bridge_bound (socket_step e s)"
proof (cases e)
  case UpstreamOpen
  then show ?thesis using assms by (cases "so_readyState (br_upstream s) = CONNECTING") (simp_all add: bridge_bound_def)
qed (use assms in \<open>auto simp: bridge_bound_def close_client_def close_upstream_def\<close>)

lemma client_message_bound:
  assumes "bridge_bound s" "length message \<le> MiB"
  shows "bridge_bound (bridge_client_message message binary s)"
proof -
  let ?full = "32 \<le> length (br_pending s) \<or> MiB < br_pendingBytes s + length message"
  note defs = bridge_client_message_def close_client_def Let_def bridge_bound_def
  consider "\<not> binary" | "binary" "so_readyState (br_upstream s) = CONNECTING" ?full
    | "binary" "so_readyState (br_upstream s) = CONNECTING" "\<not> ?full"
    | "binary" "so_readyState (br_upstream s) = OPEN" "MiB \<le> so_bufferedAmount (br_upstream s)"
    | "binary" "so_readyState (br_upstream s) = OPEN" "\<not> MiB \<le> so_bufferedAmount (br_upstream s)"
    | "binary" "so_readyState (br_upstream s) \<notin> {CONNECTING, OPEN}" by blast
  then show ?thesis
  proof cases
    case 1 then show ?thesis using assms by (simp add: defs)
  next
    case 2 then show ?thesis using assms by (simp add: defs)
  next
    case 3 then show ?thesis using assms by (simp add: defs)
  next
    case 4 then show ?thesis using assms by (simp add: defs)
  next
    case 5 then show ?thesis using assms by (simp add: defs)
  next
    case 6 then show ?thesis using assms by (simp add: defs)
  qed
qed

lemma upstream_message_bound:
  assumes "bridge_bound s" "length message \<le> MiB"
  shows "bridge_bound (bridge_upstream_message message binary s)"
proof (cases "binary \<and> so_readyState (br_client s) = OPEN \<and> \<not> MiB \<le> so_bufferedAmount (br_client s)")
  case True
  then show ?thesis using assms by (simp add: bridge_upstream_message_def bridge_bound_def)
next
  case False
  then have "bridge_upstream_message message binary s \<in> {s, close_upstream s}" by (auto simp: bridge_upstream_message_def)
  then show ?thesis using assms by (auto simp: bridge_bound_def close_upstream_def)
qed

text \<open>The frames of a run are at most as large as the library lets in.\<close>

fun frame_ok :: "nat \<Rightarrow> socket_event \<Rightarrow> bool" where
  "frame_ok n (FromClient message binary) \<longleftrightarrow> length message \<le> n"
| "frame_ok n (FromUpstream message binary) \<longleftrightarrow> length message \<le> n"
| "frame_ok n _ \<longleftrightarrow> True"

lemma bridge_step_bound: "bridge_bound s \<Longrightarrow> frame_ok MiB e \<Longrightarrow> bridge_bound (bridge_step s e)"
  by (cases e) (simp_all add: client_message_bound upstream_message_bound socket_step_bound del: socket_step.simps)

text \<open>The bridge of an SSH tunnel holds a bounded amount. Before the agent's socket is open at most 32 frames and one
  mebibyte wait for it, and neither side ever has more than two mebibytes buffered, whatever the peers send: a side that
  does not keep up is closed.\<close>
theorem ssh_bridge_bounded:
  assumes "\<forall>e \<in> set evs. frame_ok MiB e"
  shows "let s = bridgeBinaryWebSockets evs in
    length (br_pending s) \<le> 32 \<and> frame_bytes (br_pending s) \<le> MiB
    \<and> so_bufferedAmount (br_upstream s) \<le> 2 * MiB \<and> so_bufferedAmount (br_client s) \<le> 2 * MiB"
proof -
  have "bridge_bound (bridgeBinaryWebSockets evs)"
    using assms
  proof (induction evs rule: rev_induct)
    case Nil
    show ?case by (simp add: bridgeBinaryWebSockets_def bridge_bound_def new_bridge_def)
  next
    case (snoc e evs)
    then show ?case using bridge_step_bound[of "bridgeBinaryWebSockets evs" e] by (simp add: bridgeBinaryWebSockets_def)
  qed
  then show ?thesis by (simp add: bridge_bound_def Let_def)
qed

lemma ssh_bridge_bounded_witness:
  "length (br_pending (bridgeBinaryWebSockets [FromClient [1, 2] True, FromClient [3] True])) \<le> 32"
proof -
  have "\<forall>e \<in> set [FromClient [1, 2] True, FromClient [3] True]. frame_ok MiB e" by (simp add: MiB_def)
  from ssh_bridge_bounded[OF this] show ?thesis by (simp only: Let_def)
qed

lemma pending_open:
  "so_readyState (br_upstream (bridgeBinaryWebSockets evs)) = OPEN \<longrightarrow> br_pending (bridgeBinaryWebSockets evs) = []"
proof (induction evs rule: rev_induct)
  case (snoc e evs)
  let ?s = "bridgeBinaryWebSockets evs"
  have "so_readyState (br_upstream (bridge_step s e)) = OPEN \<longrightarrow> br_pending (bridge_step s e) = []"
    if "so_readyState (br_upstream s) = OPEN \<longrightarrow> br_pending s = []" for s
    using that by (cases e) (auto simp: bridge_client_message_def bridge_upstream_message_def close_client_def close_upstream_def Let_def)
  from this[OF snoc.IH] show ?case by (simp add: bridgeBinaryWebSockets_def)
qed (simp add: bridgeBinaryWebSockets_def new_bridge_def)

lemma bridge_run_inv:
  "bridge_inv (client_frames bridge_step evs) (upstream_frames bridge_step evs) (bridgeBinaryWebSockets evs)"
proof (induction evs rule: rev_induct)
  case Nil
  show ?case by (simp add: bridge_inv_def bridgeBinaryWebSockets_def new_bridge_def client_frames_def upstream_frames_def)
next
  case (snoc e evs)
  let ?s = "bridgeBinaryWebSockets evs"
  have s: "foldl bridge_step new_bridge evs = ?s" "bridgeBinaryWebSockets (evs @ [e]) = bridge_step ?s e"
    by (simp_all add: bridgeBinaryWebSockets_def)
  show ?case
    unfolding s(2) frames_snoc s(1) using snoc.IH client_message_inv[OF snoc.IH pending_open] upstream_message_inv[OF snoc.IH] socket_step_inv[OF snoc.IH]
    by (cases e) (simp_all del: socket_step.simps)
qed

text \<open>What passes through an SSH tunnel. Each way the bytes that go out are a subsequence, in order, of the frames that
  come in, and while both sockets are up nothing is missing: what was sent to the agent with what still waits for it is
  all that the client has sent, and what was sent to the client is all that came from the agent.\<close>
theorem ssh_bridge_in_order:
  "let s = bridgeBinaryWebSockets evs; up = client_frames bridge_step evs; down = upstream_frames bridge_step evs in
    subseq (so_sent (br_upstream s) @ br_pending s) up \<and> subseq (so_sent (br_client s)) down
    \<and> (so_readyState (br_client s) = OPEN \<and> so_readyState (br_upstream s) \<in> {CONNECTING, OPEN} \<longrightarrow>
         so_sent (br_upstream s) @ br_pending s = up \<and> so_sent (br_client s) = down)"
  using bridge_run_inv[of evs] by (simp add: bridge_inv_def Let_def)

definition sample_tunnel_events :: "socket_event list" where
  "sample_tunnel_events = [FromClient [1] True, UpstreamOpen, FromClient [2, 3] True, FromUpstream [4] True]"

lemma ssh_bridge_in_order_witness:
  "so_sent (br_upstream (bridgeBinaryWebSockets sample_tunnel_events)) @ br_pending (bridgeBinaryWebSockets sample_tunnel_events)
     = [([1], True), ([2, 3], True)]
   \<and> so_sent (br_client (bridgeBinaryWebSockets sample_tunnel_events)) = [([4], True)]"
proof -
  note defs = sample_tunnel_events_def bridgeBinaryWebSockets_def bridge_client_message_def bridge_upstream_message_def new_bridge_def
    socket_send_def MiB_def Let_def
  have "so_readyState (br_client (bridgeBinaryWebSockets sample_tunnel_events)) = OPEN"
    "so_readyState (br_upstream (bridgeBinaryWebSockets sample_tunnel_events)) = OPEN"
    by (simp_all add: defs)
  moreover have "client_frames bridge_step sample_tunnel_events = [([1], True), ([2, 3], True)]"
    "upstream_frames bridge_step sample_tunnel_events = [([4], True)]"
    by (simp_all add: client_frames_def upstream_frames_def defs)
  ultimately show ?thesis using ssh_bridge_in_order[of sample_tunnel_events] by (simp add: Let_def)
qed

text \<open>
  A refused frame does not end the stream. The handler asks the client's socket to close and goes on, so frames that
  arrive before the close is answered are still sent, without the one that was refused: the agent gets a byte stream
  with a gap.
\<close>

lemma ssh_bridge_gap:
  assumes "length a < MiB" "MiB < length a + length b"
  shows "so_sent (br_upstream (bridgeBinaryWebSockets [FromClient a True, FromClient b True, UpstreamOpen, FromClient c True]))
    = [(a, True), (c, True)]"
  using assms
  by (simp add: bridgeBinaryWebSockets_def bridge_client_message_def new_bridge_def close_client_def socket_close_def socket_send_def Let_def)

section \<open>The pump of a browser terminal\<close>

text \<open>The same two sockets; a frame that does not fit is dropped, and only the queue before the agent's socket is open closes.\<close>

definition pump_client_message :: "octets \<times> bool \<Rightarrow> bridge \<Rightarrow> bridge" where
  "pump_client_message f s =
     (if so_readyState (br_upstream s) = CONNECTING
      then if 32 \<le> length (br_pending s) then close_client s else s\<lparr>br_pending := br_pending s @ [f]\<rparr>
      else if so_readyState (br_upstream s) = OPEN \<and> so_bufferedAmount (br_upstream s) < MiB
      then s\<lparr>br_upstream := socket_send f (br_upstream s)\<rparr>
      else s)"

definition pump_upstream_message :: "octets \<times> bool \<Rightarrow> bridge \<Rightarrow> bridge" where
  "pump_upstream_message f s =
     (if so_readyState (br_client s) = OPEN \<and> so_bufferedAmount (br_client s) < MiB
      then s\<lparr>br_client := socket_send f (br_client s)\<rparr> else s)"

definition pump_step :: "bridge \<Rightarrow> socket_event \<Rightarrow> bridge" where
  "pump_step s e =
     (case e of
        FromClient message binary \<Rightarrow> if so_readyState (br_client s) = CLOSED then s else pump_client_message (message, binary) s
      | FromUpstream message binary \<Rightarrow>
          if so_readyState (br_upstream s) \<in> {CONNECTING, CLOSED} then s else pump_upstream_message (message, binary) s
      | _ \<Rightarrow> socket_step e s)"

lemma pump_step_simps [simp]:
  "pump_step s (FromClient message binary) = (if so_readyState (br_client s) = CLOSED then s else pump_client_message (message, binary) s)"
  "pump_step s (FromUpstream message binary) =
     (if so_readyState (br_upstream s) \<in> {CONNECTING, CLOSED} then s else pump_upstream_message (message, binary) s)"
  "pump_step s UpstreamOpen = socket_step UpstreamOpen s" "pump_step s (ClientDrained n) = socket_step (ClientDrained n) s"
  "pump_step s (UpstreamDrained n) = socket_step (UpstreamDrained n) s" "pump_step s ClientClosed = socket_step ClientClosed s"
  "pump_step s UpstreamClosed = socket_step UpstreamClosed s" "pump_step s SocketError = socket_step SocketError s"
  by (simp_all add: pump_step_def)

definition pump_inv :: "(octets \<times> bool) list \<Rightarrow> (octets \<times> bool) list \<Rightarrow> bridge \<Rightarrow> bool" where
  "pump_inv up down s \<longleftrightarrow> subseq (to_upstream s) up \<and> subseq (so_sent (br_client s)) down
     \<and> (so_readyState (br_upstream s) = OPEN \<longrightarrow> br_pending s = []) \<and> length (br_pending s) \<le> 32"

lemma pump_socket_inv: "pump_inv up down s \<Longrightarrow> pump_inv up down (socket_step e s)"
  by (cases e) (auto simp: pump_inv_def close_client_def close_upstream_def)

lemma pump_client_inv: "pump_inv up down s \<Longrightarrow> pump_inv (up @ [f]) down (pump_client_message f s)"
  using subseq_snoc[of "to_upstream s" up "[f]"] by (auto simp: pump_inv_def pump_client_message_def close_client_def)

lemma pump_upstream_inv: "pump_inv up down s \<Longrightarrow> pump_inv up (down @ [f]) (pump_upstream_message f s)"
  using subseq_snoc[of "so_sent (br_client s)" down "[f]"] by (auto simp: pump_inv_def pump_upstream_message_def)

lemma pump_run_inv:
  "pump_inv (client_frames pump_step evs) (upstream_frames pump_step evs) (foldl pump_step new_bridge evs)"
proof (induction evs rule: rev_induct)
  case Nil
  show ?case by (simp add: pump_inv_def new_bridge_def client_frames_def upstream_frames_def)
next
  case (snoc e evs)
  note IH = snoc.IH
  show ?case
    unfolding foldl_append frames_snoc using IH pump_client_inv[OF IH] pump_upstream_inv[OF IH] pump_socket_inv[OF IH]
    by (cases e) (simp_all del: socket_step.simps)
qed

text \<open>The pump keeps the order and never repeats, and its queue has at most 32 frames.\<close>

lemma terminal_pump_order:
  "let s = foldl pump_step new_bridge evs in
    subseq (so_sent (br_upstream s) @ br_pending s) (client_frames pump_step evs)
    \<and> subseq (so_sent (br_client s)) (upstream_frames pump_step evs) \<and> length (br_pending s) \<le> 32"
  using pump_run_inv[of evs] by (simp add: pump_inv_def Let_def)

text \<open>It can lose frames without a sign: while a mebibyte is waiting, what is typed, or printed, is dropped, and both sockets
  stay open.\<close>

lemma terminal_pump_drops:
  "so_readyState (br_upstream s) = OPEN \<Longrightarrow> MiB \<le> so_bufferedAmount (br_upstream s) \<Longrightarrow> pump_step s (FromClient message binary) = s"
  "MiB \<le> so_bufferedAmount (br_client s) \<Longrightarrow> pump_step s (FromUpstream message binary) = s"
  by (simp_all add: pump_client_message_def pump_upstream_message_def)

section \<open>Upgrades\<close>

text \<open>
  The state behind the upgrades, and the browser sockets that are not yet closed with their tickets. The ticket is
  released by the \<open>close\<close> event of the socket, which the callback of \<open>handleUpgrade\<close> registers. The library documents
  that callback as called when the upgrade is successful; a handshake it refuses ends without it, and without throwing.
\<close>

record control =
  ct_auth :: auth_store
  ct_workspaces :: svc
  ct_admission :: terminal_admission
  ct_terminals :: "(nat \<times> string) list"

record upgrade_headers =
  uh_path :: string
  uh_lease :: "string option"
  uh_mode :: "string option"
  uh_authorization :: "string option"
  uh_protocols :: string
  uh_origin :: "string option"
  uh_cookie :: "string option"

datatype handshake = Upgraded | Refused | Threw

datatype control_upgrade =
    Rejected nat
  | Bridge string string string string
  | Terminal string nat
  | Dropped

definition tunnel_upgrade :: "(string \<Rightarrow> bool) \<Rightarrow> handshake \<Rightarrow> string \<Rightarrow> upgrade_headers \<Rightarrow> control_upgrade" where
  "tunnel_upgrade is_uuid hs wid h =
     (let accessToken = bearer (uh_authorization h)
      in case (uh_lease h, uh_mode h) of
           (Some leaseId, Some mode) \<Rightarrow>
             if is_uuid leaseId \<and> (mode = ''shell'' \<or> mode = ''nfs'') \<and> accessToken \<noteq> []
                \<and> ''bloom-ssh-v1'' \<in> set (map trim (split_on (CHR '','') (uh_protocols h)))
             then (case hs of Upgraded \<Rightarrow> Bridge wid leaseId mode accessToken | Refused \<Rightarrow> Dropped | Threw \<Rightarrow> Rejected 401)
             else Rejected 401
         | _ \<Rightarrow> Rejected 401)"

definition terminal_upgrade ::
  "(string \<Rightarrow> string \<Rightarrow> string) \<Rightarrow> (string \<Rightarrow> string option) \<Rightarrow> (string \<Rightarrow> string option) \<Rightarrow> auth_config \<Rightarrow> int \<Rightarrow> int \<Rightarrow> handshake
     \<Rightarrow> upgrade_headers \<Rightarrow> control \<Rightarrow> control_upgrade \<times> control" where
  "terminal_upgrade hmac decode url_origin cfg maxRunning now hs h s =
     (if \<not> validBrowserOrigin url_origin (uh_origin h) (au_origin cfg) then (Rejected 401, s)
      else case path_id ''/api/workspaces/'' ''/terminal'' (uh_path h) of
        None \<Rightarrow> (Rejected 401, s)
      | Some wid \<Rightarrow>
          (case readSession hmac decode cfg now (uh_cookie h) (ct_auth s) of
             None \<Rightarrow> (Rejected 401, s)
           | Some session \<Rightarrow>
               if \<not> ownsRunning now (se_wallet session) wid (ct_workspaces s) then (Rejected 401, s)
               else (case tm_acquire 4 (max 4 (maxRunning * 4)) wid (ct_admission s) of
                  None \<Rightarrow> (Rejected 503, s)
                | Some (ticket, adm) \<Rightarrow>
                    (case hs of
                       Upgraded \<Rightarrow> (Terminal wid ticket,
                         s\<lparr>ct_admission := adm, ct_terminals := (ticket, wid) # ct_terminals s\<rparr>)
                     | Refused \<Rightarrow> (Dropped, s\<lparr>ct_admission := adm\<rparr>)
                     | Threw \<Rightarrow> (Rejected 401, s\<lparr>ct_admission := tm_release ticket adm\<rparr>)))))"

definition control_upgrade ::
  "(string \<Rightarrow> string \<Rightarrow> string) \<Rightarrow> (string \<Rightarrow> string option) \<Rightarrow> (string \<Rightarrow> string option) \<Rightarrow> (string \<Rightarrow> bool) \<Rightarrow> auth_config \<Rightarrow> int \<Rightarrow> int
     \<Rightarrow> handshake \<Rightarrow> upgrade_headers \<Rightarrow> control \<Rightarrow> control_upgrade \<times> control" where
  "control_upgrade hmac decode url_origin is_uuid cfg maxRunning now hs h s =
     (case path_id ''/api/workspaces/'' ''/connections/ssh/tunnel'' (uh_path h) of
        Some wid \<Rightarrow> (tunnel_upgrade is_uuid hs wid h, s)
      | None \<Rightarrow> terminal_upgrade hmac decode url_origin cfg maxRunning now hs h s)"

text \<open>The browser's socket closes.\<close>

definition terminal_closed :: "nat \<Rightarrow> control \<Rightarrow> control" where
  "terminal_closed ticket s =
     (if ticket \<in> fst ` set (ct_terminals s)
      then s\<lparr>ct_admission := tm_release ticket (ct_admission s), ct_terminals := filter (\<lambda>t. fst t \<noteq> ticket) (ct_terminals s)\<rparr> else s)"

datatype control_event =
    Upgrade int handshake upgrade_headers
  | TerminalClosed nat
  | Other auth_store svc

definition control_step ::
  "(string \<Rightarrow> string \<Rightarrow> string) \<Rightarrow> (string \<Rightarrow> string option) \<Rightarrow> (string \<Rightarrow> string option) \<Rightarrow> (string \<Rightarrow> bool) \<Rightarrow> auth_config \<Rightarrow> int
     \<Rightarrow> control \<Rightarrow> control_event \<Rightarrow> control" where
  "control_step hmac decode url_origin is_uuid cfg maxRunning s e =
     (case e of
        Upgrade now hs h \<Rightarrow> snd (control_upgrade hmac decode url_origin is_uuid cfg maxRunning now hs h s)
      | TerminalClosed ticket \<Rightarrow> terminal_closed ticket s
      | Other auth workspaces \<Rightarrow> s\<lparr>ct_auth := auth, ct_workspaces := workspaces\<rparr>)"

definition new_control :: "auth_store \<Rightarrow> svc \<Rightarrow> control" where
  "new_control auth workspaces =
     \<lparr>ct_auth = auth, ct_workspaces = workspaces, ct_admission = new_TerminalAdmission, ct_terminals = []\<rparr>"

abbreviation terminal_path :: "upgrade_headers \<Rightarrow> string option" where
  "terminal_path h \<equiv> path_id ''/api/workspaces/'' ''/terminal'' (uh_path h)"

text \<open>The guards of a terminal upgrade: either it is rejected and nothing changes, or all of them hold.\<close>

lemma terminal_upgrade_cases:
  assumes "terminal_upgrade hmac decode url_origin cfg maxRunning now hs h s = (r, s')"
  obtains code where "r = Rejected code" "s' = s"
  | wid session ticket adm where "validBrowserOrigin url_origin (uh_origin h) (au_origin cfg)" "terminal_path h = Some wid"
    "readSession hmac decode cfg now (uh_cookie h) (ct_auth s) = Some session" "ownsRunning now (se_wallet session) wid (ct_workspaces s)"
    "tm_acquire 4 (max 4 (maxRunning * 4)) wid (ct_admission s) = Some (ticket, adm)"
    "(r, s') = (case hs of
        Upgraded \<Rightarrow> (Terminal wid ticket, s\<lparr>ct_admission := adm, ct_terminals := (ticket, wid) # ct_terminals s\<rparr>)
      | Refused \<Rightarrow> (Dropped, s\<lparr>ct_admission := adm\<rparr>)
      | Threw \<Rightarrow> (Rejected 401, s\<lparr>ct_admission := tm_release ticket adm\<rparr>))"
proof (cases "validBrowserOrigin url_origin (uh_origin h) (au_origin cfg)")
  case v: True
  show ?thesis
  proof (cases "terminal_path h")
    case None
    then show ?thesis using assms v that(1)[of 401] by (simp add: terminal_upgrade_def)
  next
    case p: (Some wid)
    show ?thesis
    proof (cases "readSession hmac decode cfg now (uh_cookie h) (ct_auth s)")
      case None
      then show ?thesis using assms v p that(1)[of 401] by (simp add: terminal_upgrade_def)
    next
      case r: (Some session)
      show ?thesis
      proof (cases "ownsRunning now (se_wallet session) wid (ct_workspaces s)")
        case False
        then show ?thesis using assms v p r that(1)[of 401] by (simp add: terminal_upgrade_def)
      next
        case o: True
        show ?thesis
        proof (cases "tm_acquire 4 (max 4 (maxRunning * 4)) wid (ct_admission s)")
          case None
          then show ?thesis using assms v p r o that(1)[of 503] by (simp add: terminal_upgrade_def)
        next
          case (Some t)
          obtain ticket adm where t: "t = (ticket, adm)" by fastforce
          show ?thesis using that(2)[OF v p r o] assms v p r o Some unfolding t by (simp add: terminal_upgrade_def)
        qed
      qed
    qed
  qed
next
  case False
  then show ?thesis using assms that(1)[of 401] by (simp add: terminal_upgrade_def)
qed

lemma tunnel_not_terminal: "tunnel_upgrade is_uuid hs w h \<noteq> Terminal wid ticket"
  by (simp add: tunnel_upgrade_def Let_def split: option.split handshake.split)

lemma terminal_upgrade_Terminal:
  assumes "control_upgrade hmac decode url_origin is_uuid cfg maxRunning now hs h s = (Terminal wid ticket, s')"
  shows "validBrowserOrigin url_origin (uh_origin h) (au_origin cfg)"
    "\<exists>session. readSession hmac decode cfg now (uh_cookie h) (ct_auth s) = Some session \<and> ownsRunning now (se_wallet session) wid (ct_workspaces s)"
proof -
  have t: "terminal_upgrade hmac decode url_origin cfg maxRunning now hs h s = (Terminal wid ticket, s')"
    using assms tunnel_not_terminal[of is_uuid hs _ h wid ticket] by (simp add: control_upgrade_def split: option.splits)
  have "validBrowserOrigin url_origin (uh_origin h) (au_origin cfg) \<and>
    (\<exists>session. readSession hmac decode cfg now (uh_cookie h) (ct_auth s) = Some session \<and> ownsRunning now (se_wallet session) wid (ct_workspaces s))"
    using t by (cases rule: terminal_upgrade_cases) (auto split: handshake.splits)
  then show "validBrowserOrigin url_origin (uh_origin h) (au_origin cfg)"
    "\<exists>session. readSession hmac decode cfg now (uh_cookie h) (ct_auth s) = Some session \<and> ownsRunning now (se_wallet session) wid (ct_workspaces s)"
    by blast+
qed

text \<open>C12. A browser terminal is for the signed-in owner. Whenever the control server attaches a browser to the terminal of
  a workspace, the upgrade came from the site's own origin and carries the token of an unexpired session, that session
  was made by a sign-in whose signature was verified (or the development login, outside public mode only), and its
  wallet owns the workspace, which is running within its lease.\<close>
theorem terminal_upgrade_owned:
  assumes "auth_run hmac decode parse_siwe checksum verify_message cfg evs (ct_auth s)"
    and "control_upgrade hmac decode url_origin is_uuid cfg maxRunning now hs h s = (Terminal wid ticket, s')"
  shows "\<exists>r row origin. uh_origin h = Some origin \<and> url_origin origin = Some (au_origin cfg) \<and> now < se_expires_at r
    \<and> row \<in> set (sv_rows (ct_workspaces s)) \<and> ws_id row = wid \<and> ws_wallet row = to_lower (se_wallet r)
    \<and> ws_state row = Workspaces.Running \<and> now < ws_lease_expires_at row
    \<and> ((\<exists>v c. SignedIn v r \<in> set evs \<and> Issued c \<in> set evs \<and> Auth.answers parse_siwe checksum cfg c v
          \<and> verify_message (if_address v) (if_message v) (if_signature v) \<and> se_wallet r = to_lower (if_address v))
       \<or> DevSignedIn r \<in> set evs \<and> au_devAuth cfg \<and> \<not> au_publicMode cfg)"
proof -
  obtain session where s: "validBrowserOrigin url_origin (uh_origin h) (au_origin cfg)"
    "readSession hmac decode cfg now (uh_cookie h) (ct_auth s) = Some session" "ownsRunning now (se_wallet session) wid (ct_workspaces s)"
    using terminal_upgrade_Terminal[OF assms(2)] by blast
  note rs = readSession_Some[OF s(2)]
  obtain row where row: "row \<in> set (sv_rows (ct_workspaces s))" "ws_id row = wid" "ws_wallet row = to_lower (se_wallet session)"
    "ws_state row = Workspaces.Running" "now < ws_lease_expires_at row"
    using s(3) by (auto simp: ownsRunning_def list_ex_iff)
  obtain origin where origin: "uh_origin h = Some origin" "url_origin origin = Some (au_origin cfg)"
    using s(1) by (auto simp: validBrowserOrigin_def split: option.splits)
  have "signed_session parse_siwe checksum verify_message cfg evs session
      \<or> DevSignedIn session \<in> set evs \<and> au_devAuth cfg \<and> \<not> au_publicMode cfg"
    using auth_run_inv[OF assms(1)] rs unfolding auth_inv_def by blast
  then show ?thesis using rs row origin unfolding signed_session_def by blast
qed

section \<open>Terminals are counted while they are open\<close>

definition control_ok :: "int \<Rightarrow> control \<Rightarrow> bool" where
  "control_ok maxRunning s \<longleftrightarrow> tm_ok 4 (max 4 (maxRunning * 4)) (ct_admission s) \<and> distinct (map fst (ct_terminals s))
     \<and> tm_held (ct_admission s) = fst ` set (ct_terminals s)
     \<and> (\<forall>wid. tm_held_by wid (ct_admission s) = {t. (t, wid) \<in> set (ct_terminals s)})"

lemma release_acquired:
  assumes "tm_ok per glob a" "tm_acquire per glob wid a = Some (t, b)"
  shows "tm_ok per glob (tm_release t b)" "tm_held (tm_release t b) = tm_held a" "tm_held_by v (tm_release t b) = tm_held_by v a"
proof -
  note acq = tm_acquire_ok[OF assms]
  have ok: "tm_ok per glob b" using acq by blast
  show "tm_ok per glob (tm_release t b)" "tm_held (tm_release t b) = tm_held a"
    using tm_release_ok[OF ok, of t] acq by auto
  have "t = length (tm_tickets a)" "tm_tickets b = tm_tickets a @ [(wid, False)]"
    using assms(2) by (auto simp: tm_acquire_def Let_def split: if_splits)
  then have "tm_held_by v b - {t} = tm_held_by v a" by (auto simp: tm_held_by_def nth_append less_Suc_eq split: if_splits)
  then show "tm_held_by v (tm_release t b) = tm_held_by v a" using tm_release_ok[OF ok, of t v] by auto
qed

lemma acquired_by:
  assumes "tm_acquire per glob wid a = Some (t, b)"
  shows "tm_held_by v b = (if v = wid then insert t (tm_held_by v a) else tm_held_by v a)"
proof -
  have "t = length (tm_tickets a)" "tm_tickets b = tm_tickets a @ [(wid, False)]"
    using assms by (auto simp: tm_acquire_def Let_def split: if_splits)
  then show ?thesis by (auto simp: tm_held_by_def nth_append less_Suc_eq split: if_splits)
qed

lemma control_ok_admission: "control_ok n s \<Longrightarrow> control_ok n (s\<lparr>ct_auth := a, ct_workspaces := w\<rparr>)"
  by (simp add: control_ok_def)

lemma terminal_upgrade_ok:
  assumes "control_ok n s" "hs \<noteq> Refused" "terminal_upgrade hmac decode url_origin cfg n now hs h s = (r, s')"
  shows "control_ok n s'"
proof (cases "s' = s")
  case False
  obtain wid ticket adm where a: "tm_acquire 4 (max 4 (n * 4)) wid (ct_admission s) = Some (ticket, adm)"
    and s': "hs = Upgraded \<and> s' = s\<lparr>ct_admission := adm, ct_terminals := (ticket, wid) # ct_terminals s\<rparr>
       \<or> hs = Threw \<and> s' = s\<lparr>ct_admission := tm_release ticket adm\<rparr>"
    using assms(3)
  proof (cases rule: terminal_upgrade_cases)
    case (2 wid session ticket adm)
    then show ?thesis using assms(2) that[of wid ticket adm] by (cases hs) auto
  qed (use False in simp)
  have ok: "tm_ok 4 (max 4 (n * 4)) (ct_admission s)" using assms(1) by (simp add: control_ok_def)
  note acq = tm_acquire_ok[OF ok a] and by_ = acquired_by[OF a] and rel = release_acquired[OF ok a]
  from s' show ?thesis
  proof
    assume u: "hs = Upgraded \<and> s' = s\<lparr>ct_admission := adm, ct_terminals := (ticket, wid) # ct_terminals s\<rparr>"
    have "ticket \<notin> fst ` set (ct_terminals s)" using acq assms(1) by (simp add: control_ok_def)
    then show ?thesis using u acq by_ assms(1) by (auto simp: control_ok_def)
  next
    assume "hs = Threw \<and> s' = s\<lparr>ct_admission := tm_release ticket adm\<rparr>"
    then show ?thesis using rel assms(1) by (simp add: control_ok_def)
  qed
qed (use assms(1) in simp)

lemma terminal_closed_ok:
  assumes "control_ok n s"
  shows "control_ok n (terminal_closed ticket s)"
proof (cases "ticket \<in> fst ` set (ct_terminals s)")
  case True
  have ok: "tm_ok 4 (max 4 (n * 4)) (ct_admission s)" using assms by (simp add: control_ok_def)
  have d: "(t, wid) \<in> set (ct_terminals s) \<and> t \<noteq> ticket \<longleftrightarrow> (t, wid) \<in> set (filter (\<lambda>t. fst t \<noteq> ticket) (ct_terminals s))" for t wid by auto
  have "fst ` set (filter (\<lambda>t. fst t \<noteq> ticket) (ct_terminals s)) = fst ` set (ct_terminals s) - {ticket}" by auto
  then show ?thesis
    using True assms tm_release_ok[OF ok, of ticket] by (auto simp: control_ok_def terminal_closed_def distinct_map_filter)
qed (use assms in \<open>simp add: terminal_closed_def\<close>)

fun handshake_refused :: "control_event \<Rightarrow> bool" where
  "handshake_refused (Upgrade now hs h) \<longleftrightarrow> hs = Refused"
| "handshake_refused _ \<longleftrightarrow> False"

lemma control_step_ok:
  assumes "control_ok n s" "\<not> handshake_refused e"
  shows "control_ok n (control_step hmac decode url_origin is_uuid cfg n s e)"
proof (cases e)
  case (Upgrade now hs h)
  obtain r s' where t: "terminal_upgrade hmac decode url_origin cfg n now hs h s = (r, s')" by fastforce
  have "control_ok n s'" using terminal_upgrade_ok[OF assms(1) _ t] assms(2) Upgrade by simp
  then show ?thesis using assms(1) t Upgrade by (simp add: control_step_def control_upgrade_def split: option.split)
qed (use assms(1) in \<open>simp_all add: control_step_def terminal_closed_ok control_ok_admission\<close>)


text \<open>
  A handshake that the library refuses after the checks, for a missing or malformed WebSocket header or a client that is
  gone, keeps its ticket: nothing holds the callback that would release it, so the ticket counts for as long as the
  server runs, and four of them shut the terminal of the workspace.
\<close>

lemma refused_handshake_leaks:
  assumes "tm_ok 4 (max 4 (maxRunning * 4)) (ct_admission s)"
    and "terminal_upgrade hmac decode url_origin cfg maxRunning now Refused h s = (Dropped, s')"
  shows "\<exists>wid ticket. ticket \<notin> tm_held_by wid (ct_admission s) \<and> tm_held_by wid (ct_admission s') = insert ticket (tm_held_by wid (ct_admission s))
    \<and> ct_terminals s' = ct_terminals s"
proof -
  obtain wid ticket adm where a: "tm_acquire 4 (max 4 (maxRunning * 4)) wid (ct_admission s) = Some (ticket, adm)"
    "s' = s\<lparr>ct_admission := adm\<rparr>"
    using assms(2) by (cases rule: terminal_upgrade_cases) auto
  then show ?thesis using tm_acquire_ok[OF assms(1) a(1)] by auto
qed

section \<open>Routes\<close>

text \<open>The error handler.\<close>

datatype control_error = InvalidRequest | AuthFailed auth_error | WorkspaceFailed ws_error | HasStatus nat | Unexpected

definition control_status :: "control_error \<Rightarrow> nat" where
  "control_status error =
     (case error of
        InvalidRequest \<Rightarrow> 400
      | AuthFailed e \<Rightarrow> 401
      | WorkspaceFailed (WorkspaceError status) \<Rightarrow> status
      | HasStatus status \<Rightarrow> if status = 413 then 413 else 500
      | Unexpected \<Rightarrow> 500)"

text \<open>\<open>verifyTurnstile\<close>. \<open>siteverify\<close> is the call of the service with secret, token and address: \<open>None\<close> when it throws,
  otherwise the status test of the response, and \<open>success\<close> and \<open>hostname\<close> of its body; \<open>hostname_of\<close> is the URL parser.\<close>

definition verifyTurnstile ::
  "(string \<Rightarrow> string \<Rightarrow> string \<Rightarrow> (bool \<times> bool \<times> string option) option) \<Rightarrow> (string \<Rightarrow> string) \<Rightarrow> config \<Rightarrow> string option \<Rightarrow> string
     \<Rightarrow> (control_error, bool) res" where
  "verifyTurnstile siteverify hostname_of c token ip =
     (if \<not> truthy (cfg_turnstileSecret c) then Inr (\<not> cfg_publicMode c)
      else if \<not> truthy token then Inr False
      else case siteverify (the (cfg_turnstileSecret c)) (the token) ip of
        None \<Rightarrow> Inl Unexpected
      | Some (response_ok, success, hostname) \<Rightarrow>
          Inr (response_ok \<and> success \<and> hostname = Some (hostname_of (cfg_origin c))))"

text \<open>\<open>POST /api/workspaces\<close> after the guard and the schema of the body; \<open>Inr None\<close> is the refusal with 403.\<close>

definition create_route ::
  "(string \<Rightarrow> string \<Rightarrow> string \<Rightarrow> (bool \<times> bool \<times> string option) option) \<Rightarrow> (string \<Rightarrow> string) \<Rightarrow> config \<Rightarrow> ws_config
     \<Rightarrow> Workspaces.data_capabilities option \<Rightarrow> string \<Rightarrow> string \<Rightarrow> int \<Rightarrow> string option \<Rightarrow> string \<Rightarrow> string \<Rightarrow> session_row
     \<Rightarrow> Workspaces.storage_mode \<Rightarrow> svc \<Rightarrow> (control_error, public_workspace option \<times> svc) res" where
  "create_route siteverify hostname_of c wcfg caps newId newVolume now token ip ipHash session storage s =
     rbind (verifyTurnstile siteverify hostname_of c token ip) (\<lambda>human.
       if \<not> human then Inr (None, s)
       else case create_workspace wcfg caps newId newVolume now (se_wallet session) ipHash (Some storage) s of
         Inl e \<Rightarrow> Inl (WorkspaceFailed e)
       | Inr (workspace, s') \<Rightarrow> Inr (Some workspace, s'))"

text \<open>C14. In public mode a workspace is made only for a verified human. For every configuration that loads in public mode
  for the control server, a request that creates a workspace carried a token that the verification service confirmed,
  with the operator's secret and for the host of this site; without a token, without a confirmation, or with one for
  another host nothing is created.\<close>
theorem public_create_verified:
  assumes "loadConfig number is_url url_origin to_ascii cwd source Control = Inr c" "cfg_publicMode c"
    and "create_route siteverify hostname_of c wcfg caps newId newVolume now token ip ipHash session storage s = Inr (made, s')"
    and "s' \<noteq> s \<or> made \<noteq> None"
  shows "\<exists>secret t. cfg_turnstileSecret c = Some secret \<and> token = Some t \<and> t \<noteq> []
    \<and> siteverify secret t ip = Some (True, True, Some (hostname_of (cfg_origin c)))"
proof -
  have "public_complaints c Control = []" using loadConfig_safe[OF assms(1)] assms(2) by (simp add: assertSafe_Inr)
  then have secret: "truthy (cfg_turnstileSecret c)" by (simp add: public_complaints_def if_Nil_iff)
  have "verifyTurnstile siteverify hostname_of c token ip = Inr True"
    using assms(3,4) by (auto simp: create_route_def rbind_Inr_iff split: if_splits)
  then show ?thesis
    using secret by (cases "cfg_turnstileSecret c"; cases token) (auto simp: verifyTurnstile_def truthy_def split: if_splits option.splits)
qed

text \<open>\<open>POST .../connections/ssh\<close>: the plan that is returned with a grant. The lease has been issued when it is made.\<close>

record plan_request =
  cp_platform :: platform
  cp_proxyHelperPath :: string
  cp_tokenFilePath :: string
  cp_privateKeyPath :: string
  cp_certificatePath :: string
  cp_knownHostsPath :: string
  cp_localPort :: "int option"
  cp_mountPoint :: "string option"

definition ClientConnectionPlan :: "plan_request \<Rightarrow> bool" where
  "ClientConnectionPlan p \<longleftrightarrow>
     list_all (\<lambda>v. 1 \<le> length v \<and> length v \<le> 4096)
       ([cp_proxyHelperPath p, cp_tokenFilePath p, cp_privateKeyPath p, cp_certificatePath p, cp_knownHostsPath p]
        @ (case cp_mountPoint p of None \<Rightarrow> [] | Some v \<Rightarrow> [v]))
     \<and> (case cp_localPort p of None \<Rightarrow> True | Some n \<Rightarrow> int_between 1 65535 n)"

definition defaultMountPoint :: "platform \<Rightarrow> string" where
  "defaultMountPoint platform = (if platform = Windows then ''Z:'' else ''/mnt/bloom-workspace'')"

datatype client_plan = ShellPlan "string list" "string list" | NfsPlan nfs_client_plan

definition ceremony_forward :: "string list" where
  "ceremony_forward = [''-L'', ''18734:localhost:18734'']"

definition grant_input :: "string \<Rightarrow> string \<Rightarrow> string \<Rightarrow> string \<Rightarrow> plan_request \<Rightarrow> client_input" where
  "grant_input origin wid leaseId mode p =
     \<lparr>ci_gatewayOrigin = origin, ci_workspaceId = wid, ci_leaseId = leaseId, ci_mode = mode,
      ci_proxyHelperPath = cp_proxyHelperPath p, ci_tokenFilePath = cp_tokenFilePath p, ci_privateKeyPath = cp_privateKeyPath p,
      ci_certificatePath = cp_certificatePath p, ci_knownHostsPath = cp_knownHostsPath p\<rparr>"

definition grant_plan ::
  "(string \<Rightarrow> js_url option) \<Rightarrow> string \<Rightarrow> string \<Rightarrow> string \<Rightarrow> string \<Rightarrow> plan_request \<Rightarrow> (ssh_error, client_plan) res" where
  "grant_plan new_URL origin wid leaseId mode p =
     (let input = grant_input origin wid leaseId mode p
      in if mode = ''shell''
         then rbind (createSshClientArgv new_URL input) (\<lambda>argv. Inr (ShellPlan argv (argv @ ceremony_forward)))
         else rbind (createNfsClientPlan new_URL input (cp_platform p)
                (case cp_localPort p of None \<Rightarrow> 30490 | Some n \<Rightarrow> n)
                (case cp_mountPoint p of None \<Rightarrow> defaultMountPoint (cp_platform p) | Some m \<Rightarrow> m)) (\<lambda>plan. Inr (NfsPlan plan)))"

text \<open>The default port of the NFS forward is 30490 and the plan for Windows takes no port but 2049, so a request from
  Windows that names no port fails, after its lease was issued and without its token being returned.\<close>

lemma windows_default_port_refused:
  assumes "cp_platform p = Windows" "cp_localPort p = None" "mode \<noteq> ''shell''"
  shows "\<exists>e. grant_plan new_URL origin wid leaseId mode p = Inl e"
proof -
  have n: "fst (nfsPlatformCapability Windows) \<noteq> Fallback" by code_simp
  have "\<nexists>plan. createNfsClientPlan new_URL (grant_input origin wid leaseId mode p) Windows 30490 m = Inr plan" for m
    using createNfsClientPlan_Inr[OF _ n, of new_URL "grant_input origin wid leaseId mode p" 30490 m] by auto
  then obtain e where e: "createNfsClientPlan new_URL (grant_input origin wid leaseId mode p) Windows 30490
      (case cp_mountPoint p of None \<Rightarrow> defaultMountPoint (cp_platform p) | Some m \<Rightarrow> m) = Inl e" by (metis sum.exhaust)
  show ?thesis using assms by (simp add: grant_plan_def Let_def e)
qed

section \<open>Witnesses\<close>

definition terminal_row :: workspace_row where
  "terminal_row = \<lparr>ws_id = ''a1'', ws_wallet = ''0xab'', ws_ip_hash = ''ip'', ws_state = Workspaces.Running, ws_runtime = ''qemu'',
     ws_created_at = 1000, ws_lease_expires_at = 3601000, ws_stopped_at = None, ws_failure = None,
     ws_storage_mode = Workspaces.Disposable, ws_volume_id = None, ws_quota = 536870912\<rparr>"

definition terminal_headers :: upgrade_headers where
  "terminal_headers = \<lparr>uh_path = ''/api/workspaces/a1/terminal'', uh_lease = None, uh_mode = None, uh_authorization = None, uh_protocols = [],
     uh_origin = Some ''https://bloom.example'', uh_cookie = Some ''bloom_session=t''\<rparr>"

definition sample_control :: control where
  "sample_control = new_control sample_store (new_service\<lparr>sv_rows := [terminal_row]\<rparr>)"

abbreviation sample_control_step :: "control \<Rightarrow> control_event \<Rightarrow> control" where
  "sample_control_step \<equiv> control_step (\<lambda>t k. t) Some Some (\<lambda>_. True) sample_auth 2"

lemma sample_upgrade:
  "control_upgrade (\<lambda>t k. t) Some Some (\<lambda>_. True) sample_auth 2 5000 Upgraded terminal_headers sample_control
    = (Terminal ''a1'' 0, sample_control\<lparr>ct_admission := snd (the (tm_acquire 4 8 ''a1'' new_TerminalAdmission)), ct_terminals := [(0, ''a1'')]\<rparr>)"
proof -
  let ?s = "sample_control" and ?h = terminal_headers
  have tunnel: "path_id ''/api/workspaces/'' ''/connections/ssh/tunnel'' (uh_path ?h) = None" by code_simp
  have path: "terminal_path ?h = Some ''a1''" by code_simp
  have origin: "validBrowserOrigin Some (uh_origin ?h) (au_origin sample_auth)" by code_simp
  have session: "readSession (\<lambda>t k. t) Some sample_auth 5000 (uh_cookie ?h) (ct_auth ?s) = Some sample_session" by code_simp
  have owns: "ownsRunning 5000 (se_wallet sample_session) ''a1'' (ct_workspaces ?s)" by code_simp
  have adm: "tm_acquire 4 (max 4 (2 * 4)) ''a1'' (ct_admission ?s) = Some (0, snd (the (tm_acquire 4 8 ''a1'' new_TerminalAdmission)))"
    by (simp add: tm_acquire_def new_TerminalAdmission_def sample_control_def new_control_def)
  have "ct_terminals ?s = []" by (simp add: sample_control_def new_control_def)
  then show ?thesis
    unfolding control_upgrade_def terminal_upgrade_def tunnel path session adm option.case prod.case handshake.case
    using origin owns by simp
qed

lemma terminal_upgrade_owned_witness:
  "\<exists>r row. row \<in> {terminal_row} \<and> ws_wallet row = to_lower (se_wallet r)
     \<and> (\<exists>v c. SignedIn v r \<in> set sample_events \<and> Auth.answers (\<lambda>_. sample_siwe) Some sample_auth c v)"
proof -
  have "ct_auth sample_control = sample_store" "sv_rows (ct_workspaces sample_control) = [terminal_row]"
    by (simp_all add: sample_control_def new_control_def)
  moreover have "au_publicMode sample_auth" by (simp add: sample_auth_def)
  ultimately show ?thesis
    using terminal_upgrade_owned[OF _ sample_upgrade, of "\<lambda>_. sample_siwe" Some "\<lambda>_ _ _. True" sample_events] sample_run_events
    by auto
qed


definition sample_verify :: "string \<Rightarrow> string \<Rightarrow> string \<Rightarrow> (bool \<times> bool \<times> string option) option" where
  "sample_verify secret t ip = Some (True, secret = ''s'' \<and> t = ''tok'', Some ''bloom.example'')"

lemma sample_create_ok:
  "\<not> isl (create_workspace sample_config None ''w1'' ''v1'' 1000 ''0xab'' ''ip'' (Some Workspaces.Persistent) new_service)"
  by code_simp

lemma public_create_verified_witness:
  "\<exists>c secret. loadConfig (\<lambda>_. None) (\<lambda>_. True) Some id ''/srv'' Config.sample_source Control = Inr c
     \<and> cfg_turnstileSecret c = Some secret \<and> sample_verify secret ''tok'' ''203.0.113.9'' = Some (True, True, Some ''bloom.example'')"
proof -
  have "case loadConfig (\<lambda>_. None) (\<lambda>_. True) Some id ''/srv'' Config.sample_source Control of
      Inl _ \<Rightarrow> False | Inr c \<Rightarrow> cfg_publicMode c \<and> cfg_turnstileSecret c = Some ''s''" by code_simp
  then obtain c where c: "loadConfig (\<lambda>_. None) (\<lambda>_. True) Some id ''/srv'' Config.sample_source Control = Inr c"
    "cfg_publicMode c" "cfg_turnstileSecret c = Some ''s''" by (auto split: sum.splits)
  obtain pub s where made: "create_workspace sample_config None ''w1'' ''v1'' 1000 ''0xab'' ''ip'' (Some Workspaces.Persistent) new_service = Inr (pub, s)"
    by (cases "create_workspace sample_config None ''w1'' ''v1'' 1000 ''0xab'' ''ip'' (Some Workspaces.Persistent) new_service")
      (use sample_create_ok in auto)
  have "create_route sample_verify (\<lambda>_. ''bloom.example'') c sample_config None ''w1'' ''v1'' 1000 (Some ''tok'') ''203.0.113.9'' ''ip''
      sample_session Workspaces.Persistent new_service = Inr (Some pub, s)"
    using made by (simp add: create_route_def verifyTurnstile_def truthy_def c(3) sample_verify_def sample_session_def)
  from public_create_verified[OF c(1,2) this] c(1) show ?thesis by auto
qed

end
