(* ===== verification/AgentClient.thy ===== *)
theory AgentClient
  imports Encoding
begin

text \<open>
  \<open>src/control/agent-client.ts\<close> and the routes of \<open>src/agent/server.ts\<close> that answer it: how an operation of the control
  server becomes a request on the private socket, and which operation the node agent reads from it.

  Express matches the routes in order: a path is cut at its slashes, a literal segment is compared without case, a
  parameter is any non-empty segment, decoded, and one slash may follow. The query is that of \<open>querystring\<close>. JSON bodies
  are carried as values, since \<open>JSON.parse\<close> undoes \<open>JSON.stringify\<close> on them; \<open>Number\<close> and the UUID pattern are arguments.
  Strings are Latin-1 here, so UTF-8 sequences are those of code points below 256.
\<close>

section \<open>Percent encoding\<close>

definition is_alnum :: "char \<Rightarrow> bool" where
  "is_alnum c \<longleftrightarrow> is_alpha c \<or> is_digit c"

definition uri_unreserved :: "char \<Rightarrow> bool" where
  "uri_unreserved c \<longleftrightarrow> is_alnum c \<or> c \<in> set ''-_.!~*'' \<or> c = CHR 0x27 \<or> c = CHR ''('' \<or> c = CHR '')''"

definition upper_hex :: "nat \<Rightarrow> char" where
  "upper_hex n = (if n < 10 then char_of (48 + n) else char_of (55 + n))"

definition hex_value :: "char \<Rightarrow> nat option" where
  "hex_value c = (if is_digit c then Some (code c - 48)
     else if 65 \<le> code c \<and> code c \<le> 70 then Some (code c - 55)
     else if 97 \<le> code c \<and> code c \<le> 102 then Some (code c - 87) else None)"

definition percent :: "nat \<Rightarrow> string" where
  "percent b = [CHR ''%'', upper_hex (b div 16), upper_hex (b mod 16)]"

definition utf8_char :: "char \<Rightarrow> nat list" where
  "utf8_char c = (if code c < 128 then [code c] else [192 + code c div 64, 128 + code c mod 64])"

definition encode_char :: "char \<Rightarrow> string" where
  "encode_char c = (if uri_unreserved c then [c] else concat (map percent (utf8_char c)))"

definition encodeURIComponent :: "string \<Rightarrow> string" where
  "encodeURIComponent s = concat (map encode_char s)"

text \<open>Decoding: the octets first, then UTF-8; \<open>None\<close> when it throws.\<close>

fun percent_octets :: "string \<Rightarrow> nat list option" where
  "percent_octets [] = Some []"
| "percent_octets (c # s) =
     (if c = CHR ''%''
      then (case s of
          a # b # rest \<Rightarrow>
            (case (hex_value a, hex_value b) of
               (Some x, Some y) \<Rightarrow> map_option ((#) (16 * x + y)) (percent_octets rest)
             | _ \<Rightarrow> None)
        | _ \<Rightarrow> None)
      else map_option ((#) (code c)) (percent_octets s))"

fun utf8_decode :: "nat list \<Rightarrow> string option" where
  "utf8_decode [] = Some []"
| "utf8_decode (b # bs) =
     (if b < 128 then map_option ((#) (char_of b)) (utf8_decode bs)
      else case bs of
        c # rest \<Rightarrow>
          if (b = 194 \<or> b = 195) \<and> 128 \<le> c \<and> c < 192
          then map_option ((#) (char_of (64 * (b - 192) + (c - 128)))) (utf8_decode rest) else None
      | [] \<Rightarrow> None)"

definition decodeURIComponent :: "string \<Rightarrow> string option" where
  "decodeURIComponent s = Option.bind (percent_octets s) utf8_decode"

lemma hex_value_upper [simp]: "n < 16 \<Longrightarrow> hex_value (upper_hex n) = Some n"
  by (auto simp: hex_value_def upper_hex_def is_digit_def)

lemma percent_octets_percent [simp]: "b < 256 \<Longrightarrow> percent_octets (percent b @ s) = map_option ((#) b) (percent_octets s)"
  by (simp add: percent_def)

lemma percent_octets_octets:
  "\<forall>b \<in> set bs. b < 256 \<Longrightarrow> percent_octets (concat (map percent bs) @ s) = map_option ((@) bs) (percent_octets s)"
  by (induction bs; cases "percent_octets s") simp_all

lemma utf8_char_octets: "b \<in> set (utf8_char c) \<Longrightarrow> b < 256"
proof -
  have "code c div 64 < 4" by (simp add: div_less_iff_less_mult)
  then show "b \<in> set (utf8_char c) \<Longrightarrow> b < 256" using mod_less_divisor[of 64 "code c"] by (auto simp: utf8_char_def split: if_splits)
qed

lemma unreserved_ascii: "uri_unreserved c \<Longrightarrow> code c < 128 \<and> c \<noteq> CHR ''%''"
  by (auto simp: uri_unreserved_def is_alnum_def is_alpha_def is_lower_def is_upper_def is_digit_def code_def)

lemma percent_octets_encode_char: "percent_octets (encode_char c @ s) = map_option ((@) (utf8_char c)) (percent_octets s)"
proof (cases "uri_unreserved c")
  case True
  then show ?thesis using unreserved_ascii[OF True] by (cases "percent_octets s") (simp_all add: encode_char_def utf8_char_def)
next
  case False
  then show ?thesis using percent_octets_octets[of "utf8_char c" s] utf8_char_octets by (simp add: encode_char_def)
qed

lemma percent_octets_encode: "percent_octets (encodeURIComponent s) = Some (concat (map utf8_char s))"
  by (induction s) (simp_all add: encodeURIComponent_def percent_octets_encode_char)

lemma utf8_decode_char: "utf8_decode (utf8_char c @ bs) = map_option ((#) c) (utf8_decode bs)"
proof (cases "code c < 128")
  case False
  have d: "code c div 64 = 2 \<or> code c div 64 = 3"
  proof -
    have "code c div 64 < 4" "2 \<le> code c div 64" using False by (simp_all add: div_less_iff_less_mult less_eq_div_iff_mult_less_eq)
    then show ?thesis by arith
  qed
  have "64 * (code c div 64) + code c mod 64 = code c" by simp
  then show ?thesis using False d by (auto simp: utf8_char_def)
qed (simp add: utf8_char_def)

lemma decode_encode [simp]: "decodeURIComponent (encodeURIComponent s) = Some s"
proof -
  have "utf8_decode (concat (map utf8_char s)) = Some s" by (induction s) (simp_all add: utf8_decode_char)
  then show ?thesis by (simp add: decodeURIComponent_def percent_octets_encode)
qed

text \<open>An encoded component has none of the characters that cut a URL.\<close>

lemma upper_hex_alnum: "n < 16 \<Longrightarrow> is_alnum (upper_hex n)"
  by (auto simp: upper_hex_def is_alnum_def is_alpha_def is_upper_def is_digit_def)

lemma encode_plain:
  assumes "c \<in> set (encodeURIComponent s)"
  shows "uri_unreserved c \<or> c = CHR ''%''"
proof -
  obtain d where d: "c \<in> set (encode_char d)" using assms by (auto simp: encodeURIComponent_def)
  show ?thesis
  proof (cases "uri_unreserved d")
    case False
    then obtain b where b: "b \<in> set (utf8_char d)" "c \<in> set (percent b)" using d by (auto simp: encode_char_def)
    have "b div 16 < 16" using utf8_char_octets[OF b(1)] by (simp add: div_less_iff_less_mult)
    then have "c = CHR ''%'' \<or> is_alnum c" using b(2) upper_hex_alnum by (auto simp: percent_def)
    then show ?thesis by (auto simp: uri_unreserved_def)
  qed (use d in \<open>simp add: encode_char_def\<close>)
qed

lemma encode_separators [simp]:
  "CHR ''/'' \<notin> set (encodeURIComponent s)" "CHR ''?'' \<notin> set (encodeURIComponent s)" "CHR ''&'' \<notin> set (encodeURIComponent s)"
  "CHR ''='' \<notin> set (encodeURIComponent s)" "CHR ''+'' \<notin> set (encodeURIComponent s)"
proof -
  have "\<not> uri_unreserved (CHR ''/'')" "\<not> uri_unreserved (CHR ''?'')" "\<not> uri_unreserved (CHR ''&'')" "\<not> uri_unreserved (CHR ''='')"
    "\<not> uri_unreserved (CHR ''+'')" by code_simp+
  then show "CHR ''/'' \<notin> set (encodeURIComponent s)" "CHR ''?'' \<notin> set (encodeURIComponent s)" "CHR ''&'' \<notin> set (encodeURIComponent s)"
    "CHR ''='' \<notin> set (encodeURIComponent s)" "CHR ''+'' \<notin> set (encodeURIComponent s)"
    using encode_plain by fastforce+
qed

lemma encode_Nil_iff [simp]: "encodeURIComponent s = [] \<longleftrightarrow> s = []"
  by (cases s) (auto simp: encodeURIComponent_def encode_char_def utf8_char_def percent_def)

section \<open>Requests\<close>

datatype 'b http_body = NoBody | JsonBody 'b | BinaryBody octets

record 'b http_request =
  hr_method :: string
  hr_url :: string
  hr_body :: "'b http_body"

text \<open>The operations; a JSON body is of the type \<open>'b\<close>.\<close>

datatype 'b agent_op =
    HealthOp
  | CreateOp 'b
  | StatusOp string
  | StopOp string
  | ListFilesOp string string
  | ReadFileOp string string
  | WriteFileOp string string octets
  | DeleteFileOp string string
  | DestroyVolumeOp string
  | StartJobOp string 'b
  | JobStatusOp string string nat nat
  | CancelJobOp string string
  | BloomStatusOp string
  | CeremonyPendingOp string
  | CeremonyApproveOp string string 'b
  | ConnectionsOp string
  | IssueSshOp string 'b
  | RevokeSshOp string string

definition workspace_path :: "string \<Rightarrow> string \<Rightarrow> string" where
  "workspace_path wid rest = ''/v1/workspaces/'' @ encodeURIComponent wid @ rest"

definition filePath :: "string \<Rightarrow> string \<Rightarrow> bool \<Rightarrow> string" where
  "filePath wid path content =
     ''/v1/workspaces/'' @ encodeURIComponent wid @ ''/files'' @ (if content then ''/content'' else []) @ ''?path='' @ encodeURIComponent path"

fun agent_url :: "'b agent_op \<Rightarrow> string \<times> string" where
  "agent_url HealthOp = (''GET'', ''/v1/health'')"
| "agent_url (CreateOp b) = (''POST'', ''/v1/workspaces'')"
| "agent_url (StatusOp wid) = (''GET'', workspace_path wid [])"
| "agent_url (StopOp wid) = (''DELETE'', workspace_path wid [])"
| "agent_url (ListFilesOp wid path) = (''GET'', filePath wid path False)"
| "agent_url (ReadFileOp wid path) = (''GET'', filePath wid path True)"
| "agent_url (WriteFileOp wid path contents) = (''PUT'', filePath wid path False)"
| "agent_url (DeleteFileOp wid path) = (''DELETE'', filePath wid path False)"
| "agent_url (DestroyVolumeOp vid) = (''DELETE'', ''/v1/volumes/'' @ encodeURIComponent vid)"
| "agent_url (StartJobOp wid b) = (''POST'', workspace_path wid ''/jobs'')"
| "agent_url (JobStatusOp wid jobId offset maxBytes) =
     (''GET'', workspace_path wid (''/jobs/'' @ encodeURIComponent jobId @ ''?offset='' @ nat_to_dec offset @ ''&maxBytes='' @ nat_to_dec maxBytes))"
| "agent_url (CancelJobOp wid jobId) = (''DELETE'', workspace_path wid (''/jobs/'' @ encodeURIComponent jobId))"
| "agent_url (BloomStatusOp wid) = (''GET'', workspace_path wid ''/bloom'')"
| "agent_url (CeremonyPendingOp wid) = (''GET'', workspace_path wid ''/ceremony'')"
| "agent_url (CeremonyApproveOp wid txId b) = (''POST'', workspace_path wid (''/ceremony/'' @ encodeURIComponent txId @ ''/approve''))"
| "agent_url (ConnectionsOp wid) = (''GET'', workspace_path wid ''/connections'')"
| "agent_url (IssueSshOp wid b) = (''POST'', workspace_path wid ''/connections/ssh'')"
| "agent_url (RevokeSshOp wid leaseId) = (''DELETE'', workspace_path wid (''/connections/ssh/'' @ encodeURIComponent leaseId))"

fun agent_body :: "'b agent_op \<Rightarrow> 'b http_body" where
  "agent_body (CreateOp b) = JsonBody b"
| "agent_body (WriteFileOp wid path contents) = BinaryBody contents"
| "agent_body (StartJobOp wid b) = JsonBody b"
| "agent_body (CeremonyApproveOp wid txId b) = JsonBody b"
| "agent_body (IssueSshOp wid b) = JsonBody b"
| "agent_body _ = NoBody"

definition agent_request :: "'b agent_op \<Rightarrow> 'b http_request" where
  "agent_request op = \<lparr>hr_method = fst (agent_url op), hr_url = snd (agent_url op), hr_body = agent_body op\<rparr>"

section \<open>Routing\<close>

definition split_url :: "string \<Rightarrow> string \<times> string" where
  "split_url url = (takeWhile (\<lambda>c. c \<noteq> CHR ''?'') url, drop 1 (dropWhile (\<lambda>c. c \<noteq> CHR ''?'') url))"

definition segments :: "string \<Rightarrow> string list" where
  "segments path =
     (case path of
        [] \<Rightarrow> []
      | c # rest \<Rightarrow> let ps = split_on (CHR ''/'') rest in if c \<noteq> CHR ''/'' then [] else if 1 < length ps \<and> last ps = [] then butlast ps else ps)"

datatype pattern = Lit string | Param

text \<open>\<open>None\<close> is no match, \<open>Some None\<close> a parameter that does not decode (Express answers 400).\<close>

fun match_route :: "pattern list \<Rightarrow> string list \<Rightarrow> string list option option" where
  "match_route [] [] = Some (Some [])"
| "match_route (Lit l # ps) (s # ss) = (if to_lower s = l then match_route ps ss else None)"
| "match_route (Param # ps) (s # ss) =
     (if s = [] then None
      else case match_route ps ss of
        None \<Rightarrow> None
      | Some rest \<Rightarrow> Some (case (decodeURIComponent s, rest) of (Some v, Some vs) \<Rightarrow> Some (v # vs) | _ \<Rightarrow> None))"
| "match_route _ _ = None"

text \<open>\<open>querystring\<close>; \<open>fallback\<close> is what it makes of a value that does not decode.\<close>

datatype query_value = Absent | One string | Many

definition unescape_query :: "(string \<Rightarrow> string) \<Rightarrow> string \<Rightarrow> string" where
  "unescape_query fallback s =
     (let t = map (\<lambda>c. if c = CHR ''+'' then CHR '' '' else c) s
      in case decodeURIComponent t of Some v \<Rightarrow> v | None \<Rightarrow> fallback t)"

definition query_pair :: "(string \<Rightarrow> string) \<Rightarrow> string \<Rightarrow> string \<times> string" where
  "query_pair fallback s =
     (unescape_query fallback (takeWhile (\<lambda>c. c \<noteq> CHR ''='') s), unescape_query fallback (drop 1 (dropWhile (\<lambda>c. c \<noteq> CHR ''='') s)))"

definition query_get :: "(string \<Rightarrow> string) \<Rightarrow> string \<Rightarrow> string \<Rightarrow> query_value" where
  "query_get fallback query key =
     (case filter (\<lambda>kv. fst kv = key) (map (query_pair fallback) (filter (\<lambda>s. s \<noteq> []) (split_on (CHR ''&'') query))) of
        [] \<Rightarrow> Absent
      | [kv] \<Rightarrow> One (snd kv)
      | _ \<Rightarrow> Many)"

section \<open>The handlers, up to the operation they call\<close>

text \<open>A status is the answer to a request whose parameters do not pass the schema.\<close>

definition FilePath :: "nat \<Rightarrow> query_value \<Rightarrow> (nat, string) res" where
  "FilePath minimum v =
     (case v of One path \<Rightarrow> if minimum \<le> length path \<and> length path \<le> 4096 then Inr path else Inl 400 | _ \<Rightarrow> Inl 400)"

definition list_files_route :: "string \<Rightarrow> query_value \<Rightarrow> (nat, 'b agent_op) res" where
  "list_files_route wid path =
     rbind (FilePath 0 (if path = Absent then One [] else path)) (\<lambda>p. Inr (ListFilesOp wid p))"

definition read_file_route :: "string \<Rightarrow> query_value \<Rightarrow> (nat, 'b agent_op) res" where
  "read_file_route wid path = rbind (FilePath 1 path) (\<lambda>p. Inr (ReadFileOp wid p))"

definition write_file_route :: "string \<Rightarrow> query_value \<Rightarrow> 'b http_body \<Rightarrow> (nat, 'b agent_op) res" where
  "write_file_route wid path body =
     rbind (FilePath 1 path) (\<lambda>p. case body of BinaryBody contents \<Rightarrow> Inr (WriteFileOp wid p contents) | _ \<Rightarrow> Inl 400)"

definition delete_file_route :: "string \<Rightarrow> query_value \<Rightarrow> (nat, 'b agent_op) res" where
  "delete_file_route wid path = rbind (FilePath 1 path) (\<lambda>p. Inr (DeleteFileOp wid p))"

text \<open>\<open>JobStatusQuery\<close>: coerced numbers with defaults.\<close>

definition coerce_between :: "(string \<Rightarrow> int option) \<Rightarrow> nat \<Rightarrow> nat \<Rightarrow> nat \<Rightarrow> query_value \<Rightarrow> (nat, nat) res" where
  "coerce_between number lo hi missing v =
     (case v of
        Absent \<Rightarrow> Inr missing
      | Many \<Rightarrow> Inl 400
      | One s \<Rightarrow> (case number s of None \<Rightarrow> Inl 400 | Some n \<Rightarrow> if int lo \<le> n \<and> n \<le> int hi then Inr (nat n) else Inl 400))"

definition max_cursor :: nat where "max_cursor = 2 ^ 53 - 1"
definition max_log_read :: nat where "max_log_read = 256 * 1024"

definition JobStatusQuery :: "(string \<Rightarrow> int option) \<Rightarrow> query_value \<Rightarrow> query_value \<Rightarrow> (nat, nat \<times> nat) res" where
  "JobStatusQuery number offset maxBytes =
     rbind (coerce_between number 0 max_cursor 0 offset) (\<lambda>o'.
     rbind (coerce_between number 1 max_log_read max_log_read maxBytes) (\<lambda>m. Inr (o', m)))"

definition job_status_route ::
  "(string \<Rightarrow> int option) \<Rightarrow> (string \<Rightarrow> bool) \<Rightarrow> string \<Rightarrow> string \<Rightarrow> query_value \<Rightarrow> query_value \<Rightarrow> (nat, 'b agent_op) res" where
  "job_status_route number is_uuid wid jobId offset maxBytes =
     rbind (JobStatusQuery number offset maxBytes) (\<lambda>(o', m). if is_uuid jobId then Inr (JobStatusOp wid jobId o' m) else Inl 400)"

definition cancel_job_route :: "(string \<Rightarrow> bool) \<Rightarrow> string \<Rightarrow> string \<Rightarrow> (nat, 'b agent_op) res" where
  "cancel_job_route is_uuid wid jobId = (if is_uuid jobId then Inr (CancelJobOp wid jobId) else Inl 400)"

text \<open>A body that is not JSON reaches a schema as undefined.\<close>

definition json_route :: "('b \<Rightarrow> 'b agent_op) \<Rightarrow> 'b http_body \<Rightarrow> (nat, 'b agent_op) res" where
  "json_route mk body = (case body of JsonBody b \<Rightarrow> Inr (mk b) | _ \<Rightarrow> Inl 400)"

definition V1W :: "pattern list" where "V1W = [Lit ''v1'', Lit ''workspaces'', Param]"

text \<open>The table of routes in the order of the file.\<close>

definition agent_routes ::
  "(string \<Rightarrow> int option) \<Rightarrow> (string \<Rightarrow> bool) \<Rightarrow> (string \<Rightarrow> query_value) \<Rightarrow> 'b http_body
     \<Rightarrow> (string \<times> pattern list \<times> (string list \<Rightarrow> (nat, 'b agent_op) res)) list" where
  "agent_routes number is_uuid query body =
     [(''GET'', [Lit ''v1'', Lit ''health''], \<lambda>_. Inr HealthOp),
      (''POST'', [Lit ''v1'', Lit ''workspaces''], \<lambda>_. json_route CreateOp body),
      (''GET'', V1W, \<lambda>ps. Inr (StatusOp (ps ! 0))),
      (''DELETE'', V1W, \<lambda>ps. Inr (StopOp (ps ! 0))),
      (''GET'', V1W @ [Lit ''files''], \<lambda>ps. list_files_route (ps ! 0) (query ''path'')),
      (''GET'', V1W @ [Lit ''files'', Lit ''content''], \<lambda>ps. read_file_route (ps ! 0) (query ''path'')),
      (''PUT'', V1W @ [Lit ''files''], \<lambda>ps. write_file_route (ps ! 0) (query ''path'') body),
      (''DELETE'', V1W @ [Lit ''files''], \<lambda>ps. delete_file_route (ps ! 0) (query ''path'')),
      (''DELETE'', [Lit ''v1'', Lit ''volumes'', Param], \<lambda>ps. Inr (DestroyVolumeOp (ps ! 0))),
      (''POST'', V1W @ [Lit ''jobs''], \<lambda>ps. json_route (StartJobOp (ps ! 0)) body),
      (''GET'', V1W @ [Lit ''jobs'', Param], \<lambda>ps. job_status_route number is_uuid (ps ! 0) (ps ! 1) (query ''offset'') (query ''maxBytes'')),
      (''DELETE'', V1W @ [Lit ''jobs'', Param], \<lambda>ps. cancel_job_route is_uuid (ps ! 0) (ps ! 1)),
      (''GET'', V1W @ [Lit ''bloom''], \<lambda>ps. Inr (BloomStatusOp (ps ! 0))),
      (''GET'', V1W @ [Lit ''connections''], \<lambda>ps. Inr (ConnectionsOp (ps ! 0))),
      (''GET'', V1W @ [Lit ''ceremony''], \<lambda>ps. Inr (CeremonyPendingOp (ps ! 0))),
      (''POST'', V1W @ [Lit ''ceremony'', Param, Lit ''approve''], \<lambda>ps. json_route (CeremonyApproveOp (ps ! 0) (ps ! 1)) body),
      (''POST'', V1W @ [Lit ''connections'', Lit ''ssh''], \<lambda>ps. json_route (IssueSshOp (ps ! 0)) body),
      (''DELETE'', V1W @ [Lit ''connections'', Lit ''ssh'', Param], \<lambda>ps. Inr (RevokeSshOp (ps ! 0) (ps ! 1)))]"

fun first_route :: "string \<Rightarrow> string list \<Rightarrow> (string \<times> pattern list \<times> (string list \<Rightarrow> (nat, 'o) res)) list \<Rightarrow> (nat, 'o) res" where
  "first_route verb ss [] = Inl 404"
| "first_route verb ss ((v, pat, h) # rs) =
     (if v \<noteq> verb then first_route verb ss rs
      else case match_route pat ss of
        None \<Rightarrow> first_route verb ss rs
      | Some None \<Rightarrow> Inl 400
      | Some (Some ps) \<Rightarrow> h ps)"

definition agent_dispatch ::
  "(string \<Rightarrow> int option) \<Rightarrow> (string \<Rightarrow> string) \<Rightarrow> (string \<Rightarrow> bool) \<Rightarrow> 'b http_request \<Rightarrow> (nat, 'b agent_op) res" where
  "agent_dispatch number fallback is_uuid rq =
     (let (path, query) = split_url (hr_url rq)
      in first_route (hr_method rq) (segments path) (agent_routes number is_uuid (query_get fallback query) (hr_body rq)))"

section \<open>What the client asks is what the agent does\<close>

text \<open>The operations whose arguments the schemas of the agent accept; an empty identifier is no segment.\<close>

fun op_ok :: "(string \<Rightarrow> bool) \<Rightarrow> 'b agent_op \<Rightarrow> bool" where
  "op_ok is_uuid HealthOp \<longleftrightarrow> True"
| "op_ok is_uuid (CreateOp b) \<longleftrightarrow> True"
| "op_ok is_uuid (StatusOp wid) \<longleftrightarrow> wid \<noteq> []"
| "op_ok is_uuid (StopOp wid) \<longleftrightarrow> wid \<noteq> []"
| "op_ok is_uuid (ListFilesOp wid path) \<longleftrightarrow> wid \<noteq> [] \<and> length path \<le> 4096"
| "op_ok is_uuid (ReadFileOp wid path) \<longleftrightarrow> wid \<noteq> [] \<and> path \<noteq> [] \<and> length path \<le> 4096"
| "op_ok is_uuid (WriteFileOp wid path contents) \<longleftrightarrow> wid \<noteq> [] \<and> path \<noteq> [] \<and> length path \<le> 4096"
| "op_ok is_uuid (DeleteFileOp wid path) \<longleftrightarrow> wid \<noteq> [] \<and> path \<noteq> [] \<and> length path \<le> 4096"
| "op_ok is_uuid (DestroyVolumeOp vid) \<longleftrightarrow> vid \<noteq> []"
| "op_ok is_uuid (StartJobOp wid b) \<longleftrightarrow> wid \<noteq> []"
| "op_ok is_uuid (JobStatusOp wid jobId offset maxBytes) \<longleftrightarrow>
     wid \<noteq> [] \<and> jobId \<noteq> [] \<and> is_uuid jobId \<and> offset \<le> max_cursor \<and> 1 \<le> maxBytes \<and> maxBytes \<le> max_log_read"
| "op_ok is_uuid (CancelJobOp wid jobId) \<longleftrightarrow> wid \<noteq> [] \<and> jobId \<noteq> [] \<and> is_uuid jobId"
| "op_ok is_uuid (BloomStatusOp wid) \<longleftrightarrow> wid \<noteq> []"
| "op_ok is_uuid (CeremonyPendingOp wid) \<longleftrightarrow> wid \<noteq> []"
| "op_ok is_uuid (CeremonyApproveOp wid txId b) \<longleftrightarrow> wid \<noteq> [] \<and> txId \<noteq> []"
| "op_ok is_uuid (ConnectionsOp wid) \<longleftrightarrow> wid \<noteq> []"
| "op_ok is_uuid (IssueSshOp wid b) \<longleftrightarrow> wid \<noteq> []"
| "op_ok is_uuid (RevokeSshOp wid leaseId) \<longleftrightarrow> wid \<noteq> [] \<and> leaseId \<noteq> []"

lemma split_url_query: "CHR ''?'' \<notin> set p \<Longrightarrow> split_url (p @ CHR ''?'' # q) = (p, q)"
  by (simp add: split_url_def takeWhile_append dropWhile_append)

lemma split_url_plain: "CHR ''?'' \<notin> set p \<Longrightarrow> split_url p = (p, [])"
proof -
  assume a: "CHR ''?'' \<notin> set p"
  have "dropWhile (\<lambda>c. c \<noteq> CHR ''?'') p = []" unfolding dropWhile_eq_Nil_conv using a by blast
  moreover have "takeWhile (\<lambda>c. c \<noteq> CHR ''?'') p = p" unfolding takeWhile_eq_all_conv using a by blast
  ultimately show ?thesis by (simp only: split_url_def drop_Nil)
qed

lemma segments_join:
  assumes "ps \<noteq> []" "\<forall>p \<in> set ps. CHR ''/'' \<notin> set p" "last ps \<noteq> []"
  shows "segments (CHR ''/'' # join_with (CHR ''/'') ps) = ps"
  using assms by (simp add: segments_def Let_def split_on_join)

lemma literal_segments [simp]:
  "to_lower ''v1'' = ''v1''" "to_lower ''workspaces'' = ''workspaces''" "to_lower ''health'' = ''health''" "to_lower ''files'' = ''files''"
  "to_lower ''content'' = ''content''" "to_lower ''volumes'' = ''volumes''" "to_lower ''jobs'' = ''jobs''" "to_lower ''bloom'' = ''bloom''"
  "to_lower ''connections'' = ''connections''" "to_lower ''ceremony'' = ''ceremony''" "to_lower ''approve'' = ''approve''"
  "to_lower ''ssh'' = ''ssh''"
  by code_simp+

lemma unescape_encoded: "unescape_query fallback (encodeURIComponent v) = v"
proof -
  have "map (\<lambda>c. if c = CHR ''+'' then CHR '' '' else c) (encodeURIComponent v) = encodeURIComponent v"
    by (rule map_idI) (use encode_separators(5)[of v] in auto)
  then show ?thesis by (simp add: unescape_query_def Let_def)
qed

lemma encode_id: "(\<And>c. c \<in> set s \<Longrightarrow> uri_unreserved c) \<Longrightarrow> encodeURIComponent s = s"
  by (induction s) (simp_all add: encodeURIComponent_def encode_char_def)

lemma encode_dec: "encodeURIComponent (nat_to_dec n) = nat_to_dec n"
  by (rule encode_id) (use nat_to_dec_digits in \<open>auto simp: uri_unreserved_def is_alnum_def\<close>)

lemma query_pair_encoded:
  assumes "encodeURIComponent k = k"
  shows "query_pair fallback (k @ CHR ''='' # encodeURIComponent v) = (k, v)"
proof -
  have n: "CHR ''='' \<notin> set k" using encode_separators(4)[of k] assms by simp
  then have "takeWhile (\<lambda>c. c \<noteq> CHR ''='') (k @ CHR ''='' # encodeURIComponent v) = k"
    "dropWhile (\<lambda>c. c \<noteq> CHR ''='') (k @ CHR ''='' # encodeURIComponent v) = CHR ''='' # encodeURIComponent v"
    by (auto simp: takeWhile_append dropWhile_append)
  then show ?thesis using unescape_encoded[of fallback k] by (simp add: query_pair_def unescape_encoded assms)
qed

lemma query_keys: "encodeURIComponent ''path'' = ''path''" "encodeURIComponent ''offset'' = ''offset''" "encodeURIComponent ''maxBytes'' = ''maxBytes''"
  by code_simp+

lemma path_query: "query_get fallback (''path='' @ encodeURIComponent path) ''path'' = One path"
proof -
  have "CHR ''&'' \<notin> set (''path='' @ encodeURIComponent path)" by simp
  then have "split_on (CHR ''&'') (''path='' @ encodeURIComponent path) = [''path='' @ encodeURIComponent path]" by (rule split_on_absent)
  then show ?thesis using query_pair_encoded[OF query_keys(1), of fallback path] by (simp add: query_get_def)
qed

lemma job_query:
  "query_get fallback (''offset='' @ nat_to_dec a @ ''&maxBytes='' @ nat_to_dec b) ''offset'' = One (nat_to_dec a)"
  "query_get fallback (''offset='' @ nat_to_dec a @ ''&maxBytes='' @ nat_to_dec b) ''maxBytes'' = One (nat_to_dec b)"
proof -
  let ?a = "''offset='' @ nat_to_dec a" and ?b = "''maxBytes='' @ nat_to_dec b"
  have n: "CHR ''&'' \<notin> set (nat_to_dec k)" for k using encode_separators(3)[of "nat_to_dec k"] unfolding encode_dec .
  have "''offset='' @ nat_to_dec a @ ''&maxBytes='' @ nat_to_dec b = join_with (CHR ''&'') [?a, ?b]" by simp
  moreover have "split_on (CHR ''&'') (join_with (CHR ''&'') [?a, ?b]) = [?a, ?b]"
    by (rule split_on_join) (use n in auto)
  ultimately have s: "split_on (CHR ''&'') (''offset='' @ nat_to_dec a @ ''&maxBytes='' @ nat_to_dec b) = [?a, ?b]" by simp
  have p: "query_pair fallback ?a = (''offset'', nat_to_dec a)" "query_pair fallback ?b = (''maxBytes'', nat_to_dec b)"
    using query_pair_encoded[OF query_keys(2), of fallback "nat_to_dec a"] query_pair_encoded[OF query_keys(3), of fallback "nat_to_dec b"]
    by (simp_all add: encode_dec)
  show "query_get fallback (''offset='' @ nat_to_dec a @ ''&maxBytes='' @ nat_to_dec b) ''offset'' = One (nat_to_dec a)"
    "query_get fallback (''offset='' @ nat_to_dec a @ ''&maxBytes='' @ nat_to_dec b) ''maxBytes'' = One (nat_to_dec b)"
    unfolding query_get_def s using p by simp_all
qed

text \<open>The path and the query of a request.\<close>

fun op_segments :: "'b agent_op \<Rightarrow> string list" where
  "op_segments HealthOp = [''v1'', ''health'']"
| "op_segments (CreateOp b) = [''v1'', ''workspaces'']"
| "op_segments (StatusOp wid) = [''v1'', ''workspaces'', encodeURIComponent wid]"
| "op_segments (StopOp wid) = [''v1'', ''workspaces'', encodeURIComponent wid]"
| "op_segments (ListFilesOp wid path) = [''v1'', ''workspaces'', encodeURIComponent wid, ''files'']"
| "op_segments (ReadFileOp wid path) = [''v1'', ''workspaces'', encodeURIComponent wid, ''files'', ''content'']"
| "op_segments (WriteFileOp wid path contents) = [''v1'', ''workspaces'', encodeURIComponent wid, ''files'']"
| "op_segments (DeleteFileOp wid path) = [''v1'', ''workspaces'', encodeURIComponent wid, ''files'']"
| "op_segments (DestroyVolumeOp vid) = [''v1'', ''volumes'', encodeURIComponent vid]"
| "op_segments (StartJobOp wid b) = [''v1'', ''workspaces'', encodeURIComponent wid, ''jobs'']"
| "op_segments (JobStatusOp wid jobId offset maxBytes) = [''v1'', ''workspaces'', encodeURIComponent wid, ''jobs'', encodeURIComponent jobId]"
| "op_segments (CancelJobOp wid jobId) = [''v1'', ''workspaces'', encodeURIComponent wid, ''jobs'', encodeURIComponent jobId]"
| "op_segments (BloomStatusOp wid) = [''v1'', ''workspaces'', encodeURIComponent wid, ''bloom'']"
| "op_segments (CeremonyPendingOp wid) = [''v1'', ''workspaces'', encodeURIComponent wid, ''ceremony'']"
| "op_segments (CeremonyApproveOp wid txId b) = [''v1'', ''workspaces'', encodeURIComponent wid, ''ceremony'', encodeURIComponent txId, ''approve'']"
| "op_segments (ConnectionsOp wid) = [''v1'', ''workspaces'', encodeURIComponent wid, ''connections'']"
| "op_segments (IssueSshOp wid b) = [''v1'', ''workspaces'', encodeURIComponent wid, ''connections'', ''ssh'']"
| "op_segments (RevokeSshOp wid leaseId) = [''v1'', ''workspaces'', encodeURIComponent wid, ''connections'', ''ssh'', encodeURIComponent leaseId]"

fun op_query :: "'b agent_op \<Rightarrow> string option" where
  "op_query (ListFilesOp wid path) = Some (''path='' @ encodeURIComponent path)"
| "op_query (ReadFileOp wid path) = Some (''path='' @ encodeURIComponent path)"
| "op_query (WriteFileOp wid path contents) = Some (''path='' @ encodeURIComponent path)"
| "op_query (DeleteFileOp wid path) = Some (''path='' @ encodeURIComponent path)"
| "op_query (JobStatusOp wid jobId offset maxBytes) = Some (''offset='' @ nat_to_dec offset @ ''&maxBytes='' @ nat_to_dec maxBytes)"
| "op_query _ = None"

lemma agent_url_shape:
  "snd (agent_url op) = (CHR ''/'' # join_with (CHR ''/'') (op_segments op)) @ (case op_query op of None \<Rightarrow> [] | Some q \<Rightarrow> CHR ''?'' # q)"
  by (cases op) (simp_all add: workspace_path_def filePath_def)

lemma op_segments_plain:
  "CHR ''/'' \<notin> set p \<and> CHR ''?'' \<notin> set p" if "p \<in> set (op_segments op)"
  using that by (cases op) auto

lemma op_segments_last: "op_ok is_uuid op \<Longrightarrow> op_segments op \<noteq> [] \<and> last (op_segments op) \<noteq> []"
  by (cases op) auto

lemma set_join_with: "set (join_with c ps) \<subseteq> insert c (\<Union> (set ` set ps))"
  by (induction c ps rule: join_with.induct) auto

lemma request_parts:
  assumes "op_ok is_uuid op"
  shows "split_url (snd (agent_url op)) = (CHR ''/'' # join_with (CHR ''/'') (op_segments op), case op_query op of None \<Rightarrow> [] | Some q \<Rightarrow> q)"
    and "segments (CHR ''/'' # join_with (CHR ''/'') (op_segments op)) = op_segments op"
proof -
  have "CHR ''?'' \<notin> set (CHR ''/'' # join_with (CHR ''/'') (op_segments op))"
    using set_join_with[of "CHR ''/''" "op_segments op"] op_segments_plain[of _ op] by auto
  then show "split_url (snd (agent_url op)) = (CHR ''/'' # join_with (CHR ''/'') (op_segments op), case op_query op of None \<Rightarrow> [] | Some q \<Rightarrow> q)"
    unfolding agent_url_shape by (cases "op_query op") (simp_all add: split_url_plain split_url_query del: append_Cons add: append_Cons[symmetric])
  show "segments (CHR ''/'' # join_with (CHR ''/'') (op_segments op)) = op_segments op"
    by (rule segments_join) (use op_segments_last[OF assms] op_segments_plain[of _ op] in auto)
qed

fun query_ok :: "(string \<Rightarrow> query_value) \<Rightarrow> 'b agent_op \<Rightarrow> bool" where
  "query_ok q (ListFilesOp wid path) \<longleftrightarrow> q ''path'' = One path"
| "query_ok q (ReadFileOp wid path) \<longleftrightarrow> q ''path'' = One path"
| "query_ok q (WriteFileOp wid path contents) \<longleftrightarrow> q ''path'' = One path"
| "query_ok q (DeleteFileOp wid path) \<longleftrightarrow> q ''path'' = One path"
| "query_ok q (JobStatusOp wid jobId offset maxBytes) \<longleftrightarrow> q ''offset'' = One (nat_to_dec offset) \<and> q ''maxBytes'' = One (nat_to_dec maxBytes)"
| "query_ok q _ \<longleftrightarrow> True"

lemma op_query_ok: "query_ok (query_get fallback (case op_query op of None \<Rightarrow> [] | Some q \<Rightarrow> q)) op"
proof (cases op)
  case (JobStatusOp wid jobId offset maxBytes)
  then show ?thesis using job_query[of fallback offset maxBytes] unfolding JobStatusOp op_query.simps option.case query_ok.simps by blast
qed (use path_query[of fallback] in \<open>simp_all del: append_Cons append.simps\<close>)

lemma agent_routed:
  assumes "op_ok is_uuid op" "query_ok q op" "\<And>n. number (nat_to_dec n) = Some (int n)"
  shows "first_route (fst (agent_url op)) (op_segments op) (agent_routes number is_uuid q (agent_body op)) = Inr op"
  using assms(1,2)
  by (cases op) (simp_all add: agent_routes_def V1W_def json_route_def list_files_route_def read_file_route_def write_file_route_def
    delete_file_route_def FilePath_def job_status_route_def cancel_job_route_def JobStatusQuery_def coerce_between_def Suc_le_eq assms(3))


definition dec_number :: "string \<Rightarrow> int option" where
  "dec_number s = (if s \<noteq> [] \<and> list_all is_digit s then Some (int (dec_to_nat s)) else None)"

lemma dec_number_dec: "dec_number (nat_to_dec n) = Some (int n)"
  using nat_to_dec_digits[of _ n] by (auto simp: dec_number_def list_all_iff)


section \<open>The response\<close>

text \<open>
  \<open>request\<close>, from the response to its result. \<open>chunks\<close> is what arrives; \<open>None\<close> is a response destroyed at the limit.
  \<open>json_error\<close> is the field \<open>error\<close> of a JSON text (\<open>None\<close> when it does not parse or has none), \<open>json\<close> the parser.
\<close>

datatype 'j agent_reply = Undefined | Parsed 'j | Contents octets

datatype client_error = AgentClientError nat "string option" | ParseFailed

definition response_limit :: "bool \<Rightarrow> nat" where
  "response_limit binaryResponse = (if binaryResponse then 8 * 1024 * 1024 else 1024 * 1024)"

fun receive :: "nat \<Rightarrow> octets list \<Rightarrow> nat \<Rightarrow> octets list \<Rightarrow> octets list option" where
  "receive limit kept received [] = Some kept"
| "receive limit kept received (chunk # rest) =
     (let received' = received + length chunk
      in if limit < received' then None else receive limit (kept @ [chunk]) received' rest)"

definition finish_response ::
  "(string \<Rightarrow> string option) \<Rightarrow> (string \<Rightarrow> 'j option) \<Rightarrow> (octets \<Rightarrow> string) \<Rightarrow> bool \<Rightarrow> nat \<Rightarrow> octets \<Rightarrow> (client_error, 'j agent_reply) res" where
  "finish_response json_error json utf8 binaryResponse status body =
     (if 400 \<le> status then Inl (AgentClientError status (json_error (utf8 body)))
      else if binaryResponse then Inr (Contents body)
      else if utf8 body = [] then Inr Undefined
      else case json (utf8 body) of None \<Rightarrow> Inl ParseFailed | Some v \<Rightarrow> Inr (Parsed v))"

definition agent_response ::
  "(string \<Rightarrow> string option) \<Rightarrow> (string \<Rightarrow> 'j option) \<Rightarrow> (octets \<Rightarrow> string) \<Rightarrow> bool \<Rightarrow> nat \<Rightarrow> octets list \<Rightarrow> (client_error, 'j agent_reply) res" where
  "agent_response json_error json utf8 binaryResponse status chunks =
     (case receive (response_limit binaryResponse) [] 0 chunks of
        None \<Rightarrow> Inl (AgentClientError 502 None)
      | Some kept \<Rightarrow> finish_response json_error json utf8 binaryResponse status (concat kept))"

lemma receive_iff:
  "receive limit kept received chunks = (if received + length (concat chunks) \<le> limit \<or> chunks = [] then Some (kept @ chunks) else None)"
proof (induction chunks arbitrary: kept received)
  case (Cons chunk rest)
  show ?case using Cons.IH[of "kept @ [chunk]" "received + length chunk"] by (auto simp: Let_def)
qed simp

text \<open>A response is read whole or not at all, within its limit, and however it is cut; the agent's own limit on files is the
  same, so a file it sends is never refused for its size.\<close>

lemma agent_response_exact:
  "agent_response json_error json utf8 b status chunks =
     (if length (concat chunks) \<le> response_limit b then finish_response json_error json utf8 b status (concat chunks)
      else Inl (AgentClientError 502 None))"
  by (cases chunks) (auto simp: agent_response_def receive_iff)

end
