(* ===== verification/WebClient.thy ===== *)
theory WebClient
  imports ControlServer JobStream AgentClient
begin

text \<open>
  The page of the browser, \<open>web/main.ts\<close>: its variables (session, terminal socket, terminals, timers, ceremony poll,
  connection grant, job, wallet binding) as the record \<open>tab\<close>, one function per handler or reply as \<open>tab \<Rightarrow> tab\<close>, and
  the runs of the page as a relation over events. Asynchronous functions are cut at their \<open>await\<close>s: the reply is an
  event of its own and meets the page as it is by then. \<open>GET /api/session\<close> of \<open>src/control/server.ts\<close>, which the page
  starts from, is here too. What the page draws is in \<open>WebForms\<close>; the output of jobs is in \<open>JobStream\<close>, whose \<open>page\<close>
  is a field of the tab.
\<close>

section \<open>The session\<close>

text \<open>What \<open>/api/session\<close> answers; a capability is its status and reason, by name.\<close>

record page_session =
  ps_authenticated :: bool
  ps_wallet :: "string option"
  ps_csrfToken :: "string option"
  ps_devAuth :: bool
  ps_turnstileSiteKey :: "string option"
  ps_workspace :: "public_workspace option"
  ps_capabilities :: "(string \<times> status \<times> string) list"

definition session_route ::
  "session_row option \<Rightarrow> (string \<Rightarrow> public_workspace option) \<Rightarrow> (string \<times> status \<times> string) list \<Rightarrow> bool \<Rightarrow> string option \<Rightarrow> page_session" where
  "session_route session current capabilities devAuth siteKey =
     \<lparr>ps_authenticated = (session \<noteq> None),
      ps_wallet = map_option se_wallet session,
      ps_csrfToken = map_option se_csrf_token session,
      ps_devAuth = devAuth,
      ps_turnstileSiteKey = (case siteKey of Some (c # cs) \<Rightarrow> Some (c # cs) | _ \<Rightarrow> None),
      ps_workspace = (case session of None \<Rightarrow> None | Some r \<Rightarrow> current (se_wallet r)),
      ps_capabilities = capabilities\<rparr>"

definition signed_out :: "page_session \<Rightarrow> page_session" where
  "signed_out s =
     \<lparr>ps_authenticated = False, ps_wallet = None, ps_csrfToken = None, ps_devAuth = ps_devAuth s, ps_turnstileSiteKey = None,
      ps_workspace = None, ps_capabilities = ps_capabilities s\<rparr>"

definition page_capability :: "string \<Rightarrow> page_session \<Rightarrow> status \<times> string" where
  "page_capability name s =
     (case map_of (ps_capabilities s) name of
        Some c \<Rightarrow> c
      | None \<Rightarrow> (Unsupported, ''This deployment did not report the capability.''))"

definition isAvailable :: "string \<Rightarrow> page_session \<Rightarrow> bool" where
  "isAvailable name s \<longleftrightarrow> fst (page_capability name s) = Available"

definition runningWorkspace :: "page_session \<Rightarrow> public_workspace option" where
  "runningWorkspace s =
     (case ps_workspace s of
        Some w \<Rightarrow> if pw_state w = Workspaces.Running then Some w else None
      | None \<Rightarrow> None)"

section \<open>The page\<close>

text \<open>A terminal socket with the workspace its handlers captured, an xterm with what was written to it.\<close>

datatype terminal_frame = InputFrame string | ResizeFrame nat nat

record terminal_socket =
  ts_workspace :: public_workspace
  ts_url :: string
  ts_state :: ready_state
  ts_sent :: "terminal_frame list"

datatype written = Text string | ClosedBecause string | InvalidResponse | LostConnection | FailedConnection

record xterm =
  xt_disposed :: bool
  xt_written :: "written list"
  xt_size :: "nat \<times> nat"

datatype wallet_kind = Injected | WalletConnect

record wallet_binding =
  wb_provider :: nat
  wb_removable :: bool
  wb_kind :: wallet_kind
  wb_address :: string
  wb_chainId :: int

text \<open>A pending approval as the agent reports it is a \<open>ceremony_view\<close> with an optional challenge.\<close>

record ceremony_request =
  cq_id :: string
  cq_chain :: string
  cq_wallet :: string
  cq_planMd :: string
  cq_ceremonyUrl :: "string option"
  cq_challenge :: "string option"
  cq_intent :: "string option"
  cq_custody :: bool

record page_grant =
  pg_leaseId :: string
  pg_accessToken :: string

text \<open>
  \<open>tb_sockets\<close> and \<open>tb_terminals\<close> are all sockets and terminals ever made; the variables \<open>socket\<close> and \<open>terminal\<close> are
  indices into them. \<open>tb_ceremony\<close> is the running interval with its closure: the workspace and the requests \<open>seen\<close>.
  \<open>tb_listeners\<close> are the bindings whose handlers are registered with their provider. \<open>tb_refreshes\<close> and
  \<open>tb_invalidating\<close> count calls whose reply is outstanding.
\<close>

record tab =
  tb_session :: page_session
  tb_socket :: "nat option"
  tb_sockets :: "terminal_socket list"
  tb_terminal :: "nat option"
  tb_terminals :: "xterm list"
  tb_resize :: bool
  tb_loaded :: "string option"
  tb_pollTimer :: bool
  tb_leaseTimer :: bool
  tb_reconnects :: "public_workspace list"
  tb_ceremony :: "(string \<times> string list) option"
  tb_banners :: "(string \<times> ceremony_request) list"
  tb_connection :: "page_grant option"
  tb_jobs :: page
  tb_wallet :: "wallet_binding option"
  tb_listeners :: "wallet_binding list"
  tb_refreshes :: nat
  tb_invalidating :: nat
  tb_message :: string

record location =
  lo_protocol :: string
  lo_host :: string

definition new_tab :: tab where
  "new_tab =
     \<lparr>tb_session = \<lparr>ps_authenticated = False, ps_wallet = None, ps_csrfToken = None, ps_devAuth = False, ps_turnstileSiteKey = None,
                    ps_workspace = None, ps_capabilities = []\<rparr>,
      tb_socket = None, tb_sockets = [], tb_terminal = None, tb_terminals = [], tb_resize = False, tb_loaded = None,
      tb_pollTimer = False, tb_leaseTimer = False, tb_reconnects = [], tb_ceremony = None, tb_banners = [], tb_connection = None,
      tb_jobs = new_page, tb_wallet = None, tb_listeners = [], tb_refreshes = 0, tb_invalidating = 0, tb_message = []\<rparr>"

definition setMessage :: "string \<Rightarrow> tab \<Rightarrow> tab" where "setMessage m t = t\<lparr>tb_message := m\<rparr>"

section \<open>The terminal\<close>

definition close_frame :: "terminal_socket \<Rightarrow> terminal_socket" where
  "close_frame w = (if ts_state w \<in> {CONNECTING, OPEN} then w\<lparr>ts_state := CLOSING\<rparr> else w)"

definition xterm_write :: "written \<Rightarrow> tab \<Rightarrow> tab" where
  "xterm_write x t =
     (case tb_terminal t of
        None \<Rightarrow> t
      | Some n \<Rightarrow> t\<lparr>tb_terminals := (tb_terminals t)[n := (tb_terminals t ! n)\<lparr>xt_written := xt_written (tb_terminals t ! n) @ [x]\<rparr>]\<rparr>)"

text \<open>\<open>socket?.readyState === OPEN \<and> socket.send(...)\<close>, with the variable \<open>socket\<close>.\<close>

definition send_frame :: "terminal_frame \<Rightarrow> tab \<Rightarrow> tab" where
  "send_frame f t =
     (case tb_socket t of
        None \<Rightarrow> t
      | Some n \<Rightarrow> if ts_state (tb_sockets t ! n) = OPEN
                  then t\<lparr>tb_sockets := (tb_sockets t)[n := (tb_sockets t ! n)\<lparr>ts_sent := ts_sent (tb_sockets t ! n) @ [f]\<rparr>]\<rparr> else t)"

definition sendResize :: "tab \<Rightarrow> tab" where
  "sendResize t =
     (case tb_terminal t of
        None \<Rightarrow> t
      | Some n \<Rightarrow> let (cols, rows) = xt_size (tb_terminals t ! n) in send_frame (ResizeFrame cols rows) t)"

definition resizeTerminal :: "nat \<times> nat \<Rightarrow> tab \<Rightarrow> tab" where
  "resizeTerminal fitted t =
     (case tb_terminal t of
        None \<Rightarrow> sendResize t
      | Some n \<Rightarrow> sendResize (t\<lparr>tb_terminals := (tb_terminals t)[n := (tb_terminals t ! n)\<lparr>xt_size := fitted\<rparr>]\<rparr>))"

definition terminal_url :: "location \<Rightarrow> public_workspace \<Rightarrow> string" where
  "terminal_url loc w =
     (if lo_protocol loc = ''https:'' then ''wss'' else ''ws'') @ ''://'' @ lo_host loc @ ''/api/workspaces/'' @ pw_id w @ ''/terminal''"

text \<open>The two assignments of \<open>openTerminal\<close>; its listeners are the events below.\<close>

definition openTerminal :: "location \<Rightarrow> public_workspace \<Rightarrow> tab \<Rightarrow> tab" where
  "openTerminal loc w t =
     t\<lparr>tb_terminal := Some (length (tb_terminals t)),
       tb_terminals := tb_terminals t @ [\<lparr>xt_disposed = False, xt_written = [], xt_size = (80, 24)\<rparr>],
       tb_socket := Some (length (tb_sockets t)),
       tb_sockets := tb_sockets t @ [\<lparr>ts_workspace = w, ts_url = terminal_url loc w, ts_state = CONNECTING, ts_sent = []\<rparr>],
       tb_resize := True\<rparr>"

definition closeTerminal :: "tab \<Rightarrow> tab" where
  "closeTerminal t =
     t\<lparr>tb_sockets := (case tb_socket t of None \<Rightarrow> tb_sockets t | Some n \<Rightarrow> (tb_sockets t)[n := close_frame (tb_sockets t ! n)]),
       tb_socket := None,
       tb_terminals := (case tb_terminal t of None \<Rightarrow> tb_terminals t | Some n \<Rightarrow> (tb_terminals t)[n := (tb_terminals t ! n)\<lparr>xt_disposed := True\<rparr>]),
       tb_terminal := None, tb_resize := False\<rparr>"

definition set_socket :: "nat \<Rightarrow> ready_state \<Rightarrow> tab \<Rightarrow> tab" where
  "set_socket n st t = t\<lparr>tb_sockets := (tb_sockets t)[n := (tb_sockets t ! n)\<lparr>ts_state := st\<rparr>]\<rparr>"

text \<open>The listeners. A message is what \<open>JSON.parse\<close> and the fields give; \<open>wasClean\<close> and \<open>code\<close> come with the close event.\<close>

definition socket_opened :: "nat \<Rightarrow> tab \<Rightarrow> tab" where "socket_opened n t = sendResize (set_socket n OPEN t)"

datatype terminal_reply = OutputReply "string option" | ClosedReply "string option" | OtherReply | Malformed

definition socket_message :: "terminal_reply \<Rightarrow> tab \<Rightarrow> tab" where
  "socket_message m t =
     (case m of
        OutputReply (Some (c # cs)) \<Rightarrow> xterm_write (Text (c # cs)) t
      | ClosedReply reason \<Rightarrow> xterm_write (ClosedBecause (case reason of None \<Rightarrow> ''ended'' | Some r \<Rightarrow> r)) t
      | Malformed \<Rightarrow> xterm_write InvalidResponse t
      | _ \<Rightarrow> t)"

definition socket_closed :: "nat \<Rightarrow> bool \<Rightarrow> int \<Rightarrow> tab \<Rightarrow> tab" where
  "socket_closed n wasClean closeCode t =
     (let w = ts_workspace (tb_sockets t ! n); t1 = (set_socket n CLOSED t)\<lparr>tb_socket := None\<rparr>
      in if tb_loaded t1 = Some (pw_id w) \<and> \<not> wasClean \<and> closeCode \<noteq> 1000
         then (xterm_write LostConnection t1)\<lparr>tb_reconnects := w # tb_reconnects t1\<rparr> else t1)"

definition socket_failed :: "tab \<Rightarrow> tab" where "socket_failed t = xterm_write FailedConnection t"

definition reconnect :: "location \<Rightarrow> public_workspace \<Rightarrow> tab \<Rightarrow> tab" where
  "reconnect loc w t =
     (let t1 = t\<lparr>tb_reconnects := remove1 w (tb_reconnects t)\<rparr>
      in if tb_loaded t1 = Some (pw_id w) \<and> tb_socket t1 = None then openTerminal loc w t1 else t1)"

section \<open>Ceremonies\<close>

definition closeCeremonyPoll :: "tab \<Rightarrow> tab" where "closeCeremonyPoll t = t\<lparr>tb_ceremony := None\<rparr>"

definition startCeremonyPoll :: "string \<Rightarrow> tab \<Rightarrow> tab" where
  "startCeremonyPoll wid t = (closeCeremonyPoll t)\<lparr>tb_ceremony := Some (wid, [])\<rparr>"

text \<open>One reply of the poll: the new requests in order, and the set \<open>seen\<close> afterwards.\<close>

fun new_requests :: "string list \<Rightarrow> ceremony_request list \<Rightarrow> ceremony_request list \<times> string list" where
  "new_requests seen [] = ([], seen)"
| "new_requests seen (r # rs) =
     (if cq_id r \<in> set seen then new_requests seen rs
      else let (shown, seen') = new_requests (seen @ [cq_id r]) rs in (r # shown, seen'))"

definition ceremony_turn :: "string list \<Rightarrow> ceremony_request list \<Rightarrow> ceremony_request list \<times> string list" where
  "ceremony_turn seen requests =
     (let (shown, seen') = new_requests seen requests
      in (shown, if 50 < length seen' then filter (\<lambda>i. i \<in> cq_id ` set requests) seen' else seen'))"

text \<open>A reply to the interval that still runs, and one that comes after the interval was cleared, with the \<open>seen\<close> of
  that closure.\<close>

definition ceremony_reply :: "ceremony_request list \<Rightarrow> tab \<Rightarrow> tab" where
  "ceremony_reply requests t =
     (case tb_ceremony t of
        None \<Rightarrow> t
      | Some (wid, seen) \<Rightarrow>
          let (shown, seen') = ceremony_turn seen requests
          in t\<lparr>tb_ceremony := Some (wid, seen'), tb_banners := tb_banners t @ map (Pair wid) shown\<rparr>)"

definition late_ceremony_reply :: "string \<Rightarrow> string list \<Rightarrow> ceremony_request list \<Rightarrow> tab \<Rightarrow> tab" where
  "late_ceremony_reply wid seen requests t =
     t\<lparr>tb_banners := tb_banners t @ map (Pair wid) (fst (ceremony_turn seen requests))\<rparr>"

definition remove_banner :: "string \<times> ceremony_request \<Rightarrow> tab \<Rightarrow> tab" where
  "remove_banner b t = t\<lparr>tb_banners := remove1 b (tb_banners t)\<rparr>"

section \<open>Workspaces\<close>

definition clearConnectionGrant :: "tab \<Rightarrow> tab" where "clearConnectionGrant t = t\<lparr>tb_connection := None\<rparr>"

definition closeWorkspaceResources :: "tab \<Rightarrow> tab" where
  "closeWorkspaceResources t =
     (let t1 = clearConnectionGrant (closeCeremonyPoll ((closeTerminal t)\<lparr>tb_jobs := closeJobStream (tb_jobs t)\<rparr>))
      in t1\<lparr>tb_loaded := None, tb_jobs := (tb_jobs t1)\<lparr>pg_active := None\<rparr>, tb_pollTimer := False, tb_leaseTimer := False\<rparr>)"

definition resetWorkspaceTools :: "string \<Rightarrow> tab \<Rightarrow> tab" where
  "resetWorkspaceTools wid t =
     (let t1 = closeWorkspaceResources t
      in clearConnectionGrant (t1\<lparr>tb_loaded := Some wid, tb_jobs := (tb_jobs t1)\<lparr>pg_active := None, pg_offset := 0, pg_output := []\<rparr>\<rparr>))"

definition updateLease :: "int \<Rightarrow> public_workspace \<Rightarrow> tab \<Rightarrow> tab" where
  "updateLease now w t =
     (if pw_leaseExpiresAt w - now \<le> 0
      then setMessage ''Your workspace lease has expired. The machine will stop automatically.'' (t\<lparr>tb_leaseTimer := False\<rparr>)
      else t\<lparr>tb_leaseTimer := True\<rparr>)"

definition inactive :: "public_workspace option \<Rightarrow> bool" where
  "inactive ws \<longleftrightarrow> (case ws of None \<Rightarrow> True | Some w \<Rightarrow> pw_state w \<in> {Workspaces.Stopped, Workspaces.Failed})"

text \<open>The branch of a running workspace, then the whole.\<close>

definition renderRunning :: "location \<Rightarrow> public_workspace \<Rightarrow> tab \<Rightarrow> tab" where
  "renderRunning loc w t =
     (let t1 = (if tb_loaded t \<noteq> Some (pw_id w) then resetWorkspaceTools (pw_id w) t else t);
          t2 = (if isAvailable ''terminal'' (tb_session t1) \<and> tb_socket t1 = None then openTerminal loc w t1 else t1)
      in if tb_ceremony t2 = None then startCeremonyPoll (pw_id w) t2 else t2)"

definition renderWorkspace :: "location \<Rightarrow> int \<Rightarrow> public_workspace option \<Rightarrow> tab \<Rightarrow> tab" where
  "renderWorkspace loc now ws t =
     (let t1 = t\<lparr>tb_pollTimer := False, tb_leaseTimer := False\<rparr>
      in case ws of
           None \<Rightarrow> closeWorkspaceResources t1
         | Some w \<Rightarrow>
             if inactive ws then closeWorkspaceResources t1
             else let t2 = (if pw_state w = Workspaces.Running then renderRunning loc w t1 else t1)
                  in (updateLease now w t2)\<lparr>tb_pollTimer := True\<rparr>)"

definition renderSession :: "location \<Rightarrow> int \<Rightarrow> tab \<Rightarrow> tab" where
  "renderSession loc now t = renderWorkspace loc now (ps_workspace (tb_session t)) t"

definition workspace_reply :: "location \<Rightarrow> int \<Rightarrow> public_workspace option \<Rightarrow> tab \<Rightarrow> tab" where
  "workspace_reply loc now ws t = renderWorkspace loc now ws (t\<lparr>tb_session := (tb_session t)\<lparr>ps_workspace := ws\<rparr>\<rparr>)"

text \<open>\<open>refreshWorkspace\<close>: its call, when the timer fires or a stop succeeded, and its two replies.\<close>

definition refreshWorkspace :: "tab \<Rightarrow> tab" where
  "refreshWorkspace t = t\<lparr>tb_pollTimer := False, tb_refreshes := Suc (tb_refreshes t)\<rparr>"

definition refresh_reply :: "location \<Rightarrow> int \<Rightarrow> (string, public_workspace option) res \<Rightarrow> tab \<Rightarrow> tab" where
  "refresh_reply loc now reply t =
     (let t1 = t\<lparr>tb_refreshes := tb_refreshes t - 1\<rparr>
      in case reply of Inr ws \<Rightarrow> workspace_reply loc now ws t1 | Inl e \<Rightarrow> setMessage e t1)"

section \<open>Signing in and out\<close>

definition loadSession_reply :: "location \<Rightarrow> int \<Rightarrow> page_session \<Rightarrow> tab \<Rightarrow> tab" where
  "loadSession_reply loc now s t = renderSession loc now (t\<lparr>tb_session := s\<rparr>)"

definition removeWalletListeners :: "wallet_binding option \<Rightarrow> tab \<Rightarrow> tab" where
  "removeWalletListeners binding t =
     (case binding of
        None \<Rightarrow> t
      | Some b \<Rightarrow> t\<lparr>tb_listeners := (if wb_removable b then removeAll b (tb_listeners t) else tb_listeners t),
                     tb_wallet := (if tb_wallet t = Some b then None else tb_wallet t)\<rparr>)"

definition bindAuthenticatedWallet :: "wallet_binding \<Rightarrow> tab \<Rightarrow> tab" where
  "bindAuthenticatedWallet b t =
     (let t1 = removeWalletListeners (tb_wallet t) t in t1\<lparr>tb_wallet := Some b, tb_listeners := b # tb_listeners t1\<rparr>)"

definition expireSession :: "location \<Rightarrow> int \<Rightarrow> tab \<Rightarrow> tab" where
  "expireSession loc now t =
     (let t1 = removeWalletListeners (tb_wallet t) t;
          t2 = closeWorkspaceResources (t1\<lparr>tb_session := signed_out (tb_session t1)\<rparr>)
      in setMessage ''Your session expired. Sign in again to continue.'' (renderSession loc now t2))"

text \<open>The reply of \<open>/api/auth/verify\<close> in \<open>authenticate\<close>.\<close>

definition verify_reply :: "string \<Rightarrow> string \<Rightarrow> wallet_binding \<Rightarrow> tab \<Rightarrow> tab" where
  "verify_reply wallet csrf b t =
     bindAuthenticatedWallet b
       (t\<lparr>tb_session := (tb_session t)\<lparr>ps_authenticated := True, ps_wallet := Some wallet, ps_csrfToken := Some csrf\<rparr>\<rparr>)"

text \<open>\<open>invalidateWalletSession\<close>: up to its call of \<open>/api/auth/logout\<close>, and what follows the reply. The reason is the
  message; \<open>confirmed\<close> is whether the call succeeded.\<close>

definition invalidate_done :: "location \<Rightarrow> int \<Rightarrow> string \<Rightarrow> bool \<Rightarrow> tab \<Rightarrow> tab" where
  "invalidate_done loc now reason confirmed t =
     (let t1 = closeWorkspaceResources (t\<lparr>tb_session := signed_out (tb_session t)\<rparr>)
      in setMessage (if confirmed then reason
                     else reason @ '' Server sign-out could not be confirmed; reload before signing in again.'')
           (renderSession loc now t1))"

definition invalidateWalletSession :: "location \<Rightarrow> int \<Rightarrow> string \<Rightarrow> tab \<Rightarrow> tab" where
  "invalidateWalletSession loc now reason t =
     (case tb_wallet t of
        None \<Rightarrow> t
      | Some b \<Rightarrow>
          let t1 = removeWalletListeners (Some b) t
          in if ps_authenticated (tb_session t1) then t1\<lparr>tb_invalidating := Suc (tb_invalidating t1)\<rparr>
             else invalidate_done loc now reason True t1)"

definition invalidate_reply :: "location \<Rightarrow> int \<Rightarrow> string \<Rightarrow> bool \<Rightarrow> tab \<Rightarrow> tab" where
  "invalidate_reply loc now reason confirmed t =
     invalidate_done loc now reason confirmed (t\<lparr>tb_invalidating := tb_invalidating t - 1\<rparr>)"

text \<open>The handlers of a binding. \<open>first_account\<close> is the first account of the event in its checksummed form, if it is an
  address; \<open>Number\<close> is the parameter \<open>number\<close>, \<open>None\<close> when the result is no safe integer.\<close>

datatype js_value = NumberValue "int option" | StringValue string | OtherValue

definition parseWalletChainId :: "(string \<Rightarrow> int option) \<Rightarrow> js_value \<Rightarrow> int option" where
  "parseWalletChainId number v =
     (case v of
        NumberValue n \<Rightarrow> n
      | StringValue s \<Rightarrow> if trim s = [] then None else number s
      | OtherValue \<Rightarrow> None)"

datatype wallet_event = AccountsChanged "string option" | ChainChanged js_value | Disconnected

definition wallet_changed :: "(string \<Rightarrow> int option) \<Rightarrow> wallet_binding \<Rightarrow> wallet_event \<Rightarrow> string option" where
  "wallet_changed number b e =
     (case e of
        AccountsChanged first_account \<Rightarrow>
          (if (case first_account of None \<Rightarrow> True | Some a \<Rightarrow> to_lower a \<noteq> to_lower (wb_address b))
           then Some ''Your wallet account changed. Sign in again to continue.'' else None)
      | ChainChanged v \<Rightarrow>
          (if parseWalletChainId number v \<noteq> Some (wb_chainId b) then Some ''Your wallet network changed. Sign in again to continue.'' else None)
      | Disconnected \<Rightarrow> Some ''Your wallet disconnected. Sign in again to continue.'')"

definition wallet_handler :: "location \<Rightarrow> int \<Rightarrow> (string \<Rightarrow> int option) \<Rightarrow> wallet_binding \<Rightarrow> wallet_event \<Rightarrow> tab \<Rightarrow> tab" where
  "wallet_handler loc now number b e t =
     (case wallet_changed number b e of None \<Rightarrow> t | Some reason \<Rightarrow> invalidateWalletSession loc now reason t)"

text \<open>\<open>logout\<close> after its call, before it loads the session again; \<open>b\<close> is the binding it read before the call.\<close>

definition logout_reply :: "wallet_binding option \<Rightarrow> tab \<Rightarrow> tab" where
  "logout_reply b t = closeWorkspaceResources (removeWalletListeners b t)"

definition volume_reply :: "location \<Rightarrow> int \<Rightarrow> tab \<Rightarrow> tab" where
  "volume_reply loc now t =
     setMessage ''Persistent workspace volume deleted.''
       (renderWorkspace loc now None (t\<lparr>tb_session := (tb_session t)\<lparr>ps_workspace := None\<rparr>\<rparr>))"

definition grant_reply :: "page_grant \<Rightarrow> tab \<Rightarrow> tab" where "grant_reply g t = t\<lparr>tb_connection := Some g\<rparr>"

section \<open>The page as a whole\<close>

datatype tab_event =
    SessionReply page_session
  | Unauthorized
  | VerifyReply string string wallet_binding
  | WalletEvent wallet_binding wallet_event
  | InvalidateReply string bool
  | LogoutReply "wallet_binding option"
  | PollTimer
  | StopReply
  | RefreshReply "(string, public_workspace option) res"
  | LeaseTimer public_workspace
  | CreateReply public_workspace
  | VolumeReply
  | SocketOpened nat
  | SocketMessage nat terminal_reply
  | SocketClosed nat bool int
  | SocketFailed nat
  | Reconnect public_workspace
  | Typed string
  | Resized "nat \<times> nat"
  | CeremonyReply "ceremony_request list"
  | LateCeremonyReply string "string list" "ceremony_request list"
  | BannerClosed "string \<times> ceremony_request"
  | GrantReply page_grant
  | RevokeReply
  | JobStarted job_status
  | JobUpdate job_status
  | JobBroken
  | JobTimer
  | JobPolled job_status
  | JobCancelled job_status

text \<open>What the page does at an event; \<open>now\<close> is the clock, \<open>number\<close> is \<open>Number\<close>.\<close>

fun apply_event :: "location \<Rightarrow> (string \<Rightarrow> int option) \<Rightarrow> int \<Rightarrow> tab_event \<Rightarrow> tab \<Rightarrow> tab" where
  "apply_event loc number now (SessionReply s) t = loadSession_reply loc now s t"
| "apply_event loc number now Unauthorized t = expireSession loc now t"
| "apply_event loc number now (VerifyReply wallet csrf b) t = verify_reply wallet csrf b t"
| "apply_event loc number now (WalletEvent b e) t = wallet_handler loc now number b e t"
| "apply_event loc number now (InvalidateReply reason confirmed) t = invalidate_reply loc now reason confirmed t"
| "apply_event loc number now (LogoutReply b) t = logout_reply b t"
| "apply_event loc number now PollTimer t = refreshWorkspace t"
| "apply_event loc number now StopReply t = t\<lparr>tb_refreshes := Suc (tb_refreshes t)\<rparr>"
| "apply_event loc number now (RefreshReply r) t = refresh_reply loc now r t"
| "apply_event loc number now (LeaseTimer w) t = updateLease now w t"
| "apply_event loc number now (CreateReply w) t = workspace_reply loc now (Some w) t"
| "apply_event loc number now VolumeReply t = volume_reply loc now t"
| "apply_event loc number now (SocketOpened n) t = socket_opened n t"
| "apply_event loc number now (SocketMessage n m) t = socket_message m t"
| "apply_event loc number now (SocketClosed n wasClean closeCode) t = socket_closed n wasClean closeCode t"
| "apply_event loc number now (SocketFailed n) t = socket_failed t"
| "apply_event loc number now (Reconnect w) t = reconnect loc w t"
| "apply_event loc number now (Typed data) t = send_frame (InputFrame data) t"
| "apply_event loc number now (Resized fitted) t = resizeTerminal fitted t"
| "apply_event loc number now (CeremonyReply rs) t = ceremony_reply rs t"
| "apply_event loc number now (LateCeremonyReply wid seen rs) t = late_ceremony_reply wid seen rs t"
| "apply_event loc number now (BannerClosed b) t = remove_banner b t"
| "apply_event loc number now (GrantReply g) t = grant_reply g t"
| "apply_event loc number now RevokeReply t = clearConnectionGrant t"
| "apply_event loc number now (JobStarted st) t = t\<lparr>tb_jobs := startJob_reply st (tb_jobs t)\<rparr>"
| "apply_event loc number now (JobUpdate st) t = t\<lparr>tb_jobs := applyJobStatus st (tb_jobs t)\<rparr>"
| "apply_event loc number now JobBroken t = t\<lparr>tb_jobs := fst (onerror (tb_jobs t))\<rparr>"
| "apply_event loc number now JobTimer t = t\<lparr>tb_jobs := (tb_jobs t)\<lparr>pg_timer := False\<rparr>\<rparr>"
| "apply_event loc number now (JobPolled st) t = t\<lparr>tb_jobs := poll_reply st (tb_jobs t)\<rparr>"
| "apply_event loc number now (JobCancelled st) t = t\<lparr>tb_jobs := applyJobStatus st (tb_jobs t)\<rparr>"

text \<open>When the browser delivers an event.\<close>

fun enabled :: "tab_event \<Rightarrow> tab \<Rightarrow> bool" where
  "enabled (WalletEvent b e) t \<longleftrightarrow> b \<in> set (tb_listeners t)"
| "enabled (InvalidateReply reason confirmed) t \<longleftrightarrow> 0 < tb_invalidating t"
| "enabled PollTimer t \<longleftrightarrow> tb_pollTimer t"
| "enabled (RefreshReply r) t \<longleftrightarrow> 0 < tb_refreshes t"
| "enabled (LeaseTimer w) t \<longleftrightarrow> tb_leaseTimer t"
| "enabled (SocketOpened n) t \<longleftrightarrow> n < length (tb_sockets t) \<and> ts_state (tb_sockets t ! n) = CONNECTING"
| "enabled (SocketMessage n m) t \<longleftrightarrow> n < length (tb_sockets t) \<and> ts_state (tb_sockets t ! n) \<in> {OPEN, CLOSING}"
| "enabled (SocketClosed n wasClean closeCode) t \<longleftrightarrow> n < length (tb_sockets t) \<and> ts_state (tb_sockets t ! n) \<noteq> CLOSED"
| "enabled (SocketFailed n) t \<longleftrightarrow> n < length (tb_sockets t) \<and> ts_state (tb_sockets t ! n) \<noteq> CLOSED"
| "enabled (Reconnect w) t \<longleftrightarrow> w \<in> set (tb_reconnects t)"
| "enabled (Typed data) t \<longleftrightarrow> (\<exists>x \<in> set (tb_terminals t). \<not> xt_disposed x)"
| "enabled (Resized fitted) t \<longleftrightarrow> tb_resize t"
| "enabled (CeremonyReply rs) t \<longleftrightarrow> tb_ceremony t \<noteq> None"
| "enabled (BannerClosed b) t \<longleftrightarrow> b \<in> set (tb_banners t)"
| "enabled (JobUpdate st) t \<longleftrightarrow> pg_events (tb_jobs t)"
| "enabled JobBroken t \<longleftrightarrow> pg_events (tb_jobs t)"
| "enabled JobTimer t \<longleftrightarrow> pg_timer (tb_jobs t)"
| "enabled _ t \<longleftrightarrow> True"

text \<open>
  What the page takes for granted of the order: a reply to a call about the workspace finds its owner still signed in
  (the tools still open, for those that work in the tools), the close event of a socket comes before another socket is
  opened, and a session that is not authenticated is reported without a workspace (\<open>session_route_ordered\<close>).
\<close>

fun in_order :: "tab_event \<Rightarrow> tab \<Rightarrow> bool" where
  "in_order (SessionReply s) t \<longleftrightarrow> ps_authenticated s \<or> ps_wallet s = None \<and> ps_csrfToken s = None \<and> ps_workspace s = None"
| "in_order (RefreshReply (Inr ws)) t \<longleftrightarrow> ps_authenticated (tb_session t)"
| "in_order (LeaseTimer w) t \<longleftrightarrow> ps_authenticated (tb_session t)"
| "in_order (CreateReply w) t \<longleftrightarrow> ps_authenticated (tb_session t)"
| "in_order (SocketClosed n wasClean closeCode) t \<longleftrightarrow> tb_socket t \<in> {None, Some n}"
| "in_order (GrantReply g) t \<longleftrightarrow> tb_loaded t \<noteq> None"
| "in_order (JobStarted st) t \<longleftrightarrow> tb_loaded t \<noteq> None"
| "in_order (JobPolled st) t \<longleftrightarrow> tb_loaded t \<noteq> None"
| "in_order _ t \<longleftrightarrow> True"

inductive page_run :: "location \<Rightarrow> (string \<Rightarrow> int option) \<Rightarrow> tab \<Rightarrow> bool" for loc number where
  opened: "page_run loc number new_tab"
| event: "page_run loc number t \<Longrightarrow> enabled e t \<Longrightarrow> in_order e t \<Longrightarrow> page_run loc number (apply_event loc number now e t)"

lemma session_route_ordered: "in_order (SessionReply (session_route session current capabilities devAuth siteKey)) t"
  by (cases session) (simp_all add: session_route_def)

section \<open>What an orderly page keeps\<close>

definition live_socket :: "tab \<Rightarrow> nat \<Rightarrow> bool" where
  "live_socket t n \<longleftrightarrow> n < length (tb_sockets t) \<and> ts_state (tb_sockets t ! n) \<in> {CONNECTING, OPEN}"

definition sockets_ok :: "location \<Rightarrow> tab \<Rightarrow> bool" where
  "sockets_ok loc t \<longleftrightarrow>
     (\<forall>n. live_socket t n \<longrightarrow> tb_socket t = Some n)
     \<and> (\<forall>n. tb_socket t = Some n \<longrightarrow> n < length (tb_sockets t) \<and> tb_loaded t = Some (pw_id (ts_workspace (tb_sockets t ! n))))
     \<and> (\<forall>n < length (tb_sockets t). ts_url (tb_sockets t ! n) = terminal_url loc (ts_workspace (tb_sockets t ! n)))"

definition tools_ok :: "tab \<Rightarrow> bool" where
  "tools_ok t \<longleftrightarrow>
     (tb_loaded t = None \<longrightarrow> tb_ceremony t = None \<and> tb_connection t = None \<and> \<not> pg_events (tb_jobs t) \<and> \<not> pg_timer (tb_jobs t))
     \<and> (\<forall>wid seen. tb_ceremony t = Some (wid, seen) \<longrightarrow> tb_loaded t = Some wid)"

definition out_ok :: "tab \<Rightarrow> bool" where
  "out_ok t \<longleftrightarrow>
     ps_authenticated (tb_session t)
     \<or> tb_loaded t = None \<and> \<not> tb_pollTimer t \<and> \<not> tb_leaseTimer t \<and> ps_csrfToken (tb_session t) = None
       \<and> ps_wallet (tb_session t) = None \<and> ps_workspace (tb_session t) = None"

definition tab_ok :: "location \<Rightarrow> tab \<Rightarrow> bool" where
  "tab_ok loc t \<longleftrightarrow> sockets_ok loc t \<and> tools_ok t \<and> out_ok t"

text \<open>The fields the invariant reads; two tabs that agree on them are both fine or neither.\<close>

definition same_tools :: "tab \<Rightarrow> tab \<Rightarrow> bool" where
  "same_tools t t' \<longleftrightarrow> tb_socket t' = tb_socket t \<and> tb_loaded t' = tb_loaded t \<and> tb_ceremony t' = tb_ceremony t
     \<and> tb_connection t' = tb_connection t \<and> tb_jobs t' = tb_jobs t \<and> tb_session t' = tb_session t
     \<and> tb_pollTimer t' = tb_pollTimer t \<and> tb_leaseTimer t' = tb_leaseTimer t
     \<and> map ts_workspace (tb_sockets t') = map ts_workspace (tb_sockets t) \<and> map ts_url (tb_sockets t') = map ts_url (tb_sockets t)
     \<and> map (\<lambda>w. ts_state w \<in> {CONNECTING, OPEN}) (tb_sockets t') = map (\<lambda>w. ts_state w \<in> {CONNECTING, OPEN}) (tb_sockets t)"

lemma map_eq_nth: "map f xs = map f ys \<Longrightarrow> length xs = length ys \<and> (\<forall>n < length ys. f (xs ! n) = f (ys ! n))"
  by (metis length_map nth_map)

lemma same_tools_ok:
  assumes "same_tools t t'" "tab_ok loc t" shows "tab_ok loc t'"
proof -
  have f: "tb_socket t' = tb_socket t" "tb_loaded t' = tb_loaded t" "tb_ceremony t' = tb_ceremony t"
    "tb_connection t' = tb_connection t" "tb_jobs t' = tb_jobs t" "tb_session t' = tb_session t"
    "tb_pollTimer t' = tb_pollTimer t" "tb_leaseTimer t' = tb_leaseTimer t"
    and m: "map ts_workspace (tb_sockets t') = map ts_workspace (tb_sockets t)" "map ts_url (tb_sockets t') = map ts_url (tb_sockets t)"
      "map (\<lambda>w. ts_state w \<in> {CONNECTING, OPEN}) (tb_sockets t') = map (\<lambda>w. ts_state w \<in> {CONNECTING, OPEN}) (tb_sockets t)"
    using assms(1) by (simp_all add: same_tools_def)
  have l: "length (tb_sockets t') = length (tb_sockets t)" using map_eq_nth[OF m(1)] by blast
  have n: "n < length (tb_sockets t) \<Longrightarrow> ts_workspace (tb_sockets t' ! n) = ts_workspace (tb_sockets t ! n)"
    "n < length (tb_sockets t) \<Longrightarrow> ts_url (tb_sockets t' ! n) = ts_url (tb_sockets t ! n)"
    "n < length (tb_sockets t) \<Longrightarrow> (ts_state (tb_sockets t' ! n) \<in> {CONNECTING, OPEN}) = (ts_state (tb_sockets t ! n) \<in> {CONNECTING, OPEN})" for n
    using map_eq_nth[OF m(1)] map_eq_nth[OF m(2)] map_eq_nth[OF m(3)] by blast+
  have s: "live_socket t' n = live_socket t n" for n unfolding live_socket_def l by (rule conj_cong[OF refl]) (rule n(3))
  have k: "sockets_ok loc t'"
    using assms(2) n(1,2) unfolding tab_ok_def sockets_ok_def s f l by metis
  show ?thesis using k assms(2) unfolding tab_ok_def tools_ok_def out_ok_def f by blast
qed

lemma map_update_same: "(n < length xs \<Longrightarrow> f x = f (xs ! n)) \<Longrightarrow> map f (xs[n := x]) = map f xs"
  by (cases "n < length xs") (simp_all add: map_update list_update_id list_update_beyond, metis length_map list_update_id nth_map)

lemma same_write: "same_tools t (xterm_write x t)"
  by (simp add: same_tools_def xterm_write_def split: option.split)

lemma same_send: "same_tools t (send_frame f t)"
  by (auto simp: same_tools_def send_frame_def intro!: map_update_same split: option.split)

lemma same_trans: "same_tools t t1 \<Longrightarrow> same_tools t1 t2 \<Longrightarrow> same_tools t t2"
  by (simp add: same_tools_def)

lemma same_sendResize: "same_tools t (sendResize t)"
  by (auto simp: sendResize_def same_send split: option.split prod.split) (simp add: same_tools_def)

lemma same_resizeTerminal: "same_tools t (resizeTerminal fitted t)"
  by (auto simp: resizeTerminal_def same_sendResize split: option.split)
     (rule same_trans[OF _ same_sendResize], simp add: same_tools_def)

lemma same_message: "same_tools t (socket_message m t)"
  by (auto simp: socket_message_def same_write split: terminal_reply.split option.split list.split) (simp_all add: same_tools_def)

lemma same_other:
  "same_tools t (setMessage m t)" "same_tools t (removeWalletListeners b t)" "same_tools t (socket_failed t)"
  "same_tools t (late_ceremony_reply wid seen rs t)" "same_tools t (remove_banner bn t)"
  "same_tools t (t\<lparr>tb_refreshes := k\<rparr>)" "same_tools t (t\<lparr>tb_invalidating := k\<rparr>)" "same_tools t (t\<lparr>tb_reconnects := ws\<rparr>)"
  using same_write[of t] by (auto simp: same_tools_def setMessage_def removeWalletListeners_def socket_failed_def late_ceremony_reply_def
      remove_banner_def split: option.split)

lemmas same_keeps = same_write same_send same_sendResize same_resizeTerminal same_message same_other

text \<open>Closing everything: no socket is live afterwards, whatever the session is.\<close>

lemma closed_sels [simp]:
  "tb_socket (closeWorkspaceResources t) = None" "tb_loaded (closeWorkspaceResources t) = None"
  "tb_ceremony (closeWorkspaceResources t) = None" "tb_connection (closeWorkspaceResources t) = None"
  "pg_events (tb_jobs (closeWorkspaceResources t)) = False" "pg_timer (tb_jobs (closeWorkspaceResources t)) = False"
  "tb_pollTimer (closeWorkspaceResources t) = False" "tb_leaseTimer (closeWorkspaceResources t) = False"
  "tb_session (closeWorkspaceResources t) = tb_session t"
  by (simp_all add: closeWorkspaceResources_def closeTerminal_def closeCeremonyPoll_def clearConnectionGrant_def closeJobStream_def Let_def)

lemma closed_sockets:
  "tb_sockets (closeWorkspaceResources t) =
     (case tb_socket t of None \<Rightarrow> tb_sockets t | Some n \<Rightarrow> (tb_sockets t)[n := close_frame (tb_sockets t ! n)])"
  by (simp add: closeWorkspaceResources_def closeTerminal_def closeCeremonyPoll_def clearConnectionGrant_def Let_def)

lemma close_frame_sels [simp]:
  "ts_workspace (close_frame w) = ts_workspace w" "ts_url (close_frame w) = ts_url w" "ts_state (close_frame w) \<noteq> CONNECTING" "ts_state (close_frame w) \<noteq> OPEN"
  by (auto simp: close_frame_def)

lemma closed_live: "sockets_ok loc t \<Longrightarrow> \<not> live_socket (closeWorkspaceResources t) n"
  unfolding sockets_ok_def live_socket_def closed_sockets
  by (cases "tb_socket t"; cases "tb_socket t = Some n") (auto simp: nth_list_update)

lemma closed_ok:
  assumes "sockets_ok loc t" "ps_authenticated (tb_session t) \<or> ps_csrfToken (tb_session t) = None \<and> ps_wallet (tb_session t) = None \<and> ps_workspace (tb_session t) = None"
  shows "tab_ok loc (closeWorkspaceResources t)"
proof -
  have u: "ts_url (tb_sockets (closeWorkspaceResources t) ! n) = terminal_url loc (ts_workspace (tb_sockets (closeWorkspaceResources t) ! n))"
    if "n < length (tb_sockets (closeWorkspaceResources t))" for n
    using assms(1) that unfolding sockets_ok_def closed_sockets
    by (cases "tb_socket t") (auto simp: nth_list_update)
  have "sockets_ok loc (closeWorkspaceResources t)"
    unfolding sockets_ok_def using u closed_live[OF assms(1)] by simp
  then show ?thesis using assms(2) by (auto simp: tab_ok_def tools_ok_def out_ok_def)
qed

lemma sockets_ok_session [simp]:
  "sockets_ok loc (t\<lparr>tb_session := s\<rparr>) = sockets_ok loc t" "sockets_ok loc (t\<lparr>tb_pollTimer := b\<rparr>) = sockets_ok loc t"
  "sockets_ok loc (t\<lparr>tb_leaseTimer := b\<rparr>) = sockets_ok loc t" "sockets_ok loc (t\<lparr>tb_ceremony := c\<rparr>) = sockets_ok loc t"
  "sockets_ok loc (t\<lparr>tb_jobs := j\<rparr>) = sockets_ok loc t" "sockets_ok loc (t\<lparr>tb_connection := g\<rparr>) = sockets_ok loc t"
  by (simp_all add: sockets_ok_def live_socket_def)

lemma sockets_ok_same:
  "tb_socket t' = tb_socket t \<Longrightarrow> tb_sockets t' = tb_sockets t \<Longrightarrow> tb_loaded t' = tb_loaded t \<Longrightarrow> sockets_ok loc t' = sockets_ok loc t"
  by (simp add: sockets_ok_def live_socket_def)

lemma tab_ok_same:
  assumes "tab_ok loc t" "tb_socket t' = tb_socket t" "tb_sockets t' = tb_sockets t" "tb_loaded t' = tb_loaded t" "tools_ok t'" "out_ok t'"
  shows "tab_ok loc t'"
  using assms sockets_ok_same[of t' t loc] by (simp add: tab_ok_def)

lemma tab_ok_sockets: "tab_ok loc t \<Longrightarrow> sockets_ok loc t" by (simp add: tab_ok_def)

lemma reset_ok:
  assumes "sockets_ok loc t" "ps_authenticated (tb_session t)"
  shows "tab_ok loc (resetWorkspaceTools wid t)" "tb_loaded (resetWorkspaceTools wid t) = Some wid"
    "tb_session (resetWorkspaceTools wid t) = tb_session t"
proof -
  let ?c = "closeWorkspaceResources t"
  have "tab_ok loc ?c" by (rule closed_ok) (use assms in simp_all)
  moreover have "\<not> live_socket ?c n" for n using closed_live[OF assms(1)] .
  ultimately show "tab_ok loc (resetWorkspaceTools wid t)"
    using assms(2)
    by (auto simp: resetWorkspaceTools_def Let_def tab_ok_def tools_ok_def out_ok_def sockets_ok_def live_socket_def clearConnectionGrant_def)
  show "tb_loaded (resetWorkspaceTools wid t) = Some wid" "tb_session (resetWorkspaceTools wid t) = tb_session t"
    by (simp_all add: resetWorkspaceTools_def Let_def clearConnectionGrant_def)
qed

lemma open_ok:
  assumes "tab_ok loc t" "tb_socket t = None" "tb_loaded t = Some (pw_id w)"
  shows "tab_ok loc (openTerminal loc w t)"
proof -
  let ?t = "openTerminal loc w t"
  have old: "\<not> live_socket t n" "n < length (tb_sockets t) \<Longrightarrow> ts_url (tb_sockets t ! n) = terminal_url loc (ts_workspace (tb_sockets t ! n))" for n
    using assms(1,2) by (auto simp: tab_ok_def sockets_ok_def)
  have at: "tb_sockets ?t ! n = (if n < length (tb_sockets t) then tb_sockets t ! n
      else \<lparr>ts_workspace = w, ts_url = terminal_url loc w, ts_state = CONNECTING, ts_sent = []\<rparr>)"
    if "n < length (tb_sockets ?t)" for n
    using that by (cases "n = length (tb_sockets t)") (simp_all add: openTerminal_def nth_append less_Suc_eq)
  have now: "tb_socket ?t = Some (length (tb_sockets t))" "length (tb_sockets ?t) = Suc (length (tb_sockets t))" "tb_loaded ?t = tb_loaded t"
    by (simp_all add: openTerminal_def)
  have "n = length (tb_sockets t)" if "live_socket ?t n" for n
    using that at[of n] old(1)[of n] now(2) by (auto simp: live_socket_def split: if_splits)
  moreover have "ts_url (tb_sockets ?t ! n) = terminal_url loc (ts_workspace (tb_sockets ?t ! n))" if "n < length (tb_sockets ?t)" for n
    using at[OF that] old(2)[of n] by simp
  moreover have "tb_loaded ?t = Some (pw_id (ts_workspace (tb_sockets ?t ! length (tb_sockets t))))"
    using at[of "length (tb_sockets t)"] now assms(3) by simp
  ultimately have "sockets_ok loc ?t" using now by (simp add: sockets_ok_def)
  moreover have "tools_ok ?t" "out_ok ?t" using assms(1) by (simp_all add: tab_ok_def tools_ok_def out_ok_def openTerminal_def)
  ultimately show ?thesis by (simp add: tab_ok_def)
qed

lemma open_sels [simp]:
  "tb_loaded (openTerminal loc w t) = tb_loaded t" "tb_session (openTerminal loc w t) = tb_session t"
  by (simp_all add: openTerminal_def)

lemma ceremony_ok: "tab_ok loc t \<Longrightarrow> tb_loaded t = Some wid \<Longrightarrow> tab_ok loc (startCeremonyPoll wid t)"
  by (simp add: tab_ok_def startCeremonyPoll_def closeCeremonyPoll_def) (auto simp: tools_ok_def out_ok_def)

lemma renderRunning_ok:
  assumes "tab_ok loc t" "ps_authenticated (tb_session t)"
  shows "tab_ok loc (renderRunning loc w t)" "tb_session (renderRunning loc w t) = tb_session t"
proof -
  let ?t1 = "if tb_loaded t \<noteq> Some (pw_id w) then resetWorkspaceTools (pw_id w) t else t"
  let ?t2 = "if isAvailable ''terminal'' (tb_session ?t1) \<and> tb_socket ?t1 = None then openTerminal loc w ?t1 else ?t1"
  have 1: "tab_ok loc ?t1" "tb_loaded ?t1 = Some (pw_id w)" "tb_session ?t1 = tb_session t"
    using reset_ok[OF tab_ok_sockets[OF assms(1)] assms(2)] assms(1) by auto
  have 2: "tab_ok loc ?t2" "tb_loaded ?t2 = Some (pw_id w)" "tb_session ?t2 = tb_session t"
    using open_ok[OF 1(1) _ 1(2)] 1 by auto
  show "tab_ok loc (renderRunning loc w t)"
    using 2 ceremony_ok[OF 2(1,2)] by (simp add: renderRunning_def Let_def)
  show "tb_session (renderRunning loc w t) = tb_session t"
    using 2(3) by (simp add: renderRunning_def Let_def startCeremonyPoll_def closeCeremonyPoll_def)
qed

lemma timers_ok:
  assumes "tab_ok loc t" "ps_authenticated (tb_session t)"
  shows "tab_ok loc ((updateLease now w t)\<lparr>tb_pollTimer := p\<rparr>)" "tab_ok loc (updateLease now w t)"
  using assms(1) by (rule tab_ok_same; use assms in \<open>simp add: updateLease_def setMessage_def tab_ok_def tools_ok_def out_ok_def\<close>)+

lemma renderWorkspace_ok:
  assumes "sockets_ok loc t" "tools_ok t"
    and "ps_authenticated (tb_session t) \<or> ps_csrfToken (tb_session t) = None \<and> ps_wallet (tb_session t) = None \<and> ps_workspace (tb_session t) = None"
    and "ps_authenticated (tb_session t) \<or> ws = None"
  shows "tab_ok loc (renderWorkspace loc now ws t)"
proof -
  let ?t1 = "t\<lparr>tb_pollTimer := False, tb_leaseTimer := False\<rparr>"
  have s: "sockets_ok loc ?t1" using assms(1) by simp
  have c: "tab_ok loc (closeWorkspaceResources ?t1)" by (rule closed_ok[OF s]) (use assms(3) in simp)
  show ?thesis
  proof (cases ws)
    case None
    then show ?thesis using c by (simp add: renderWorkspace_def Let_def)
  next
    case (Some w)
    then have a: "ps_authenticated (tb_session ?t1)" using assms(4) by simp
    have k: "tab_ok loc ?t1" using assms(2) s a by (simp add: tab_ok_def tools_ok_def out_ok_def)
    have r: "tab_ok loc ((updateLease now w (renderRunning loc w ?t1))\<lparr>tb_pollTimer := True\<rparr>)"
      by (rule timers_ok(1)[OF renderRunning_ok(1)[OF k a]]) (use renderRunning_ok(2)[OF k a] a in simp)
    show ?thesis
      using c r timers_ok(1)[OF k a] Some by (simp add: renderWorkspace_def Let_def)
  qed
qed

lemma signed_out_sels [simp]:
  "ps_authenticated (signed_out s) = False" "ps_wallet (signed_out s) = None" "ps_csrfToken (signed_out s) = None"
  "ps_workspace (signed_out s) = None"
  by (simp_all add: signed_out_def)

lemma signing_out_ok:
  assumes "sockets_ok loc t"
  shows "tab_ok loc (renderSession loc now (closeWorkspaceResources (t\<lparr>tb_session := signed_out s\<rparr>)))"
proof -
  have "tab_ok loc (closeWorkspaceResources (t\<lparr>tb_session := signed_out s\<rparr>))" by (rule closed_ok) (use assms in simp_all)
  then show ?thesis unfolding renderSession_def by (intro renderWorkspace_ok) (simp_all add: tab_ok_def)
qed

lemma same_sockets: "same_tools t t' \<Longrightarrow> tab_ok loc t \<Longrightarrow> sockets_ok loc t'"
  using same_tools_ok tab_ok_sockets by blast

lemma expireSession_ok: "tab_ok loc t \<Longrightarrow> tab_ok loc (expireSession loc now t)"
  unfolding expireSession_def Let_def
  by (rule same_tools_ok[OF same_other(1)], rule signing_out_ok, rule same_sockets[OF same_other(2)])

lemma invalidate_done_ok: "tab_ok loc t \<Longrightarrow> tab_ok loc (invalidate_done loc now reason confirmed t)"
  unfolding invalidate_done_def Let_def by (rule same_tools_ok[OF same_other(1)], rule signing_out_ok, rule tab_ok_sockets)

lemma invalidate_ok: "tab_ok loc t \<Longrightarrow> tab_ok loc (invalidateWalletSession loc now reason t)"
  by (auto simp: invalidateWalletSession_def Let_def
      intro!: same_tools_ok[OF same_other(7)] invalidate_done_ok same_tools_ok[OF same_other(2)] split: option.split)

lemma jobs_ok:
  assumes "tab_ok loc t" "tb_loaded t \<noteq> None \<or> \<not> pg_events j \<and> \<not> pg_timer j"
  shows "tab_ok loc (t\<lparr>tb_jobs := j\<rparr>)"
  using assms by (auto simp: tab_ok_def tools_ok_def out_ok_def)

lemma workspace_reply_ok:
  assumes "tab_ok loc t" "ps_authenticated (tb_session t)"
  shows "tab_ok loc (workspace_reply loc now ws t)"
  unfolding workspace_reply_def
  by (rule renderWorkspace_ok) (use assms in \<open>simp_all add: tab_ok_def tools_ok_def\<close>)

lemma socket_closed_ok:
  assumes "tab_ok loc t" "tb_socket t \<in> {None, Some n}" "n < length (tb_sockets t)"
  shows "tab_ok loc (socket_closed n wasClean closeCode t)"
proof -
  let ?t1 = "(set_socket n CLOSED t)\<lparr>tb_socket := None\<rparr>"
  have old: "live_socket t m \<Longrightarrow> m = n" for m using assms(1,2) by (auto simp: tab_ok_def sockets_ok_def)
  have "\<not> live_socket ?t1 m" for m
    using old[of m] by (cases "m = n") (auto simp: live_socket_def set_socket_def)
  moreover have "ts_url (tb_sockets ?t1 ! m) = terminal_url loc (ts_workspace (tb_sockets ?t1 ! m))" if "m < length (tb_sockets ?t1)" for m
    using that assms(1,3) by (cases "m = n") (simp_all add: set_socket_def tab_ok_def sockets_ok_def)
  ultimately have "sockets_ok loc ?t1" by (simp add: sockets_ok_def)
  moreover have "tools_ok ?t1" "out_ok ?t1" using assms(1) by (simp_all add: tab_ok_def tools_ok_def out_ok_def set_socket_def)
  ultimately have "tab_ok loc ?t1" by (simp add: tab_ok_def)
  moreover have "same_tools ?t1 ((xterm_write LostConnection ?t1)\<lparr>tb_reconnects := ws\<rparr>)" for ws
    by (rule same_trans[OF same_write same_other(8)])
  ultimately show ?thesis unfolding socket_closed_def Let_def using same_tools_ok by auto
qed

lemma socket_opened_ok:
  assumes "tab_ok loc t" "n < length (tb_sockets t)" "ts_state (tb_sockets t ! n) = CONNECTING"
  shows "tab_ok loc (socket_opened n t)"
proof -
  have "same_tools t (set_socket n OPEN t)"
    using assms(2,3) by (auto simp: same_tools_def set_socket_def intro!: map_update_same)
  then show ?thesis unfolding socket_opened_def using same_trans[OF _ same_sendResize] same_tools_ok assms(1) by blast
qed

lemma ceremony_reply_ok:
  assumes ok: "tab_ok loc t" shows "tab_ok loc (ceremony_reply rs t)"
  by (rule tab_ok_same[OF ok]) (use ok in \<open>auto simp: ceremony_reply_def tab_ok_def tools_ok_def out_ok_def split: option.split prod.split\<close>)

lemma job_page_events:
  "pg_events (applyJobStatus st p) \<Longrightarrow> pg_events p" "pg_timer (applyJobStatus st p) \<Longrightarrow> pg_timer p"
  "pg_events (fst (onerror p)) = False" "pg_timer (fst (onerror p)) = False"
  by (auto simp: applyJobStatus_def appendJobLog_def closeJobStream_def onerror_def Let_def split: if_splits)

lemma apply_event_ok:
  assumes ok: "tab_ok loc t" and en: "enabled e t" and ord: "in_order e t"
  shows "tab_ok loc (apply_event loc number now e t)"
proof (cases e)
  case (SessionReply s)
  show ?thesis unfolding SessionReply apply_event.simps loadSession_reply_def renderSession_def
    by (rule renderWorkspace_ok) (use ok ord SessionReply in \<open>auto simp: tab_ok_def tools_ok_def\<close>)
next
  case (VerifyReply w c b)
  have "tab_ok loc (t\<lparr>tb_session := (tb_session t)\<lparr>ps_authenticated := True, ps_wallet := Some w, ps_csrfToken := Some c\<rparr>\<rparr>)"
    using ok by (auto simp: tab_ok_def tools_ok_def out_ok_def)
  moreover have "same_tools x (bindAuthenticatedWallet b x)" for x
    using same_other(2)[of x "tb_wallet x"] by (simp add: bindAuthenticatedWallet_def same_tools_def Let_def)
  ultimately show ?thesis unfolding VerifyReply apply_event.simps verify_reply_def using same_tools_ok by blast
next
  case (WalletEvent b ev)
  show ?thesis using ok invalidate_ok unfolding WalletEvent apply_event.simps wallet_handler_def by (auto split: option.split)
next
  case (InvalidateReply r c)
  show ?thesis unfolding InvalidateReply apply_event.simps invalidate_reply_def
    by (rule invalidate_done_ok, rule same_tools_ok[OF same_other(7) ok])
next
  case (LogoutReply b)
  show ?thesis unfolding LogoutReply apply_event.simps logout_reply_def
  proof (rule closed_ok)
    show "sockets_ok loc (removeWalletListeners b t)" by (rule same_sockets[OF same_other(2) ok])
    show "ps_authenticated (tb_session (removeWalletListeners b t)) \<or> ps_csrfToken (tb_session (removeWalletListeners b t)) = None \<and>
      ps_wallet (tb_session (removeWalletListeners b t)) = None \<and> ps_workspace (tb_session (removeWalletListeners b t)) = None"
      using same_tools_ok[OF same_other(2) ok, of b] by (auto simp: tab_ok_def out_ok_def)
  qed
next
  case PollTimer
  show ?thesis unfolding PollTimer
    by (rule tab_ok_same[OF ok]) (use ok in \<open>auto simp: refreshWorkspace_def tab_ok_def tools_ok_def out_ok_def\<close>)
next
  case (RefreshReply r)
  have k: "tab_ok loc (t\<lparr>tb_refreshes := tb_refreshes t - 1\<rparr>)" by (rule same_tools_ok[OF same_other(6) ok])
  show ?thesis
  proof (cases r)
    case (Inl m)
    then show ?thesis unfolding RefreshReply using same_tools_ok[OF same_other(1) k] by (simp add: refresh_reply_def)
  next
    case (Inr ws)
    show ?thesis using workspace_reply_ok[OF k] ord unfolding RefreshReply Inr by (simp add: refresh_reply_def)
  qed
next
  case (VolumeReply)
  have "tab_ok loc (renderWorkspace loc now None (t\<lparr>tb_session := (tb_session t)\<lparr>ps_workspace := None\<rparr>\<rparr>))"
    by (rule renderWorkspace_ok) (use ok in \<open>auto simp: tab_ok_def tools_ok_def out_ok_def\<close>)
  then show ?thesis unfolding VolumeReply apply_event.simps volume_reply_def by (rule same_tools_ok[OF same_other(1)])
next
  case (Reconnect w)
  let ?t1 = "t\<lparr>tb_reconnects := remove1 w (tb_reconnects t)\<rparr>"
  have k: "tab_ok loc ?t1" by (rule same_tools_ok[OF same_other(8) ok])
  show ?thesis using k open_ok[OF k] unfolding Reconnect by (simp add: reconnect_def Let_def)
next
  case (JobUpdate st)
  have "tb_loaded t \<noteq> None" using ok en JobUpdate by (auto simp: tab_ok_def tools_ok_def)
  then show ?thesis using jobs_ok[OF ok] unfolding JobUpdate by simp
next
  case (JobCancelled st)
  show ?thesis unfolding JobCancelled apply_event.simps
    by (rule jobs_ok[OF ok]) (use ok job_page_events(1,2) in \<open>auto simp: tab_ok_def tools_ok_def\<close>)
next
  case JobTimer
  have "tb_loaded t \<noteq> None" using ok en JobTimer by (auto simp: tab_ok_def tools_ok_def)
  then show ?thesis using jobs_ok[OF ok] unfolding JobTimer by simp
next
  case JobBroken
  show ?thesis unfolding JobBroken apply_event.simps by (rule jobs_ok[OF ok]) (simp add: job_page_events)
next
  case (CreateReply w)
  then show ?thesis using workspace_reply_ok[OF ok] ord by simp
next
  case (LeaseTimer w)
  then show ?thesis using timers_ok(2)[OF ok] ord by simp
next
  case (GrantReply g)
  then show ?thesis using ok ord by (auto simp: grant_reply_def tab_ok_def tools_ok_def out_ok_def)
next
  case RevokeReply
  then show ?thesis using ok by (auto simp: clearConnectionGrant_def tab_ok_def tools_ok_def out_ok_def)
qed (use ok en ord same_keeps same_tools_ok expireSession_ok socket_opened_ok socket_closed_ok ceremony_reply_ok jobs_ok[OF ok] in
    \<open>simp_all\<close>, (blast intro: same_tools_ok same_other same_keeps)+)

lemma page_run_ok: "page_run loc number t \<Longrightarrow> tab_ok loc t"
proof (induction rule: page_run.induct)
  case opened
  show ?case by (simp add: new_tab_def new_page_def tab_ok_def tools_ok_def out_ok_def sockets_ok_def live_socket_def)
next
  case (event t e now)
  then show ?case by (blast intro: apply_event_ok)
qed

section \<open>Properties\<close>

definition page_idle :: "tab \<Rightarrow> bool" where
  "page_idle t \<longleftrightarrow> tb_ceremony t = None \<and> tb_connection t = None \<and> \<not> pg_events (tb_jobs t) \<and> \<not> pg_timer (tb_jobs t)
     \<and> \<not> tb_pollTimer t \<and> \<not> tb_leaseTimer t \<and> ps_csrfToken (tb_session t) = None"

definition sample_location :: location where "sample_location = \<lparr>lo_protocol = ''https:'', lo_host = ''b''\<rparr>"

definition sample_workspace :: "string \<Rightarrow> ws_state \<Rightarrow> public_workspace" where
  "sample_workspace wid st =
     \<lparr>pw_id = wid, pw_state = st, pw_createdAt = 0, pw_leaseExpiresAt = 900, pw_mode = Disposable, pw_quotaBytes = 1,
      pw_retainedAfterStop = False, pw_queuePosition = None, pw_failure = None\<rparr>"

definition sample_session :: "public_workspace option \<Rightarrow> page_session" where
  "sample_session ws =
     \<lparr>ps_authenticated = True, ps_wallet = Some ''0x1'', ps_csrfToken = Some ''c'', ps_devAuth = False, ps_turnstileSiteKey = None,
      ps_workspace = ws, ps_capabilities = [(''terminal'', Available, [])]\<rparr>"

definition sample_grant :: page_grant where "sample_grant = \<lparr>pg_leaseId = ''l'', pg_accessToken = ''t''\<rparr>"

text \<open>A sequence of events at time 0, and whether the browser delivers each of them.\<close>

definition after :: "tab_event list \<Rightarrow> tab" where
  "after evs = foldl (\<lambda>t e. apply_event sample_location (\<lambda>_. None) 0 e t) new_tab evs"

fun delivered :: "tab_event list \<Rightarrow> tab \<Rightarrow> bool" where
  "delivered [] t \<longleftrightarrow> True"
| "delivered (e # es) t \<longleftrightarrow> enabled e t \<and> delivered es (apply_event sample_location (\<lambda>_. None) 0 e t)"

fun ordered :: "tab_event list \<Rightarrow> tab \<Rightarrow> bool" where
  "ordered [] t \<longleftrightarrow> True"
| "ordered (e # es) t \<longleftrightarrow> in_order e t \<and> ordered es (apply_event sample_location (\<lambda>_. None) 0 e t)"

lemma page_run_foldl:
  "page_run sample_location (\<lambda>_. None) t \<Longrightarrow> delivered evs t \<Longrightarrow> ordered evs t
     \<Longrightarrow> page_run sample_location (\<lambda>_. None) (foldl (\<lambda>t e. apply_event sample_location (\<lambda>_. None) 0 e t) t evs)"
  by (induction evs arbitrary: t) (auto intro: page_run.event)



section \<open>Where the order matters\<close>

text \<open>The close listener of every terminal socket sets the variable \<open>socket\<close> to undefined. When the close event of the
  socket of a stopped workspace comes after the terminal of the next workspace was opened, the page forgets the new
  socket: the next refresh opens another terminal beside it, and signing out closes only the second.
\<close>
lemma stale_close_second_terminal:
  "let evs = [SessionReply (sample_session (Some (sample_workspace ''v'' Workspaces.Running))), SocketOpened 0,
        PollTimer, RefreshReply (Inr (Some (sample_workspace ''v'' Workspaces.Stopped))),
        CreateReply (sample_workspace ''w'' Workspaces.Running), SocketOpened 1, SocketClosed 0 True 1000,
        PollTimer, RefreshReply (Inr (Some (sample_workspace ''w'' Workspaces.Running))), SocketOpened 2, Unauthorized]
   in delivered evs new_tab \<and> \<not> ps_authenticated (tb_session (after evs)) \<and> live_socket (after evs) 1 \<and> \<not> live_socket (after evs) 2"
  by code_simp

text \<open>The reply of a refresh is not checked against the session it was asked for: after a sign-out it opens the tools and
  the terminal of the workspace again.
\<close>
lemma late_refresh_reopens:
  "let w = sample_workspace ''w'' Workspaces.Running;
       evs = [SessionReply (sample_session (Some w)), PollTimer, LogoutReply None,
              SessionReply (session_route None (\<lambda>_. None) [(''terminal'', Available, [])] False None), RefreshReply (Inr (Some w))]
   in delivered evs new_tab \<and> \<not> ps_authenticated (tb_session (after evs)) \<and> live_socket (after evs) 1 \<and> tb_ceremony (after evs) \<noteq> None"
  by code_simp

text \<open>A refresh that fails, for whatever reason, is the last one: nothing sets the timer again, and a queued workspace that
  becomes ready is never shown, although the page says it will connect as soon as a machine is free.
\<close>
lemma failed_refresh_ends_polling:
  "\<not> tb_pollTimer (refresh_reply loc now (Inl e) (refreshWorkspace t))
   \<and> (\<forall>w. \<not> tb_pollTimer (updateLease now' w (refresh_reply loc now (Inl e) (refreshWorkspace t))))"
  by (simp add: refresh_reply_def refreshWorkspace_def setMessage_def updateLease_def)

text \<open>Reconnecting makes a new terminal without disposing the old one, which nothing disposes later.\<close>

lemma reconnect_leaks_terminal:
  "let w = sample_workspace ''w'' Workspaces.Running;
       evs = [SessionReply (sample_session (Some w)), SocketOpened 0, SocketClosed 0 False 1006, Reconnect w, Unauthorized]
   in delivered evs new_tab \<and> ordered evs new_tab \<and> \<not> xt_disposed (tb_terminals (after evs) ! 0)"
  by code_simp

lemma closed_banners: "tb_banners (closeWorkspaceResources t) = tb_banners t"
  by (simp add: closeWorkspaceResources_def closeTerminal_def closeCeremonyPoll_def clearConnectionGrant_def Let_def)

text \<open>The banners of pending approvals outlive the session: the next wallet to sign in on the page finds those of the last.\<close>

lemma banners_survive_sign_out: "tb_banners (expireSession loc now t) = tb_banners t"
  by (simp add: expireSession_def setMessage_def renderSession_def renderWorkspace_def closed_banners removeWalletListeners_def Let_def
      split: option.split)

section \<open>Pending approvals\<close>

text \<open>Along the replies of one poll, a request is shown once while it stays pending.\<close>

fun ceremony_turns :: "string list \<Rightarrow> ceremony_request list list \<Rightarrow> ceremony_request list" where
  "ceremony_turns seen [] = []"
| "ceremony_turns seen (rs # rss) = (let (shown, seen') = ceremony_turn seen rs in shown @ ceremony_turns seen' rss)"

lemma new_requests_seen: "set (snd (new_requests seen rs)) = set seen \<union> cq_id ` set rs"
  by (induction seen rs rule: new_requests.induct) (auto split: prod.splits)

lemma new_requests_shown:
  "distinct (map cq_id (fst (new_requests seen rs))) \<and> cq_id ` set (fst (new_requests seen rs)) = cq_id ` set rs - set seen"
proof (induction seen rs rule: new_requests.induct)
  case (2 seen r rs)
  obtain xs seen' where n: "new_requests (seen @ [cq_id r]) rs = (xs, seen')" by (cases "new_requests (seen @ [cq_id r]) rs")
  show ?case using 2 n by (cases "cq_id r \<in> set seen") auto
qed simp

lemma ceremony_turn_seen: "cq_id ` set rs \<subseteq> set (snd (ceremony_turn seen rs))"
  using new_requests_seen[of seen rs] by (auto simp: ceremony_turn_def split: prod.split)

lemma ceremony_turn_shown:
  "distinct (map cq_id (fst (ceremony_turn seen rs)))" "cq_id ` set (fst (ceremony_turn seen rs)) = cq_id ` set rs - set seen"
  using new_requests_shown[of seen rs] by (cases "new_requests seen rs"; simp add: ceremony_turn_def)+

lemma ceremony_quiet:
  "(\<forall>rs \<in> set rss. i \<in> cq_id ` set rs) \<Longrightarrow> i \<in> set seen \<Longrightarrow> i \<notin> cq_id ` set (ceremony_turns seen rss)"
proof (induction rss arbitrary: seen)
  case (Cons rs rss)
  obtain shown seen' where c: "ceremony_turn seen rs = (shown, seen')" by (cases "ceremony_turn seen rs")
  have "i \<in> set seen'" using ceremony_turn_seen[of rs seen] c Cons.prems(1) by auto
  then have "i \<notin> cq_id ` set (ceremony_turns seen' rss)" using Cons by simp
  moreover have "i \<notin> cq_id ` set shown" using ceremony_turn_shown(2)[of seen rs] c Cons.prems(2) by simp
  ultimately show ?case using c by auto
qed simp

lemma count_distinct: "distinct xs \<Longrightarrow> length (filter (\<lambda>x. x = a) xs) = (if a \<in> set xs then 1 else 0)"
  by (induction xs) auto

text \<open>A request that every reply of the poll still lists is shown exactly once, with the first reply, however often it is
  listed and whatever else comes and goes.
\<close>
lemma pending_request_shown_once:
  assumes "\<forall>rs \<in> set (rs0 # rss). i \<in> cq_id ` set rs" "i \<notin> set seen"
  shows "length (filter (\<lambda>r. cq_id r = i) (ceremony_turns seen (rs0 # rss))) = 1"
proof -
  obtain shown seen' where c: "ceremony_turn seen rs0 = (shown, seen')" by (cases "ceremony_turn seen rs0")
  have "i \<in> set seen'" using ceremony_turn_seen[of rs0 seen] c assms(1) by auto
  then have "i \<notin> cq_id ` set (ceremony_turns seen' rss)" using ceremony_quiet[of rss i seen'] assms(1) by simp
  then have "filter (\<lambda>r. cq_id r = i) (ceremony_turns seen' rss) = []" by (auto simp: filter_empty_conv)
  moreover have "i \<in> set (map cq_id shown)" using ceremony_turn_shown(2)[of seen rs0] c assms by auto
  moreover have "length (filter (\<lambda>r. cq_id r = i) shown) = length (filter (\<lambda>x. x = i) (map cq_id shown))"
    by (simp add: filter_map comp_def)
  moreover have "distinct (map cq_id shown)" using ceremony_turn_shown(1)[of seen rs0] c by simp
  ultimately show ?thesis using c count_distinct[of "map cq_id shown" i] by simp
qed

section \<open>Signing in\<close>

text \<open>
  \<open>authenticate\<close> with the replies to its three calls: verify, the session, and the logout of a failed confirmation. The
  signature is the wallet's. A failed reply has a message and a status. \<open>is_address\<close> and \<open>get_address\<close> are parameters.
\<close>

definition confirm_failed :: "location \<Rightarrow> int \<Rightarrow> bool \<Rightarrow> string \<Rightarrow> tab \<Rightarrow> string option \<times> tab" where
  "confirm_failed loc now confirmed e t =
     (let reason = ''Wallet login could not be confirmed. Sign in again to continue.'';
          t1 = invalidateWalletSession loc now reason t
      in (Some e, if tb_wallet t \<noteq> None \<and> ps_authenticated (tb_session t) then invalidate_reply loc now reason confirmed t1 else t1))"

definition authenticate ::
  "location \<Rightarrow> int \<Rightarrow> (string \<Rightarrow> bool) \<Rightarrow> (string \<Rightarrow> string) \<Rightarrow> (string \<times> nat, string \<times> string) res \<Rightarrow> (string \<times> nat, page_session) res \<Rightarrow> bool
     \<Rightarrow> nat \<Rightarrow> bool \<Rightarrow> wallet_kind \<Rightarrow> int \<Rightarrow> string \<Rightarrow> tab \<Rightarrow> string option \<times> tab" where
  "authenticate loc now is_address get_address verify sess confirmed provider removable kind chainId address t =
     (if \<not> is_address address then (Some ''The wallet returned an invalid Ethereum account.'', t)
      else let normalizedAddress = get_address address
      in case verify of
           Inl (e, _) \<Rightarrow> (Some e, t)
         | Inr (wallet, csrf) \<Rightarrow>
             let t1 = verify_reply wallet csrf
                        \<lparr>wb_provider = provider, wb_removable = removable, wb_kind = kind, wb_address = normalizedAddress, wb_chainId = chainId\<rparr> t
             in case sess of
                  Inl (e, st) \<Rightarrow> confirm_failed loc now confirmed e (if st = 401 then expireSession loc now t1 else t1)
                | Inr s \<Rightarrow>
                    let t2 = loadSession_reply loc now s t1
                    in if \<not> ps_authenticated (tb_session t2)
                          \<or> map_option to_lower (ps_wallet (tb_session t2)) \<noteq> Some (to_lower normalizedAddress)
                       then confirm_failed loc now confirmed ''The authenticated wallet did not match the selected account.'' t2
                       else (None, setMessage ''Signed in. Your wallet keys remain on your device.'' t2))"

lemma render_session [simp]: "tb_session (renderWorkspace loc now ws t) = tb_session t"
  by (simp add: renderWorkspace_def renderRunning_def updateLease_def setMessage_def startCeremonyPoll_def closeCeremonyPoll_def
      resetWorkspaceTools_def clearConnectionGrant_def openTerminal_def Let_def split: option.split)

lemma tb_wallet_closed [simp]: "tb_wallet (closeWorkspaceResources t) = tb_wallet t"
  by (simp add: closeWorkspaceResources_def closeTerminal_def closeCeremonyPoll_def clearConnectionGrant_def Let_def)

lemma render_wallet [simp]: "tb_wallet (renderWorkspace loc now ws t) = tb_wallet t"
  by (simp add: renderWorkspace_def renderRunning_def updateLease_def setMessage_def startCeremonyPoll_def closeCeremonyPoll_def
      resetWorkspaceTools_def clearConnectionGrant_def openTerminal_def Let_def split: option.split)

lemma expire_out [simp]: "ps_authenticated (tb_session (expireSession loc now t)) = False"
  by (simp add: expireSession_def renderSession_def setMessage_def Let_def)

lemma expire_wallet [simp]: "tb_wallet (expireSession loc now t) = None"
  by (simp add: expireSession_def renderSession_def setMessage_def removeWalletListeners_def Let_def split: option.split)

lemma invalidate_done_out [simp]: "ps_authenticated (tb_session (invalidate_done loc now reason confirmed t)) = False"
  by (simp add: invalidate_done_def renderSession_def setMessage_def Let_def)

lemma removed_session [simp]: "tb_session (removeWalletListeners b t) = tb_session t"
  by (simp add: removeWalletListeners_def split: option.split)

lemma confirm_failed_out:
  assumes "tb_wallet t \<noteq> None \<or> \<not> ps_authenticated (tb_session t)"
  shows "fst (confirm_failed loc now confirmed e t) = Some e \<and> \<not> ps_authenticated (tb_session (snd (confirm_failed loc now confirmed e t)))"
  using assms by (auto simp: confirm_failed_def invalidate_reply_def invalidateWalletSession_def Let_def split: option.split)

lemma verify_wallet [simp]: "tb_wallet (verify_reply w c b t) = Some b"
  by (simp add: verify_reply_def bindAuthenticatedWallet_def Let_def)

lemma load_sels [simp]:
  "tb_session (loadSession_reply loc now s t) = s" "tb_wallet (loadSession_reply loc now s t) = tb_wallet t"
  by (simp_all add: loadSession_reply_def renderSession_def)

text \<open>Signing in with a wallet: either the call fails before the server signed anything in and the page is as it was, or the
  page ends signed out with a message, or it ends signed in, as the account the user selected (up to case), with exactly
  the handlers of that account and chain bound.
\<close>
lemma authenticate_bound:
  assumes "authenticate loc now is_address get_address verify sess confirmed provider removable kind chainId address t = (e, t')"
  shows "(e \<noteq> None \<and> t' = t) \<or> (e \<noteq> None \<and> \<not> ps_authenticated (tb_session t'))
    \<or> (e = None \<and> is_address address \<and> ps_authenticated (tb_session t')
        \<and> map_option to_lower (ps_wallet (tb_session t')) = Some (to_lower (get_address address))
        \<and> (\<exists>b. tb_wallet t' = Some b \<and> wb_address b = get_address address \<and> wb_chainId b = chainId))"
proof (cases "is_address address")
  case False
  then show ?thesis using assms by (auto simp: authenticate_def)
next
  case True
  show ?thesis
  proof (cases verify)
    case (Inl x)
    then show ?thesis using assms True by (auto simp: authenticate_def Let_def split: prod.splits)
  next
    case (Inr wc)
    define b where "b = \<lparr>wb_provider = provider, wb_removable = removable, wb_kind = kind, wb_address = get_address address, wb_chainId = chainId\<rparr>"
    define t1 where "t1 = verify_reply (fst wc) (snd wc) b t"
    have w: "tb_wallet t1 = Some b" by (simp add: t1_def)
    show ?thesis
    proof (cases sess)
      case (Inl x)
      define t2 where "t2 = (if snd x = 401 then expireSession loc now t1 else t1)"
      have "confirm_failed loc now confirmed (fst x) t2 = (e, t')"
        using assms True \<open>verify = Inr wc\<close> Inl by (cases wc; cases x) (simp add: authenticate_def Let_def b_def t1_def t2_def split: if_splits)
      moreover have "tb_wallet t2 \<noteq> None \<or> \<not> ps_authenticated (tb_session t2)" using w by (simp add: t2_def)
      ultimately show ?thesis using confirm_failed_out[of t2 loc now confirmed "fst x"] by (metis fst_conv snd_conv option.distinct(1))
    next
      case (Inr s)
      define t2 where "t2 = loadSession_reply loc now s t1"
      have s: "tb_session t2 = s" "tb_wallet t2 = Some b" using w by (simp_all add: t2_def)
      show ?thesis
      proof (cases "\<not> ps_authenticated s \<or> map_option to_lower (ps_wallet s) \<noteq> Some (to_lower (get_address address))")
        case True
        then have "confirm_failed loc now confirmed ''The authenticated wallet did not match the selected account.'' t2 = (e, t')"
          using assms \<open>is_address address\<close> \<open>verify = Inr wc\<close> Inr s(1)
          by (cases wc) (simp add: authenticate_def Let_def b_def t1_def t2_def)
        moreover have "tb_wallet t2 \<noteq> None" using s by simp
        ultimately show ?thesis
          using confirm_failed_out[of t2 loc now confirmed "''The authenticated wallet did not match the selected account.''"]
          by (metis fst_conv snd_conv option.distinct(1))
      next
        case False
        have f: "ps_authenticated s" "map_option to_lower (ps_wallet s) = Some (to_lower (get_address address))" using False by blast+
        have "authenticate loc now is_address get_address verify sess confirmed provider removable kind chainId address t
            = (None, setMessage ''Signed in. Your wallet keys remain on your device.'' t2)"
          unfolding authenticate_def \<open>verify = Inr wc\<close> Inr using \<open>is_address address\<close>
          by (cases wc) (simp only: Let_def sum.case prod.case f load_sels if_True if_False not_True_eq_False simp_thms b_def t1_def t2_def fst_conv snd_conv)
        then have "e = None" "t' = setMessage ''Signed in. Your wallet keys remain on your device.'' t2"
          using assms by (simp_all only: prod.inject)
        from this(2) have t': "tb_session t' = s" "tb_wallet t' = Some b" using s by (simp_all add: setMessage_def)
        have "\<exists>b. tb_wallet t' = Some b \<and> wb_address b = get_address address \<and> wb_chainId b = chainId"
          unfolding t'(2) by (rule exI[of _ b]) (simp add: b_def)
        then show ?thesis using False \<open>is_address address\<close> \<open>e = None\<close> unfolding t'(1) by blast
      qed
    qed
  qed
qed

text \<open>While the bound wallet stays on the account and the chain of the sign-in nothing happens; any other account or chain,
  or a disconnection, ends the session once the reply to the logout is there, whether or not it succeeded.
\<close>
lemma wallet_change_signs_out:
  assumes "tb_wallet t = Some b" "ps_authenticated (tb_session t)"
  shows "wallet_changed number b ev = None \<and> wallet_handler loc now number b ev t = t
    \<or> (\<exists>reason. wallet_changed number b ev = Some reason \<and> tb_wallet (wallet_handler loc now number b ev t) = None
        \<and> 0 < tb_invalidating (wallet_handler loc now number b ev t)
        \<and> \<not> ps_authenticated (tb_session (invalidate_reply loc now reason confirmed (wallet_handler loc now number b ev t))))"
  using assms
  by (cases "wallet_changed number b ev")
     (simp_all add: wallet_handler_def invalidateWalletSession_def removeWalletListeners_def invalidate_reply_def Let_def)

end
