(* ===== verification/ControlRoutes.thy ===== *)
theory ControlRoutes
  imports WebClient
begin

text \<open>
  The requests of the page (\<open>web/main.ts\<close>: every call of \<open>api\<close> and \<open>apiBinary\<close>, the event stream), the routes of
  \<open>src/control/server.ts\<close> with the origin check and the session guard in front of them, and the way of an operation on a
  workspace through the service to the node agent: \<open>control_serve\<close> composes \<open>control_dispatch\<close>, \<open>Workspaces.service_call\<close>,
  \<open>AgentClient.agent_request\<close> and \<open>AgentClient.agent_dispatch\<close>. Bodies are of a type \<open>'b\<close>; their schemas are the parameter
  \<open>accepts\<close> (\<open>Jobs.StructuredJobSpec\<close>, \<open>AgentServer.SshLeaseBody\<close>, and \<open>CreateWorkspace\<close> here). The JSON limit of 64 KiB
  and the limit of 8 MiB of an upload are those of Express and are not modelled.
\<close>

section \<open>Operations\<close>

text \<open>An operation on a running workspace is the one of the node agent that it becomes.\<close>

datatype 'b control_op =
    HealthzRoute
  | MetricszRoute
  | SessionRoute
  | ChallengeRoute
  | VerifyRoute 'b
  | DevRoute
  | LogoutRoute
  | CreateRoute 'b
  | CurrentRoute
  | StopCurrentRoute
  | DestroyRoute
  | EventsRoute string string nat
  | WorkspaceRoute "'b agent_op"
  | HelperRoute
  | PageRoute

section \<open>The requests of the page\<close>

definition page_path :: "string \<Rightarrow> string \<Rightarrow> string" where
  "page_path wid rest = ''/api/workspaces/'' @ encodeURIComponent wid @ rest"

definition files_path :: "string \<Rightarrow> string \<Rightarrow> string \<Rightarrow> string" where
  "files_path wid what path = page_path wid (''/files'' @ what @ ''?path='' @ encodeURIComponent path)"

definition job_path :: "string \<Rightarrow> string \<Rightarrow> string \<Rightarrow> string" where
  "job_path wid jobId rest = page_path wid (''/jobs'' @ ''/'' @ encodeURIComponent jobId @ rest)"

text \<open>\<open>loadFiles\<close> lists the directory \<open>.\<close>, \<open>fallbackJobPolling\<close> asks for at most 256 KiB; what the page never asks has no URL.\<close>

fun page_agent_url :: "'b agent_op \<Rightarrow> (string \<times> string) option" where
  "page_agent_url (ListFilesOp wid path) = Some (''GET'', files_path wid [] path)"
| "page_agent_url (ReadFileOp wid path) = Some (''GET'', files_path wid ''/content'' path)"
| "page_agent_url (WriteFileOp wid path contents) = Some (''PUT'', files_path wid [] path)"
| "page_agent_url (DeleteFileOp wid path) = Some (''DELETE'', files_path wid [] path)"
| "page_agent_url (StartJobOp wid b) = Some (''POST'', page_path wid ''/jobs'')"
| "page_agent_url (JobStatusOp wid jobId offset maxBytes) =
     (if maxBytes = max_log_read
      then Some (''GET'', job_path wid jobId (''?offset='' @ nat_to_dec offset @ ''&maxBytes='' @ nat_to_dec (256 * 1024))) else None)"
| "page_agent_url (CancelJobOp wid jobId) = Some (''DELETE'', job_path wid jobId [])"
| "page_agent_url (BloomStatusOp wid) = Some (''GET'', page_path wid ''/bloom'')"
| "page_agent_url (CeremonyPendingOp wid) = Some (''GET'', page_path wid ''/ceremony'')"
| "page_agent_url (CeremonyApproveOp wid txId b) = Some (''POST'', page_path wid (''/ceremony/'' @ encodeURIComponent txId @ ''/approve''))"
| "page_agent_url (ConnectionsOp wid) = Some (''GET'', page_path wid ''/connections'')"
| "page_agent_url (IssueSshOp wid b) = Some (''POST'', page_path wid ''/connections/ssh'')"
| "page_agent_url (RevokeSshOp wid leaseId) = Some (''DELETE'', page_path wid (''/connections/ssh/'' @ encodeURIComponent leaseId))"
| "page_agent_url _ = None"

fun page_url :: "'b control_op \<Rightarrow> (string \<times> string) option" where
  "page_url SessionRoute = Some (''GET'', ''/api/session'')"
| "page_url ChallengeRoute = Some (''GET'', ''/api/auth/challenge'')"
| "page_url (VerifyRoute b) = Some (''POST'', ''/api/auth/verify'')"
| "page_url DevRoute = Some (''POST'', ''/api/auth/dev'')"
| "page_url LogoutRoute = Some (''POST'', ''/api/auth/logout'')"
| "page_url (CreateRoute b) = Some (''POST'', ''/api/workspaces'')"
| "page_url CurrentRoute = Some (''GET'', ''/api/workspaces/current'')"
| "page_url StopCurrentRoute = Some (''DELETE'', ''/api/workspaces/current'')"
| "page_url DestroyRoute = Some (''DELETE'', ''/api/workspace-volume'')"
| "page_url (EventsRoute wid jobId offset) = Some (''GET'', job_path wid jobId (''/events?offset='' @ nat_to_dec offset))"
| "page_url (WorkspaceRoute op) = page_agent_url op"
| "page_url _ = None"

text \<open>The body; \<open>braces\<close> is the JSON text \<open>{}\<close> that several calls carry.\<close>

fun page_body :: "'b \<Rightarrow> 'b control_op \<Rightarrow> 'b http_body" where
  "page_body braces (VerifyRoute b) = JsonBody b"
| "page_body braces DevRoute = JsonBody braces"
| "page_body braces LogoutRoute = JsonBody braces"
| "page_body braces (CreateRoute b) = JsonBody b"
| "page_body braces StopCurrentRoute = JsonBody braces"
| "page_body braces DestroyRoute = JsonBody braces"
| "page_body braces (WorkspaceRoute (WriteFileOp wid path contents)) = BinaryBody contents"
| "page_body braces (WorkspaceRoute (DeleteFileOp wid path)) = JsonBody braces"
| "page_body braces (WorkspaceRoute (StartJobOp wid b)) = JsonBody b"
| "page_body braces (WorkspaceRoute (CancelJobOp wid jobId)) = JsonBody braces"
| "page_body braces (WorkspaceRoute (CeremonyApproveOp wid txId b)) = JsonBody b"
| "page_body braces (WorkspaceRoute (IssueSshOp wid b)) = JsonBody b"
| "page_body braces _ = NoBody"

definition page_request :: "'b \<Rightarrow> 'b control_op \<Rightarrow> 'b http_request option" where
  "page_request braces op =
     map_option (\<lambda>(verb, url). \<lparr>hr_method = verb, hr_url = url, hr_body = page_body braces op\<rparr>) (page_url op)"

text \<open>The header \<open>x-csrf-token\<close> of \<open>api\<close> and \<open>apiBinary\<close>; \<open>init.method\<close> is absent where the verb is GET.\<close>

definition csrf_header :: "page_session \<Rightarrow> string \<Rightarrow> string option" where
  "csrf_header s verb =
     (case ps_csrfToken s of
        Some (c # cs) \<Rightarrow> if verb \<noteq> ''GET'' then Some (c # cs) else None
      | _ \<Rightarrow> None)"

text \<open>What the server reads of it besides; origin, cookie and address are the browser's and the proxy's.\<close>

definition page_headers :: "page_session \<Rightarrow> string option \<Rightarrow> string option \<Rightarrow> string option \<Rightarrow> string \<Rightarrow> api_request" where
  "page_headers s ip origin cookie verb =
     \<lparr>rq_method = verb, rq_ip = ip, rq_origin = origin, rq_cookie = cookie, rq_csrf = csrf_header s verb\<rparr>"

text \<open>\<open>api\<close> after its response: \<open>error\<close> is the field of the body when it is a string, \<open>number\<close> the status in the message.
  \<open>expires\<close> is whether \<open>expireSession\<close> is called first. \<open>apiBinary\<close> is the same for its two paths.\<close>

definition api_failure :: "(nat \<Rightarrow> string) \<Rightarrow> nat \<Rightarrow> string option \<Rightarrow> string \<times> nat" where
  "api_failure number status error =
     (case error of Some e \<Rightarrow> e | None \<Rightarrow> ''Request failed ('' @ number status @ '')'', status)"

definition api_reply :: "(nat \<Rightarrow> string) \<Rightarrow> string \<Rightarrow> nat \<Rightarrow> string option \<Rightarrow> 'j option \<Rightarrow> bool \<times> (string \<times> nat, 'j option) res" where
  "api_reply number path status error body =
     (if 200 \<le> status \<and> status < 300 then (False, Inr (if status = 204 then None else body))
      else (status = 401 \<and> \<not> starts_with path ''/api/auth/'', Inl (api_failure number status (if status = 204 then None else error))))"

section \<open>The routes of the control server\<close>

text \<open>\<open>String(request.query.path ?? "")\<close>: several values are an array, which is joined by commas.\<close>

definition query_values :: "(string \<Rightarrow> string) \<Rightarrow> string \<Rightarrow> string \<Rightarrow> string list" where
  "query_values fallback query key =
     map snd (filter (\<lambda>kv. fst kv = key) (map (query_pair fallback) (filter (\<lambda>s. s \<noteq> []) (split_on (CHR ''&'') query))))"

definition ControlFilePath :: "nat \<Rightarrow> string list \<Rightarrow> (nat, string) res" where
  "ControlFilePath minimum values =
     (let path = join_with (CHR '','') values in if minimum \<le> length path \<and> length path \<le> 4096 then Inr path else Inl 400)"

datatype schema = VerifySchema | CreateSchema | JobSchema | ApproveSchema | SshSchema

definition body_route :: "(schema \<Rightarrow> 'b \<Rightarrow> bool) \<Rightarrow> schema \<Rightarrow> ('b \<Rightarrow> 'b control_op) \<Rightarrow> 'b http_body \<Rightarrow> (nat, 'b control_op) res" where
  "body_route accepts schema mk body = (case body of JsonBody b \<Rightarrow> if accepts schema b then Inr (mk b) else Inl 400 | _ \<Rightarrow> Inl 400)"

definition list_route :: "string \<Rightarrow> string list \<Rightarrow> (nat, 'b control_op) res" where
  "list_route wid values = rbind (ControlFilePath 0 values) (\<lambda>path. Inr (WorkspaceRoute (ListFilesOp wid path)))"

definition read_route :: "string \<Rightarrow> string list \<Rightarrow> (nat, 'b control_op) res" where
  "read_route wid values = rbind (ControlFilePath 1 values) (\<lambda>path. Inr (WorkspaceRoute (ReadFileOp wid path)))"

definition write_route :: "string \<Rightarrow> string list \<Rightarrow> 'b http_body \<Rightarrow> (nat, 'b control_op) res" where
  "write_route wid values body =
     rbind (ControlFilePath 1 values) (\<lambda>path.
       case body of BinaryBody contents \<Rightarrow> Inr (WorkspaceRoute (WriteFileOp wid path contents)) | _ \<Rightarrow> Inl 400)"

definition delete_route :: "string \<Rightarrow> string list \<Rightarrow> (nat, 'b control_op) res" where
  "delete_route wid values = rbind (ControlFilePath 1 values) (\<lambda>path. Inr (WorkspaceRoute (DeleteFileOp wid path)))"

definition status_route ::
  "(string \<Rightarrow> int option) \<Rightarrow> (string \<Rightarrow> bool) \<Rightarrow> string \<Rightarrow> string \<Rightarrow> query_value \<Rightarrow> query_value \<Rightarrow> (nat, 'b control_op) res" where
  "status_route number is_uuid wid jobId offset maxBytes =
     rbind (JobStatusQuery number offset maxBytes) (\<lambda>(o', m).
       if is_uuid jobId then Inr (WorkspaceRoute (JobStatusOp wid jobId o' m)) else Inl 400)"

definition cancel_route :: "(string \<Rightarrow> bool) \<Rightarrow> string \<Rightarrow> string \<Rightarrow> (nat, 'b control_op) res" where
  "cancel_route is_uuid wid jobId = (if is_uuid jobId then Inr (WorkspaceRoute (CancelJobOp wid jobId)) else Inl 400)"

definition events_route :: "(string \<Rightarrow> int option) \<Rightarrow> (string \<Rightarrow> bool) \<Rightarrow> string \<Rightarrow> string \<Rightarrow> query_value \<Rightarrow> (nat, 'b control_op) res" where
  "events_route number is_uuid wid jobId offset =
     (if is_uuid jobId then rbind (coerce_between number 0 max_cursor 0 offset) (\<lambda>o'. Inr (EventsRoute wid jobId o')) else Inl 400)"

definition revoke_route :: "(string \<Rightarrow> bool) \<Rightarrow> string \<Rightarrow> string \<Rightarrow> (nat, 'b control_op) res" where
  "revoke_route is_uuid wid leaseId = (if is_uuid leaseId then Inr (WorkspaceRoute (RevokeSshOp wid leaseId)) else Inl 400)"

abbreviation ApiW :: "pattern list" where "ApiW \<equiv> [Lit ''api'', Lit ''workspaces'', Param]"

text \<open>The table in the order of the file: verb, path, whether \<open>requireSession\<close> stands before the handler, the handler. The
  second handler argument is the query as the agent's routes read it.\<close>

definition control_routes ::
  "(string \<Rightarrow> int option) \<Rightarrow> (string \<Rightarrow> bool) \<Rightarrow> (schema \<Rightarrow> 'b \<Rightarrow> bool) \<Rightarrow> (string \<Rightarrow> string list) \<Rightarrow> (string \<Rightarrow> query_value) \<Rightarrow> 'b http_body
     \<Rightarrow> (string \<times> pattern list \<times> bool \<times> (string list \<Rightarrow> (nat, 'b control_op) res)) list" where
  "control_routes number is_uuid accepts values query body =
     [(''GET'', [Lit ''healthz''], False, \<lambda>_. Inr HealthzRoute),
      (''GET'', [Lit ''metricsz''], False, \<lambda>_. Inr MetricszRoute),
      (''GET'', [Lit ''api'', Lit ''session''], False, \<lambda>_. Inr SessionRoute),
      (''GET'', [Lit ''api'', Lit ''auth'', Lit ''challenge''], False, \<lambda>_. Inr ChallengeRoute),
      (''POST'', [Lit ''api'', Lit ''auth'', Lit ''verify''], False, \<lambda>_. body_route accepts VerifySchema VerifyRoute body),
      (''POST'', [Lit ''api'', Lit ''auth'', Lit ''dev''], False, \<lambda>_. Inr DevRoute),
      (''POST'', [Lit ''api'', Lit ''auth'', Lit ''logout''], True, \<lambda>_. Inr LogoutRoute),
      (''POST'', [Lit ''api'', Lit ''workspaces''], True, \<lambda>_. body_route accepts CreateSchema CreateRoute body),
      (''GET'', [Lit ''api'', Lit ''workspaces'', Lit ''current''], True, \<lambda>_. Inr CurrentRoute),
      (''DELETE'', [Lit ''api'', Lit ''workspaces'', Lit ''current''], True, \<lambda>_. Inr StopCurrentRoute),
      (''GET'', ApiW @ [Lit ''files''], True, \<lambda>ps. list_route (ps ! 0) (values ''path'')),
      (''GET'', ApiW @ [Lit ''files'', Lit ''content''], True, \<lambda>ps. read_route (ps ! 0) (values ''path'')),
      (''PUT'', ApiW @ [Lit ''files''], True, \<lambda>ps. write_route (ps ! 0) (values ''path'') body),
      (''DELETE'', ApiW @ [Lit ''files''], True, \<lambda>ps. delete_route (ps ! 0) (values ''path'')),
      (''DELETE'', [Lit ''api'', Lit ''workspace-volume''], True, \<lambda>_. Inr DestroyRoute),
      (''POST'', ApiW @ [Lit ''jobs''], True, \<lambda>ps. body_route accepts JobSchema (\<lambda>b. WorkspaceRoute (StartJobOp (ps ! 0) b)) body),
      (''GET'', ApiW @ [Lit ''jobs'', Param], True,
         \<lambda>ps. status_route number is_uuid (ps ! 0) (ps ! 1) (query ''offset'') (query ''maxBytes'')),
      (''DELETE'', ApiW @ [Lit ''jobs'', Param], True, \<lambda>ps. cancel_route is_uuid (ps ! 0) (ps ! 1)),
      (''GET'', ApiW @ [Lit ''jobs'', Param, Lit ''events''], True, \<lambda>ps. events_route number is_uuid (ps ! 0) (ps ! 1) (query ''offset'')),
      (''GET'', ApiW @ [Lit ''bloom''], True, \<lambda>ps. Inr (WorkspaceRoute (BloomStatusOp (ps ! 0)))),
      (''GET'', ApiW @ [Lit ''ceremony''], True, \<lambda>ps. Inr (WorkspaceRoute (CeremonyPendingOp (ps ! 0)))),
      (''POST'', ApiW @ [Lit ''ceremony'', Param, Lit ''approve''], True,
         \<lambda>ps. body_route accepts ApproveSchema (\<lambda>b. WorkspaceRoute (CeremonyApproveOp (ps ! 0) (ps ! 1) b)) body),
      (''GET'', ApiW @ [Lit ''connections''], True, \<lambda>ps. Inr (WorkspaceRoute (ConnectionsOp (ps ! 0)))),
      (''POST'', ApiW @ [Lit ''connections'', Lit ''ssh''], True,
         \<lambda>ps. body_route accepts SshSchema (\<lambda>b. WorkspaceRoute (IssueSshOp (ps ! 0) b)) body),
      (''DELETE'', ApiW @ [Lit ''connections'', Lit ''ssh'', Param], True, \<lambda>ps. revoke_route is_uuid (ps ! 0) (ps ! 1)),
      (''GET'', [Lit ''downloads'', Lit ''bloom-ssh-proxy.mjs''], False, \<lambda>_. Inr HelperRoute)]"

text \<open>The first route that matches; a parameter that does not decode is answered 400.\<close>

fun find_route :: "string \<Rightarrow> string list \<Rightarrow> (string \<times> pattern list \<times> bool \<times> (string list \<Rightarrow> 'h)) list \<Rightarrow> (nat, bool \<times> 'h) res option" where
  "find_route verb ss [] = None"
| "find_route verb ss ((v, pat, guarded, h) # rs) =
     (if v \<noteq> verb then find_route verb ss rs
      else case match_route pat ss of
        None \<Rightarrow> find_route verb ss rs
      | Some None \<Rightarrow> Some (Inl 400)
      | Some (Some ps) \<Rightarrow> Some (Inr (guarded, h ps)))"

datatype 'b served = Refused nat | Served "session_row option" "'b control_op"

definition served_by :: "session_row option \<Rightarrow> (nat, 'b control_op) res \<Rightarrow> 'b served" where
  "served_by session run = (case run of Inl st \<Rightarrow> Refused st | Inr op \<Rightarrow> Served session op)"

text \<open>Everything else that is a GET is a file of the site or its page.\<close>

definition control_dispatch ::
  "(string \<Rightarrow> string \<Rightarrow> string) \<Rightarrow> (string \<Rightarrow> string option) \<Rightarrow> (string \<Rightarrow> string option) \<Rightarrow> auth_config \<Rightarrow> int
     \<Rightarrow> (string \<Rightarrow> int option) \<Rightarrow> (string \<Rightarrow> string) \<Rightarrow> (string \<Rightarrow> bool) \<Rightarrow> (schema \<Rightarrow> 'b \<Rightarrow> bool)
     \<Rightarrow> 'b http_request \<Rightarrow> api_request \<Rightarrow> auth_store \<Rightarrow> 'b served" where
  "control_dispatch hmac decode url_origin cfg now number fallback is_uuid accepts http rq s =
     (let (path, query) = split_url (hr_url http); ss = segments path
      in if ss \<noteq> [] \<and> to_lower (hd ss) = ''api'' \<and> mutating (rq_method rq)
            \<and> \<not> validBrowserOrigin url_origin (rq_origin rq) (au_origin cfg) then Refused 403
         else case find_route (rq_method rq) ss
                (control_routes number is_uuid accepts (query_values fallback query) (query_get fallback query) (hr_body http)) of
           None \<Rightarrow> if rq_method rq = ''GET'' then Served None PageRoute else Refused 404
         | Some (Inl st) \<Rightarrow> Refused st
         | Some (Inr (guarded, run)) \<Rightarrow>
             if \<not> guarded then served_by None run
             else (case requireSession hmac decode cfg now rq s of
                     Allowed r \<Rightarrow> served_by (Some r) run
                   | Auth.Unauthorized \<Rightarrow> Refused 401
                   | BadCsrf \<Rightarrow> Refused 403
                   | BadOrigin \<Rightarrow> Refused 403
                   | NoClientAddress \<Rightarrow> Refused 500))"

section \<open>From the page to the node agent\<close>

fun service_kind :: "'b agent_op \<Rightarrow> service_op option" where
  "service_kind (ListFilesOp wid path) = Some service_op.ListFiles"
| "service_kind (ReadFileOp wid path) = Some service_op.ReadFile"
| "service_kind (WriteFileOp wid path contents) = Some service_op.WriteFile"
| "service_kind (DeleteFileOp wid path) = Some service_op.DeleteFile"
| "service_kind (StartJobOp wid b) = Some service_op.StartJob"
| "service_kind (JobStatusOp wid jobId offset maxBytes) = Some service_op.JobStatus"
| "service_kind (CancelJobOp wid jobId) = Some service_op.CancelJob"
| "service_kind (BloomStatusOp wid) = Some service_op.BloomStatus"
| "service_kind (CeremonyPendingOp wid) = Some service_op.CeremonyPending"
| "service_kind (CeremonyApproveOp wid txId b) = Some service_op.CeremonyApprove"
| "service_kind (ConnectionsOp wid) = Some service_op.Connections"
| "service_kind (IssueSshOp wid b) = Some service_op.IssueSsh"
| "service_kind (RevokeSshOp wid leaseId) = Some service_op.RevokeSsh"
| "service_kind _ = None"

fun op_workspace :: "'b agent_op \<Rightarrow> string" where
  "op_workspace (ListFilesOp wid path) = wid"
| "op_workspace (ReadFileOp wid path) = wid"
| "op_workspace (WriteFileOp wid path contents) = wid"
| "op_workspace (DeleteFileOp wid path) = wid"
| "op_workspace (StartJobOp wid b) = wid"
| "op_workspace (JobStatusOp wid jobId offset maxBytes) = wid"
| "op_workspace (CancelJobOp wid jobId) = wid"
| "op_workspace (BloomStatusOp wid) = wid"
| "op_workspace (CeremonyPendingOp wid) = wid"
| "op_workspace (CeremonyApproveOp wid txId b) = wid"
| "op_workspace (ConnectionsOp wid) = wid"
| "op_workspace (IssueSshOp wid b) = wid"
| "op_workspace (RevokeSshOp wid leaseId) = wid"
| "op_workspace _ = []"

text \<open>The service calls the client with the id of the row it found.\<close>

fun on_row :: "string \<Rightarrow> 'b agent_op \<Rightarrow> 'b agent_op" where
  "on_row rid (ListFilesOp wid path) = ListFilesOp rid path"
| "on_row rid (ReadFileOp wid path) = ReadFileOp rid path"
| "on_row rid (WriteFileOp wid path contents) = WriteFileOp rid path contents"
| "on_row rid (DeleteFileOp wid path) = DeleteFileOp rid path"
| "on_row rid (StartJobOp wid b) = StartJobOp rid b"
| "on_row rid (JobStatusOp wid jobId offset maxBytes) = JobStatusOp rid jobId offset maxBytes"
| "on_row rid (CancelJobOp wid jobId) = CancelJobOp rid jobId"
| "on_row rid (BloomStatusOp wid) = BloomStatusOp rid"
| "on_row rid (CeremonyPendingOp wid) = CeremonyPendingOp rid"
| "on_row rid (CeremonyApproveOp wid txId b) = CeremonyApproveOp rid txId b"
| "on_row rid (ConnectionsOp wid) = ConnectionsOp rid"
| "on_row rid (IssueSshOp wid b) = IssueSshOp rid b"
| "on_row rid (RevokeSshOp wid leaseId) = RevokeSshOp rid leaseId"
| "on_row rid op = op"

text \<open>The call of the client: the request, the routing of the agent, then \<open>perform\<close>, what the agent does with an operation.\<close>

definition call_agent ::
  "(string \<Rightarrow> int option) \<Rightarrow> (string \<Rightarrow> string) \<Rightarrow> (string \<Rightarrow> bool) \<Rightarrow> ('b agent_op \<Rightarrow> (agent_failure, 'a) res) \<Rightarrow> 'b agent_op \<Rightarrow> (agent_failure, 'a) res" where
  "call_agent number fallback is_uuid perform op =
     (case agent_dispatch number fallback is_uuid (agent_request op) of
        Inl status \<Rightarrow> Inl (Workspaces.AgentClientError status)
      | Inr op' \<Rightarrow> perform op')"

text \<open>What a served request for an operation on a workspace does to the service.\<close>

definition control_serve ::
  "(string \<Rightarrow> int option) \<Rightarrow> (string \<Rightarrow> string) \<Rightarrow> (string \<Rightarrow> bool) \<Rightarrow> ('b agent_op \<Rightarrow> (agent_failure, 'a) res) \<Rightarrow> int \<Rightarrow> 'b served \<Rightarrow> svc
     \<Rightarrow> ((nat, 'a) res \<times> svc) option" where
  "control_serve number fallback is_uuid perform now served s =
     (case served of
        Refused status \<Rightarrow> Some (Inl status, s)
      | Served session (WorkspaceRoute op) \<Rightarrow>
          (case (session, service_kind op) of
             (Some r, Some kind) \<Rightarrow>
               (let (result, s') = service_call now kind (\<lambda>rid. call_agent number fallback is_uuid perform (on_row rid op))
                                     (se_wallet r) (op_workspace op) s
                in Some (case result of Inl e \<Rightarrow> Inl (control_status (WorkspaceFailed e)) | Inr v \<Rightarrow> Inr v, s'))
           | _ \<Rightarrow> None)
      | _ \<Rightarrow> None)"

section \<open>Properties\<close>

text \<open>The operations the page asks for, with arguments the schemas accept.\<close>

definition asks_ok :: "(string \<Rightarrow> bool) \<Rightarrow> (schema \<Rightarrow> 'b \<Rightarrow> bool) \<Rightarrow> 'b control_op \<Rightarrow> bool" where
  "asks_ok is_uuid accepts op \<longleftrightarrow> page_url op \<noteq> None \<and>
     (case op of
        VerifyRoute b \<Rightarrow> accepts VerifySchema b
      | CreateRoute b \<Rightarrow> accepts CreateSchema b
      | EventsRoute wid jobId offset \<Rightarrow> wid \<noteq> [] \<and> jobId \<noteq> [] \<and> is_uuid jobId \<and> offset \<le> max_cursor
      | WorkspaceRoute op' \<Rightarrow> op_ok is_uuid op' \<and>
          (case op' of
             StartJobOp wid b \<Rightarrow> accepts JobSchema b
           | CeremonyApproveOp wid txId b \<Rightarrow> accepts ApproveSchema b
           | IssueSshOp wid b \<Rightarrow> accepts SshSchema b
           | RevokeSshOp wid leaseId \<Rightarrow> is_uuid leaseId
           | _ \<Rightarrow> True)
      | _ \<Rightarrow> True)"

fun page_agent_segments :: "'b agent_op \<Rightarrow> string list" where
  "page_agent_segments (ListFilesOp wid path) = [encodeURIComponent wid, ''files'']"
| "page_agent_segments (ReadFileOp wid path) = [encodeURIComponent wid, ''files'', ''content'']"
| "page_agent_segments (WriteFileOp wid path contents) = [encodeURIComponent wid, ''files'']"
| "page_agent_segments (DeleteFileOp wid path) = [encodeURIComponent wid, ''files'']"
| "page_agent_segments (StartJobOp wid b) = [encodeURIComponent wid, ''jobs'']"
| "page_agent_segments (JobStatusOp wid jobId offset maxBytes) = [encodeURIComponent wid, ''jobs'', encodeURIComponent jobId]"
| "page_agent_segments (CancelJobOp wid jobId) = [encodeURIComponent wid, ''jobs'', encodeURIComponent jobId]"
| "page_agent_segments (BloomStatusOp wid) = [encodeURIComponent wid, ''bloom'']"
| "page_agent_segments (CeremonyPendingOp wid) = [encodeURIComponent wid, ''ceremony'']"
| "page_agent_segments (CeremonyApproveOp wid txId b) = [encodeURIComponent wid, ''ceremony'', encodeURIComponent txId, ''approve'']"
| "page_agent_segments (ConnectionsOp wid) = [encodeURIComponent wid, ''connections'']"
| "page_agent_segments (IssueSshOp wid b) = [encodeURIComponent wid, ''connections'', ''ssh'']"
| "page_agent_segments (RevokeSshOp wid leaseId) = [encodeURIComponent wid, ''connections'', ''ssh'', encodeURIComponent leaseId]"
| "page_agent_segments _ = [''current'']"

fun page_segments :: "'b control_op \<Rightarrow> string list" where
  "page_segments SessionRoute = [''api'', ''session'']"
| "page_segments ChallengeRoute = [''api'', ''auth'', ''challenge'']"
| "page_segments (VerifyRoute b) = [''api'', ''auth'', ''verify'']"
| "page_segments DevRoute = [''api'', ''auth'', ''dev'']"
| "page_segments LogoutRoute = [''api'', ''auth'', ''logout'']"
| "page_segments (CreateRoute b) = [''api'', ''workspaces'']"
| "page_segments DestroyRoute = [''api'', ''workspace-volume'']"
| "page_segments (EventsRoute wid jobId offset) = [''api'', ''workspaces'', encodeURIComponent wid, ''jobs'', encodeURIComponent jobId, ''events'']"
| "page_segments (WorkspaceRoute op) = [''api'', ''workspaces''] @ page_agent_segments op"
| "page_segments _ = [''api'', ''workspaces'', ''current'']"

fun page_query :: "'b control_op \<Rightarrow> string option" where
  "page_query (EventsRoute wid jobId offset) = Some (''offset='' @ nat_to_dec offset)"
| "page_query (WorkspaceRoute op) = op_query op"
| "page_query _ = None"

lemma page_literals [simp]:
  "to_lower ''api'' = ''api''" "to_lower ''session'' = ''session''" "to_lower ''auth'' = ''auth''" "to_lower ''challenge'' = ''challenge''"
  "to_lower ''verify'' = ''verify''" "to_lower ''dev'' = ''dev''" "to_lower ''logout'' = ''logout''" "to_lower ''current'' = ''current''"
  "to_lower ''workspace-volume'' = ''workspace-volume''" "to_lower ''events'' = ''events''"
  by code_simp+

lemma page_agent_url_shape:
  "page_agent_url op = Some (verb, url) \<Longrightarrow>
     url = ''/api/workspaces/'' @ join_with (CHR ''/'') (page_agent_segments op) @ (case op_query op of None \<Rightarrow> [] | Some q \<Rightarrow> CHR ''?'' # q)"
  by (cases op) (auto simp: page_path_def files_path_def job_path_def max_log_read_def split: if_splits)

lemma page_url_shape:
  "page_url op = Some (verb, url) \<Longrightarrow>
     url = (CHR ''/'' # join_with (CHR ''/'') (page_segments op)) @ (case page_query op of None \<Rightarrow> [] | Some q \<Rightarrow> CHR ''?'' # q)"
proof (cases op)
  case (WorkspaceRoute op')
  assume "page_url op = Some (verb, url)"
  moreover obtain s ss where "page_agent_segments op' = s # ss" by (cases op') simp_all
  ultimately show ?thesis using page_agent_url_shape[of op' verb url] WorkspaceRoute by simp
qed (auto simp: page_path_def job_path_def)

lemma page_segments_plain: "p \<in> set (page_segments op) \<Longrightarrow> CHR ''/'' \<notin> set p \<and> CHR ''?'' \<notin> set p"
proof (cases op)
  case (WorkspaceRoute op')
  assume "p \<in> set (page_segments op)"
  then show ?thesis using WorkspaceRoute by (cases op') auto
qed auto

lemma page_segments_last: "asks_ok is_uuid accepts op \<Longrightarrow> page_segments op \<noteq> [] \<and> last (page_segments op) \<noteq> []"
proof (cases op)
  case (WorkspaceRoute op')
  assume "asks_ok is_uuid accepts op"
  then show ?thesis using WorkspaceRoute by (cases op') (auto simp: asks_ok_def)
qed (auto simp: asks_ok_def)

lemma page_request_parts:
  assumes "asks_ok is_uuid accepts op" "page_url op = Some (verb, url)"
  shows "split_url url = (CHR ''/'' # join_with (CHR ''/'') (page_segments op), case page_query op of None \<Rightarrow> [] | Some q \<Rightarrow> q)"
    and "segments (CHR ''/'' # join_with (CHR ''/'') (page_segments op)) = page_segments op"
proof -
  have "CHR ''?'' \<notin> set (CHR ''/'' # join_with (CHR ''/'') (page_segments op))"
    using set_join_with[of "CHR ''/''" "page_segments op"] page_segments_plain[of _ op] by auto
  then show "split_url url = (CHR ''/'' # join_with (CHR ''/'') (page_segments op), case page_query op of None \<Rightarrow> [] | Some q \<Rightarrow> q)"
    unfolding page_url_shape[OF assms(2)]
    by (cases "page_query op") (simp_all add: split_url_plain split_url_query del: append_Cons add: append_Cons[symmetric])
  show "segments (CHR ''/'' # join_with (CHR ''/'') (page_segments op)) = page_segments op"
    by (rule segments_join) (use page_segments_last[OF assms(1)] page_segments_plain[of _ op] in auto)
qed

lemma path_values: "query_values fallback (''path='' @ encodeURIComponent path) ''path'' = [path]"
proof -
  have "CHR ''&'' \<notin> set (''path='' @ encodeURIComponent path)" by simp
  then have "split_on (CHR ''&'') (''path='' @ encodeURIComponent path) = [''path='' @ encodeURIComponent path]" by (rule split_on_absent)
  then show ?thesis using query_pair_encoded[OF query_keys(1), of fallback path] by (simp add: query_values_def)
qed

lemma events_query: "query_get fallback (''offset='' @ nat_to_dec n) ''offset'' = One (nat_to_dec n)"
proof -
  have "CHR ''&'' \<notin> set (''offset='' @ nat_to_dec n)" using encode_separators(3)[of "nat_to_dec n"] unfolding encode_dec by simp
  then have "split_on (CHR ''&'') (''offset='' @ nat_to_dec n) = [''offset='' @ nat_to_dec n]" by (rule split_on_absent)
  then show ?thesis using query_pair_encoded[OF query_keys(2), of fallback "nat_to_dec n"] by (simp add: query_get_def encode_dec)
qed

text \<open>What the query of a request gives its handler.\<close>

definition page_query_ok :: "(string \<Rightarrow> string list) \<Rightarrow> (string \<Rightarrow> query_value) \<Rightarrow> 'b control_op \<Rightarrow> bool" where
  "page_query_ok values query op \<longleftrightarrow>
     (case op of
        EventsRoute wid jobId offset \<Rightarrow> query ''offset'' = One (nat_to_dec offset)
      | WorkspaceRoute op' \<Rightarrow> query_ok query op' \<and>
          (case op' of
             ListFilesOp wid path \<Rightarrow> values ''path'' = [path]
           | ReadFileOp wid path \<Rightarrow> values ''path'' = [path]
           | WriteFileOp wid path contents \<Rightarrow> values ''path'' = [path]
           | DeleteFileOp wid path \<Rightarrow> values ''path'' = [path]
           | _ \<Rightarrow> True)
      | _ \<Rightarrow> True)"

lemma page_query_given:
  "page_query_ok (query_values fallback (case page_query op of None \<Rightarrow> [] | Some q \<Rightarrow> q))
     (query_get fallback (case page_query op of None \<Rightarrow> [] | Some q \<Rightarrow> q)) op"
proof (cases op)
  case (EventsRoute wid jobId offset)
  show ?thesis unfolding EventsRoute page_query.simps option.case page_query_ok_def control_op.case by (rule events_query)
next
  case (WorkspaceRoute op')
  have "query_ok (query_get fallback (case op_query op' of None \<Rightarrow> [] | Some q \<Rightarrow> q)) op'" by (rule op_query_ok)
  then show ?thesis unfolding WorkspaceRoute page_query.simps page_query_ok_def control_op.case
    by (cases op') (use path_values[of fallback] in \<open>simp_all del: append_Cons append.simps query_ok.simps\<close>)
qed (simp_all add: page_query_ok_def)

fun guarded_op :: "'b control_op \<Rightarrow> bool" where
  "guarded_op SessionRoute = False"
| "guarded_op ChallengeRoute = False"
| "guarded_op (VerifyRoute b) = False"
| "guarded_op DevRoute = False"
| "guarded_op _ = True"

lemma workspace_routed:
  assumes "asks_ok is_uuid accepts (WorkspaceRoute op)" "page_query_ok values query (WorkspaceRoute op)"
    "\<And>n. number (nat_to_dec n) = Some (int n)"
  shows "find_route (fst (the (page_agent_url op))) ([''api'', ''workspaces''] @ page_agent_segments op)
      (control_routes number is_uuid accepts values query (page_body braces (WorkspaceRoute op))) = Some (Inr (True, Inr (WorkspaceRoute op)))"
  using assms(1,2)
  by (cases op) (simp_all add: control_routes_def asks_ok_def page_query_ok_def body_route_def list_route_def read_route_def write_route_def
    delete_route_def ControlFilePath_def status_route_def cancel_route_def revoke_route_def JobStatusQuery_def coerce_between_def Suc_le_eq
    max_log_read_def assms(3) split: if_split_asm)

lemma page_routed:
  assumes "asks_ok is_uuid accepts op" "page_query_ok values query op" "\<And>n. number (nat_to_dec n) = Some (int n)"
  shows "find_route (fst (the (page_url op))) (page_segments op) (control_routes number is_uuid accepts values query (page_body braces op))
      = Some (Inr (guarded_op op, Inr op))"
proof (cases op)
  case (WorkspaceRoute op')
  then show ?thesis using workspace_routed[of is_uuid accepts op' "values" query number braces] assms by simp
next
  case (EventsRoute wid jobId offset)
  then show ?thesis using assms
    by (simp add: control_routes_def asks_ok_def page_query_ok_def events_route_def coerce_between_def)
qed (use assms in \<open>simp_all add: control_routes_def asks_ok_def body_route_def\<close>)

lemma page_request_Some: "page_request braces op = Some http \<Longrightarrow>
   \<exists>verb url. page_url op = Some (verb, url) \<and> http = \<lparr>hr_method = verb, hr_url = url, hr_body = page_body braces op\<rparr>"
  by (auto simp: page_request_def)

lemma page_verbs: "page_url op = Some (verb, url) \<Longrightarrow> verb \<noteq> ''GET'' \<longleftrightarrow> mutating verb"
proof (cases op)
  case (WorkspaceRoute op')
  assume "page_url op = Some (verb, url)"
  then show ?thesis using WorkspaceRoute by (cases op') (auto simp: mutating_def split: if_splits)
qed (auto simp: mutating_def)

text \<open>What the page asks is what the control server runs. Every request of the page, whatever characters its identifiers
  and paths contain, sent by a browser of this site with a session cookie and with the CSRF token of that session in the
  page, passes the origin check and the guard and reaches the handler of the same operation with exactly the same
  arguments, on behalf of the owner of the session; requests that need no session are served without one.
\<close>
theorem page_requests_served:
  assumes "asks_ok is_uuid accepts op" "page_request braces op = Some http"
    and "\<And>n. number (nat_to_dec n) = Some (int n)"
    and "mutating (hr_method http) \<Longrightarrow> validBrowserOrigin url_origin origin (au_origin cfg)"
    and "guarded_op op \<Longrightarrow> ip \<noteq> None \<and> readSession hmac decode cfg now cookie s = Some r \<and> ps_csrfToken ps = Some (se_csrf_token r)"
  shows "control_dispatch hmac decode url_origin cfg now number fallback is_uuid accepts http (page_headers ps ip origin cookie (hr_method http)) s
    = Served (if guarded_op op then Some r else None) op"
proof -
  obtain verb url where u: "page_url op = Some (verb, url)" and h: "http = \<lparr>hr_method = verb, hr_url = url, hr_body = page_body braces op\<rparr>"
    using page_request_Some[OF assms(2)] by blast
  let ?rq = "page_headers ps ip origin cookie verb"
  let ?q = "case page_query op of None \<Rightarrow> [] | Some q \<Rightarrow> q"
  have origin: "\<not> (mutating (rq_method ?rq) \<and> \<not> validBrowserOrigin url_origin (rq_origin ?rq) (au_origin cfg))"
    using assms(4) h by (simp add: page_headers_def)
  have route: "find_route verb (page_segments op) (control_routes number is_uuid accepts (query_values fallback ?q) (query_get fallback ?q) (page_body braces op))
      = Some (Inr (guarded_op op, Inr op))"
    using page_routed[OF assms(1) page_query_given assms(3), of fallback braces] u by simp
  have guard: "requireSession hmac decode cfg now ?rq s = Allowed r" if "guarded_op op"
    using assms(5)[OF that] page_verbs[OF u]
    by (cases "se_csrf_token r") (auto simp: requireSession_def page_headers_def csrf_header_def safeEqual_def)
  have "rq_method ?rq = verb" by (simp add: page_headers_def)
  then show ?thesis
    unfolding control_dispatch_def h http_request.simps page_request_parts(1)[OF assms(1) u] Let_def prod.case page_request_parts(2)[OF assms(1) u]
    using origin route guard by (simp add: served_by_def)
qed

section \<open>Whatever is sent\<close>

definition public_op :: "'b control_op \<Rightarrow> bool" where
  "public_op op \<longleftrightarrow> (case op of
     HealthzRoute \<Rightarrow> True | MetricszRoute \<Rightarrow> True | SessionRoute \<Rightarrow> True | ChallengeRoute \<Rightarrow> True | VerifyRoute b \<Rightarrow> True | DevRoute \<Rightarrow> True
   | HelperRoute \<Rightarrow> True | PageRoute \<Rightarrow> True | _ \<Rightarrow> False)"

definition changes :: "'b control_op \<Rightarrow> bool" where
  "changes op \<longleftrightarrow> (case op of
     VerifyRoute b \<Rightarrow> True | DevRoute \<Rightarrow> True | LogoutRoute \<Rightarrow> True | CreateRoute b \<Rightarrow> True | StopCurrentRoute \<Rightarrow> True | DestroyRoute \<Rightarrow> True
   | WorkspaceRoute op' \<Rightarrow> (case op' of WriteFileOp wid path contents \<Rightarrow> True | DeleteFileOp wid path \<Rightarrow> True | StartJobOp wid b \<Rightarrow> True
       | CancelJobOp wid jobId \<Rightarrow> True | CeremonyApproveOp wid txId b \<Rightarrow> True | IssueSshOp wid b \<Rightarrow> True | RevokeSshOp wid leaseId \<Rightarrow> True | _ \<Rightarrow> False)
   | _ \<Rightarrow> False)"

definition entry_ok :: "string \<times> pattern list \<times> bool \<times> (string list \<Rightarrow> (nat, 'b control_op) res) \<Rightarrow> bool" where
  "entry_ok e \<longleftrightarrow> (case e of (verb, pat, guarded, h) \<Rightarrow>
     \<forall>ps op. h ps = Inr op \<longrightarrow> (guarded \<longleftrightarrow> \<not> public_op op) \<and> (changes op \<longrightarrow> mutating verb \<and> (\<exists>rest. pat = Lit ''api'' # rest)))"

lemmas route_defs = body_route_def list_route_def read_route_def write_route_def delete_route_def status_route_def cancel_route_def
  events_route_def revoke_route_def

lemma entry_okI:
  "(\<And>ps op. h ps = Inr op \<Longrightarrow> (guarded \<longleftrightarrow> \<not> public_op op) \<and> (changes op \<longrightarrow> mutating verb \<and> (\<exists>rest. pat = Lit ''api'' # rest)))
     \<Longrightarrow> entry_ok (verb, pat, guarded, h)"
  by (simp add: entry_ok_def)

lemma verbs_mutating [simp]: "mutating ''POST''" "mutating ''PUT''" "mutating ''DELETE''" "\<not> mutating ''GET''"
  by (simp_all add: mutating_def)

lemma entry_okD:
  "entry_ok (verb, pat, guarded, h) \<Longrightarrow> h ps = Inr op \<Longrightarrow> (guarded \<longleftrightarrow> \<not> public_op op) \<and> (changes op \<longrightarrow> mutating verb \<and> (\<exists>rest. pat = Lit ''api'' # rest))"
  by (simp add: entry_ok_def)

lemma control_routes_ok: "list_all entry_ok (control_routes number is_uuid accepts values query body)"
  unfolding control_routes_def list.pred_inject
  by (cases body; intro conjI entry_okI TrueI;
      auto simp: public_op_def changes_def route_defs rbind_Inr_iff split: if_splits prod.splits)

lemma find_route_in:
  "find_route verb ss rs = Some (Inr (guarded, run)) \<Longrightarrow>
     \<exists>pat h ps. (verb, pat, guarded, h) \<in> set rs \<and> match_route pat ss = Some (Some ps) \<and> run = h ps"
  by (induction verb ss rs rule: find_route.induct) (auto split: if_splits option.splits)

text \<open>C18. No request gets past the guards. Whatever method, path, query, headers and body a request has: what is served
  without a session is one of the public routes, every other operation is run for the wallet of the session whose
  cookie the request carries, and an operation that changes anything (signing in and out included) is run only for a
  request from this site's origin and, where it needs a session, with the CSRF token of that session.
\<close>
theorem control_routes_guarded:
  assumes "control_dispatch hmac decode url_origin cfg now number fallback is_uuid accepts http rq s = Served session op"
  shows "(session = None \<longleftrightarrow> public_op op)
    \<and> (\<forall>r. session = Some r \<longrightarrow> readSession hmac decode cfg now (rq_cookie rq) s = Some r)
    \<and> (changes op \<longrightarrow> (\<exists>h. rq_origin rq = Some h \<and> url_origin h = Some (au_origin cfg))
         \<and> (\<forall>r. session = Some r \<longrightarrow> (case rq_csrf rq of None \<Rightarrow> [] | Some t \<Rightarrow> t) = se_csrf_token r))"
proof -
  obtain path query where sp: "split_url (hr_url http) = (path, query)" by (cases "split_url (hr_url http)")
  let ?ss = "segments path"
  let ?rs = "control_routes number is_uuid accepts (query_values fallback query) (query_get fallback query) (hr_body http)"
  have orig: "\<not> (?ss \<noteq> [] \<and> to_lower (hd ?ss) = ''api'' \<and> mutating (rq_method rq) \<and> \<not> validBrowserOrigin url_origin (rq_origin rq) (au_origin cfg))"
    using assms by (auto simp: control_dispatch_def sp Let_def split: if_splits)
  show ?thesis
  proof (cases "find_route (rq_method rq) ?ss ?rs")
    case None
    then have "session = None" "op = PageRoute" using assms orig by (auto simp: control_dispatch_def sp Let_def split: if_splits)
    then show ?thesis by (simp add: public_op_def changes_def)
  next
    case (Some found)
    then obtain guarded run where f: "find_route (rq_method rq) ?ss ?rs = Some (Inr (guarded, run))"
      using assms orig by (cases found) (auto simp: control_dispatch_def sp Let_def split: if_splits)
    then obtain pat h ps where e: "(rq_method rq, pat, guarded, h) \<in> set ?rs" "match_route pat ?ss = Some (Some ps)" "run = h ps"
      using find_route_in[OF f] by blast
    have "served_by session' run = Served session op \<Longrightarrow> run = Inr op \<and> session' = session" for session'
      by (auto simp: served_by_def split: sum.splits)
    then have run: "run = Inr op" and who: "if guarded then \<exists>r. session = Some r \<and> requireSession hmac decode cfg now rq s = Allowed r else session = None"
      using assms orig f by (auto simp: control_dispatch_def sp Let_def split: if_splits guard_result.splits)
    have ok: "(guarded \<longleftrightarrow> \<not> public_op op)" "changes op \<Longrightarrow> mutating (rq_method rq) \<and> (\<exists>rest. pat = Lit ''api'' # rest)"
      using entry_okD[of "rq_method rq" pat guarded h ps op] e(1,3) run
        control_routes_ok[of number is_uuid accepts "query_values fallback query" "query_get fallback query" "hr_body http"]
      unfolding list_all_iff by metis+
    have site: "validBrowserOrigin url_origin (rq_origin rq) (au_origin cfg)" if c: "changes op"
    proof -
      obtain rest where "pat = Lit ''api'' # rest" using ok(2)[OF c] by blast
      then have "?ss \<noteq> [] \<and> to_lower (hd ?ss) = ''api''" using e(2) by (cases ?ss) (auto split: if_splits)
      then show ?thesis using orig ok(2)[OF c] by blast
    qed
    have "readSession hmac decode cfg now (rq_cookie rq) s = Some r
        \<and> (mutating (rq_method rq) \<longrightarrow> (case rq_csrf rq of None \<Rightarrow> [] | Some t \<Rightarrow> t) = se_csrf_token r)"
      if "requireSession hmac decode cfg now rq s = Allowed r" for r
      using that by (auto simp: requireSession_def safeEqual_def split: if_splits option.splits)
    then show ?thesis using who ok site by (auto simp: validBrowserOrigin_def split: if_splits option.splits)
  qed
qed

section \<open>The whole way\<close>

lemma agent_dispatched:
  assumes "op_ok is_uuid op" "\<And>n. number (nat_to_dec n) = Some (int n)"
  shows "agent_dispatch number fallback is_uuid (agent_request op) = Inr op"
  unfolding agent_dispatch_def agent_request_def http_request.simps request_parts(1)[OF assms(1)] Let_def prod.case request_parts(2)[OF assms(1)]
  by (rule agent_routed[OF assms(1) op_query_ok assms(2)])

lemma ownedRunning_id: "ownedRunning now wallet wid s = (Inr row, s1) \<Longrightarrow> ws_id row = wid"
  by (auto simp: ownedRunning_def Let_def find_Some_iff split: option.splits if_splits)

lemma on_own_row: "on_row (op_workspace op) op = op"
  by (cases op) simp_all

lemma service_call_cong:
  "(\<And>row s1. ownedRunning now wallet wid s = (Inr row, s1) \<Longrightarrow> f (ws_id row) = g (ws_id row)) \<Longrightarrow>
     service_call now kind f wallet wid s = service_call now kind g wallet wid s"
  by (auto simp: service_call_def split: prod.split sum.split)


section \<open>Creating a workspace\<close>

text \<open>The body that \<open>createWorkspace\<close> of the page sends, and the schema that reads it.\<close>

fun storage_text :: "storage_mode \<Rightarrow> string" where
  "storage_text Disposable = ''disposable''"
| "storage_text Persistent = ''persistent''"

definition create_body :: "string option \<Rightarrow> storage_mode \<Rightarrow> json" where
  "create_body turnstileToken storage =
     JObj [(''turnstileToken'', case turnstileToken of None \<Rightarrow> JNull | Some t \<Rightarrow> JStr t), (''storage'', JStr (storage_text storage))]"

fun token_field :: "json option \<Rightarrow> string option option" where
  "token_field None = Some None"
| "token_field (Some JNull) = Some None"
| "token_field (Some (JStr t)) = (if 1 \<le> length t \<and> length t \<le> 4096 then Some (Some t) else None)"
| "token_field _ = None"

fun storage_field :: "json option \<Rightarrow> storage_mode option" where
  "storage_field None = Some Disposable"
| "storage_field (Some (JStr t)) = (if t = ''disposable'' then Some Disposable else if t = ''persistent'' then Some Persistent else None)"
| "storage_field _ = None"

definition CreateWorkspace :: "json \<Rightarrow> (string option \<times> storage_mode) option" where
  "CreateWorkspace body =
     (case body of
        JObj kvs \<Rightarrow>
          if fst ` set kvs \<subseteq> {''turnstileToken'', ''storage''}
          then Option.bind (token_field (map_of kvs ''turnstileToken'')) (\<lambda>t.
               Option.bind (storage_field (map_of kvs ''storage'')) (\<lambda>m. Some (t, m)))
          else None
      | _ \<Rightarrow> None)"

lemma create_body_accepted:
  "CreateWorkspace (create_body turnstileToken storage) =
     (if (case turnstileToken of None \<Rightarrow> True | Some t \<Rightarrow> 1 \<le> length t \<and> length t \<le> 4096) then Some (turnstileToken, storage) else None)"
  by (cases storage; cases turnstileToken) (simp_all add: CreateWorkspace_def create_body_def)

section \<open>Metrics\<close>

fun state_text :: "ws_state \<Rightarrow> string" where
  "state_text Workspaces.Queued = ''queued''"
| "state_text Provisioning = ''provisioning''"
| "state_text Workspaces.Running = ''running''"
| "state_text Stopping = ''stopping''"
| "state_text Stopped = ''stopped''"
| "state_text Workspaces.Failed = ''failed''"

record workspace_stats =
  st_running :: nat
  st_pending :: nat
  st_stopped :: nat
  st_failed :: nat
  st_total :: nat

definition metricsz :: "svc \<Rightarrow> workspace_stats" where
  "metricsz s =
     (let count = (\<lambda>st. length (filter (\<lambda>r. state_text (ws_state r) = st) (sv_rows s)))
      in \<lparr>st_running = count ''running'', st_pending = count ''pending'', st_stopped = count ''stopped'', st_failed = count ''failed'',
          st_total = length (sv_rows s)\<rparr>)"

text \<open>No workspace is ever in a state called pending: the metric is zero whatever the queue holds.\<close>

lemma pending_metric_zero: "st_pending (metricsz s) = 0"
proof -
  have "state_text st \<noteq> ''pending''" for st by (cases st) simp_all
  then show ?thesis by (simp add: metricsz_def Let_def)
qed

section \<open>Retention\<close>

lemma find_filter: "(\<And>x. P x \<Longrightarrow> Q x) \<Longrightarrow> find P (filter Q xs) = find P xs"
  by (induction xs) auto

text \<open>The retention job of the sign-in tables is never seen: from the time it ran on, every request finds the session it would have found without it.\<close>

lemma auth_maintenance_unseen:
  "now \<le> now' \<Longrightarrow> readSession hmac decode cfg now' cookie (auth_maintenance now s) = readSession hmac decode cfg now' cookie s"
  by (auto simp: readSession_def auth_maintenance_def intro!: find_filter split: option.split)

section \<open>Witnesses\<close>

definition sample_page_session :: page_session where
  "sample_page_session =
     \<lparr>ps_authenticated = True, ps_wallet = Some (se_wallet Auth.sample_session), ps_csrfToken = Some (se_csrf_token Auth.sample_session),
      ps_devAuth = False, ps_turnstileSiteKey = None, ps_workspace = None, ps_capabilities = []\<rparr>"

definition sample_write :: "unit agent_op" where
  "sample_write = WriteFileOp ''a1'' ''a b&path=/c%2e'' [1, 2]"

lemma sample_signed_in: "readSession (\<lambda>t k. t) Some sample_auth 5000 (Some ''bloom_session=t'') sample_store = Some Auth.sample_session"
  by code_simp

lemma sample_site: "validBrowserOrigin Some (Some ''https://bloom.example'') (au_origin sample_auth)"
  by code_simp

lemma sample_asks: "asks_ok (\<lambda>_. True) (\<lambda>_ _. True) (WorkspaceRoute sample_write)"
  by (simp add: asks_ok_def sample_write_def files_path_def page_path_def)

abbreviation sample_dispatch :: "unit http_request \<Rightarrow> unit served" where
  "sample_dispatch http \<equiv> control_dispatch (\<lambda>t k. t) Some Some sample_auth 5000 dec_number id (\<lambda>_. True) (\<lambda>_ _. True) http
     (page_headers sample_page_session (Some ''203.0.113.9'') (Some ''https://bloom.example'') (Some ''bloom_session=t'') (hr_method http)) sample_store"

lemma page_requests_served_witness:
  "sample_dispatch (the (page_request () (WorkspaceRoute sample_write))) = Served (Some Auth.sample_session) (WorkspaceRoute sample_write)"
proof -
  have some: "page_request () (WorkspaceRoute sample_write) = Some (the (page_request () (WorkspaceRoute sample_write)))"
    by (simp add: page_request_def sample_write_def)
  have "guarded_op (WorkspaceRoute sample_write)" by simp
  then show ?thesis
    using page_requests_served[OF sample_asks some dec_number_dec, of Some "Some ''https://bloom.example''" sample_auth "Some ''203.0.113.9''"
        "\<lambda>t k. t" Some 5000 "Some ''bloom_session=t''" sample_store Auth.sample_session sample_page_session id]
      sample_signed_in sample_site by (simp add: sample_page_session_def)
qed

lemma control_routes_guarded_witness:
  "sample_dispatch \<lparr>hr_method = ''GET'', hr_url = ''/api/session'', hr_body = NoBody\<rparr> = Served None SessionRoute
   \<and> \<not> changes (SessionRoute :: unit control_op)"
proof -
  have d: "sample_dispatch \<lparr>hr_method = ''GET'', hr_url = ''/api/session'', hr_body = NoBody\<rparr> = Served None SessionRoute" by code_simp
  show ?thesis using control_routes_guarded[OF d] d by (simp add: page_headers_def changes_def)
qed

lemma sample_owned: "ownedRunning 5000 ''0xab'' ''a1'' (new_service\<lparr>sv_rows := [terminal_row]\<rparr>) = (Inr terminal_row, new_service\<lparr>sv_rows := [terminal_row]\<rparr>)"
  by code_simp


end
