(* ===== verification/WebForms.thy ===== *)
theory WebForms
  imports WebClient Machines "HOL-Library.Multiset"
begin

text \<open>
  What the page of \<open>web/main.ts\<close> draws and sends, as functions of its state: capabilities and controls, the panel of the
  workspace, files, pending approvals, connection methods and grants, and the forms with the checks they make before a
  request, with \<open>formatBytes\<close> and \<open>readConnectionMethods\<close> of \<open>web/workspace-contracts.ts\<close>. Elements are described by
  records and lists of texts. Characters outside Latin-1 (the ellipsis, dashes and arrows of some labels) are not written
  out: a text with one is a constructor of a datatype or takes it as the parameter \<open>ellipsis\<close>. Dates are formatted by the
  browser (a parameter).
\<close>

section \<open>Texts\<close>

definition shortAddress :: "string \<Rightarrow> string option \<Rightarrow> string" where
  "shortAddress ellipsis address =
     (case address of
        Some (c # cs) \<Rightarrow> take 6 (c # cs) @ ellipsis @ drop (length (c # cs) - 4) (c # cs)
      | _ \<Rightarrow> ''Connected'')"

text \<open>\<open>formatBytes\<close> of an integer. Dividing by 1024 is exact in a double, and \<open>toFixed\<close> rounds the exact value, halves up.\<close>

definition to_fixed :: "nat \<Rightarrow> int \<Rightarrow> int \<Rightarrow> string" where
  "to_fixed digits value divisor =
     (let n = (2 * value * 10 ^ digits + divisor) div (2 * divisor)
      in if digits = 0 then js_int n else js_int (n div 10 ^ digits) @ ''.'' @ js_int (n mod 10 ^ digits))"

fun units :: "nat \<Rightarrow> string" where
  "units 0 = ''KiB''"
| "units (Suc 0) = ''MiB''"
| "units (Suc (Suc 0)) = ''GiB''"
| "units _ = ''TiB''"

text \<open>The loop on \<open>index\<close>; the value is \<open>bytes\<close> over \<open>1024 ^ (index + 1)\<close>.\<close>

function unit_index :: "int \<Rightarrow> nat \<Rightarrow> nat" where
  "unit_index bytes index =
     (if 1024 * 1024 ^ Suc index \<le> bytes \<and> index < 3 then unit_index bytes (Suc index) else index)"
  by auto
termination by (relation "measure (\<lambda>(_, index). 3 - index)") auto

declare unit_index.simps [simp del]

definition formatBytes :: "int option \<Rightarrow> string" where
  "formatBytes bytes =
     (case bytes of
        None \<Rightarrow> ''Unknown''
      | Some b \<Rightarrow>
          if b < 0 then ''Unknown''
          else if b < 1024 then js_int b @ '' B''
          else let index = unit_index b 0; divisor = 1024 ^ Suc index
               in (if 10 * divisor \<le> b then to_fixed 0 b divisor else to_fixed 1 b divisor) @ '' '' @ units index)"

text \<open>\<open>updateLease\<close>: the text and the two classes.\<close>

definition lease_text :: "int \<Rightarrow> int \<Rightarrow> string \<times> bool \<times> bool" where
  "lease_text now expires =
     (let remaining = max 0 (expires - now); seconds = (remaining mod 60000) div 1000; s = js_int seconds
      in (if 0 < remaining
          then ''Expires in '' @ js_int (remaining div 60000) @ '':'' @ replicate (2 - length s) CHR ''0'' @ s
          else ''Lease expired'',
          0 < remaining \<and> remaining \<le> 300000, 0 < remaining \<and> remaining \<le> 60000))"

definition epoch_ms :: "int \<Rightarrow> int" where
  "epoch_ms v = (if v < 1000000000000 then v * 1000 else v)"

text \<open>\<open>friendlyWalletError\<close>; the patterns are searched without case.\<close>

definition any_rx :: rx where "any_rx = RStar (RCls (\<lambda>_. True))"

definition search :: "rx \<Rightarrow> string \<Rightarrow> bool" where
  "search r s \<longleftrightarrow> full (seqs [any_rx, r, any_rx]) (to_lower s)"

definition not_newline :: "char \<Rightarrow> bool" where
  "not_newline c \<longleftrightarrow> c \<noteq> CHR 0x0A \<and> c \<noteq> CHR 0x0D"

definition allowlist_rx :: rx where
  "allowlist_rx = seqs [lit ''origin'', RStar (RCls not_newline), lit ''allowlist'']"

definition friendlyWalletError :: "int option \<Rightarrow> string option \<Rightarrow> string" where
  "friendlyWalletError errorCode text =
     (let message = (case text of None \<Rightarrow> [] | Some m \<Rightarrow> m); has = (\<lambda>p. includes_sub (to_lower message) p)
      in if errorCode = Some 4001 \<or> has ''user rejected'' \<or> has ''user denied'' \<or> has ''modal closed'' \<or> has ''request reset''
         then ''Wallet login was canceled. No permissions were granted.''
         else if has ''proposal expired'' \<or> has ''request expired'' \<or> has ''timeout''
         then ''The wallet request expired. Try again and approve the login message promptly.''
         else if has ''invalid project'' \<or> has ''project id'' \<or> search allowlist_rx message \<or> has ''not configured''
         then ''Mobile/QR login is unavailable on this deployment. The operator must configure its Reown project and allowed domain.''
         else if message = [] then ''Wallet login failed. Please try again.'' else message)"

section \<open>Capabilities\<close>

definition capabilityLabels :: "(string \<times> string) list" where
  "capabilityLabels =
     [(''terminal'', ''Terminal''), (''files'', ''Browser files''), (''persistence'', ''Durable volume''), (''jobs'', ''Structured jobs''),
      (''bloom'', ''Bloom surface''), (''controlledEgress'', ''Package access''), (''ssh'', ''SSH''), (''nfs'', ''Native NFS'')]"

text \<open>\<open>renderCapabilities\<close>: the cards (label, status, reason), whether the persistent choice is disabled, and the choice of
  storage that is left when it is.\<close>

definition capability_cards :: "page_session \<Rightarrow> (string \<times> status \<times> string) list" where
  "capability_cards s = map (\<lambda>(name, label). (label, page_capability name s)) capabilityLabels"

definition storage_choice :: "page_session \<Rightarrow> storage_mode \<Rightarrow> bool \<times> storage_mode" where
  "storage_choice s chosen =
     (let disabled = fst (page_capability ''persistence'' s) \<noteq> Available
      in (disabled, if disabled \<and> chosen = Persistent then Disposable else chosen))"

text \<open>\<open>syncCapabilityControls\<close>: each control with whether it is disabled and its title, whether the connection form is shown,
  and whether the NFS option is disabled.\<close>

definition control_mappings :: "(string \<times> string) list" where
  "control_mappings =
     [(''refresh-files'', ''files''), (''upload-file'', ''files''), (''upload-path'', ''files''), (''upload-button'', ''files''),
      (''job-argv'', ''jobs''), (''job-cwd'', ''jobs''), (''job-timeout'', ''jobs''), (''add-environment'', ''jobs''), (''start-job'', ''jobs''),
      (''refresh-bloom'', ''bloom'')]"

definition syncCapabilityControls :: "page_session \<Rightarrow> (string \<times> bool \<times> string) list \<times> bool \<times> bool" where
  "syncCapabilityControls s =
     (map (\<lambda>(control, name). (control, \<not> isAvailable name s, if isAvailable name s then [] else snd (page_capability name s))) control_mappings
        @ map (\<lambda>control. (control, \<not> isAvailable ''ssh'' s, []))
            [''connection-public-key'', ''connection-mode'', ''connection-ttl'', ''issue-connection''],
      isAvailable ''ssh'' s, \<not> isAvailable ''nfs'' s)"

section \<open>The panel of the workspace\<close>

datatype workspace_title = Ready | ProvisioningFailed | QueuedAt "int option" | Starting | StoppingTitle | IsRunning

record workspace_panel =
  wp_title :: workspace_title
  wp_detail :: "string option"
  wp_create :: bool
  wp_stop :: bool
  wp_deleteVolume :: bool
  wp_console :: bool
  wp_storageDisabled :: bool
  wp_turnstile :: bool

text \<open>What \<open>renderWorkspace\<close> shows; a detail that is a fixed text with a dash or a date is \<open>None\<close>.\<close>

definition workspace_panel :: "page_session \<Rightarrow> public_workspace option \<Rightarrow> workspace_panel" where
  "workspace_panel s ws =
     (case ws of
        None \<Rightarrow>
          \<lparr>wp_title = Ready, wp_detail = Some ''One active workspace per wallet. Running sessions expire automatically.'', wp_create = True,
           wp_stop = False, wp_deleteVolume = False, wp_console = False, wp_storageDisabled = False,
           wp_turnstile = (ps_turnstileSiteKey s \<noteq> None)\<rparr>
      | Some w \<Rightarrow>
          if inactive ws
          then \<lparr>wp_title = (if pw_state w = Workspaces.Failed then ProvisioningFailed else Ready),
                wp_detail = Some (case pw_failure w of Some f \<Rightarrow> f | None \<Rightarrow> ''One active workspace per wallet. Running sessions expire automatically.''),
                wp_create = True, wp_stop = False, wp_deleteVolume = (pw_mode w = Persistent), wp_console = False,
                wp_storageDisabled = False, wp_turnstile = (ps_turnstileSiteKey s \<noteq> None)\<rparr>
          else \<lparr>wp_title = (case pw_state w of
                    Workspaces.Queued \<Rightarrow> QueuedAt (case pw_queuePosition w of Some n \<Rightarrow> if n = 0 then None else Some n | None \<Rightarrow> None)
                  | Provisioning \<Rightarrow> Starting | Stopping \<Rightarrow> StoppingTitle | _ \<Rightarrow> IsRunning),
                wp_detail = (case pw_state w of
                    Workspaces.Queued \<Rightarrow> Some ''Capacity is protected; this page will connect as soon as a machine is free.''
                  | Provisioning \<Rightarrow> Some ''Preparing the runtime and its bounded service channels.''
                  | Stopping \<Rightarrow> Some ''Connections are being revoked and runtime resources are being released.''
                  | _ \<Rightarrow> None),
                wp_create = False, wp_stop = True, wp_deleteVolume = False, wp_console = (pw_state w = Workspaces.Running),
                wp_storageDisabled = True, wp_turnstile = False\<rparr>)"

section \<open>Files\<close>

record file_entry =
  fe_path :: string
  fe_isFile :: bool
  fe_size :: "int option"

text \<open>\<open>renderFiles\<close> sorts directories first and then by name; \<open>before a b\<close> is \<open>a.localeCompare(b) \<le> 0\<close>. Sorting is stable.\<close>

definition file_le :: "(string \<Rightarrow> string \<Rightarrow> bool) \<Rightarrow> file_entry \<Rightarrow> file_entry \<Rightarrow> bool" where
  "file_le before a b \<longleftrightarrow> (\<not> fe_isFile a \<and> fe_isFile b) \<or> (fe_isFile a = fe_isFile b \<and> before (fe_path a) (fe_path b))"

fun insert_file :: "(string \<Rightarrow> string \<Rightarrow> bool) \<Rightarrow> file_entry \<Rightarrow> file_entry list \<Rightarrow> file_entry list" where
  "insert_file before a [] = [a]"
| "insert_file before a (b # bs) = (if file_le before a b then a # b # bs else b # insert_file before a bs)"

text \<open>A row: name, type, the size shown (\<open>None\<close> for the dash), and whether it has a download button.\<close>

definition file_row :: "file_entry \<Rightarrow> string \<times> string \<times> string option \<times> bool" where
  "file_row f =
     (fe_path f, if fe_isFile f then ''file'' else ''directory'',
      if fe_isFile f \<and> fe_size f \<noteq> None then Some (formatBytes (fe_size f)) else None, fe_isFile f)"

definition renderFiles :: "(string \<Rightarrow> string \<Rightarrow> bool) \<Rightarrow> file_entry list \<Rightarrow> (string \<times> string \<times> string option \<times> bool) list" where
  "renderFiles before files = map file_row (foldr (insert_file before) files [])"

text \<open>\<open>uploadFile\<close> up to its request: a message, or the path and the contents.\<close>

definition MAX_UPLOAD_BYTES :: int where "MAX_UPLOAD_BYTES = 8 * 1024 * 1024"

datatype upload_refusal = TooLarge string string | BadPath form_error

definition uploadFile :: "page_session \<Rightarrow> (string \<times> octets) option \<Rightarrow> string \<Rightarrow> (upload_refusal, 'b agent_op) res option" where
  "uploadFile s file path_field =
     (case (runningWorkspace s, file) of
        (Some w, Some (name, contents)) \<Rightarrow>
          Some (if MAX_UPLOAD_BYTES < int (length contents)
                then Inl (TooLarge (formatBytes (Some (int (length contents)))) (formatBytes (Some MAX_UPLOAD_BYTES)))
                else case normalizeWorkspacePath False (if path_field = [] then name else path_field) of
                  Inl e \<Rightarrow> Inl (BadPath e)
                | Inr path \<Rightarrow> Inr (WriteFileOp (pw_id w) path contents))
      | _ \<Rightarrow> None)"

definition download_name :: "string \<Rightarrow> string" where
  "download_name path = (let base = last (split_on (CHR ''/'') path) in if base = [] then ''download'' else base)"

section \<open>Tabs\<close>

datatype tab_key = Home | End | ArrowRight | ArrowLeft

definition next_tab :: "tab_key \<Rightarrow> int \<Rightarrow> int \<Rightarrow> int" where
  "next_tab key current n =
     (case key of Home \<Rightarrow> 0 | End \<Rightarrow> n - 1 | ArrowRight \<Rightarrow> (current + 1 + n) mod n | ArrowLeft \<Rightarrow> (current - 1 + n) mod n)"

section \<open>Bloom status\<close>

definition bloom_details :: "string \<Rightarrow> page_session \<Rightarrow> bloom_status option \<Rightarrow> (string \<times> string) list" where
  "bloom_details ellipsis s status =
     (case status of
        None \<Rightarrow> [(''Status'', snd (page_capability ''bloom'' s))]
      | Some b \<Rightarrow>
          [(''Mount'', if bs_mounted b then bs_mountPath b else ''Not mounted''),
           (''Identity'', case bs_identity b of
              Some (kind, address) \<Rightarrow> kind @ ''-only '' @ [CHR 0xB7] @ '' '' @ shortAddress ellipsis (Some address) | None \<Rightarrow> ''Unavailable''),
           (''Helper'', fst (bs_helper b) @ '' '' @ [CHR 0xB7] @ '' protocol v'' @ js_int (snd (bs_helper b))),
           (''Wallet signing'', if bs_walletSigning b then ''Enabled'' else ''Not available''),
           (''Transactions'', if bs_transactions b then ''Enabled'' else ''Not available'')])"

section \<open>Connection methods\<close>

text \<open>\<open>readConnectionMethods\<close> on a JSON value; a string field is cut or dropped.\<close>

record connection_method =
  cm_kind :: string
  cm_status :: status
  cm_reason :: string
  cm_command :: "string option"
  cm_instructions :: "string list"

fun json_field :: "string \<Rightarrow> json \<Rightarrow> json option" where
  "json_field key (JObj kvs) = map_of kvs key"
| "json_field key _ = None"

fun isRecord :: "json option \<Rightarrow> bool" where
  "isRecord (Some (JObj kvs)) = True"
| "isRecord _ = False"

fun method_status :: "json option \<Rightarrow> status option" where
  "method_status (Some (JStr t)) =
     (if t = ''available'' then Some Available else if t = ''disabled'' then Some Disabled
      else if t = ''unsupported'' then Some Unsupported else None)"
| "method_status _ = None"

fun method_reason :: "json option \<Rightarrow> string" where
  "method_reason (Some (JStr t)) = take 1000 t"
| "method_reason _ = ''No connection details were supplied.''"

fun method_command :: "json option \<Rightarrow> string option" where
  "method_command (Some (JStr t)) = (if length t \<le> 4096 \<and> t \<noteq> [] then Some t else None)"
| "method_command _ = None"

fun method_instructions :: "json option \<Rightarrow> string list" where
  "method_instructions (Some (JArr items)) = map (take 1000) (take 12 (map (the \<circ> as_string) (filter (\<lambda>i. as_string i \<noteq> None) items)))"
| "method_instructions _ = []"

definition read_method :: "json \<Rightarrow> string \<Rightarrow> connection_method list" where
  "read_method v kind =
     (case json_field kind v of
        Some (JObj kvs) \<Rightarrow>
          (case method_status (map_of kvs ''status'') of
             None \<Rightarrow> []
           | Some st \<Rightarrow>
               [\<lparr>cm_kind = kind, cm_status = st, cm_reason = method_reason (map_of kvs ''reason''),
                 cm_command = method_command (map_of kvs ''command''), cm_instructions = method_instructions (map_of kvs ''instructions'')\<rparr>])
      | _ \<Rightarrow> [])"

definition readConnectionMethods :: "json \<Rightarrow> connection_method list" where
  "readConnectionMethods v = (if isRecord (Some v) then concat (map (read_method v) [''ssh'', ''nfs'']) else [])"

text \<open>\<open>loadConnections\<close> after its reply: the methods to show, or the fallback \<open>renderConnectionFallback\<close> builds from the
  capabilities. A failed call is its status and message (\<open>None\<close> for an error that is not the API's).\<close>

definition connection_fallback :: "page_session \<Rightarrow> connection_method list" where
  "connection_fallback s =
     map (\<lambda>kind. \<lparr>cm_kind = kind, cm_status = fst (page_capability kind s), cm_reason = snd (page_capability kind s),
                   cm_command = None, cm_instructions = []\<rparr>) [''ssh'', ''nfs'']"

definition unwrap_connections :: "json \<Rightarrow> json" where
  "unwrap_connections v =
     (case v of
        JObj kvs \<Rightarrow> (case map_of kvs ''connections'' of Some c \<Rightarrow> if c = JNull then JObj kvs else c | None \<Rightarrow> JObj kvs)
      | _ \<Rightarrow> JObj [])"

definition connections_reply :: "page_session \<Rightarrow> ((nat \<times> string) option, json) res \<Rightarrow> string \<times> connection_method list" where
  "connections_reply s reply =
     (let hidden = ''This deployment does not expose a connection grant API. Use browser files and terminal.''
      in case reply of
           Inr v \<Rightarrow>
             (let methods = readConnectionMethods (unwrap_connections v)
              in if methods = [] then (hidden, connection_fallback s)
                 else (''Connection capabilities are scoped to this workspace and its lease.'', methods))
         | Inl (Some (status, message)) \<Rightarrow> (if status \<noteq> 404 \<and> status \<noteq> 501 then message else hidden, connection_fallback s)
         | Inl None \<Rightarrow> (hidden, connection_fallback s))"

section \<open>Connection grants\<close>

definition private_rx :: rx where
  "private_rx = seqs [lit ''begin '', plus (RCls (\<lambda>c. is_alpha c \<or> c = CHR '' '')), lit ''private'']"

definition looks_private :: "string \<Rightarrow> bool" where
  "looks_private key \<longleftrightarrow> includes_sub (to_lower key) ''private key'' \<or> search private_rx key"

definition public_line_rx :: rx where
  "public_line_rx =
     seqs [lit ''ssh-ed25519 '', plus (RCls is_b64), RRep (chr (CHR ''='')) 0 2, opt (RSeq (chr (CHR '' '')) (RStar (RCls not_newline)))]"

datatype issue_refusal = PrivateKey | NotPublicKey | NfsUnavailable string

text \<open>\<open>issueConnection\<close> up to its request: key, mode and lifetime of the body; \<open>None\<close> without a running workspace.\<close>

definition issueConnection ::
  "page_session \<Rightarrow> string \<Rightarrow> string \<Rightarrow> int \<Rightarrow> (issue_refusal, string \<times> ssh_lease_body) res option" where
  "issueConnection s key_field mode_field ttl =
     (case runningWorkspace s of
        None \<Rightarrow> None
      | Some w \<Rightarrow>
          let publicKey = trim key_field; mode = (if mode_field = ''nfs'' then ''nfs'' else ''shell'')
          in Some (if looks_private publicKey then Inl PrivateKey
                   else if \<not> full public_line_rx publicKey then Inl NotPublicKey
                   else if mode = ''nfs'' \<and> \<not> isAvailable ''nfs'' s then Inl (NfsUnavailable (snd (page_capability ''nfs'' s)))
                   else Inr (pw_id w, \<lparr>sb_publicKey = publicKey, sb_mode = mode, sb_requestedTtlMs = Some ttl\<rparr>)))"

record grant_view =
  gv_principal :: string
  gv_fingerprint :: string
  gv_alias :: string
  gv_knownHostsLine :: string
  gv_certificate :: string
  gv_transport :: string
  gv_protocol :: string
  gv_path :: string
  gv_proxyHelper :: string
  gv_validBefore :: int
  gv_sshArgv :: "string list option"
  gv_ceremonyArgv :: "string list option"
  gv_sshTunnelArgv :: "string list option"
  gv_mountArgv :: "string list option"
  gv_unmountArgv :: "string list option"
  gv_capability :: "(string option \<times> string option \<times> bool) option"

definition dot :: string where "dot = '' '' @ [CHR 0xB7] @ '' ''"

text \<open>\<open>renderConnectionGrant\<close>: the details and the texts to copy. The access token is not among them.\<close>

definition grant_details :: "(int \<Rightarrow> string) \<Rightarrow> grant_view \<Rightarrow> (string \<times> string) list" where
  "grant_details show_date g =
     [(''Principal'', gv_principal g), (''Public-key fingerprint'', gv_fingerprint g), (''Host alias'', gv_alias g),
      (''Transport'', gv_protocol g @ '' over '' @ gv_transport g), (''Valid until'', show_date (epoch_ms (gv_validBefore g)))]"

definition grant_commands :: "(string list \<Rightarrow> string) \<Rightarrow> grant_view \<Rightarrow> (string \<times> string) list" where
  "grant_commands stringify g =
     [(''Known-hosts entry'', gv_knownHostsLine g), (''SSH certificate'', gv_certificate g), (''Proxy helper'', gv_proxyHelper g @ dot @ gv_path g)]
     @ concat (map (\<lambda>(label, argv). case argv of None \<Rightarrow> [] | Some a \<Rightarrow> [(label, stringify a)])
         [(''Connect with SSH'' @ dot @ ''argv'', gv_sshArgv g), (''SSH with ceremony port forward'' @ dot @ ''argv'', gv_ceremonyArgv g),
          (''Start private SSH tunnel'' @ dot @ ''argv'', gv_sshTunnelArgv g), (''Mount NFS'' @ dot @ ''argv'', gv_mountArgv g),
          (''Unmount NFS'' @ dot @ ''argv'', gv_unmountArgv g)])"

definition grant_note :: "grant_view \<Rightarrow> string option" where
  "grant_note g =
     (case gv_capability g of
        Some (status, Some (c # cs), admin) \<Rightarrow>
          Some ((case status of None \<Rightarrow> ''NFS'' | Some st \<Rightarrow> st) @ '': '' @ (c # cs)
                @ (if admin then '' Administrator access is required on the client.'' else []))
      | _ \<Rightarrow> None)"

section \<open>Pending approvals\<close>

text \<open>\<open>showCeremonyNotification\<close>: what a banner offers besides the plan. \<open>webauthn\<close> is whether the browser has it.\<close>

datatype ceremony_offer =
    CustodyCommand string
  | ApproveHere "string option"
  | CeremonyLink string
  | SshHint

definition custody_command :: "ceremony_request \<Rightarrow> string" where
  "custody_command r =
     (let intent = (case cq_intent r of None \<Rightarrow> ''{}'' | Some i \<Rightarrow> i)
      in ''bloom wallet stage '' @ cq_wallet r @ '' '' @ cq_chain r @ '' --intent '' @ [CHR 0x27] @ intent @ [CHR 0x27] @ [CHR 0x0A]
         @ ''# then, with the returned <id>:'' @ [CHR 0x0A] @ ''bloom wallet confirm '' @ cq_wallet r @ '' '' @ cq_chain r @ '' <id>'')"

definition url_of :: "ceremony_request \<Rightarrow> string option" where
  "url_of r = (case cq_ceremonyUrl r of Some (c # cs) \<Rightarrow> Some (c # cs) | _ \<Rightarrow> None)"

definition showCeremonyNotification :: "bool \<Rightarrow> ceremony_request \<Rightarrow> string \<times> ceremony_offer" where
  "showCeremonyNotification webauthn r =
     (cq_planMd r,
      if cq_custody r then CustodyCommand (custody_command r)
      else if (case cq_challenge r of Some (c # cs) \<Rightarrow> webauthn | _ \<Rightarrow> False) then ApproveHere (url_of r)
      else case url_of r of Some url \<Rightarrow> CeremonyLink url | None \<Rightarrow> SshHint)"

text \<open>\<open>approveCeremony\<close>: the challenge given to the authenticator, and the body of the approval. \<open>atob\<close> and \<open>btoa\<close> are those
  of \<open>Encoding\<close>.\<close>

record assertion =
  as_rawId :: octets
  as_authenticatorData :: octets
  as_clientDataJSON :: octets
  as_signature :: octets

definition ceremony_challenge :: "bool \<Rightarrow> ceremony_request \<Rightarrow> octets option" where
  "ceremony_challenge webauthn r =
     (case cq_challenge r of Some (c # cs) \<Rightarrow> if webauthn then Some (base64_decode (c # cs)) else None | _ \<Rightarrow> None)"

definition assertion_body :: "assertion \<Rightarrow> json" where
  "assertion_body a =
     JObj [(''assertion'', JObj
       [(''credentialId'', JStr (base64_encode (as_rawId a))), (''authenticatorData'', JStr (base64_encode (as_authenticatorData a))),
        (''clientDataJSON'', JStr (base64_encode (as_clientDataJSON a))), (''signature'', JStr (base64_encode (as_signature a)))])]"

definition approveCeremony :: "string \<Rightarrow> ceremony_request \<Rightarrow> assertion \<Rightarrow> json agent_op" where
  "approveCeremony wid r a = CeremonyApproveOp wid (cq_id r) (assertion_body a)"

section \<open>Confirmations\<close>

definition delete_question :: "page_session \<Rightarrow> file_entry \<Rightarrow> string \<times> string" where
  "delete_question s f =
     (''Delete '' @ (if fe_isFile f then ''file'' else ''directory'') @ ''?'',
      fe_path f @ '' will be removed from /workspace. This cannot be undone''
        @ (case ps_workspace s of Some w \<Rightarrow> if pw_retainedAfterStop w then '', even though the volume is persistent'' else [] | None \<Rightarrow> []) @ ''.'')"

definition stop_question :: "public_workspace \<Rightarrow> string" where
  "stop_question w =
     (if pw_retainedAfterStop w then ''The machine and active jobs will stop. Files on the persistent volume will be retained.''
      else ''The machine, active jobs, and disposable files will be deleted.'')"

section \<open>Properties\<close>

text \<open>The panel always offers exactly one of creating and stopping; the console is shown for a running workspace only, and a
  volume can be deleted only when no machine runs.\<close>

lemma panel_consistent:
  "wp_create (workspace_panel s ws) = (\<not> wp_stop (workspace_panel s ws))
   \<and> (wp_console (workspace_panel s ws) \<longleftrightarrow> (\<exists>w. ws = Some w \<and> pw_state w = Workspaces.Running))
   \<and> (wp_deleteVolume (workspace_panel s ws) \<longrightarrow> wp_create (workspace_panel s ws) \<and> \<not> wp_console (workspace_panel s ws))"
  by (cases ws) (auto simp: workspace_panel_def inactive_def)

lemma plus_cls: "w \<in> lang (plus (RCls P)) \<Longrightarrow> \<forall>c \<in> set w. P c"
  by (auto simp: plus_def in_lang_Seq in_lang_Cls in_lang_Star_Cls)

lemma rep_chr: "w \<in> lang (RRep (chr c) m n) \<Longrightarrow> set w \<subseteq> {c}"
  by (auto simp: chr_def in_lang_Rep_Cls)

lemma public_line_shape:
  assumes "full public_line_rx key"
  shows "starts_with key ''ssh-ed25519 ''" "\<forall>c \<in> set key. not_newline c"
proof -
  obtain a b c d where k: "key = a @ b @ c @ d" and m: "a \<in> lang (lit ''ssh-ed25519 '')" "b \<in> lang (plus (RCls is_b64))"
    "c \<in> lang (RRep (chr (CHR ''='')) 0 2)" "d \<in> lang (opt (RSeq (chr (CHR '' '')) (RStar (RCls not_newline))))"
    using assms unfolding full_iff public_line_rx_def in_lang_seqs_Cons in_lang_seqs_Nil by auto
  have a: "a = ''ssh-ed25519 ''" using m(1) unfolding in_lang_lit .
  then show "starts_with key ''ssh-ed25519 ''" by (simp add: k starts_with_def)
  have "\<forall>x \<in> set a. not_newline x" unfolding a by code_simp
  moreover have "\<forall>x \<in> set b. not_newline x" using plus_cls[OF m(2)]
    by (auto simp: is_b64_def not_newline_def char_class_defs code_def)
  moreover have "\<forall>x \<in> set c. not_newline x" using rep_chr[OF m(3)] by (auto simp: not_newline_def)
  moreover have "\<forall>x \<in> set d. not_newline x"
  proof (cases "d = []")
    case False
    then obtain u v where "d = u @ v" "u \<in> lang (chr (CHR '' ''))" "v \<in> lang (RStar (RCls not_newline))"
      using m(4) unfolding in_lang_opt in_lang_Seq by blast
    then show ?thesis by (auto simp: in_lang_chr in_lang_Star_Cls not_newline_def)
  qed simp
  ultimately show "\<forall>c \<in> set key. not_newline c" by (auto simp: k)
qed

text \<open>C21. The connection form never sends a private key. Whatever is pasted into it, a request is sent only for a running
  workspace, and the key in it is the pasted text without surrounding blanks, one line that begins with the name of the
  Ed25519 public-key format and nowhere speaks of a private key; text of several lines, as every private key file has,
  is never sent. NFS is asked for only where the deployment offers it.
\<close>
theorem connection_form_sends_public_keys:
  assumes "issueConnection s key_field mode_field ttl = Some (Inr (wid, body))"
  shows "sb_publicKey body = trim key_field
    \<and> starts_with (sb_publicKey body) ''ssh-ed25519 '' \<and> CHR 0x0A \<notin> set (sb_publicKey body) \<and> CHR 0x0D \<notin> set (sb_publicKey body)
    \<and> \<not> includes_sub (to_lower (sb_publicKey body)) ''private key''
    \<and> (\<exists>w. runningWorkspace s = Some w \<and> wid = pw_id w)
    \<and> (sb_mode body = ''nfs'' \<longrightarrow> isAvailable ''nfs'' s) \<and> sb_mode body \<in> {''shell'', ''nfs''}"
proof -
  obtain w where w: "runningWorkspace s = Some w" using assms by (auto simp: issueConnection_def split: option.splits)
  have b: "\<not> looks_private (trim key_field)" "full public_line_rx (trim key_field)" "wid = pw_id w"
    "body = \<lparr>sb_publicKey = trim key_field, sb_mode = (if mode_field = ''nfs'' then ''nfs'' else ''shell''), sb_requestedTtlMs = Some ttl\<rparr>"
    "mode_field = ''nfs'' \<longrightarrow> isAvailable ''nfs'' s"
    using assms w by (auto simp: issueConnection_def Let_def split: if_splits)
  then show ?thesis
    using w public_line_shape[OF b(2)] by (auto simp: looks_private_def not_newline_def)
qed

text \<open>Connection methods are bounded whatever the server answers, and carry nothing but the reviewed fields.\<close>

lemma method_reason_bound: "length (method_reason x) \<le> 1000"
  by (cases x rule: method_reason.cases) simp_all

lemma method_command_bound: "method_command x = Some c \<Longrightarrow> c \<noteq> [] \<and> length c \<le> 4096"
  by (cases x rule: method_command.cases) (auto split: if_splits)

lemma method_instructions_bound:
  "length (method_instructions x) \<le> 12" "i \<in> set (method_instructions x) \<Longrightarrow> length i \<le> 1000"
  by (cases x rule: method_instructions.cases; auto)+

lemmas method_field_bounds = method_reason_bound method_command_bound method_instructions_bound

lemma read_method_bounded:
  "m \<in> set (read_method v kind) \<Longrightarrow>
     cm_kind m = kind \<and> length (cm_reason m) \<le> 1000 \<and> (\<forall>c. cm_command m = Some c \<longrightarrow> c \<noteq> [] \<and> length c \<le> 4096)
     \<and> length (cm_instructions m) \<le> 12 \<and> (\<forall>i \<in> set (cm_instructions m). length i \<le> 1000)"
  by (auto simp: read_method_def method_field_bounds split: option.splits json.splits dest: method_field_bounds(2,4))

lemma connection_methods_bounded:
  "length (readConnectionMethods v) \<le> 2 \<and> (\<forall>m \<in> set (readConnectionMethods v). cm_kind m \<in> {''ssh'', ''nfs''}
     \<and> length (cm_reason m) \<le> 1000 \<and> (\<forall>c. cm_command m = Some c \<longrightarrow> length c \<le> 4096)
     \<and> length (cm_instructions m) \<le> 12 \<and> (\<forall>i \<in> set (cm_instructions m). length i \<le> 1000))"
proof -
  have "length (read_method v kind) \<le> 1" for kind by (auto simp: read_method_def split: option.splits json.splits)
  then have "length (read_method v ''ssh'') + length (read_method v ''nfs'') \<le> 2" by (metis add_mono one_add_one)
  then show ?thesis using read_method_bounded[of _ v "''ssh''"] read_method_bounded[of _ v "''nfs''"] by (auto simp: readConnectionMethods_def)
qed

text \<open>The unit is the largest in which the size is at least 1, up to TiB.\<close>

lemma unit_index_range:
  "index \<le> 3 \<Longrightarrow> index \<le> unit_index b index \<and> unit_index b index \<le> 3
     \<and> (unit_index b index < 3 \<longrightarrow> b < 1024 * 1024 ^ Suc (unit_index b index))
     \<and> (index < unit_index b index \<longrightarrow> 1024 ^ Suc (unit_index b index) \<le> b)"
proof (induction b index rule: unit_index.induct)
  case (1 b index)
  show ?case
  proof (cases "1024 * 1024 ^ Suc index \<le> b \<and> index < 3")
    case True
    then have u: "unit_index b index = unit_index b (Suc index)" by (simp add: unit_index.simps[of b index])
    have ih: "Suc index \<le> unit_index b (Suc index) \<and> unit_index b (Suc index) \<le> 3
      \<and> (unit_index b (Suc index) < 3 \<longrightarrow> b < 1024 * 1024 ^ Suc (unit_index b (Suc index)))
      \<and> (Suc index < unit_index b (Suc index) \<longrightarrow> 1024 ^ Suc (unit_index b (Suc index)) \<le> b)"
      using 1(1)[OF True] True by simp
    show ?thesis
    proof (cases "unit_index b (Suc index) = Suc index")
      case True
      then show ?thesis using ih u \<open>1024 * 1024 ^ Suc index \<le> b \<and> index < 3\<close> by simp
    next
      case False
      then show ?thesis using ih u by simp
    qed
  next
    case False
    then have "unit_index b index = index" by (subst unit_index.simps) (simp only: if_False)
    then show ?thesis using False 1(2) by auto
  qed
qed

text \<open>The command of a custody request is meant to be pasted into a shell of the user's own machine. The intent comes from the
  workspace and is put between single quotes as it is: a quote in it ends the argument, and what follows is the shell's.\<close>

lemma custody_command_unescaped:
  "custody_command \<lparr>cq_id = ''i'', cq_chain = ''base'', cq_wallet = ''w'', cq_planMd = [], cq_ceremonyUrl = None, cq_challenge = None,
      cq_intent = Some ([CHR 0x27] @ '' ; reboot ; '' @ [CHR 0x27]), cq_custody = True\<rparr>
    = ''bloom wallet stage w base --intent '' @ [CHR 0x27, CHR 0x27] @ '' ; reboot ; '' @ [CHR 0x27, CHR 0x27, CHR 0x0A]
      @ ''# then, with the returned <id>:'' @ [CHR 0x0A] @ ''bloom wallet confirm w base <id>''"
  by (simp add: custody_command_def)

text \<open>The octets of an assertion reach the body of the approval unchanged.\<close>

lemma assertion_roundtrip:
  "base64_decode (base64_encode (as_signature a)) = as_signature a" "base64_decode (base64_encode (as_clientDataJSON a)) = as_clientDataJSON a"
  by (rule base64_decode_encode)+

lemma insert_file_set: "mset (insert_file before a bs) = add_mset a (mset bs)"
  by (induction bs) simp_all

lemma renderFiles_all: "mset (renderFiles before files) = mset (map file_row files)"
proof -
  have "mset (foldr (insert_file before) files []) = mset files" by (induction files) (simp_all add: insert_file_set)
  then show ?thesis by (simp add: renderFiles_def)
qed

lemma connection_form_sends_public_keys_witness:
  "starts_with ''ssh-ed25519 AAAA me'' ''ssh-ed25519 ''"
proof -
  have "issueConnection (sample_session (Some (sample_workspace ''w'' Workspaces.Running))) '' ssh-ed25519 AAAA me '' ''shell'' 60000
      = Some (Inr (''w'', \<lparr>sb_publicKey = ''ssh-ed25519 AAAA me'', sb_mode = ''shell'', sb_requestedTtlMs = Some 60000\<rparr>))"
    by code_simp
  from connection_form_sends_public_keys[OF this, THEN conjunct2, THEN conjunct1] show ?thesis by (simp only: ssh_lease_body.select_convs)
qed

end
