(* ===== verification/Spec2Isabelle.thy ===== *)
theory Spec2Isabelle
  imports Prelude RegExps NodeNet EgressPolicy EgressTls Admission EgressProxy Workspaces SshLeases SshPlans Jobs GuestFiles DataFiles Auth Runtimes AgentServer JobStream ControlServer AgentClient WebClient ControlRoutes WebForms
begin

text \<open>
  Verification development of Bloom Workspaces (skeleton).
\<close>

end
